(* ===== verification/Zygo_Prelude.thy ===== *)
theory Zygo_Prelude
  imports Main "HOL-Library.Word"
begin

text \<open>
  The prelude of the development: the types and small combinators that every component
  uses, and the fact collections the component proofs share.

  A Rust \<open>Result<T, E>\<close> is the sum \<open>'e + 'a\<close>, with \<open>Inl\<close> for \<open>Err\<close> and \<open>Inr\<close>
  for \<open>Ok\<close>; an \<open>Option<T>\<close> is \<open>'a option\<close>. The \<open>?\<close> operator is
  \<open>and_then\<close>.
\<close>

named_theorems result_simps "equations of the result combinators"

type_synonym byte = "8 word"
type_synonym u8 = "8 word"
type_synonym u16 = "16 word"
type_synonym u32 = "32 word"
type_synonym u64 = "64 word"

section \<open>Results\<close>

fun and_then :: "'e + 'a \<Rightarrow> ('a \<Rightarrow> 'e + 'b) \<Rightarrow> 'e + 'b" where
  "and_then (Inl e) f = Inl e"
| "and_then (Inr a) f = f a"

fun map_ok :: "('a \<Rightarrow> 'b) \<Rightarrow> 'e + 'a \<Rightarrow> 'e + 'b" where
  "map_ok f (Inl e) = Inl e"
| "map_ok f (Inr a) = Inr (f a)"

fun map_err :: "('e \<Rightarrow> 'f) \<Rightarrow> 'e + 'a \<Rightarrow> 'f + 'a" where
  "map_err f (Inl e) = Inl (f e)"
| "map_err f (Inr a) = Inr a"

fun ok_or :: "'e \<Rightarrow> 'a option \<Rightarrow> 'e + 'a" where
  "ok_or e None = Inl e"
| "ok_or e (Some a) = Inr a"

fun is_ok :: "'e + 'a \<Rightarrow> bool" where
  "is_ok (Inl e) \<longleftrightarrow> False"
| "is_ok (Inr a) \<longleftrightarrow> True"

lemma and_then_Inr_iff [result_simps]:
  "and_then r f = Inr b \<longleftrightarrow> (\<exists>a. r = Inr a \<and> f a = Inr b)"
  by (cases r) auto

lemma and_then_Inl_iff [result_simps]:
  "and_then r f = Inl e \<longleftrightarrow> r = Inl e \<or> (\<exists>a. r = Inr a \<and> f a = Inl e)"
  by (cases r) auto

lemma map_ok_Inr_iff [result_simps]:
  "map_ok f r = Inr b \<longleftrightarrow> (\<exists>a. r = Inr a \<and> b = f a)"
  by (cases r) auto

lemma map_err_Inr_iff [result_simps]: "map_err f r = Inr b \<longleftrightarrow> r = Inr b"
  by (cases r) auto

lemma map_ok_Inl_iff [result_simps]: "map_ok f r = Inl e \<longleftrightarrow> r = Inl e"
  by (cases r) auto

lemma map_err_Inl_iff [result_simps]:
  "map_err f r = Inl e \<longleftrightarrow> (\<exists>e'. r = Inl e' \<and> e = f e')"
  by (cases r) auto

lemma ok_or_Inr_iff [result_simps]: "ok_or e r = Inr b \<longleftrightarrow> r = Some b"
  by (cases r) auto

lemma is_ok_iff [result_simps]: "is_ok r \<longleftrightarrow> (\<exists>a. r = Inr a)"
  by (cases r) auto

section \<open>Lists\<close>

lemma takeWhile_eq_self_iff: "takeWhile P xs = xs \<longleftrightarrow> (\<forall>x \<in> set xs. P x)"
  by (induction xs) auto

lemma takeWhile_append_stop:
  assumes "\<forall>x \<in> set xs. P x" and "\<not> P y"
  shows "takeWhile P (xs @ y # ys) = xs" and "dropWhile P (xs @ y # ys) = y # ys"
  using assms by (induction xs) auto

lemma sum_list_replicate_const: "sum_list (replicate n (k::nat)) = n * k"
  by (induction n) auto

lemma set_map_filter: "set (List.map_filter f xs) = {y. \<exists>x \<in> set xs. f x = Some y}"
  by (induction xs) (auto split: option.splits)

lemma map_filter_append: "List.map_filter f (xs @ ys) = List.map_filter f xs @ List.map_filter f ys"
  by (simp add: List.map_filter_def)

lemma map_filter_None: "\<forall>x \<in> set xs. f x = None \<Longrightarrow> List.map_filter f xs = []"
  by (induction xs) (auto simp: List.map_filter_simps)

lemma find_append_case:
  "find P (xs @ ys) = (case find P xs of Some x \<Rightarrow> Some x | None \<Rightarrow> find P ys)"
  by (induction xs) auto

text \<open>Three facts about the last element of a list that satisfies a predicate.\<close>

lemma find_unique:
  assumes "x \<in> set xs" and "P x" and "\<forall>y \<in> set xs. P y \<longrightarrow> y = x"
  shows "find P xs = Some x"
proof -
  have "find P xs \<noteq> None"
    using assms(1,2) by (auto simp: find_None_iff)
  then obtain y where y: "find P xs = Some y"
    by auto
  then have "y \<in> set xs \<and> P y"
    by (metis find_Some_iff nth_mem)
  with y assms(3) show ?thesis
    by simp
qed

lemma find_rev_map: "find P (rev (map f xs)) = map_option f (find (P \<circ> f) (rev xs))"
proof -
  have "find P (map f ys) = map_option f (find (P \<circ> f) ys)" for ys
    by (induction ys) auto
  then show ?thesis
    by (simp add: rev_map)
qed

lemma find_rev_last:
  assumes "P y" and "\<forall>z \<in> set b. \<not> P z"
  shows "find P (rev (a @ y # b)) = Some y"
proof -
  have "find P (rev b) = None"
    using assms(2) by (simp add: find_None_iff)
  then show ?thesis
    using assms(1) by (simp add: find_append_case)
qed

lemma find_rev_sort_key:
  assumes "x \<in> set xs" and "P x" and "\<forall>y \<in> set xs. P y \<longrightarrow> y = x \<or> k y < k x"
  shows "find P (rev (sort_key k xs)) = Some x"
proof -
  have "\<exists>y \<in> set (sort_key k xs). P y"
    using assms(1,2) by auto
  then obtain a y b where ys: "sort_key k xs = a @ y # b" "P y" "\<forall>z \<in> set b. \<not> P z"
    by (rule split_list_last_propE)
  have "sorted (map k (sort_key k xs))" "set (sort_key k xs) = set xs"
    by simp_all
  then have "\<forall>z \<in> set a. k z \<le> k y" "set xs = set a \<union> {y} \<union> set b"
    unfolding ys(1) by (auto simp: sorted_append)
  then have "y = x"
    using assms ys(2,3) by force
  then show ?thesis
    using find_rev_last [OF ys(2,3)] by (simp add: ys(1))
qed

section \<open>Interfaces shared by several components\<close>

text \<open>
  Several types are read from a string and printed back (references, scalars, blocks of
  addresses). The contract is the same for each of them: on well-formed values, parsing
  what was printed gives the value back. What follows from the contract (printing is
  injective, and printing a parsed value is a normal form) is proved once, here.
\<close>

locale parse_print =
  fixes parse :: "string \<Rightarrow> 'e + 'a"
    and print :: "'a \<Rightarrow> string"
    and wf :: "'a \<Rightarrow> bool"
  assumes parse_print: "wf x \<Longrightarrow> parse (print x) = Inr x"
begin

lemma print_inj: "wf x \<Longrightarrow> wf y \<Longrightarrow> print x = print y \<Longrightarrow> x = y"
  by (metis Inr_inject parse_print)

lemma normal_form:
  assumes "parse s = Inr x" and "wf x"
  shows "map_ok print (parse (print x)) = Inr (print x)"
  using assms by (simp add: parse_print)

end

section \<open>The least of a list\<close>

text \<open>\<open>Iterator::min_by_key\<close>: the first of the least.\<close>

fun min_by_key :: "('a \<Rightarrow> nat) \<Rightarrow> 'a list \<Rightarrow> 'a option" where
  "min_by_key f [] = None"
| "min_by_key f (x # xs) =
     (case min_by_key f xs of
        None \<Rightarrow> Some x
      | Some y \<Rightarrow> if f y < f x then Some y else Some x)"

lemma min_by_key_None [simp]: "min_by_key f xs = None \<longleftrightarrow> xs = []"
  by (cases xs) (auto split: option.splits)

lemma min_by_key_Some: "min_by_key f xs = Some y \<Longrightarrow> y \<in> set xs \<and> (\<forall>x \<in> set xs. f y \<le> f x)"
  by (induction xs arbitrary: y) (fastforce split: option.splits if_splits)+

end
