(* ===== verification/Zygo_Frame.thy ===== *)
theory Zygo_Frame
  imports Rust_Nums
begin

text \<open>
  Length-prefixed framing (\<open>crates/zygo-core/src/protocol/frame.rs\<close>): the writer and the
  reader that the agent wire and the supervisor's control socket share.

  A \<open>Read\<close> is modelled by what its successive calls return: a list of \<open>read_event\<close>s,
  at whose end every call returns \<open>Ok(0)\<close>. A call that is given a shorter buffer than the
  data at hand takes what fits and leaves the rest. The JSON library is a parameter: \<open>to_vec\<close>
  and \<open>from_slice\<close> are functions of the model's operations, and what is assumed of them is
  written in the statements that need it.
\<close>

section \<open>Constants and errors\<close>

definition MAX_FRAME_BYTES :: nat where
  "MAX_FRAME_BYTES = 32 * 1024 * 1024"

definition HEADER_BYTES :: nat where
  "HEADER_BYTES = 4"

datatype ('j, 'i) frame_error =
    TooLarge (size: nat)
  | Truncated (got: nat) (want: nat)
  | Json 'j
  | Io 'i

section \<open>Encoding and decoding one message\<close>

definition encode :: "('m \<Rightarrow> 'j + byte list) \<Rightarrow> 'm \<Rightarrow> ('j, 'i) frame_error + byte list" where
  "encode to_vec msg =
     and_then (map_err Json (to_vec msg)) (\<lambda>body.
       if length body > MAX_FRAME_BYTES then Inl (TooLarge (length body))
       else Inr (u32_be (word_of_nat (length body)) @ body))"

definition decode :: "(byte list \<Rightarrow> 'j + 'm) \<Rightarrow> byte list \<Rightarrow> ('j, 'i) frame_error + 'm" where
  "decode from_slice body = map_err Json (from_slice body)"

section \<open>The byte source\<close>

datatype 'i read_event =
    Data "byte list"
  | Interrupted
  | Failed 'i

type_synonym 'i source = "'i read_event list"

text \<open>
  Fill a buffer of \<open>n\<close> bytes: the count or the error, the bytes that were put into the
  buffer (fewer than \<open>n\<close> only at end of stream or on an error), and the source after.
\<close>

fun read_exact_or_eof ::
  "'i source \<Rightarrow> nat \<Rightarrow> ('i + nat) \<times> byte list \<times> 'i source" where
  "read_exact_or_eof src 0 = (Inr 0, [], src)"
| "read_exact_or_eof [] n = (Inr 0, [], [])"
| "read_exact_or_eof (Interrupted # src) n = read_exact_or_eof src n"
| "read_exact_or_eof (Failed e # src) n = (Inl e, [], src)"
| "read_exact_or_eof (Data bs # src) n =
     (if bs = [] then (Inr 0, [], src)
      else if length bs \<le> n then
        (case read_exact_or_eof src (n - length bs) of
           (res, filled, src') \<Rightarrow> (map_ok ((+) (length bs)) res, bs @ filled, src'))
      else (Inr n, take n bs, Data (drop n bs) # src))"

section \<open>The reader\<close>

record 'i frame_reader =
  inner :: "'i source"
  buf :: "byte list"

definition reader_new :: "'i source \<Rightarrow> 'i frame_reader" where
  "reader_new src = \<lparr>inner = src, buf = []\<rparr>"

definition header_size :: "byte list \<Rightarrow> nat" where
  "header_size h = unat (u32_of_be (h ! 0) (h ! 1) (h ! 2) (h ! 3))"

definition frame_read ::
  "(byte list \<Rightarrow> 'j + 'm) \<Rightarrow> 'i frame_reader
     \<Rightarrow> (('j, 'i) frame_error + 'm option) \<times> 'i frame_reader" where
  "frame_read from_slice r =
     (case read_exact_or_eof (inner r) HEADER_BYTES of
        (Inl e, _, src) \<Rightarrow> (Inl (Io e), r\<lparr>inner := src\<rparr>)
      | (Inr n, header, src) \<Rightarrow>
          let r1 = r\<lparr>inner := src\<rparr> in
          if n = 0 then (Inr None, r1)
          else if n < HEADER_BYTES then (Inl (Truncated n HEADER_BYTES), r1)
          else
            let size = header_size header in
            if size > MAX_FRAME_BYTES then (Inl (TooLarge size), r1)
            else
              (case read_exact_or_eof src size of
                 (res, body, src') \<Rightarrow>
                   let r2 = r1\<lparr>inner := src', buf := body @ replicate (size - length body) 0\<rparr> in
                   (case res of
                      Inl e \<Rightarrow> (Inl (Io e), r2)
                    | Inr m \<Rightarrow>
                        if m < size then (Inl (Truncated m size), r2)
                        else (map_ok Some (decode from_slice (buf r2)), r2))))"

text \<open>Reading frame after frame, as the callers' loops do.\<close>

fun read_frames ::
  "(byte list \<Rightarrow> 'j + 'm) \<Rightarrow> nat \<Rightarrow> 'i frame_reader
     \<Rightarrow> (('j, 'i) frame_error + 'm option) list \<times> 'i frame_reader" where
  "read_frames from_slice 0 r = ([], r)"
| "read_frames from_slice (Suc n) r =
     (let (x, r1) = frame_read from_slice r; (xs, r2) = read_frames from_slice n r1
      in (x # xs, r2))"

section \<open>The writer\<close>

text \<open>
  The sink's \<open>write_all\<close> and \<open>flush\<close> are the \<open>Write\<close> implementation's; for a
  \<open>Vec<u8>\<close>, which never fails, they are \<open>vec_write_all\<close> and \<open>vec_flush\<close>.
\<close>

definition frame_write ::
  "('w \<Rightarrow> byte list \<Rightarrow> ('i + unit) \<times> 'w) \<Rightarrow> ('w \<Rightarrow> ('i + unit) \<times> 'w)
     \<Rightarrow> ('m \<Rightarrow> 'j + byte list) \<Rightarrow> 'w \<Rightarrow> 'm \<Rightarrow> (('j, 'i) frame_error + unit) \<times> 'w" where
  "frame_write write_all flush to_vec w msg =
     (case encode to_vec msg of
        Inl e \<Rightarrow> (Inl e, w)
      | Inr bytes \<Rightarrow>
          (case write_all w bytes of
             (Inl e, w1) \<Rightarrow> (Inl (Io e), w1)
           | (Inr _, w1) \<Rightarrow>
               (case flush w1 of
                  (Inl e, w2) \<Rightarrow> (Inl (Io e), w2)
                | (Inr _, w2) \<Rightarrow> (Inr (), w2))))"

definition vec_write_all :: "byte list \<Rightarrow> byte list \<Rightarrow> ('i + unit) \<times> byte list" where
  "vec_write_all w bytes = (Inr (), w @ bytes)"

definition vec_flush :: "byte list \<Rightarrow> ('i + unit) \<times> byte list" where
  "vec_flush w = (Inr (), w)"

fun write_frames ::
  "('m \<Rightarrow> 'j + byte list) \<Rightarrow> byte list \<Rightarrow> 'm list \<Rightarrow> (('j, 'i) frame_error + unit) \<times> byte list" where
  "write_frames to_vec w [] = (Inr (), w)"
| "write_frames to_vec w (m # ms) =
     (case frame_write vec_write_all vec_flush to_vec w m of
        (Inl e, w1) \<Rightarrow> (Inl e, w1)
      | (Inr _, w1) \<Rightarrow> write_frames to_vec w1 ms)"

section \<open>What a source delivers\<close>

text \<open>
  A source is \<open>steady\<close> when it delivers all of its bytes: it may be interrupted and may cut
  them anywhere, but it does not fail and does not report an early end.
\<close>

fun delivered :: "'i source \<Rightarrow> byte list" where
  "delivered [] = []"
| "delivered (Data bs # src) = bs @ delivered src"
| "delivered (Interrupted # src) = delivered src"
| "delivered (Failed e # src) = delivered src"

fun steady :: "'i source \<Rightarrow> bool" where
  "steady [] \<longleftrightarrow> True"
| "steady (Data bs # src) \<longleftrightarrow> bs \<noteq> [] \<and> steady src"
| "steady (Interrupted # src) \<longleftrightarrow> steady src"
| "steady (Failed e # src) \<longleftrightarrow> False"

lemma read_exact_steady:
  assumes "steady src"
  shows "\<exists>src'. read_exact_or_eof src n
             = (Inr (min n (length (delivered src))), take n (delivered src), src')
           \<and> delivered src' = drop n (delivered src) \<and> steady src'"
  using assms
proof (induction src n rule: read_exact_or_eof.induct)
  case (5 bs src n)
  show ?case
  proof (cases "length bs \<le> Suc n")
    case True
    with 5 obtain src' where
      "read_exact_or_eof src (Suc n - length bs)
         = (Inr (min (Suc n - length bs) (length (delivered src))),
            take (Suc n - length bs) (delivered src), src')"
      "delivered src' = drop (Suc n - length bs) (delivered src)" "steady src'"
      by auto
    with True 5(2) show ?thesis by auto
  next
    case False
    with 5(2) show ?thesis by auto
  qed
qed auto

lemma read_exact_length:
  "read_exact_or_eof src n = (res, bs, src') \<Longrightarrow> length bs \<le> n"
proof (induction src n arbitrary: res bs src' rule: read_exact_or_eof.induct)
  case (5 bs' src n)
  show ?case
  proof (cases "bs' \<noteq> [] \<and> length bs' \<le> Suc n")
    case True
    obtain res1 filled src1 where
      rec: "read_exact_or_eof src (Suc n - length bs') = (res1, filled, src1)"
      by (metis prod_cases3)
    with True 5(1) have "length filled \<le> Suc n - length bs'"
      by blast
    with True rec 5(2) show ?thesis by auto
  qed (use 5(2) in \<open>auto split: if_splits\<close>)
qed auto

text \<open>The reader's specification: one frame off the front of the bytes.\<close>

definition parse_frame ::
  "(byte list \<Rightarrow> 'j + 'm) \<Rightarrow> byte list \<Rightarrow> (('j, 'i) frame_error + 'm option) \<times> byte list" where
  "parse_frame from_slice bs =
     (let n = length bs; size = header_size bs in
      if n = 0 then (Inr None, [])
      else if n < 4 then (Inl (Truncated n 4), [])
      else if size > MAX_FRAME_BYTES then (Inl (TooLarge size), drop 4 bs)
      else if n - 4 < size then (Inl (Truncated (n - 4) size), [])
      else (map_ok Some (decode from_slice (take size (drop 4 bs))), drop (4 + size) bs))"

lemma header_size_take: "4 \<le> length bs \<Longrightarrow> header_size (take 4 bs) = header_size bs"
  by (simp add: header_size_def)

lemma frame_read_parse:
  assumes "steady (inner r)" and "frame_read from_slice r = (x, r')"
  shows "parse_frame from_slice (delivered (inner r)) = (x, delivered (inner r'))
       \<and> steady (inner r')"
proof -
  let ?bs = "delivered (inner r)"
  obtain src where h: "read_exact_or_eof (inner r) 4
      = (Inr (min 4 (length ?bs)), take 4 ?bs, src)"
    "delivered src = drop 4 ?bs" "steady src"
    using read_exact_steady [OF assms(1)] by blast
  let ?n = "header_size ?bs"
  obtain src' where b: "read_exact_or_eof src ?n
      = (Inr (min ?n (length (drop 4 ?bs))), take ?n (drop 4 ?bs), src')"
    "delivered src' = drop ?n (drop 4 ?bs)" "steady src'"
    using read_exact_steady [OF h(3)] h(2) by metis
  consider "length ?bs = 0" | "0 < length ?bs" "length ?bs < 4" | "4 \<le> length ?bs"
    by linarith
  then show ?thesis
  proof cases
    case 3
    then show ?thesis
      using h b header_size_take [OF 3] assms(2)
      by (auto simp: frame_read_def parse_frame_def HEADER_BYTES_def Let_def add.commute
          split: if_splits)
  qed (use h assms(2) in \<open>auto simp: frame_read_def parse_frame_def HEADER_BYTES_def Let_def\<close>)
qed

lemma header_size_encoded:
  assumes "length body \<le> MAX_FRAME_BYTES"
  shows "header_size (u32_be (word_of_nat (length body)) @ body @ rest) = length body"
proof -
  have "length body < 2 ^ 32"
    using assms by (simp add: MAX_FRAME_BYTES_def)
  then show ?thesis
    by (simp add: header_size_def u32_be_def u32_of_be_u32_be unat_of_nat take_bit_nat_eq_self)
qed

lemma parse_frame_encoded:
  assumes "encode to_vec m = (Inr bytes :: ('j, 'i) frame_error + byte list)"
    and "\<And>body. to_vec m = Inr body \<Longrightarrow> from_slice body = Inr m"
  shows "parse_frame from_slice (bytes @ rest) = (Inr (Some m), rest)"
proof -
  obtain body where body: "to_vec m = Inr body" "length body \<le> MAX_FRAME_BYTES"
    "bytes = u32_be (word_of_nat (length body)) @ body"
    using assms(1) by (auto simp: encode_def result_simps split: if_splits)
  then show ?thesis
    using assms(2) [OF body(1)] header_size_encoded [OF body(2), of rest]
    by (simp add: parse_frame_def decode_def Let_def)
qed

lemma write_frames_ok:
  fixes to_vec :: "'m \<Rightarrow> 'j + byte list" and from_slice :: "byte list \<Rightarrow> 'j + 'm"
  assumes "write_frames to_vec w ms = (Inr () :: ('j, 'i) frame_error + unit, w')"
    and "\<forall>m \<in> set ms. \<forall>body. to_vec m = Inr body \<longrightarrow> from_slice body = Inr m"
  shows "\<exists>out. w' = w @ out \<and> (\<forall>r :: 'i frame_reader. steady (inner r) \<longrightarrow> delivered (inner r) = out \<longrightarrow>
           fst (read_frames from_slice (Suc (length ms)) r) = map (Inr \<circ> Some) ms @ [Inr None])"
  using assms
proof (induction ms arbitrary: w)
  case Nil
  show ?case
  proof (intro exI [of _ "[]"] conjI allI impI)
    show "w' = w @ []" using Nil by simp
  next
    fix r :: "'i frame_reader"
    assume r: "steady (inner r)" "delivered (inner r) = []"
    obtain x r' where f: "frame_read from_slice r = (x, r')"
      by fastforce
    then have "x = Inr None"
      using frame_read_parse [OF r(1) f] r(2) by (simp add: parse_frame_def)
    then show "fst (read_frames from_slice (Suc (length [])) r) = map (Inr \<circ> Some) [] @ [Inr None]"
      using f by simp
  qed
next
  case (Cons m ms)
  obtain bytes where e: "encode to_vec m = (Inr bytes :: ('j, 'i) frame_error + byte list)"
    and w: "write_frames to_vec (w @ bytes) ms = (Inr () :: ('j, 'i) frame_error + unit, w')"
    using Cons.prems(1)
    by (auto simp: frame_write_def vec_write_all_def vec_flush_def split: sum.splits)
  obtain out where out: "w' = (w @ bytes) @ out"
    "\<And>r :: 'i frame_reader. steady (inner r) \<Longrightarrow> delivered (inner r) = out \<Longrightarrow>
       fst (read_frames from_slice (Suc (length ms)) r) = map (Inr \<circ> Some) ms @ [Inr None]"
    using Cons.IH [OF w] Cons.prems(2) by auto
  show ?case
  proof (intro exI [of _ "bytes @ out"] conjI allI impI)
    show "w' = w @ bytes @ out" using out(1) by simp
  next
    fix r :: "'i frame_reader"
    assume r: "steady (inner r)" "delivered (inner r) = bytes @ out"
    have "parse_frame from_slice (bytes @ out)
        = (Inr (Some m) :: ('j, 'i) frame_error + 'm option, out)"
      using parse_frame_encoded [OF e] Cons.prems(2) by auto
    moreover obtain x r' where f: "frame_read from_slice r = (x, r')"
      by fastforce
    ultimately have "x = Inr (Some m)" "delivered (inner r') = out" "steady (inner r')"
      using frame_read_parse [OF r(1) f] r(2) by auto
    then show "fst (read_frames from_slice (Suc (length (m # ms))) r)
                 = map (Inr \<circ> Some) (m # ms) @ [Inr None]"
      using out(2) [of r'] f by (auto simp: Let_def split: prod.splits)
  qed
qed

section \<open>Properties\<close>

text \<open>
  C6. Framing round trip, whatever the chunking: if a list of messages was written to a
  buffer without an error, and a source delivers exactly those bytes (cut anywhere,
  interrupted any number of times), then reading frame after frame returns the same
  messages in the same order and then the clean end of stream. JSON is assumed to read back
  what it wrote, for these messages.
\<close>

theorem frame_stream_roundtrip:
  fixes to_vec :: "'m \<Rightarrow> 'j + byte list" and from_slice :: "byte list \<Rightarrow> 'j + 'm"
    and src :: "'i source"
  assumes "write_frames to_vec [] ms = (Inr () :: ('j, 'i) frame_error + unit, out)"
    and "\<forall>m \<in> set ms. \<forall>body. to_vec m = Inr body \<longrightarrow> from_slice body = Inr m"
    and "steady src" and "delivered src = out"
  shows "fst (read_frames from_slice (Suc (length ms)) (reader_new src))
           = map (Inr \<circ> Some) ms @ [Inr None]"
  using write_frames_ok [OF assms(1,2)] assms(3,4) by (auto simp: reader_new_def)

theorem frame_stream_roundtrip_witness:
  "fst (read_frames (Inr :: byte list \<Rightarrow> unit + byte list) 2
     (reader_new [Data [0, 0], Interrupted, Data [0, 3, 7], Data [8, 9 :: byte] :: unit read_event]))
   = [Inr (Some [7, 8, 9]), Inr None]"
proof -
  have w: "write_frames (Inr :: byte list \<Rightarrow> unit + byte list) [] [[7, 8, 9]]
      = (Inr () :: (unit, unit) frame_error + unit, [0, 0, 0, 3, 7, 8, 9])"
    by (simp add: frame_write_def encode_def vec_write_all_def vec_flush_def u32_be_def
        MAX_FRAME_BYTES_def)
  show ?thesis
    using frame_stream_roundtrip [OF w, of Inr
        "[Data [0, 0], Interrupted, Data [0, 3, 7], Data [8, 9]]"]
    by (simp add: numeral_2_eq_2)
qed

text \<open>
  A frame that is cut short is an error and never an orderly end: whatever proper,
  non-empty prefix of an encoded frame a source delivers before it ends, the reader reports
  \<open>Truncated\<close> with fewer bytes than it wanted.
\<close>

theorem truncated_frame_is_error:
  fixes to_vec :: "'m \<Rightarrow> 'j + byte list" and r :: "'i frame_reader"
  assumes "encode to_vec m = (Inr bytes :: ('j, 'i) frame_error + byte list)"
    and "steady (inner r)" and "delivered (inner r) = take k bytes"
    and "0 < k" and "k < length bytes"
  shows "\<exists>g w. g < w \<and> fst (frame_read from_slice r) = Inl (Truncated g w)"
proof -
  obtain body where b: "length body \<le> MAX_FRAME_BYTES"
    "bytes = u32_be (word_of_nat (length body)) @ body"
    using assms(1) by (auto simp: encode_def result_simps split: if_splits)
  have r: "fst (frame_read from_slice r) = fst (parse_frame from_slice (take k bytes))"
    using frame_read_parse [OF assms(2)] assms(3) by (metis fst_conv surj_pair)
  show ?thesis
  proof (cases "k < 4")
    case True
    then show ?thesis
      using assms(4,5) by (auto simp: r parse_frame_def)
  next
    case False
    then have "take k bytes = u32_be (word_of_nat (length body)) @ take (k - 4) body @ []"
      by (simp add: b(2))
    moreover have "header_size (u32_be (word_of_nat (length body)) @ take (k - 4) body @ [])
        = length body"
      using header_size_encoded [OF b(1), of "[]"]
      by (simp add: header_size_def u32_be_def)
    ultimately show ?thesis
      using False assms(5) b by (auto simp: r parse_frame_def Let_def)
  qed
qed

theorem truncated_frame_is_error_witness:
  "\<exists>g w. g < w \<and> fst (frame_read (Inr :: byte list \<Rightarrow> unit + byte list)
       (reader_new [Data [0, 0, 0, 3, 7 :: byte] :: unit read_event])) = Inl (Truncated g w)"
proof -
  have e: "encode (Inr :: byte list \<Rightarrow> unit + byte list) [7, 8, 9]
      = (Inr [0, 0, 0, 3, 7, 8, 9] :: (unit, unit) frame_error + byte list)"
    by (simp add: encode_def u32_be_def MAX_FRAME_BYTES_def)
  show ?thesis
    using truncated_frame_is_error [OF e, of "reader_new [Data [0, 0, 0, 3, 7]]" 5 Inr]
    by (simp add: reader_new_def)
qed

text \<open>
  The length cap is a protection boundary: for every source, also one that fails or
  lies about the length, reading a frame never makes the reader's buffer longer than
  \<open>MAX_FRAME_BYTES\<close>, and a frame that claims more is refused with its claimed size before
  the buffer is touched.
\<close>

theorem frame_read_buffer_bounded:
  fixes r :: "'i frame_reader" and from_slice :: "byte list \<Rightarrow> 'j + 'm"
  assumes "length (buf r) \<le> MAX_FRAME_BYTES"
    and "frame_read from_slice r = (res, r')"
  shows "length (buf r') \<le> MAX_FRAME_BYTES
    \<and> (\<forall>n. res = Inl (TooLarge n) \<longrightarrow> MAX_FRAME_BYTES < n \<and> buf r' = buf r)"
proof (intro conjI allI impI)
  show "length (buf r') \<le> MAX_FRAME_BYTES"
    using assms read_exact_length
    by (fastforce simp: frame_read_def Let_def split: sum.splits prod.splits if_splits)
next
  fix n
  assume "res = Inl (TooLarge n)"
  then have "MAX_FRAME_BYTES < n \<and> buf r' = buf r"
    using assms(2)
    by (auto simp: frame_read_def Let_def decode_def result_simps
        split: sum.splits prod.splits if_splits)
  then show "MAX_FRAME_BYTES < n" and "buf r' = buf r" by auto
qed

theorem frame_read_buffer_bounded_witness:
  "MAX_FRAME_BYTES < (4294967295 :: nat)
     \<and> length (buf (snd (frame_read (Inr :: byte list \<Rightarrow> unit + byte list)
         (reader_new [Data [255, 255, 255, 255, 1 :: byte] :: unit read_event])))) \<le> MAX_FRAME_BYTES"
proof -
  let ?r = "reader_new [Data [255, 255, 255, 255, 1 :: byte] :: unit read_event]"
  have h: "read_exact_or_eof [Data [255, 255, 255, 255, 1 :: byte] :: unit read_event] 4
      = (Inr 4, [255, 255, 255, 255], [Data [1]])"
    by (simp add: eval_nat_numeral)
  have e: "frame_read (Inr :: byte list \<Rightarrow> unit + byte list) ?r
      = (Inl (TooLarge 4294967295), ?r\<lparr>inner := [Data [1]]\<rparr>)"
    by (simp add: frame_read_def reader_new_def HEADER_BYTES_def header_size_def u32_of_be_def
        MAX_FRAME_BYTES_def h)
  show ?thesis
    using frame_read_buffer_bounded [OF _ e] e by (simp add: reader_new_def)
qed

end
