(* ===== verification/Zygo_Gate.thy ===== *)
theory Zygo_Gate
  imports Rust_Nums
begin

text \<open>
  Per-function admission control (\<open>crates/zygo-core/src/supervisor/gate.rs\<close>).

  The operations are the critical sections of the code: \<open>enter\<close> holds the mutex from its
  start to its return or to its wait (\<open>enter_locked\<close>), and again from the end of the wait
  to its return (\<open>enter_woken\<close>). Between the two the thread sleeps on the condition
  variable. The threads, their wake-ups and their timeouts are a step relation over which
  the properties quantify: any number of threads, any interleaving, spurious wake-ups
  included.
\<close>

section \<open>The gate\<close>

datatype rejected =
    Busy u32 u32 u32
  | TimedOut u32 u32 u32
  | Closed

fun rejected_load :: "rejected \<Rightarrow> (u32 \<times> u32 \<times> u32) option" where
  "rejected_load (Busy f q l) = Some (f, q, l)"
| "rejected_load (TimedOut f q l) = Some (f, q, l)"
| "rejected_load Closed = None"

record gate_state =
  in_flight :: u32
  queued :: u32
  closed :: bool

record gate =
  gate_id :: string
  limit :: u32
  queue_limit :: u32
  state :: gate_state

text \<open>\<open>named\<close> also steps the process-wide generation counter, which names the gate.\<close>

definition gate_named :: "nat \<Rightarrow> string \<Rightarrow> u32 \<Rightarrow> u32 \<Rightarrow> gate \<times> nat" where
  "gate_named generation name lim qlim =
     (\<lparr>gate_id = name @ ''#'' @ show_nat generation, limit = max lim 1, queue_limit = qlim,
       state = \<lparr>in_flight = 0, queued = 0, closed = False\<rparr>\<rparr>,
      (generation + 1) mod 2 ^ 64)"

definition gate_new :: "nat \<Rightarrow> u32 \<Rightarrow> u32 \<Rightarrow> gate \<times> nat" where
  "gate_new generation lim qlim = gate_named generation ''gate'' lim qlim"

definition default_queue_limit :: "u32 \<Rightarrow> u32" where
  "default_queue_limit concurrency =
     (let c = max concurrency 1
      in if unat c * 4 \<le> u32_max then c * 4 else word_of_nat u32_max)"

definition gate_load :: "gate \<Rightarrow> u32 \<times> u32" where
  "gate_load g = (in_flight (state g), queued (state g))"

text \<open>The first critical section of \<open>enter\<close>: an answer, or a place in the queue.\<close>

datatype enter_result = Permit | Rejected rejected | Waits

definition enter_locked :: "gate \<Rightarrow> enter_result \<times> gate" where
  "enter_locked g =
     (let s = state g in
      if closed s then (Rejected Closed, g)
      else if in_flight s < limit g
        then (Permit, g\<lparr>state := s\<lparr>in_flight := in_flight s + 1\<rparr>\<rparr>)
      else if queued s \<ge> queue_limit g
        then (Rejected (Busy (in_flight s) (queued s) (limit g)), g)
      else (Waits, g\<lparr>state := s\<lparr>queued := queued s + 1\<rparr>\<rparr>))"

text \<open>The condition a waiter sleeps on, and what \<open>enter\<close> does once the wait is over.\<close>

definition keep_waiting :: "gate \<Rightarrow> bool" where
  "keep_waiting g \<longleftrightarrow> \<not> closed (state g) \<and> in_flight (state g) \<ge> limit g"

definition enter_woken :: "bool \<Rightarrow> gate \<Rightarrow> enter_result \<times> gate" where
  "enter_woken timed_out g =
     (let s = (state g)\<lparr>queued := queued (state g) - 1\<rparr>; g1 = g\<lparr>state := s\<rparr> in
      if closed s then (Rejected Closed, g1)
      else if timed_out
        then (Rejected (TimedOut (in_flight s) (queued s) (limit g)), g1)
      else (Permit, g1\<lparr>state := s\<lparr>in_flight := in_flight s + 1\<rparr>\<rparr>))"

definition gate_close :: "gate \<Rightarrow> gate" where
  "gate_close g = g\<lparr>state := (state g)\<lparr>closed := True\<rparr>\<rparr>"

definition gate_release :: "gate \<Rightarrow> gate" where
  "gate_release g =
     g\<lparr>state := (state g)\<lparr>in_flight := (if in_flight (state g) = 0 then 0 else in_flight (state g) - 1)\<rparr>\<rparr>"

section \<open>The threads\<close>

text \<open>
  \<open>sleeping\<close> threads are blocked on the condition variable; \<open>awake\<close> ones have left the
  wait (notified, timed out or spuriously) and are about to take the mutex and look at the
  condition, as \<open>wait_timeout_while\<close> does. \<open>holders\<close> have a permit not yet dropped.
\<close>

record 'c gate_sys =
  the_gate :: gate
  holders :: "'c set"
  sleeping :: "'c set"
  awake :: "'c set"

definition idle :: "'c gate_sys \<Rightarrow> 'c \<Rightarrow> bool" where
  "idle s c \<longleftrightarrow> c \<notin> holders s \<and> c \<notin> sleeping s \<and> c \<notin> awake s"

definition initial_sys :: "gate \<Rightarrow> 'c gate_sys" where
  "initial_sys g = \<lparr>the_gate = g, holders = {}, sleeping = {}, awake = {}\<rparr>"

inductive gate_step :: "'c gate_sys \<Rightarrow> 'c gate_sys \<Rightarrow> bool" where
  arrive_permit:
    "idle s c \<Longrightarrow> enter_locked (the_gate s) = (Permit, g) \<Longrightarrow>
     gate_step s (s\<lparr>the_gate := g, holders := insert c (holders s)\<rparr>)"
| arrive_rejected:
    "idle s c \<Longrightarrow> enter_locked (the_gate s) = (Rejected e, g) \<Longrightarrow>
     gate_step s (s\<lparr>the_gate := g\<rparr>)"
| arrive_waits:
    "idle s c \<Longrightarrow> enter_locked (the_gate s) = (Waits, g) \<Longrightarrow>
     gate_step s (s\<lparr>the_gate := g, sleeping := insert c (sleeping s)\<rparr>)"
| wake_up:
    "c \<in> sleeping s \<Longrightarrow>
     gate_step s (s\<lparr>sleeping := sleeping s - {c}, awake := insert c (awake s)\<rparr>)"
| back_to_sleep:
    "c \<in> awake s \<Longrightarrow> keep_waiting (the_gate s) \<Longrightarrow>
     gate_step s (s\<lparr>awake := awake s - {c}, sleeping := insert c (sleeping s)\<rparr>)"
| woken_permit:
    "c \<in> awake s \<Longrightarrow> \<not> keep_waiting (the_gate s) \<Longrightarrow>
     enter_woken False (the_gate s) = (Permit, g) \<Longrightarrow>
     gate_step s (s\<lparr>the_gate := g, awake := awake s - {c}, holders := insert c (holders s)\<rparr>)"
| woken_closed:
    "c \<in> awake s \<Longrightarrow> \<not> keep_waiting (the_gate s) \<Longrightarrow>
     enter_woken False (the_gate s) = (Rejected e, g) \<Longrightarrow>
     gate_step s (s\<lparr>the_gate := g, awake := awake s - {c}\<rparr>)"
| woken_expired:
    "c \<in> awake s \<Longrightarrow> keep_waiting (the_gate s) \<Longrightarrow>
     enter_woken True (the_gate s) = (Rejected e, g) \<Longrightarrow>
     gate_step s (s\<lparr>the_gate := g, awake := awake s - {c}\<rparr>)"
| close:
    "gate_step s (s\<lparr>the_gate := gate_close (the_gate s),
       awake := awake s \<union> sleeping s, sleeping := {}\<rparr>)"
| release_notify:
    "c \<in> holders s \<Longrightarrow> w \<in> sleeping s \<Longrightarrow>
     gate_step s (s\<lparr>the_gate := gate_release (the_gate s), holders := holders s - {c},
       sleeping := sleeping s - {w}, awake := insert w (awake s)\<rparr>)"
| release_alone:
    "c \<in> holders s \<Longrightarrow> sleeping s = {} \<Longrightarrow>
     gate_step s (s\<lparr>the_gate := gate_release (the_gate s), holders := holders s - {c}\<rparr>)"

inductive gate_reach :: "'c gate_sys \<Rightarrow> 'c gate_sys \<Rightarrow> bool" where
  reach_refl: "gate_reach s s"
| reach_step: "gate_reach s t \<Longrightarrow> gate_step t u \<Longrightarrow> gate_reach s u"

section \<open>The invariant\<close>

text \<open>
  The counters are the numbers of threads they stand for, no thread is counted twice, and
  the bounds hold; and while the gate is open, either nobody sleeps or every free slot has
  an awake thread on its way to it.
\<close>

definition accounted :: "'c gate_sys \<Rightarrow> bool" where
  "accounted s \<longleftrightarrow>
     finite (holders s) \<and> finite (sleeping s) \<and> finite (awake s)
     \<and> holders s \<inter> (sleeping s \<union> awake s) = {} \<and> sleeping s \<inter> awake s = {}
     \<and> unat (in_flight (state (the_gate s))) = card (holders s)
     \<and> unat (queued (state (the_gate s))) = card (sleeping s \<union> awake s)
     \<and> card (holders s) \<le> unat (limit (the_gate s))
     \<and> card (sleeping s \<union> awake s) \<le> unat (queue_limit (the_gate s))"

definition no_lost_wakeup :: "'c gate_sys \<Rightarrow> bool" where
  "no_lost_wakeup s \<longleftrightarrow>
     (if closed (state (the_gate s)) then sleeping s = {}
      else sleeping s = {}
           \<or> unat (limit (the_gate s)) \<le> card (holders s) + card (awake s))"

lemma unat_plus_one: "a < (b :: u32) \<Longrightarrow> unat (a + 1) = unat a + 1"
  using unsigned_less [where ?'a = nat and w = b] by (simp add: unat_word_ariths word_less_nat_alt)

lemma unat_minus_one_pos: "a \<noteq> (0 :: u32) \<Longrightarrow> unat (a - 1) = unat a - 1"
  by (rule unat_minus_one)

named_theorems gate_ops "what the critical sections answer, by case"

lemma enter_locked_Permit [gate_ops]:
  "enter_locked g = (Permit, g') \<longleftrightarrow>
     \<not> closed (state g) \<and> in_flight (state g) < limit g
     \<and> g' = g\<lparr>state := (state g)\<lparr>in_flight := in_flight (state g) + 1\<rparr>\<rparr>"
  by (auto simp: enter_locked_def Let_def)

lemma enter_locked_Waits [gate_ops]:
  "enter_locked g = (Waits, g') \<longleftrightarrow>
     \<not> closed (state g) \<and> limit g \<le> in_flight (state g) \<and> queued (state g) < queue_limit g
     \<and> g' = g\<lparr>state := (state g)\<lparr>queued := queued (state g) + 1\<rparr>\<rparr>"
  by (auto simp: enter_locked_def Let_def)

lemma enter_locked_Rejected [gate_ops]:
  "enter_locked g = (Rejected e, g') \<longleftrightarrow>
     g' = g \<and>
     ((closed (state g) \<and> e = Closed)
      \<or> (\<not> closed (state g) \<and> limit g \<le> in_flight (state g) \<and> queue_limit g \<le> queued (state g)
          \<and> e = Busy (in_flight (state g)) (queued (state g)) (limit g)))"
  by (auto simp: enter_locked_def Let_def)

lemma enter_woken_Permit [gate_ops]:
  "enter_woken t g = (Permit, g') \<longleftrightarrow>
     \<not> t \<and> \<not> closed (state g)
     \<and> g' = g\<lparr>state := (state g)\<lparr>queued := queued (state g) - 1,
                                   in_flight := in_flight (state g) + 1\<rparr>\<rparr>"
  by (auto simp: enter_woken_def Let_def)

lemma enter_woken_Rejected [gate_ops]:
  "enter_woken t g = (Rejected e, g') \<longleftrightarrow>
     g' = g\<lparr>state := (state g)\<lparr>queued := queued (state g) - 1\<rparr>\<rparr>
     \<and> ((closed (state g) \<and> e = Closed)
        \<or> (\<not> closed (state g) \<and> t
            \<and> e = TimedOut (in_flight (state g)) (queued (state g) - 1) (limit g)))"
  by (auto simp: enter_woken_def Let_def)

lemmas gate_update_defs = gate_close_def gate_release_def keep_waiting_def

inductive_cases gate_stepE: "gate_step s t"

lemma gate_step_limits:
  "gate_step s t \<Longrightarrow> limit (the_gate t) = limit (the_gate s)
     \<and> queue_limit (the_gate t) = queue_limit (the_gate s)"
  by (induction rule: gate_step.induct) (auto simp: gate_ops gate_update_defs)

lemma accounted_queued_pos:
  "accounted s \<Longrightarrow> c \<in> awake s \<Longrightarrow> queued (state (the_gate s)) \<noteq> 0"
  by (auto simp: accounted_def)

lemma accounted_in_flight_pos:
  "accounted s \<Longrightarrow> c \<in> holders s \<Longrightarrow> in_flight (state (the_gate s)) \<noteq> 0"
  by (auto simp: accounted_def)

lemma accounted_disjoint: "accounted s \<Longrightarrow> c \<in> awake s \<Longrightarrow> c \<notin> holders s \<and> c \<notin> sleeping s"
  by (auto simp: accounted_def)

lemma accounted_sleeping: "accounted s \<Longrightarrow> c \<in> sleeping s \<Longrightarrow> c \<notin> holders s \<and> c \<notin> awake s"
  by (auto simp: accounted_def)

lemma accounted_awake_pos: "accounted s \<Longrightarrow> c \<in> awake s \<Longrightarrow> 0 < card (awake s)"
  by (auto simp: accounted_def card_gt_0_iff)

lemma gate_step_accounted:
  assumes "gate_step s t" and "accounted s"
  shows "accounted t"
  using assms
proof (induction rule: gate_step.induct)
  case (arrive_permit s c g)
  then have "card (insert c (holders s)) = Suc (card (holders s))"
    by (auto simp: accounted_def idle_def)
  with arrive_permit show ?case
    by (auto simp: accounted_def idle_def gate_ops unat_plus_one word_less_nat_alt)
next
  case (arrive_rejected s c e g)
  then show ?case by (auto simp: accounted_def gate_ops)
next
  case (arrive_waits s c g)
  then have "card (insert c (sleeping s \<union> awake s)) = Suc (card (sleeping s \<union> awake s))"
    by (auto simp: accounted_def idle_def)
  with arrive_waits show ?case
    by (auto simp: accounted_def idle_def gate_ops unat_plus_one word_less_nat_alt)
next
  case (wake_up c s)
  then have "sleeping s - {c} \<union> insert c (awake s) = sleeping s \<union> awake s" by auto
  with wake_up show ?case by (auto simp: accounted_def)
next
  case (back_to_sleep c s)
  then have "insert c (sleeping s) \<union> (awake s - {c}) = sleeping s \<union> awake s" by auto
  with back_to_sleep show ?case by (auto simp: accounted_def)
next
  case (woken_permit c s g)
  then have "card (insert c (holders s)) = Suc (card (holders s))"
    and "sleeping s \<union> (awake s - {c}) = (sleeping s \<union> awake s) - {c}"
    using accounted_disjoint [OF woken_permit.prems woken_permit.hyps(1)]
    by (auto simp: accounted_def)
  with woken_permit show ?case
    using accounted_queued_pos [OF woken_permit.prems woken_permit.hyps(1)]
    by (auto simp: accounted_def gate_ops unat_plus_one unat_minus_one_pos gate_update_defs
        not_le word_less_nat_alt)
next
  case (woken_closed c s e g)
  then have "sleeping s \<union> (awake s - {c}) = (sleeping s \<union> awake s) - {c}"
    by (auto simp: accounted_def)
  with woken_closed show ?case
    using accounted_queued_pos [OF woken_closed.prems woken_closed.hyps(1)]
    by (auto simp: accounted_def gate_ops unat_minus_one_pos)
next
  case (woken_expired c s e g)
  then have "sleeping s \<union> (awake s - {c}) = (sleeping s \<union> awake s) - {c}"
    by (auto simp: accounted_def)
  with woken_expired show ?case
    using accounted_queued_pos [OF woken_expired.prems woken_expired.hyps(1)]
    by (auto simp: accounted_def gate_ops unat_minus_one_pos)
next
  case (close s)
  then show ?case by (auto simp: accounted_def gate_update_defs Un_commute)
next
  case (release_notify c s w)
  then have "sleeping s - {w} \<union> insert w (awake s) = sleeping s \<union> awake s" by auto
  with release_notify show ?case
    using accounted_in_flight_pos [OF release_notify.prems release_notify.hyps(1)]
    by (auto simp: accounted_def gate_update_defs unat_minus_one_pos)
next
  case (release_alone c s)
  then show ?case
    using accounted_in_flight_pos [OF release_alone.prems release_alone.hyps(1)]
    by (auto simp: accounted_def gate_update_defs unat_minus_one_pos)
qed

lemma gate_step_no_lost_wakeup:
  assumes "gate_step s t" and "accounted s" and "no_lost_wakeup s"
  shows "no_lost_wakeup t"
  using assms
proof (induction rule: gate_step.induct)
  case (arrive_permit s c g)
  then show ?case
    by (auto simp: no_lost_wakeup_def accounted_def idle_def gate_ops)
next
  case (arrive_rejected s c e g)
  then show ?case by (auto simp: no_lost_wakeup_def gate_ops)
next
  case (arrive_waits s c g)
  then show ?case
    by (auto simp: no_lost_wakeup_def accounted_def gate_ops word_le_nat_alt)
next
  case (wake_up c s)
  then have "card (insert c (awake s)) = Suc (card (awake s))"
    using accounted_sleeping [OF wake_up.prems(1) wake_up.hyps]
    by (auto simp: accounted_def)
  with wake_up show ?case by (auto simp: no_lost_wakeup_def)
next
  case (back_to_sleep c s)
  then show ?case
    by (auto simp: no_lost_wakeup_def accounted_def gate_update_defs word_le_nat_alt)
next
  case (woken_permit c s g)
  then have "card (insert c (holders s)) + card (awake s - {c}) = card (holders s) + card (awake s)"
    using accounted_disjoint [OF woken_permit.prems(1) woken_permit.hyps(1)]
      accounted_awake_pos [OF woken_permit.prems(1) woken_permit.hyps(1)]
    by (auto simp: accounted_def)
  with woken_permit show ?case by (auto simp: no_lost_wakeup_def gate_ops)
next
  case (woken_closed c s e g)
  then show ?case by (auto simp: no_lost_wakeup_def gate_ops)
next
  case (woken_expired c s e g)
  then show ?case
    by (auto simp: no_lost_wakeup_def accounted_def gate_ops gate_update_defs word_le_nat_alt)
next
  case (close s)
  then show ?case by (auto simp: no_lost_wakeup_def gate_update_defs)
next
  case (release_notify c s w)
  then have "card (insert w (awake s)) = Suc (card (awake s))"
    and "card (holders s - {c}) + 1 = card (holders s)"
    using accounted_sleeping [OF release_notify.prems(1) release_notify.hyps(2)]
      card_Suc_Diff1 [of "holders s" c] release_notify
    by (auto simp: accounted_def simp del: card_Diff_singleton)
  with release_notify show ?case
    by (auto simp: no_lost_wakeup_def gate_update_defs split: if_splits)
next
  case (release_alone c s)
  then show ?case by (auto simp: no_lost_wakeup_def gate_update_defs)
qed

lemma gate_step_closed:
  "gate_step s t \<Longrightarrow> closed (state (the_gate s)) \<Longrightarrow>
     closed (state (the_gate t)) \<and> holders t \<subseteq> holders s"
  by (induction rule: gate_step.induct) (auto simp: gate_ops gate_update_defs)

lemma gate_reach_closed:
  "gate_reach s t \<Longrightarrow> closed (state (the_gate s)) \<Longrightarrow>
     closed (state (the_gate t)) \<and> holders t \<subseteq> holders s"
  by (induction rule: gate_reach.induct) (auto dest!: gate_step_closed)

lemma gate_reach_limits:
  "gate_reach s t \<Longrightarrow> limit (the_gate t) = limit (the_gate s)
     \<and> queue_limit (the_gate t) = queue_limit (the_gate s)"
  by (induction rule: gate_reach.induct) (auto dest!: gate_step_limits)

lemma gate_reach_invariant:
  "gate_reach s t \<Longrightarrow> accounted s \<and> no_lost_wakeup s \<Longrightarrow> accounted t \<and> no_lost_wakeup t"
  by (induction rule: gate_reach.induct)
    (auto intro: gate_step_accounted gate_step_no_lost_wakeup)

lemma named_invariant:
  "accounted (initial_sys (fst (gate_named n name lim qlim)))
     \<and> no_lost_wakeup (initial_sys (fst (gate_named n name lim qlim)))"
  by (simp add: accounted_def no_lost_wakeup_def initial_sys_def gate_named_def)

section \<open>Properties\<close>

text \<open>
  C4. Whatever the threads do and however they interleave, a gate never has more permits
  out than its limit (at least one, however it was configured) nor more waiters than its
  queue limit, and its two 32-bit counters are exactly the numbers of threads that hold a
  permit and that wait: no increment wraps and no decrement is lost.
\<close>

theorem gate_capacity:
  assumes "gate_reach (initial_sys (fst (gate_named n name lim qlim))) s"
  shows "card (holders s) \<le> max (unat lim) 1
    \<and> card (sleeping s \<union> awake s) \<le> unat qlim
    \<and> gate_load (the_gate s)
        = (word_of_nat (card (holders s)), word_of_nat (card (sleeping s \<union> awake s)))"
proof -
  have inv: "accounted s"
    using gate_reach_invariant [OF assms] named_invariant by blast
  have lims: "limit (the_gate s) = max lim 1" "queue_limit (the_gate s) = qlim"
    using gate_reach_limits [OF assms] by (simp_all add: initial_sys_def gate_named_def)
  have "unat (max lim 1) = max (unat lim) 1"
    by (auto simp: max_def word_le_nat_alt)
  moreover have "in_flight (state (the_gate s)) = word_of_nat (card (holders s))"
    and "queued (state (the_gate s)) = word_of_nat (card (sleeping s \<union> awake s))"
    using inv by (auto simp: accounted_def dest: arg_cong [of _ _ "word_of_nat :: nat \<Rightarrow> u32"])
  ultimately show ?thesis
    using inv lims by (auto simp: accounted_def gate_load_def)
qed

theorem gate_capacity_witness:
  "card {0 :: nat} \<le> max (unat (0 :: u32)) 1"
proof -
  let ?g = "fst (gate_named 1 ''fn'' 0 0)"
  let ?s = "(initial_sys ?g)\<lparr>the_gate := ?g\<lparr>state := (state ?g)\<lparr>in_flight := 1\<rparr>\<rparr>,
              holders := {0 :: nat}\<rparr>"
  have "gate_step (initial_sys ?g :: nat gate_sys) ?s"
    using arrive_permit [of "initial_sys ?g" "0 :: nat" "?g\<lparr>state := (state ?g)\<lparr>in_flight := 1\<rparr>\<rparr>"]
    by (simp add: idle_def initial_sys_def enter_locked_def gate_named_def)
  then have "gate_reach (initial_sys ?g) ?s"
    using reach_step [OF reach_refl] by blast
  from gate_capacity [OF this] show ?thesis by simp
qed

text \<open>
  C5. No wake-up is lost: in every reachable state in which the gate is open, a slot is free
  and a thread sleeps in the queue, some other waiter is already awake, and that waiter's
  next look at the gate gets it the slot. So a free slot is never left beside sleeping
  waiters, although a release notifies only one of them and newcomers may overtake.
\<close>

theorem gate_no_lost_wakeup:
  assumes "gate_reach (initial_sys (fst (gate_named n name lim qlim))) s"
    and "\<not> closed (state (the_gate s))" and "sleeping s \<noteq> {}"
    and "in_flight (state (the_gate s)) < limit (the_gate s)"
  shows "\<exists>c \<in> awake s. \<exists>t. gate_step s t \<and> c \<in> holders t"
proof -
  have inv: "accounted s" "no_lost_wakeup s"
    using gate_reach_invariant [OF assms(1)] named_invariant by blast+
  then have "0 < card (awake s)"
    using assms(2-4) by (auto simp: no_lost_wakeup_def accounted_def word_less_nat_alt)
  then obtain c where c: "c \<in> awake s"
    by (metis card_gt_0_iff ex_in_conv)
  obtain g where "enter_woken False (the_gate s) = (Permit, g)"
    using assms(2) by (auto simp: gate_ops)
  moreover have "\<not> keep_waiting (the_gate s)"
    using assms(4) by (simp add: keep_waiting_def not_le)
  ultimately have "gate_step s (s\<lparr>the_gate := g, awake := awake s - {c}, holders := insert c (holders s)\<rparr>)"
    using c by (blast intro: woken_permit)
  then show ?thesis using c by force
qed

text \<open>
  A run with three threads and one slot: 0 is admitted, 1 and 2 queue, 0 leaves and its
  release wakes 1.
\<close>

definition demo_gate :: "u32 \<Rightarrow> u32 \<Rightarrow> bool \<Rightarrow> gate" where
  "demo_gate f q c = \<lparr>gate_id = ''fn#1'', limit = 1, queue_limit = 4,
     state = \<lparr>in_flight = f, queued = q, closed = c\<rparr>\<rparr>"

lemma demo_gate_named: "fst (gate_named 1 ''fn'' 1 4) = demo_gate 0 0 False"
  by (simp add: gate_named_def demo_gate_def str_simps del: One_nat_def)

lemma demo_run:
  "gate_reach (initial_sys (fst (gate_named 1 ''fn'' 1 4)))
     \<lparr>the_gate = demo_gate 0 2 False, holders = {}, sleeping = {2}, awake = {1 :: nat}\<rparr>"
proof -
  let ?s = "\<lambda>f q h sl aw. \<lparr>the_gate = demo_gate f q False, holders = h, sleeping = sl, awake = aw\<rparr>
              :: nat gate_sys"
  have 1: "gate_step (initial_sys (demo_gate 0 0 False)) (?s 1 0 {0} {} {})"
    using arrive_permit [of "initial_sys (demo_gate 0 0 False)" 0 "demo_gate 1 0 False"]
    by (simp add: initial_sys_def idle_def enter_locked_def Let_def demo_gate_def)
  have 2: "gate_step (?s 1 0 {0} {} {}) (?s 1 1 {0} {1} {})"
    using arrive_waits [of "?s 1 0 {0} {} {}" 1 "demo_gate 1 1 False"]
    by (simp add: idle_def enter_locked_def Let_def demo_gate_def word_le_nat_alt)
  have 3: "gate_step (?s 1 1 {0} {1} {}) (?s 1 2 {0} {1, 2} {})"
    using arrive_waits [of "?s 1 1 {0} {1} {}" 2 "demo_gate 1 2 False"]
    by (simp add: idle_def enter_locked_def Let_def demo_gate_def word_le_nat_alt insert_commute)
  have 4: "gate_step (?s 1 2 {0} {1, 2} {}) (?s 0 2 {} {2} {1})"
    using release_notify [of 0 "?s 1 2 {0} {1, 2} {}" 1]
    by (simp add: gate_release_def demo_gate_def)
  show ?thesis
    unfolding demo_gate_named
    by (rule reach_step [OF reach_step [OF reach_step [OF reach_step [OF reach_refl 1] 2] 3] 4])
qed

theorem gate_no_lost_wakeup_witness:
  "\<exists>t. gate_step \<lparr>the_gate = demo_gate 0 2 False, holders = {}, sleeping = {2}, awake = {1 :: nat}\<rparr> t
     \<and> 1 \<in> holders t"
  using gate_no_lost_wakeup [OF demo_run] by (simp add: demo_gate_def)

text \<open>
  Closing a gate is final and abandons nobody: from a closed state on, the gate stays
  closed, no thread is ever admitted again (the holders are a subset of those at the close),
  every newcomer and every woken waiter is answered \<open>Closed\<close>, and nobody sleeps on.
\<close>

theorem gate_close_final:
  assumes "gate_reach (initial_sys (fst (gate_named n name lim qlim))) s"
    and "closed (state (the_gate s))" and "gate_reach s t"
  shows "closed (state (the_gate t)) \<and> holders t \<subseteq> holders s \<and> sleeping t = {}
    \<and> fst (enter_locked (the_gate t)) = Rejected Closed
    \<and> fst (enter_woken timed_out (the_gate t)) = Rejected Closed"
proof -
  have t: "closed (state (the_gate t))" "holders t \<subseteq> holders s"
    using gate_reach_closed [OF assms(3,2)] by auto
  have "accounted s \<and> no_lost_wakeup s"
    using gate_reach_invariant [OF assms(1)] named_invariant by blast
  then have "no_lost_wakeup t"
    using gate_reach_invariant [OF assms(3)] by blast
  with t show ?thesis
    by (auto simp: no_lost_wakeup_def enter_locked_def enter_woken_def Let_def)
qed

theorem gate_close_final_witness:
  "\<exists>s :: nat gate_sys. awake s = {1, 2} \<and> sleeping s = {}
     \<and> fst (enter_woken False (the_gate s)) = Rejected Closed"
proof -
  let ?s = "\<lparr>the_gate = demo_gate 0 2 True, holders = {}, sleeping = {}, awake = {1} \<union> {2 :: nat}\<rparr>"
  have "gate_step \<lparr>the_gate = demo_gate 0 2 False, holders = {}, sleeping = {2}, awake = {1}\<rparr> ?s"
    using close [of "\<lparr>the_gate = demo_gate 0 2 False, holders = {}, sleeping = {2}, awake = {1 :: nat}\<rparr>"]
    by (simp add: gate_close_def demo_gate_def)
  then have r: "gate_reach (initial_sys (fst (gate_named 1 ''fn'' 1 4))) ?s"
    by (rule reach_step [OF demo_run])
  have "fst (enter_woken False (the_gate ?s)) = Rejected Closed"
    using gate_close_final [OF r _ reach_refl] by (simp add: demo_gate_def)
  then show ?thesis
    by (intro exI [of _ ?s]) auto
qed

end
