(* ===== verification/Zygo_Syscalls.thy ===== *)
theory Zygo_Syscalls
  imports Rust_Nums "HOL-Library.Char_ord" "HOL-Library.List_Lexorder"
begin

text \<open>
  Syscall numbers (\<open>crates/zygo-core/src/backend/ns/syscalls.rs\<close>): the table of each
  architecture and the lookup by name.

  The architecture a build is compiled for (\<open>cfg(target_arch)\<close>) is a value here: a
  record of the constants the source selects with \<open>cfg\<close>. Rust compares \<open>&str\<close> by bytes,
  which is the lexicographic order of \<open>List_Lexorder\<close> over \<open>Char_ord\<close>.
\<close>

section \<open>The tables\<close>

definition AARCH64_TABLE_1 :: "(string \<times> u32) list" where
  "AARCH64_TABLE_1 = [
    (''accept'', 202), (''accept4'', 242), (''acct'', 89), (''add_key'', 217),
    (''adjtimex'', 171), (''bind'', 200), (''bpf'', 280), (''brk'', 214), (''cachestat'', 451),
    (''capget'', 90), (''capset'', 91), (''chdir'', 49), (''chroot'', 51),
    (''clock_adjtime'', 266), (''clock_getres'', 114), (''clock_gettime'', 113),
    (''clock_nanosleep'', 115), (''clock_settime'', 112), (''clone'', 220), (''clone3'', 435),
    (''close'', 57), (''close_range'', 436), (''connect'', 203), (''copy_file_range'', 285),
    (''delete_module'', 106), (''dup'', 23), (''dup3'', 24), (''epoll_create1'', 20),
    (''epoll_ctl'', 21), (''epoll_pwait'', 22), (''epoll_pwait2'', 441), (''eventfd2'', 19),
    (''execve'', 221), (''execveat'', 281), (''exit'', 93), (''exit_group'', 94),
    (''faccessat'', 48), (''faccessat2'', 439), (''fadvise64'', 223), (''fallocate'', 47),
    (''fanotify_init'', 262), (''fanotify_mark'', 263), (''fchdir'', 50), (''fchmod'', 52),
    (''fchmodat'', 53), (''fchmodat2'', 452), (''fchown'', 55), (''fchownat'', 54),
    (''fcntl'', 25), (''fdatasync'', 83), (''fgetxattr'', 10), (''finit_module'', 273),
    (''flistxattr'', 13), (''flock'', 32), (''fremovexattr'', 16), (''fsconfig'', 431),
    (''fsetxattr'', 7), (''fsmount'', 432), (''fsopen'', 430), (''fspick'', 433),
    (''fstat'', 80), (''fstatfs'', 44), (''fsync'', 82), (''ftruncate'', 46), (''futex'', 98),
    (''futex_requeue'', 456), (''futex_wait'', 455), (''futex_waitv'', 449),
    (''futex_wake'', 454), (''get_mempolicy'', 236), (''get_robust_list'', 100),
    (''getcpu'', 168), (''getcwd'', 17), (''getdents64'', 61), (''getegid'', 177),
    (''geteuid'', 175), (''getgid'', 176), (''getgroups'', 158), (''getitimer'', 102),
    (''getpeername'', 205), (''getpgid'', 155), (''getpid'', 172), (''getppid'', 173),
    (''getpriority'', 141), (''getrandom'', 278), (''getresgid'', 150), (''getresuid'', 148),
    (''getrlimit'', 163), (''getrusage'', 165), (''getsid'', 156), (''getsockname'', 204),
    (''getsockopt'', 209), (''gettid'', 178), (''gettimeofday'', 169), (''getuid'', 174),
    (''getxattr'', 8), (''init_module'', 105), (''inotify_add_watch'', 27),
    (''inotify_init1'', 26), (''inotify_rm_watch'', 28), (''io_cancel'', 3), (''io_destroy'', 1),
    (''io_getevents'', 4), (''io_pgetevents'', 292), (''io_setup'', 0), (''io_submit'', 2),
    (''io_uring_enter'', 426), (''io_uring_register'', 427), (''io_uring_setup'', 425),
    (''ioctl'', 29), (''ioprio_get'', 31), (''ioprio_set'', 30), (''kcmp'', 272),
    (''kexec_file_load'', 294), (''kexec_load'', 104), (''keyctl'', 219), (''kill'', 129),
    (''landlock_add_rule'', 445), (''landlock_create_ruleset'', 444),
    (''landlock_restrict_self'', 446), (''lgetxattr'', 9), (''linkat'', 37), (''listen'', 201),
    (''listmount'', 458), (''listxattr'', 11), (''llistxattr'', 12), (''lookup_dcookie'', 18),
    (''lremovexattr'', 15)]"

definition AARCH64_TABLE_2 :: "(string \<times> u32) list" where
  "AARCH64_TABLE_2 = [
    (''lseek'', 62), (''lsetxattr'', 6), (''lsm_get_self_attr'', 459),
    (''lsm_list_modules'', 461), (''lsm_set_self_attr'', 460), (''madvise'', 233),
    (''map_shadow_stack'', 453), (''mbind'', 235), (''membarrier'', 283),
    (''memfd_create'', 279), (''memfd_secret'', 447), (''migrate_pages'', 238),
    (''mincore'', 232), (''mkdirat'', 34), (''mknodat'', 33), (''mlock'', 228),
    (''mlock2'', 284), (''mlockall'', 230), (''mmap'', 222), (''mount'', 40),
    (''mount_setattr'', 442), (''move_mount'', 429), (''move_pages'', 239), (''mprotect'', 226),
    (''mq_getsetattr'', 185), (''mq_notify'', 184), (''mq_open'', 180),
    (''mq_timedreceive'', 183), (''mq_timedsend'', 182), (''mq_unlink'', 181), (''mremap'', 216),
    (''mseal'', 462), (''msgctl'', 187), (''msgget'', 186), (''msgrcv'', 188), (''msgsnd'', 189),
    (''msync'', 227), (''munlock'', 229), (''munlockall'', 231), (''munmap'', 215),
    (''name_to_handle_at'', 264), (''nanosleep'', 101), (''newfstatat'', 79),
    (''nfsservctl'', 42), (''open_by_handle_at'', 265), (''open_tree'', 428), (''openat'', 56),
    (''openat2'', 437), (''perf_event_open'', 241), (''personality'', 92),
    (''pidfd_getfd'', 438), (''pidfd_open'', 434), (''pidfd_send_signal'', 424), (''pipe2'', 59),
    (''pivot_root'', 41), (''pkey_alloc'', 289), (''pkey_free'', 290), (''pkey_mprotect'', 288),
    (''ppoll'', 73), (''prctl'', 167), (''pread64'', 67), (''preadv'', 69), (''preadv2'', 286),
    (''prlimit64'', 261), (''process_madvise'', 440), (''process_mrelease'', 448),
    (''process_vm_readv'', 270), (''process_vm_writev'', 271), (''pselect6'', 72),
    (''ptrace'', 117), (''pwrite64'', 68), (''pwritev'', 70), (''pwritev2'', 287),
    (''quotactl'', 60), (''quotactl_fd'', 443), (''read'', 63), (''readahead'', 213),
    (''readlinkat'', 78), (''readv'', 65), (''reboot'', 142), (''recvfrom'', 207),
    (''recvmmsg'', 243), (''recvmsg'', 212), (''remap_file_pages'', 234), (''removexattr'', 14),
    (''renameat'', 38), (''renameat2'', 276), (''request_key'', 218), (''restart_syscall'', 128),
    (''rseq'', 293), (''rt_sigaction'', 134), (''rt_sigpending'', 136),
    (''rt_sigprocmask'', 135), (''rt_sigqueueinfo'', 138), (''rt_sigreturn'', 139),
    (''rt_sigsuspend'', 133), (''rt_sigtimedwait'', 137), (''rt_tgsigqueueinfo'', 240),
    (''sched_get_priority_max'', 125), (''sched_get_priority_min'', 126),
    (''sched_getaffinity'', 123), (''sched_getattr'', 275), (''sched_getparam'', 121),
    (''sched_getscheduler'', 120), (''sched_rr_get_interval'', 127),
    (''sched_setaffinity'', 122), (''sched_setattr'', 274), (''sched_setparam'', 118),
    (''sched_setscheduler'', 119), (''sched_yield'', 124), (''seccomp'', 277), (''semctl'', 191),
    (''semget'', 190), (''semop'', 193), (''semtimedop'', 192), (''sendfile'', 71),
    (''sendmmsg'', 269), (''sendmsg'', 211), (''sendto'', 206), (''set_mempolicy'', 237),
    (''set_mempolicy_home_node'', 450), (''set_robust_list'', 99), (''set_tid_address'', 96),
    (''setdomainname'', 162), (''setfsgid'', 152), (''setfsuid'', 151), (''setgid'', 144),
    (''setgroups'', 159)]"

definition AARCH64_TABLE_3 :: "(string \<times> u32) list" where
  "AARCH64_TABLE_3 = [
    (''sethostname'', 161), (''setitimer'', 103), (''setns'', 268), (''setpgid'', 154),
    (''setpriority'', 140), (''setregid'', 143), (''setresgid'', 149), (''setresuid'', 147),
    (''setreuid'', 145), (''setrlimit'', 164), (''setsid'', 157), (''setsockopt'', 208),
    (''settimeofday'', 170), (''setuid'', 146), (''setxattr'', 5), (''shmat'', 196),
    (''shmctl'', 195), (''shmdt'', 197), (''shmget'', 194), (''shutdown'', 210),
    (''sigaltstack'', 132), (''signalfd4'', 74), (''socket'', 198), (''socketpair'', 199),
    (''splice'', 76), (''statfs'', 43), (''statmount'', 457), (''statx'', 291),
    (''swapoff'', 225), (''swapon'', 224), (''symlinkat'', 36), (''sync'', 81),
    (''sync_file_range'', 84), (''syncfs'', 267), (''sysinfo'', 179), (''syslog'', 116),
    (''tee'', 77), (''tgkill'', 131), (''timer_create'', 107), (''timer_delete'', 111),
    (''timer_getoverrun'', 109), (''timer_gettime'', 108), (''timer_settime'', 110),
    (''timerfd_create'', 85), (''timerfd_gettime'', 87), (''timerfd_settime'', 86),
    (''times'', 153), (''tkill'', 130), (''truncate'', 45), (''umask'', 166), (''umount2'', 39),
    (''uname'', 160), (''unlinkat'', 35), (''unshare'', 97), (''userfaultfd'', 282),
    (''utimensat'', 88), (''vhangup'', 58), (''vmsplice'', 75), (''wait4'', 260),
    (''waitid'', 95), (''write'', 64), (''writev'', 66)]"

definition AARCH64_TABLE :: "(string \<times> u32) list" where
  "AARCH64_TABLE = AARCH64_TABLE_1 @ AARCH64_TABLE_2 @ AARCH64_TABLE_3"

definition X86_64_TABLE_1 :: "(string \<times> u32) list" where
  "X86_64_TABLE_1 = [
    (''_sysctl'', 156), (''accept'', 43), (''accept4'', 288), (''access'', 21), (''acct'', 163),
    (''add_key'', 248), (''adjtimex'', 159), (''afs_syscall'', 183), (''alarm'', 37),
    (''arch_prctl'', 158), (''bind'', 49), (''bpf'', 321), (''brk'', 12), (''cachestat'', 451),
    (''capget'', 125), (''capset'', 126), (''chdir'', 80), (''chmod'', 90), (''chown'', 92),
    (''chroot'', 161), (''clock_adjtime'', 305), (''clock_getres'', 229),
    (''clock_gettime'', 228), (''clock_nanosleep'', 230), (''clock_settime'', 227),
    (''clone'', 56), (''clone3'', 435), (''close'', 3), (''close_range'', 436),
    (''connect'', 42), (''copy_file_range'', 326), (''creat'', 85), (''create_module'', 174),
    (''delete_module'', 176), (''dup'', 32), (''dup2'', 33), (''dup3'', 292),
    (''epoll_create'', 213), (''epoll_create1'', 291), (''epoll_ctl'', 233),
    (''epoll_ctl_old'', 214), (''epoll_pwait'', 281), (''epoll_pwait2'', 441),
    (''epoll_wait'', 232), (''epoll_wait_old'', 215), (''eventfd'', 284), (''eventfd2'', 290),
    (''execve'', 59), (''execveat'', 322), (''exit'', 60), (''exit_group'', 231),
    (''faccessat'', 269), (''faccessat2'', 439), (''fadvise64'', 221), (''fallocate'', 285),
    (''fanotify_init'', 300), (''fanotify_mark'', 301), (''fchdir'', 81), (''fchmod'', 91),
    (''fchmodat'', 268), (''fchmodat2'', 452), (''fchown'', 93), (''fchownat'', 260),
    (''fcntl'', 72), (''fdatasync'', 75), (''fgetxattr'', 193), (''finit_module'', 313),
    (''flistxattr'', 196), (''flock'', 73), (''fork'', 57), (''fremovexattr'', 199),
    (''fsconfig'', 431), (''fsetxattr'', 190), (''fsmount'', 432), (''fsopen'', 430),
    (''fspick'', 433), (''fstat'', 5), (''fstatfs'', 138), (''fsync'', 74), (''ftruncate'', 77),
    (''futex'', 202), (''futex_requeue'', 456), (''futex_wait'', 455), (''futex_waitv'', 449),
    (''futex_wake'', 454), (''futimesat'', 261), (''get_kernel_syms'', 177),
    (''get_mempolicy'', 239), (''get_robust_list'', 274), (''get_thread_area'', 211),
    (''getcpu'', 309), (''getcwd'', 79), (''getdents'', 78), (''getdents64'', 217),
    (''getegid'', 108), (''geteuid'', 107), (''getgid'', 104), (''getgroups'', 115),
    (''getitimer'', 36), (''getpeername'', 52), (''getpgid'', 121), (''getpgrp'', 111),
    (''getpid'', 39), (''getpmsg'', 181), (''getppid'', 110), (''getpriority'', 140),
    (''getrandom'', 318), (''getresgid'', 120), (''getresuid'', 118), (''getrlimit'', 97),
    (''getrusage'', 98), (''getsid'', 124), (''getsockname'', 51), (''getsockopt'', 55),
    (''gettid'', 186), (''gettimeofday'', 96), (''getuid'', 102), (''getxattr'', 191),
    (''init_module'', 175), (''inotify_add_watch'', 254), (''inotify_init'', 253),
    (''inotify_init1'', 294), (''inotify_rm_watch'', 255), (''io_cancel'', 210),
    (''io_destroy'', 207), (''io_getevents'', 208), (''io_pgetevents'', 333), (''io_setup'', 206)]"

definition X86_64_TABLE_2 :: "(string \<times> u32) list" where
  "X86_64_TABLE_2 = [
    (''io_submit'', 209), (''io_uring_enter'', 426), (''io_uring_register'', 427),
    (''io_uring_setup'', 425), (''ioctl'', 16), (''ioperm'', 173), (''iopl'', 172),
    (''ioprio_get'', 252), (''ioprio_set'', 251), (''kcmp'', 312), (''kexec_file_load'', 320),
    (''kexec_load'', 246), (''keyctl'', 250), (''kill'', 62), (''landlock_add_rule'', 445),
    (''landlock_create_ruleset'', 444), (''landlock_restrict_self'', 446), (''lchown'', 94),
    (''lgetxattr'', 192), (''link'', 86), (''linkat'', 265), (''listen'', 50),
    (''listmount'', 458), (''listxattr'', 194), (''llistxattr'', 195), (''lookup_dcookie'', 212),
    (''lremovexattr'', 198), (''lseek'', 8), (''lsetxattr'', 189), (''lsm_get_self_attr'', 459),
    (''lsm_list_modules'', 461), (''lsm_set_self_attr'', 460), (''lstat'', 6), (''madvise'', 28),
    (''map_shadow_stack'', 453), (''mbind'', 237), (''membarrier'', 324),
    (''memfd_create'', 319), (''memfd_secret'', 447), (''migrate_pages'', 256),
    (''mincore'', 27), (''mkdir'', 83), (''mkdirat'', 258), (''mknod'', 133), (''mknodat'', 259),
    (''mlock'', 149), (''mlock2'', 325), (''mlockall'', 151), (''mmap'', 9),
    (''modify_ldt'', 154), (''mount'', 165), (''mount_setattr'', 442), (''move_mount'', 429),
    (''move_pages'', 279), (''mprotect'', 10), (''mq_getsetattr'', 245), (''mq_notify'', 244),
    (''mq_open'', 240), (''mq_timedreceive'', 243), (''mq_timedsend'', 242),
    (''mq_unlink'', 241), (''mremap'', 25), (''mseal'', 462), (''msgctl'', 71), (''msgget'', 68),
    (''msgrcv'', 70), (''msgsnd'', 69), (''msync'', 26), (''munlock'', 150),
    (''munlockall'', 152), (''munmap'', 11), (''name_to_handle_at'', 303), (''nanosleep'', 35),
    (''newfstatat'', 262), (''nfsservctl'', 180), (''open'', 2), (''open_by_handle_at'', 304),
    (''open_tree'', 428), (''openat'', 257), (''openat2'', 437), (''pause'', 34),
    (''perf_event_open'', 298), (''personality'', 135), (''pidfd_getfd'', 438),
    (''pidfd_open'', 434), (''pidfd_send_signal'', 424), (''pipe'', 22), (''pipe2'', 293),
    (''pivot_root'', 155), (''pkey_alloc'', 330), (''pkey_free'', 331), (''pkey_mprotect'', 329),
    (''poll'', 7), (''ppoll'', 271), (''prctl'', 157), (''pread64'', 17), (''preadv'', 295),
    (''preadv2'', 327), (''prlimit64'', 302), (''process_madvise'', 440),
    (''process_mrelease'', 448), (''process_vm_readv'', 310), (''process_vm_writev'', 311),
    (''pselect6'', 270), (''ptrace'', 101), (''putpmsg'', 182), (''pwrite64'', 18),
    (''pwritev'', 296), (''pwritev2'', 328), (''query_module'', 178), (''quotactl'', 179),
    (''quotactl_fd'', 443), (''read'', 0), (''readahead'', 187), (''readlink'', 89),
    (''readlinkat'', 267), (''readv'', 19), (''reboot'', 169), (''recvfrom'', 45),
    (''recvmmsg'', 299), (''recvmsg'', 47), (''remap_file_pages'', 216), (''removexattr'', 197),
    (''rename'', 82), (''renameat'', 264), (''renameat2'', 316), (''request_key'', 249),
    (''restart_syscall'', 219)]"

definition X86_64_TABLE_3 :: "(string \<times> u32) list" where
  "X86_64_TABLE_3 = [
    (''rmdir'', 84), (''rseq'', 334), (''rt_sigaction'', 13), (''rt_sigpending'', 127),
    (''rt_sigprocmask'', 14), (''rt_sigqueueinfo'', 129), (''rt_sigreturn'', 15),
    (''rt_sigsuspend'', 130), (''rt_sigtimedwait'', 128), (''rt_tgsigqueueinfo'', 297),
    (''sched_get_priority_max'', 146), (''sched_get_priority_min'', 147),
    (''sched_getaffinity'', 204), (''sched_getattr'', 315), (''sched_getparam'', 143),
    (''sched_getscheduler'', 145), (''sched_rr_get_interval'', 148),
    (''sched_setaffinity'', 203), (''sched_setattr'', 314), (''sched_setparam'', 142),
    (''sched_setscheduler'', 144), (''sched_yield'', 24), (''seccomp'', 317),
    (''security'', 185), (''select'', 23), (''semctl'', 66), (''semget'', 64), (''semop'', 65),
    (''semtimedop'', 220), (''sendfile'', 40), (''sendmmsg'', 307), (''sendmsg'', 46),
    (''sendto'', 44), (''set_mempolicy'', 238), (''set_mempolicy_home_node'', 450),
    (''set_robust_list'', 273), (''set_thread_area'', 205), (''set_tid_address'', 218),
    (''setdomainname'', 171), (''setfsgid'', 123), (''setfsuid'', 122), (''setgid'', 106),
    (''setgroups'', 116), (''sethostname'', 170), (''setitimer'', 38), (''setns'', 308),
    (''setpgid'', 109), (''setpriority'', 141), (''setregid'', 114), (''setresgid'', 119),
    (''setresuid'', 117), (''setreuid'', 113), (''setrlimit'', 160), (''setsid'', 112),
    (''setsockopt'', 54), (''settimeofday'', 164), (''setuid'', 105), (''setxattr'', 188),
    (''shmat'', 30), (''shmctl'', 31), (''shmdt'', 67), (''shmget'', 29), (''shutdown'', 48),
    (''sigaltstack'', 131), (''signalfd'', 282), (''signalfd4'', 289), (''socket'', 41),
    (''socketpair'', 53), (''splice'', 275), (''stat'', 4), (''statfs'', 137),
    (''statmount'', 457), (''statx'', 332), (''swapoff'', 168), (''swapon'', 167),
    (''symlink'', 88), (''symlinkat'', 266), (''sync'', 162), (''sync_file_range'', 277),
    (''syncfs'', 306), (''sysfs'', 139), (''sysinfo'', 99), (''syslog'', 103), (''tee'', 276),
    (''tgkill'', 234), (''time'', 201), (''timer_create'', 222), (''timer_delete'', 226),
    (''timer_getoverrun'', 225), (''timer_gettime'', 224), (''timer_settime'', 223),
    (''timerfd_create'', 283), (''timerfd_gettime'', 287), (''timerfd_settime'', 286),
    (''times'', 100), (''tkill'', 200), (''truncate'', 76), (''tuxcall'', 184), (''umask'', 95),
    (''umount2'', 166), (''uname'', 63), (''unlink'', 87), (''unlinkat'', 263),
    (''unshare'', 272), (''uretprobe'', 335), (''uselib'', 134), (''userfaultfd'', 323),
    (''ustat'', 136), (''utime'', 132), (''utimensat'', 280), (''utimes'', 235), (''vfork'', 58),
    (''vhangup'', 153), (''vmsplice'', 278), (''vserver'', 236), (''wait4'', 61),
    (''waitid'', 247), (''write'', 1), (''writev'', 20)]"

definition X86_64_TABLE :: "(string \<times> u32) list" where
  "X86_64_TABLE = X86_64_TABLE_1 @ X86_64_TABLE_2 @ X86_64_TABLE_3"

section \<open>Architectures\<close>

record arch =
  arch_name :: string
  AUDIT_ARCH :: u32
  TABLE :: "(string \<times> u32) list"

definition aarch64 :: arch where
  "aarch64 = \<lparr>arch_name = ''aarch64'', AUDIT_ARCH = 0xc00000b7, TABLE = AARCH64_TABLE\<rparr>"

definition x86_64 :: arch where
  "x86_64 = \<lparr>arch_name = ''x86_64'', AUDIT_ARCH = 0xc000003e, TABLE = X86_64_TABLE\<rparr>"

definition other_arch :: "string \<Rightarrow> arch" where
  "other_arch name = \<lparr>arch_name = name, AUDIT_ARCH = 0, TABLE = []\<rparr>"

definition is_supported :: "arch \<Rightarrow> bool" where
  "is_supported a \<longleftrightarrow> TABLE a \<noteq> [] \<and> AUDIT_ARCH a \<noteq> 0"

section \<open>Lookup by binary search\<close>

text \<open>
  \<open>slice::binary_search_by_key\<close>: halve the window \<open>[base, base + sz)\<close> until one
  element is left, keeping the upper half unless its first key is greater than the one
  sought; then look at that element.
\<close>

function narrow :: "(string \<times> 'v) list \<Rightarrow> string \<Rightarrow> nat \<Rightarrow> nat \<Rightarrow> nat" where
  "narrow t name base sz =
     (if sz \<le> 1 then base
      else let half = sz div 2; mid = base + half
           in narrow t name (if name < fst (t ! mid) then base else mid) (sz - half))"
  by pat_completeness auto
termination
  by (relation "measure (\<lambda>(t, name, base, sz). sz)") auto

declare narrow.simps [simp del]

definition binary_search_by_key :: "(string \<times> 'v) list \<Rightarrow> string \<Rightarrow> nat option" where
  "binary_search_by_key t name =
     (if t = [] then None
      else let i = narrow t name 0 (length t) in if fst (t ! i) = name then Some i else None)"

definition number :: "arch \<Rightarrow> string \<Rightarrow> u32 option" where
  "number a name = map_option (\<lambda>i. snd (TABLE a ! i)) (binary_search_by_key (TABLE a) name)"

text \<open>On a table sorted by name the search is the lookup of an association list.\<close>

lemma narrow_bounds:
  "0 < sz \<Longrightarrow> base \<le> narrow t name base sz \<and> narrow t name base sz < base + sz"
proof (induction t name base sz rule: narrow.induct)
  case (1 t name base sz)
  show ?case
  proof (cases "sz \<le> 1")
    case True
    with 1 show ?thesis by (simp add: narrow.simps [of t name base sz])
  next
    case False
    define half where "half = sz div 2"
    have half: "0 < half" "half < sz" using False by (auto simp: half_def)
    show ?thesis
      using 1(1) [OF False half_def refl] half False
      by (auto simp: narrow.simps [of t name base sz] Let_def half_def [symmetric]
          split: if_splits)
  qed
qed

lemma narrow_finds:
  assumes "sorted_wrt (<) (map fst t)"
    and "base \<le> i" and "i < base + sz" and "base + sz \<le> length t" and "fst (t ! i) = name"
  shows "narrow t name base sz = i"
  using assms
proof (induction t name base sz rule: narrow.induct)
  case (1 t name base sz)
  show ?case
  proof (cases "sz \<le> 1")
    case True
    with 1 show ?thesis by (simp add: narrow.simps [of t name base sz])
  next
    case False
    define half where "half = sz div 2"
    have half: "0 < half" "half < sz" "half \<le> sz - half"
      using False by (auto simp: half_def)
    let ?mid = "base + half"
    have "name < fst (t ! ?mid) \<longleftrightarrow> i < ?mid"
    proof -
      have lt: "fst (t ! j) < fst (t ! k)" if "j < k" "k < length t" for j k
        using 1(2) that by (auto simp: sorted_wrt_iff_nth_less)
      consider "i < ?mid" | "i = ?mid" | "?mid < i" by linarith
      then show ?thesis
        using 1(3-6) half lt [of i ?mid] lt [of ?mid i] by cases auto
    qed
    then show ?thesis
      using 1(1) [OF False half_def refl] 1(2-6) half False
      by (auto simp: narrow.simps [of t name base sz] Let_def half_def [symmetric])
  qed
qed

lemma binary_search_map_of:
  assumes "sorted_wrt (<) (map fst t)"
  shows "map_option (\<lambda>i. snd (t ! i)) (binary_search_by_key t name) = map_of t name"
proof -
  have d: "distinct (map fst t)"
    using assms strict_sorted_iff by blast
  show ?thesis
  proof (cases "map_of t name")
    case None
    then have "name \<notin> fst ` set t" by (simp add: map_of_eq_None_iff)
    moreover have "fst (t ! narrow t name 0 (length t)) \<in> fst ` set t" if "t \<noteq> []"
      using that narrow_bounds [of "length t" 0 t name] by auto
    ultimately have "t \<noteq> [] \<Longrightarrow> fst (t ! narrow t name 0 (length t)) \<noteq> name"
      by metis
    then show ?thesis
      using None by (auto simp: binary_search_by_key_def Let_def)
  next
    case (Some v)
    then obtain i where i: "i < length t" "t ! i = (name, v)"
      using map_of_SomeD in_set_conv_nth by metis
    then have "narrow t name 0 (length t) = i"
      by (intro narrow_finds [OF assms]) auto
    then show ?thesis
      using i Some by (auto simp: binary_search_by_key_def Let_def)
  qed
qed

text \<open>Both tables are sorted, without repeated names or numbers.\<close>

fun ascending :: "string list \<Rightarrow> bool" where
  "ascending (x # y # ys) \<longleftrightarrow> x < y \<and> ascending (y # ys)"
| "ascending _ \<longleftrightarrow> True"

lemma ascending_sorted: "ascending xs \<longleftrightarrow> sorted_wrt (<) xs"
proof (induction xs rule: ascending.induct)
  case (1 x y ys)
  then show ?case by (auto intro: order.strict_trans)
qed auto

lemma tables_sorted:
  "sorted_wrt (<) (map fst AARCH64_TABLE)" "sorted_wrt (<) (map fst X86_64_TABLE)"
  unfolding ascending_sorted [symmetric] by code_simp+

text \<open>
  That no number is listed twice is checked by sorting the numbers into buckets by their
  low bits, which keeps the number of comparisons small.
\<close>

fun distinct_bits :: "nat \<Rightarrow> nat list \<Rightarrow> bool" where
  "distinct_bits 0 xs \<longleftrightarrow> distinct xs"
| "distinct_bits (Suc n) xs \<longleftrightarrow>
     distinct_bits n (map (\<lambda>x. x div 2) (filter even xs))
     \<and> distinct_bits n (map (\<lambda>x. x div 2) (filter odd xs))"

lemma distinct_partition:
  "distinct (filter P xs) \<Longrightarrow> distinct (filter (\<lambda>x. \<not> P x) xs) \<Longrightarrow> distinct xs"
  by (induction xs) (auto split: if_splits)

lemma distinct_bits_distinct: "distinct_bits n xs \<Longrightarrow> distinct xs"
proof (induction n arbitrary: xs)
  case (Suc n)
  then have "distinct (filter even xs)" and "distinct (filter odd xs)"
    by (auto dest!: Suc.IH simp: distinct_map)
  then show ?case by (rule distinct_partition)
qed simp

lemma x86_64_bits: "distinct_bits (Suc (Suc (Suc (Suc (Suc 0))))) (map (unat \<circ> snd) X86_64_TABLE)"
  by (simp add: X86_64_TABLE_def X86_64_TABLE_1_def X86_64_TABLE_2_def X86_64_TABLE_3_def)

lemma aarch64_bits: "distinct_bits (Suc (Suc (Suc (Suc (Suc 0))))) (map (unat \<circ> snd) AARCH64_TABLE)"
  by (simp add: AARCH64_TABLE_def AARCH64_TABLE_1_def AARCH64_TABLE_2_def AARCH64_TABLE_3_def)

lemma table_numbers_distinct:
  "distinct (map snd X86_64_TABLE)" "distinct (map snd AARCH64_TABLE)"
  using distinct_bits_distinct [OF x86_64_bits] distinct_bits_distinct [OF aarch64_bits]
  by (auto simp: distinct_map inj_on_def)

text \<open>The two architectures Zygo builds filters for.\<close>

definition known_arch :: "arch \<Rightarrow> bool" where
  "known_arch a \<longleftrightarrow> a = aarch64 \<or> a = x86_64"

lemma known_arch_supported: "known_arch a \<Longrightarrow> is_supported a"
  by (auto simp: known_arch_def is_supported_def aarch64_def x86_64_def
      AARCH64_TABLE_def AARCH64_TABLE_1_def X86_64_TABLE_def X86_64_TABLE_1_def)

lemma known_arch_table:
  "known_arch a \<Longrightarrow> sorted_wrt (<) (map fst (TABLE a)) \<and> distinct (map snd (TABLE a))"
  by (auto simp: known_arch_def aarch64_def x86_64_def tables_sorted table_numbers_distinct)

lemma number_map_of: "known_arch a \<Longrightarrow> number a name = map_of (TABLE a) name"
  unfolding number_def by (rule binary_search_map_of) (simp add: known_arch_table)

lemma number_in_table: "known_arch a \<Longrightarrow> number a name = Some nr \<longleftrightarrow> (name, nr) \<in> set (TABLE a)"
  using known_arch_table [of a] strict_sorted_iff [of "map fst (TABLE a)"]
  by (simp add: number_map_of map_of_eq_Some_iff)

lemma number_inj:
  assumes "known_arch a" and "number a m = Some nr" and "number a n = Some nr"
  shows "m = n"
proof -
  have "inj_on snd (set (TABLE a))"
    using known_arch_table [OF assms(1)] by (simp add: distinct_map)
  moreover have "(m, nr) \<in> set (TABLE a)" "(n, nr) \<in> set (TABLE a)"
    using assms by (simp_all only: number_in_table)
  ultimately have "(m, nr) = (n, nr)"
    by (intro inj_onD [where f = snd and A = "set (TABLE a)"]) simp_all
  then show ?thesis
    by simp
qed

text \<open>
  The syscall lookup is exact on both architectures: \<open>number\<close> finds a number for a name
  exactly when the generated table lists that pair, so the binary search misses no entry,
  and no two names share a number.
\<close>

theorem syscall_lookup_exact:
  assumes "known_arch a"
  shows "(number a name = Some nr \<longleftrightarrow> (name, nr) \<in> set (TABLE a))
    \<and> (number a name = Some nr \<and> number a other = Some nr \<longrightarrow> other = name)"
  using number_in_table [OF assms] number_inj [OF assms] by blast

theorem syscall_lookup_exact_witness: "number x86_64 ''ptrace'' = Some 101"
proof -
  have k: "known_arch x86_64" by (simp add: known_arch_def)
  have "(''ptrace'', 101) \<in> set (TABLE x86_64)"
    by (simp add: x86_64_def X86_64_TABLE_def X86_64_TABLE_2_def)
  then show ?thesis
    using syscall_lookup_exact [OF k, of "''ptrace''" 101] by blast
qed

end
