(* ===== verification/Rust_Net.thy ===== *)
theory Rust_Net
  imports Rust_Nums "HOL-Library.Monad_Syntax"
begin

text \<open>
  \<open>std::net\<close> as the program uses it: IPv4 and IPv6 addresses as words, the standard
  library's address parser (which reads a prefix of the text and demands that nothing is
  left) and its printer, and the address classes the program asks about.
\<close>

section \<open>Addresses\<close>

datatype ip_addr = V4 u32 | V6 "128 word"

fun is_ipv4 :: "ip_addr \<Rightarrow> bool" where
  "is_ipv4 (V4 a) \<longleftrightarrow> True"
| "is_ipv4 (V6 a) \<longleftrightarrow> False"

definition octet :: "nat \<Rightarrow> u32 \<Rightarrow> byte" where
  "octet i a = ucast (drop_bit (24 - 8 * i) a)"

definition segment :: "nat \<Rightarrow> 128 word \<Rightarrow> u16" where
  "segment i a = ucast (drop_bit (112 - 16 * i) a)"

fun v6_of :: "u16 list \<Rightarrow> 128 word" where
  "v6_of gs = foldl (\<lambda>a g. push_bit 16 a OR ucast g) 0 gs"

definition segments :: "128 word \<Rightarrow> u16 list" where
  "segments a = map (\<lambda>i. segment i a) [0..<8]"

section \<open>The parser\<close>

definition to_digit :: "nat \<Rightarrow> char \<Rightarrow> nat option" where
  "to_digit radix c =
     (let d = (if is_ascii_digit c then Some (code c - 48)
               else if 97 \<le> code c \<and> code c \<le> 122 then Some (code c - 87)
               else if 65 \<le> code c \<and> code c \<le> 90 then Some (code c - 55)
               else None)
      in case d of Some n \<Rightarrow> (if n < radix then Some n else None) | None \<Rightarrow> None)"

definition radix_value :: "nat \<Rightarrow> string \<Rightarrow> nat" where
  "radix_value radix s = foldl (\<lambda>a c. radix * a + the (to_digit radix c)) 0 s"

definition read_number :: "nat \<Rightarrow> nat \<Rightarrow> bool \<Rightarrow> nat \<Rightarrow> string \<Rightarrow> (nat \<times> string) option" where
  "read_number radix max_digits allow_zero_prefix mx s =
     (let ds = takeWhile (\<lambda>c. to_digit radix c \<noteq> None) s;
          v = radix_value radix ds
      in if ds = [] \<or> length ds > max_digits
            \<or> (\<not> allow_zero_prefix \<and> hd ds = CHR ''0'' \<and> length ds > 1) \<or> v > mx
         then None else Some (v, drop (length ds) s))"

fun read_given_char :: "char \<Rightarrow> string \<Rightarrow> string option" where
  "read_given_char c [] = None"
| "read_given_char c (x # r) = (if x = c then Some r else None)"

definition read_octet :: "string \<Rightarrow> (nat \<times> string) option" where
  "read_octet s = read_number 10 3 False 255 s"

definition read_ipv4_addr :: "string \<Rightarrow> (u32 \<times> string) option" where
  "read_ipv4_addr s = do {
     (a, s) \<leftarrow> read_octet s;
     s \<leftarrow> read_given_char CHR ''.'' s;
     (b, s) \<leftarrow> read_octet s;
     s \<leftarrow> read_given_char CHR ''.'' s;
     (c, s) \<leftarrow> read_octet s;
     s \<leftarrow> read_given_char CHR ''.'' s;
     (d, s) \<leftarrow> read_octet s;
     Some (u32_of_be (word_of_nat a) (word_of_nat b) (word_of_nat c) (word_of_nat d), s) }"

definition read_separator :: "bool \<Rightarrow> string \<Rightarrow> string option" where
  "read_separator first s = (if first then Some s else read_given_char CHR '':'' s)"

fun read_groups :: "nat \<Rightarrow> bool \<Rightarrow> string \<Rightarrow> u16 list \<times> bool \<times> string" where
  "read_groups 0 first s = ([], False, s)"
| "read_groups (Suc n) first s =
     (case (if n > 0 then Option.bind (read_separator first s) read_ipv4_addr else None) of
        Some (v4, r) \<Rightarrow> ([ucast (drop_bit 16 v4), ucast v4], True, r)
      | None \<Rightarrow>
          (case Option.bind (read_separator first s) (read_number 16 4 True 65535) of
             None \<Rightarrow> ([], False, s)
           | Some (g, r) \<Rightarrow>
               (let (gs, b, r') = read_groups n False r in (word_of_nat g # gs, b, r'))))"

definition read_ipv6_addr :: "string \<Rightarrow> (128 word \<times> string) option" where
  "read_ipv6_addr s =
     (let (head, head_ipv4, r) = read_groups 8 True s
      in if length head = 8 then Some (v6_of head, r)
         else if head_ipv4 then None
         else do {
           r \<leftarrow> read_given_char CHR '':'' r;
           r \<leftarrow> read_given_char CHR '':'' r;
           (let (tl, _, r) = read_groups (8 - (length head + 1)) True r
            in Some (v6_of (head @ replicate (8 - length head - length tl) 0 @ tl), r)) })"

definition parse_ip :: "string \<Rightarrow> ip_addr option" where
  "parse_ip s =
     (case read_ipv4_addr s of
        Some (a, r) \<Rightarrow> (if r = [] then Some (V4 a) else None)
      | None \<Rightarrow>
          (case read_ipv6_addr s of
             Some (a, r) \<Rightarrow> (if r = [] then Some (V6 a) else None)
           | None \<Rightarrow> None))"

definition parse_ipv6 :: "string \<Rightarrow> 128 word option" where
  "parse_ipv6 s =
     (case read_ipv6_addr s of Some (a, r) \<Rightarrow> (if r = [] then Some a else None) | None \<Rightarrow> None)"

section \<open>The printer\<close>

definition show_v4 :: "u32 \<Rightarrow> string" where
  "show_v4 a = join ''.'' (map (\<lambda>i. show_nat (unat (octet i a))) [0, 1, 2, 3])"

definition hex_char :: "nat \<Rightarrow> char" where
  "hex_char d = (if d < 10 then char_of (48 + d) else char_of (87 + d))"

fun show_hex :: "nat \<Rightarrow> string" where
  "show_hex n = (if n < 16 then [hex_char n] else show_hex (n div 16) @ [hex_char (n mod 16)])"

declare show_hex.simps [simp del]

text \<open>The longest run of zero groups, the first of equal ones: \<open>(start, len)\<close>.\<close>

fun zero_span :: "nat \<Rightarrow> nat \<times> nat \<Rightarrow> nat \<times> nat \<Rightarrow> u16 list \<Rightarrow> nat \<times> nat" where
  "zero_span i longest current [] = longest"
| "zero_span i longest (start, len) (g # gs) =
     (if g = 0 then
        (let cur = (if len = 0 then (i, 1) else (start, len + 1))
         in zero_span (Suc i) (if snd cur > snd longest then cur else longest) cur gs)
      else zero_span (Suc i) longest (0, 0) gs)"

definition show_groups :: "u16 list \<Rightarrow> string" where
  "show_groups gs = join '':'' (map (\<lambda>g. show_hex (unat g)) gs)"

definition show_v6 :: "128 word \<Rightarrow> string" where
  "show_v6 a =
     (if drop_bit 32 a = 0xffff then ''::ffff:'' @ show_v4 (ucast a)
      else
        (let gs = segments a; (start, len) = zero_span 0 (0, 0) (0, 0) gs
         in if len > 1 then show_groups (take start gs) @ ''::'' @ show_groups (drop (start + len) gs)
            else show_groups gs))"

fun show_ip :: "ip_addr \<Rightarrow> string" where
  "show_ip (V4 a) = show_v4 a"
| "show_ip (V6 a) = show_v6 a"

section \<open>Address classes\<close>

definition v4_is_private :: "u32 \<Rightarrow> bool" where
  "v4_is_private a \<longleftrightarrow>
     octet 0 a = 10 \<or> (octet 0 a = 172 \<and> 16 \<le> octet 1 a \<and> octet 1 a \<le> 31)
     \<or> (octet 0 a = 192 \<and> octet 1 a = 168)"

definition v4_is_loopback :: "u32 \<Rightarrow> bool" where
  "v4_is_loopback a \<longleftrightarrow> octet 0 a = 127"

definition v4_is_link_local :: "u32 \<Rightarrow> bool" where
  "v4_is_link_local a \<longleftrightarrow> octet 0 a = 169 \<and> octet 1 a = 254"

definition v6_is_multicast :: "128 word \<Rightarrow> bool" where
  "v6_is_multicast a \<longleftrightarrow> segment 0 a AND 0xff00 = 0xff00"

section \<open>Facts about IPv4 text\<close>

lemma to_digit_10: "to_digit 10 c = (if is_ascii_digit c then Some (code c - 48) else None)"
  by (auto simp: to_digit_def Let_def is_ascii_digit_def)

lemma radix_value_10: "\<forall>c \<in> set s. is_ascii_digit c \<Longrightarrow> radix_value 10 s = digits_value s"
proof (induction s rule: rev_induct)
  case (snoc c s)
  then show ?case
    by (simp add: radix_value_def digits_value_def to_digit_10 digit_val_def)
qed (simp add: radix_value_def digits_value_def)

definition no_digit_ahead :: "string \<Rightarrow> bool" where
  "no_digit_ahead r \<longleftrightarrow> (case r of [] \<Rightarrow> True | c # _ \<Rightarrow> \<not> is_ascii_digit c)"

lemma show_nat_leading_zero: "hd (show_nat n) = CHR ''0'' \<Longrightarrow> length (show_nat n) \<le> 1"
proof (induction n rule: show_nat.induct)
  case (1 n)
  show ?case
  proof (cases "n < 10")
    case True
    then show ?thesis by (simp add: show_nat_step)
  next
    case False
    then have s: "show_nat n = show_nat (n div 10) @ [digit_char (n mod 10)]"
      by (simp add: show_nat_step)
    with 1(2) have h: "hd (show_nat (n div 10)) = CHR ''0''" by simp
    with 1(1) False have "length (show_nat (n div 10)) \<le> 1" by simp
    then have "show_nat (n div 10) = [CHR ''0'']"
      using h by (cases "show_nat (n div 10)") (auto simp: Suc_le_eq)
    then have "n div 10 = digits_value [CHR ''0'']"
      using digits_value_show_nat [of "n div 10"] by simp
    then have "n div 10 = 0"
      by (simp add: digits_value_def digit_val_def str_simps)
    with False show ?thesis by simp
  qed
qed

lemma length_show_nat_octet: "n \<le> 255 \<Longrightarrow> length (show_nat n) \<le> 3"
proof -
  assume n: "n \<le> 255"
  have "length (show_nat n) \<le> 1" if "n < 10" for n :: nat
    using that by (simp add: show_nat_step)
  moreover have "length (show_nat n) \<le> Suc (length (show_nat (n div 10)))" for n :: nat
    by (cases "n < 10") (simp_all add: show_nat_step)
  moreover have "n div 10 div 10 < 10"
    using n by simp
  ultimately show ?thesis
    by (metis (no_types, opaque_lifting) One_nat_def Suc_le_mono eval_nat_numeral(3) numeral_2_eq_2 order_trans)
qed

lemma read_octet_show [simp]:
  assumes "n \<le> 255" and "no_digit_ahead r"
  shows "read_octet (show_nat n @ r) = Some (n, r)"
proof -
  have t: "takeWhile (\<lambda>c. to_digit 10 c \<noteq> None) (show_nat n @ r) = show_nat n"
  proof (cases r)
    case Nil
    then show ?thesis
      using show_nat_digits by (auto simp: to_digit_10 takeWhile_eq_self_iff)
  next
    case (Cons c r')
    then show ?thesis
      using assms(2) show_nat_digits
      by (auto simp: to_digit_10 no_digit_ahead_def intro!: takeWhile_append_stop)
  qed
  have "radix_value 10 (show_nat n) = n"
    using radix_value_10 [of "show_nat n"] show_nat_digits by simp
  then show ?thesis
    using t assms(1) length_show_nat_octet [OF assms(1)] show_nat_leading_zero [of n]
    by (auto simp: read_octet_def read_number_def Let_def)
qed

lemma unat_octet_le [simp]: "unat (octet i a) \<le> 255"
  using unsigned_less [where ?'a = nat and w = "octet i a"] by simp

lemma u32_of_octets: "u32_of_be (octet 0 a) (octet 1 a) (octet 2 a) (octet 3 a) = a"
  using u32_of_be_u32_be [of a] by (simp add: octet_def)

lemma no_digit_ahead_simps [simp]: "no_digit_ahead []" "no_digit_ahead (CHR ''.'' # r)"
  "no_digit_ahead (CHR ''/'' # r)" "no_digit_ahead (CHR '':'' # r)"
  by (simp_all add: no_digit_ahead_def is_ascii_digit_def str_simps)

lemma read_ipv4_show:
  "no_digit_ahead r \<Longrightarrow> read_ipv4_addr (show_v4 a @ r) = Some (a, r)"
  by (simp add: read_ipv4_addr_def show_v4_def u32_of_octets [simplified])

lemma parse_ip_show_v4 [simp]: "parse_ip (show_v4 a) = Some (V4 a)"
  using read_ipv4_show [of "[]" a] by (simp add: parse_ip_def)

lemma show_v4_chars: "c \<in> set (show_v4 a) \<Longrightarrow> is_ascii_digit c \<or> c = CHR ''.''"
  using show_nat_digits by (fastforce simp: show_v4_def)

end
