(* ===== verification/Zygo_Types.thy ===== *)
theory Zygo_Types
  imports Rust_Net
begin

text \<open>
  The scalar types of the specification (\<open>crates/zygo-core/src/spec/types.rs\<close>): the
  string enums and the \<open>str_enum!\<close> macro they come from, \<open>Runtime\<close>, \<open>Duration\<close> (printing),
  \<open>Mount\<close>, \<open>Cidr\<close>, the private-address predicate, and the egress \<open>AllowRule\<close> with its
  parser and matcher. Strings are UTF-8 bytes. The parsing of \<open>Bytes\<close>, \<open>Cpu\<close> and
  \<open>Duration\<close> goes through floating point and is not modelled.
\<close>

section \<open>Errors\<close>

record parse_error =
  pe_kind :: string
  pe_input :: string
  pe_reason :: string

definition parse_error_new :: "string \<Rightarrow> string \<Rightarrow> string \<Rightarrow> parse_error" where
  "parse_error_new kind input reason =
     \<lparr>pe_kind = kind, pe_input = input, pe_reason = reason\<rparr>"

section \<open>The string enums\<close>

text \<open>
  What \<open>str_enum!\<close> expands \<open>from_str\<close> to: the variants' own texts first, then the aliases.
\<close>

definition enum_from_str ::
  "string \<Rightarrow> ('a \<Rightarrow> string) \<Rightarrow> 'a list \<Rightarrow> (string \<times> 'a) list \<Rightarrow> string \<Rightarrow> parse_error + 'a" where
  "enum_from_str kind as_str all aliases s =
     (case map_of (map (\<lambda>v. (as_str v, v)) all @ aliases) (to_ascii_lowercase (trim s)) of
        Some v \<Rightarrow> Inr v
      | None \<Rightarrow> Inl (parse_error_new kind s
          (''expected one of: '' @ join '', '' (map as_str all))))"

datatype isolation = Ns | Gvisor | Vm

fun isolation_as_str :: "isolation \<Rightarrow> string" where
  "isolation_as_str Ns = ''ns''"
| "isolation_as_str Gvisor = ''gvisor''"
| "isolation_as_str Vm = ''vm''"

definition isolation_from_str :: "string \<Rightarrow> parse_error + isolation" where
  "isolation_from_str = enum_from_str ''isolation backend'' isolation_as_str [Ns, Gvisor, Vm] []"

datatype network = NetNone | Egress | Full | Host

fun network_as_str :: "network \<Rightarrow> string" where
  "network_as_str NetNone = ''none''"
| "network_as_str Egress = ''egress''"
| "network_as_str Full = ''full''"
| "network_as_str Host = ''host''"

definition network_from_str :: "string \<Rightarrow> parse_error + network" where
  "network_from_str = enum_from_str ''network mode'' network_as_str
     [NetNone, Egress, Full, Host] [(''bridge'', Full)]"

datatype seccomp_profile = Permissive | Default | Strict

fun seccomp_profile_as_str :: "seccomp_profile \<Rightarrow> string" where
  "seccomp_profile_as_str Permissive = ''permissive''"
| "seccomp_profile_as_str Default = ''default''"
| "seccomp_profile_as_str Strict = ''strict''"

definition seccomp_profile_from_str :: "string \<Rightarrow> parse_error + seccomp_profile" where
  "seccomp_profile_from_str = enum_from_str ''seccomp profile'' seccomp_profile_as_str
     [Permissive, Default, Strict] []"

datatype handler_mode = Function | Stdin

fun handler_mode_as_str :: "handler_mode \<Rightarrow> string" where
  "handler_mode_as_str Function = ''function''"
| "handler_mode_as_str Stdin = ''stdin''"

definition handler_mode_from_str :: "string \<Rightarrow> parse_error + handler_mode" where
  "handler_mode_from_str =
     enum_from_str ''handler mode'' handler_mode_as_str [Function, Stdin] []"

datatype builtin_runtime = Python | Node | Go

fun builtin_runtime_as_str :: "builtin_runtime \<Rightarrow> string" where
  "builtin_runtime_as_str Python = ''python''"
| "builtin_runtime_as_str Node = ''node''"
| "builtin_runtime_as_str Go = ''go''"

definition builtin_runtime_from_str :: "string \<Rightarrow> parse_error + builtin_runtime" where
  "builtin_runtime_from_str =
     enum_from_str ''runtime'' builtin_runtime_as_str [Python, Node, Go] []"

lemma enum_parse_print:
  assumes "v \<in> set all" and "distinct (map as_str all)"
    and "\<forall>c \<in> set (as_str v). is_ascii_graphic c \<and> \<not> is_ascii_uppercase c"
  shows "enum_from_str kind as_str all aliases (as_str v) = Inr v"
proof -
  have "map_of (map (\<lambda>v. (as_str v, v)) all) (as_str v) = Some v"
    using assms(1,2) by (intro map_of_is_SomeI) (auto simp: comp_def)
  then show ?thesis
    using assms(3) by (simp add: enum_from_str_def trim_graphic to_ascii_lowercase_id
        map_add_Some_iff)
qed

interpretation isolation: parse_print isolation_from_str isolation_as_str "\<lambda>_. True"
  by (unfold_locales, simp only: isolation_from_str_def, rule enum_parse_print)
    (case_tac x; simp add: char_class_defs str_simps)+

interpretation network: parse_print network_from_str network_as_str "\<lambda>_. True"
  by (unfold_locales, simp only: network_from_str_def, rule enum_parse_print)
    (case_tac x; simp add: char_class_defs str_simps)+

interpretation seccomp_profile:
  parse_print seccomp_profile_from_str seccomp_profile_as_str "\<lambda>_. True"
  by (unfold_locales, simp only: seccomp_profile_from_str_def, rule enum_parse_print)
    (case_tac x; simp add: char_class_defs str_simps)+

interpretation handler_mode: parse_print handler_mode_from_str handler_mode_as_str "\<lambda>_. True"
  by (unfold_locales, simp only: handler_mode_from_str_def, rule enum_parse_print)
    (case_tac x; simp add: char_class_defs str_simps)+

interpretation builtin_runtime:
  parse_print builtin_runtime_from_str builtin_runtime_as_str "\<lambda>_. True"
  by (unfold_locales, simp only: builtin_runtime_from_str_def, rule enum_parse_print)
    (case_tac x; simp add: char_class_defs str_simps)+

section \<open>Runtime\<close>

datatype runtime = Builtin builtin_runtime | Agent string

text \<open>\<open>Path::extension\<close> of the standard library.\<close>

definition extension :: "string \<Rightarrow> string option" where
  "extension path =
     (case file_name path of
        None \<Rightarrow> None
      | Some n \<Rightarrow> (case rsplit_once CHR ''.'' n of
          None \<Rightarrow> None
        | Some (before, after) \<Rightarrow> if before = [] then None else Some after))"

definition infer_from_entry :: "string \<Rightarrow> runtime option" where
  "infer_from_entry entry =
     (case extension entry of
        None \<Rightarrow> None
      | Some e \<Rightarrow>
          if e = ''py'' then Some (Builtin Python)
          else if e \<in> set [''js'', ''mjs'', ''cjs'', ''ts''] then Some (Builtin Node)
          else if e = ''go'' then Some (Builtin Go)
          else None)"

fun show_runtime :: "runtime \<Rightarrow> string" where
  "show_runtime (Builtin b) = builtin_runtime_as_str b"
| "show_runtime (Agent p) = ''agent:'' @ p"

definition runtime_from_str :: "string \<Rightarrow> parse_error + runtime" where
  "runtime_from_str s =
     (if CHR ''/'' \<in> set s then Inr (Agent s) else map_ok Builtin (builtin_runtime_from_str s))"

section \<open>Durations\<close>

text \<open>A duration is its whole milliseconds: both constructors make no others.\<close>

type_synonym duration = nat

definition from_secs :: "nat \<Rightarrow> duration" where "from_secs s = s * 1000"

definition from_millis :: "nat \<Rightarrow> duration" where "from_millis ms = ms"

definition as_millis :: "duration \<Rightarrow> nat" where "as_millis d = d mod (u64_max + 1)"

fun show_units :: "(nat \<times> string) list \<Rightarrow> nat \<Rightarrow> string" where
  "show_units [] ms = show_nat ms @ ''ms''"
| "show_units ((unit_ms, u) # rest) ms =
     (if ms mod unit_ms = 0 then show_nat (ms div unit_ms) @ u else show_units rest ms)"

definition duration_units :: "(nat \<times> string) list" where
  "duration_units = [(86400000, ''d''), (3600000, ''h''), (60000, ''m''), (1000, ''s'')]"

definition show_duration :: "duration \<Rightarrow> string" where
  "show_duration d =
     (let ms = as_millis d in if ms = 0 then ''0s'' else show_units duration_units ms)"

section \<open>Mounts\<close>

datatype mount_mode = Ro | Rw

record mount =
  m_source :: string
  m_target :: string
  m_mode :: mount_mode

definition mount_checked :: "string \<Rightarrow> string \<Rightarrow> string \<Rightarrow> mount_mode \<Rightarrow> parse_error + mount" where
  "mount_checked s source target mode =
     (if source = [] \<or> target = [] then
        Inl (parse_error_new ''mount'' s ''host and guest paths must be non-empty'')
      else if \<not> starts_with ''/'' target then
        Inl (parse_error_new ''mount'' s (''guest path `'' @ target @ ''` must be absolute''))
      else Inr \<lparr>m_source = source, m_target = target, m_mode = mode\<rparr>)"

definition mount_from_str :: "string \<Rightarrow> parse_error + mount" where
  "mount_from_str s =
     (case split_on CHR '':'' s of
        [src, dst] \<Rightarrow> mount_checked s src dst Ro
      | [src, dst, mode] \<Rightarrow>
          (let m = to_ascii_lowercase (trim mode) in
           if m = ''ro'' then mount_checked s src dst Ro
           else if m = ''rw'' then mount_checked s src dst Rw
           else Inl (parse_error_new ''mount'' s
             (''unknown mode `'' @ m @ ''` (use `ro` or `rw`)'')))
      | _ \<Rightarrow> Inl (parse_error_new ''mount'' s ''expected `host:guest` or `host:guest:ro|rw`''))"

definition show_mode :: "mount_mode \<Rightarrow> string" where
  "show_mode m = (case m of Ro \<Rightarrow> ''ro'' | Rw \<Rightarrow> ''rw'')"

definition show_mount :: "mount \<Rightarrow> string" where
  "show_mount m = m_source m @ '':'' @ m_target m @ '':'' @ show_mode (m_mode m)"

definition mount_wf :: "mount \<Rightarrow> bool" where
  "mount_wf m \<longleftrightarrow> m_source m \<noteq> [] \<and> starts_with ''/'' (m_target m)
     \<and> CHR '':'' \<notin> set (m_source m) \<and> CHR '':'' \<notin> set (m_target m)"

lemma starts_with_nonempty: "starts_with ''/'' t \<Longrightarrow> t \<noteq> []"
  by (auto simp: starts_with_iff)

lemma split_on_three:
  "d \<notin> set a \<Longrightarrow> d \<notin> set b \<Longrightarrow> d \<notin> set c \<Longrightarrow> split_on d (a @ d # b @ d # c) = [a, b, c]"
  by simp

lemma mount_parse_print: "mount_wf m \<Longrightarrow> mount_from_str (show_mount m) = Inr m"
  by (cases m; cases "m_mode m")
    (auto simp: mount_from_str_def show_mount_def show_mode_def mount_checked_def mount_wf_def
      starts_with_nonempty trim_graphic to_ascii_lowercase_id char_class_defs str_simps Let_def)

interpretation mount: parse_print mount_from_str show_mount mount_wf
  by unfold_locales (rule mount_parse_print)

section \<open>CIDR blocks\<close>

record cidr =
  cidr_addr :: ip_addr
  cidr_prefix :: nat

definition mask4 :: "nat \<Rightarrow> u32" where
  "mask4 prefix = (if prefix = 0 then 0 else push_bit (32 - prefix) (-1))"

definition mask6 :: "nat \<Rightarrow> 128 word" where
  "mask6 prefix = (if prefix = 0 then 0 else push_bit (128 - prefix) (-1))"

fun block_contains :: "ip_addr \<Rightarrow> nat \<Rightarrow> ip_addr \<Rightarrow> bool" where
  "block_contains (V4 net) prefix (V4 ip) \<longleftrightarrow> net AND mask4 prefix = ip AND mask4 prefix"
| "block_contains (V6 net) prefix (V6 ip) \<longleftrightarrow> net AND mask6 prefix = ip AND mask6 prefix"
| "block_contains _ prefix _ \<longleftrightarrow> False"

definition cidr_contains :: "cidr \<Rightarrow> ip_addr \<Rightarrow> bool" where
  "cidr_contains c ip = block_contains (cidr_addr c) (cidr_prefix c) ip"

definition max_prefix :: "ip_addr \<Rightarrow> nat" where
  "max_prefix a = (if is_ipv4 a then 32 else 128)"

text \<open>The shift of \<open>contains\<close> is in range for exactly these; the parser makes no others.\<close>

definition cidr_wf :: "cidr \<Rightarrow> bool" where
  "cidr_wf c \<longleftrightarrow> cidr_prefix c \<le> max_prefix (cidr_addr c)"

fun is_private_addr :: "ip_addr \<Rightarrow> bool" where
  "is_private_addr (V4 a) \<longleftrightarrow>
     v4_is_private a \<or> v4_is_loopback a \<or> v4_is_link_local a
     \<or> octet 0 a = 0
     \<or> (octet 0 a = 100 \<and> octet 1 a AND 0xC0 = 64)
     \<or> 224 \<le> octet 0 a"
| "is_private_addr (V6 a) \<longleftrightarrow>
     a = 1 \<or> a = 0
     \<or> segment 0 a AND 0xffc0 = 0xfe80
     \<or> segment 0 a AND 0xfe00 = 0xfc00
     \<or> v6_is_multicast a"

definition is_private_or_link_local :: "cidr \<Rightarrow> bool" where
  "is_private_or_link_local c = is_private_addr (cidr_addr c)"

definition cidr_from_str :: "string \<Rightarrow> parse_error + cidr" where
  "cidr_from_str s =
     and_then (ok_or (parse_error_new ''CIDR'' s ''expected `address/prefix`'')
                 (split_once CHR ''/'' s)) (\<lambda>(addr, prefix).
     and_then (ok_or (parse_error_new ''CIDR'' s ''invalid IP address'') (parse_ip addr)) (\<lambda>addr.
     and_then (ok_or (parse_error_new ''CIDR'' s ''invalid prefix length'')
                 (parse_uint u8_max prefix)) (\<lambda>prefix.
       if prefix > max_prefix addr then
         Inl (parse_error_new ''CIDR'' s
           (''prefix must be between 0 and '' @ show_nat (max_prefix addr)))
       else Inr \<lparr>cidr_addr = addr, cidr_prefix = prefix\<rparr>)))"

definition show_cidr :: "cidr \<Rightarrow> string" where
  "show_cidr c = show_ip (cidr_addr c) @ ''/'' @ show_nat (cidr_prefix c)"

definition cidr_v4_wf :: "cidr \<Rightarrow> bool" where
  "cidr_v4_wf c \<longleftrightarrow> is_ipv4 (cidr_addr c) \<and> cidr_wf c"

lemma show_v4_no_slash: "CHR ''/'' \<notin> set (show_v4 a)"
  using show_v4_chars [of "CHR ''/''" a] by (auto simp: is_ascii_digit_def str_simps)

lemma cidr_parse_print: "cidr_v4_wf c \<Longrightarrow> cidr_from_str (show_cidr c) = Inr c"
proof -
  assume wf: "cidr_v4_wf c"
  obtain a p where c: "c = \<lparr>cidr_addr = a, cidr_prefix = p\<rparr>" by (cases c)
  with wf obtain w where a: "a = V4 w" "p \<le> 32"
    by (cases a) (auto simp: cidr_v4_wf_def cidr_wf_def max_prefix_def)
  show ?thesis
    unfolding c a show_cidr_def cidr_from_str_def
    using a(2) show_v4_no_slash [of w]
    by (simp add: max_prefix_def u8_max_def)
qed

interpretation cidr: parse_print cidr_from_str show_cidr cidr_v4_wf
  by unfold_locales (rule cidr_parse_print)

lemma cidr_from_str_wf: "cidr_from_str s = Inr c \<Longrightarrow> cidr_wf c"
  by (auto simp: cidr_from_str_def result_simps cidr_wf_def split: if_splits)

section \<open>The egress allowlist\<close>

datatype host_pattern = Exact string | Wildcard string | CidrHost cidr

record allow_rule =
  ar_host :: host_pattern
  ar_port :: "nat option"

text \<open>The dash of the port message is U+2013, three bytes of UTF-8.\<close>

definition port_message :: string where
  "port_message = ''port must be 1'' @ [CHR 0xE2, CHR 0x80, CHR 0x93] @ ''65535''"

definition parse_port :: "string \<Rightarrow> string \<Rightarrow> parse_error + nat" where
  "parse_port s p =
     and_then (ok_or (parse_error_new ''allow rule'' s port_message) (parse_uint u16_max p))
       (\<lambda>port. if port = 0 then Inl (parse_error_new ''allow rule'' s port_message) else Inr port)"

definition host_and_port :: "string \<Rightarrow> string \<Rightarrow> parse_error + string \<times> nat option" where
  "host_and_port s t =
     (case strip_prefix ''['' t of
        Some rest \<Rightarrow>
          and_then (ok_or (parse_error_new ''allow rule'' s
              ''a `[` needs a matching `]`: `[2001:db8::1]:443`'') (split_once CHR '']'' rest))
            (\<lambda>(inside, after).
               if after = [] then Inr (inside, None)
               else (case strip_prefix '':'' after of
                       Some p \<Rightarrow> map_ok (\<lambda>port. (inside, Some port)) (parse_port s p)
                     | None \<Rightarrow> Inl (parse_error_new ''allow rule'' s
                         ''after `]` only `:port` may follow'')))
      | None \<Rightarrow>
          if parse_ipv6 t \<noteq> None then Inr (t, None)
          else (case rsplit_once CHR '':'' t of
                  Some (h, p) \<Rightarrow>
                    if p \<noteq> [] \<and> (\<forall>c \<in> set p. is_ascii_digit c)
                    then map_ok (\<lambda>port. (h, Some port)) (parse_port s p)
                    else Inr (t, None)
                | None \<Rightarrow> Inr (t, None)))"

definition host_pattern_of :: "string \<Rightarrow> string \<Rightarrow> parse_error + host_pattern" where
  "host_pattern_of s host_part =
     (if CHR ''/'' \<in> set host_part then map_ok CidrHost (cidr_from_str host_part)
      else case strip_prefix ''*.'' host_part of
        Some suffix \<Rightarrow>
          if suffix = [] \<or> CHR ''*'' \<in> set suffix then
            Inl (parse_error_new ''allow rule'' s
              ''wildcard must be `*.domain.tld` with a single leading `*.`'')
          else Inr (Wildcard (to_ascii_lowercase suffix))
      | None \<Rightarrow>
          if CHR ''*'' \<in> set host_part then
            Inl (parse_error_new ''allow rule'' s ''`*` is only allowed as a leading `*.` label'')
          else if host_part = [] then
            Inl (parse_error_new ''allow rule'' s ''host must be non-empty'')
          else Inr (Exact (to_ascii_lowercase host_part)))"

definition allow_rule_from_str :: "string \<Rightarrow> parse_error + allow_rule" where
  "allow_rule_from_str s =
     (let t = trim s in
      if t = [] then Inl (parse_error_new ''allow rule'' s ''empty'')
      else and_then (host_and_port s t) (\<lambda>(host_part, port).
             map_ok (\<lambda>h. \<lparr>ar_host = h, ar_port = port\<rparr>) (host_pattern_of s host_part)))"

definition trim_dots :: "string \<Rightarrow> string" where
  "trim_dots h = rev (dropWhile (\<lambda>c. c = CHR ''.'') (rev h))"

definition canonical_host :: "string \<Rightarrow> string" where
  "canonical_host h = to_ascii_lowercase (trim_dots h)"

fun pattern_matches :: "host_pattern \<Rightarrow> string \<Rightarrow> bool" where
  "pattern_matches (Exact h) host \<longleftrightarrow> h = host"
| "pattern_matches (Wildcard suffix) host \<longleftrightarrow>
     (case strip_suffix suffix host of
        None \<Rightarrow> False
      | Some prefix \<Rightarrow> ends_with ''.'' prefix \<and> length prefix > 1)"
| "pattern_matches (CidrHost c) host \<longleftrightarrow>
     (case parse_ip host of None \<Rightarrow> False | Some ip \<Rightarrow> cidr_contains c ip)"

definition matches_host :: "allow_rule \<Rightarrow> string \<Rightarrow> bool" where
  "matches_host r host = pattern_matches (ar_host r) (canonical_host host)"

definition allow_matches :: "allow_rule \<Rightarrow> string \<Rightarrow> nat \<Rightarrow> bool" where
  "allow_matches r host port =
     (case ar_port r of
        Some p \<Rightarrow> if p \<noteq> port then False else matches_host r host
      | None \<Rightarrow> matches_host r host)"

definition show_allow_rule :: "allow_rule \<Rightarrow> string" where
  "show_allow_rule r =
     (case ar_host r of Exact h \<Rightarrow> h | Wildcard s \<Rightarrow> ''*.'' @ s | CidrHost c \<Rightarrow> show_cidr c)
     @ (case ar_port r of Some p \<Rightarrow> '':'' @ show_nat p | None \<Rightarrow> [])"

section \<open>Facts about addresses, texts and rules\<close>

lemma bit_mask_push: "bit (push_bit k (- 1 :: 'a::len word)) n \<longleftrightarrow> k \<le> n \<and> n < LENGTH('a)"
  by (auto simp: bit_simps)

lemma masked_eq_iff:
  fixes a b :: "'a::len word"
  shows "a AND push_bit k (- 1) = b AND push_bit k (- 1) \<longleftrightarrow> drop_bit k a = drop_bit k b"
proof
  assume e: "a AND push_bit k (- 1) = b AND push_bit k (- 1)"
  have "bit a (k + n) = bit b (k + n)" for n
    using arg_cong [OF e, of "\<lambda>w. bit w (k + n)"] bit_imp_le_length [of a "k + n"]
      bit_imp_le_length [of b "k + n"]
    by (auto simp: bit_simps)
  then show "drop_bit k a = drop_bit k b"
    by (intro bit_word_eqI) (simp add: bit_drop_bit_eq)
next
  assume e: "drop_bit k a = drop_bit k b"
  have "bit a n = bit b n" if "k \<le> n" for n
    using that arg_cong [OF e, of "\<lambda>w. bit w (n - k)"] by (simp add: bit_drop_bit_eq)
  then show "a AND push_bit k (- 1) = b AND push_bit k (- 1)"
    by (intro bit_word_eqI) (auto simp: bit_simps)
qed

lemma drop_all_bits:
  "drop_bit 32 (a :: u32) = drop_bit 32 b" "drop_bit 128 (c :: 128 word) = drop_bit 128 d"
  by (rule bit_word_eqI; simp add: bit_simps; metis bit_imp_le_length le_add1 len_of_numeral_defs
      not_less word_size)+

lemma block_contains_iff:
  "p \<le> 32 \<Longrightarrow> block_contains (V4 n) p (V4 i) \<longleftrightarrow> drop_bit (32 - p) n = drop_bit (32 - p) i"
  "q \<le> 128 \<Longrightarrow> block_contains (V6 m) q (V6 j) \<longleftrightarrow> drop_bit (128 - q) m = drop_bit (128 - q) j"
  using drop_all_bits(1) [of n i] drop_all_bits(2) [of m j] by (auto simp: mask4_def mask6_def masked_eq_iff [simplified])

lemma show_unit_text:
  assumes "0 < ms"
  shows "\<exists>n u k. show_units units ms = show_nat n @ u \<and> (u, k) \<in> insert (''ms'', 1) (set (map prod.swap units))
           \<and> n * k = ms"
proof (induction units)
  case Nil
  show ?case by (rule exI [of _ ms]) auto
next
  case (Cons x units)
  obtain k u where x: "x = (k, u)" by (cases x)
  show ?case
  proof (cases "ms mod k = 0")
    case True
    then show ?thesis
      by (intro exI [of _ "ms div k"] exI [of _ u] exI [of _ k]) (auto simp: x)
  next
    case False
    then show ?thesis using Cons.IH by (auto simp: x)
  qed
qed

text \<open>The characters the IPv6 reader consumes.\<close>

definition v6_char :: "char \<Rightarrow> bool" where
  "v6_char c \<longleftrightarrow> to_digit 16 c \<noteq> None \<or> c = CHR '':'' \<or> c = CHR ''.''"

definition consumes_v6 :: "string \<Rightarrow> string \<Rightarrow> bool" where
  "consumes_v6 s r \<longleftrightarrow> (\<exists>p. s = p @ r \<and> (\<forall>c \<in> set p. v6_char c))"

lemma consumes_v6_refl [simp]: "consumes_v6 s s"
  by (simp add: consumes_v6_def)

lemma consumes_v6_trans [trans]: "consumes_v6 s r \<Longrightarrow> consumes_v6 r q \<Longrightarrow> consumes_v6 s q"
  by (force simp: consumes_v6_def)

lemma v6_char_16: "to_digit 16 c = Some d \<Longrightarrow> v6_char c"
  by (simp add: v6_char_def)

lemma v6_char_10: "to_digit 10 c = Some d \<Longrightarrow> v6_char c"
  by (auto simp: v6_char_def to_digit_def is_ascii_digit_def Let_def split: if_splits)

lemma read_number_consumes:
  assumes "read_number radix mx b m s = Some (v, r)" and "radix = 10 \<or> radix = 16"
  shows "consumes_v6 s r"
proof -
  let ?ds = "takeWhile (\<lambda>c. to_digit radix c \<noteq> None) s"
  have r: "r = drop (length ?ds) s"
    using assms(1) by (auto simp: read_number_def Let_def split: if_splits)
  have "v6_char c" if "c \<in> set ?ds" for c
  proof -
    from that obtain d where "to_digit radix c = Some d"
      by (auto dest: set_takeWhileD)
    then show ?thesis
      using assms(2) v6_char_16 [of c d] v6_char_10 [of c d] by (elim disjE) simp_all
  qed
  moreover have "s = ?ds @ r"
    unfolding r by (simp only: dropWhile_eq_drop [symmetric] takeWhile_dropWhile_id)
  ultimately show ?thesis
    unfolding consumes_v6_def by (intro exI [of _ ?ds] conjI ballI)
qed

lemma read_given_char_consumes:
  "read_given_char c s = Some r \<Longrightarrow> c = CHR '':'' \<or> c = CHR ''.'' \<Longrightarrow> consumes_v6 s r"
  by (cases s) (auto simp: consumes_v6_def v6_char_def split: if_splits)

lemma read_octet_consumes: "read_octet s = Some (v, r) \<Longrightarrow> consumes_v6 s r"
  by (auto simp: read_octet_def intro: read_number_consumes)

lemma read_ipv4_consumes: "read_ipv4_addr s = Some (v, r) \<Longrightarrow> consumes_v6 s r"
  by (auto simp: read_ipv4_addr_def bind_eq_Some_conv
      dest!: read_octet_consumes read_given_char_consumes [OF _ disjI2 [OF refl]])
    ((erule consumes_v6_trans)+, simp)

lemma read_separator_consumes: "read_separator b s = Some r \<Longrightarrow> consumes_v6 s r"
  by (auto simp: read_separator_def intro: read_given_char_consumes split: if_splits)

lemma read_groups_consumes: "read_groups n b s = (gs, v4, r) \<Longrightarrow> consumes_v6 s r"
proof (induction n arbitrary: b s gs v4 r)
  case (Suc n)
  show ?case
  proof (cases "if n > 0 then Option.bind (read_separator b s) read_ipv4_addr else None")
    case None
    show ?thesis
    proof (cases "Option.bind (read_separator b s) (read_number 16 4 True 65535)")
      case None
      with \<open>(if n > 0 then _ else _) = None\<close> Suc.prems show ?thesis by simp
    next
      case (Some q)
      then obtain g r1 s1 where g: "q = (g, r1)" "read_separator b s = Some s1"
        "read_number 16 4 True 65535 s1 = Some (g, r1)"
        by (cases q) (auto simp: bind_eq_Some_conv)
      obtain gs' v' where "read_groups n False r1 = (gs', v', r)"
        using Suc.prems Some \<open>(if n > 0 then _ else _) = None\<close> g(1)
        by (auto simp: Let_def split: prod.splits)
      then show ?thesis
        using Suc.IH g read_separator_consumes read_number_consumes consumes_v6_trans by metis
    qed
  next
    case (Some q)
    then obtain v r1 s1 where "q = (v, r1)" "read_separator b s = Some s1"
      "read_ipv4_addr s1 = Some (v, r1)"
      by (cases q) (auto simp: bind_eq_Some_conv split: if_splits)
    with Some Suc.prems show ?thesis
      using read_separator_consumes read_ipv4_consumes consumes_v6_trans by fastforce
  qed
qed auto

lemma parse_ipv6_chars:
  assumes "parse_ipv6 s = Some a" and "c \<in> set s"
  shows "v6_char c"
proof -
  have "consumes_v6 s []"
  proof -
    have "read_ipv6_addr s = Some (a, [])"
      using assms(1) by (auto simp: parse_ipv6_def split: option.splits if_splits)
    moreover obtain hd v r where g: "read_groups 8 True s = (hd, v, r)"
      by (cases "read_groups 8 True s") auto
    ultimately consider "r = []"
      | r1 r2 tl v' where "read_given_char CHR '':'' r = Some r1"
          "read_given_char CHR '':'' r1 = Some r2"
          "read_groups (8 - (length hd + 1)) True r2 = (tl, v', [])"
      by (cases "read_groups (8 - (length hd + 1)) True
            (the (read_given_char CHR '':'' (the (read_given_char CHR '':'' r))))")
        (auto simp: read_ipv6_addr_def Let_def bind_eq_Some_conv split: if_splits)
    then show ?thesis
    proof cases
      case 1
      then show ?thesis using read_groups_consumes [OF g] by simp
    next
      case 2
      then show ?thesis
        using read_groups_consumes [OF g] read_groups_consumes [OF 2(3)]
          read_given_char_consumes [OF 2(1)] read_given_char_consumes [OF 2(2)]
        by (auto intro: consumes_v6_trans)
    qed
  qed
  then show ?thesis
    using assms(2) by (auto simp: consumes_v6_def)
qed

lemma read_groups_step:
  "0 < n \<Longrightarrow> read_groups n first s =
     (case (if n > 1 then Option.bind (read_separator first s) read_ipv4_addr else None) of
        Some (v4, r) \<Rightarrow> ([ucast (drop_bit 16 v4), ucast v4], True, r)
      | None \<Rightarrow>
          (case Option.bind (read_separator first s) (read_number 16 4 True 65535) of
             None \<Rightarrow> ([], False, s)
           | Some (g, r) \<Rightarrow>
               (let (gs, b, r') = read_groups (n - 1) False r in (word_of_nat g # gs, b, r'))))"
proof (cases n)
  case (Suc m)
  show "0 < n \<Longrightarrow> ?thesis"
    unfolding Suc read_groups.simps(2) diff_Suc_Suc diff_zero One_nat_def Suc_less_eq by (rule refl)
qed simp

lemmas v6_eval = parse_ipv6_def read_ipv6_addr_def Let_def read_separator_def read_ipv4_addr_def
   read_octet_def read_number_def to_digit_def is_ascii_digit_def str_simps radix_value_def
   read_groups_step

lemma parse_ipv6_examples:
  "\<exists>a. parse_ipv6 ''2001:db8::1'' = Some a" "\<exists>a. parse_ipv6 ''2001:db8::1:443'' = Some a"
  "parse_ipv6 ''api.example.com.:443'' = None"
  by (simp add: v6_eval)+

lemma parse_uint_443: "parse_uint 65535 ''443'' = Some 443"
  by (simp add: parse_uint_def Let_def is_ascii_digit_def str_simps digits_value_def digit_val_def)

lemma v6_text_plain:
  assumes "\<forall>c \<in> set t. v6_char c"
  shows "CHR ''/'' \<notin> set t" "CHR ''*'' \<notin> set t" "strip_prefix ''['' t = None"
    "CHR '']'' \<notin> set t"
proof -
  have n: "\<not> v6_char CHR ''/''" "\<not> v6_char CHR ''*''" "\<not> v6_char CHR ''[''" "\<not> v6_char CHR '']''"
    by (simp_all add: v6_char_def to_digit_def is_ascii_digit_def str_simps)
  then show "CHR ''/'' \<notin> set t" "CHR ''*'' \<notin> set t" "CHR '']'' \<notin> set t"
    using assms by blast+
  show "strip_prefix ''['' t = None"
    using n assms by (cases t) auto
qed

lemma plain_host_pattern:
  "CHR ''/'' \<notin> set h \<Longrightarrow> CHR ''*'' \<notin> set h \<Longrightarrow> h \<noteq> [] \<Longrightarrow>
     host_pattern_of s h = Inr (Exact (to_ascii_lowercase h))"
  by (cases h) (auto simp: host_pattern_of_def split: option.split)

lemma set_to_ascii_lowercase:
  "\<not> is_ascii_lowercase c \<Longrightarrow> c \<in> set (to_ascii_lowercase s) \<Longrightarrow> c \<in> set s"
  by (auto simp: to_ascii_lowercase_def ascii_lower_def char_class_defs str_simps split: if_splits)

lemma lowercase_not_upper: "c \<in> set (to_ascii_lowercase s) \<Longrightarrow> \<not> is_ascii_uppercase c"
  by (auto simp: to_ascii_lowercase_def)

lemma canonical_host_length: "length (canonical_host h) \<le> length h"
  using length_dropWhile_le [of "\<lambda>c. c = CHR ''.''" "rev h"]
  by (simp add: canonical_host_def trim_dots_def)

lemma canonical_host_no_dot: "canonical_host h \<noteq> x @ ''.''"
proof
  assume e: "canonical_host h = x @ ''.''"
  then have "trim_dots h \<noteq> [] \<and> ascii_lower (last (trim_dots h)) = CHR ''.''"
    by (cases "trim_dots h" rule: rev_cases)
      (auto simp: canonical_host_def to_ascii_lowercase_def)
  moreover have "c = CHR ''.''" if "ascii_lower c = CHR ''.''" for c
  proof -
    have l: "code (ascii_lower c) = 46"
      unfolding that by (simp add: str_simps)
    have "\<not> is_ascii_uppercase c"
    proof
      assume "is_ascii_uppercase c"
      then have "code (ascii_lower c) = code c + 32" "65 \<le> code c"
        by (simp_all add: ascii_lower_def is_ascii_uppercase_def)
      with l show False by simp
    qed
    then show ?thesis
      using that by (simp add: ascii_lower_def)
  qed
  ultimately have "rev (trim_dots h) \<noteq> []" "hd (rev (trim_dots h)) = CHR ''.''"
    by (simp_all add: hd_rev)
  then show False
    using hd_dropWhile [of "\<lambda>c. c = CHR ''.''" "rev h"] by (simp add: trim_dots_def)
qed

lemma wildcard_iff: "pattern_matches (Wildcard s) h \<longleftrightarrow> (\<exists>p. p \<noteq> [] \<and> h = p @ ''.'' @ s)"
proof (cases "strip_suffix s h")
  case None
  then have "h \<noteq> q @ s" for q
    by (metis not_None_eq strip_suffix_Some_iff)
  then have "h \<noteq> p @ ''.'' @ s" for p
    by (metis append_assoc)
  with None show ?thesis by simp
next
  case (Some pre)
  then have h: "h = pre @ s" by (simp add: strip_suffix_Some_iff)
  show ?thesis
    using Some by (auto simp: h ends_with_iff Suc_le_eq)
qed

lemma ipv6_rule_parse:
  assumes "parse_ipv6 t = Some a" and "\<forall>c \<in> set t. is_ascii_graphic c" and "t \<noteq> []"
  shows "allow_rule_from_str t = Inr \<lparr>ar_host = Exact (to_ascii_lowercase t), ar_port = None\<rparr>"
    and "parse_uint u16_max q = Some p \<Longrightarrow> p \<noteq> 0 \<Longrightarrow> \<forall>c \<in> set q. is_ascii_graphic c \<Longrightarrow>
      allow_rule_from_str (''['' @ t @ '']:'' @ q)
        = Inr \<lparr>ar_host = Exact (to_ascii_lowercase t), ar_port = Some p\<rparr>"
proof -
  have "\<forall>c \<in> set t. v6_char c"
    using parse_ipv6_chars [OF assms(1)] by blast
  note plain = v6_text_plain [OF this]
  show "allow_rule_from_str t = Inr \<lparr>ar_host = Exact (to_ascii_lowercase t), ar_port = None\<rparr>"
    using plain assms plain_host_pattern [of t]
    by (simp add: allow_rule_from_str_def Let_def host_and_port_def trim_graphic)
  assume q: "parse_uint u16_max q = Some p" "p \<noteq> 0" "\<forall>c \<in> set q. is_ascii_graphic c"
  have "trim (''['' @ t @ '']:'' @ q) = ''['' @ t @ '']:'' @ q"
    using assms(2) q(3) by (intro trim_graphic) (auto simp: is_ascii_graphic_def str_simps)
  then show "allow_rule_from_str (''['' @ t @ '']:'' @ q)
        = Inr \<lparr>ar_host = Exact (to_ascii_lowercase t), ar_port = Some p\<rparr>"
    using plain assms q plain_host_pattern [of t]
    by (simp add: allow_rule_from_str_def Let_def host_and_port_def parse_port_def)
qed

lemma trailing_dot_rule:
  "allow_rule_from_str ''api.example.com.:443'' = Inr \<lparr>ar_host = Exact ''api.example.com.'', ar_port = Some 443\<rparr>"
proof -
  have "trim ''api.example.com.:443'' = ''api.example.com.:443''"
    by (rule trim_graphic) (simp add: is_ascii_graphic_def str_simps)
  moreover have "to_ascii_lowercase ''api.example.com.'' = ''api.example.com.''"
    by (rule to_ascii_lowercase_id) (simp add: is_ascii_uppercase_def str_simps)
  ultimately show ?thesis
    using parse_ipv6_examples(3) parse_uint_443
    by (simp add: allow_rule_from_str_def Let_def host_and_port_def parse_port_def u16_max_def
        host_pattern_of_def is_ascii_digit_def str_simps)
qed

lemma mount_from_str_cases:
  assumes "mount_from_str s = Inr m"
  obtains "split_on CHR '':'' s = [m_source m, m_target m]" "m_mode m = Ro"
      "m_source m \<noteq> []" "starts_with ''/'' (m_target m)"
    | md where "split_on CHR '':'' s = [m_source m, m_target m, md]"
      "to_ascii_lowercase (trim md) = show_mode (m_mode m)"
      "m_source m \<noteq> []" "starts_with ''/'' (m_target m)"
proof -
  have checked: "m_source m = src \<and> m_target m = dst \<and> m_mode m = mode \<and> src \<noteq> []
      \<and> starts_with ''/'' dst" if "mount_checked s src dst mode = Inr m" for src dst mode
    using that by (auto simp: mount_checked_def split: if_splits)
  consider (two) src dst where "split_on CHR '':'' s = [src, dst]"
    | (three) src dst md where "split_on CHR '':'' s = [src, dst, md]"
    | (other) "\<forall>src dst md. split_on CHR '':'' s \<noteq> [src, dst] \<and> split_on CHR '':'' s \<noteq> [src, dst, md]"
    by blast
  then show thesis
  proof cases
    case two
    then show thesis
      using assms checked that(1) by (auto simp: mount_from_str_def)
  next
    case three
    then show thesis
      using assms checked that(2)
      by (auto simp: mount_from_str_def Let_def show_mode_def split: if_splits)
  next
    case other
    then show thesis
      using assms by (auto simp: mount_from_str_def split: list.splits)
  qed
qed

section \<open>Properties\<close>

text \<open>
  \<open>Cidr::contains\<close> is prefix equality: for any block the parser can make, an address
  is in it exactly when it is of the same family and agrees with the block's address on the
  first \<open>prefix\<close> bits (so \<open>/0\<close> is the whole family and \<open>/32\<close>, \<open>/128\<close> one address).
\<close>

theorem cidr_contains_prefix:
  assumes "cidr_wf c"
  shows "cidr_contains c ip \<longleftrightarrow>
    (case (cidr_addr c, ip) of
       (V4 n, V4 i) \<Rightarrow> drop_bit (32 - cidr_prefix c) n = drop_bit (32 - cidr_prefix c) i
     | (V6 n, V6 i) \<Rightarrow> drop_bit (128 - cidr_prefix c) n = drop_bit (128 - cidr_prefix c) i
     | _ \<Rightarrow> False)"
  using assms
  by (cases "cidr_addr c"; cases ip)
    (simp_all add: cidr_contains_def cidr_wf_def max_prefix_def block_contains_iff
      del: block_contains.simps(1,2))

theorem cidr_contains_prefix_witness:
  "cidr_contains \<lparr>cidr_addr = V4 0x0A000000, cidr_prefix = 8\<rparr> (V4 0x0A010203)"
  by (subst cidr_contains_prefix) (simp_all add: cidr_wf_def max_prefix_def)

text \<open>
  CIDR text: whatever the parser accepts has a prefix within its family's width, and an
  IPv4 block is read back from its own text.
\<close>

theorem cidr_text:
  "(cidr_from_str s = Inr c \<longrightarrow> cidr_wf c)
   \<and> (is_ipv4 (cidr_addr b) \<and> cidr_wf b \<longrightarrow> cidr_from_str (show_cidr b) = Inr b)"
  using cidr_from_str_wf cidr.parse_print [of b] by (auto simp: cidr_v4_wf_def)

theorem cidr_text_witness:
  "cidr_from_str (show_cidr \<lparr>cidr_addr = V4 0xC0A80000, cidr_prefix = 16\<rparr>)
     = Inr \<lparr>cidr_addr = V4 0xC0A80000, cidr_prefix = 16\<rparr>"
  by (rule cidr_text [THEN conjunct2, THEN mp]) (simp add: cidr_wf_def max_prefix_def)

text \<open>
  A wildcard rule matches exactly the names with something before the dot: a host
  matches \<open>*.s\<close> when its canonical form (lower case, without trailing dots) is
  \<open>p.s\<close> for a non-empty \<open>p\<close>, and \<open>s\<close> itself never matches.
\<close>

theorem wildcard_matches_subdomains:
  "(matches_host \<lparr>ar_host = Wildcard s, ar_port = q\<rparr> host \<longleftrightarrow>
      (\<exists>p. p \<noteq> [] \<and> canonical_host host = p @ ''.'' @ s))
   \<and> \<not> matches_host \<lparr>ar_host = Wildcard s, ar_port = q\<rparr> s"
proof -
  have "canonical_host s \<noteq> p @ ''.'' @ s" for p
    using canonical_host_length [of s] by (metis add_Suc_right append_Cons append_Nil
        le_add2 length_Cons length_append not_less_eq_eq)
  then show ?thesis
    using wildcard_iff [of s] by (auto simp: matches_host_def)
qed

text \<open>
  An accepted allow rule is well-formed: its port is 1 to 65535 if it has one; an exact
  host is non-empty, lower case and free of \<open>*\<close> and \<open>/\<close>; a wildcard has a non-empty
  lower-case suffix without another \<open>*\<close>; a block has a valid prefix.
\<close>

theorem allow_rule_well_formed:
  assumes "allow_rule_from_str s = Inr r"
  shows "(\<forall>p. ar_port r = Some p \<longrightarrow> 1 \<le> p \<and> p \<le> 65535)
    \<and> (case ar_host r of
         Exact h \<Rightarrow> h \<noteq> [] \<and> CHR ''*'' \<notin> set h \<and> CHR ''/'' \<notin> set h
           \<and> (\<forall>c \<in> set h. \<not> is_ascii_uppercase c)
       | Wildcard w \<Rightarrow> w \<noteq> [] \<and> CHR ''*'' \<notin> set w \<and> CHR ''/'' \<notin> set w
           \<and> (\<forall>c \<in> set w. \<not> is_ascii_uppercase c)
       | CidrHost c \<Rightarrow> cidr_wf c)"
proof -
  obtain hp q h where r: "host_and_port s (trim s) = Inr (hp, q)" "host_pattern_of s hp = Inr h"
    "r = \<lparr>ar_host = h, ar_port = q\<rparr>"
    using assms by (auto simp: allow_rule_from_str_def Let_def result_simps split: if_splits)
  have port: "parse_port s p = Inr n \<Longrightarrow> 1 \<le> n \<and> n \<le> 65535" for p n
    using parse_uint_le [of u16_max p n]
    by (auto simp: parse_port_def result_simps u16_max_def split: if_splits)
  have "\<forall>p. q = Some p \<longrightarrow> 1 \<le> p \<and> p \<le> 65535"
    using r(1) port
    by (fastforce simp: host_and_port_def result_simps split: option.splits if_splits)
  moreover have "\<not> is_ascii_lowercase CHR ''*''" "\<not> is_ascii_lowercase CHR ''/''"
    by (simp_all add: is_ascii_lowercase_def str_simps)
  then have "case h of
         Exact h \<Rightarrow> h \<noteq> [] \<and> CHR ''*'' \<notin> set h \<and> CHR ''/'' \<notin> set h
           \<and> (\<forall>c \<in> set h. \<not> is_ascii_uppercase c)
       | Wildcard w \<Rightarrow> w \<noteq> [] \<and> CHR ''*'' \<notin> set w \<and> CHR ''/'' \<notin> set w
           \<and> (\<forall>c \<in> set w. \<not> is_ascii_uppercase c)
       | CidrHost c \<Rightarrow> cidr_wf c"
    using r(2) set_to_ascii_lowercase lowercase_not_upper cidr_from_str_wf
    by (auto simp: host_pattern_of_def result_simps strip_prefix_Some_iff
        to_ascii_lowercase_def split: option.splits if_splits)
  ultimately show ?thesis
    by (simp add: r(3))
qed

theorem allow_rule_well_formed_witness:
  "filter is_ascii_uppercase ''api.example.com.'' = []"
  using allow_rule_well_formed [OF trailing_dot_rule] by (simp add: filter_empty_conv)

text \<open>
  The colons of an IPv6 literal are never taken for a port: a rule whose text is an
  IPv6 address has that address as its host and no port, and in brackets with \<open>:port\<close>
  it has the address as its host and that port.
\<close>

theorem ipv6_rule_not_split:
  assumes "parse_ipv6 t = Some a" and "\<forall>c \<in> set t. is_ascii_graphic c" and "1 \<le> p" and "p \<le> 65535"
  shows "allow_rule_from_str t = Inr \<lparr>ar_host = Exact (to_ascii_lowercase t), ar_port = None\<rparr>
    \<and> allow_rule_from_str (''['' @ t @ '']:'' @ show_nat p)
        = Inr \<lparr>ar_host = Exact (to_ascii_lowercase t), ar_port = Some p\<rparr>"
proof -
  have ne: "t \<noteq> []"
    using assms(1) by (auto simp: v6_eval)
  have "\<forall>c \<in> set (show_nat p). is_ascii_graphic c" "parse_uint u16_max (show_nat p) = Some p"
    using digit_graphic show_nat_digits assms(4) by (auto simp: u16_max_def)
  then show ?thesis
    using ipv6_rule_parse [OF assms(1,2) ne] assms(3) by simp
qed

theorem ipv6_rule_not_split_witness:
  "allow_rule_from_str ''2001:db8::1'' = Inr \<lparr>ar_host = Exact ''2001:db8::1'', ar_port = None\<rparr>"
proof -
  have "to_ascii_lowercase ''2001:db8::1'' = ''2001:db8::1''"
    by (rule to_ascii_lowercase_id) (simp add: is_ascii_uppercase_def str_simps)
  moreover obtain a where "parse_ipv6 ''2001:db8::1'' = Some a"
    using parse_ipv6_examples(1) by blast
  moreover have "\<forall>c \<in> set ''2001:db8::1''. is_ascii_graphic c"
    by (simp add: is_ascii_graphic_def str_simps)
  ultimately show ?thesis
    using ipv6_rule_not_split [of "''2001:db8::1''" a 1] by simp
qed

text \<open>
  Printing a rule loses an IPv6 host's brackets: the rule for one address on port 443
  prints as the text of a longer address on every port, so it does not survive being
  written out and read again.
\<close>

theorem ipv6_rule_text_not_faithful:
  "\<exists>r. allow_rule_from_str ''[2001:db8::1]:443'' = Inr r \<and> ar_port r = Some 443
    \<and> allow_rule_from_str (show_allow_rule r) = Inr \<lparr>ar_host = Exact ''2001:db8::1:443'', ar_port = None\<rparr>"
proof -
  let ?a = "''2001:db8::1''" and ?b = "''2001:db8::1:443''"
  have l: "to_ascii_lowercase ?a = ?a" "to_ascii_lowercase ?b = ?b"
    by (rule to_ascii_lowercase_id; simp add: is_ascii_uppercase_def str_simps)+
  have g: "\<forall>c \<in> set ?b. is_ascii_graphic c" "\<forall>c \<in> set ''443''. is_ascii_graphic c"
    by (simp_all add: is_ascii_graphic_def str_simps)
  obtain a b where p: "parse_ipv6 ?a = Some a" "parse_ipv6 ?b = Some b"
    using parse_ipv6_examples(1,2) by blast
  have "allow_rule_from_str ''[2001:db8::1]:443'' = Inr \<lparr>ar_host = Exact ?a, ar_port = Some 443\<rparr>"
    using ipv6_rule_parse(2) [OF p(1), of "''443''" 443] parse_uint_443 g l by (simp add: u16_max_def)
  moreover have "show_allow_rule \<lparr>ar_host = Exact ?a, ar_port = Some 443\<rparr> = ?b"
    by (simp add: show_allow_rule_def str_simps)
  moreover have "allow_rule_from_str ?b = Inr \<lparr>ar_host = Exact ?b, ar_port = None\<rparr>"
    using ipv6_rule_parse(1) [OF p(2)] g l by simp
  ultimately show ?thesis
    by (intro exI [of _ "\<lparr>ar_host = Exact ?a, ar_port = Some 443\<rparr>"]) simp
qed

text \<open>
  A rule written with the trailing dot of a fully qualified name is accepted and can
  never match: the host asked about loses its trailing dots, the rule keeps its own.
\<close>

theorem trailing_dot_rule_is_dead:
  "allow_rule_from_str ''api.example.com.:443'' = Inr \<lparr>ar_host = Exact ''api.example.com.'', ar_port = Some 443\<rparr>
   \<and> \<not> matches_host \<lparr>ar_host = Exact (h @ ''.''), ar_port = q\<rparr> host
   \<and> \<not> matches_host \<lparr>ar_host = Wildcard (h @ ''.''), ar_port = q\<rparr> host"
proof -
  note trailing_dot_rule
  moreover have "canonical_host host \<noteq> x @ h @ ''.''" for x
    using canonical_host_no_dot [of host "x @ h"] by simp
  moreover have "canonical_host host \<noteq> h @ ''.''"
    by (rule canonical_host_no_dot)
  ultimately show ?thesis
    by (auto simp: matches_host_def strip_suffix_Some_iff split: option.splits)
qed

text \<open>
  Mounts are read as written: an accepted mount has a non-empty source and an absolute
  target, is read back from its own text, and is writable only if the text spelled \<open>rw\<close>.
\<close>

theorem mount_reading:
  assumes "mount_from_str s = Inr m"
  shows "mount_wf m \<and> mount_from_str (show_mount m) = Inr m
    \<and> (m_mode m = Rw \<longrightarrow> (\<exists>src dst md. split_on CHR '':'' s = [src, dst, md]
         \<and> to_ascii_lowercase (trim md) = ''rw''))"
proof -
  have c: "CHR '':'' \<notin> set x" if "x \<in> set (split_on CHR '':'' s)" for x
    using that by (rule split_on_pieces)
  show ?thesis
    using assms
  proof (cases rule: mount_from_str_cases)
    case 1
    then show ?thesis
      using c mount.parse_print [of m] by (auto simp: mount_wf_def)
  next
    case (2 md)
    then show ?thesis
      using c mount.parse_print [of m] by (cases "m_mode m") (auto simp: mount_wf_def show_mode_def)
  qed
qed

theorem mount_reading_witness:
  "mount_wf \<lparr>m_source = ''/d'', m_target = ''/w'', m_mode = Ro\<rparr>"
proof -
  have "mount_from_str ''/d:/w'' = Inr \<lparr>m_source = ''/d'', m_target = ''/w'', m_mode = Ro\<rparr>"
    by (simp add: mount_from_str_def mount_checked_def starts_with_def)
  from mount_reading [OF this] show ?thesis by blast
qed

text \<open>
  Every string enum reads its own text back, in any case and with spaces around it
  read as the same text; the borrowed spelling \<open>bridge\<close> is read as \<open>full\<close> and never written.
\<close>

theorem enums_round_trip:
  "isolation_from_str (isolation_as_str i) = Inr i
   \<and> network_from_str (network_as_str n) = Inr n
   \<and> seccomp_profile_from_str (seccomp_profile_as_str p) = Inr p
   \<and> handler_mode_from_str (handler_mode_as_str h) = Inr h
   \<and> builtin_runtime_from_str (builtin_runtime_as_str b) = Inr b
   \<and> network_from_str ''bridge'' = Inr Full \<and> network_as_str n \<noteq> ''bridge''"
proof -
  have "network_from_str ''bridge'' = Inr Full" by code_simp
  moreover have "network_as_str n \<noteq> ''bridge''" by (cases n) simp_all
  ultimately show ?thesis
    by (simp add: isolation.parse_print network.parse_print seccomp_profile.parse_print
        handler_mode.parse_print builtin_runtime.parse_print)
qed

text \<open>
  A printed duration is exact: it is a decimal number followed by one of the five
  units, and the number times the unit's milliseconds is the duration.
\<close>

theorem duration_text_exact:
  assumes "d \<le> u64_max"
  shows "\<exists>n u k. show_duration d = show_nat n @ u
    \<and> (u, k) \<in> {(''ms'', 1), (''s'', 1000), (''m'', 60000), (''h'', 3600000), (''d'', 86400000)}
    \<and> n * k = d"
proof (cases "d = 0")
  case True
  then show ?thesis
    by (intro exI [of _ 0] exI [of _ "''s''"] exI [of _ 1000])
      (simp add: show_duration_def as_millis_def str_simps)
next
  case False
  have "as_millis d = d"
    using assms by (simp add: as_millis_def)
  then show ?thesis
    using False show_unit_text [of d duration_units]
    by (auto simp: show_duration_def duration_units_def simp del: show_units.simps)
qed

theorem duration_text_exact_witness:
  "\<exists>n u k. show_duration 90000 = show_nat n @ u
    \<and> (u, k) \<in> {(''ms'', 1), (''s'', 1000), (''m'', 60000), (''h'', 3600000), (''d'', 86400000)}
    \<and> n * k = 90000"
  by (rule duration_text_exact) (simp add: u64_max_def)

end
