(* ===== verification/Zygo_Seccomp.thy ===== *)
theory Zygo_Seccomp
  imports Zygo_Syscalls Zygo_Types
begin

text \<open>
  The seccomp-bpf filters (\<open>crates/zygo-core/src/backend/ns/seccomp.rs\<close>): the allowlists,
  the assembler that turns labelled branches into classic-BPF distances, the programs built
  with it, and what those programs decide.

  The meaning of an assembled program is \<open>bpf_exec\<close>, the interpreter for the emitted
  opcodes that the module's own tests use: it reads the opcode words and 8-bit distances
  themselves. The meaning of a program before assembly is \<open>pending_exec\<close>, in which a
  branch continues at the nearest later definition of its label. \<open>assemble_correct\<close>
  relates the two for every program the assembler accepts, and \<open>build\<close> is related to
  \<open>decide\<close>, the policy as a reader would state it.
\<close>

section \<open>Instructions and constants\<close>

record sock_filter =
  bpf_code :: u16
  bpf_jt :: u8
  bpf_jf :: u8
  bpf_k :: u32

definition BPF_LD :: u16 where "BPF_LD = 0x00"
definition BPF_W :: u16 where "BPF_W = 0x00"
definition BPF_ABS :: u16 where "BPF_ABS = 0x20"
definition BPF_JMP :: u16 where "BPF_JMP = 0x05"
definition BPF_JEQ :: u16 where "BPF_JEQ = 0x10"
definition BPF_JGT :: u16 where "BPF_JGT = 0x20"
definition BPF_K :: u16 where "BPF_K = 0x00"
definition BPF_RET :: u16 where "BPF_RET = 0x06"
definition BPF_ALU :: u16 where "BPF_ALU = 0x04"
definition BPF_AND :: u16 where "BPF_AND = 0x50"
definition BPF_JA :: u16 where "BPF_JA = 0x00"

definition OFF_NR :: u32 where "OFF_NR = 0"
definition OFF_ARCH :: u32 where "OFF_ARCH = 4"
definition OFF_ARG0_LO :: u32 where "OFF_ARG0_LO = 16"
definition OFF_ARG1_LO :: u32 where "OFF_ARG1_LO = 24"

definition RET_ALLOW :: u32 where "RET_ALLOW = 0x7fff0000"
definition RET_ERRNO :: u32 where "RET_ERRNO = 0x00050000"
definition RET_KILL_PROCESS :: u32 where "RET_KILL_PROCESS = 0x80000000"

text \<open>\<open>libc::EPERM\<close> and \<open>libc::ENOSYS\<close>, as both Linux architectures define them.\<close>

definition EPERM :: u32 where "EPERM = 1"
definition ENOSYS :: u32 where "ENOSYS = 38"

definition CLONE_NEW_MASK :: u32 where
  "CLONE_NEW_MASK = 0x00020000 OR 0x04000000 OR 0x08000000 OR 0x10000000
     OR 0x20000000 OR 0x40000000 OR 0x02000000"

definition CLONE_THREAD :: u32 where "CLONE_THREAD = 0x00010000"

definition DENIED_IOCTLS :: "(string \<times> u32) list" where
  "DENIED_IOCTLS = [(''TIOCSTI'', 0x5412), (''TIOCLINUX'', 0x541C)]"

definition ISLAND_EVERY :: nat where "ISLAND_EVERY = 64"

lemmas opcode_defs = BPF_LD_def BPF_W_def BPF_ABS_def BPF_JMP_def BPF_JEQ_def BPF_JGT_def
  BPF_K_def BPF_RET_def BPF_ALU_def BPF_AND_def BPF_JA_def

lemmas ret_defs = RET_ALLOW_def RET_ERRNO_def RET_KILL_PROCESS_def EPERM_def ENOSYS_def

definition stmt :: "u16 \<Rightarrow> u32 \<Rightarrow> sock_filter" where
  "stmt c v = \<lparr>bpf_code = c, bpf_jt = 0, bpf_jf = 0, bpf_k = v\<rparr>"

section \<open>The allowlists\<close>

definition BASE_ALLOWLIST_1 :: "string list" where
  "BASE_ALLOWLIST_1 = [
    ''accept4'', ''access'', ''arch_prctl'', ''bind'', ''brk'', ''capget'', ''capset'',
    ''chdir'', ''chmod'', ''chown'', ''clock_getres'', ''clock_gettime'', ''clock_nanosleep'',
    ''close'', ''close_range'', ''connect'', ''copy_file_range'', ''dup'', ''dup2'', ''dup3'',
    ''epoll_create'', ''epoll_create1'', ''epoll_ctl'', ''epoll_pwait'', ''epoll_pwait2'',
    ''epoll_wait'', ''eventfd'', ''eventfd2'', ''execve'', ''execveat'', ''exit'',
    ''exit_group'', ''faccessat'', ''faccessat2'', ''fadvise64'', ''fallocate'', ''fchdir'',
    ''fchmod'', ''fchmodat'', ''fchmodat2'', ''fchown'', ''fchownat'', ''fcntl'', ''fdatasync'',
    ''fgetxattr'', ''flistxattr'', ''flock'', ''fork'', ''fremovexattr'', ''fsetxattr'',
    ''fstat'', ''fstatfs'', ''fsync'', ''ftruncate'', ''futex'', ''futex_requeue'',
    ''futex_wait'', ''futex_waitv'', ''futex_wake'', ''get_robust_list'', ''getcwd'',
    ''getdents64'', ''getegid'', ''geteuid'', ''getgid'', ''getgroups'', ''getpeername'',
    ''getpgrp'', ''getpid'', ''getppid'', ''getpriority'', ''getrandom'', ''getresgid'',
    ''getresuid'', ''getrlimit'', ''getrusage'', ''getsid'', ''getsockname'', ''getsockopt'',
    ''gettid'', ''gettimeofday'', ''getuid'', ''getxattr'', ''ioctl'', ''kill'',
    ''landlock_add_rule'', ''landlock_create_ruleset'', ''landlock_restrict_self'', ''lchown'',
    ''lgetxattr'', ''link'', ''linkat'', ''listen'', ''listxattr'', ''llistxattr'',
    ''lremovexattr'', ''lseek'', ''lsetxattr'', ''lstat'', ''madvise'', ''map_shadow_stack'',
    ''membarrier'', ''memfd_create'', ''mkdir'', ''mkdirat'', ''mlock'', ''mmap'', ''mprotect'',
    ''mremap'', ''mseal'', ''msync'', ''munlock'', ''munmap'', ''nanosleep'', ''newfstatat'',
    ''open'', ''openat'', ''pipe'', ''pipe2'', ''poll'']"

definition BASE_ALLOWLIST_2 :: "string list" where
  "BASE_ALLOWLIST_2 = [
    ''ppoll'', ''prctl'', ''pread64'', ''preadv'', ''preadv2'', ''prlimit64'', ''pselect6'',
    ''pwrite64'', ''pwritev'', ''pwritev2'', ''read'', ''readlink'', ''readlinkat'', ''readv'',
    ''recvfrom'', ''recvmsg'', ''removexattr'', ''rename'', ''renameat'', ''renameat2'',
    ''rmdir'', ''rseq'', ''rt_sigaction'', ''rt_sigpending'', ''rt_sigprocmask'',
    ''rt_sigqueueinfo'', ''rt_sigreturn'', ''rt_sigsuspend'', ''rt_sigtimedwait'',
    ''sched_get_priority_max'', ''sched_get_priority_min'', ''sched_getaffinity'',
    ''sched_getattr'', ''sched_getparam'', ''sched_getscheduler'', ''sched_rr_get_interval'',
    ''sched_setaffinity'', ''sched_setattr'', ''sched_setparam'', ''sched_setscheduler'',
    ''sched_yield'', ''select'', ''sendmmsg'', ''sendmsg'', ''sendto'', ''set_robust_list'',
    ''set_tid_address'', ''setfsgid'', ''setfsuid'', ''setgid'', ''setgroups'', ''setitimer'',
    ''setpgid'', ''setpriority'', ''setregid'', ''setresgid'', ''setresuid'', ''setreuid'',
    ''setrlimit'', ''setsid'', ''setsockopt'', ''setuid'', ''setxattr'', ''shutdown'',
    ''sigaltstack'', ''signalfd4'', ''socket'', ''socketpair'', ''stat'', ''statfs'', ''statx'',
    ''symlink'', ''symlinkat'', ''sysinfo'', ''tgkill'', ''time'', ''timer_create'',
    ''timer_delete'', ''timer_getoverrun'', ''timer_gettime'', ''timer_settime'',
    ''timerfd_create'', ''timerfd_gettime'', ''timerfd_settime'', ''times'', ''truncate'',
    ''umask'', ''uname'', ''unlink'', ''unlinkat'', ''utimensat'', ''vfork'', ''wait4'',
    ''waitid'', ''write'', ''writev'']"

definition BASE_ALLOWLIST :: "string list" where
  "BASE_ALLOWLIST = BASE_ALLOWLIST_1 @ BASE_ALLOWLIST_2"

definition PERMISSIVE_EXTRA :: "string list" where
  "PERMISSIVE_EXTRA = [
    ''clone3'', ''personality'', ''ptrace'', ''process_vm_readv'', ''process_vm_writev'',
    ''setns'', ''unshare'', ''mount'', ''umount2'', ''pivot_root'', ''sync'', ''syncfs'',
    ''mknod'', ''mknodat'', ''chroot'', ''sethostname'', ''setdomainname'']"

definition STRICT_REMOVED :: "string list" where
  "STRICT_REMOVED = [
    ''socket'', ''connect'', ''bind'', ''listen'', ''accept4'', ''ptrace'', ''mount'', ''umount2'']"

definition STRICT_CHILD_REMOVED :: "string list" where
  "STRICT_CHILD_REMOVED = [
    ''execve'', ''execveat'', ''fork'', ''vfork'']"

definition SPECIAL_CASED :: "string list" where
  "SPECIAL_CASED = [
    ''clone'']"

definition NEVER_ALLOWED :: "string list" where
  "NEVER_ALLOWED = [
    ''bpf'', ''io_uring_setup'', ''io_uring_enter'', ''io_uring_register'', ''userfaultfd'',
    ''keyctl'', ''add_key'', ''request_key'', ''perf_event_open'', ''ptrace'',
    ''process_vm_readv'', ''process_vm_writev'', ''kcmp'', ''mount'', ''umount2'',
    ''pivot_root'', ''setns'', ''unshare'', ''open_by_handle_at'', ''name_to_handle_at'',
    ''quotactl'', ''reboot'', ''swapon'', ''swapoff'', ''kexec_load'', ''kexec_file_load'',
    ''init_module'', ''finit_module'', ''delete_module'', ''acct'', ''settimeofday'',
    ''clock_settime'', ''vhangup'', ''ioperm'', ''iopl'']"

definition NEWER_REFUSED :: "string list" where
  "NEWER_REFUSED = [
    ''cachestat'', ''fsconfig'', ''fsmount'', ''fsopen'', ''fspick'', ''listmount'',
    ''lsm_get_self_attr'', ''lsm_list_modules'', ''lsm_set_self_attr'', ''memfd_secret'',
    ''mount_setattr'', ''move_mount'', ''open_tree'', ''pidfd_getfd'', ''process_madvise'',
    ''process_mrelease'', ''quotactl_fd'', ''set_mempolicy_home_node'', ''statmount'']"



definition allowed_names :: "seccomp_profile \<Rightarrow> string list" where
  "allowed_names profile =
     (let names = (case profile of
          Permissive \<Rightarrow> BASE_ALLOWLIST @ PERMISSIVE_EXTRA
        | Default \<Rightarrow> BASE_ALLOWLIST
        | Strict \<Rightarrow> filter (\<lambda>n. n \<notin> set STRICT_REMOVED) BASE_ALLOWLIST)
      in remdups_adj (sort names))"

section \<open>The assembler\<close>

datatype label = Next | Allow | Deny | NoSys | Kill | CloneCheck | IoctlCheck | Chain | Skip

datatype pending =
    Load u32
  | And u32
  | JumpEq u32 label label
  | JumpGt u32 label label
  | Goto label
  | Ret u32
  | Mark label

datatype seccomp_error =
    UnresolvedLabel
  | BackwardJump
  | JumpTooFar nat
  | UnsupportedArch string
  | TooLong nat

fun is_mark :: "pending \<Rightarrow> bool" where
  "is_mark (Mark l) \<longleftrightarrow> True"
| "is_mark _ \<longleftrightarrow> False"

definition island :: "pending list" where
  "island =
     [Goto Skip, Mark Deny, Ret (RET_ERRNO OR EPERM), Mark NoSys, Ret (RET_ERRNO OR ENOSYS),
      Mark Kill, Ret RET_KILL_PROCESS, Mark Allow, Ret RET_ALLOW, Mark Skip]"

text \<open>First pass: the position of each mark, counting the instructions that are not marks.\<close>

fun label_positions :: "nat \<Rightarrow> pending list \<Rightarrow> (label \<times> nat) list" where
  "label_positions index [] = []"
| "label_positions index (Mark l # rest) = (l, index) # label_positions index rest"
| "label_positions index (_ # rest) = label_positions (Suc index) rest"

definition position_of :: "(label \<times> nat) list \<Rightarrow> label \<Rightarrow> nat \<Rightarrow> nat option" where
  "position_of positions l start =
     map_option snd (find (\<lambda>(l', p). l' = l \<and> p \<ge> start) positions)"

text \<open>Second pass: a branch's distance from the instruction after it, in eight bits.\<close>

definition distance :: "(label \<times> nat) list \<Rightarrow> nat \<Rightarrow> label \<Rightarrow> seccomp_error + u8" where
  "distance positions here l =
     (if l = Next then Inr 0
      else
        and_then (ok_or (if \<exists>p \<in> set positions. fst p = l then BackwardJump else UnresolvedLabel)
                   (position_of positions l (here + 1))) (\<lambda>target.
          let delta = target - (here + 1)
          in if delta \<le> u8_max then Inr (word_of_nat delta) else Inl (JumpTooFar delta)))"

fun emit :: "(label \<times> nat) list \<Rightarrow> nat \<Rightarrow> pending \<Rightarrow> seccomp_error + sock_filter" where
  "emit ps here (Load off) = Inr (stmt (BPF_LD OR BPF_W OR BPF_ABS) off)"
| "emit ps here (And m) = Inr (stmt (BPF_ALU OR BPF_AND OR BPF_K) m)"
| "emit ps here (Ret v) = Inr (stmt (BPF_RET OR BPF_K) v)"
| "emit ps here (JumpEq v jt jf) =
     and_then (distance ps here jt) (\<lambda>t. and_then (distance ps here jf) (\<lambda>f.
       Inr \<lparr>bpf_code = BPF_JMP OR BPF_JEQ OR BPF_K, bpf_jt = t, bpf_jf = f, bpf_k = v\<rparr>))"
| "emit ps here (JumpGt v jt jf) =
     and_then (distance ps here jt) (\<lambda>t. and_then (distance ps here jf) (\<lambda>f.
       Inr \<lparr>bpf_code = BPF_JMP OR BPF_JGT OR BPF_K, bpf_jt = t, bpf_jf = f, bpf_k = v\<rparr>))"
| "emit ps here (Goto l) =
     and_then (distance ps here l) (\<lambda>t.
       Inr \<lparr>bpf_code = BPF_JMP OR BPF_JA, bpf_jt = 0, bpf_jf = 0, bpf_k = ucast t\<rparr>)"
| "emit ps here (Mark l) = Inl UnresolvedLabel"

text \<open>(The last equation is never used: \<open>assemble_from\<close> skips marks, as the loop does.)\<close>

fun assemble_from ::
  "(label \<times> nat) list \<Rightarrow> nat \<Rightarrow> pending list \<Rightarrow> seccomp_error + sock_filter list" where
  "assemble_from ps here [] = Inr []"
| "assemble_from ps here (insn # rest) =
     (if is_mark insn then assemble_from ps here rest
      else and_then (emit ps here insn) (\<lambda>i.
             map_ok ((#) i) (assemble_from ps (Suc here) rest)))"

definition assemble :: "pending list \<Rightarrow> seccomp_error + sock_filter list" where
  "assemble pend = assemble_from (label_positions 0 pend) 0 pend"

section \<open>The programs\<close>

definition clone3_nosys :: "arch \<Rightarrow> string list \<Rightarrow> u32 option" where
  "clone3_nosys a names = (if ''clone3'' \<in> set names then None else number a ''clone3'')"

definition ioctl_nr :: "arch \<Rightarrow> string list \<Rightarrow> u32 option" where
  "ioctl_nr a names = (if ''ioctl'' \<in> set names then number a ''ioctl'' else None)"

definition simple_numbers :: "arch \<Rightarrow> string list \<Rightarrow> u32 list" where
  "simple_numbers a names =
     List.map_filter (number a) (filter (\<lambda>n. n \<noteq> ''clone'' \<and> n \<noteq> ''ioctl'') names)"

fun chain :: "nat \<Rightarrow> u32 list \<Rightarrow> pending list" where
  "chain i [] = []"
| "chain i (nr # nrs) =
     (if i mod ISLAND_EVERY = 0 then island else []) @ [JumpEq nr Allow Next] @ chain (Suc i) nrs"

definition jump_if :: "u32 option \<Rightarrow> label \<Rightarrow> pending list" where
  "jump_if nr l = (case nr of None \<Rightarrow> [] | Some n \<Rightarrow> [JumpEq n l Next])"

definition clone_check :: "u32 option \<Rightarrow> pending list" where
  "clone_check nr = (if nr = None then []
     else [Mark CloneCheck, Load OFF_ARG0_LO, And CLONE_NEW_MASK, JumpEq 0 Allow Deny])"

definition ioctl_check :: "u32 option \<Rightarrow> pending list" where
  "ioctl_check nr = (if nr = None then []
     else [Mark IoctlCheck, Load OFF_ARG1_LO]
          @ map (\<lambda>(name, request). JumpEq request Deny Next) DENIED_IOCTLS @ [Goto Allow])"

definition highest_known :: "arch \<Rightarrow> u32 option" where
  "highest_known a = (case map snd (TABLE a) of [] \<Rightarrow> None | x # xs \<Rightarrow> Some (fold max xs x))"

definition unknown_check :: "arch \<Rightarrow> pending list" where
  "unknown_check a = (case highest_known a of None \<Rightarrow> []
     | Some highest \<Rightarrow> [Load OFF_NR, JumpGt highest NoSys Deny])"

definition returns :: "pending list" where
  "returns =
     [Mark Deny, Ret (RET_ERRNO OR EPERM), Mark NoSys, Ret (RET_ERRNO OR ENOSYS),
      Mark Kill, Ret RET_KILL_PROCESS, Mark Allow, Ret RET_ALLOW]"

definition build_pending :: "arch \<Rightarrow> string list \<Rightarrow> pending list" where
  "build_pending a names =
     [Load OFF_ARCH, JumpEq (AUDIT_ARCH a) Next Kill, Load OFF_NR]
     @ jump_if (number a ''clone'') CloneCheck
     @ jump_if (clone3_nosys a names) NoSys
     @ jump_if (ioctl_nr a names) IoctlCheck
     @ [Goto Chain]
     @ clone_check (number a ''clone'')
     @ ioctl_check (ioctl_nr a names)
     @ [Mark Chain]
     @ chain 0 (simple_numbers a names)
     @ unknown_check a
     @ [Goto Deny]
     @ returns"

definition build :: "arch \<Rightarrow> string list \<Rightarrow> seccomp_error + sock_filter list" where
  "build a names =
     (if \<not> is_supported a then Inl (UnsupportedArch (arch_name a))
      else and_then (assemble (build_pending a names)) (\<lambda>prog.
             if length prog > 4096 then Inl (TooLong (length prog)) else Inr prog))"

definition program :: "arch \<Rightarrow> seccomp_profile \<Rightarrow> seccomp_error + sock_filter list" where
  "program a profile = build a (allowed_names profile)"

definition child_pending :: "arch \<Rightarrow> pending list" where
  "child_pending a =
     [Load OFF_ARCH, JumpEq (AUDIT_ARCH a) Next Kill, Load OFF_NR]
     @ map (\<lambda>nr. JumpEq nr Deny Next) (List.map_filter (number a) STRICT_CHILD_REMOVED)
     @ jump_if (number a ''clone'') CloneCheck
     @ [Goto Allow]
     @ (if number a ''clone'' = None then []
        else [Mark CloneCheck, Load OFF_ARG0_LO, And CLONE_THREAD, JumpEq 0 Deny Allow])
     @ [Mark Deny, Ret (RET_ERRNO OR EPERM), Mark Kill, Ret RET_KILL_PROCESS,
        Mark Allow, Ret RET_ALLOW]"

definition child_program ::
  "arch \<Rightarrow> seccomp_profile \<Rightarrow> seccomp_error + sock_filter list option" where
  "child_program a profile =
     (if profile \<noteq> Strict then Inr None
      else if \<not> is_supported a then Inl (UnsupportedArch (arch_name a))
      else map_ok Some (assemble (child_pending a)))"

text \<open>\<open>encode\<close>: the \<open>struct sock_filter\<close> array, eight bytes an instruction.\<close>

definition encode_insn :: "sock_filter \<Rightarrow> byte list" where
  "encode_insn i = u16_le (bpf_code i) @ [bpf_jt i, bpf_jf i] @ u32_le (bpf_k i)"

definition encode_prog :: "sock_filter list \<Rightarrow> byte list" where
  "encode_prog prog = concat (map encode_insn prog)"

text \<open>
  \<open>install\<close>: the system call is a parameter that takes the flags and answers its return
  code; with \<open>log_denials\<close> a refusal is retried once without the log flag.
\<close>

definition SECCOMP_FILTER_FLAG_TSYNC :: u32 where "SECCOMP_FILTER_FLAG_TSYNC = 1"
definition SECCOMP_FILTER_FLAG_LOG :: u32 where "SECCOMP_FILTER_FLAG_LOG = 2"

definition install ::
  "(u32 \<Rightarrow> 's \<Rightarrow> int \<times> 's) \<Rightarrow> bool \<Rightarrow> 's \<Rightarrow> (int + unit) \<times> 's" where
  "install apply_filter log_denials s =
     (let (rc, s1) = apply_filter (if log_denials
                then SECCOMP_FILTER_FLAG_TSYNC OR SECCOMP_FILTER_FLAG_LOG
                else SECCOMP_FILTER_FLAG_TSYNC) s;
          (rc2, s2) = (if rc \<noteq> 0 \<and> log_denials then apply_filter SECCOMP_FILTER_FLAG_TSYNC s1
                       else (rc, s1))
      in (if rc2 \<noteq> 0 then Inl rc2 else Inr (), s2))"

section \<open>What a program does\<close>

text \<open>
  \<open>evaluate_args\<close> (the interpreter the module's tests run the generated programs on) over
  the part of \<open>struct seccomp_data\<close> it takes. \<open>None\<close> is a panic of that interpreter: an
  unknown opcode, an unexpected load offset, or execution past the last instruction.
\<close>

record seccomp_data =
  sd_nr :: u32
  sd_arch :: u32
  sd_arg0 :: u64
  sd_arg1 :: u64

definition load_word :: "seccomp_data \<Rightarrow> u32 \<Rightarrow> u32 option" where
  "load_word d off =
     (if off = OFF_NR then Some (sd_nr d)
      else if off = OFF_ARCH then Some (sd_arch d)
      else if off = OFF_ARG0_LO then Some (ucast (sd_arg0 d))
      else if off = OFF_ARG1_LO then Some (ucast (sd_arg1 d))
      else None)"

function bpf_exec :: "sock_filter list \<Rightarrow> seccomp_data \<Rightarrow> u32 \<Rightarrow> u32 option" where
  "bpf_exec [] d a = None"
| "bpf_exec (i # rest) d a =
     (if bpf_code i = 0x20 then
        (case load_word d (bpf_k i) of None \<Rightarrow> None | Some v \<Rightarrow> bpf_exec rest d v)
      else if bpf_code i = 0x54 then bpf_exec rest d (a AND bpf_k i)
      else if bpf_code i = 0x06 then Some (bpf_k i)
      else if bpf_code i = 0x15 then
        bpf_exec (drop (unat (if a = bpf_k i then bpf_jt i else bpf_jf i)) rest) d a
      else if bpf_code i = 0x25 then
        bpf_exec (drop (unat (if a > bpf_k i then bpf_jt i else bpf_jf i)) rest) d a
      else if bpf_code i = 0x05 then bpf_exec (drop (unat (bpf_k i)) rest) d a
      else None)"
  by pat_completeness auto
termination
  by (relation "measure (\<lambda>(p, d, a). length p)") auto

section \<open>What a program means before assembly\<close>

fun after_mark :: "label \<Rightarrow> pending list \<Rightarrow> pending list option" where
  "after_mark l [] = None"
| "after_mark l (i # rest) = (if i = Mark l then Some rest else after_mark l rest)"

lemma after_mark_length: "after_mark l rest = Some r \<Longrightarrow> length r < length rest"
  by (induction rest) (auto split: if_splits)

function pending_exec :: "pending list \<Rightarrow> seccomp_data \<Rightarrow> u32 \<Rightarrow> u32 option" where
  "pending_exec [] d a = None"
| "pending_exec (Load off # rest) d a =
     (case load_word d off of None \<Rightarrow> None | Some v \<Rightarrow> pending_exec rest d v)"
| "pending_exec (And m # rest) d a = pending_exec rest d (a AND m)"
| "pending_exec (Ret v # rest) d a = Some v"
| "pending_exec (Mark l # rest) d a = pending_exec rest d a"
| "pending_exec (Goto l # rest) d a =
     (if l = Next then pending_exec rest d a
      else case after_mark l rest of None \<Rightarrow> None | Some r \<Rightarrow> pending_exec r d a)"
| "pending_exec (JumpEq v jt jf # rest) d a =
     (let l = (if a = v then jt else jf) in
      if l = Next then pending_exec rest d a
      else case after_mark l rest of None \<Rightarrow> None | Some r \<Rightarrow> pending_exec r d a)"
| "pending_exec (JumpGt v jt jf # rest) d a =
     (let l = (if a > v then jt else jf) in
      if l = Next then pending_exec rest d a
      else case after_mark l rest of None \<Rightarrow> None | Some r \<Rightarrow> pending_exec r d a)"
  by pat_completeness auto
termination
  by (relation "measure (\<lambda>(p, d, a). length p)") (auto dest: after_mark_length)

section \<open>The assembler is correct\<close>

definition insn_count :: "pending list \<Rightarrow> nat" where
  "insn_count p = length (filter (\<lambda>i. \<not> is_mark i) p)"

fun dist :: "label \<Rightarrow> pending list \<Rightarrow> nat option" where
  "dist l [] = None"
| "dist l (i # rest) =
     (if i = Mark l then Some 0
      else if is_mark i then dist l rest
      else map_option Suc (dist l rest))"

lemma insn_count_simps [simp]:
  "insn_count [] = 0"
  "insn_count (i # p) = (if is_mark i then insn_count p else Suc (insn_count p))"
  "insn_count (p @ q) = insn_count p + insn_count q"
  by (simp_all add: insn_count_def)

lemma label_positions_append:
  "label_positions n (p @ q) = label_positions n p @ label_positions (n + insn_count p) q"
  by (induction n p rule: label_positions.induct) auto

lemma label_positions_bounds:
  "(l, k) \<in> set (label_positions n p) \<Longrightarrow> n \<le> k \<and> k \<le> n + insn_count p"
  by (induction n p rule: label_positions.induct) auto

lemma position_of_dist:
  "start \<le> n \<Longrightarrow> position_of (label_positions n q) l start = map_option ((+) n) (dist l q)"
proof (induction n q rule: label_positions.induct)
  case (2 n l' rest)
  then show ?case by (auto simp: position_of_def)
qed (auto simp: position_of_def map_option_case split: option.splits)

lemma find_append: "find P (xs @ ys) = (case find P xs of None \<Rightarrow> find P ys | Some x \<Rightarrow> Some x)"
  by (induction xs) auto

lemma find_None_beyond:
  fixes ps :: "(label \<times> nat) list"
  assumes "\<forall>(l', p) \<in> set ps. p < start"
  shows "find (\<lambda>(l', p). l' = l \<and> p \<ge> start) ps = None"
proof -
  have "\<not> (l' = l \<and> p \<ge> start)" if "(l', p) \<in> set ps" for l' p
    using bspec [OF assms that] by simp
  then show ?thesis by (auto simp: find_None_iff)
qed

lemma position_of_after:
  assumes "\<not> is_mark insn"
  shows "position_of (label_positions 0 (pre @ insn # rest)) l (insn_count pre + 1)
           = map_option ((+) (insn_count pre + 1)) (dist l rest)"
proof -
  have "\<forall>(l', p) \<in> set (label_positions 0 pre). p < insn_count pre + 1"
    using label_positions_bounds [of _ _ 0 pre] by fastforce
  then have "find (\<lambda>(l', p). l' = l \<and> p \<ge> insn_count pre + 1) (label_positions 0 pre) = None"
    by (rule find_None_beyond)
  moreover have "label_positions 0 (pre @ insn # rest)
      = label_positions 0 pre @ label_positions (insn_count pre + 1) rest"
    using assms by (cases insn) (auto simp: label_positions_append)
  ultimately show ?thesis
    using position_of_dist [of "insn_count pre + 1" "insn_count pre + 1" rest l]
    by (simp add: position_of_def find_append)
qed

lemma distance_dist:
  assumes "\<not> is_mark insn" and "ps = label_positions 0 (pre @ insn # rest)"
  shows "distance ps (insn_count pre) l = Inr t \<longleftrightarrow>
     (if l = Next then t = 0
      else \<exists>d. dist l rest = Some d \<and> d \<le> u8_max \<and> t = word_of_nat d)"
  using position_of_after [OF assms(1), of pre rest l]
  by (cases "dist l rest") (auto simp: distance_def assms(2) result_simps Let_def)

lemma after_mark_dist: "after_mark l rest = Some r \<Longrightarrow> dist l rest \<noteq> None"
  by (induction rest) (auto split: if_splits)

lemma dist_after_mark: "dist l rest = Some d \<Longrightarrow> \<exists>r. after_mark l rest = Some r"
  by (induction rest arbitrary: d) (auto split: if_splits)

text \<open>Where a branch of distance \<open>d\<close> lands: the code after the mark, \<open>d\<close> instructions on.\<close>

lemma assemble_from_after_mark:
  assumes "assemble_from ps (insn_count pre) rest = Inr prog" and "dist l rest = Some d"
  shows "\<exists>pre' r. rest = pre' @ Mark l # r \<and> after_mark l rest = Some r
           \<and> assemble_from ps (insn_count (pre @ pre' @ [Mark l])) r = Inr (drop d prog)"
  using assms
proof (induction rest arbitrary: pre prog d)
  case (Cons i rest)
  show ?case
  proof (cases "i = Mark l")
    case True
    with Cons.prems show ?thesis
      by (intro exI [of _ "[]"] exI [of _ rest]) auto
  next
    case False
    show ?thesis
    proof (cases "is_mark i")
      case True
      with Cons.IH [of "pre @ [i]" prog d] Cons.prems False obtain pre' r where
        "rest = pre' @ Mark l # r" "after_mark l rest = Some r"
        "assemble_from ps (insn_count ((pre @ [i]) @ pre' @ [Mark l])) r = Inr (drop d prog)"
        by auto
      with False show ?thesis
        by (intro exI [of _ "i # pre'"] exI [of _ r]) auto
    next
      case notmark: False
      with Cons.prems False obtain d' i' prog' where d: "d = Suc d'" "dist l rest = Some d'"
        "assemble_from ps (insn_count (pre @ [i])) rest = Inr prog'" "prog = i' # prog'"
        by (auto simp: result_simps)
      with Cons.IH [of "pre @ [i]" prog' d'] obtain pre' r where
        "rest = pre' @ Mark l # r" "after_mark l rest = Some r"
        "assemble_from ps (insn_count ((pre @ [i]) @ pre' @ [Mark l])) r = Inr (drop d' prog')"
        by auto
      with False d show ?thesis
        by (intro exI [of _ "i # pre'"] exI [of _ r]) auto
    qed
  qed
qed simp

lemma opcodes [simp]:
  "BPF_LD OR BPF_W OR BPF_ABS = 0x20" "BPF_ALU OR BPF_AND OR BPF_K = 0x54"
  "BPF_RET OR BPF_K = 0x06" "BPF_JMP OR BPF_JEQ OR BPF_K = 0x15"
  "BPF_JMP OR BPF_JGT OR BPF_K = 0x25" "BPF_JMP OR BPF_JA = 0x05"
  by (simp_all add: opcode_defs)

lemma unat_distance [simp]: "d \<le> u8_max \<Longrightarrow> unat (word_of_nat d :: u8) = d"
  by (simp add: unat_of_nat take_bit_nat_eq_self u8_max_def)

lemma unat_distance_k [simp]: "unat (ucast (t :: u8) :: u32) = unat t"
proof -
  have "unat t < 256"
    using unsigned_less [where ?'a = nat and w = t] by simp
  then show ?thesis
    by (simp add: unsigned_ucast_eq take_bit_nat_eq_self)
qed

text \<open>A branch taken in the assembled program and in the labelled one.\<close>

lemma branch_correct:
  assumes "ps = label_positions 0 (pre @ insn # rest)" and "\<not> is_mark insn"
    and "assemble_from ps (insn_count (pre @ [insn])) rest = Inr prog"
    and "distance ps (insn_count pre) l = Inr t"
    and "l = Next \<Longrightarrow> bpf_exec prog d a = pending_exec rest d a"
    and "\<And>pre' r p. l \<noteq> Next \<Longrightarrow> after_mark l rest = Some r \<Longrightarrow> pre @ insn # rest = pre' @ r \<Longrightarrow>
           assemble_from ps (insn_count pre') r = Inr p \<Longrightarrow> bpf_exec p d a = pending_exec r d a"
  shows "bpf_exec (drop (unat t) prog) d a =
     (if l = Next then pending_exec rest d a
      else case after_mark l rest of None \<Rightarrow> None | Some r \<Rightarrow> pending_exec r d a)"
proof (cases "l = Next")
  case True
  then have "t = 0"
    using assms(4) by (simp add: distance_def)
  with True assms(5) show ?thesis by simp
next
  case False
  then obtain k where k: "dist l rest = Some k" "k \<le> u8_max" "t = word_of_nat k"
    using assms(4) distance_dist [OF assms(2,1)] by auto
  obtain pre' r where r: "rest = pre' @ Mark l # r" "after_mark l rest = Some r"
    "assemble_from ps (insn_count ((pre @ [insn]) @ pre' @ [Mark l])) r = Inr (drop k prog)"
    using assemble_from_after_mark [OF assms(3) k(1)] by auto
  then show ?thesis
    using False k assms(6) [OF False r(2) _ r(3)] by simp
qed

lemma assemble_from_correct:
  assumes "assemble_from ps (insn_count pre) suf = Inr prog"
    and "ps = label_positions 0 (pre @ suf)"
  shows "bpf_exec prog d a = pending_exec suf d a"
  using assms
proof (induction suf d a arbitrary: pre prog rule: pending_exec.induct)
  case (1 d a)
  then show ?case by simp
next
  case (2 off rest d a)
  then obtain p where "prog = stmt 0x20 off # p"
    "assemble_from ps (insn_count (pre @ [Load off])) rest = Inr p"
    by (auto simp: result_simps)
  with 2(1) [of _ "pre @ [Load off]" p] 2(3) show ?case
    by (auto simp: stmt_def split: option.splits)
next
  case (3 m rest d a)
  then obtain p where "prog = stmt 0x54 m # p"
    "assemble_from ps (insn_count (pre @ [And m])) rest = Inr p"
    by (auto simp: result_simps)
  with 3(1) [of "pre @ [And m]" p] 3(3) show ?case
    by (simp add: stmt_def)
next
  case (4 v rest d a)
  then show ?case by (auto simp: result_simps stmt_def)
next
  case (5 l rest d a)
  with 5(1) [of "pre @ [Mark l]" prog] show ?case by simp
next
  case (6 l rest d a)
  then obtain p t where p: "assemble_from ps (insn_count (pre @ [Goto l])) rest = Inr p"
    "distance ps (insn_count pre) l = Inr t"
    "prog = \<lparr>bpf_code = 0x05, bpf_jt = 0, bpf_jf = 0, bpf_k = ucast t\<rparr> # p"
    by (auto simp: result_simps)
  have "bpf_exec (drop (unat t) p) d a =
     (if l = Next then pending_exec rest d a
      else case after_mark l rest of None \<Rightarrow> None | Some r \<Rightarrow> pending_exec r d a)"
    by (rule branch_correct [OF 6(4) _ p(1,2)])
      (use 6(1) [of "pre @ [Goto l]" p] 6(2) p(1) 6(4) in auto)
  then show ?case by (simp add: p(3))
next
  case (7 v jt jf rest d a)
  let ?l = "if a = v then jt else jf"
  obtain p t f where p: "assemble_from ps (insn_count (pre @ [JumpEq v jt jf])) rest = Inr p"
    "distance ps (insn_count pre) jt = Inr t" "distance ps (insn_count pre) jf = Inr f"
    "prog = \<lparr>bpf_code = 0x15, bpf_jt = t, bpf_jf = f, bpf_k = v\<rparr> # p"
    using 7(3) by (auto simp: result_simps)
  have "distance ps (insn_count pre) ?l = Inr (if a = v then t else f)"
    using p(2,3) by simp
  from branch_correct [OF 7(4) _ p(1) this]
  have e: "bpf_exec (drop (unat (if a = v then t else f)) p) d a =
     (if ?l = Next then pending_exec rest d a
      else case after_mark ?l rest of None \<Rightarrow> None | Some r \<Rightarrow> pending_exec r d a)"
    using 7(1) [OF refl, of "pre @ [JumpEq v jt jf]" p] 7(2) [OF refl] p(1) 7(4) by auto
  show ?case using e by (cases "a = v") (auto simp: p(4) Let_def split: option.split)
next
  case (8 v jt jf rest d a)
  let ?l = "if a > v then jt else jf"
  obtain p t f where p: "assemble_from ps (insn_count (pre @ [JumpGt v jt jf])) rest = Inr p"
    "distance ps (insn_count pre) jt = Inr t" "distance ps (insn_count pre) jf = Inr f"
    "prog = \<lparr>bpf_code = 0x25, bpf_jt = t, bpf_jf = f, bpf_k = v\<rparr> # p"
    using 8(3) by (auto simp: result_simps)
  have "distance ps (insn_count pre) ?l = Inr (if a > v then t else f)"
    using p(2,3) by simp
  from branch_correct [OF 8(4) _ p(1) this]
  have e: "bpf_exec (drop (unat (if a > v then t else f)) p) d a =
     (if ?l = Next then pending_exec rest d a
      else case after_mark ?l rest of None \<Rightarrow> None | Some r \<Rightarrow> pending_exec r d a)"
    using 8(1) [OF refl, of "pre @ [JumpGt v jt jf]" p] 8(2) [OF refl] p(1) 8(4) by auto
  show ?case using e by (cases "a > v") (auto simp: p(4) Let_def split: option.split)
qed

lemma assemble_correct:
  "assemble pend = Inr prog \<Longrightarrow> bpf_exec prog d a = pending_exec pend d a"
  using assemble_from_correct [of _ "[]" pend] by (auto simp: assemble_def)

section \<open>The policy the program implements\<close>

text \<open>
  What \<open>build\<close> is meant to decide, as its comment states it: a foreign ABI is killed;
  \<open>clone\<close> is allowed unless it asks for a namespace; \<open>clone3\<close>, where it is not allowed,
  does not exist; \<open>ioctl\<close> is allowed unless it is a denied request; every other named
  call is allowed; a number above the table does not exist, and the rest are refused.
\<close>

definition arg_lo :: "seccomp_data \<Rightarrow> nat \<Rightarrow> u32" where
  "arg_lo d i = ucast (if i = 0 then sd_arg0 d else sd_arg1 d)"

definition decide :: "arch \<Rightarrow> string list \<Rightarrow> seccomp_data \<Rightarrow> u32" where
  "decide a names d =
     (let nr = sd_nr d in
      if sd_arch d \<noteq> AUDIT_ARCH a then RET_KILL_PROCESS
      else if number a ''clone'' = Some nr then
        (if arg_lo d 0 AND CLONE_NEW_MASK = 0 then RET_ALLOW else RET_ERRNO OR EPERM)
      else if clone3_nosys a names = Some nr then RET_ERRNO OR ENOSYS
      else if ioctl_nr a names = Some nr then
        (if arg_lo d 1 \<in> snd ` set DENIED_IOCTLS then RET_ERRNO OR EPERM else RET_ALLOW)
      else if nr \<in> set (simple_numbers a names) then RET_ALLOW
      else if \<exists>h. highest_known a = Some h \<and> h < nr then RET_ERRNO OR ENOSYS
      else RET_ERRNO OR EPERM)"

definition child_decide :: "arch \<Rightarrow> seccomp_data \<Rightarrow> u32" where
  "child_decide a d =
     (if sd_arch d \<noteq> AUDIT_ARCH a then RET_KILL_PROCESS
      else if sd_nr d \<in> set (List.map_filter (number a) STRICT_CHILD_REMOVED) then RET_ERRNO OR EPERM
      else if number a ''clone'' = Some (sd_nr d) \<and> arg_lo d 0 AND CLONE_THREAD = 0
        then RET_ERRNO OR EPERM
      else RET_ALLOW)"

named_theorems pexec "execution of labelled programs"

lemma pending_exec_append_jump [pexec]:
  "pending_exec (jump_if nr l @ rest) d a =
     (if nr = Some a \<and> l \<noteq> Next
      then (case after_mark l rest of None \<Rightarrow> None | Some r \<Rightarrow> pending_exec r d a)
      else pending_exec rest d a)"
  by (cases nr) (auto simp: jump_if_def Let_def)

lemma after_mark_jump_if [simp]: "after_mark l (jump_if nr l' @ rest) = after_mark l rest"
  by (cases nr) (auto simp: jump_if_def)

lemma after_mark_append:
  "after_mark l (p @ q) =
     (case after_mark l p of Some r \<Rightarrow> Some (r @ q) | None \<Rightarrow> after_mark l q)"
  by (induction p) auto

lemma after_mark_islands [simp]:
  "after_mark CloneCheck (chain i nrs) = None"
  "after_mark IoctlCheck (chain i nrs) = None"
  "after_mark Chain (chain i nrs) = None"
  by (induction nrs arbitrary: i) (auto simp: island_def after_mark_append)

text \<open>
  Wherever a branch to one of the four returns lands, in an island or at the end, the
  program returns that label's value.
\<close>

fun label_value :: "label \<Rightarrow> u32 option" where
  "label_value Allow = Some RET_ALLOW"
| "label_value Deny = Some (RET_ERRNO OR EPERM)"
| "label_value NoSys = Some (RET_ERRNO OR ENOSYS)"
| "label_value Kill = Some RET_KILL_PROCESS"
| "label_value _ = None"

definition good_returns :: "pending list \<Rightarrow> bool" where
  "good_returns p \<longleftrightarrow>
     (\<forall>l v. label_value l = Some v \<longrightarrow>
        (\<exists>r. after_mark l p = Some r \<and> (\<forall>d a. pending_exec r d a = Some v)))"

lemma good_returns_value:
  "good_returns p \<Longrightarrow> label_value l = Some v \<Longrightarrow>
     (case after_mark l p of None \<Rightarrow> None | Some r \<Rightarrow> pending_exec r d a) = Some v"
  by (fastforce simp: good_returns_def)

lemma label_value_Some_iff:
  "label_value l = Some v \<longleftrightarrow>
     (l = Allow \<and> v = RET_ALLOW) \<or> (l = Deny \<and> v = RET_ERRNO OR EPERM)
     \<or> (l = NoSys \<and> v = RET_ERRNO OR ENOSYS) \<or> (l = Kill \<and> v = RET_KILL_PROCESS)"
  by (cases l) auto

lemma good_returns_returns [simp]: "good_returns returns"
  by (auto simp: good_returns_def returns_def label_value_Some_iff)

lemma good_returns_island [simp]: "good_returns (island @ p)"
  by (auto simp: good_returns_def island_def label_value_Some_iff)

lemma good_returns_skip:
  "(\<And>l v. label_value l = Some v \<Longrightarrow> after_mark l p = None) \<Longrightarrow> good_returns q
     \<Longrightarrow> good_returns (p @ q)"
  by (auto simp: good_returns_def after_mark_append)

lemma good_returns_Cons [simp]:
  "(\<And>l. i \<noteq> Mark l) \<Longrightarrow> good_returns p \<Longrightarrow> good_returns (i # p)"
  by (auto simp: good_returns_def)

lemma good_returns_chain [simp]: "good_returns p \<Longrightarrow> good_returns (chain i nrs @ p)"
  by (induction nrs arbitrary: i) auto

lemma after_mark_check [simp]:
  "l \<noteq> CloneCheck \<Longrightarrow> after_mark l (clone_check nr @ p) = after_mark l p"
  "l \<noteq> IoctlCheck \<Longrightarrow> after_mark l (ioctl_check nr @ p) = after_mark l p"
  "after_mark l (unknown_check b @ p) = after_mark l p"
  by (auto simp: clone_check_def ioctl_check_def unknown_check_def DENIED_IOCTLS_def
      split: option.splits)

lemma pending_exec_island [pexec]: "pending_exec (island @ p) d a = pending_exec p d a"
  by (simp add: island_def)

lemma pending_exec_chain [pexec]:
  assumes "good_returns p"
  shows "pending_exec (chain i nrs @ p) d a =
     (if a \<in> set nrs then Some RET_ALLOW else pending_exec p d a)"
proof (induction nrs arbitrary: i)
  case (Cons nr nrs)
  have "(case after_mark Allow (chain (Suc i) nrs @ p) of None \<Rightarrow> None
           | Some r \<Rightarrow> pending_exec r d a) = Some RET_ALLOW"
    by (rule good_returns_value) (use assms in auto)
  then have "pending_exec (JumpEq nr Allow Next # chain (Suc i) nrs @ p) d a =
     (if a \<in> set (nr # nrs) then Some RET_ALLOW else pending_exec p d a)"
    using Cons by (auto simp: Let_def)
  then show ?case
    by (simp only: chain.simps append_Cons append_Nil append_assoc pending_exec_island
        split: if_split) simp
qed simp

lemma load_words [simp]:
  "load_word d OFF_NR = Some (sd_nr d)" "load_word d OFF_ARCH = Some (sd_arch d)"
  "load_word d OFF_ARG0_LO = Some (arg_lo d 0)" "load_word d OFF_ARG1_LO = Some (arg_lo d 1)"
  by (simp_all add: load_word_def OFF_NR_def OFF_ARCH_def OFF_ARG0_LO_def OFF_ARG1_LO_def
      arg_lo_def)

lemma pending_exec_tail:
  "pending_exec (unknown_check a @ Goto Deny # returns) d x =
     Some (if \<exists>h. highest_known a = Some h \<and> h < (if highest_known a = None then x else sd_nr d)
           then RET_ERRNO OR ENOSYS else RET_ERRNO OR EPERM)"
  by (auto simp: unknown_check_def returns_def Let_def split: option.splits)

text \<open>The code after the jumps: the chain and what follows it.\<close>

definition chain_part :: "arch \<Rightarrow> string list \<Rightarrow> pending list" where
  "chain_part a names =
     chain 0 (simple_numbers a names) @ unknown_check a @ [Goto Deny] @ returns"

lemma good_returns_chain_part [simp]: "good_returns (chain_part a names)"
  unfolding chain_part_def
  by (intro good_returns_chain good_returns_skip)
    (auto simp: unknown_check_def split: option.splits)

lemma pending_exec_chain_part:
  "pending_exec (chain_part a names) d (sd_nr d) =
     Some (if sd_nr d \<in> set (simple_numbers a names) then RET_ALLOW
           else if \<exists>h. highest_known a = Some h \<and> h < sd_nr d then RET_ERRNO OR ENOSYS
           else RET_ERRNO OR EPERM)"
proof -
  have "good_returns (unknown_check a @ [Goto Deny] @ returns)"
    by (intro good_returns_skip) (auto simp: unknown_check_def split: option.splits)
  then show ?thesis
    using pending_exec_tail [of a d "sd_nr d"]
    by (simp add: chain_part_def pending_exec_chain)
qed

lemma good_returns_ioctl [simp]:
  "good_returns p \<Longrightarrow> good_returns (ioctl_check nr @ p)"
  by (auto simp: ioctl_check_def good_returns_def DENIED_IOCTLS_def label_value_Some_iff)

lemma good_returns_Mark_Chain [simp]: "good_returns p \<Longrightarrow> good_returns (Mark Chain # p)"
  by (auto simp: good_returns_def label_value_Some_iff)

lemma exec_clone_check:
  assumes "good_returns p"
  shows "(case after_mark CloneCheck (clone_check (Some n) @ p) of None \<Rightarrow> None
            | Some r \<Rightarrow> pending_exec r d x)
     = Some (if arg_lo d 0 AND CLONE_NEW_MASK = 0 then RET_ALLOW else RET_ERRNO OR EPERM)"
  using good_returns_value [OF assms, of Allow] good_returns_value [OF assms, of Deny]
  by (auto simp: clone_check_def Let_def)

lemma exec_ioctl_check:
  assumes "good_returns p"
  shows "(case after_mark IoctlCheck (ioctl_check (Some n) @ p) of None \<Rightarrow> None
            | Some r \<Rightarrow> pending_exec r d x)
     = Some (if arg_lo d 1 \<in> snd ` set DENIED_IOCTLS then RET_ERRNO OR EPERM else RET_ALLOW)"
  using good_returns_value [OF assms, of Allow] good_returns_value [OF assms, of Deny]
  by (auto simp: ioctl_check_def DENIED_IOCTLS_def Let_def)

theorem pending_exec_build: "pending_exec (build_pending a names) d x = Some (decide a names d)"
proof -
  let ?c = "number a ''clone''" and ?n = "clone3_nosys a names" and ?i = "ioctl_nr a names"
  let ?tail = "chain_part a names"
  let ?checks = "clone_check ?c @ ioctl_check ?i @ Mark Chain # ?tail"
  have gi: "good_returns (ioctl_check ?i @ Mark Chain # ?tail)" by simp
  have gt: "good_returns (Mark Chain # ?tail)" by simp
  have gc: "good_returns ?checks"
    using gi by (auto simp: good_returns_def clone_check_def label_value_Some_iff)
  have chain: "after_mark Chain ?checks = Some ?tail" by simp
  have clone: "(case after_mark CloneCheck ?checks of None \<Rightarrow> None
      | Some r \<Rightarrow> pending_exec r d y)
      = Some (if arg_lo d 0 AND CLONE_NEW_MASK = 0 then RET_ALLOW else RET_ERRNO OR EPERM)"
    if "?c = Some n" for n y
    using exec_clone_check [OF gi, where n = n] that by simp
  have ioctl: "(case after_mark IoctlCheck ?checks of None \<Rightarrow> None
      | Some r \<Rightarrow> pending_exec r d y)
      = Some (if arg_lo d 1 \<in> snd ` set DENIED_IOCTLS then RET_ERRNO OR EPERM else RET_ALLOW)"
    if "?i = Some n" for n y
    using exec_ioctl_check [OF gt, where n = n] that by simp
  have kill: "(case after_mark Kill ?checks of None \<Rightarrow> None | Some r \<Rightarrow> pending_exec r d y)
      = Some RET_KILL_PROCESS" for y
    by (rule good_returns_value [OF gc]) simp
  have nosys: "(case after_mark NoSys ?checks of None \<Rightarrow> None | Some r \<Rightarrow> pending_exec r d y)
      = Some (RET_ERRNO OR ENOSYS)" for y
    by (rule good_returns_value [OF gc]) simp
  have "build_pending a names =
     Load OFF_ARCH # JumpEq (AUDIT_ARCH a) Next Kill # Load OFF_NR
     # jump_if ?c CloneCheck @ jump_if ?n NoSys @ jump_if ?i IoctlCheck @ Goto Chain # ?checks"
    by (simp add: build_pending_def chain_part_def)
  then show ?thesis
    using clone ioctl kill nosys chain pending_exec_chain_part [of a names d]
    by (auto simp: decide_def pexec Let_def)
qed

section \<open>Every branch is within reach\<close>

fun branch_labels :: "pending \<Rightarrow> label list" where
  "branch_labels (JumpEq v jt jf) = [jt, jf]"
| "branch_labels (JumpGt v jt jf) = [jt, jf]"
| "branch_labels (Goto l) = [l]"
| "branch_labels _ = []"

definition reaches :: "nat \<Rightarrow> pending list \<Rightarrow> label \<Rightarrow> bool" where
  "reaches n p l \<longleftrightarrow> l = Next \<or> (\<exists>d. dist l p = Some d \<and> d \<le> n)"

fun all_near :: "pending list \<Rightarrow> bool" where
  "all_near [] \<longleftrightarrow> True"
| "all_near (i # rest) \<longleftrightarrow> (\<forall>l \<in> set (branch_labels i). reaches u8_max rest l) \<and> all_near rest"

lemma reaches_distance:
  assumes "reaches u8_max rest l" and "\<not> is_mark insn"
  shows "\<exists>t. distance (label_positions 0 (pre @ insn # rest)) (insn_count pre) l = Inr t"
  using assms distance_dist [OF assms(2) refl, of pre rest l]
  by (auto simp: reaches_def)

lemma emit_ok:
  "\<forall>l \<in> set (branch_labels i). \<exists>t. distance ps here l = Inr t \<Longrightarrow> \<not> is_mark i
     \<Longrightarrow> \<exists>s. emit ps here i = Inr s"
  by (cases i) auto

lemma assemble_from_near:
  assumes "all_near suf" and "ps = label_positions 0 (pre @ suf)"
  shows "\<exists>prog. assemble_from ps (insn_count pre) suf = Inr prog \<and> length prog = insn_count suf"
  using assms
proof (induction suf arbitrary: pre)
  case (Cons i suf)
  from Cons.IH [of "pre @ [i]"] Cons.prems obtain p where
    p: "assemble_from ps (insn_count (pre @ [i])) suf = Inr p" "length p = insn_count suf"
    by auto
  show ?case
  proof (cases "is_mark i")
    case True
    with p show ?thesis by simp
  next
    case False
    have "\<exists>t. distance ps (insn_count pre) l = Inr t" if "l \<in> set (branch_labels i)" for l
      using reaches_distance [of suf l i pre] Cons.prems False that by simp
    then have "\<exists>s. emit ps (insn_count pre) i = Inr s"
      using False by (intro emit_ok) auto
    with False p show ?thesis by auto
  qed
qed simp

lemma assemble_near:
  "all_near p \<Longrightarrow> \<exists>prog. assemble p = Inr prog \<and> length prog = insn_count p"
  using assemble_from_near [of p _ "[]"] by (auto simp: assemble_def)

lemma all_near_append_plain:
  "\<forall>i \<in> set p. branch_labels i = [] \<Longrightarrow> all_near q \<Longrightarrow> all_near (p @ q)"
  by (induction p) auto

text \<open>All four returns lie within \<open>n\<close> instructions.\<close>

definition near_returns :: "nat \<Rightarrow> pending list \<Rightarrow> bool" where
  "near_returns n p \<longleftrightarrow> (\<forall>l \<in> {Allow, Deny, NoSys, Kill}. reaches n p l)"

lemma near_returns_mono: "near_returns m p \<Longrightarrow> m \<le> n \<Longrightarrow> near_returns n p"
  by (fastforce simp: near_returns_def reaches_def)

lemma near_returns_Cons:
  "near_returns n p \<Longrightarrow> (\<And>l. i \<noteq> Mark l) \<Longrightarrow> near_returns (Suc n) (i # p)"
  by (cases i) (auto simp: near_returns_def reaches_def)

lemma near_returns_island: "near_returns 4 (island @ p)"
  by (simp add: near_returns_def reaches_def island_def)

lemma near_returns_returns: "near_returns 3 returns"
  by (simp add: near_returns_def reaches_def returns_def)

lemma near_returns_tail: "near_returns 6 (unknown_check a @ Goto Deny # returns)"
  by (auto simp: near_returns_def reaches_def returns_def unknown_check_def split: option.splits)

definition slack :: "nat \<Rightarrow> nat" where
  "slack i = (if i mod 64 = 0 then 6 else 70 - i mod 64)"

lemma slack_Suc: "i mod 64 \<noteq> 0 \<Longrightarrow> Suc (slack (Suc i)) \<le> slack i"
proof -
  assume nz: "i mod 64 \<noteq> 0"
  have m: "i mod 64 < 64" by simp
  have "Suc i mod 64 = (if i mod 64 = 63 then 0 else Suc (i mod 64))"
    by (simp add: mod_Suc)
  then show ?thesis
    using nz m by (auto simp: slack_def)
qed

lemma near_returns_chain:
  "near_returns 6 p \<Longrightarrow> near_returns (slack i) (chain i nrs @ p)"
proof (induction nrs arbitrary: i)
  case Nil
  then show ?case
    by (auto intro: near_returns_mono simp: slack_def)
next
  case (Cons nr nrs)
  show ?case
  proof (cases "i mod 64 = 0")
    case True
    then show ?thesis
      by (auto simp: ISLAND_EVERY_def slack_def intro: near_returns_mono [OF near_returns_island])
  next
    case False
    have "near_returns (Suc (slack (Suc i))) (JumpEq nr Allow Next # chain (Suc i) nrs @ p)"
      by (rule near_returns_Cons) (use Cons in auto)
    with False show ?thesis
      by (auto simp: ISLAND_EVERY_def intro: near_returns_mono slack_Suc)
  qed
qed

lemma slack_u8: "slack i \<le> u8_max"
  by (auto simp: slack_def u8_max_def)

lemma all_near_island: "all_near p \<Longrightarrow> all_near (island @ p)"
  by (simp add: island_def reaches_def u8_max_def)

lemma all_near_chain: "near_returns 6 p \<Longrightarrow> all_near p \<Longrightarrow> all_near (chain i nrs @ p)"
proof (induction nrs arbitrary: i)
  case (Cons nr nrs)
  have "reaches u8_max (chain (Suc i) nrs @ p) Allow"
    using near_returns_mono [OF near_returns_chain [OF Cons.prems(1)] slack_u8]
    by (auto simp: near_returns_def)
  then have "all_near (JumpEq nr Allow Next # chain (Suc i) nrs @ p)"
    using Cons by (simp add: reaches_def)
  then show ?case
    using all_near_island by (auto simp del: all_near.simps)
qed simp

lemma all_near_tail: "all_near (unknown_check a @ Goto Deny # returns)"
  by (auto simp: reaches_def returns_def unknown_check_def u8_max_def split: option.splits)

lemma chain_part_near: "near_returns 6 (chain_part a names)" "all_near (chain_part a names)"
  using near_returns_chain [OF near_returns_tail, of 0] all_near_chain [OF near_returns_tail all_near_tail]
  by (auto simp: chain_part_def slack_def)

lemma all_near_build: "all_near (build_pending a names)"
proof -
  obtain dA dD dN dK where d: "dist Allow (chain_part a names) = Some dA" "dA \<le> 6"
    "dist Deny (chain_part a names) = Some dD" "dD \<le> 6"
    "dist NoSys (chain_part a names) = Some dN" "dN \<le> 6"
    "dist Kill (chain_part a names) = Some dK" "dK \<le> 6"
    using chain_part_near(1) [of a names] by (auto simp: near_returns_def reaches_def)
  have b: "build_pending a names =
     Load OFF_ARCH # JumpEq (AUDIT_ARCH a) Next Kill # Load OFF_NR
     # jump_if (number a ''clone'') CloneCheck @ jump_if (clone3_nosys a names) NoSys
     @ jump_if (ioctl_nr a names) IoctlCheck @ Goto Chain
     # clone_check (number a ''clone'') @ ioctl_check (ioctl_nr a names)
     @ Mark Chain # chain_part a names"
    by (simp add: build_pending_def chain_part_def)
  show ?thesis
    unfolding b
    using d chain_part_near(2) [of a names]
    by (cases "number a ''clone''"; cases "clone3_nosys a names"; cases "ioctl_nr a names")
      (simp_all add: jump_if_def clone_check_def ioctl_check_def DENIED_IOCTLS_def reaches_def
        u8_max_def)
qed

lemma insn_count_island [simp]: "insn_count island = 5"
  by (simp add: island_def)

lemma island_boundary:
  "(Suc i + 63) div 64 = (i + 63) div 64 + (if i mod 64 = 0 then 1 else 0)"
proof -
  define q r where "q = i div 64" and "r = i mod 64"
  then have i: "i = r + 64 * q" and r: "r < 64"
    by simp_all
  have small: "(r + 63) div 64 = (if r = 0 then 0 else 1)"
    using r by (auto intro!: div_nat_eqI)
  have "i + 63 = (r + 63) + 64 * q" "Suc i + 63 = r + 64 * Suc q"
    using i by simp_all
  then have "(i + 63) div 64 = (r + 63) div 64 + q" "(Suc i + 63) div 64 = r div 64 + Suc q"
    by (simp_all only: div_mult_self2 zero_neq_numeral not_False_eq_True)
  then show ?thesis
    using small r by (simp add: r_def)
qed

lemma insn_count_chain: "insn_count (chain i nrs) \<le> length nrs + 5 * ((i + length nrs + 63) div 64 - (i + 63) div 64)"
proof (induction nrs arbitrary: i)
  case (Cons nr nrs)
  define A B where "A = (i + length (nr # nrs) + 63) div 64" and "B = (i + 63) div 64"
  let ?k = "if i mod 64 = 0 then 1 else 0 :: nat"
  have B: "(Suc i + 63) div 64 = B + ?k"
    unfolding B_def by (rule island_boundary)
  have A: "B + ?k \<le> A"
    unfolding A_def B [symmetric] by (intro div_le_mono) simp
  have "insn_count (chain (Suc i) nrs) \<le> length nrs + 5 * (A - (B + ?k))"
    using Cons.IH [of "Suc i"] unfolding B by (simp add: A_def)
  moreover have "insn_count (chain i (nr # nrs)) = 5 * ?k + 1 + insn_count (chain (Suc i) nrs)"
    by (simp add: ISLAND_EVERY_def)
  ultimately have "insn_count (chain i (nr # nrs)) \<le> Suc (length nrs) + 5 * (A - B)"
    using A by linarith
  then show ?case
    by (simp add: A_def B_def)
qed simp

lemma length_map_filter: "length (List.map_filter f xs) \<le> length xs"
  by (simp add: List.map_filter_def)

lemma insn_count_build:
  "insn_count (build_pending a names) \<le> length names + 5 * ((length names + 63) div 64) + 21"
proof -
  have l: "length (simple_numbers a names) \<le> length names"
    unfolding simple_numbers_def by (meson length_filter_le length_map_filter order_trans)
  then have "insn_count (chain 0 (simple_numbers a names))
      \<le> length names + 5 * ((length names + 63) div 64)"
    using insn_count_chain [of 0 "simple_numbers a names"]
      div_le_mono [of "length (simple_numbers a names) + 63" "length names + 63" 64] by simp
  then show ?thesis
    by (cases "number a ''clone''"; cases "clone3_nosys a names"; cases "ioctl_nr a names")
      (auto simp: build_pending_def jump_if_def clone_check_def ioctl_check_def DENIED_IOCTLS_def
        unknown_check_def returns_def split: option.splits)
qed

lemma child_removed_length: "length (List.map_filter f STRICT_CHILD_REMOVED) \<le> 4"
  using length_map_filter [of f STRICT_CHILD_REMOVED] by (simp add: STRICT_CHILD_REMOVED_def)

definition child_tail :: "arch \<Rightarrow> pending list" where
  "child_tail a =
     jump_if (number a ''clone'') CloneCheck
     @ Goto Allow
     # (if number a ''clone'' = None then []
        else [Mark CloneCheck, Load OFF_ARG0_LO, And CLONE_THREAD, JumpEq 0 Deny Allow])
     @ [Mark Deny, Ret (RET_ERRNO OR EPERM), Mark Kill, Ret RET_KILL_PROCESS,
        Mark Allow, Ret RET_ALLOW]"

lemma child_pending_tail:
  "child_pending a =
     Load OFF_ARCH # JumpEq (AUDIT_ARCH a) Next Kill # Load OFF_NR
     # map (\<lambda>nr. JumpEq nr Deny Next) (List.map_filter (number a) STRICT_CHILD_REMOVED) @ child_tail a"
  by (simp add: child_pending_def child_tail_def)

lemma after_mark_jumps [simp]:
  "after_mark l (map (\<lambda>nr. JumpEq nr x y) nrs @ p) = after_mark l p"
  "dist l (map (\<lambda>nr. JumpEq nr x y) nrs @ p) = map_option ((+) (length nrs)) (dist l p)"
  by (induction nrs; cases "dist l p"; auto)+

lemma all_near_jumps:
  "all_near p \<Longrightarrow> dist Deny p = Some k \<Longrightarrow> k + length nrs \<le> u8_max
     \<Longrightarrow> all_near (map (\<lambda>nr. JumpEq nr Deny Next) nrs @ p)"
  by (induction nrs) (auto simp: reaches_def)

lemma all_near_child: "all_near (child_pending a)"
proof -
  have t: "all_near (child_tail a)" "\<exists>k \<le> 5. dist Deny (child_tail a) = Some k"
    "\<exists>k \<le> 6. dist Kill (child_tail a) = Some k"
    by (cases "number a ''clone''";
        simp add: child_tail_def jump_if_def reaches_def u8_max_def)+
  then obtain k k' where k: "dist Deny (child_tail a) = Some k" "k \<le> 5"
    "dist Kill (child_tail a) = Some k'" "k' \<le> 6" by auto
  have "all_near (map (\<lambda>nr. JumpEq nr Deny Next)
      (List.map_filter (number a) STRICT_CHILD_REMOVED) @ child_tail a)"
    by (rule all_near_jumps [OF t(1) k(1)])
      (use k(2) child_removed_length [of "number a"] in \<open>simp add: u8_max_def\<close>)
  then show ?thesis
    using k child_removed_length [of "number a"]
    by (simp add: child_pending_tail reaches_def u8_max_def)
qed

lemma pending_exec_jumps:
  assumes "after_mark Deny p = Some r" and "\<And>x. pending_exec r d x = Some v"
  shows "pending_exec (map (\<lambda>nr. JumpEq nr Deny Next) nrs @ p) d a =
     (if a \<in> set nrs then Some v else pending_exec p d a)"
  using assms by (induction nrs) (auto simp: Let_def)

theorem pending_exec_child: "pending_exec (child_pending a) d x = Some (child_decide a d)"
proof -
  obtain r where r: "after_mark Deny (child_tail a) = Some r"
    "\<And>x. pending_exec r d x = Some (RET_ERRNO OR EPERM)"
    by (cases "number a ''clone''") (auto simp: child_tail_def jump_if_def)
  have kill: "(case after_mark Kill (child_tail a) of None \<Rightarrow> None | Some r \<Rightarrow> pending_exec r d y)
      = Some RET_KILL_PROCESS" for y
    by (cases "number a ''clone''") (auto simp: child_tail_def jump_if_def)
  have tail: "pending_exec (child_tail a) d (sd_nr d) =
     Some (if number a ''clone'' = Some (sd_nr d) \<and> arg_lo d 0 AND CLONE_THREAD = 0
           then RET_ERRNO OR EPERM else RET_ALLOW)"
    by (cases "number a ''clone''") (auto simp: child_tail_def jump_if_def Let_def)
  show ?thesis
    unfolding child_pending_tail child_decide_def
    using kill pending_exec_jumps [OF r] tail by (auto simp: Let_def)
qed

end
