(* ===== verification/Zygo_Policy.thy ===== *)
theory Zygo_Policy
  imports Zygo_Seccomp
begin

text \<open>
  What the generated filters decide on the two architectures with a syscall table: the
  profiles of \<open>seccomp.rs\<close>, its invariant lists, and the filter of a pool child.
\<close>

section \<open>Shared facts\<close>

lemma length_remdups_adj_le: "length (remdups_adj xs) \<le> length xs"
  by (induction xs rule: remdups_adj.induct) auto

lemma set_allowed_names [simp]:
  "set (allowed_names Permissive) = set BASE_ALLOWLIST \<union> set PERMISSIVE_EXTRA"
  "set (allowed_names Default) = set BASE_ALLOWLIST"
  "set (allowed_names Strict) = set BASE_ALLOWLIST - set STRICT_REMOVED"
  by (auto simp: allowed_names_def)

lemma length_allowed_names: "length (allowed_names p) \<le> 3700"
proof -
  have "length (BASE_ALLOWLIST @ PERMISSIVE_EXTRA) \<le> 3700" "length BASE_ALLOWLIST \<le> 3700"
    by (simp_all add: BASE_ALLOWLIST_def BASE_ALLOWLIST_1_def BASE_ALLOWLIST_2_def
        PERMISSIVE_EXTRA_def)
  moreover have "length (filter (\<lambda>n. n \<notin> set STRICT_REMOVED) BASE_ALLOWLIST) \<le> length BASE_ALLOWLIST"
    by (rule length_filter_le)
  moreover from calculation have "length (filter (\<lambda>n. n \<notin> set STRICT_REMOVED) BASE_ALLOWLIST) \<le> 3700"
    by linarith
  ultimately show ?thesis
    using length_remdups_adj_le [of "sort (BASE_ALLOWLIST @ PERMISSIVE_EXTRA)"]
      length_remdups_adj_le [of "sort BASE_ALLOWLIST"]
      length_remdups_adj_le [of "sort (filter (\<lambda>n. n \<notin> set STRICT_REMOVED) BASE_ALLOWLIST)"]
    by (cases p) (force simp: allowed_names_def Let_def)+
qed

lemma build_decides:
  assumes "is_supported a" and "length names \<le> 3700"
  shows "\<exists>prog. build a names = Inr prog \<and> length prog \<le> 4096
    \<and> (\<forall>d x. bpf_exec prog d x = Some (decide a names d))"
proof -
  obtain prog where prog: "assemble (build_pending a names) = Inr prog"
    "length prog = insn_count (build_pending a names)"
    using assemble_near [OF all_near_build] by blast
  have "(length names + 63) div 64 \<le> 58"
    using assms(2) div_le_mono [of "length names + 63" 3763 64] by simp
  then have "length prog \<le> 4096"
    using insn_count_build [of a names] assms(2) prog(2) by linarith
  then show ?thesis
    using assms(1) prog(1) assemble_correct [OF prog(1)] pending_exec_build
    by (simp add: build_def)
qed

lemma program_decides:
  assumes "known_arch a"
  shows "\<exists>prog. program a p = Inr prog \<and> length prog \<le> 4096
    \<and> (\<forall>d x. bpf_exec prog d x = Some (decide a (allowed_names p) d))"
  unfolding program_def
  by (rule build_decides) (use assms known_arch_supported length_allowed_names in auto)

lemma program_exec:
  "known_arch a \<Longrightarrow> program a p = Inr prog \<Longrightarrow> bpf_exec prog d x = Some (decide a (allowed_names p) d)"
  using program_decides [of a p] by auto

lemma ret_values [simp]:
  "RET_ERRNO OR EPERM = 0x50001" "RET_ERRNO OR ENOSYS = 0x50026"
  "RET_ALLOW = 0x7fff0000" "RET_KILL_PROCESS = 0x80000000"
  by (simp_all add: ret_defs)

lemma highest_known_bound:
  "number a name = Some nr \<Longrightarrow> known_arch a \<Longrightarrow> highest_known a = Some h \<Longrightarrow> nr \<le> h"
proof -
  assume n: "number a name = Some nr" and k: "known_arch a" and h: "highest_known a = Some h"
  then have "nr \<in> set (map snd (TABLE a))"
    by (force simp: number_in_table)
  moreover from h have "h = Max (set (map snd (TABLE a)))"
    by (cases "map snd (TABLE a)")
      (simp_all only: highest_known_def list.case option.inject Max.set_eq_fold option.distinct)
  ultimately show "nr \<le> h" by simp
qed

lemma in_map_filter: "y \<in> set (List.map_filter f xs) \<longleftrightarrow> (\<exists>x. x \<in> set xs \<and> f x = Some y)"
  by (induction xs) (auto split: option.splits)

lemma in_simple_numbers:
  assumes "known_arch a" and "number a name = Some nr"
  shows "nr \<in> set (simple_numbers a names) \<longleftrightarrow> name \<in> set names \<and> name \<noteq> ''clone'' \<and> name \<noteq> ''ioctl''"
proof -
  have "nr \<in> set (simple_numbers a names) \<longleftrightarrow>
      (\<exists>n. n \<in> set names \<and> n \<noteq> ''clone'' \<and> n \<noteq> ''ioctl'' \<and> number a n = Some nr)"
    by (simp only: simple_numbers_def in_map_filter set_filter mem_Collect_eq bex_simps)
      (simp add: conj_assoc)
  moreover have "number a n = Some nr \<longleftrightarrow> n = name" for n
    using assms(2) number_inj [OF assms(1), of n nr name] by auto
  ultimately show ?thesis by auto
qed

text \<open>The decision on a known name, on its own ABI.\<close>

lemma decide_named:
  assumes "known_arch a" and "number a name = Some (sd_nr d)" and "sd_arch d = AUDIT_ARCH a"
  shows "decide a names d =
    (if name = ''clone'' then
       (if arg_lo d 0 AND CLONE_NEW_MASK = 0 then RET_ALLOW else RET_ERRNO OR EPERM)
     else if name = ''clone3'' \<and> name \<notin> set names then RET_ERRNO OR ENOSYS
     else if name = ''ioctl'' \<and> name \<in> set names \<and> arg_lo d 1 \<in> snd ` set DENIED_IOCTLS
       then RET_ERRNO OR EPERM
     else if name \<in> set names then RET_ALLOW else RET_ERRNO OR EPERM)"
proof -
  have same: "number a m = Some (sd_nr d) \<longleftrightarrow> m = name" for m
    using assms number_inj [of a m "sd_nr d" name] by auto
  have high: "\<not> (\<exists>h. highest_known a = Some h \<and> h < sd_nr d)"
    using highest_known_bound [OF assms(2,1)] by auto
  show ?thesis
    using assms(3) high in_simple_numbers [OF assms(1,2)] same
    by (auto simp: decide_def Let_def clone3_nosys_def ioctl_nr_def simp del: ret_values)
qed

lemma highest_known_member:
  assumes "is_supported a"
  shows "\<exists>h. highest_known a = Some h \<and> h \<in> snd ` set (TABLE a)"
proof -
  obtain x xs where t: "map snd (TABLE a) = x # xs"
    using assms by (cases "map snd (TABLE a)") (auto simp: is_supported_def)
  then have "highest_known a = Some (Max (set (x # xs)))"
    by (simp only: highest_known_def list.case Max.set_eq_fold)
  moreover have "Max (set (x # xs)) \<in> set (x # xs)"
    by (rule Max_in) auto
  ultimately show ?thesis
    using t by (metis set_map)
qed

lemma decide_mono:
  assumes "known_arch a" and "set names \<subseteq> set wider" and "''ioctl'' \<in> set names"
    and "decide a names d = RET_ALLOW"
  shows "decide a wider d = RET_ALLOW"
proof -
  have "set (simple_numbers a names) \<subseteq> set (simple_numbers a wider)"
    using assms(2) by (fastforce simp: simple_numbers_def in_map_filter)
  moreover have "sd_nr d \<in> set (simple_numbers a names) \<longrightarrow> clone3_nosys a wider \<noteq> Some (sd_nr d)"
    using in_simple_numbers [OF assms(1)] assms(2) by (auto simp: clone3_nosys_def)
  moreover have "clone3_nosys a wider = Some (sd_nr d) \<longrightarrow> clone3_nosys a names = Some (sd_nr d)"
    using assms(2) by (auto simp: clone3_nosys_def)
  ultimately show ?thesis
    using assms(2-4)
    by (auto simp: decide_def Let_def ioctl_nr_def split: if_splits)
qed

lemma encode_insn_length [simp]: "length (encode_insn i) = 8"
  by (simp add: encode_insn_def u16_le_def u32_le_def)

lemma encode_prog_length: "length (encode_prog prog) = 8 * length prog"
  by (induction prog) (simp_all add: encode_prog_def)

lemma byte_bits:
  fixes a b :: "'a::len word"
  assumes "(ucast (drop_bit k a) :: byte) = ucast (drop_bit k b)" and "k \<le> n" and "n < k + 8"
  shows "bit a n = bit b n"
proof -
  have "bit (ucast (drop_bit k a) :: byte) (n - k) = bit (ucast (drop_bit k b) :: byte) (n - k)"
    using assms(1) by simp
  moreover have "n - k < 8" "k + (n - k) = n"
    using assms(2,3) by linarith+
  ultimately show ?thesis
    using bit_imp_le_length by (auto simp: bit_unsigned_iff bit_drop_bit_eq)
qed

lemma le_inj [simp]: "u16_le a = u16_le b \<longleftrightarrow> a = b" "u32_le c = u32_le d \<longleftrightarrow> c = d"
proof -
  show "u16_le a = u16_le b \<longleftrightarrow> a = b"
  proof
    assume e: "u16_le a = u16_le b"
    have "bit a n = bit b n" if "n < 16" for n
      using that e byte_bits [of 0 a b n] byte_bits [of 8 a b n]
      by (cases "n < 8") (auto simp: u16_le_def)
    then show "a = b"
      by (auto intro: bit_word_eqI)
  qed simp
  show "u32_le c = u32_le d \<longleftrightarrow> c = d"
  proof
    assume e: "u32_le c = u32_le d"
    have "bit c n = bit d n" if "n < 32" for n
      using that e byte_bits [of 0 c d n] byte_bits [of 8 c d n] byte_bits [of 16 c d n]
        byte_bits [of 24 c d n]
      by (cases "n < 8"; cases "n < 16"; cases "n < 24") (auto simp: u32_le_def)
    then show "c = d"
      by (auto intro: bit_word_eqI)
  qed simp
qed

lemma encode_insn_inj [simp]: "encode_insn i = encode_insn j \<longleftrightarrow> i = j"
  by (cases i; cases j) (auto simp: encode_insn_def append_eq_append_conv)

lemma encode_prog_inj: "encode_prog prog = encode_prog prog' \<longleftrightarrow> prog = prog'"
proof (induction prog arbitrary: prog')
  case Nil
  show ?case by (cases prog') (auto simp: encode_prog_def encode_insn_def u16_le_def)
next
  case (Cons i prog)
  show ?case
  proof (cases prog')
    case Nil
    then show ?thesis by (simp add: encode_prog_def encode_insn_def u16_le_def)
  next
    case (Cons j rest)
    have "encode_prog (i # prog) = encode_prog (j # rest)
        \<longleftrightarrow> encode_insn i = encode_insn j \<and> encode_prog prog = encode_prog rest"
      by (simp add: encode_prog_def append_eq_append_conv)
    then show ?thesis
      using Cons.IH Cons by simp
  qed
qed

lemma program_named:
  assumes "known_arch a" and "program a p = Inr prog"
    and "number a name = Some (sd_nr d)" and "sd_arch d = AUDIT_ARCH a"
    and "name \<noteq> ''clone''" and "name \<noteq> ''ioctl''" and "name \<noteq> ''clone3''"
  shows "bpf_exec prog d x =
     Some (if name \<in> set (allowed_names p) then RET_ALLOW else RET_ERRNO OR EPERM)"
  using program_exec [OF assms(1,2)] decide_named [OF assms(1,3,4)] assms(5-7) by simp

text \<open>None of the refused names is on the base allowlist: one pass over two sorted lists.\<close>

fun disjoint_sorted :: "string list \<Rightarrow> string list \<Rightarrow> bool" where
  "disjoint_sorted [] ys \<longleftrightarrow> True"
| "disjoint_sorted xs [] \<longleftrightarrow> True"
| "disjoint_sorted (x # xs) (y # ys) \<longleftrightarrow>
     (if x < y then disjoint_sorted xs (y # ys)
      else if y < x then disjoint_sorted (x # xs) ys else False)"

lemma disjoint_sorted_sound:
  "disjoint_sorted xs ys \<Longrightarrow> sorted xs \<Longrightarrow> sorted ys \<Longrightarrow> set xs \<inter> set ys = {}"
proof (induction xs ys rule: disjoint_sorted.induct)
  case (3 x xs y ys)
  then show ?case
    by (cases x y rule: linorder_cases) (auto split: if_splits)
qed auto

lemma refused_not_base: "set BASE_ALLOWLIST \<inter> set (NEVER_ALLOWED @ NEWER_REFUSED) = {}"
proof -
  have "ascending BASE_ALLOWLIST" by code_simp
  then have "sorted BASE_ALLOWLIST"
    using ascending_sorted strict_sorted_imp_sorted by blast
  moreover have "disjoint_sorted BASE_ALLOWLIST (sort (NEVER_ALLOWED @ NEWER_REFUSED))"
    by code_simp
  ultimately show ?thesis
    using disjoint_sorted_sound [of BASE_ALLOWLIST "sort (NEVER_ALLOWED @ NEWER_REFUSED)"] by simp
qed

lemma forbidden_not_allowed:
  assumes "name \<in> set NEVER_ALLOWED \<union> set NEWER_REFUSED" and "p \<noteq> Permissive"
  shows "name \<notin> set (allowed_names p) \<and> name \<noteq> ''clone'' \<and> name \<noteq> ''ioctl'' \<and> name \<noteq> ''clone3''"
proof -
  note refused_not_base
  moreover have "''clone'' \<notin> set (NEVER_ALLOWED @ NEWER_REFUSED)"
    "''ioctl'' \<notin> set (NEVER_ALLOWED @ NEWER_REFUSED)"
    "''clone3'' \<notin> set (NEVER_ALLOWED @ NEWER_REFUSED)"
    by (simp_all add: NEVER_ALLOWED_def NEWER_REFUSED_def)
  ultimately have "name \<notin> set BASE_ALLOWLIST \<and> name \<noteq> ''clone'' \<and> name \<noteq> ''ioctl'' \<and> name \<noteq> ''clone3''"
    using assms(1) by auto
  then show ?thesis
    using assms(2) by (cases p) auto
qed

lemma ioctl_allowed: "''ioctl'' \<in> set (allowed_names p)"
proof -
  have "''ioctl'' \<in> set BASE_ALLOWLIST" "''ioctl'' \<notin> set STRICT_REMOVED"
    by (simp_all add: BASE_ALLOWLIST_def BASE_ALLOWLIST_1_def STRICT_REMOVED_def)
  then show ?thesis by (cases p) auto
qed

text \<open>Only \<open>permissive\<close> names \<open>clone3\<close>; what no table names and what another architecture asks for.\<close>

lemma clone3_allowed: "''clone3'' \<in> set (allowed_names p) \<longleftrightarrow> p = Permissive"
proof -
  have "''clone3'' \<in> set PERMISSIVE_EXTRA"
    by (simp add: PERMISSIVE_EXTRA_def)
  moreover have "''clone3'' \<notin> set BASE_ALLOWLIST"
    by code_simp
  ultimately show ?thesis by (cases p) auto
qed

lemma decide_unlisted:
  assumes "sd_arch d = AUDIT_ARCH a" and "\<forall>name. number a name \<noteq> Some (sd_nr d)"
  shows "decide a names d \<in> {RET_ERRNO OR EPERM, RET_ERRNO OR ENOSYS}"
proof -
  have "sd_nr d \<notin> set (simple_numbers a names)"
    using assms(2) by (auto simp: simple_numbers_def in_map_filter)
  then show ?thesis
    using assms by (auto simp: decide_def Let_def clone3_nosys_def ioctl_nr_def simp del: ret_values)
qed

lemma decide_foreign: "sd_arch d \<noteq> AUDIT_ARCH a \<Longrightarrow> decide a names d = RET_KILL_PROCESS"
  by (simp add: decide_def del: ret_values)

lemma x86_64_known: "known_arch x86_64" and aarch64_known: "known_arch aarch64"
  by (simp_all add: known_arch_def)

lemma x86_64_numbers:
  "number x86_64 ''ptrace'' = Some 101" "number x86_64 ''clone'' = Some 56"
  "number x86_64 ''ioctl'' = Some 16" "number x86_64 ''bpf'' = Some 321"
  "number x86_64 ''execve'' = Some 59" "number x86_64 ''socket'' = Some 41"
  by (rule iffD2 [OF number_in_table [OF x86_64_known]];
      simp add: x86_64_def X86_64_TABLE_def X86_64_TABLE_1_def X86_64_TABLE_2_def
        X86_64_TABLE_3_def)+

lemma AUDIT_ARCH_x86_64: "AUDIT_ARCH x86_64 = 0xC000003E"
  by (simp add: x86_64_def)

section \<open>Properties\<close>

text \<open>
  C1. The filter generator implements its stated policy: for every supported architecture
  and any allowlist of up to 3700 names, \<open>build\<close> succeeds within the kernel's 4096
  instructions, and the assembled program, run on any system call, returns exactly what
  \<open>decide\<close> says (so every branch distance, island and argument check is right).
\<close>

theorem build_implements_policy:
  assumes "is_supported a" and "length names \<le> 3700"
  shows "\<exists>prog. build a names = Inr prog \<and> length prog \<le> 4096
    \<and> (\<forall>d x. bpf_exec prog d x = Some (decide a names d))"
  using assms by (rule build_decides)

theorem build_implements_policy_witness:
  "\<exists>prog. build x86_64 [''read'', ''ioctl''] = Inr prog \<and> length prog \<le> 4096
    \<and> (\<forall>d x. bpf_exec prog d x = Some (decide x86_64 [''read'', ''ioctl''] d))"
  by (rule build_implements_policy) (simp_all add: known_arch_supported x86_64_known)

text \<open>
  C7. Each profile allows exactly its list, with the argument checks: on a known architecture
  every profile's program is built, and for every system call and all arguments \<open>clone\<close> is
  allowed exactly without a namespace flag, \<open>clone3\<close> answers \<open>ENOSYS\<close> outside \<open>permissive\<close>, \<open>ioctl\<close>
  is allowed but for \<open>TIOCSTI\<close> and \<open>TIOCLINUX\<close>, and any other call of the table is allowed
  when the profile names it and refused with \<open>EPERM\<close> when it does not. A number the table does not
  have is refused, and a call made under another architecture kills the process.
\<close>

theorem profile_exact:
  assumes "known_arch a"
  shows "\<exists>prog. program a p = Inr prog \<and> (\<forall>d x.
      (sd_arch d \<noteq> AUDIT_ARCH a \<longrightarrow> bpf_exec prog d x = Some RET_KILL_PROCESS)
    \<and> (\<forall>name. sd_arch d = AUDIT_ARCH a \<and> number a name = Some (sd_nr d) \<longrightarrow>
         bpf_exec prog d x = Some
          (if name = ''clone'' then
             (if ucast (sd_arg0 d) AND (0x7E020000 :: u32) = 0 then RET_ALLOW else RET_ERRNO OR EPERM)
           else if name = ''clone3'' \<and> p \<noteq> Permissive then RET_ERRNO OR ENOSYS
           else if name = ''ioctl'' \<and> ucast (sd_arg1 d) \<in> {0x5412, 0x541C :: u32} then RET_ERRNO OR EPERM
           else if name \<in> set (allowed_names p) then RET_ALLOW else RET_ERRNO OR EPERM))
    \<and> (sd_arch d = AUDIT_ARCH a \<and> (\<forall>name. number a name \<noteq> Some (sd_nr d)) \<longrightarrow>
         bpf_exec prog d x \<in> {Some (RET_ERRNO OR EPERM), Some (RET_ERRNO OR ENOSYS)}))"
proof -
  obtain prog where p: "program a p = Inr prog"
    using program_decides [OF assms] by blast
  note exec = program_exec [OF assms p]
  have m: "CLONE_NEW_MASK = 0x7E020000" by (simp add: CLONE_NEW_MASK_def)
  have "decide a (allowed_names p) d \<in> {RET_ERRNO OR EPERM, RET_ERRNO OR ENOSYS}"
    if "sd_arch d = AUDIT_ARCH a" "\<forall>name. number a name \<noteq> Some (sd_nr d)" for d
    using that decide_unlisted [of d a "allowed_names p"] by blast
  then show ?thesis
    using decide_named [OF assms, of _ _ "allowed_names p"] clone3_allowed [of p] ioctl_allowed [of p]
    by (intro exI [of _ prog] conjI allI impI p)
      (auto simp: exec arg_lo_def DENIED_IOCTLS_def m decide_foreign simp del: ret_values set_allowed_names)
qed

theorem profile_exact_witness:
  "\<exists>prog. program x86_64 Strict = Inr prog
    \<and> bpf_exec prog \<lparr>sd_nr = 41, sd_arch = AUDIT_ARCH x86_64, sd_arg0 = 2, sd_arg1 = 1\<rparr> 0
        = Some (RET_ERRNO OR EPERM)
    \<and> bpf_exec prog \<lparr>sd_nr = 56, sd_arch = AUDIT_ARCH x86_64, sd_arg0 = 0x10000000, sd_arg1 = 0\<rparr> 0
        = Some (RET_ERRNO OR EPERM)"
proof -
  have "''socket'' \<notin> set (allowed_names Strict)"
    by (simp add: STRICT_REMOVED_def)
  moreover obtain prog where p: "program x86_64 Strict = Inr prog"
    and e: "\<And>d x name. sd_arch d = AUDIT_ARCH x86_64 \<Longrightarrow> number x86_64 name = Some (sd_nr d) \<Longrightarrow>
         bpf_exec prog d x = Some
          (if name = ''clone'' then
             (if ucast (sd_arg0 d) AND (0x7E020000 :: u32) = 0 then RET_ALLOW else RET_ERRNO OR EPERM)
           else if name = ''clone3'' \<and> Strict \<noteq> Permissive then RET_ERRNO OR ENOSYS
           else if name = ''ioctl'' \<and> ucast (sd_arg1 d) \<in> {0x5412, 0x541C :: u32} then RET_ERRNO OR EPERM
           else if name \<in> set (allowed_names Strict) then RET_ALLOW else RET_ERRNO OR EPERM)"
    using profile_exact [OF x86_64_known, of Strict] by blast
  ultimately show ?thesis
    using e [of "\<lparr>sd_nr = 41, sd_arch = AUDIT_ARCH x86_64, sd_arg0 = 2, sd_arg1 = 1\<rparr>" "''socket''" 0]
      e [of "\<lparr>sd_nr = 56, sd_arch = AUDIT_ARCH x86_64, sd_arg0 = 0x10000000, sd_arg1 = 0\<rparr>" "''clone''" 0]
    by (intro exI [of _ prog]) (simp add: x86_64_numbers)
qed

text \<open>
  No profile but \<open>permissive\<close> lets a forbidden call through: for every name of
  \<open>NEVER_ALLOWED\<close> and \<open>NEWER_REFUSED\<close> that the architecture has, the built program of the
  default and strict profiles answers \<open>EPERM\<close>, whatever the arguments.
\<close>

theorem forbidden_calls_refused:
  assumes "known_arch a" and "p \<noteq> Permissive"
    and "name \<in> set NEVER_ALLOWED \<union> set NEWER_REFUSED" and "number a name = Some (sd_nr d)"
    and "sd_arch d = AUDIT_ARCH a"
  shows "\<exists>prog. program a p = Inr prog \<and> bpf_exec prog d x = Some (RET_ERRNO OR EPERM)"
  using program_decides [OF assms(1), of p] program_named [OF assms(1) _ assms(4,5)]
    forbidden_not_allowed [OF assms(3,2)] by fastforce

theorem forbidden_calls_refused_witness:
  "\<exists>prog. program x86_64 Default = Inr prog
    \<and> bpf_exec prog \<lparr>sd_nr = 321, sd_arch = 0xC000003E, sd_arg0 = 0, sd_arg1 = 0\<rparr> 0
        = Some (RET_ERRNO OR EPERM)"
  by (rule forbidden_calls_refused [where name = "''bpf''"])
    (simp_all add: x86_64_known x86_64_numbers AUDIT_ARCH_x86_64 NEVER_ALLOWED_def)

text \<open>
  The two argument checks hold on every profile, \<open>permissive\<close> included: \<open>clone\<close> is
  allowed exactly when it asks for no namespace, and \<open>ioctl\<close> exactly when its request is
  neither \<open>TIOCSTI\<close> nor \<open>TIOCLINUX\<close>.
\<close>

theorem clone_and_ioctl_checked:
  assumes "known_arch a" and "sd_arch d = AUDIT_ARCH a"
  shows "\<exists>prog. program a p = Inr prog
    \<and> (number a ''clone'' = Some (sd_nr d) \<longrightarrow>
         bpf_exec prog d x = Some (if ucast (sd_arg0 d) AND CLONE_NEW_MASK = 0
           then RET_ALLOW else RET_ERRNO OR EPERM))
    \<and> (number a ''ioctl'' = Some (sd_nr d) \<longrightarrow>
         bpf_exec prog d x = Some (if ucast (sd_arg1 d) \<in> {0x5412, 0x541C :: u32}
           then RET_ERRNO OR EPERM else RET_ALLOW))"
proof -
  obtain prog where p: "program a p = Inr prog"
    using program_decides [OF assms(1)] by blast
  show ?thesis
    using p program_exec [OF assms(1) p] decide_named [OF assms(1) _ assms(2)] ioctl_allowed [of p]
    by (auto simp: arg_lo_def DENIED_IOCTLS_def simp del: set_allowed_names)
qed

theorem clone_and_ioctl_checked_witness:
  "\<exists>prog. program x86_64 Permissive = Inr prog
    \<and> bpf_exec prog \<lparr>sd_nr = 16, sd_arch = 0xC000003E, sd_arg0 = 0, sd_arg1 = 0x5412\<rparr> 0
        = Some (RET_ERRNO OR EPERM)"
  using clone_and_ioctl_checked [OF x86_64_known, of
      "\<lparr>sd_nr = 16, sd_arch = 0xC000003E, sd_arg0 = 0, sd_arg1 = 0x5412\<rparr>" Permissive 0]
  by (auto simp: x86_64_numbers AUDIT_ARCH_x86_64)

text \<open>
  A number the table cannot know and a foreign ABI: on every profile a system call
  number above every entry of the table is answered \<open>ENOSYS\<close> (so a libc falls back), and a
  call made under another architecture kills the process.
\<close>

theorem unknown_and_foreign:
  assumes "known_arch a"
  shows "\<exists>prog. program a p = Inr prog
    \<and> (sd_arch d \<noteq> AUDIT_ARCH a \<longrightarrow> bpf_exec prog d x = Some RET_KILL_PROCESS)
    \<and> (sd_arch d = AUDIT_ARCH a \<and> (\<forall>nr \<in> snd ` set (TABLE a). nr < sd_nr d) \<longrightarrow>
         bpf_exec prog d x = Some (RET_ERRNO OR ENOSYS))"
proof -
  obtain prog where p: "program a p = Inr prog"
    using program_decides [OF assms] by blast
  have "decide a (allowed_names p) d = RET_ERRNO OR ENOSYS"
    if "sd_arch d = AUDIT_ARCH a" "\<forall>nr \<in> snd ` set (TABLE a). nr < sd_nr d"
  proof -
    have none: "number a n \<noteq> Some (sd_nr d)" for n
      using that(2) number_in_table [OF assms, of n "sd_nr d"] by force
    obtain h where h: "highest_known a = Some h" "h \<in> snd ` set (TABLE a)"
      using assms known_arch_supported [OF assms] highest_known_member by blast
    have "sd_nr d \<notin> set (simple_numbers a (allowed_names p))"
      using none by (auto simp: simple_numbers_def in_map_filter)
    then show ?thesis
      using that none h by (auto simp: decide_def clone3_nosys_def ioctl_nr_def simp del: ret_values)
  qed
  then show ?thesis
    using p program_exec [OF assms p] by (auto simp: decide_def Let_def simp del: ret_values)
qed

theorem unknown_and_foreign_witness:
  "\<exists>prog. program x86_64 Default = Inr prog
    \<and> bpf_exec prog \<lparr>sd_nr = 1, sd_arch = 0x40000003, sd_arg0 = 0, sd_arg1 = 0\<rparr> 0
        = Some RET_KILL_PROCESS"
  using unknown_and_foreign [OF x86_64_known, of Default
      "\<lparr>sd_nr = 1, sd_arch = 0x40000003, sd_arg0 = 0, sd_arg1 = 0\<rparr>" 0]
  by (auto simp: AUDIT_ARCH_x86_64)

text \<open>
  The second filter of a strict pool child: it exists only for \<open>strict\<close>, always
  assembles, and refuses the exec and fork calls and any \<open>clone\<close> that is not a thread,
  while leaving every other call to the first filter.
\<close>

theorem child_filter_refuses_processes:
  assumes "known_arch a" and "sd_arch d = AUDIT_ARCH a"
  shows "child_program a Default = Inr None \<and> child_program a Permissive = Inr None
    \<and> (\<exists>prog. child_program a Strict = Inr (Some prog)
        \<and> bpf_exec prog d x = Some
            (if \<exists>n \<in> {''execve'', ''execveat'', ''fork'', ''vfork''}. number a n = Some (sd_nr d)
             then RET_ERRNO OR EPERM
             else if number a ''clone'' = Some (sd_nr d) \<and> ucast (sd_arg0 d) AND CLONE_THREAD = 0
             then RET_ERRNO OR EPERM else RET_ALLOW))"
proof -
  obtain prog where p: "assemble (child_pending a) = Inr prog"
    using assemble_near [OF all_near_child] by blast
  have "bpf_exec prog d x = Some (child_decide a d)"
    using assemble_correct [OF p] pending_exec_child by simp
  moreover have "sd_nr d \<in> set (List.map_filter (number a) STRICT_CHILD_REMOVED) \<longleftrightarrow>
      (\<exists>n \<in> {''execve'', ''execveat'', ''fork'', ''vfork''}. number a n = Some (sd_nr d))"
    by (simp only: in_map_filter STRICT_CHILD_REMOVED_def list.set Bex_def)
  ultimately show ?thesis
    using p assms known_arch_supported [OF assms(1)]
    by (simp add: child_program_def child_decide_def arg_lo_def result_simps del: ret_values)
qed

theorem child_filter_refuses_processes_witness:
  "\<exists>prog. child_program x86_64 Strict = Inr (Some prog)
    \<and> bpf_exec prog \<lparr>sd_nr = 59, sd_arch = 0xC000003E, sd_arg0 = 0, sd_arg1 = 0\<rparr> 0
        = Some (RET_ERRNO OR EPERM)"
  using child_filter_refuses_processes [OF x86_64_known, of
      "\<lparr>sd_nr = 59, sd_arch = 0xC000003E, sd_arg0 = 0, sd_arg1 = 0\<rparr>" 0]
  by (auto simp: x86_64_numbers AUDIT_ARCH_x86_64)

text \<open>
  The profiles are ordered: whatever system call the strict program allows, the default
  program allows, and whatever the default program allows, the permissive one allows.
\<close>

theorem profiles_ordered:
  assumes "known_arch a" and "program a Strict = Inr s" and "program a Default = Inr m"
    and "program a Permissive = Inr p"
  shows "(bpf_exec s d x = Some RET_ALLOW \<longrightarrow> bpf_exec m d x = Some RET_ALLOW)
    \<and> (bpf_exec m d x = Some RET_ALLOW \<longrightarrow> bpf_exec p d x = Some RET_ALLOW)"
proof -
  have "decide a (allowed_names Strict) d = RET_ALLOW \<Longrightarrow> decide a (allowed_names Default) d = RET_ALLOW"
    "decide a (allowed_names Default) d = RET_ALLOW \<Longrightarrow> decide a (allowed_names Permissive) d = RET_ALLOW"
    by (rule decide_mono [OF assms(1) _ ioctl_allowed]; auto)+
  then show ?thesis
    using program_exec [OF assms(1,2)] program_exec [OF assms(1,3)] program_exec [OF assms(1,4)]
    by simp
qed

theorem profiles_ordered_witness:
  "\<exists>m p. program x86_64 Default = Inr m \<and> program x86_64 Permissive = Inr p
    \<and> bpf_exec m \<lparr>sd_nr = 59, sd_arch = 0xC000003E, sd_arg0 = 0, sd_arg1 = 0\<rparr> 0 = Some RET_ALLOW
    \<and> bpf_exec p \<lparr>sd_nr = 59, sd_arch = 0xC000003E, sd_arg0 = 0, sd_arg1 = 0\<rparr> 0 = Some RET_ALLOW"
proof -
  let ?d = "\<lparr>sd_nr = 59, sd_arch = 0xC000003E, sd_arg0 = 0, sd_arg1 = 0\<rparr>"
  obtain s m p where b: "program x86_64 Strict = Inr s" "program x86_64 Default = Inr m"
    "program x86_64 Permissive = Inr p"
    using program_decides [OF x86_64_known] by metis
  have "''execve'' \<in> set (allowed_names Strict)"
    by (simp add: BASE_ALLOWLIST_def BASE_ALLOWLIST_1_def STRICT_REMOVED_def)
  then have "bpf_exec s ?d 0 = Some RET_ALLOW"
    using program_named [OF x86_64_known b(1), of "''execve''" ?d 0]
    by (simp add: x86_64_numbers AUDIT_ARCH_x86_64)
  then show ?thesis
    using b profiles_ordered [OF x86_64_known b, of ?d 0] by blast
qed

text \<open>
  The encoded program is the kernel's array: eight bytes an instruction, and the bytes
  determine the instructions.
\<close>

theorem encode_prog_faithful:
  "length (encode_prog prog) = 8 * length prog \<and> (encode_prog prog = encode_prog prog' \<longleftrightarrow> prog = prog')"
  using encode_prog_length encode_prog_inj by blast

end
