(* ===== verification/Zygo_Net.thy ===== *)
theory Zygo_Net
  imports Zygo_Types "HOL-Library.Option_ord" "HOL-Library.Product_Lexorder"
begin

text \<open>
  Sandbox networking (\<open>crates/zygo-core/src/net/mod.rs\<close>): the resolver file, the private
  blocks, the addresses known before the sandbox starts, the nftables ruleset, and the
  bookkeeping of the addresses a query admitted. The chain is first a list of rules and then
  its text; what a list of rules decides for a packet is nftables' documented first-match
  reading, \<open>chain_verdict\<close>. The host's resolver and the \<open>nft\<close> program are parameters.
\<close>

section \<open>Address order\<close>

text \<open>\<open>Ord for IpAddr\<close>: IPv4 before IPv6, each by value.\<close>

instantiation ip_addr :: linorder
begin

fun less_eq_ip_addr :: "ip_addr \<Rightarrow> ip_addr \<Rightarrow> bool" where
  "V4 a \<le> V4 b \<longleftrightarrow> a \<le> b"
| "V4 a \<le> V6 b \<longleftrightarrow> True"
| "V6 a \<le> V4 b \<longleftrightarrow> False"
| "V6 a \<le> V6 b \<longleftrightarrow> a \<le> b"

definition less_ip_addr :: "ip_addr \<Rightarrow> ip_addr \<Rightarrow> bool" where
  "less_ip_addr a b \<longleftrightarrow> a \<le> b \<and> \<not> b \<le> a"

instance
proof
  fix x y z :: ip_addr
  show "x < y \<longleftrightarrow> x \<le> y \<and> \<not> y \<le> x" by (rule less_ip_addr_def)
  show "x \<le> x" by (cases x) auto
  show "x \<le> y \<Longrightarrow> y \<le> z \<Longrightarrow> x \<le> z" by (cases x; cases y; cases z) auto
  show "x \<le> y \<Longrightarrow> y \<le> x \<Longrightarrow> x = y" by (cases x; cases y) auto
  show "x \<le> y \<or> y \<le> x" by (cases x; cases y) auto
qed

end

text \<open>\<open>sort\<close> followed by \<open>dedup\<close>.\<close>

lemma sorted_dedup: "sorted xs \<Longrightarrow> sorted_wrt (<) (remdups_adj xs)"
  by (induction xs rule: remdups_adj.induct) (auto simp: less_le)

section \<open>The resolver file\<close>

definition DNS_ADDR :: string where "DNS_ADDR = ''169.254.1.1''"
definition PROXY_ADDR :: string where "PROXY_ADDR = ''127.0.0.53''"
definition ADMIT_TIMEOUT_SECS :: nat where "ADMIT_TIMEOUT_SECS = 600"
definition ADMIT_REFRESH_SECS :: nat where "ADMIT_REFRESH_SECS = 120"

definition newline :: string where "newline = [CHR 0x0A]"

definition resolv_conf :: "network \<Rightarrow> string" where
  "resolv_conf network =
     (let (server, note) = (case network of
        Egress \<Rightarrow> (PROXY_ADDR, ''Zygo'' @ [CHR 0x27] @ ''s own resolver: only names on the allowlist resolve.'')
      | _ \<Rightarrow> (DNS_ADDR, ''Queries are forwarded to the host'' @ [CHR 0x27] @ ''s resolver.''))
      in ''# Written by Zygo. '' @ note @ newline @ ''nameserver '' @ server @ newline)"

definition needs_configuration :: "network \<Rightarrow> bool" where
  "needs_configuration network \<longleftrightarrow> network = Egress \<or> network = Full"

section \<open>Private blocks\<close>

definition PRIVATE_V4 :: "string list" where
  "PRIVATE_V4 = [''10.0.0.0/8'', ''172.16.0.0/12'', ''192.168.0.0/16'', ''169.254.0.0/16'',
     ''127.0.0.0/8'', ''100.64.0.0/10'', ''0.0.0.0/8'', ''224.0.0.0/4'', ''240.0.0.0/4'']"

definition PRIVATE_V6 :: "string list" where
  "PRIVATE_V6 = [''::1/128'', ''::/128'', ''fc00::/7'', ''fe80::/10'', ''ff00::/8'']"

definition expect_cidr :: "string \<Rightarrow> cidr" where
  "expect_cidr s = projr (cidr_from_str s)"

definition private_blocks :: "cidr list" where
  "private_blocks = map expect_cidr (PRIVATE_V4 @ PRIVATE_V6)"

definition named_private :: "allow_rule \<Rightarrow> cidr option" where
  "named_private rule =
     (case (case ar_host rule of
              CidrHost c \<Rightarrow> Some c
            | Exact host \<Rightarrow>
                map_option (\<lambda>addr. \<lparr>cidr_addr = addr, cidr_prefix = (if is_ipv4 addr then 32 else 128)\<rparr>)
                  (parse_ip host)
            | Wildcard _ \<Rightarrow> None) of
        None \<Rightarrow> None
      | Some cidr \<Rightarrow>
          if \<exists>block \<in> set private_blocks.
               cidr_prefix block \<le> cidr_prefix cidr \<and> cidr_contains block (cidr_addr cidr)
          then Some cidr else None)"

section \<open>The addresses known before the sandbox starts\<close>

record allowed =
  al_entries :: "(ip_addr \<times> nat option) list"
  al_unresolved :: "string list"

definition allow_step ::
  "(string \<Rightarrow> ip_addr list) \<Rightarrow> allowed \<Rightarrow> allow_rule \<Rightarrow> allowed" where
  "allow_step resolve_on_host al rule =
     (if named_private rule \<noteq> None then al
      else case ar_host rule of
        CidrHost c \<Rightarrow> al\<lparr>al_entries := al_entries al @ [(cidr_addr c, ar_port rule)]\<rparr>
      | Exact name \<Rightarrow>
          (let addrs = resolve_on_host name;
               al1 = (if addrs = [] then al\<lparr>al_unresolved := al_unresolved al @ [name]\<rparr> else al)
           in al1\<lparr>al_entries := al_entries al1
                @ map (\<lambda>ip. (ip, ar_port rule)) (filter (\<lambda>ip. \<not> is_private_addr ip) addrs)\<rparr>)
      | Wildcard _ \<Rightarrow> al)"

definition resolve_allow :: "(string \<Rightarrow> ip_addr list) \<Rightarrow> allow_rule list \<Rightarrow> allowed" where
  "resolve_allow resolve_on_host rules =
     (let al = foldl (allow_step resolve_on_host) \<lparr>al_entries = [], al_unresolved = []\<rparr> rules
      in al\<lparr>al_entries := remdups_adj (sort (al_entries al))\<rparr>)"

section \<open>The ruleset\<close>

definition accept_line :: "string \<Rightarrow> nat option \<Rightarrow> string" where
  "accept_line cidr port =
     (let family = (if CHR '':'' \<in> set cidr then ''ip6'' else ''ip'')
      in case port of
           Some p \<Rightarrow> ''    '' @ family @ '' daddr '' @ cidr @ '' tcp dport '' @ show_nat p @ '' accept'' @ newline
         | None \<Rightarrow> ''    '' @ family @ '' daddr '' @ cidr @ '' accept'' @ newline)"

definition cidr_of :: "allow_rule \<Rightarrow> cidr option" where
  "cidr_of rule = (case ar_host rule of CidrHost c \<Rightarrow> Some c | _ \<Rightarrow> None)"

definition set_name :: "ip_addr \<Rightarrow> nat option \<Rightarrow> string" where
  "set_name ip port =
     (if is_ipv4 ip then (if port \<noteq> None then ''allow4'' else ''allow4any'')
      else (if port \<noteq> None then ''allow6'' else ''allow6any''))"

definition element :: "ip_addr \<Rightarrow> nat option \<Rightarrow> string" where
  "element ip port =
     (case port of Some p \<Rightarrow> show_ip ip @ '' . '' @ show_nat p | None \<Rightarrow> show_ip ip)"

datatype chain_rule =
    AcceptLoopback
  | AcceptEstablished
  | CountLimit bool nat
  | AcceptDns bool
  | AcceptCidr cidr "nat option"
  | RejectPrivate bool
  | AcceptAll
  | AcceptSet string
  | RejectRest

definition chain_rules ::
  "network \<Rightarrow> allow_rule list \<Rightarrow> bool \<Rightarrow> nat \<Rightarrow> chain_rule list" where
  "chain_rules network rules allow_private connections =
     [AcceptLoopback, AcceptEstablished, CountLimit True connections, CountLimit False connections]
     @ (if network \<noteq> Egress then [AcceptDns False, AcceptDns True] else [])
     @ (if allow_private \<and> network = Egress
        then List.map_filter (\<lambda>rule. map_option (\<lambda>c. AcceptCidr c (ar_port rule)) (named_private rule)) rules
        else [])
     @ [RejectPrivate True, RejectPrivate False]
     @ (case network of
          Full \<Rightarrow> [AcceptAll]
        | _ \<Rightarrow> List.map_filter (\<lambda>rule. case cidr_of rule of
                   None \<Rightarrow> None
                 | Some c \<Rightarrow> if named_private rule = None then Some (AcceptCidr c (ar_port rule)) else None) rules
               @ [AcceptSet ''allow4'', AcceptSet ''allow4any'', AcceptSet ''allow6'', AcceptSet ''allow6any''])
     @ [RejectRest]"

fun show_chain_rule :: "chain_rule \<Rightarrow> string" where
  "show_chain_rule AcceptLoopback = ''    oifname '' @ [CHR 0x22] @ ''lo'' @ [CHR 0x22] @ '' accept'' @ newline"
| "show_chain_rule AcceptEstablished = ''    ct state established,related accept'' @ newline"
| "show_chain_rule (CountLimit v4 n) =
     (if v4 then ''    meta nfproto ipv4 meta l4proto tcp ct state new add @conn4 { ip saddr ct count over ''
      else ''    meta nfproto ipv6 meta l4proto tcp ct state new add @conn6 { ip6 saddr ct count over '')
     @ show_nat n @ '' } reject with tcp reset'' @ newline"
| "show_chain_rule (AcceptDns tcp) =
     ''    ip daddr '' @ DNS_ADDR @ (if tcp then '' tcp'' else '' udp'') @ '' dport 53 accept'' @ newline"
| "show_chain_rule (AcceptCidr c port) = accept_line (show_cidr c) port"
| "show_chain_rule (RejectPrivate v4) =
     (if v4 then ''    ip daddr { '' @ join '', '' PRIVATE_V4 @ '' } reject with icmp type admin-prohibited''
      else ''    ip6 daddr { '' @ join '', '' PRIVATE_V6 @ '' } reject with icmpv6 type admin-prohibited'')
     @ newline"
| "show_chain_rule AcceptAll = ''    accept'' @ newline"
| "show_chain_rule (AcceptSet name) =
     (if name = ''allow4'' then ''    ip daddr . tcp dport @allow4 accept''
      else if name = ''allow4any'' then ''    ip daddr @allow4any accept''
      else if name = ''allow6'' then ''    ip6 daddr . tcp dport @allow6 accept''
      else ''    ip6 daddr @allow6any accept'') @ newline"
| "show_chain_rule RejectRest = ''    reject with icmpx type admin-prohibited'' @ newline"

definition set_elements :: "allowed \<Rightarrow> string \<Rightarrow> string list" where
  "set_elements al name =
     map (\<lambda>(ip, port). element ip port)
       (filter (\<lambda>(ip, port). set_name ip port = name) (al_entries al))"

definition show_set :: "allowed \<Rightarrow> string \<times> string \<Rightarrow> string" where
  "show_set al = (\<lambda>(name, ty).
     ''  set '' @ name @ '' {'' @ newline @ ''    type '' @ ty @ '';'' @ newline
     @ ''    flags timeout;'' @ newline
     @ (if set_elements al name = [] then []
        else ''    elements = { '' @ join '', '' (set_elements al name) @ '' }'' @ newline)
     @ ''  }'' @ newline)"

definition allow_sets :: "(string \<times> string) list" where
  "allow_sets = [(''allow4'', ''ipv4_addr . inet_service''), (''allow4any'', ''ipv4_addr''),
     (''allow6'', ''ipv6_addr . inet_service''), (''allow6any'', ''ipv6_addr'')]"

definition ruleset ::
  "network \<Rightarrow> allow_rule list \<Rightarrow> allowed \<Rightarrow> bool \<Rightarrow> nat \<Rightarrow> string" where
  "ruleset network rules al allow_private connections =
     ''table inet zygo {'' @ newline
     @ (if network = Egress then concat (map (show_set al) allow_sets) else [])
     @ ''  set conn4 {'' @ newline @ ''    type ipv4_addr;'' @ newline @ ''    flags dynamic;'' @ newline
     @ ''  }'' @ newline
     @ ''  set conn6 {'' @ newline @ ''    type ipv6_addr;'' @ newline @ ''    flags dynamic;'' @ newline
     @ ''  }'' @ newline
     @ ''  chain output {'' @ newline
     @ ''    type filter hook output priority 0; policy drop;'' @ newline
     @ concat (map show_chain_rule (chain_rules network rules allow_private connections))
     @ ''  }'' @ newline @ ''}'' @ newline"

section \<open>What the chain decides\<close>

text \<open>
  A packet leaving the sandbox, and the reading of a list of rules: the first rule with a
  verdict decides, and the chain's policy is to drop. The contents of the four sets are the
  addresses and ports put into them.
\<close>

record packet =
  pk_dst :: ip_addr
  pk_tcp :: bool
  pk_dport :: nat
  pk_loopback :: bool
  pk_established :: bool
  pk_over_limit :: bool

definition port_matches :: "packet \<Rightarrow> nat option \<Rightarrow> bool" where
  "port_matches k port \<longleftrightarrow> (case port of None \<Rightarrow> True | Some p \<Rightarrow> pk_tcp k \<and> pk_dport k = p)"

definition blocks_contain :: "string list \<Rightarrow> ip_addr \<Rightarrow> bool" where
  "blocks_contain blocks ip \<longleftrightarrow> (\<exists>b \<in> set blocks. cidr_contains (expect_cidr b) ip)"

fun rule_verdict :: "(ip_addr \<times> nat option) set \<Rightarrow> packet \<Rightarrow> chain_rule \<Rightarrow> bool option" where
  "rule_verdict E k AcceptLoopback = (if pk_loopback k then Some True else None)"
| "rule_verdict E k AcceptEstablished = (if pk_established k then Some True else None)"
| "rule_verdict E k (CountLimit v4 n) =
     (if is_ipv4 (pk_dst k) = v4 \<and> pk_tcp k \<and> \<not> pk_established k \<and> pk_over_limit k
      then Some False else None)"
| "rule_verdict E k (AcceptDns tcp) =
     (if pk_dst k = V4 0xA9FE0101 \<and> pk_tcp k = tcp \<and> pk_dport k = 53 then Some True else None)"
| "rule_verdict E k (AcceptCidr c port) =
     (if cidr_contains c (pk_dst k) \<and> port_matches k port then Some True else None)"
| "rule_verdict E k (RejectPrivate v4) =
     (if blocks_contain (if v4 then PRIVATE_V4 else PRIVATE_V6) (pk_dst k) then Some False else None)"
| "rule_verdict E k AcceptAll = Some True"
| "rule_verdict E k (AcceptSet name) =
     (if \<exists>port. (pk_dst k, port) \<in> E \<and> set_name (pk_dst k) port = name \<and> port_matches k port
      then Some True else None)"
| "rule_verdict E k RejectRest = Some False"

fun chain_verdict :: "(ip_addr \<times> nat option) set \<Rightarrow> packet \<Rightarrow> chain_rule list \<Rightarrow> bool" where
  "chain_verdict E k [] \<longleftrightarrow> False"
| "chain_verdict E k (r # rs) \<longleftrightarrow>
     (case rule_verdict E k r of Some v \<Rightarrow> v | None \<Rightarrow> chain_verdict E k rs)"

section \<open>Facts about the private blocks\<close>

lemma parse_octets:
  "parse_ip ''10.0.0.0'' = Some (V4 0x0A000000)" "parse_ip ''172.16.0.0'' = Some (V4 0xAC100000)"
  "parse_ip ''192.168.0.0'' = Some (V4 0xC0A80000)" "parse_ip ''169.254.0.0'' = Some (V4 0xA9FE0000)"
  "parse_ip ''127.0.0.0'' = Some (V4 0x7F000000)" "parse_ip ''100.64.0.0'' = Some (V4 0x64400000)"
  "parse_ip ''0.0.0.0'' = Some (V4 0)" "parse_ip ''224.0.0.0'' = Some (V4 0xE0000000)"
  "parse_ip ''240.0.0.0'' = Some (V4 0xF0000000)"
  by (simp add: parse_ip_def v6_eval u32_of_be_def)+

lemma foldl_zero_groups:
  "foldl (\<lambda>a g. push_bit 16 a OR ucast g) x (replicate n (0 :: u16)) = push_bit (16 * n) (x :: 128 word)"
  by (induction n arbitrary: x) (simp_all add: algebra_simps)

lemma parse_segments:
  "parse_ip ''::1'' = Some (V6 1)" "parse_ip ''::'' = Some (V6 0)"
  "parse_ip ''fc00::'' = Some (V6 0xfc000000000000000000000000000000)"
  "parse_ip ''fe80::'' = Some (V6 0xfe800000000000000000000000000000)"
  "parse_ip ''ff00::'' = Some (V6 0xff000000000000000000000000000000)"
  by (simp add: parse_ip_def v6_eval foldl_zero_groups)+

lemma parse_prefixes:
  "parse_uint u8_max ''8'' = Some 8" "parse_uint u8_max ''12'' = Some 12"
  "parse_uint u8_max ''16'' = Some 16" "parse_uint u8_max ''10'' = Some 10"
  "parse_uint u8_max ''4'' = Some 4" "parse_uint u8_max ''128'' = Some 128"
  "parse_uint u8_max ''7'' = Some 7"
  by (simp_all add: parse_uint_def Let_def is_ascii_digit_def str_simps digits_value_def
      digit_val_def u8_max_def)

lemma private_v4_blocks:
  "map expect_cidr PRIVATE_V4 = map (\<lambda>(a, p). \<lparr>cidr_addr = V4 a, cidr_prefix = p\<rparr>)
     [(0x0A000000, 8), (0xAC100000, 12), (0xC0A80000, 16), (0xA9FE0000, 16), (0x7F000000, 8),
      (0x64400000, 10), (0, 8), (0xE0000000, 4), (0xF0000000, 4)]"
  by (simp add: PRIVATE_V4_def expect_cidr_def cidr_from_str_def parse_octets parse_prefixes
      max_prefix_def)

lemma private_v6_blocks:
  "map expect_cidr PRIVATE_V6 = map (\<lambda>(a, p). \<lparr>cidr_addr = V6 a, cidr_prefix = p\<rparr>)
     [(1, 128), (0, 128), (0xfc000000000000000000000000000000, 7),
      (0xfe800000000000000000000000000000, 10), (0xff000000000000000000000000000000, 8)]"
  by (simp add: PRIVATE_V6_def expect_cidr_def cidr_from_str_def parse_segments parse_prefixes
      max_prefix_def)

lemma unat_octet: "unat (octet i a) = unat a div 2 ^ (24 - 8 * i) mod 256"
  by (simp only: octet_def unsigned_ucast_eq unat_drop_bit_eq take_bit_eq_mod)
    (simp add: drop_bit_eq_div)

lemma unat_segment: "unat (segment i a) = unat a div 2 ^ (112 - 16 * i) mod 65536"
  by (simp only: segment_def unsigned_ucast_eq unat_drop_bit_eq take_bit_eq_mod)
    (simp add: drop_bit_eq_div)

lemma unat_octets:
  "unat (octet 0 a) = unat a div 65536 div 256" "unat (octet 1 a) = unat a div 65536 mod 256"
proof -
  have "unat a < 4294967296"
    using unsigned_less [where ?'a = nat and w = a] by simp
  then have "unat a div 65536 div 256 < 256" by linarith
  then show "unat (octet 0 a) = unat a div 65536 div 256"
    by (simp add: unat_octet div_mult2_eq [of "unat a" 65536 256, symmetric])
  show "unat (octet 1 a) = unat a div 65536 mod 256"
    by (simp add: unat_octet)
qed

lemma unat_segment_0: "unat (segment 0 a) = unat a div 2 ^ 112"
proof -
  have "unat a < 2 ^ 128"
    using unsigned_less [where ?'a = nat and w = a] by simp
  then have "unat a div 2 ^ 112 < 65536" by simp
  then show ?thesis by (simp add: unat_segment)
qed

lemma unat_drop: "unat (drop_bit n w) = unat w div 2 ^ n"
  unfolding unat_drop_bit_eq by (rule drop_bit_eq_div)

lemma masked_eq: "push_bit k (- 1) = m \<Longrightarrow> a AND m = b AND m \<longleftrightarrow> drop_bit k a = drop_bit k b"
  for a b m :: "'a::len word"
  using masked_eq_iff [of a k b] by blast

lemma masks:
  "push_bit 6 (- 1) = (0xC0 :: 8 word)" "push_bit 6 (- 1) = (0xffc0 :: 16 word)"
  "push_bit 9 (- 1) = (0xfe00 :: 16 word)" "push_bit 8 (- 1) = (0xff00 :: 16 word)"
  by (simp_all add: mask_eq_exp_minus_1)

lemma blocks_contain_map:
  "blocks_contain bs ip \<longleftrightarrow> (\<exists>b \<in> set (map expect_cidr bs). cidr_contains b ip)"
  by (simp add: blocks_contain_def)

lemma eq_unat: "w = v \<longleftrightarrow> unat w = unat v"
  by (simp add: unsigned_word_eqI word_unat_eq_iff)

lemma two_octets:
  fixes m :: nat
  shows "m div 16 = 2753 \<longleftrightarrow> m div 256 = 172 \<and> 16 \<le> m mod 256 \<and> m mod 256 \<le> 31"
    and "m = 49320 \<longleftrightarrow> m div 256 = 192 \<and> m mod 256 = 168"
    and "m = 43518 \<longleftrightarrow> m div 256 = 169 \<and> m mod 256 = 254"
    and "m div 64 = 401 \<longleftrightarrow> m div 256 = 100 \<and> m mod 256 div 64 = 1"
proof -
  define q r where "q = m div 256" and "r = m mod 256"
  then have m: "m = r + 256 * q" and r: "r < 256" by simp_all
  have "m div 16 = r div 16 + 16 * q"
    using div_mult_self2 [of 16 r "16 * q"] by (simp add: m)
  moreover have "r div 16 < 16" "r div 16 = 1 \<longleftrightarrow> 16 \<le> r \<and> r \<le> 31"
    using r by linarith+
  moreover have "x + 16 * q = 2753 \<longleftrightarrow> q = 172 \<and> x = 1" if "x < 16" for x
    using that by presburger
  ultimately show "m div 16 = 2753 \<longleftrightarrow> m div 256 = 172 \<and> 16 \<le> m mod 256 \<and> m mod 256 \<le> 31"
    unfolding q_def [symmetric] r_def [symmetric] by simp
  show "m = 49320 \<longleftrightarrow> m div 256 = 192 \<and> m mod 256 = 168"
    "m = 43518 \<longleftrightarrow> m div 256 = 169 \<and> m mod 256 = 254"
    unfolding q_def [symmetric] r_def [symmetric] using m r by presburger+
  have "m div 64 = r div 64 + 4 * q"
    using div_mult_self2 [of 64 r "4 * q"] by (simp add: m)
  moreover have "r div 64 < 4"
    using r by linarith
  moreover have "x + 4 * q = 401 \<longleftrightarrow> q = 100 \<and> x = 1" if "x < 4" for x
    using that by presburger
  ultimately show "m div 64 = 401 \<longleftrightarrow> m div 256 = 100 \<and> m mod 256 div 64 = 1"
    unfolding q_def [symmetric] r_def [symmetric] by simp
qed

lemma two_octets_high:
  fixes m :: nat
  assumes "m < 65536"
  shows "m div 4096 = 14 \<or> m div 4096 = 15 \<longleftrightarrow> 224 \<le> m div 256"
proof -
  have "m div 4096 = m div 256 div 16"
    by (simp add: div_mult2_eq [symmetric])
  moreover have "m div 256 < 256"
    using assms by (simp add: less_mult_imp_div_less)
  ultimately show ?thesis by linarith
qed

lemma private_v4_iff:
  "is_private_addr (V4 a) \<longleftrightarrow> blocks_contain PRIVATE_V4 (V4 a)"
proof -
  define m where "m = unat a div 65536"
  have m: "m < 65536"
    using unsigned_less [where ?'a = nat and w = a] by (simp add: m_def less_mult_imp_div_less)
  have d: "unat a div 2 ^ 24 = m div 256" "unat a div 2 ^ 20 = m div 16" "unat a div 2 ^ 16 = m"
    "unat a div 2 ^ 22 = m div 64" "unat a div 2 ^ 28 = m div 4096"
    by (simp_all add: m_def div_mult2_eq [symmetric])
  have "octet 1 a AND 0xC0 = 64 \<longleftrightarrow> drop_bit 6 (octet 1 a) = drop_bit 6 64"
    using masked_eq [OF masks(1), of "octet 1 a" 64] by simp
  then have o: "octet 1 a AND 0xC0 = 64 \<longleftrightarrow> m mod 256 div 64 = 1"
    by (simp add: eq_unat unat_drop unat_octets(2) [simplified] m_def)
  have "is_private_addr (V4 a) \<longleftrightarrow>
      m div 256 = 10 \<or> (m div 256 = 172 \<and> 16 \<le> m mod 256 \<and> m mod 256 \<le> 31)
      \<or> (m div 256 = 192 \<and> m mod 256 = 168) \<or> m div 256 = 127
      \<or> (m div 256 = 169 \<and> m mod 256 = 254) \<or> m div 256 = 0
      \<or> (m div 256 = 100 \<and> m mod 256 div 64 = 1) \<or> 224 \<le> m div 256"
    unfolding is_private_addr.simps v4_is_private_def v4_is_loopback_def v4_is_link_local_def o
    by (simp only: eq_unat word_le_nat_alt unat_octets m_def [symmetric]) simp
  moreover have "blocks_contain PRIVATE_V4 (V4 a) \<longleftrightarrow>
      m div 256 = 10 \<or> m div 16 = 2753 \<or> m = 49320 \<or> m = 43518 \<or> m div 256 = 127
      \<or> m div 64 = 401 \<or> m div 256 = 0 \<or> m div 4096 = 14 \<or> m div 4096 = 15"
  proof -
    show ?thesis
      unfolding blocks_contain_map private_v4_blocks
      by (simp add: cidr_contains_def block_contains_iff eq_unat unat_drop d [simplified]
          del: block_contains.simps)
  qed
  moreover note two_octets [of m] two_octets_high [OF m]
  ultimately show ?thesis by blast
qed

lemma private_v6_iff:
  "is_private_addr (V6 a) \<longleftrightarrow> blocks_contain PRIVATE_V6 (V6 a)"
proof -
  define m where "m = unat a div 2 ^ 112"
  have d: "unat a div 2 ^ 121 = m div 512" "unat a div 2 ^ 118 = m div 64" "unat a div 2 ^ 120 = m div 256"
    by (simp_all add: m_def div_mult2_eq [symmetric])
  have s: "segment 0 a AND 0xffc0 = 0xfe80 \<longleftrightarrow> m div 64 = 0x3fa"
    "segment 0 a AND 0xfe00 = 0xfc00 \<longleftrightarrow> m div 512 = 0x7e"
    "segment 0 a AND 0xff00 = 0xff00 \<longleftrightarrow> m div 256 = 0xff"
    using masked_eq [OF masks(2), of "segment 0 a" "0xfe80"] masked_eq [OF masks(3), of "segment 0 a" "0xfc00"]
      masked_eq [OF masks(4), of "segment 0 a" "0xff00"]
    by (simp_all add: eq_unat [of "drop_bit _ _"] unat_drop unat_segment_0 m_def)
  show ?thesis
    unfolding blocks_contain_map private_v6_blocks is_private_addr.simps v6_is_multicast_def s
    by (simp add: cidr_contains_def block_contains_iff eq_unat [of "drop_bit _ _"] unat_drop d [simplified]
        del: block_contains.simps) auto
qed

lemma other_family:
  "\<not> blocks_contain PRIVATE_V4 (V6 a)" "\<not> blocks_contain PRIVATE_V6 (V4 b)"
  unfolding blocks_contain_map private_v4_blocks private_v6_blocks
  by (simp_all add: cidr_contains_def)

lemma private_iff_blocks:
  "is_private_addr ip \<longleftrightarrow> blocks_contain PRIVATE_V4 ip \<or> blocks_contain PRIVATE_V6 ip"
  by (cases ip) (simp_all add: private_v4_iff private_v6_iff other_family del: is_private_addr.simps)

lemma private_blocks_contain:
  "blocks_contain (PRIVATE_V4 @ PRIVATE_V6) ip \<longleftrightarrow> (\<exists>b \<in> set private_blocks. cidr_contains b ip)"
  by (auto simp: blocks_contain_def private_blocks_def)

lemma private_iff: "is_private_addr ip \<longleftrightarrow> (\<exists>b \<in> set private_blocks. cidr_contains b ip)"
  unfolding private_blocks_contain [symmetric] private_iff_blocks by (auto simp: blocks_contain_def)

lemma private_blocks_wf: "b \<in> set private_blocks \<Longrightarrow> cidr_wf b"
  unfolding private_blocks_def map_append private_v4_blocks private_v6_blocks
  by (auto simp: cidr_wf_def max_prefix_def)

text \<open>A block whose prefix is no longer and that contains the other's address contains it.\<close>

lemma drop_bit_mono:
  assumes "drop_bit k a = drop_bit k b" and "k \<le> l"
  shows "drop_bit l a = drop_bit l (b :: 'a::len word)"
proof -
  have "drop_bit l x = drop_bit (l - k) (drop_bit k x)" for x :: "'a word"
    using assms(2) by (simp add: drop_bit_drop_bit)
  with assms(1) show ?thesis by metis
qed

lemma block_inside:
  assumes "cidr_wf b" and "cidr_wf c" and "cidr_prefix b \<le> cidr_prefix c"
    and "cidr_contains b (cidr_addr c)" and "cidr_contains c ip"
  shows "cidr_contains b ip"
proof (cases "cidr_addr c"; cases ip)
  fix n i assume c: "cidr_addr c = V4 n" "ip = V4 i"
  then obtain m where b: "cidr_addr b = V4 m"
    using assms(4) by (cases "cidr_addr b") (auto simp: cidr_contains_def)
  have "drop_bit (32 - cidr_prefix c) n = drop_bit (32 - cidr_prefix c) i"
    "drop_bit (32 - cidr_prefix b) m = drop_bit (32 - cidr_prefix b) n"
    using assms b c by (simp_all add: cidr_contains_def cidr_wf_def max_prefix_def block_contains_iff
        del: block_contains.simps(1,2))
  then show "cidr_contains b ip"
    using drop_bit_mono [of "32 - cidr_prefix c" n i "32 - cidr_prefix b"] assms(1,3) b c
    by (simp add: cidr_contains_def cidr_wf_def max_prefix_def block_contains_iff
        del: block_contains.simps(1,2))
next
  fix n i assume c: "cidr_addr c = V6 n" "ip = V6 i"
  then obtain m where b: "cidr_addr b = V6 m"
    using assms(4) by (cases "cidr_addr b") (auto simp: cidr_contains_def)
  have "drop_bit (128 - cidr_prefix c) n = drop_bit (128 - cidr_prefix c) i"
    "drop_bit (128 - cidr_prefix b) m = drop_bit (128 - cidr_prefix b) n"
    using assms b c by (simp_all add: cidr_contains_def cidr_wf_def max_prefix_def block_contains_iff
        del: block_contains.simps(1,2))
  then show "cidr_contains b ip"
    using drop_bit_mono [of "128 - cidr_prefix c" n i "128 - cidr_prefix b"] assms(1,3) b c
    by (simp add: cidr_contains_def cidr_wf_def max_prefix_def block_contains_iff
        del: block_contains.simps(1,2))
qed (use assms(5) in \<open>auto simp: cidr_contains_def\<close>)

text \<open>A rule as the parser makes them.\<close>

definition rule_wf :: "allow_rule \<Rightarrow> bool" where
  "rule_wf r \<longleftrightarrow> (case ar_host r of CidrHost c \<Rightarrow> cidr_wf c | _ \<Rightarrow> True)"

lemma named_private_wf: "rule_wf r \<Longrightarrow> named_private r = Some c \<Longrightarrow> cidr_wf c"
  by (auto simp: named_private_def rule_wf_def cidr_wf_def max_prefix_def
      split: host_pattern.splits option.splits if_splits)

lemma named_private_inside:
  assumes "rule_wf r" and "named_private r = Some c" and "cidr_contains c ip"
  shows "is_private_addr ip"
proof -
  obtain b where "b \<in> set private_blocks" "cidr_prefix b \<le> cidr_prefix c"
    "cidr_contains b (cidr_addr c)"
    using assms(2) by (auto simp: named_private_def split: option.splits if_splits)
  then show ?thesis
    using block_inside [OF private_blocks_wf named_private_wf [OF assms(1,2)]] assms(3) private_iff
    by blast
qed

lemma chain_verdict_append:
  "chain_verdict E k (xs @ ys) \<longleftrightarrow>
     (if \<exists>r \<in> set xs. rule_verdict E k r \<noteq> None then chain_verdict E k xs else chain_verdict E k ys)"
  by (induction xs) (auto split: option.splits)

lemma chain_verdict_accepts:
  assumes "\<forall>r \<in> set xs. \<forall>v. rule_verdict E k r = Some v \<longrightarrow> v"
  shows "chain_verdict E k (xs @ ys) \<longleftrightarrow> (\<exists>r \<in> set xs. rule_verdict E k r \<noteq> None) \<or> chain_verdict E k ys"
  using assms by (induction xs) (auto split: option.splits)

definition fresh :: "packet \<Rightarrow> bool" where
  "fresh k \<longleftrightarrow> \<not> pk_loopback k \<and> \<not> pk_established k"

text \<open>What lies above the private rejects accepts only these.\<close>

definition accepted_above :: "network \<Rightarrow> allow_rule list \<Rightarrow> bool \<Rightarrow> packet \<Rightarrow> bool" where
  "accepted_above network rules allow_private k \<longleftrightarrow>
     (network \<noteq> Egress \<and> pk_dst k = V4 0xA9FE0101 \<and> pk_dport k = 53)
     \<or> (network = Egress \<and> allow_private
        \<and> (\<exists>r \<in> set rules. \<exists>c. named_private r = Some c \<and> cidr_contains c (pk_dst k)
             \<and> port_matches k (ar_port r)))"

definition above_rules :: "network \<Rightarrow> allow_rule list \<Rightarrow> bool \<Rightarrow> chain_rule list" where
  "above_rules network rules allow_private =
     (if network \<noteq> Egress then [AcceptDns False, AcceptDns True] else [])
     @ (if allow_private \<and> network = Egress
        then List.map_filter (\<lambda>rule. map_option (\<lambda>c. AcceptCidr c (ar_port rule)) (named_private rule)) rules
        else [])"

definition below_rules :: "network \<Rightarrow> allow_rule list \<Rightarrow> chain_rule list" where
  "below_rules network rules =
     (case network of
          Full \<Rightarrow> [AcceptAll]
        | _ \<Rightarrow> List.map_filter (\<lambda>rule. case cidr_of rule of
                   None \<Rightarrow> None
                 | Some c \<Rightarrow> if named_private rule = None then Some (AcceptCidr c (ar_port rule)) else None) rules
               @ [AcceptSet ''allow4'', AcceptSet ''allow4any'', AcceptSet ''allow6'', AcceptSet ''allow6any''])"

lemma chain_rules_parts:
  "chain_rules network rules p n =
     [AcceptLoopback, AcceptEstablished, CountLimit True n, CountLimit False n]
     @ above_rules network rules p @ [RejectPrivate True, RejectPrivate False]
     @ below_rules network rules @ [RejectRest]"
  by (simp add: chain_rules_def above_rules_def below_rules_def)

lemma above_rules_verdict:
  "chain_verdict E k (above_rules network rules p @ rest) \<longleftrightarrow>
     accepted_above network rules p k \<or> chain_verdict E k rest"
proof -
  have "\<forall>r \<in> set (above_rules network rules p). \<forall>v. rule_verdict E k r = Some v \<longrightarrow> v"
    by (auto simp: above_rules_def set_map_filter split: if_splits)
  moreover have "(\<exists>r \<in> set (above_rules network rules p). rule_verdict E k r \<noteq> None)
      \<longleftrightarrow> accepted_above network rules p k"
    by (cases "network = Egress"; cases p)
      (fastforce simp: above_rules_def accepted_above_def set_map_filter split: if_splits)+
  ultimately show ?thesis
    using chain_verdict_accepts by blast
qed

definition accepted_below :: "network \<Rightarrow> allow_rule list \<Rightarrow> (ip_addr \<times> nat option) set \<Rightarrow> packet \<Rightarrow> bool" where
  "accepted_below network rules E k \<longleftrightarrow>
     network = Full
     \<or> (\<exists>r \<in> set rules. \<exists>c. ar_host r = CidrHost c \<and> named_private r = None
          \<and> cidr_contains c (pk_dst k) \<and> port_matches k (ar_port r))
     \<or> (\<exists>port. (pk_dst k, port) \<in> E \<and> port_matches k port)"

lemma set_name_values:
  "set_name ip port \<in> {''allow4'', ''allow4any'', ''allow6'', ''allow6any''}"
  by (simp add: set_name_def)

lemma cidr_of_Some: "cidr_of r = Some c \<longleftrightarrow> ar_host r = CidrHost c"
  by (auto simp: cidr_of_def split: host_pattern.splits)

lemma below_rules_verdict:
  "chain_verdict E k (below_rules network rules @ rest) \<longleftrightarrow>
     accepted_below network rules E k \<or> chain_verdict E k rest"
proof -
  let ?cidrs = "List.map_filter (\<lambda>rule. case cidr_of rule of None \<Rightarrow> None
      | Some c \<Rightarrow> if named_private rule = None then Some (AcceptCidr c (ar_port rule)) else None) rules"
  let ?sets = "[AcceptSet ''allow4'', AcceptSet ''allow4any'', AcceptSet ''allow6'', AcceptSet ''allow6any'']"
  have b: "set (below_rules network rules) =
      (if network = Full then {AcceptAll} else set ?cidrs \<union> set ?sets)"
    by (cases network) (simp_all add: below_rules_def)
  have cidrs: "(\<exists>r \<in> set ?cidrs. rule_verdict E k r \<noteq> None) \<longleftrightarrow>
      (\<exists>r \<in> set rules. \<exists>c. ar_host r = CidrHost c \<and> named_private r = None
          \<and> cidr_contains c (pk_dst k) \<and> port_matches k (ar_port r))"
    by (fastforce simp: set_map_filter cidr_of_Some split: option.splits if_splits)
  have sets: "(\<exists>r \<in> set ?sets. rule_verdict E k r \<noteq> None) \<longleftrightarrow>
      (\<exists>port. (pk_dst k, port) \<in> E \<and> port_matches k port)"
  proof
    assume "\<exists>port. (pk_dst k, port) \<in> E \<and> port_matches k port"
    then obtain port where p: "(pk_dst k, port) \<in> E" "port_matches k port" by blast
    have "AcceptSet (set_name (pk_dst k) port) \<in> set ?sets"
      using set_name_values [of "pk_dst k" port] by auto
    moreover have "rule_verdict E k (AcceptSet (set_name (pk_dst k) port)) \<noteq> None"
      using p by auto
    ultimately show "\<exists>r \<in> set ?sets. rule_verdict E k r \<noteq> None" by blast
  qed (auto split: if_splits)
  have acc: "v" if "rule_verdict E k r = Some v" "r = AcceptAll \<or> (\<exists>c q. r = AcceptCidr c q) \<or> (\<exists>n. r = AcceptSet n)"
    for r v
    using that by (auto split: if_splits)
  have "r = AcceptAll \<or> (\<exists>c q. r = AcceptCidr c q) \<or> (\<exists>n. r = AcceptSet n)"
    if "r \<in> set (below_rules network rules)" for r
  proof -
    have "\<exists>c q. r = AcceptCidr c q" if "r \<in> set ?cidrs"
      using that by (auto simp: set_map_filter split: option.splits if_splits)
    with that show ?thesis
      unfolding b by (auto split: if_splits)
  qed
  then have "\<forall>r \<in> set (below_rules network rules). \<forall>v. rule_verdict E k r = Some v \<longrightarrow> v"
    using acc by blast
  moreover have "(\<exists>r \<in> set (below_rules network rules). rule_verdict E k r \<noteq> None)
      \<longleftrightarrow> accepted_below network rules E k"
  proof (cases "network = Full")
    case True
    then show ?thesis using b by (simp add: accepted_below_def)
  next
    case False
    then show ?thesis
      unfolding b accepted_below_def if_not_P [OF False] bex_Un cidrs sets by simp
  qed
  ultimately show ?thesis
    using chain_verdict_accepts by blast
qed

lemma chain_policy:
  assumes "fresh k" and "\<not> (pk_tcp k \<and> pk_over_limit k)"
  shows "chain_verdict E k (chain_rules network rules p n) \<longleftrightarrow>
    accepted_above network rules p k
    \<or> (\<not> is_private_addr (pk_dst k) \<and> accepted_below network rules E k)"
proof -
  have "chain_verdict E k (chain_rules network rules p n) \<longleftrightarrow>
      chain_verdict E k (above_rules network rules p @ [RejectPrivate True, RejectPrivate False]
         @ below_rules network rules @ [RejectRest])"
    using assms by (auto simp: chain_rules_parts fresh_def)
  then show ?thesis
    unfolding above_rules_verdict private_iff_blocks
    by (auto simp: below_rules_verdict)
qed

text \<open>The rules every chain begins with decide about the others.\<close>

lemma chain_policy_early:
  assumes "\<not> (fresh k \<and> \<not> (pk_tcp k \<and> pk_over_limit k))"
  shows "chain_verdict E k (chain_rules network rules p n) \<longleftrightarrow> pk_loopback k \<or> pk_established k"
  using assms by (cases "is_ipv4 (pk_dst k)") (auto simp: chain_rules_parts fresh_def)

section \<open>Addresses a query admitted\<close>

text \<open>
  \<open>start_resolver\<close> and \<open>admit_address\<close>: an address is put into the filter's set with a
  fresh timeout unless that was done less than two minutes ago. \<open>run\<close> is the \<open>nft\<close>
  program: what it is asked and in which state of the world; it answers whether it
  succeeded. \<open>clock\<close> is a reading of the monotonic clock (\<open>Instant::now\<close>, also inside
  \<open>elapsed\<close>). Both take time: it is read where the code reads it, once per address and port that
  is in the map and once more after \<open>admit_address\<close> has returned, and every reading is its own.
  Readings are in nanoseconds, which is what an \<open>Instant\<close> and a \<open>Duration\<close> hold.
\<close>

datatype nft_op = DeleteElement ip_addr "nat option" | AddElement ip_addr "nat option" nat

type_synonym admitted = "(ip_addr \<times> nat option) \<rightharpoonup> nat"

definition secs_nanos :: "nat \<Rightarrow> nat" where "secs_nanos n = n * 1000000000"

definition admit_address ::
  "(nft_op \<Rightarrow> 's \<Rightarrow> bool \<times> 's) \<Rightarrow> ip_addr \<Rightarrow> nat option \<Rightarrow> 's \<Rightarrow> bool \<times> 's" where
  "admit_address run ip port s =
     (let (_, s1) = run (DeleteElement ip port) s
      in run (AddElement ip port ADMIT_TIMEOUT_SECS) s1)"

definition recently ::
  "('s \<Rightarrow> nat \<times> 's) \<Rightarrow> admitted \<Rightarrow> ip_addr \<times> nat option \<Rightarrow> 's \<Rightarrow> bool \<times> 's" where
  "recently clock adm key s =
     (case adm key of
          None \<Rightarrow> (False, s)
        | Some at \<Rightarrow> let (now, s1) = clock s in (now - at < secs_nanos ADMIT_REFRESH_SECS, s1))"

fun admit ::
  "('s \<Rightarrow> nat \<times> 's) \<Rightarrow> (nft_op \<Rightarrow> 's \<Rightarrow> bool \<times> 's) \<Rightarrow> ip_addr \<Rightarrow> nat option list \<Rightarrow> admitted \<times> 's
     \<Rightarrow> bool \<times> (admitted \<times> 's)" where
  "admit clock run ip [] st = (True, st)"
| "admit clock run ip (port # ports) (adm, s) =
     (let (recent, s1) = recently clock adm (ip, port) s
      in if recent then admit clock run ip ports (adm, s1)
         else let (ok, s2) = admit_address run ip port s1
              in if ok then let (now, s3) = clock s2 in admit clock run ip ports (adm((ip, port) \<mapsto> now), s3)
                 else (False, (adm, s2)))"

text \<open>
  What is relied on of the clock and of \<open>nft\<close>. \<open>time\<close> is the true time of a state and \<open>expires\<close>
  reads the filter's sets. The clock is monotonic and a reading lies between the moments before and
  after it. A command takes time and touches no element but the one it names; an element added
  with a timeout stays for that long from some moment of the command on. No reading taken
  when the command has returned is more than \<open>delay\<close> after that moment: this is how long
  \<open>nft\<close> may take to exit once the kernel has the element, and the process to be scheduled again.
\<close>

definition nft_contract ::
  "('s \<Rightarrow> nat \<times> 's) \<Rightarrow> (nft_op \<Rightarrow> 's \<Rightarrow> bool \<times> 's) \<Rightarrow> ('s \<Rightarrow> nat)
     \<Rightarrow> ('s \<Rightarrow> ip_addr \<times> nat option \<Rightarrow> nat option) \<Rightarrow> nat \<Rightarrow> bool" where
  "nft_contract clock run time expires delay \<longleftrightarrow>
     (\<forall>s now s'. clock s = (now, s') \<longrightarrow> time s \<le> now \<and> now \<le> time s' \<and> expires s' = expires s)
     \<and> (\<forall>op s ok s'. run op s = (ok, s') \<longrightarrow> time s \<le> time s')
     \<and> (\<forall>ip port secs s s'. run (AddElement ip port secs) s = (True, s') \<longrightarrow>
          (\<exists>e. expires s' (ip, port) = Some e \<and> time s + secs_nanos secs \<le> e
             \<and> (\<forall>now s''. clock s' = (now, s'') \<longrightarrow> now + secs_nanos secs \<le> e + delay)))
     \<and> (\<forall>ip port secs s ok s' key. key \<noteq> (ip, port)
          \<and> (run (AddElement ip port secs) s = (ok, s') \<or> run (DeleteElement ip port) s = (ok, s'))
          \<longrightarrow> expires s' key = expires s key)"

text \<open>
  The map and the filter agree: what was put in less than two minutes ago is there for ten minutes
  from then, less the delay.
\<close>

definition admitted_inv ::
  "('s \<Rightarrow> nat) \<Rightarrow> ('s \<Rightarrow> ip_addr \<times> nat option \<Rightarrow> nat option) \<Rightarrow> nat \<Rightarrow> admitted \<times> 's \<Rightarrow> bool" where
  "admitted_inv time expires delay = (\<lambda>(adm, s).
     \<forall>key at. adm key = Some at \<and> time s < at + secs_nanos ADMIT_REFRESH_SECS \<longrightarrow>
       (\<exists>e. expires s key = Some e \<and> at + secs_nanos ADMIT_TIMEOUT_SECS \<le> e + delay))"

text \<open>An element that is in the filter for at least 480 seconds after \<open>start\<close>, less the delay.\<close>

definition lasting ::
  "('s \<Rightarrow> ip_addr \<times> nat option \<Rightarrow> nat option) \<Rightarrow> nat \<Rightarrow> nat \<Rightarrow> 's \<Rightarrow> ip_addr \<times> nat option \<Rightarrow> bool" where
  "lasting expires delay start s key \<longleftrightarrow>
     (\<exists>e. expires s key = Some e \<and> start + secs_nanos 480 < e + delay)"

lemma contract_clock:
  assumes "nft_contract clock run time expires delay" and "clock s = (now, s')"
  shows "time s \<le> now" and "now \<le> time s'" and "expires s' = expires s"
  using assms(1) [unfolded nft_contract_def, THEN conjunct1, rule_format, OF assms(2)] by simp_all

lemma contract_time:
  "nft_contract clock run time expires delay \<Longrightarrow> run op s = (ok, s') \<Longrightarrow> time s \<le> time s'"
  unfolding nft_contract_def by blast

lemma contract_other:
  assumes "nft_contract clock run time expires delay" and "key \<noteq> (ip, port)"
  shows "run (AddElement ip port secs) s = (ok, s') \<Longrightarrow> expires s' key = expires s key"
    and "run (DeleteElement ip port) s = (ok, s') \<Longrightarrow> expires s' key = expires s key"
  using assms(1) [unfolded nft_contract_def, THEN conjunct2, THEN conjunct2, THEN conjunct2] assms(2)
  by blast+

lemma contract_add:
  assumes "nft_contract clock run time expires delay" and "run (AddElement ip port secs) s = (True, s')"
  shows "\<exists>e. expires s' (ip, port) = Some e \<and> time s + secs_nanos secs \<le> e
    \<and> (\<forall>now s''. clock s' = (now, s'') \<longrightarrow> now + secs_nanos secs \<le> e + delay)"
  using assms unfolding nft_contract_def by blast

text \<open>The two commands, and the test, one address and port at a time.\<close>

lemma admit_address_effect:
  assumes c: "nft_contract clock run time expires delay"
    and a: "admit_address run ip port s = (ok, s')"
  shows "time s \<le> time s'" and "key \<noteq> (ip, port) \<Longrightarrow> expires s' key = expires s key"
    and "ok \<Longrightarrow> \<exists>e. expires s' (ip, port) = Some e \<and> time s + secs_nanos ADMIT_TIMEOUT_SECS \<le> e
      \<and> (\<forall>now s''. clock s' = (now, s'') \<longrightarrow> now + secs_nanos ADMIT_TIMEOUT_SECS \<le> e + delay)"
proof -
  obtain b s1 where d: "run (DeleteElement ip port) s = (b, s1)" by fastforce
  then have r: "run (AddElement ip port ADMIT_TIMEOUT_SECS) s1 = (ok, s')"
    using a by (simp add: admit_address_def)
  note t = contract_time [OF c d] contract_time [OF c r]
  show "time s \<le> time s'" using t by simp
  show "expires s' key = expires s key" if "key \<noteq> (ip, port)"
    using contract_other [OF c that] d r by metis
  assume ok
  with r have "run (AddElement ip port ADMIT_TIMEOUT_SECS) s1 = (True, s')" by simp
  from contract_add [OF c this] obtain e where e: "expires s' (ip, port) = Some e"
      "time s1 + secs_nanos ADMIT_TIMEOUT_SECS \<le> e"
      "\<forall>now s''. clock s' = (now, s'') \<longrightarrow> now + secs_nanos ADMIT_TIMEOUT_SECS \<le> e + delay"
    by blast
  moreover have "time s + secs_nanos ADMIT_TIMEOUT_SECS \<le> e" using e(2) t(1) by simp
  ultimately show "\<exists>e. expires s' (ip, port) = Some e \<and> time s + secs_nanos ADMIT_TIMEOUT_SECS \<le> e
      \<and> (\<forall>now s''. clock s' = (now, s'') \<longrightarrow> now + secs_nanos ADMIT_TIMEOUT_SECS \<le> e + delay)"
    by blast
qed

lemma recently_effect:
  assumes c: "nft_contract clock run time expires delay" and r: "recently clock adm key s = (b, s')"
  shows "time s \<le> time s'" and "expires s' = expires s"
    and "b \<Longrightarrow> \<exists>at. adm key = Some at \<and> time s < at + secs_nanos ADMIT_REFRESH_SECS"
    and "\<not> b \<Longrightarrow> adm key = Some at \<Longrightarrow> at + secs_nanos ADMIT_REFRESH_SECS \<le> time s'"
proof -
  have "time s \<le> time s' \<and> expires s' = expires s
    \<and> (b \<longrightarrow> (\<exists>at. adm key = Some at \<and> time s < at + secs_nanos ADMIT_REFRESH_SECS))
    \<and> (\<forall>at. \<not> b \<longrightarrow> adm key = Some at \<longrightarrow> at + secs_nanos ADMIT_REFRESH_SECS \<le> time s')"
  proof (cases "adm key")
    case None
    then show ?thesis using r by (simp add: recently_def)
  next
    case (Some at)
    obtain now s1 where n: "clock s = (now, s1)" by fastforce
    have "s' = s1" "b \<longleftrightarrow> now - at < secs_nanos ADMIT_REFRESH_SECS"
      using r n by (auto simp: recently_def Some)
    then show ?thesis
      using contract_clock [OF c n] Some by (auto simp: secs_nanos_def ADMIT_REFRESH_SECS_def)
  qed
  then show "time s \<le> time s'" and "expires s' = expires s"
    and "b \<Longrightarrow> \<exists>at. adm key = Some at \<and> time s < at + secs_nanos ADMIT_REFRESH_SECS"
    and "\<not> b \<Longrightarrow> adm key = Some at \<Longrightarrow> at + secs_nanos ADMIT_REFRESH_SECS \<le> time s'"
    by auto
qed

lemma admitted_inv_still:
  "admitted_inv time expires delay (adm, s) \<Longrightarrow> time s \<le> time s' \<Longrightarrow> expires s' = expires s \<Longrightarrow>
     admitted_inv time expires delay (adm, s')"
  by (simp add: admitted_inv_def)

lemma admitted_inv_added:
  assumes i: "admitted_inv time expires delay (adm, s)" and "time s \<le> time s'"
    and "\<forall>key. key \<noteq> k \<longrightarrow> expires s' key = expires s key"
    and "expires s' k = Some e" and "now + secs_nanos ADMIT_TIMEOUT_SECS \<le> e + delay"
  shows "admitted_inv time expires delay (adm(k \<mapsto> now), s')"
proof -
  have "\<exists>e. expires s' key = Some e \<and> at + secs_nanos ADMIT_TIMEOUT_SECS \<le> e + delay"
    if "(adm(k \<mapsto> now)) key = Some at" "time s' < at + secs_nanos ADMIT_REFRESH_SECS" for key at
  proof (cases "key = k")
    case True
    then show ?thesis using that(1) assms(4,5) by simp
  next
    case False
    then have "adm key = Some at" "time s < at + secs_nanos ADMIT_REFRESH_SECS"
      using that assms(2) by simp_all
    then show ?thesis using i assms(3) False by (cases key) (simp add: admitted_inv_def)
  qed
  then show ?thesis by (auto simp: admitted_inv_def)
qed

lemma admitted_inv_lost:
  assumes i: "admitted_inv time expires delay (adm, s)" and "time s \<le> time s'"
    and "\<forall>key. key \<noteq> k \<longrightarrow> expires s' key = expires s key"
    and "\<And>at. adm k = Some at \<Longrightarrow> at + secs_nanos ADMIT_REFRESH_SECS \<le> time s'"
  shows "admitted_inv time expires delay (adm, s')"
proof -
  have "\<exists>e. expires s' key = Some e \<and> at + secs_nanos ADMIT_TIMEOUT_SECS \<le> e + delay"
    if "adm key = Some at" "time s' < at + secs_nanos ADMIT_REFRESH_SECS" for key at
  proof -
    have "key \<noteq> k" using that assms(4) by fastforce
    moreover have "time s < at + secs_nanos ADMIT_REFRESH_SECS" using that(2) assms(2) by simp
    ultimately show ?thesis using i that(1) assms(3) by (cases key) (simp add: admitted_inv_def)
  qed
  then show ?thesis by (auto simp: admitted_inv_def)
qed

text \<open>
  The closure as a whole: it only goes forward in time, touches only its own address and ports,
  keeps the invariant whether it succeeds or fails, and when it succeeds every port it
  was asked for has the address in the filter for long enough.
\<close>

lemma admit_effect:
  assumes c: "nft_contract clock run time expires delay"
  shows "admitted_inv time expires delay st \<Longrightarrow> admit clock run ip ports st = (ok, (adm', s')) \<Longrightarrow>
    time (snd st) \<le> time s' \<and> (\<forall>key. key \<notin> {ip} \<times> set ports \<longrightarrow> expires s' key = expires (snd st) key)
    \<and> admitted_inv time expires delay (adm', s')
    \<and> (ok \<and> distinct ports \<longrightarrow> (\<forall>port \<in> set ports. lasting expires delay (time (snd st)) s' (ip, port)))"
proof (induction ports arbitrary: st)
  case (Cons port ports)
  obtain adm s where st: "st = (adm, s)" by (cases st)
  obtain b s1 where r: "recently clock adm (ip, port) s = (b, s1)" by fastforce
  note re = recently_effect [OF c r]
  note i = Cons.prems(1) [unfolded st]
  note i1 = admitted_inv_still [OF i re(1,2)]
  have mono: "lasting expires delay start' s2 key \<Longrightarrow> start \<le> start' \<Longrightarrow> lasting expires delay start s2 key"
    for start start' s2 key by (auto simp: lasting_def)
  have keep: "lasting expires delay (time s) s' (ip, port)"
    if "lasting expires delay (time s) s2 (ip, port)" "distinct (port # ports)"
      "\<forall>key. key \<notin> {ip} \<times> set ports \<longrightarrow> expires s' key = expires s2 key" for s2
    using that by (auto simp: lasting_def)
  show ?case
  proof (cases b)
    case True
    then obtain at where at: "adm (ip, port) = Some at" "time s < at + secs_nanos ADMIT_REFRESH_SECS"
      using re(3) by blast
    then obtain e where "expires s (ip, port) = Some e" "at + secs_nanos ADMIT_TIMEOUT_SECS \<le> e + delay"
      using i unfolding admitted_inv_def by fast
    then have l: "lasting expires delay (time s) s1 (ip, port)"
      using at(2) re(2)
      by (simp add: lasting_def secs_nanos_def ADMIT_REFRESH_SECS_def ADMIT_TIMEOUT_SECS_def)
    have rest: "admit clock run ip ports (adm, s1) = (ok, (adm', s'))"
      using Cons.prems(2) r True by (simp add: st)
    note ih = Cons.IH [OF i1 rest]
    show ?thesis
      using ih re(1,2) keep [OF l] mono [of "time s1" s' _ "time s"] by (auto simp: st)
  next
    case False
    obtain ok' s2 where a: "admit_address run ip port s1 = (ok', s2)" by fastforce
    note ae = admit_address_effect [OF c a]
    show ?thesis
    proof (cases ok')
      case True
      obtain now s3 where n: "clock s2 = (now, s3)" by fastforce
      note ce = contract_clock [OF c n]
      obtain e where e: "expires s2 (ip, port) = Some e" "time s1 + secs_nanos ADMIT_TIMEOUT_SECS \<le> e"
          "now + secs_nanos ADMIT_TIMEOUT_SECS \<le> e + delay"
        using ae(3) True n by blast
      have i3: "admitted_inv time expires delay (adm((ip, port) \<mapsto> now), s3)"
        by (rule admitted_inv_added [OF i1, where e = e]) (use ae(1,2) ce e in auto)
      have l: "lasting expires delay (time s) s3 (ip, port)"
        using e(1,2) ce(3) re(1) by (simp add: lasting_def secs_nanos_def ADMIT_TIMEOUT_SECS_def)
      have rest: "admit clock run ip ports (adm((ip, port) \<mapsto> now), s3) = (ok, (adm', s'))"
        using Cons.prems(2) r False a True n by (simp add: st)
      note ih = Cons.IH [OF i3 rest]
      have "time s \<le> time s3" using re(1) ae(1) ce(1,2) by simp
      then show ?thesis
        using ih re(2) ae(2) ce(3) keep [OF l] mono [of "time s3" s' _ "time s"] by (auto simp: st)
    next
      case ok: False
      have "admitted_inv time expires delay (adm, s2)"
        by (rule admitted_inv_lost [OF i1 ae(1), where k = "(ip, port)"])
          (use ae(1,2) re(4) [OF False] in \<open>auto intro: order.trans\<close>)
      then show ?thesis
        using Cons.prems(2) r False a ok ae(1,2) re(1,2) by (auto simp: st)
    qed
  qed
qed simp

text \<open>A world of the tests: a clock that ticks at every use and a table of elements with their expiry.\<close>

type_synonym table_world = "nat \<times> (ip_addr \<times> nat option \<rightharpoonup> nat)"

fun table_clock :: "table_world \<Rightarrow> nat \<times> table_world" where
  "table_clock (t, s) = (Suc t, (Suc t, s))"

fun table_nft :: "nft_op \<Rightarrow> table_world \<Rightarrow> bool \<times> table_world" where
  "table_nft (DeleteElement ip port) (t, s) = (s (ip, port) \<noteq> None, (Suc t, s((ip, port) := None)))"
| "table_nft (AddElement ip port secs) (t, s) =
     (if s (ip, port) = None then (True, (Suc t, s((ip, port) \<mapsto> t + secs_nanos secs))) else (False, (t, s)))"

lemma table_contract: "nft_contract table_clock table_nft fst snd 2"
proof -
  have t: "fst s \<le> fst s'" if "table_nft op s = (ok, s')" for op s ok s'
    using that by (cases "(op, s)" rule: table_nft.cases) (auto split: if_splits)
  show ?thesis
    unfolding nft_contract_def using t by (auto split: if_splits)
qed

section \<open>Properties\<close>

text \<open>
  One definition of private: an address is private for the validator and the resolver
  exactly when one of the blocks the ruleset rejects contains it, for both families.
\<close>

theorem private_is_the_blocks:
  "is_private_addr ip \<longleftrightarrow> (\<exists>block \<in> set private_blocks. cidr_contains block ip)"
  by (rule private_iff)

text \<open>
  Only wholly private rules are lifted above the rejects: every address of the block
  \<open>named_private\<close> answers is private, and a wildcard never names one.
\<close>

theorem named_private_is_private:
  assumes "rule_wf r" and "named_private r = Some c"
  shows "(\<forall>ip. cidr_contains c ip \<longrightarrow> is_private_addr ip) \<and> (\<forall>w. ar_host r \<noteq> Wildcard w)"
  using named_private_inside [OF assms] assms(2) by (auto simp: named_private_def)

theorem named_private_is_private_witness:
  "is_private_addr (V4 0x0A010203)"
proof -
  let ?c = "\<lparr>cidr_addr = V4 0x0A010000, cidr_prefix = 16\<rparr>"
  let ?r = "\<lparr>ar_host = CidrHost ?c, ar_port = Some 5432\<rparr>"
  have "expect_cidr ''10.0.0.0/8'' = \<lparr>cidr_addr = V4 0x0A000000, cidr_prefix = 8\<rparr>"
    using private_v4_blocks by (simp add: PRIVATE_V4_def)
  moreover have "expect_cidr ''10.0.0.0/8'' \<in> set private_blocks"
    by (simp add: private_blocks_def PRIVATE_V4_def)
  ultimately have b: "\<lparr>cidr_addr = V4 0x0A000000, cidr_prefix = 8\<rparr> \<in> set private_blocks" by simp
  have n: "named_private ?r = Some ?c"
    using bexI [OF _ b, of "\<lambda>b. cidr_prefix b \<le> 16 \<and> cidr_contains b (V4 0x0A010000)"]
    by (simp add: named_private_def cidr_contains_def block_contains_iff del: block_contains.simps(1,2))
  have "rule_wf ?r"
    by (simp add: rule_wf_def cidr_wf_def max_prefix_def)
  from named_private_is_private [OF this n] show ?thesis
    by (simp add: cidr_contains_def block_contains_iff del: block_contains.simps is_private_addr.simps)
qed

text \<open>
  C2. The filter's decision, exactly and for every packet: traffic on the loopback interface and
  of an established connection passes; a new TCP connection over the connection limit is
  rejected; and any other packet is accepted if and only if it is DNS to the forwarder
  169.254.1.1 outside \<open>egress\<close>, or under \<open>egress\<close> with the flag a rule written as a private
  block contains its destination, or the destination is public and the mode, a block rule or the
  sets allow it. So but for the forwarder a private address is never reached through a name,
  whatever is in the sets.
\<close>

theorem filter_decision:
  "chain_verdict E k (chain_rules network rules allow_private n) \<longleftrightarrow>
     pk_loopback k \<or> pk_established k
     \<or> (\<not> (pk_tcp k \<and> pk_over_limit k)
        \<and> ((network \<noteq> Egress \<and> pk_dst k = V4 0xA9FE0101 \<and> pk_dport k = 53)
           \<or> (network = Egress \<and> allow_private
              \<and> (\<exists>r \<in> set rules. \<exists>c. named_private r = Some c \<and> cidr_contains c (pk_dst k)
                   \<and> port_matches k (ar_port r)))
           \<or> (\<not> is_private_addr (pk_dst k)
              \<and> (network = Full
                 \<or> (\<exists>r \<in> set rules. \<exists>c. ar_host r = CidrHost c \<and> named_private r = None
                      \<and> cidr_contains c (pk_dst k) \<and> port_matches k (ar_port r))
                 \<or> (\<exists>port. (pk_dst k, port) \<in> E \<and> port_matches k port)))))"
proof (cases "fresh k \<and> \<not> (pk_tcp k \<and> pk_over_limit k)")
  case True
  then show ?thesis
    using chain_policy [of k E network rules allow_private n]
    by (simp only: fresh_def accepted_above_def accepted_below_def) blast
next
  case False
  then show ?thesis
    using chain_policy_early [of k E network rules allow_private n] by (auto simp: fresh_def)
qed

text \<open>
  What is resolved ahead of time: every entry comes from a rule that names it (a block
  rule's own address, or an address the host gave for an exact name, with that rule's port),
  none that came from a name is private, and entries are sorted without repetition.
\<close>

theorem resolve_allow_entries:
  "(\<forall>(ip, port) \<in> set (al_entries (resolve_allow resolve rules)).
      \<exists>r \<in> set rules. named_private r = None \<and> ar_port r = port
        \<and> (case ar_host r of
             CidrHost c \<Rightarrow> ip = cidr_addr c
           | Exact name \<Rightarrow> ip \<in> set (resolve name) \<and> \<not> is_private_addr ip
           | Wildcard w \<Rightarrow> False))
   \<and> sorted_wrt (<) (al_entries (resolve_allow resolve rules))"
proof -
  define al where "al = foldl (allow_step resolve) \<lparr>al_entries = [], al_unresolved = []\<rparr> rules"
  have "\<exists>r \<in> set rules. named_private r = None \<and> ar_port r = port
        \<and> (case ar_host r of
             CidrHost c \<Rightarrow> ip = cidr_addr c
           | Exact name \<Rightarrow> ip \<in> set (resolve name) \<and> \<not> is_private_addr ip
           | Wildcard w \<Rightarrow> False)" if "(ip, port) \<in> set (al_entries al)" for ip port
    using that unfolding al_def
  proof (induction rules rule: rev_induct)
    case (snoc r rules)
    then show ?case
      by (auto simp: allow_step_def Let_def split: if_splits host_pattern.splits)
  qed simp
  moreover have "sorted_wrt (<) (remdups_adj (sort xs))" for xs :: "(ip_addr \<times> nat option) list"
    by (rule sorted_dedup) simp
  ultimately show ?thesis
    by (auto simp: resolve_allow_def al_def [symmetric] Let_def)
qed

theorem resolve_allow_entries_witness:
  "(V4 0x0A000001, None) \<notin> set (al_entries (resolve_allow (\<lambda>_. [V4 0x08080808, V4 0x0A000001])
       [\<lparr>ar_host = Exact ''db.example'', ar_port = None\<rparr>]))"
proof -
  have "is_private_addr (V4 0x0A000001)"
    by (simp add: v4_is_private_def octet_def)
  then show ?thesis
    using resolve_allow_entries [of "\<lambda>_. [V4 0x08080808, V4 0x0A000001]"
        "[\<lparr>ar_host = Exact ''db.example'', ar_port = None\<rparr>]"]
    by (auto simp del: is_private_addr.simps)
qed

end
