(* ===== verification/Rust_Utf8.thy ===== *)
theory Rust_Utf8
  imports Rust_Strings
begin

text \<open>
  UTF-8 as \<open>String::from_utf8\<close> and \<open>String::from_utf8_lossy\<close> read it.
\<close>

text \<open>
  \<open>String::from_utf8_lossy\<close>: each maximal ill-formed sequence becomes U+FFFD. \<open>utf8_front\<close> is
  the length of the well-formed sequence at the front, or that of the ill-formed one.
\<close>

definition is_cont :: "nat \<Rightarrow> bool" where "is_cont b \<longleftrightarrow> 0x80 \<le> b \<and> b \<le> 0xBF"

definition second_ok :: "nat \<Rightarrow> nat \<Rightarrow> bool" where
  "second_ok a b \<longleftrightarrow>
     (if a = 0xE0 then 0xA0 \<le> b \<and> b \<le> 0xBF
      else if a = 0xED then 0x80 \<le> b \<and> b \<le> 0x9F
      else if a = 0xF0 then 0x90 \<le> b \<and> b \<le> 0xBF
      else if a = 0xF4 then 0x80 \<le> b \<and> b \<le> 0x8F
      else is_cont b)"

definition utf8_width :: "nat \<Rightarrow> nat" where
  "utf8_width a =
     (if a < 0x80 then 1 else if 0xC2 \<le> a \<and> a \<le> 0xDF then 2
      else if 0xE0 \<le> a \<and> a \<le> 0xEF then 3 else if 0xF0 \<le> a \<and> a \<le> 0xF4 then 4 else 0)"

definition utf8_front :: "nat list \<Rightarrow> bool \<times> nat" where
  "utf8_front bs =
     (case bs of [] \<Rightarrow> (True, 0)
      | a # r \<Rightarrow>
         (let w = utf8_width a in
          if w = 0 then (False, 1)
          else if w = 1 then (True, 1)
          else case r of [] \<Rightarrow> (False, 1)
           | b # r2 \<Rightarrow>
              if \<not> second_ok a b then (False, 1)
              else if w = 2 then (True, 2)
              else case r2 of [] \<Rightarrow> (False, 2)
               | c # r3 \<Rightarrow>
                  if \<not> is_cont c then (False, 2)
                  else if w = 3 then (True, 3)
                  else case r3 of [] \<Rightarrow> (False, 3)
                   | d # _ \<Rightarrow> if is_cont d then (True, 4) else (False, 3)))"

lemma utf8_front_pos: "bs \<noteq> [] \<Longrightarrow> 0 < snd (utf8_front bs)"
  by (auto simp: utf8_front_def Let_def split: list.splits)

function utf8_lossy :: "nat list \<Rightarrow> string" where
  "utf8_lossy bs =
     (if bs = [] then []
      else let (ok, n) = utf8_front bs
           in (if ok then map char_of (take n bs) else [CHR 0xEF, CHR 0xBF, CHR 0xBD])
              @ utf8_lossy (drop n bs))"
  by pat_completeness auto
termination
proof (relation "measure length", simp)
  fix bs :: "nat list" and x ok n
  assume "bs \<noteq> []" "x = utf8_front bs" "(ok, n) = x"
  then show "(drop n bs, bs) \<in> measure length"
    using utf8_front_pos [of bs] by (auto simp: prod_eq_iff)
qed

declare utf8_lossy.simps [simp del]

text \<open>\<open>String::from_utf8\<close> on bytes held as characters: whether they are well formed.\<close>

function utf8_ok :: "nat list \<Rightarrow> bool" where
  "utf8_ok bs = (if bs = [] then True else fst (utf8_front bs) \<and> utf8_ok (drop (snd (utf8_front bs)) bs))"
  by pat_completeness auto
termination
proof (relation "measure length", simp)
  fix bs :: "nat list"
  assume "bs \<noteq> []"
  then show "(drop (snd (utf8_front bs)) bs, bs) \<in> measure length"
    using utf8_front_pos [of bs] by simp
qed

declare utf8_ok.simps [simp del]

definition is_utf8 :: "string \<Rightarrow> bool" where
  "is_utf8 s \<longleftrightarrow> utf8_ok (map code s)"

end
