(* ===== verification/Zygo_Dns.thy ===== *)
theory Zygo_Dns
  imports Zygo_Net Rust_Utf8
begin

text \<open>
  The egress resolver (\<open>crates/zygo-core/src/net/dns.rs\<close>): the query parser, the answer
  builder with its size limit, the verdict of the allowlist on a name, and \<open>answer\<close>, whose
  two callbacks (resolving on the host, admitting into the filter) are parameters that may
  keep a state. The socket loop of \<open>serve\<close> is one \<open>serve_step\<close> per received packet.
\<close>

section \<open>Queries\<close>

definition TYPE_A :: u16 where "TYPE_A = 1"
definition TYPE_AAAA :: u16 where "TYPE_AAAA = 28"
definition CLASS_IN :: u16 where "CLASS_IN = 1"
definition ANSWER_TTL :: u32 where "ANSWER_TTL = 30"
definition MAX_PACKET :: nat where "MAX_PACKET = 512"

record query =
  q_id :: u16
  q_name :: string
  q_qtype :: u16
  q_question :: "byte list"
  q_rd :: bool

definition byte_at :: "byte list \<Rightarrow> nat \<Rightarrow> byte option" where
  "byte_at packet at = (if at < length packet then Some (packet ! at) else None)"

definition u16_at :: "byte list \<Rightarrow> nat \<Rightarrow> u16 option" where
  "u16_at packet at = do { a \<leftarrow> byte_at packet at; b \<leftarrow> byte_at packet (at + 1); Some (u16_of_be a b) }"

text \<open>The label loop: from offset \<open>at\<close> with the labels so far, to the offset after the root.\<close>

function parse_labels :: "byte list \<Rightarrow> nat \<Rightarrow> string list \<Rightarrow> (string list \<times> nat) option" where
  "parse_labels packet at labels =
     (case byte_at packet at of
        None \<Rightarrow> None
      | Some b \<Rightarrow>
          (let len = unat b in
           if len = 0 then Some (labels, at + 1)
           else if b AND 0xC0 \<noteq> 0 then None
           else if at + 1 + len > length packet then None
           else let label = to_ascii_lowercase (utf8_lossy (map unat (take len (drop (at + 1) packet))));
                    labels' = labels @ [label]
                in if length labels' > 127 then None else parse_labels packet (at + 1 + len) labels'))"
  by pat_completeness auto
termination
  by (relation "measure (\<lambda>(packet, at, labels). length packet - at)")
    (auto simp: byte_at_def split: if_splits)

declare parse_labels.simps [simp del]

definition parse_query :: "byte list \<Rightarrow> query option" where
  "parse_query packet =
     (if length packet < 12 then None
      else do {
        ident \<leftarrow> u16_at packet 0;
        flags \<leftarrow> u16_at packet 2;
        qdcount \<leftarrow> u16_at packet 4;
        if flags AND 0x8000 \<noteq> 0 then None
        else if qdcount \<noteq> 1 then None
        else do {
          (labels, at) \<leftarrow> parse_labels packet 12 [];
          qtype \<leftarrow> u16_at packet at;
          qclass \<leftarrow> u16_at packet (at + 2);
          if qclass \<noteq> CLASS_IN then None
          else Some \<lparr>q_id = ident, q_name = join ''.'' labels, q_qtype = qtype,
                     q_question = take (at + 4 - 12) (drop 12 packet),
                     q_rd = (flags AND 0x0100 \<noteq> 0)\<rparr> } })"

section \<open>Answers\<close>

datatype rcode = NoError | NxDomain

definition rcode_value :: "rcode \<Rightarrow> u16" where
  "rcode_value r = (case r of NoError \<Rightarrow> 0 | NxDomain \<Rightarrow> 3)"

definition of_type :: "u16 \<Rightarrow> ip_addr \<Rightarrow> bool" where
  "of_type qtype a \<longleftrightarrow>
     (if qtype = TYPE_A then is_ipv4 a else if qtype = TYPE_AAAA then \<not> is_ipv4 a else False)"

definition record_size :: "u16 \<Rightarrow> nat" where
  "record_size qtype = (if qtype = TYPE_AAAA then 28 else 16)"

definition usable_answers :: "query \<Rightarrow> ip_addr list \<Rightarrow> nat" where
  "usable_answers q answers =
     (let fixed = 12 + length (q_question q); room = (MAX_PACKET - fixed) div record_size (q_qtype q)
      in min room (length answers))"

definition v6_octets :: "128 word \<Rightarrow> byte list" where
  "v6_octets a = map (\<lambda>i. ucast (drop_bit (120 - 8 * i) a)) [0..<16]"

definition answer_record :: "query \<Rightarrow> ip_addr \<Rightarrow> byte list" where
  "answer_record q addr =
     [0xC0, 0x0C] @ u16_be (q_qtype q) @ u16_be CLASS_IN @ u32_be ANSWER_TTL
     @ (case addr of
          V4 v4 \<Rightarrow> u16_be 4 @ u32_be v4
        | V6 v6 \<Rightarrow> u16_be 16 @ v6_octets v6)"

definition response_flags :: "query \<Rightarrow> rcode \<Rightarrow> u16" where
  "response_flags q rc =
     ((0x8000 OR 0x0400 OR 0x0080) OR (if q_rd q then 0x0100 else 0)) OR rcode_value rc"

definition response_answers :: "query \<Rightarrow> ip_addr list \<Rightarrow> ip_addr list" where
  "response_answers q addrs =
     (let answers = filter (of_type (q_qtype q)) addrs in take (usable_answers q answers) answers)"

definition response :: "query \<Rightarrow> rcode \<Rightarrow> ip_addr list \<Rightarrow> byte list" where
  "response q rc addrs =
     (let answers = response_answers q addrs
      in u16_be (q_id q) @ u16_be (response_flags q rc) @ u16_be 1
         @ u16_be (word_of_nat (length answers)) @ u16_be 0 @ u16_be 0
         @ q_question q @ concat (map (answer_record q) answers))"

section \<open>Deciding\<close>

definition verdict :: "allow_rule list \<Rightarrow> string \<Rightarrow> nat option list" where
  "verdict rules name =
     remdups_adj (sort (map ar_port (filter (\<lambda>r. matches_host r name) rules)))"

text \<open>The admitting loop: an address the filter did not take is left out.\<close>

fun admit_each ::
  "(ip_addr \<Rightarrow> nat option list \<Rightarrow> 's \<Rightarrow> bool \<times> 's) \<Rightarrow> nat option list \<Rightarrow> ip_addr list \<Rightarrow> 's
     \<Rightarrow> ip_addr list \<times> 's" where
  "admit_each adm ports [] s = ([], s)"
| "admit_each adm ports (a # addrs) s =
     (let (ok, s1) = adm a ports s; (admitted, s2) = admit_each adm ports addrs s1
      in (if ok then a # admitted else admitted, s2))"

definition usable_addrs :: "(string \<Rightarrow> ip_addr list) \<Rightarrow> string \<Rightarrow> ip_addr list" where
  "usable_addrs resolve name =
     remdups_adj (sort (filter (\<lambda>a. \<not> is_private_addr a) (resolve name)))"

definition answer ::
  "query \<Rightarrow> allow_rule list \<Rightarrow> (string \<Rightarrow> ip_addr list)
     \<Rightarrow> (ip_addr \<Rightarrow> nat option list \<Rightarrow> 's \<Rightarrow> bool \<times> 's) \<Rightarrow> 's \<Rightarrow> byte list \<times> 's" where
  "answer q rules resolve adm s =
     (if verdict rules (q_name q) = [] then (response q NxDomain [], s)
      else if q_qtype q \<noteq> TYPE_A \<and> q_qtype q \<noteq> TYPE_AAAA then (response q NoError [], s)
      else let (admitted, s') = admit_each adm (verdict rules (q_name q))
                                  (usable_addrs resolve (q_name q)) s
           in (response q NoError admitted, s'))"

text \<open>One packet of \<open>serve\<close>: the reply to send, if any. The buffer holds 512 bytes.\<close>

definition serve_step ::
  "allow_rule list \<Rightarrow> (string \<Rightarrow> ip_addr list)
     \<Rightarrow> (ip_addr \<Rightarrow> nat option list \<Rightarrow> 's \<Rightarrow> bool \<times> 's) \<Rightarrow> byte list \<Rightarrow> 's \<Rightarrow> byte list option \<times> 's" where
  "serve_step rules resolve adm packet s =
     (case parse_query (take MAX_PACKET packet) of
        None \<Rightarrow> (None, s)
      | Some q \<Rightarrow> (let (reply, s') = answer q rules resolve adm s in (Some reply, s')))"

section \<open>Facts about replies\<close>

lemma parse_query_question:
  assumes "parse_query packet = Some q"
  shows "12 + length (q_question q) \<le> length packet"
  using assms by (auto simp: parse_query_def bind_eq_Some_conv split: if_splits)

lemma answer_record_length: "of_type (q_qtype q) a \<Longrightarrow> length (answer_record q a) = record_size (q_qtype q)"
  by (cases a) (auto simp: of_type_def answer_record_def record_size_def v6_octets_def TYPE_A_def
      TYPE_AAAA_def split: if_splits)

lemma concat_records_length:
  "\<forall>a \<in> set as. of_type (q_qtype q) a \<Longrightarrow>
     length (concat (map (answer_record q) as)) = length as * record_size (q_qtype q)"
  by (induction as) (simp_all add: answer_record_length)

lemma response_answers_typed: "a \<in> set (response_answers q addrs) \<Longrightarrow> of_type (q_qtype q) a \<and> a \<in> set addrs"
  by (auto simp: response_answers_def Let_def dest: in_set_takeD)

lemma record_size_pos: "16 \<le> record_size t"
  by (simp add: record_size_def)

lemma response_answers_fit:
  "length (response_answers q addrs) * record_size (q_qtype q) \<le> MAX_PACKET - (12 + length (q_question q))"
proof -
  have "length (response_answers q addrs) \<le> (MAX_PACKET - (12 + length (q_question q))) div record_size (q_qtype q)"
    by (simp add: response_answers_def usable_answers_def Let_def)
  then show ?thesis
    by (metis div_times_less_eq_dividend le_trans mult_le_mono1)
qed

lemma response_length:
  "length (response q rc addrs) =
     12 + length (q_question q) + length (response_answers q addrs) * record_size (q_qtype q)"
  using concat_records_length [of "response_answers q addrs" q] response_answers_typed
  by (auto simp: response_def Let_def simp del: length_concat)

lemma admit_each_subset: "a \<in> set (fst (admit_each adm ports addrs s)) \<Longrightarrow> a \<in> set addrs"
proof (induction addrs arbitrary: s)
  case (Cons b addrs)
  then show ?case
    using Cons.IH [of "snd (adm b ports s)"]
    by (auto simp: Let_def split_beta split: if_splits)
qed simp

lemma usable_addrs_set: "set (usable_addrs resolve name) = {a \<in> set (resolve name). \<not> is_private_addr a}"
  by (auto simp: usable_addrs_def)

lemma verdict_set: "set (verdict rules name) = {ar_port r |r. r \<in> set rules \<and> matches_host r name}"
  by (auto simp: verdict_def)

lemma verdict_Nil: "verdict rules name = [] \<longleftrightarrow> (\<forall>r \<in> set rules. \<not> matches_host r name)"
proof -
  have "verdict rules name = [] \<longleftrightarrow> set (verdict rules name) = {}" by simp
  also have "\<dots> \<longleftrightarrow> (\<forall>r \<in> set rules. \<not> matches_host r name)"
    unfolding verdict_set by auto
  finally show ?thesis .
qed

section \<open>Facts about queries\<close>

definition byte_of :: "char \<Rightarrow> byte" where "byte_of c = word_of_nat (code c)"

definition label_bytes :: "string \<Rightarrow> byte list" where
  "label_bytes l = word_of_nat (length l) # map byte_of l"

definition label_ok :: "string \<Rightarrow> bool" where
  "label_ok l \<longleftrightarrow> l \<noteq> [] \<and> length l < 64 \<and> (\<forall>c \<in> set l. code c < 128)"

definition question_bytes :: "string list \<Rightarrow> u16 \<Rightarrow> byte list" where
  "question_bytes labels qtype =
     concat (map label_bytes labels) @ [0] @ u16_be qtype @ u16_be CLASS_IN"

definition query_packet :: "u16 \<Rightarrow> bool \<Rightarrow> string list \<Rightarrow> u16 \<Rightarrow> byte list \<Rightarrow> byte list" where
  "query_packet ident rd labels qtype extra =
     u16_be ident @ u16_be (if rd then 0x0100 else 0) @ u16_be 1 @ [0, 0, 0, 0, 0, 0]
     @ question_bytes labels qtype @ extra"

lemma utf8_lossy_ascii: "\<forall>b \<in> set bs. b < 128 \<Longrightarrow> utf8_lossy bs = map char_of bs"
proof (induction bs)
  case (Cons b bs)
  then have "utf8_front (b # bs) = (True, 1)"
    by (simp add: utf8_front_def utf8_width_def Let_def)
  with Cons show ?case by (subst utf8_lossy.simps) simp
qed (simp add: utf8_lossy.simps)

lemma unat_byte_of [simp]: "unat (byte_of c) = code c"
  by (simp add: byte_of_def unat_of_nat take_bit_nat_eq_self)

lemma char_of_code [simp]: "char_of (code c) = c"
  by (simp add: code_def)

lemma label_length_byte:
  assumes "label_ok l"
  shows "unat (word_of_nat (length l) :: byte) = length l" "(word_of_nat (length l) :: byte) AND 0xC0 = 0"
proof -
  show u: "unat (word_of_nat (length l) :: byte) = length l"
    using assms by (simp add: label_ok_def unat_of_nat take_bit_nat_eq_self)
  show "(word_of_nat (length l) :: byte) AND 0xC0 = 0"
    using masked_eq [OF masks(1), of "word_of_nat (length l)" 0] assms u
    by (simp add: eq_unat [of "drop_bit _ _"] unat_drop label_ok_def)
qed

lemma parse_labels_built:
  assumes "packet = pre @ concat (map label_bytes ls) @ 0 # rest"
    and "\<forall>l \<in> set ls. label_ok l" and "length labels + length ls \<le> 127"
  shows "parse_labels packet (length pre) labels =
     Some (labels @ map to_ascii_lowercase ls, length pre + length (concat (map label_bytes ls)) + 1)"
  using assms
proof (induction ls arbitrary: pre labels)
  case Nil
  then show ?case
    by (subst parse_labels.simps) (simp add: byte_at_def nth_append)
next
  case (Cons l ls)
  let ?n = "word_of_nat (length l) :: byte"
  have ok: "label_ok l" using Cons.prems(2) by simp
  note len = label_length_byte [OF ok]
  have p: "packet = (pre @ label_bytes l) @ concat (map label_bytes ls) @ 0 # rest"
    using Cons.prems(1) by simp
  have "byte_at packet (length pre) = Some ?n"
    using Cons.prems(1) by (simp add: byte_at_def nth_append label_bytes_def)
  moreover have "take (length l) (drop (length pre + 1) packet) = map byte_of l"
    using Cons.prems(1) by (simp add: label_bytes_def)
  moreover have "utf8_lossy (map unat (map byte_of l)) = l"
    using ok by (subst utf8_lossy_ascii) (auto simp: label_ok_def comp_def)
  moreover have "\<not> length packet < length pre + 1 + length l"
    using Cons.prems(1) by (simp add: label_bytes_def)
  moreover have "length (labels @ [to_ascii_lowercase l]) \<le> 127"
    using Cons.prems(3) by simp
  moreover have "0 < length l"
    using ok by (simp add: label_ok_def)
  ultimately have "parse_labels packet (length pre) labels =
      parse_labels packet (length (pre @ label_bytes l)) (labels @ [to_ascii_lowercase l])"
    using len by (subst parse_labels.simps) (simp add: Let_def label_bytes_def)
  then show ?case
    using Cons.IH [OF p] Cons.prems by (simp add: algebra_simps)
qed

lemma u16_at_split:
  "packet = pre @ u16_be w @ rest \<Longrightarrow> n = length pre \<Longrightarrow> u16_at packet n = Some w"
  by (simp add: u16_at_def byte_at_def nth_append u16_be_def u16_of_be_u16_be)

lemma parse_query_packet:
  assumes "\<forall>l \<in> set labels. label_ok l" and "length labels \<le> 127"
  shows "parse_query (query_packet ident rd labels qtype extra) =
     Some \<lparr>q_id = ident, q_name = join ''.'' (map to_ascii_lowercase labels), q_qtype = qtype,
           q_question = question_bytes labels qtype, q_rd = rd\<rparr>"
proof -
  let ?f = "(if rd then 0x0100 else 0) :: u16"
  let ?p = "query_packet ident rd labels qtype extra"
  let ?names = "concat (map label_bytes labels)"
  let ?pre = "u16_be ident @ u16_be ?f @ u16_be 1 @ [0, 0, 0, 0, 0, 0]"
  have p: "?p = ?pre @ ?names @ 0 # u16_be qtype @ u16_be CLASS_IN @ extra"
    by (simp add: query_packet_def question_bytes_def)
  have labels: "parse_labels ?p 12 [] = Some (map to_ascii_lowercase labels, 12 + length ?names + 1)"
    using parse_labels_built [OF p assms(1), of "[]"] assms(2) by simp
  have "u16_at ?p 0 = Some ident"
    by (rule u16_at_split [of _ "[]"]) (simp_all add: query_packet_def)
  moreover have "u16_at ?p 2 = Some ?f"
    by (rule u16_at_split [of _ "u16_be ident"]) (simp_all add: query_packet_def)
  moreover have "u16_at ?p 4 = Some 1"
    by (rule u16_at_split [of _ "u16_be ident @ u16_be ?f"]) (simp_all add: query_packet_def)
  moreover have "u16_at ?p (12 + length ?names + 1) = Some qtype"
    by (rule u16_at_split [of _ "?pre @ ?names @ [0]"]) (simp_all add: p)
  moreover have "u16_at ?p (12 + length ?names + 1 + 2) = Some CLASS_IN"
    by (rule u16_at_split [of _ "?pre @ ?names @ [0] @ u16_be qtype"]) (simp_all add: p)
  moreover have "take (12 + length ?names + 1 + 4 - 12) (drop 12 ?p) = question_bytes labels qtype"
    by (simp add: p question_bytes_def)
  ultimately show ?thesis
    using labels by (simp add: parse_query_def p [THEN arg_cong, of length])
qed

section \<open>Properties\<close>

text \<open>
  Replies are well-formed: the reply to any query parsed from a packet that fits the
  buffer is at most 512 bytes, carries the query's id and question, and its answer count is
  exactly the number of records that follow, however many addresses there were.
\<close>

theorem reply_well_formed:
  assumes "parse_query packet = Some q" and "length packet \<le> 512"
  shows "\<exists>n. length (response q rc addrs) = 12 + length (q_question q) + n * record_size (q_qtype q)
    \<and> length (response q rc addrs) \<le> 512
    \<and> n \<le> length (filter (of_type (q_qtype q)) addrs)
    \<and> take 2 (response q rc addrs) = u16_be (q_id q)
    \<and> take 2 (drop 6 (response q rc addrs)) = u16_be (word_of_nat n) \<and> n < 65536
    \<and> take (length (q_question q)) (drop 12 (response q rc addrs)) = q_question q"
proof (intro exI conjI)
  let ?n = "length (response_answers q addrs)"
  have f: "?n * record_size (q_qtype q) \<le> 512 - (12 + length (q_question q))"
    using response_answers_fit [of q addrs] by (simp add: MAX_PACKET_def)
  show "length (response q rc addrs) = 12 + length (q_question q) + ?n * record_size (q_qtype q)"
    by (rule response_length)
  then show "length (response q rc addrs) \<le> 512"
    using f parse_query_question [OF assms(1)] assms(2) by linarith
  show "?n \<le> length (filter (of_type (q_qtype q)) addrs)"
    by (simp add: response_answers_def Let_def)
  have "?n * 16 \<le> ?n * record_size (q_qtype q)"
    using record_size_pos by (rule mult_le_mono2)
  with f show "?n < 65536" by linarith
qed (simp_all add: response_def Let_def numeral_2_eq_2 u16_be_def)

theorem reply_well_formed_witness:
  "length (response \<lparr>q_id = 7, q_name = ''a.io'', q_qtype = TYPE_A,
      q_question = question_bytes [''a'', ''io''] TYPE_A, q_rd = True\<rparr> NoError
      (replicate 100 (V4 0x08080808))) \<le> 512"
proof -
  have ok: "\<forall>l \<in> set [''a'', ''io'']. label_ok l"
    by (simp add: label_ok_def str_simps)
  have lower: "to_ascii_lowercase ''a'' = ''a''" "to_ascii_lowercase ''io'' = ''io''"
    by (rule to_ascii_lowercase_id; simp add: is_ascii_uppercase_def str_simps)+
  have "parse_query (query_packet 7 True [''a'', ''io''] TYPE_A []) = Some \<lparr>q_id = 7, q_name = ''a.io'',
      q_qtype = TYPE_A, q_question = question_bytes [''a'', ''io''] TYPE_A, q_rd = True\<rparr>"
    using parse_query_packet [OF ok, of 7 True TYPE_A "[]"] lower by simp
  moreover have "length (query_packet 7 True [''a'', ''io''] TYPE_A []) \<le> 512"
    by (simp add: query_packet_def question_bytes_def label_bytes_def)
  ultimately show ?thesis
    using reply_well_formed by blast
qed

text \<open>
  A query is read as it was asked: a standard query for any labels of 1 to 63 ASCII
  bytes, with whatever follows the question (an EDNS record, say), is parsed to its id,
  type, recursion bit, the lower-cased dotted name, and its question byte for byte.
\<close>

theorem query_parsed_as_asked:
  assumes "\<forall>l \<in> set labels. l \<noteq> [] \<and> length l < 64 \<and> (\<forall>c \<in> set l. code c < 128)"
    and "length labels \<le> 127"
  shows "parse_query (query_packet ident rd labels qtype extra) =
     Some \<lparr>q_id = ident, q_name = join ''.'' (map to_ascii_lowercase labels), q_qtype = qtype,
           q_question = question_bytes labels qtype, q_rd = rd\<rparr>"
  by (rule parse_query_packet) (use assms in \<open>auto simp: label_ok_def\<close>)

theorem query_parsed_as_asked_witness:
  "\<exists>q. parse_query (query_packet 1 True [''API'', ''com''] TYPE_AAAA [0, 0]) = Some q \<and> q_qtype q = TYPE_AAAA"
  by (subst query_parsed_as_asked) (simp_all add: str_simps)

text \<open>
  The resolver's decision: a name no rule matches gets an empty NXDOMAIN and neither
  the host's resolver nor the filter is touched; for a matched name the reply holds only
  public addresses the host gave for it, and any type but A and AAAA gets no answer.
\<close>

theorem answer_decision:
  "((\<forall>r \<in> set rules. \<not> matches_host r (q_name q))
      \<longrightarrow> answer q rules resolve adm s = (response q NxDomain [], s))
   \<and> ((\<exists>r \<in> set rules. matches_host r (q_name q))
      \<longrightarrow> (\<exists>addrs. fst (answer q rules resolve adm s) = response q NoError addrs
            \<and> set addrs \<subseteq> {a \<in> set (resolve (q_name q)). \<not> is_private_addr a}
            \<and> (q_qtype q \<notin> {TYPE_A, TYPE_AAAA} \<longrightarrow> addrs = [] \<and> snd (answer q rules resolve adm s) = s)))"
proof (intro conjI impI)
  assume "\<forall>r \<in> set rules. \<not> matches_host r (q_name q)"
  then show "answer q rules resolve adm s = (response q NxDomain [], s)"
    by (simp add: answer_def verdict_Nil)
next
  assume m: "\<exists>r \<in> set rules. matches_host r (q_name q)"
  let ?adm = "admit_each adm (verdict rules (q_name q)) (usable_addrs resolve (q_name q)) s"
  let ?addrs = "if q_qtype q \<notin> {TYPE_A, TYPE_AAAA} then [] else fst ?adm"
  have "answer q rules resolve adm s =
      (if q_qtype q \<notin> {TYPE_A, TYPE_AAAA} then (response q NoError [], s)
       else (response q NoError (fst ?adm), snd ?adm))"
  proof -
    have "verdict rules (q_name q) \<noteq> []"
      using m by (auto simp: verdict_Nil)
    then show ?thesis
      by (simp add: answer_def split_beta Let_def)
  qed
  moreover have "set (fst ?adm) \<subseteq> {a \<in> set (resolve (q_name q)). \<not> is_private_addr a}"
    using admit_each_subset usable_addrs_set by fastforce
  ultimately show "\<exists>addrs. fst (answer q rules resolve adm s) = response q NoError addrs
            \<and> set addrs \<subseteq> {a \<in> set (resolve (q_name q)). \<not> is_private_addr a}
            \<and> (q_qtype q \<notin> {TYPE_A, TYPE_AAAA} \<longrightarrow> addrs = [] \<and> snd (answer q rules resolve adm s) = s)"
    by (intro exI [of _ ?addrs]) auto
qed

theorem answer_decision_witness:
  "answer \<lparr>q_id = 1, q_name = ''evil.io'', q_qtype = TYPE_A, q_question = [], q_rd = True\<rparr> []
     (\<lambda>_. [V4 0x08080808]) (\<lambda>_ _ s. (True, Suc s)) 0
   = (response \<lparr>q_id = 1, q_name = ''evil.io'', q_qtype = TYPE_A, q_question = [], q_rd = True\<rparr> NxDomain [], 0)"
  by (rule answer_decision [THEN conjunct1, THEN mp]) simp

end
