(* ===== verification/Rust_Text.thy ===== *)
theory Rust_Text
  imports Rust_Strings
begin

text \<open>
  Lines and words of a text, as \<open>str::lines\<close> and \<open>str::split_whitespace\<close> find them.
\<close>

section \<open>Lines and words of a text\<close>

text \<open>\<open>str::lines\<close>: the newline and a carriage return before it are not part of a line.\<close>

definition strip_cr :: "string \<Rightarrow> string" where
  "strip_cr s = (case strip_suffix [CHR 0x0D] s of Some r \<Rightarrow> r | None \<Rightarrow> s)"

definition lines :: "string \<Rightarrow> string list" where
  "lines s =
     (let ps = split_on (CHR 0x0A) s; full = map strip_cr (butlast ps)
      in if last ps = [] then full else full @ [last ps])"

text \<open>\<open>str::split_whitespace\<close>.\<close>

fun next_word :: "string \<Rightarrow> string \<times> string" where
  "next_word [] = ([], [])"
| "next_word (c # s) =
     (case strip_any ws_encodings (c # s) of
        Some r \<Rightarrow> ([], r)
      | None \<Rightarrow> (let (w, r) = next_word s in (c # w, r)))"

lemma next_word_shorter: "s \<noteq> [] \<Longrightarrow> length (snd (next_word s)) < length s"
proof (induction s)
  case (Cons c s)
  show ?case
  proof (cases "strip_any ws_encodings (c # s)")
    case None
    then show ?thesis
      using Cons.IH by (cases "s = []") (auto simp: split_beta Let_def)
  next
    case (Some r)
    then show ?thesis
      using strip_any_shorter ws_encodings_nonempty by fastforce
  qed
qed simp

function split_whitespace :: "string \<Rightarrow> string list" where
  "split_whitespace s =
     (if s = [] then []
      else let (w, r) = next_word s
           in if w = [] then split_whitespace r else w # split_whitespace r)"
  by pat_completeness auto
termination
proof (relation "measure length", simp)
  fix s :: string and x w r
  assume "s \<noteq> []" "x = next_word s" "(w, r) = x"
  then have "length r < length s"
    using next_word_shorter [of s] by (metis snd_conv)
  then show "(r, s) \<in> measure length" "(r, s) \<in> measure length" by simp_all
qed

declare split_whitespace.simps [simp del]

lemma strip_any_space: "strip_any ws_encodings (CHR '' '' # r) = Some r"
proof -
  have "code CHR '' '' = 32" by (simp add: str_simps)
  then have "char_of n = CHR '' '' \<longleftrightarrow> n = 32" if "n < 256" for n :: nat
    using that code_inject [of "char_of n" "CHR '' ''"] by simp
  then show ?thesis by (simp add: ws_encodings_def)
qed

lemma next_word_token:
  "\<forall>c \<in> set w. is_ascii_graphic c \<Longrightarrow> next_word (w @ CHR '' '' # r) = (w, r)"
  "\<forall>c \<in> set w. is_ascii_graphic c \<Longrightarrow> next_word w = (w, [])"
  by (induction w) (simp_all add: strip_any_space strip_any_graphic)

lemma split_whitespace_tokens:
  assumes "\<forall>c \<in> set (a @ b @ c). is_ascii_graphic c" and "a \<noteq> []" and "b \<noteq> []" and "c \<noteq> []"
  shows "split_whitespace (a @ '' '' @ b @ '' '' @ c) = [a, b, c]"
proof -
  have "split_whitespace c = [c]"
    using assms by (subst split_whitespace.simps) (simp add: next_word_token split_whitespace.simps)
  moreover have "split_whitespace (b @ '' '' @ c) = b # split_whitespace c"
    using assms by (subst split_whitespace.simps) (simp add: next_word_token)
  moreover have "split_whitespace (a @ '' '' @ b @ '' '' @ c) = a # split_whitespace (b @ '' '' @ c)"
    using assms by (subst split_whitespace.simps) (simp add: next_word_token)
  ultimately show ?thesis by simp
qed

end
