(* ===== verification/Zygo_Idmap.thy ===== *)
theory Zygo_Idmap
  imports Zygo_Types Rust_Text
begin

text \<open>
  Namespace sets and user-namespace id maps (\<open>crates/zygo-core/src/backend/ns/idmap.rs\<close>):
  the clone flags, the parser of \<open>/etc/subuid\<close>, the map a sandbox gets, its text, and the
  line of it an unprivileged process may write. Ids are 32-bit words, whose sums wrap.
\<close>

section \<open>Namespaces\<close>

record namespace_set =
  ns_user :: bool
  ns_pid :: bool
  ns_mount :: bool
  ns_net :: bool
  ns_ipc :: bool
  ns_uts :: bool
  ns_cgroup :: bool

definition namespaces_full :: namespace_set where
  "namespaces_full = \<lparr>ns_user = True, ns_pid = True, ns_mount = True, ns_net = True,
     ns_ipc = True, ns_uts = True, ns_cgroup = True\<rparr>"

definition for_network :: "network \<Rightarrow> namespace_set" where
  "for_network network = namespaces_full\<lparr>ns_net := (network \<noteq> Host)\<rparr>"

definition CLONE_NEWNS :: u64 where "CLONE_NEWNS = 0x00020000"
definition CLONE_NEWCGROUP :: u64 where "CLONE_NEWCGROUP = 0x02000000"
definition CLONE_NEWUTS :: u64 where "CLONE_NEWUTS = 0x04000000"
definition CLONE_NEWIPC :: u64 where "CLONE_NEWIPC = 0x08000000"
definition CLONE_NEWUSER :: u64 where "CLONE_NEWUSER = 0x10000000"
definition CLONE_NEWPID :: u64 where "CLONE_NEWPID = 0x20000000"
definition CLONE_NEWNET :: u64 where "CLONE_NEWNET = 0x40000000"

lemmas clone_flag_defs = CLONE_NEWNS_def CLONE_NEWCGROUP_def CLONE_NEWUTS_def CLONE_NEWIPC_def
  CLONE_NEWUSER_def CLONE_NEWPID_def CLONE_NEWNET_def

definition clone_flags :: "namespace_set \<Rightarrow> u64" where
  "clone_flags s =
     (let f = 0;
          f = (if ns_user s then f OR CLONE_NEWUSER else f);
          f = (if ns_pid s then f OR CLONE_NEWPID else f);
          f = (if ns_mount s then f OR CLONE_NEWNS else f);
          f = (if ns_net s then f OR CLONE_NEWNET else f);
          f = (if ns_ipc s then f OR CLONE_NEWIPC else f);
          f = (if ns_uts s then f OR CLONE_NEWUTS else f);
          f = (if ns_cgroup s then f OR CLONE_NEWCGROUP else f)
      in f)"

section \<open>Subordinate ranges\<close>

record sub_id_range =
  sr_start :: u32
  sr_count :: u32

definition parse_u32 :: "string \<Rightarrow> u32 option" where
  "parse_u32 s = map_option word_of_nat (parse_uint u32_max s)"

definition parse_subid_line :: "string \<Rightarrow> u32 \<Rightarrow> string \<Rightarrow> sub_id_range option" where
  "parse_subid_line user uid line =
     (let l = trim (hd (split_on CHR ''#'' line)) in
      case split_on CHR '':'' l of
        [] \<Rightarrow> None
      | name # rest \<Rightarrow>
          if name \<noteq> user \<and> name \<noteq> show_nat (unat uid) then None
          else (case rest of
            s # c # _ \<Rightarrow>
              (case parse_u32 (trim s) of None \<Rightarrow> None
               | Some start \<Rightarrow> (case parse_u32 (trim c) of None \<Rightarrow> None
                   | Some count \<Rightarrow> if count = 0 then None else Some \<lparr>sr_start = start, sr_count = count\<rparr>))
          | _ \<Rightarrow> None))"

definition parse_subid :: "string \<Rightarrow> string \<Rightarrow> u32 \<Rightarrow> sub_id_range list" where
  "parse_subid content user uid = List.map_filter (parse_subid_line user uid) (lines content)"

section \<open>The map\<close>

record id_map_entry =
  im_inside :: u32
  im_outside :: u32
  im_count :: u32

definition saturating_sub :: "u32 \<Rightarrow> u32 \<Rightarrow> u32" where
  "saturating_sub a b = (if b \<le> a then a - b else 0)"

definition id_map :: "u32 \<Rightarrow> u32 \<Rightarrow> sub_id_range option \<Rightarrow> id_map_entry list" where
  "id_map sandbox_uid host_uid sub =
     sort_key im_inside
       ([\<lparr>im_inside = sandbox_uid, im_outside = host_uid, im_count = 1\<rparr>]
        @ (case sub of
             None \<Rightarrow> []
           | Some rg \<Rightarrow>
               (if sandbox_uid > 0
                then [\<lparr>im_inside = 0, im_outside = sr_start rg, im_count = sandbox_uid\<rparr>] else [])
               @ (let remaining = saturating_sub (sr_count rg) sandbox_uid
                  in if remaining > 1
                     then [\<lparr>im_inside = sandbox_uid + 1, im_outside = sr_start rg + sandbox_uid,
                            im_count = remaining - 1\<rparr>] else [])))"

definition show_entry :: "id_map_entry \<Rightarrow> string" where
  "show_entry e = show_nat (unat (im_inside e)) @ '' '' @ show_nat (unat (im_outside e)) @ '' ''
     @ show_nat (unat (im_count e))"

definition render_id_map :: "id_map_entry list \<Rightarrow> string" where
  "render_id_map m = join [CHR 0x0A] (map show_entry m)"

definition nth_opt :: "'a list \<Rightarrow> nat \<Rightarrow> 'a option" where
  "nth_opt xs n = (if n < length xs then Some (xs ! n) else None)"

definition identity_line :: "string \<Rightarrow> u32 \<Rightarrow> string" where
  "identity_line m outside =
     (case find (\<lambda>l. nth_opt (split_whitespace l) 1 = Some (show_nat (unat outside))) (lines m) of
        Some l \<Rightarrow> l
      | None \<Rightarrow> (case lines m of l # _ \<Rightarrow> l | [] \<Rightarrow> []))"

section \<open>Facts\<close>

text \<open>The host id an entry gives to an id inside, read as the kernel reads the line.\<close>

definition entry_maps :: "id_map_entry \<Rightarrow> nat \<Rightarrow> nat option" where
  "entry_maps e i =
     (if unat (im_inside e) \<le> i \<and> i < unat (im_inside e) + unat (im_count e)
      then Some (unat (im_outside e) + (i - unat (im_inside e))) else None)"

definition host_ids :: "id_map_entry list \<Rightarrow> nat \<Rightarrow> nat list" where
  "host_ids m i = List.map_filter (\<lambda>e. entry_maps e i) m"

lemma sort_key_three:
  fixes f :: "'a \<Rightarrow> 'k::linorder"
  shows "sort_key f [a] = [a]"
    "f b < f a \<Longrightarrow> sort_key f [a, b] = [b, a]"
    "f a < f c \<Longrightarrow> sort_key f [a, c] = [a, c]"
    "f b < f a \<Longrightarrow> f a < f c \<Longrightarrow> sort_key f [a, b, c] = [b, a, c]"
  by (auto simp: sort_key_def not_le)

lemma unat_saturating_sub: "unat (saturating_sub a b) = unat a - unat b"
  by (auto simp: saturating_sub_def unat_sub_if_size word_le_nat_alt unat_sub)

lemma word_plus_one:
  fixes a b :: u32
  assumes "a < b"
  shows "unat (a + 1) = unat a + 1" "a < a + 1"
proof -
  have "unat a + 1 < 2 ^ 32"
    using assms unsigned_less [where ?'a = nat and w = b] by (simp add: word_less_nat_alt)
  then show "unat (a + 1) = unat a + 1"
    by (simp add: unat_word_ariths)
  then show "a < a + 1"
    by (simp add: word_less_nat_alt)
qed

text \<open>The map, written out in order.\<close>

lemma id_map_eq:
  "id_map u h sub =
     (case sub of Some r \<Rightarrow> if u > 0 then [\<lparr>im_inside = 0, im_outside = sr_start r, im_count = u\<rparr>] else []
      | None \<Rightarrow> [])
     @ [\<lparr>im_inside = u, im_outside = h, im_count = 1\<rparr>]
     @ (case sub of Some r \<Rightarrow>
          (if saturating_sub (sr_count r) u > 1
           then [\<lparr>im_inside = u + 1, im_outside = sr_start r + u,
                  im_count = saturating_sub (sr_count r) u - 1\<rparr>] else [])
        | None \<Rightarrow> [])"
proof (cases sub)
  case None
  then show ?thesis by (simp add: id_map_def)
next
  case (Some r)
  have next_id: "u < u + 1" if "saturating_sub (sr_count r) u > 1"
  proof -
    have "1 < unat (sr_count r) - unat u"
      using that unat_saturating_sub [of "sr_count r" u] by (simp add: word_less_nat_alt)
    then have "u < sr_count r"
      by (simp add: word_less_nat_alt)
    then show ?thesis by (rule word_plus_one)
  qed
  let ?me = "\<lparr>im_inside = u, im_outside = h, im_count = 1\<rparr>"
  let ?low = "\<lparr>im_inside = 0, im_outside = sr_start r, im_count = u\<rparr>"
  let ?high = "\<lparr>im_inside = u + 1, im_outside = sr_start r + u,
      im_count = saturating_sub (sr_count r) u - 1\<rparr>"
  show ?thesis
  proof (cases "u > 0"; cases "saturating_sub (sr_count r) u > 1")
    assume c: "u > 0" "saturating_sub (sr_count r) u > 1"
    with next_id show ?thesis
      using sort_key_three(4) [of im_inside ?low ?me ?high] by (simp add: id_map_def Some)
  next
    assume c: "u > 0" "\<not> saturating_sub (sr_count r) u > 1"
    then show ?thesis
      using sort_key_three(2) [of im_inside ?low ?me] by (simp add: id_map_def Some)
  next
    assume c: "\<not> u > 0" "saturating_sub (sr_count r) u > 1"
    with next_id show ?thesis
      using sort_key_three(3) [of im_inside ?me ?high] by (simp add: id_map_def Some)
  next
    assume c: "\<not> u > 0" "\<not> saturating_sub (sr_count r) u > 1"
    then show ?thesis
      by (simp add: id_map_def Some)
  qed
qed

lemma host_ids_simps [simp]:
  "host_ids [] i = []"
  "host_ids (e # m) i = (case entry_maps e i of None \<Rightarrow> host_ids m i | Some h \<Rightarrow> h # host_ids m i)"
  "host_ids (m @ m') i = host_ids m i @ host_ids m' i"
  by (simp_all add: host_ids_def List.map_filter_def split: option.split)

text \<open>
  What an id inside is mapped to. The sum of the range's start and the sandbox's id is taken
  in 32 bits, as the code takes it.
\<close>

lemma host_ids_id_map:
  "host_ids (id_map u h sub) i =
     (case sub of Some r \<Rightarrow> if i < unat u then [unat (sr_start r) + i] else [] | None \<Rightarrow> [])
     @ (if i = unat u then [unat h] else [])
     @ (case sub of Some r \<Rightarrow>
          if unat u < i \<and> i < unat (sr_count r) then [unat (sr_start r + u) + (i - unat u - 1)] else []
        | None \<Rightarrow> [])"
proof -
  have me: "entry_maps \<lparr>im_inside = u, im_outside = h, im_count = 1\<rparr> i = (if i = unat u then Some (unat h) else None)"
    by (auto simp: entry_maps_def)
  show ?thesis
  proof (cases sub)
    case None
    then show ?thesis by (simp add: id_map_eq me)
  next
    case (Some r)
    let ?s = "saturating_sub (sr_count r) u"
    have low: "host_ids (if u > 0 then [\<lparr>im_inside = 0, im_outside = sr_start r, im_count = u\<rparr>] else []) i
        = (if i < unat u then [unat (sr_start r) + i] else [])"
      by (auto simp: entry_maps_def word_less_nat_alt)
    have high: "host_ids (if ?s > 1 then [\<lparr>im_inside = u + 1, im_outside = sr_start r + u, im_count = ?s - 1\<rparr>] else []) i
        = (if unat u < i \<and> i < unat (sr_count r) then [unat (sr_start r + u) + (i - unat u - 1)] else [])"
    proof (cases "?s > 1")
      case True
      then have c: "1 < unat (sr_count r) - unat u"
        using unat_saturating_sub [of "sr_count r" u] by (simp add: word_less_nat_alt)
      then have "u < sr_count r" by (simp add: word_less_nat_alt)
      then have "unat (u + 1) = unat u + 1" by (rule word_plus_one)
      moreover have "unat (?s - 1) = unat (sr_count r) - unat u - 1"
        using True unat_saturating_sub [of "sr_count r" u]
        by (subst unat_sub) (simp_all add: word_le_nat_alt word_less_nat_alt)
      ultimately show ?thesis
        using True c by (auto simp: entry_maps_def)
    next
      case False
      then have "unat (sr_count r) - unat u \<le> 1"
        using unat_saturating_sub [of "sr_count r" u] by (simp add: word_less_nat_alt)
      then have "\<not> (unat u < i \<and> i < unat (sr_count r))" by linarith
      with False show ?thesis by simp
    qed
    show ?thesis
      unfolding id_map_eq Some option.case host_ids_simps(3) low high
      by (simp add: me)
  qed
qed

section \<open>Facts about the text of a map\<close>

lemma digit_char_Suc_0 [simp]: "digit_char (Suc 0) = CHR ''1''"
  using digit_char_simps(2) by simp

lemma split_entry:
  "split_whitespace (show_entry e) =
     [show_nat (unat (im_inside e)), show_nat (unat (im_outside e)), show_nat (unat (im_count e))]"
  unfolding show_entry_def
  by (rule split_whitespace_tokens) (use show_nat_digits digit_graphic in auto)

lemma show_entry_chars: "c \<in> set (show_entry e) \<Longrightarrow> is_ascii_digit c \<or> c = CHR '' ''"
  using show_nat_digits by (auto simp: show_entry_def)

lemma show_entry_no_newline: "CHR 0x0A \<notin> set (show_entry e)" "CHR 0x0D \<notin> set (show_entry e)"
proof -
  have "\<not> is_ascii_digit (CHR 0x0A)" "\<not> is_ascii_digit (CHR 0x0D)"
    by (simp_all add: is_ascii_digit_def str_simps)
  then show "CHR 0x0A \<notin> set (show_entry e)" "CHR 0x0D \<notin> set (show_entry e)"
    using show_entry_chars by fastforce+
qed

lemma strip_cr_id: "CHR 0x0D \<notin> set s \<Longrightarrow> strip_cr s = s"
  by (auto simp: strip_cr_def strip_suffix_Some_iff split: option.split)

lemma lines_render: "lines (render_id_map m) = map show_entry m"
proof (cases "m = []")
  case True
  then show ?thesis by (simp add: render_id_map_def lines_def)
next
  case False
  let ?ls = "map show_entry m"
  have "split_on (CHR 0x0A) (render_id_map m) = ?ls"
    unfolding render_id_map_def using False show_entry_no_newline by (intro split_on_join) auto
  moreover have "map strip_cr (butlast ?ls) = butlast ?ls"
    using show_entry_no_newline(2) by (auto simp: strip_cr_id map_butlast [symmetric])
  moreover have "last ?ls \<noteq> []"
    using False by (simp add: last_map show_entry_def)
  ultimately show ?thesis
    using False by (simp add: lines_def Let_def)
qed

lemma identity_line_render:
  assumes "find (\<lambda>e. im_outside e = h) m = Some e"
  shows "identity_line (render_id_map m) h = show_entry e"
proof -
  have "nth_opt (split_whitespace (show_entry e)) 1 = Some (show_nat (unat h)) \<longleftrightarrow> im_outside e = h" for e
    using show_nat_inj [of "unat (im_outside e)" "unat h"]
    by (auto simp: split_entry nth_opt_def intro: unsigned_word_eqI)
  then have "find (\<lambda>l. nth_opt (split_whitespace l) 1 = Some (show_nat (unat h))) (map show_entry m) = Some (show_entry e)"
    using assms by (induction m) (auto split: if_splits)
  then show ?thesis
    by (simp add: identity_line_def lines_render)
qed

section \<open>Properties\<close>

text \<open>
  No entry of an id map overlaps another, as the kernel demands, and nothing is left
  out: an id inside has exactly one host id when it is the sandbox's own, or below it or
  below the range's count with a range configured, and none otherwise.
\<close>

theorem id_map_covers_once:
  "length (host_ids (id_map u h sub) i) =
     (if i = unat u \<or> (\<exists>r. sub = Some r \<and> (i < unat u \<or> i < unat (sr_count r))) then 1 else 0)
   \<and> sorted (map im_inside (id_map u h sub))"
proof
  show "sorted (map im_inside (id_map u h sub))"
    unfolding id_map_def by (rule sorted_sort_key)
  show "length (host_ids (id_map u h sub) i) =
     (if i = unat u \<or> (\<exists>r. sub = Some r \<and> (i < unat u \<or> i < unat (sr_count r))) then 1 else 0)"
    by (cases sub) (auto simp: host_ids_id_map)
qed

text \<open>
  One tenant's ids stay its own: when the host id lies outside the subordinate range,
  the range holds the sandbox's uid and does not run past the last 32-bit id, two ids inside
  never share a host id, and every host id is the caller's own or inside the range.
\<close>

theorem id_map_injective:
  assumes "unat (sr_start r) + unat (sr_count r) \<le> 2 ^ 32" and "u \<le> sr_count r"
    and "unat h < unat (sr_start r) \<or> unat (sr_start r) + unat (sr_count r) \<le> unat h"
    and "x \<in> set (host_ids (id_map u h (Some r)) i)" and "y \<in> set (host_ids (id_map u h (Some r)) j)"
  shows "(x = y \<longrightarrow> i = j)
    \<and> (x = unat h \<or> (unat (sr_start r) \<le> x \<and> x < unat (sr_start r) + unat (sr_count r)))"
proof -
  have le: "unat u \<le> unat (sr_count r)"
    using assms(2) by (simp add: word_le_nat_alt)
  have sum: "unat (sr_start r + u) = unat (sr_start r) + unat u" if "unat u < unat (sr_count r)"
    using that assms(1) by (simp add: unat_word_ariths)
  have x: "(i = unat u \<and> x = unat h) \<or> (i < unat u \<and> x = unat (sr_start r) + i)
      \<or> (unat u < i \<and> i < unat (sr_count r) \<and> x = unat (sr_start r) + i - 1)"
    using assms(4) sum by (auto simp: host_ids_id_map split: if_splits)
  have y: "(j = unat u \<and> y = unat h) \<or> (j < unat u \<and> y = unat (sr_start r) + j)
      \<or> (unat u < j \<and> j < unat (sr_count r) \<and> y = unat (sr_start r) + j - 1)"
    using assms(5) sum by (auto simp: host_ids_id_map split: if_splits)
  show ?thesis
    using x y le assms(3) by auto
qed

theorem id_map_injective_witness:
  "(100005 :: nat) = unat (1000 :: u32) \<or> (100000 \<le> (100005 :: nat) \<and> (100005 :: nat) < 165536)"
proof -
  have "100005 \<in> set (host_ids (id_map 1000 1000 (Some \<lparr>sr_start = 100000, sr_count = 65536\<rparr>)) 5)"
    by (simp add: host_ids_id_map)
  then show ?thesis
    using id_map_injective [of "\<lparr>sr_start = 100000, sr_count = 65536\<rparr>" 1000 1000 100005 5 100005 5]
    by simp
qed

text \<open>
  A range smaller than the sandbox's uid is exceeded: the entry below the sandbox's id
  is as long as that id whatever the range holds, so an id inside is mapped past the end of
  the delegated range.
\<close>

theorem id_map_exceeds_small_range:
  assumes "sr_count r < u"
  shows "\<exists>i x. x \<in> set (host_ids (id_map u h (Some r)) i) \<and> unat (sr_start r) + unat (sr_count r) \<le> x"
proof (intro exI conjI)
  show "unat (sr_start r) + unat (sr_count r) \<in> set (host_ids (id_map u h (Some r)) (unat (sr_count r)))"
    using assms by (simp add: host_ids_id_map word_less_nat_alt)
qed simp

theorem id_map_exceeds_small_range_witness:
  "\<exists>i x. x \<in> set (host_ids (id_map 1000 1000 (Some \<lparr>sr_start = 100000, sr_count = 10\<rparr>)) i)
     \<and> 100010 \<le> x"
  using id_map_exceeds_small_range [of "\<lparr>sr_start = 100000, sr_count = 10\<rparr>" 1000 1000] by simp

text \<open>
  The line an unprivileged process writes is its own entry: picked out of the rendered
  map by the host id, it is the sandbox's entry wherever sorting put it, as long as the
  subordinate range does not hold the caller's own id.
\<close>

theorem identity_line_is_own_entry:
  assumes "unat (sr_start r) + unat (sr_count r) \<le> 2 ^ 32" and "u \<le> sr_count r" and "0 < sr_count r"
    and "unat h < unat (sr_start r) \<or> unat (sr_start r) + unat (sr_count r) \<le> unat h"
  shows "identity_line (render_id_map (id_map u h (Some r))) h
    = show_nat (unat u) @ '' '' @ show_nat (unat h) @ '' 1''"
proof -
  let ?me = "\<lparr>im_inside = u, im_outside = h, im_count = 1\<rparr>"
  have "sr_start r \<noteq> h"
    using assms(3,4) by (auto simp: word_less_nat_alt)
  then have "find (\<lambda>e. im_outside e = h) (id_map u h (Some r)) = Some ?me"
    by (simp add: id_map_eq)
  from identity_line_render [OF this] show ?thesis
    by (simp add: show_entry_def str_simps)
qed

theorem identity_line_is_own_entry_witness:
  "identity_line (render_id_map (id_map 1000 501 (Some \<lparr>sr_start = 100000, sr_count = 65536\<rparr>))) 501
     = ''1000 501 1''"
  using identity_line_is_own_entry [of "\<lparr>sr_start = 100000, sr_count = 65536\<rparr>" 1000 501]
  by (simp add: str_simps)

end
