(* ===== verification/Zygo_Reference.thy ===== *)
theory Zygo_Reference
  imports Rust_Strings
begin

text \<open>
  Image references (\<open>crates/zygo-core/src/image/reference.rs\<close>): the parser of
  \<open>[registry/]repository[:tag][@digest]\<close> with the Docker Hub shorthands, the printed form,
  the endpoint and version a pull uses, and the store key.
\<close>

section \<open>The type\<close>

record reference =
  ref_registry :: string
  ref_repository :: string
  ref_tag :: "string option"
  ref_digest :: "string option"

text \<open>\<open>ImageError::reference\<close>: the text that was read and the reason.\<close>

datatype image_error = BadReference string string

definition DEFAULT_REGISTRY :: string where "DEFAULT_REGISTRY = ''docker.io''"
definition DEFAULT_REGISTRY_ENDPOINT :: string where
  "DEFAULT_REGISTRY_ENDPOINT = ''registry-1.docker.io''"
definition DEFAULT_NAMESPACE :: string where "DEFAULT_NAMESPACE = ''library''"
definition DEFAULT_TAG :: string where "DEFAULT_TAG = ''latest''"

definition endpoint_for :: "string \<Rightarrow> string" where
  "endpoint_for registry =
     (if registry = DEFAULT_REGISTRY then DEFAULT_REGISTRY_ENDPOINT else registry)"

definition is_insecure_local :: "string \<Rightarrow> bool" where
  "is_insecure_local registry =
     (let host = hd (split_on CHR '':'' registry)
      in host = ''localhost'' \<or> host = ''127.0.0.1'' \<or> host = ''::1'')"

definition endpoint :: "reference \<Rightarrow> string" where
  "endpoint r =
     (if ref_registry r = DEFAULT_REGISTRY then DEFAULT_REGISTRY_ENDPOINT else ref_registry r)"

definition version :: "reference \<Rightarrow> string" where
  "version r = (case ref_digest r of Some d \<Rightarrow> d
     | None \<Rightarrow> (case ref_tag r of Some t \<Rightarrow> t | None \<Rightarrow> DEFAULT_TAG))"

definition is_pinned :: "reference \<Rightarrow> bool" where
  "is_pinned r \<longleftrightarrow> ref_digest r \<noteq> None"

section \<open>Validation\<close>

definition validate_digest :: "string \<Rightarrow> string + unit" where
  "validate_digest d =
     (case strip_prefix ''sha256:'' d of
        None \<Rightarrow> Inl (''unsupported digest `'' @ d @ ''` (only sha256 is supported)'')
      | Some hex \<Rightarrow>
          if length hex \<noteq> 64 \<or> \<not> list_all is_ascii_hexdigit hex
          then Inl (''`'' @ d @ ''` is not a 64-character sha256 digest'')
          else Inr ())"

definition tag_char :: "char \<Rightarrow> bool" where
  "tag_char c \<longleftrightarrow> is_ascii_alphanumeric c \<or> c \<in> {CHR ''.'', CHR ''_'', CHR ''-''}"

definition validate_tag :: "string \<Rightarrow> string + unit" where
  "validate_tag t =
     (if t = [] then Inl ''tag is empty''
      else if length t > 128 then Inl ''tag is longer than 128 characters''
      else if hd t = CHR ''.'' \<or> hd t = CHR ''-''
        then Inl (''tag `'' @ t @ ''` may not start with `.` or `-`'')
      else if \<not> list_all tag_char t
        then Inl (''tag `'' @ t @ ''` contains an invalid character'')
      else Inr ())"

definition component_char :: "char \<Rightarrow> bool" where
  "component_char c \<longleftrightarrow>
     is_ascii_lowercase c \<or> is_ascii_digit c \<or> c \<in> {CHR ''.'', CHR ''_'', CHR ''-''}"

fun check_components :: "string list \<Rightarrow> string + unit" where
  "check_components [] = Inr ()"
| "check_components (component # rest) =
     (if component = [] then Inl ''repository has an empty path component''
      else if \<not> list_all component_char component
        then Inl (''`'' @ component @ ''` is not a valid repository component (lowercase letters, digits, `.`, `_` and `-` only)'')
      else check_components rest)"

section \<open>Reading and printing\<close>

definition looks_like_host :: "string \<Rightarrow> bool" where
  "looks_like_host head \<longleftrightarrow>
     head = ''localhost'' \<or> CHR ''.'' \<in> set head \<or> CHR '':'' \<in> set head"

definition split_digest :: "string \<Rightarrow> string + string \<times> string option" where
  "split_digest input =
     (case split_once CHR ''@'' input of
        Some (r, d) \<Rightarrow> map_ok (\<lambda>_. (r, Some d)) (validate_digest d)
      | None \<Rightarrow> Inr (input, None))"

definition split_registry :: "string \<Rightarrow> string \<times> string" where
  "split_registry rest =
     (case split_once CHR ''/'' rest of
        Some (head, tail) \<Rightarrow>
          if looks_like_host head then (head, tail) else (DEFAULT_REGISTRY, rest)
      | None \<Rightarrow> (DEFAULT_REGISTRY, rest))"

definition split_tag :: "string \<Rightarrow> string + string \<times> string option" where
  "split_tag remainder =
     (case rsplit_once CHR '':'' remainder of
        Some (n, t) \<Rightarrow>
          if CHR ''/'' \<notin> set t then map_ok (\<lambda>_. (n, Some t)) (validate_tag t)
          else Inr (remainder, None)
      | None \<Rightarrow> Inr (remainder, None))"

definition check_name :: "string \<Rightarrow> string + unit" where
  "check_name name =
     (if name = [] then Inl ''repository name is empty''
      else check_components (split_on CHR ''/'' name))"

definition full_repository :: "string \<Rightarrow> string \<Rightarrow> string" where
  "full_repository registry name =
     (if registry = DEFAULT_REGISTRY \<and> CHR ''/'' \<notin> set name
      then DEFAULT_NAMESPACE @ ''/'' @ name else name)"

definition default_tag :: "string option \<Rightarrow> string option \<Rightarrow> string option" where
  "default_tag tag digest = (if tag = None \<and> digest = None then Some DEFAULT_TAG else tag)"

definition reference_from_str :: "string \<Rightarrow> image_error + reference" where
  "reference_from_str s =
     map_err (BadReference s)
       (let input = trim s in
        if input = [] then Inl ''empty reference''
        else and_then (split_digest input) (\<lambda>(rest, digest).
          let (registry, remainder) = split_registry rest in
          and_then (split_tag remainder) (\<lambda>(name, tag).
          and_then (check_name name) (\<lambda>_.
            Inr \<lparr>ref_registry = registry, ref_repository = full_repository registry name,
                 ref_tag = default_tag tag digest, ref_digest = digest\<rparr>))))"

definition short_repository :: "reference \<Rightarrow> string" where
  "short_repository r =
     (if ref_registry r = DEFAULT_REGISTRY
      then (case strip_prefix ''library/'' (ref_repository r) of
              Some short \<Rightarrow> if CHR ''/'' \<notin> set short then short else ref_repository r
            | None \<Rightarrow> ref_repository r)
      else ref_registry r @ ''/'' @ ref_repository r)"

definition show_reference :: "reference \<Rightarrow> string" where
  "show_reference r =
     short_repository r
     @ (case ref_tag r of Some t \<Rightarrow> '':'' @ t | None \<Rightarrow> [])
     @ (case ref_digest r of Some d \<Rightarrow> ''@'' @ d | None \<Rightarrow> [])"

definition store_key :: "reference \<Rightarrow> string" where
  "store_key r =
     map (\<lambda>c. if c \<in> {CHR ''/'', CHR '':'', CHR ''@''} then CHR ''_'' else c) (show_reference r)"

section \<open>What the parser guarantees\<close>

definition component_wf :: "string \<Rightarrow> bool" where
  "component_wf c \<longleftrightarrow> c \<noteq> [] \<and> list_all component_char c"

definition tag_wf :: "string \<Rightarrow> bool" where
  "tag_wf t \<longleftrightarrow> validate_tag t = Inr ()"

definition digest_wf :: "string \<Rightarrow> bool" where
  "digest_wf d \<longleftrightarrow> validate_digest d = Inr ()"

definition reference_wf :: "reference \<Rightarrow> bool" where
  "reference_wf r \<longleftrightarrow>
     looks_like_host (ref_registry r) \<and> CHR ''/'' \<notin> set (ref_registry r)
     \<and> CHR ''@'' \<notin> set (ref_registry r)
     \<and> list_all component_wf (split_on CHR ''/'' (ref_repository r))
     \<and> (ref_registry r = DEFAULT_REGISTRY \<longrightarrow> CHR ''/'' \<in> set (ref_repository r))
     \<and> (case ref_tag r of Some t \<Rightarrow> tag_wf t | None \<Rightarrow> ref_digest r \<noteq> None)
     \<and> (case ref_digest r of Some d \<Rightarrow> digest_wf d | None \<Rightarrow> True)"

lemmas reference_consts =
  DEFAULT_REGISTRY_def DEFAULT_NAMESPACE_def DEFAULT_TAG_def

lemma check_components_ok: "check_components cs = Inr u \<longleftrightarrow> list_all component_wf cs"
  by (induction cs) (auto simp: component_wf_def)

lemma check_name_ok:
  "check_name name = Inr u \<longleftrightarrow> list_all component_wf (split_on CHR ''/'' name)"
  by (auto simp: check_name_def check_components_ok component_wf_def)

lemma component_wf_namespace: "component_wf DEFAULT_NAMESPACE"
  by (simp add: component_wf_def reference_consts component_char_def is_ascii_lowercase_def str_simps)

lemma looks_like_default: "looks_like_host DEFAULT_REGISTRY"
  by (simp add: looks_like_host_def reference_consts)

lemma validate_tag_latest: "tag_wf DEFAULT_TAG"
  by (simp add: tag_wf_def validate_tag_def reference_consts tag_char_def is_ascii_alphanumeric_def
      is_ascii_lowercase_def str_simps)

lemma split_digest_ok:
  assumes "split_digest input = Inr (rest, digest)"
  shows "CHR ''@'' \<notin> set rest"
    and "case digest of Some d \<Rightarrow> digest_wf d \<and> input = rest @ CHR ''@'' # d | None \<Rightarrow> input = rest"
  using assms split_once_SomeD [of "CHR ''@''" input]
  by (auto simp: split_digest_def result_simps digest_wf_def split_once_None split: option.splits)

lemma split_registry_ok:
  assumes "split_registry rest = (registry, remainder)" and "CHR ''@'' \<notin> set rest"
  shows "looks_like_host registry" and "CHR ''/'' \<notin> set registry" and "CHR ''@'' \<notin> set registry"
  using assms split_once_SomeD [of "CHR ''/''" rest] looks_like_default
  by (auto simp: split_registry_def reference_consts split: option.splits if_splits)

lemma split_tag_ok:
  assumes "split_tag remainder = Inr (name, tag)"
  shows "case tag of Some t \<Rightarrow> tag_wf t \<and> remainder = name @ CHR '':'' # t | None \<Rightarrow> remainder = name"
  using assms rsplit_once_SomeD [of "CHR '':''" remainder]
  by (auto simp: split_tag_def result_simps tag_wf_def split: option.splits if_splits)

lemma reference_parts:
  assumes "reference_from_str s = Inr r"
  obtains rest registry remainder name tag where
    "split_digest (trim s) = Inr (rest, ref_digest r)"
    "split_registry rest = (registry, remainder)" "split_tag remainder = Inr (name, tag)"
    "check_name name = Inr ()" "ref_registry r = registry"
    "ref_repository r = full_repository registry name" "ref_tag r = default_tag tag (ref_digest r)"
proof -
  have "\<exists>p. split_digest (trim s) = Inr p"
    using assms by (auto simp: reference_from_str_def result_simps Let_def split: if_splits)
  then obtain rest d where 1: "split_digest (trim s) = Inr (rest, d)"
    by auto
  obtain registry remainder where 2: "split_registry rest = (registry, remainder)"
    by fastforce
  show ?thesis
    using assms 1 2 that [of rest registry remainder]
    by (auto simp: reference_from_str_def result_simps Let_def split: if_splits)
qed

lemma full_repository_components:
  assumes "list_all component_wf (split_on CHR ''/'' name)"
  shows "list_all component_wf (split_on CHR ''/'' (full_repository registry name))"
  using assms component_wf_namespace
  by (auto simp: full_repository_def reference_consts)

lemma reference_from_str_wf:
  assumes "reference_from_str s = Inr r"
  shows "reference_wf r"
proof -
  obtain rest registry remainder name tag where p:
    "split_digest (trim s) = Inr (rest, ref_digest r)"
    "split_registry rest = (registry, remainder)" "split_tag remainder = Inr (name, tag)"
    "check_name name = Inr ()" "ref_registry r = registry"
    "ref_repository r = full_repository registry name" "ref_tag r = default_tag tag (ref_digest r)"
    using assms by (rule reference_parts)
  note d = split_digest_ok [OF p(1)] and t = split_tag_ok [OF p(3)]
  note registry = split_registry_ok [OF p(2) d(1)]
  have "list_all component_wf (split_on CHR ''/'' (ref_repository r))"
    using p(4,6) full_repository_components check_name_ok by simp
  moreover have "registry = DEFAULT_REGISTRY \<Longrightarrow> CHR ''/'' \<in> set (ref_repository r)"
    by (simp add: p(6) full_repository_def)
  moreover have "case ref_tag r of Some t \<Rightarrow> tag_wf t | None \<Rightarrow> ref_digest r \<noteq> None"
    using t validate_tag_latest by (auto simp: p(7) default_tag_def split: option.splits)
  ultimately show ?thesis
    using registry d(2) by (auto simp: reference_wf_def p(5) split: option.splits)
qed

section \<open>Reading what was printed\<close>

lemma list_all_graphic:
  assumes "list_all P s" and "\<And>c. P c \<Longrightarrow> is_ascii_graphic c"
  shows "list_all is_ascii_graphic s"
  using assms by (simp add: list_all_iff)

lemma component_char_graphic: "component_char c \<Longrightarrow> is_ascii_graphic c"
  by (auto simp: component_char_def char_class_defs str_simps)

lemma tag_char_graphic: "tag_char c \<Longrightarrow> is_ascii_graphic c"
  by (auto simp: tag_char_def char_class_defs str_simps)

lemma hexdigit_graphic: "is_ascii_hexdigit c \<Longrightarrow> is_ascii_graphic c"
  by (auto simp: char_class_defs)

lemma component_char_separators:
  "\<not> component_char CHR ''/''" "\<not> component_char CHR '':''" "\<not> component_char CHR ''@''"
  by (simp_all add: component_char_def char_class_defs str_simps)

lemma tag_char_separators:
  "\<not> tag_char CHR ''/''" "\<not> tag_char CHR '':''" "\<not> tag_char CHR ''@''"
  by (simp_all add: tag_char_def char_class_defs str_simps)

lemma repository_chars:
  assumes "list_all component_wf (split_on CHR ''/'' repo)" and "c \<in> set repo"
  shows "c = CHR ''/'' \<or> component_char c"
  using set_split_on [of repo "CHR ''/''"] assms by (auto simp: list_all_iff component_wf_def)

lemma repository_no_separators:
  assumes "list_all component_wf (split_on CHR ''/'' repo)"
  shows "CHR '':'' \<notin> set repo" and "CHR ''@'' \<notin> set repo" and "list_all is_ascii_graphic repo"
    and "repo \<noteq> []"
proof -
  show "CHR '':'' \<notin> set repo" "CHR ''@'' \<notin> set repo"
    using repository_chars [OF assms] component_char_separators by fastforce+
  show "list_all is_ascii_graphic repo"
    unfolding list_all_iff
    using repository_chars [OF assms] component_char_graphic
    by (fastforce simp: is_ascii_graphic_def str_simps)
  show "repo \<noteq> []"
    using assms by (auto simp: component_wf_def)
qed

lemma tag_wf_chars:
  assumes "tag_wf t"
  shows "CHR ''/'' \<notin> set t" and "CHR '':'' \<notin> set t" and "CHR ''@'' \<notin> set t"
    and "list_all is_ascii_graphic t" and "t \<noteq> []"
proof -
  have t: "list_all tag_char t" "t \<noteq> []"
    using assms by (auto simp: tag_wf_def validate_tag_def split: if_splits)
  then show "CHR ''/'' \<notin> set t" "CHR '':'' \<notin> set t" "CHR ''@'' \<notin> set t" "t \<noteq> []"
    using tag_char_separators by (auto simp: list_all_iff)
  show "list_all is_ascii_graphic t"
    using t(1) tag_char_graphic by (rule list_all_graphic)
qed

lemma digest_wf_chars:
  assumes "digest_wf d"
  shows "list_all is_ascii_graphic d" and "d \<noteq> []"
proof -
  obtain hex where "d = ''sha256:'' @ hex" "list_all is_ascii_hexdigit hex"
    using assms
    by (auto simp: digest_wf_def validate_digest_def strip_prefix_Some_iff split: option.splits if_splits)
  then show "list_all is_ascii_graphic d" "d \<noteq> []"
    using list_all_graphic hexdigit_graphic by (auto simp: is_ascii_graphic_def str_simps)
qed

text \<open>
  The printed text is read back part by part: the digest after the first \<open>@\<close>, the registry
  before the first \<open>/\<close> when it looks like a host, the tag after the last \<open>:\<close>.
\<close>

definition tag_text :: "string option \<Rightarrow> string" where
  "tag_text t = (case t of Some t \<Rightarrow> '':'' @ t | None \<Rightarrow> [])"

lemma split_tag_print:
  assumes "CHR '':'' \<notin> set name" and "\<forall>t'. tag = Some t' \<longrightarrow> tag_wf t'"
  shows "split_tag (name @ tag_text tag) = Inr (name, tag)"
  using assms tag_wf_chars
  by (auto simp: split_tag_def tag_text_def tag_wf_def split: option.splits)

lemma split_digest_print:
  assumes "CHR ''@'' \<notin> set rest" and "\<forall>d'. digest = Some d' \<longrightarrow> digest_wf d'"
  shows "split_digest (rest @ (case digest of Some d \<Rightarrow> ''@'' @ d | None \<Rightarrow> [])) = Inr (rest, digest)"
  using assms by (auto simp: split_digest_def digest_wf_def split: option.splits)

text \<open>
  A Docker Hub repository that can be printed without its registry: the first component
  must not be read as one.
\<close>

definition hub_ambiguous :: "reference \<Rightarrow> bool" where
  "hub_ambiguous r \<longleftrightarrow> ref_registry r = DEFAULT_REGISTRY
     \<and> looks_like_host (hd (split_on CHR ''/'' (ref_repository r)))"

lemma split_once_repository:
  assumes "CHR ''/'' \<in> set s"
  obtains b where "split_once CHR ''/'' s = Some (hd (split_on CHR ''/'' s), b)"
proof -
  obtain a b where ab: "s = a @ CHR ''/'' # b" "CHR ''/'' \<notin> set a"
    using assms split_list_first by fastforce
  then show ?thesis
    using that by simp
qed

lemma short_repository_cases:
  "ref_registry r \<noteq> DEFAULT_REGISTRY
   \<or> (\<exists>short. ref_registry r = DEFAULT_REGISTRY \<and> ref_repository r = ''library/'' @ short
        \<and> CHR ''/'' \<notin> set short \<and> short_repository r = short)
   \<or> ref_registry r = DEFAULT_REGISTRY \<and> short_repository r = ref_repository r"
proof (cases "strip_prefix ''library/'' (ref_repository r)")
  case (Some short)
  then show ?thesis
    using strip_prefix_SomeD [OF Some] by (auto simp: short_repository_def)
qed (simp add: short_repository_def)

lemma short_repository_read:
  assumes "reference_wf r" and "\<not> hub_ambiguous r" and "CHR ''/'' \<notin> set tg"
  obtains name where "split_registry (short_repository r @ tg) = (ref_registry r, name @ tg)"
    and "CHR '':'' \<notin> set name" and "list_all component_wf (split_on CHR ''/'' name)"
    and "full_repository (ref_registry r) name = ref_repository r"
proof -
  let ?repo = "ref_repository r"
  have repo: "list_all component_wf (split_on CHR ''/'' ?repo)" "CHR '':'' \<notin> set ?repo"
    using assms(1) repository_no_separators by (auto simp: reference_wf_def)
  consider (other) "ref_registry r \<noteq> DEFAULT_REGISTRY"
    | (library) short where "ref_registry r = DEFAULT_REGISTRY" "?repo = ''library/'' @ short"
        "CHR ''/'' \<notin> set short" "short_repository r = short"
    | (hub) "ref_registry r = DEFAULT_REGISTRY" "short_repository r = ?repo"
    using short_repository_cases by blast
  then show ?thesis
  proof cases
    case other
    then show ?thesis
      using assms(1) repo that [of ?repo]
      by (simp add: short_repository_def split_registry_def reference_wf_def full_repository_def)
  next
    case library
    then show ?thesis
      using assms(3) repo that [of short]
      by (simp add: split_registry_def full_repository_def reference_consts)
  next
    case hub
    have sep: "CHR ''/'' \<in> set ?repo"
      using assms(1) hub(1) by (simp add: reference_wf_def)
    obtain b where b: "?repo = hd (split_on CHR ''/'' ?repo) @ CHR ''/'' # b"
      "CHR ''/'' \<notin> set (hd (split_on CHR ''/'' ?repo))"
      using split_once_repository [OF sep] split_once_SomeD by metis
    have "split_once CHR ''/'' (?repo @ tg) = Some (hd (split_on CHR ''/'' ?repo), b @ tg)"
      by (metis append.assoc append_Cons b split_once_append)
    then have "split_registry (?repo @ tg) = (DEFAULT_REGISTRY, ?repo @ tg)"
      using assms(2) hub(1) by (simp add: split_registry_def hub_ambiguous_def)
    then show ?thesis
      using hub sep repo that [of ?repo] by (simp add: full_repository_def)
  qed
qed

lemma show_reference_graphic:
  assumes "reference_wf r" and "list_all is_ascii_graphic (ref_registry r)"
  shows "list_all is_ascii_graphic (show_reference r)" and "show_reference r \<noteq> []"
proof -
  have repo: "list_all component_wf (split_on CHR ''/'' (ref_repository r))"
    using assms(1) by (simp add: reference_wf_def)
  note g = repository_no_separators(3,4) [OF repo]
  have sep: "is_ascii_graphic CHR ''/''" "is_ascii_graphic CHR '':''" "is_ascii_graphic CHR ''@''"
    by (simp_all add: is_ascii_graphic_def str_simps)
  have "list_all is_ascii_graphic (short_repository r)"
    using g(1) assms(2) sep
    by (auto simp: short_repository_def strip_prefix_Some_iff split: option.splits)
  moreover have "list_all is_ascii_graphic (tag_text (ref_tag r))"
    using assms(1) tag_wf_chars(4) sep by (auto simp: reference_wf_def tag_text_def split: option.splits)
  moreover have "list_all is_ascii_graphic (case ref_digest r of Some d \<Rightarrow> ''@'' @ d | None \<Rightarrow> [])"
    using assms(1) digest_wf_chars(1) sep by (auto simp: reference_wf_def split: option.splits)
  ultimately show "list_all is_ascii_graphic (show_reference r)"
    by (auto simp: show_reference_def tag_text_def split: option.splits)
  show "show_reference r \<noteq> []"
    using assms(1) by (auto simp: show_reference_def reference_wf_def split: option.splits)
qed

lemma reference_round_trip_wf:
  assumes wf: "reference_wf r" and "list_all is_ascii_graphic (ref_registry r)" and "\<not> hub_ambiguous r"
  shows "reference_from_str (show_reference r) = Inr r"
proof -
  let ?d = "case ref_digest r of Some d \<Rightarrow> ''@'' @ d | None \<Rightarrow> []"
  let ?head = "short_repository r @ tag_text (ref_tag r)"
  have shown: "show_reference r = ?head @ ?d"
    by (simp add: show_reference_def tag_text_def)
  have tag: "\<forall>t. ref_tag r = Some t \<longrightarrow> tag_wf t" and digest: "\<forall>d. ref_digest r = Some d \<longrightarrow> digest_wf d"
    using wf by (auto simp: reference_wf_def)
  have tg: "CHR ''/'' \<notin> set (tag_text (ref_tag r))"
    using tag tag_wf_chars by (auto simp: tag_text_def split: option.splits)
  obtain name where name: "split_registry ?head = (ref_registry r, name @ tag_text (ref_tag r))"
    "CHR '':'' \<notin> set name" "list_all component_wf (split_on CHR ''/'' name)"
    "full_repository (ref_registry r) name = ref_repository r"
    using short_repository_read [OF wf assms(3) tg] by blast
  have "CHR ''@'' \<notin> set (ref_repository r)"
    using wf repository_no_separators(2) by (simp add: reference_wf_def)
  then have "CHR ''@'' \<notin> set ?head"
    using wf tag tag_wf_chars(3)
    by (auto simp: reference_wf_def short_repository_def tag_text_def strip_prefix_Some_iff
        split: option.splits if_splits)
  then have "split_digest (show_reference r) = Inr (?head, ref_digest r)"
    unfolding shown by (rule split_digest_print [OF _ digest])
  moreover have "trim (show_reference r) = show_reference r"
    using show_reference_graphic(1) [OF wf assms(2)] trim_graphic by (simp add: list_all_iff)
  moreover have "default_tag (ref_tag r) (ref_digest r) = ref_tag r"
    using wf by (cases "ref_tag r") (simp_all add: default_tag_def reference_wf_def)
  ultimately show ?thesis
    using name show_reference_graphic(2) [OF wf assms(2)] split_tag_print [OF name(2) tag]
      check_name_ok [of name "()"]
    by (simp add: reference_from_str_def Let_def)
qed

interpretation reference_text: parse_print reference_from_str show_reference
  "\<lambda>r. reference_wf r \<and> list_all is_ascii_graphic (ref_registry r) \<and> \<not> hub_ambiguous r"
  by unfold_locales (simp add: reference_round_trip_wf)

section \<open>Properties\<close>

text \<open>The parser on some literals.\<close>

lemmas reference_eval =
  split_digest_def split_registry_def split_tag_def check_name_def full_repository_def
  default_tag_def reference_consts looks_like_host_def tag_char_def validate_tag_def
  component_char_def char_class_defs str_simps

lemma reference_from_str_graphic:
  assumes "list_all is_ascii_graphic s"
  shows "reference_from_str s = map_err (BadReference s)
       (if s = [] then Inl ''empty reference''
        else and_then (split_digest s) (\<lambda>(rest, digest).
          let (registry, remainder) = split_registry rest in
          and_then (split_tag remainder) (\<lambda>(name, tag).
          and_then (check_name name) (\<lambda>_.
            Inr \<lparr>ref_registry = registry, ref_repository = full_repository registry name,
                 ref_tag = default_tag tag digest, ref_digest = digest\<rparr>))))"
  using trim_graphic assms by (simp add: reference_from_str_def list_all_iff Let_def)

lemma parse_examples:
  "reference_from_str ''python:3.12''
     = Inr \<lparr>ref_registry = ''docker.io'', ref_repository = ''library/python'',
            ref_tag = Some ''3.12'', ref_digest = None\<rparr>"
  "reference_from_str ''localhost:5000/app''
     = Inr \<lparr>ref_registry = ''localhost:5000'', ref_repository = ''app'',
            ref_tag = Some ''latest'', ref_digest = None\<rparr>"
  "reference_from_str ''docker.io/localhost/app''
     = Inr \<lparr>ref_registry = ''docker.io'', ref_repository = ''localhost/app'',
            ref_tag = Some ''latest'', ref_digest = None\<rparr>"
  "reference_from_str ''localhost/app''
     = Inr \<lparr>ref_registry = ''localhost'', ref_repository = ''app'',
            ref_tag = Some ''latest'', ref_digest = None\<rparr>"
  by (simp_all add: reference_from_str_graphic reference_eval)

text \<open>
  An accepted reference is well-formed: a registry that names a host, every component of
  the repository non-empty and made of lower-case letters, digits, \<open>.\<close>, \<open>_\<close> and \<open>-\<close>, the
  Docker Hub namespace present, a valid tag or a sha256 digest, always one of them; and what
  a pull asks for is the digest when there is one, else the tag.
\<close>

theorem reference_well_formed:
  assumes "reference_from_str s = Inr r"
  shows "reference_wf r
    \<and> version r = (if is_pinned r then the (ref_digest r) else the (ref_tag r))"
  using reference_from_str_wf [OF assms]
  by (auto simp: version_def is_pinned_def reference_wf_def split: option.splits)

theorem reference_well_formed_witness:
  "version \<lparr>ref_registry = ''docker.io'', ref_repository = ''library/python'',
            ref_tag = Some ''3.12'', ref_digest = None\<rparr> = ''3.12''"
  using reference_well_formed [OF parse_examples(1)] by (simp add: is_pinned_def)

text \<open>
  References survive being printed: what was parsed and printed reads back as the same
  reference, for every registry of visible ASCII characters and every repository except the
  Docker Hub ones whose first component is itself read as a registry; and two such
  references with the same text are the same.
\<close>

theorem reference_round_trip:
  assumes "reference_from_str s = Inr r" and "list_all is_ascii_graphic (ref_registry r)"
    and "\<not> hub_ambiguous r"
  shows "reference_from_str (show_reference r) = Inr r
    \<and> (\<forall>s' r'. reference_from_str s' = Inr r' \<and> list_all is_ascii_graphic (ref_registry r')
          \<and> \<not> hub_ambiguous r' \<and> show_reference r' = show_reference r \<longrightarrow> r' = r)"
  using assms reference_from_str_wf reference_text.parse_print reference_text.print_inj by blast

theorem reference_round_trip_witness:
  "reference_from_str ''localhost:5000/app:latest''
     = Inr \<lparr>ref_registry = ''localhost:5000'', ref_repository = ''app'',
            ref_tag = Some ''latest'', ref_digest = None\<rparr>"
  using reference_round_trip [OF parse_examples(2)]
  by (simp add: hub_ambiguous_def show_reference_def short_repository_def reference_consts
      is_ascii_graphic_def str_simps)

text \<open>
  A Docker Hub repository in a namespace that looks like a host is printed as a
  reference to that host: two different references, one pulled from Docker Hub over TLS and
  one from the local machine over plain HTTP, have the same text and the same store key.
\<close>

theorem hub_repository_misread:
  "\<exists>r r'. reference_from_str ''docker.io/localhost/app'' = Inr r
     \<and> reference_from_str ''localhost/app'' = Inr r'
     \<and> endpoint r = ''registry-1.docker.io'' \<and> \<not> is_insecure_local (ref_registry r)
     \<and> endpoint r' = ''localhost'' \<and> is_insecure_local (ref_registry r')
     \<and> show_reference r = show_reference r' \<and> store_key r = store_key r'"
  by (simp add: parse_examples endpoint_def DEFAULT_REGISTRY_ENDPOINT_def is_insecure_local_def
      store_key_def show_reference_def short_repository_def reference_consts)

text \<open>The IPv6 loopback address is never recognised: its own colons cut it first.\<close>

lemma ipv6_loopback_not_local: "\<not> is_insecure_local ''::1'' \<and> \<not> is_insecure_local ''[::1]:5000''"
  by (simp add: is_insecure_local_def)

end
