(* ===== verification/Rust_Paths.thy ===== *)
theory Rust_Paths
  imports Rust_Strings "HOL-Library.Sublist" "HOL-Library.Char_ord" "HOL-Library.List_Lexorder"
    "HOL-Library.Product_Lexorder"
begin

text \<open>
  The part of Rust's \<open>std::path\<close> that the program uses, on Unix. A \<open>PathBuf\<close> is its bytes,
  as a \<open>string\<close>; what paths mean, how they compare and which one lies under which is decided
  on their \<open>components\<close>: a root, the names between slashes with empty ones and \<open>.\<close> left out
  (except a leading \<open>.\<close> of a relative path), and \<open>..\<close> kept as such.
\<close>

section \<open>Components\<close>

datatype component = RootDir | CurDir | ParentDir | Normal string

text \<open>
  The derived order of \<open>Component\<close>: by variant, then by name. Paths are ordered
  lexicographically by component.
\<close>

fun component_key :: "component \<Rightarrow> nat \<times> string" where
  "component_key RootDir = (0, [])"
| "component_key CurDir = (1, [])"
| "component_key ParentDir = (2, [])"
| "component_key (Normal s) = (3, s)"

lemma component_key_inj: "component_key a = component_key b \<Longrightarrow> a = b"
  by (cases a; cases b) auto

instantiation component :: linorder
begin

definition less_eq_component :: "component \<Rightarrow> component \<Rightarrow> bool" where
  "less_eq_component a b \<longleftrightarrow> component_key a \<le> component_key b"

definition less_component :: "component \<Rightarrow> component \<Rightarrow> bool" where
  "less_component a b \<longleftrightarrow> component_key a < component_key b"

instance
  by standard (auto simp: less_eq_component_def less_component_def intro: component_key_inj)

end

definition is_absolute :: "string \<Rightarrow> bool" where
  "is_absolute p \<longleftrightarrow> p \<noteq> [] \<and> hd p = CHR ''/''"

definition path_segments :: "string \<Rightarrow> string list" where
  "path_segments p = filter (\<lambda>s. s \<noteq> [] \<and> s \<noteq> ''.'') (split_on CHR ''/'' p)"

definition component_of :: "string \<Rightarrow> component" where
  "component_of s = (if s = ''..'' then ParentDir else Normal s)"

definition components :: "string \<Rightarrow> component list" where
  "components p =
     (if is_absolute p then [RootDir]
      else if hd (split_on CHR ''/'' p) = ''.'' then [CurDir] else [])
     @ map component_of (path_segments p)"

text \<open>\<open>Path::join\<close>: an absolute argument replaces the path.\<close>

definition path_join :: "string \<Rightarrow> string \<Rightarrow> string" where
  "path_join a b =
     (if is_absolute b then b
      else if a = [] \<or> last a = CHR ''/'' then a @ b else a @ ''/'' @ b)"

text \<open>\<open>Path::starts_with\<close> and equality of paths compare components.\<close>

definition path_under :: "string \<Rightarrow> string \<Rightarrow> bool" where
  "path_under base p \<longleftrightarrow> prefix (components base) (components p)"

definition path_eq :: "string \<Rightarrow> string \<Rightarrow> bool" where
  "path_eq a b \<longleftrightarrow> components a = components b"

definition trim_start_slashes :: "string \<Rightarrow> string" where
  "trim_start_slashes p = dropWhile (\<lambda>c. c = CHR ''/'') p"

section \<open>Facts\<close>

lemma split_on_append_sep: "split_on d (a @ d # b) = split_on d a @ split_on d b"
proof (induction a)
  case (Cons c a)
  obtain p ps where "split_on d a = p # ps"
    by (cases "split_on d a") auto
  with Cons show ?case
    by simp
qed simp

lemma path_segments_append_sep [simp]: "path_segments (a @ CHR ''/'' # b) = path_segments a @ path_segments b"
  by (simp add: path_segments_def split_on_append_sep)

lemma path_segments_Nil [simp]: "path_segments [] = []"
  by (simp add: path_segments_def)

lemma path_segments_slash [simp]: "path_segments (CHR ''/'' # p) = path_segments p"
  using path_segments_append_sep [of "[]" p] by simp

lemma path_segments_trim_start [simp]: "path_segments (trim_start_slashes p) = path_segments p"
  by (induction p) (auto simp: trim_start_slashes_def)

lemma trim_start_slashes_relative: "\<not> is_absolute (trim_start_slashes p)"
  unfolding is_absolute_def trim_start_slashes_def
  by (metis (mono_tags, lifting) hd_dropWhile)

lemma path_segments_join:
  assumes "\<not> is_absolute b"
  shows "path_segments (path_join a b) = path_segments a @ path_segments b"
proof (cases "a \<noteq> [] \<and> last a = CHR ''/''")
  case True
  then obtain a' where "a = a' @ [CHR ''/'']"
    by (metis append_butlast_last_id)
  then have "path_segments a = path_segments a'" "path_join a b = a' @ CHR ''/'' # b"
    using assms path_segments_append_sep [of a' "[]"] by (simp_all add: path_join_def)
  then show ?thesis
    by simp
qed (use assms in \<open>auto simp: path_join_def\<close>)

lemma is_absolute_join: "is_absolute a \<Longrightarrow> \<not> is_absolute b \<Longrightarrow> is_absolute (path_join a b)"
  by (auto simp: is_absolute_def path_join_def)

lemma components_absolute: "is_absolute p \<Longrightarrow> components p = RootDir # map component_of (path_segments p)"
  by (simp add: components_def)

text \<open>
  Joining a relative path, or an absolute one whose leading slashes were cut, appends its
  components below the first path.
\<close>

lemma components_join:
  assumes "is_absolute a" and "\<not> is_absolute b"
  shows "components (path_join a b) = components a @ map component_of (path_segments b)"
  using assms by (simp add: components_absolute is_absolute_join path_segments_join)

lemma components_join_trimmed:
  assumes "is_absolute a"
  shows "components (path_join a (trim_start_slashes p)) = components a @ map component_of (path_segments p)"
  using components_join [OF assms trim_start_slashes_relative] by simp

lemma component_of_inj: "component_of a = component_of b \<longleftrightarrow> a = b"
  by (auto simp: component_of_def)

lemma map_component_of_inj: "map component_of a = map component_of b \<longleftrightarrow> a = b"
  by (metis component_of_inj inj_def list.inj_map_strong)

lemma map_component_of_prefix: "prefix (map component_of a) (map component_of b) \<longleftrightarrow> prefix a b"
proof
  assume "prefix (map component_of a) (map component_of b)"
  then obtain c where "map component_of b = map component_of a @ c"
    by (auto simp: prefix_def)
  then have "map component_of (take (length a) b) = map component_of a"
    by (metis append_eq_conv_conj length_map take_map)
  then show "prefix a b"
    by (metis map_component_of_inj take_is_prefix)
qed (rule map_mono_prefix)

section \<open>Stripping a prefix\<close>

text \<open>
  \<open>Path::strip_prefix\<close> for an absolute prefix: what is left is the text behind the
  components of the prefix, without the empty pieces and dots at its two ends.
\<close>

definition trivial_piece :: "string \<Rightarrow> bool" where
  "trivial_piece s \<longleftrightarrow> s = [] \<or> s = ''.''"

fun pieces_after :: "nat \<Rightarrow> string list \<Rightarrow> string list" where
  "pieces_after 0 ps = dropWhile trivial_piece ps"
| "pieces_after (Suc n) [] = []"
| "pieces_after (Suc n) (p # ps) =
     (if trivial_piece p then pieces_after (Suc n) ps else pieces_after n ps)"

definition trim_pieces :: "string list \<Rightarrow> string list" where
  "trim_pieces ps = rev (dropWhile trivial_piece (rev ps))"

definition path_strip_prefix :: "string \<Rightarrow> string \<Rightarrow> string option" where
  "path_strip_prefix base p =
     (if path_under base p
      then Some (join ''/'' (trim_pieces
             (pieces_after (length (components base) - 1) (tl (split_on CHR ''/'' p)))))
      else None)"

abbreviation nontrivial :: "string list \<Rightarrow> string list" where
  "nontrivial ps \<equiv> filter (\<lambda>s. s \<noteq> [] \<and> s \<noteq> ''.'') ps"

lemma nontrivial_dropWhile [simp]: "nontrivial (dropWhile trivial_piece ps) = nontrivial ps"
  by (induction ps) (auto simp: trivial_piece_def)

lemma nontrivial_trim [simp]: "nontrivial (trim_pieces ps) = nontrivial ps"
  by (simp add: trim_pieces_def rev_filter [symmetric])

lemma nontrivial_pieces_after: "nontrivial (pieces_after n ps) = drop n (nontrivial ps)"
  by (induction n ps rule: pieces_after.induct) (auto simp: trivial_piece_def)

lemma set_pieces_after: "set (pieces_after n ps) \<subseteq> set ps"
  by (induction n ps rule: pieces_after.induct) (auto dest: set_dropWhileD)

lemma set_trim_pieces: "set (trim_pieces ps) \<subseteq> set ps"
  by (auto simp: trim_pieces_def dest: set_dropWhileD)

lemma hd_pieces_after: "pieces_after n ps \<noteq> [] \<Longrightarrow> \<not> trivial_piece (hd (pieces_after n ps))"
proof (induction n ps rule: pieces_after.induct)
  case (1 ps)
  then show ?case
    by (metis hd_dropWhile pieces_after.simps(1))
qed (auto split: if_splits)

lemma path_segments_join_pieces:
  assumes "\<forall>p \<in> set ps. CHR ''/'' \<notin> set p"
  shows "path_segments (join ''/'' ps) = nontrivial ps"
  using assms split_on_join [of ps "CHR ''/''"] by (cases "ps = []") (simp_all add: path_segments_def)

lemma path_segments_tl:
  assumes "is_absolute p"
  shows "path_segments p = nontrivial (tl (split_on CHR ''/'' p))"
proof -
  obtain q where "p = CHR ''/'' # q"
    using assms by (cases p) (auto simp: is_absolute_def)
  then show ?thesis
    by (simp add: path_segments_def)
qed

lemma trim_pieces_hd:
  assumes "ps \<noteq> []" and "\<not> trivial_piece (hd ps)"
  shows "trim_pieces ps \<noteq> []" and "hd (trim_pieces ps) = hd ps"
proof -
  have split: "rev ps = takeWhile trivial_piece (rev ps) @ dropWhile trivial_piece (rev ps)"
    by simp
  have "dropWhile trivial_piece (rev ps) \<noteq> []"
    using assms by (simp add: dropWhile_eq_Nil_conv) (metis list.set_sel(1))
  then show ne: "trim_pieces ps \<noteq> []"
    by (simp add: trim_pieces_def)
  have "ps = trim_pieces ps @ rev (takeWhile trivial_piece (rev ps))"
    unfolding trim_pieces_def by (metis rev_append rev_rev_ident split)
  with ne show "hd (trim_pieces ps) = hd ps"
    by (metis hd_append2)
qed

lemma path_strip_prefix_segments:
  assumes "is_absolute base" and "is_absolute p" and "path_strip_prefix base p = Some r"
  shows "path_segments p = path_segments base @ path_segments r" and "\<not> is_absolute r"
proof -
  let ?ps = "pieces_after (length (components base) - 1) (tl (split_on CHR ''/'' p))"
  have under: "prefix (components base) (components p)" and r: "r = join ''/'' (trim_pieces ?ps)"
    using assms(3) by (auto simp: path_strip_prefix_def path_under_def split: if_splits)
  have len: "length (components base) - Suc 0 = length (path_segments base)"
    by (simp add: components_absolute [OF assms(1)])
  have no_sep: "\<forall>q \<in> set ?ps. CHR ''/'' \<notin> set q"
    using set_pieces_after split_on_pieces by (meson in_mono list.set_sel(2) split_on_nonempty)
  then have no_sep': "\<forall>q \<in> set (trim_pieces ?ps). CHR ''/'' \<notin> set q"
    using set_trim_pieces by blast
  have seg: "path_segments r = drop (length (path_segments base)) (path_segments p)"
    using path_segments_join_pieces [OF no_sep'] path_segments_tl [OF assms(2)]
    by (simp add: r len nontrivial_pieces_after)
  have "prefix (path_segments base) (path_segments p)"
    using under by (simp add: components_absolute assms(1,2) map_component_of_prefix)
  then show "path_segments p = path_segments base @ path_segments r"
    using seg by (auto simp: prefix_def)
  show "\<not> is_absolute r"
  proof (cases "?ps = []")
    case True
    then show ?thesis
      by (simp add: r trim_pieces_def is_absolute_def)
  next
    case False
    note h = trim_pieces_hd [OF False hd_pieces_after [OF False]]
    obtain q qs where q: "trim_pieces ?ps = q # qs"
      using h(1) by (cases "trim_pieces ?ps") auto
    have "\<not> trivial_piece q"
      using h(2) hd_pieces_after [OF False] unfolding q by (metis list.sel(1))
    moreover have "CHR ''/'' \<notin> set q"
      using no_sep' unfolding q by (metis list.set_intros(1))
    ultimately have "q \<noteq> []" "CHR ''/'' \<notin> set q"
      by (simp_all add: trivial_piece_def)
    then show ?thesis
      unfolding r q by (cases qs; cases q) (auto simp: is_absolute_def)
  qed
qed

section \<open>Parents and paths from components\<close>

text \<open>
  \<open>Path::parent\<close>: the text before the last component, without the slashes and dots at its end.
\<close>

definition path_parent :: "string \<Rightarrow> string option" where
  "path_parent p =
     (if components p = [] \<or> components p = [RootDir] then None
      else
        let ps = split_on CHR ''/'' p
        in if is_absolute p then Some (''/'' @ join ''/'' (trim_pieces (butlast (trim_pieces (tl ps)))))
           else if hd ps = ''.'' then
             (if nontrivial (tl ps) = [] then Some []
              else Some (join ''/'' (''.'' # trim_pieces (butlast (trim_pieces (tl ps))))))
           else Some (join ''/'' (trim_pieces (butlast (trim_pieces ps)))))"

text \<open>A \<open>PathBuf\<close> built by pushing components one by one.\<close>

fun component_text :: "component \<Rightarrow> string" where
  "component_text RootDir = []"
| "component_text CurDir = ''.''"
| "component_text ParentDir = ''..''"
| "component_text (Normal s) = s"

definition show_path :: "component list \<Rightarrow> string" where
  "show_path cs = (if cs = [RootDir] then ''/'' else join ''/'' (map component_text cs))"

text \<open>
  The components a path can have and that a built path shows: at most one root, in front, and
  real names.
\<close>

fun component_ok :: "component \<Rightarrow> bool" where
  "component_ok RootDir = False"
| "component_ok CurDir = False"
| "component_ok ParentDir = True"
| "component_ok (Normal s) = (s \<noteq> [] \<and> s \<noteq> ''.'' \<and> s \<noteq> ''..'' \<and> CHR ''/'' \<notin> set s)"

definition components_ok :: "component list \<Rightarrow> bool" where
  "components_ok cs \<longleftrightarrow> list_all component_ok (case cs of RootDir # r \<Rightarrow> r | _ \<Rightarrow> cs)"

lemma component_of_text: "component_ok c \<Longrightarrow> component_of (component_text c) = c"
  by (cases c) (auto simp: component_of_def)

lemma component_text_piece:
  "component_ok c \<Longrightarrow> component_text c \<noteq> [] \<and> component_text c \<noteq> ''.'' \<and> CHR ''/'' \<notin> set (component_text c)"
  by (cases c) auto

lemma join_pieces:
  assumes "list_all component_ok cs"
  shows "path_segments (join ''/'' (map component_text cs)) = map component_text cs"
    and "\<not> is_absolute (join ''/'' (map component_text cs))"
    and "hd (split_on CHR ''/'' (join ''/'' (map component_text cs))) \<noteq> ''.''"
proof -
  have piece: "component_text c \<noteq> [] \<and> component_text c \<noteq> ''.'' \<and> CHR ''/'' \<notin> set (component_text c)"
    if "c \<in> set cs" for c
    using assms that component_text_piece by (auto simp: list_all_iff)
  then show "path_segments (join ''/'' (map component_text cs)) = map component_text cs"
    by (subst path_segments_join_pieces) (auto simp: filter_id_conv)
  show "\<not> is_absolute (join ''/'' (map component_text cs))"
  proof (cases cs)
    case (Cons c r)
    then show ?thesis
      using piece [of c] by (cases r; cases "component_text c") (auto simp: is_absolute_def)
  qed (simp add: is_absolute_def)
  show "hd (split_on CHR ''/'' (join ''/'' (map component_text cs))) \<noteq> ''.''"
  proof (cases cs)
    case (Cons c r)
    then have "split_on CHR ''/'' (join ''/'' (map component_text cs)) = map component_text cs"
      using piece split_on_join [of "map component_text cs" "CHR ''/''"] by auto
    then show ?thesis
      using Cons piece [of c] by simp
  qed simp
qed

lemma components_show_path:
  assumes "components_ok cs"
  shows "components (show_path cs) = cs"
proof (cases "\<exists>r. cs = RootDir # r")
  case True
  then obtain r where cs: "cs = RootDir # r"
    by blast
  then have ok: "list_all component_ok r"
    using assms by (simp add: components_ok_def)
  have "show_path cs = CHR ''/'' # join ''/'' (map component_text r)"
    by (cases r) (simp_all add: cs show_path_def)
  then have "components (show_path cs) = RootDir # map component_of (map component_text r)"
    using join_pieces(1) [OF ok] by (simp add: components_absolute is_absolute_def)
  also have "map component_of (map component_text r) = r"
    using ok by (simp add: list_all_iff map_idI component_of_text)
  finally show ?thesis
    by (simp add: cs)
next
  case False
  then have ok: "list_all component_ok cs"
    using assms by (auto simp: components_ok_def split: list.splits component.splits)
  have "components (show_path cs) = map component_of (map component_text cs)"
    using False join_pieces [OF ok] by (auto simp: components_def show_path_def)
  then show ?thesis
    using ok by (simp add: list_all_iff map_idI component_of_text)
qed

lemma components_pieces: "s \<in> set (path_segments p) \<Longrightarrow> component_ok (component_of s)"
  using split_on_pieces by (fastforce simp: path_segments_def component_of_def)

section \<open>Ancestors\<close>

lemma length_join_append: "length (join sep xs) \<le> length (join sep (xs @ ys))"
proof (induction xs)
  case (Cons x xs)
  then show ?case
    by (cases xs; cases ys) auto
qed simp

lemma length_join_snoc:
  assumes "y \<noteq> []"
  shows "length (join ''/'' xs) < length (join ''/'' (xs @ [y]))"
proof (induction xs)
  case (Cons x xs)
  then show ?case
    by (cases xs) auto
qed (use assms in simp)

lemma trim_pieces_prefix: "\<exists>r. ps = trim_pieces ps @ r"
proof -
  have "ps = rev (dropWhile trivial_piece (rev ps)) @ rev (takeWhile trivial_piece (rev ps))"
    by (metis rev_append rev_rev_ident takeWhile_dropWhile_id)
  then show ?thesis
    unfolding trim_pieces_def by blast
qed

lemma trim_pieces_last: "trim_pieces ps \<noteq> [] \<Longrightarrow> \<not> trivial_piece (last (trim_pieces ps))"
  by (metis hd_dropWhile last_rev rev.simps(1) rev_rev_ident trim_pieces_def)

lemma trim_pieces_Nil: "trim_pieces ps = [] \<longleftrightarrow> nontrivial ps = []"
  by (auto simp: trim_pieces_def trivial_piece_def dropWhile_eq_Nil_conv filter_empty_conv)

text \<open>Dropping the last real piece, and what is trivial around it, shortens the text.\<close>

lemma parent_pieces_shorter:
  assumes "nontrivial ps \<noteq> []"
  shows "length (join ''/'' (pre @ trim_pieces (butlast (trim_pieces ps)))) < length (join ''/'' (pre @ ps))"
proof -
  let ?t = "trim_pieces ps"
  have ne: "?t \<noteq> []"
    using assms by (simp add: trim_pieces_Nil)
  then have "last ?t \<noteq> []"
    using trim_pieces_last [OF ne] by (auto simp: trivial_piece_def)
  then have "length (join ''/'' (pre @ butlast ?t)) < length (join ''/'' (pre @ ?t))"
    using length_join_snoc [of "last ?t" "pre @ butlast ?t"] ne by simp
  moreover obtain r where "butlast ?t = trim_pieces (butlast ?t) @ r"
    using trim_pieces_prefix by blast
  then have "length (join ''/'' (pre @ trim_pieces (butlast ?t))) \<le> length (join ''/'' (pre @ butlast ?t))"
    by (metis append.assoc length_join_append)
  moreover obtain r' where "ps = ?t @ r'"
    using trim_pieces_prefix by blast
  then have "length (join ''/'' (pre @ ?t)) \<le> length (join ''/'' (pre @ ps))"
    by (metis append.assoc length_join_append)
  ultimately show ?thesis
    by linarith
qed

lemma path_parent_shorter:
  assumes "path_parent p = Some q"
  shows "length q < length p"
proof -
  let ?ps = "split_on CHR ''/'' p"
  have p: "join ''/'' ?ps = p"
    by (rule join_split_on)
  have split: "?ps = hd ?ps # tl ?ps"
    by (simp add: split_on_nonempty)
  have comps: "components p \<noteq> []" "components p \<noteq> [RootDir]"
    using assms by (auto simp: path_parent_def split: if_splits)
  show ?thesis
  proof (cases "is_absolute p")
    case True
    then have "nontrivial (tl ?ps) \<noteq> []"
      using comps path_segments_tl [OF True] by (auto simp: components_absolute)
    moreover obtain r where "p = CHR ''/'' # r" "tl ?ps = split_on CHR ''/'' r"
      using True by (cases p) (auto simp: is_absolute_def)
    ultimately show ?thesis
      using assms comps True parent_pieces_shorter [of "tl ?ps" "[]"] join_split_on [of "CHR ''/''" r]
      by (auto simp: path_parent_def Let_def)
  next
    case False
    show ?thesis
    proof (cases "hd ?ps = ''.''")
      case True
      show ?thesis
      proof (cases "nontrivial (tl ?ps) = []")
        case True
        then show ?thesis
          using assms comps False \<open>hd ?ps = ''.''\<close> by (cases p) (auto simp: path_parent_def Let_def)
      next
        case tail: False
        have "q = join ''/'' ([''.''] @ trim_pieces (butlast (trim_pieces (tl ?ps))))"
          using assms comps False True tail by (auto simp: path_parent_def Let_def)
        moreover have "p = join ''/'' ([''.''] @ tl ?ps)"
          using p split True by (metis append_Cons append_Nil)
        ultimately show ?thesis
          using parent_pieces_shorter [OF tail, of "[''.'']"] by metis
      qed
    next
      case dot: False
      then have "nontrivial ?ps \<noteq> []"
        using comps False by (auto simp: components_def path_segments_def)
      then show ?thesis
        using assms comps False dot parent_pieces_shorter [of ?ps "[]"] p
        by (auto simp: path_parent_def Let_def)
    qed
  qed
qed

text \<open>\<open>Path::ancestors\<close>: the path, its parent, and so on.\<close>

function path_ancestors :: "string \<Rightarrow> string list" where
  "path_ancestors p = p # (case path_parent p of None \<Rightarrow> [] | Some q \<Rightarrow> path_ancestors q)"
  by pat_completeness auto
termination
  by (relation "measure length") (simp_all add: path_parent_shorter)

declare path_ancestors.simps [simp del]

section \<open>Files in a directory\<close>

text \<open>Joining one plain name appends one component.\<close>

lemma components_join_name:
  assumes "is_absolute d" and "CHR ''/'' \<notin> set n" and "n \<noteq> []" and "n \<noteq> ''.''"
  shows "components (path_join d n) = components d @ [component_of n]"
    and "is_absolute (path_join d n)"
proof -
  have rel: "\<not> is_absolute n"
    using assms(2,3) by (cases n) (auto simp: is_absolute_def)
  have "path_segments n = [n]"
    using path_segments_join_pieces [of "[n]"] assms by simp
  then show "components (path_join d n) = components d @ [component_of n]"
    using components_join [OF assms(1) rel] by simp
  show "is_absolute (path_join d n)"
    by (rule is_absolute_join [OF assms(1) rel])
qed

text \<open>Plain file names, a single ordinary component.\<close>

definition plain :: "string \<Rightarrow> bool" where
  "plain f \<longleftrightarrow> f \<noteq> [] \<and> f \<noteq> ''.'' \<and> f \<noteq> ''..'' \<and> CHR ''/'' \<notin> set f"

lemma components_file: "is_absolute d \<Longrightarrow> plain f \<Longrightarrow> components (path_join d f) = components d @ [Normal f]"
  using components_join_name(1) [of d f] by (auto simp: plain_def component_of_def)

lemma is_absolute_file: "is_absolute d \<Longrightarrow> plain f \<Longrightarrow> is_absolute (path_join d f)"
  using components_join_name(2) [of d f] by (auto simp: plain_def)

lemma is_absolute_parent: "is_absolute p \<Longrightarrow> path_parent p = Some d \<Longrightarrow> is_absolute d"
  by (auto simp: path_parent_def is_absolute_def Let_def split: if_splits)

end
