(* ===== verification/Zygo_Limits.thy ===== *)
theory Zygo_Limits
  imports Rust_Nums
begin

text \<open>
  Resource limits (\<open>crates/zygo-core/src/sandbox/limits.rs\<close>): the limit set of a sandbox and
  the cgroup files, mount options and rlimits it turns into. Byte counts and counters are
  naturals below \<open>2 ^ 64\<close> (nothing here computes with them); the CPU quota is a floating
  point number in the program, so its type and its \<open>cpu.max\<close> text are parameters.
\<close>

record 'c limits =
  lim_mem :: nat
  lim_mem_high :: nat
  lim_swap :: nat
  lim_oom_group :: bool
  lim_cpu :: 'c
  lim_pids :: nat
  lim_timeout_ms :: nat
  lim_scratch :: nat
  lim_scratch_inodes :: nat
  lim_io_read :: "nat option"
  lim_io_write :: "nat option"
  lim_nofile :: nat
  lim_fsize :: nat
  lim_connections :: nat
  lim_bandwidth :: "nat option"

record cgroup_write =
  cw_file :: string
  cw_value :: string

abbreviation write_of :: "string \<Rightarrow> string \<Rightarrow> cgroup_write" where
  "write_of f v \<equiv> \<lparr>cw_file = f, cw_value = v\<rparr>"

definition leaf_writes :: "'c limits \<Rightarrow> cgroup_write list" where
  "leaf_writes l =
     filter (\<lambda>e. cw_value e \<noteq> [])
       ([write_of ''memory.max'' (show_nat (lim_mem l))]
        @ (if lim_swap l > 0 then [write_of ''memory.high'' (show_nat (lim_mem_high l))] else [])
        @ [write_of ''memory.swap.max'' (show_nat (lim_swap l)),
           write_of ''memory.oom.group'' (show_nat (of_bool (lim_oom_group l)))])"

definition shared_writes :: "('c \<Rightarrow> string) \<Rightarrow> 'c limits \<Rightarrow> cgroup_write list" where
  "shared_writes cgroup_max l =
     [write_of ''pids.max'' (show_nat (lim_pids l)),
      write_of ''cpu.max'' (cgroup_max (lim_cpu l)),
      write_of ''cpu.weight'' ''100'']"

definition cgroup_writes :: "('c \<Rightarrow> string) \<Rightarrow> 'c limits \<Rightarrow> cgroup_write list" where
  "cgroup_writes cgroup_max l = leaf_writes l @ shared_writes cgroup_max l"

definition function_writes :: "('c \<Rightarrow> string) \<Rightarrow> 'c limits \<Rightarrow> cgroup_write list" where
  "function_writes cgroup_max l =
     [write_of ''memory.max'' ''max'',
      write_of ''memory.oom.group'' ''0'',
      write_of ''memory.swap.max'' (show_nat (lim_swap l))]
     @ shared_writes cgroup_max l"

definition io_max_for_device :: "'c limits \<Rightarrow> nat \<Rightarrow> nat \<Rightarrow> cgroup_write option" where
  "io_max_for_device l major minor =
     (if lim_io_read l = None \<and> lim_io_write l = None then None
      else Some (write_of ''io.max'' (join '' ''
        ([show_nat major @ '':'' @ show_nat minor]
         @ (case lim_io_read l of None \<Rightarrow> [] | Some r \<Rightarrow> [''rbps='' @ show_nat r])
         @ (case lim_io_write l of None \<Rightarrow> [] | Some w \<Rightarrow> [''wbps='' @ show_nat w])))))"

definition scratch_mount_options :: "'c limits \<Rightarrow> string" where
  "scratch_mount_options l =
     ''size='' @ show_nat (lim_scratch l) @ '',nr_inodes='' @ show_nat (lim_scratch_inodes l)
     @ '',mode=1777''"

datatype rlimit_kind = NoFile | FSize | Core | NProc

definition rlimits :: "'c limits \<Rightarrow> (rlimit_kind \<times> nat) list" where
  "rlimits l = [(NoFile, lim_nofile l), (FSize, lim_fsize l), (Core, 0), (NProc, lim_pids l)]"

text \<open>
  \<open>Limits::for_tests\<close>, an ordinary set of limits; the scaled \<open>mem_high\<close> and the half core
  are floating point and given.
\<close>

definition for_tests :: "'c \<Rightarrow> nat \<Rightarrow> 'c limits" where
  "for_tests half_core mem_high =
     \<lparr>lim_mem = 256 * 1048576, lim_mem_high = mem_high, lim_swap = 0, lim_oom_group = True,
      lim_cpu = half_core, lim_pids = 64, lim_timeout_ms = 30000, lim_scratch = 64 * 1048576,
      lim_scratch_inodes = 10000, lim_io_read = None, lim_io_write = None, lim_nofile = 1024,
      lim_fsize = 64 * 1048576, lim_connections = 256, lim_bandwidth = None\<rparr>"

section \<open>What the kernel holds afterwards\<close>

text \<open>
  The files of a cgroup directory are a map; writing a batch in order leaves the last value
  written to each file and every other file as it was.
\<close>

type_synonym cgroup_files = "string \<rightharpoonup> string"

definition after_writes :: "cgroup_write list \<Rightarrow> cgroup_files \<Rightarrow> cgroup_files" where
  "after_writes ws files = fold (\<lambda>w m. m(cw_file w \<mapsto> cw_value w)) ws files"

text \<open>
  The memory ceiling of a process is the smallest \<open>memory.max\<close> on the way from its cgroup
  to the root; \<open>max\<close> is no ceiling.
\<close>

definition memory_max :: "cgroup_files \<Rightarrow> nat option" where
  "memory_max files = (case files ''memory.max'' of None \<Rightarrow> None
     | Some v \<Rightarrow> if v = ''max'' then None else parse_uint u64_max v)"

definition memory_ceiling :: "cgroup_files list \<Rightarrow> nat option" where
  "memory_ceiling dirs = (case List.map_filter memory_max dirs of [] \<Rightarrow> None
     | m # ms \<Rightarrow> Some (fold min ms m))"

lemma after_writes_simps [simp]:
  "after_writes [] files = files"
  "after_writes (w # ws) files = after_writes ws (files(cw_file w \<mapsto> cw_value w))"
  by (simp_all add: after_writes_def)

lemma after_writes_append [simp]:
  "after_writes (xs @ ys) files = after_writes ys (after_writes xs files)"
  by (simp add: after_writes_def)

lemma leaf_writes_eq:
  "leaf_writes l =
     [write_of ''memory.max'' (show_nat (lim_mem l))]
     @ (if lim_swap l > 0 then [write_of ''memory.high'' (show_nat (lim_mem_high l))] else [])
     @ [write_of ''memory.swap.max'' (show_nat (lim_swap l)),
        write_of ''memory.oom.group'' (show_nat (of_bool (lim_oom_group l)))]"
  by (simp add: leaf_writes_def)

lemma after_leaf_writes:
  "after_writes (leaf_writes l) files ''memory.max'' = Some (show_nat (lim_mem l))"
  "after_writes (leaf_writes l) files ''memory.swap.max'' = Some (show_nat (lim_swap l))"
  "after_writes (leaf_writes l) files ''memory.oom.group'' = Some (show_nat (of_bool (lim_oom_group l)))"
  "after_writes (leaf_writes l) files ''memory.high''
     = (if lim_swap l > 0 then Some (show_nat (lim_mem_high l)) else files ''memory.high'')"
  by (simp_all add: leaf_writes_eq)

lemma after_function_writes:
  "after_writes (function_writes cm l) files ''memory.max'' = Some ''max''"
  "after_writes (function_writes cm l) files ''memory.oom.group'' = Some ''0''"
  "after_writes (function_writes cm l) files ''memory.swap.max'' = Some (show_nat (lim_swap l))"
  "after_writes (function_writes cm l) files ''pids.max'' = Some (show_nat (lim_pids l))"
  "after_writes (function_writes cm l) files ''cpu.max'' = Some (cm (lim_cpu l))"
  by (simp_all add: function_writes_def shared_writes_def)

lemma leaf_writes_order:
  "filter (\<lambda>f. f = ''memory.max'' \<or> f = ''memory.high'') (map cw_file (leaf_writes l))
     = (if lim_swap l > 0 then [''memory.max'', ''memory.high''] else [''memory.max''])"
  by (simp add: leaf_writes_eq)

lemma show_nat_not_max: "show_nat n \<noteq> ''max''"
  using show_nat_digits [of "CHR ''m''" n] by (auto simp: is_ascii_digit_def str_simps)

lemma memory_max_leaf:
  "lim_mem l \<le> u64_max \<Longrightarrow> memory_max (after_writes (leaf_writes l) files) = Some (lim_mem l)"
  by (simp add: memory_max_def after_leaf_writes show_nat_not_max)

lemma memory_max_function: "memory_max (after_writes (function_writes cm l) files) = None"
  by (simp add: memory_max_def after_function_writes)

text \<open>
  Limits are mandatory and memory is bounded per request: whatever a leaf cgroup and its
  function's cgroup held before, after their writes the process tree in the leaf is bounded by
  exactly \<open>mem\<close> (the function's own ceiling is opened, also one left by an earlier run), the
  swap ceiling, the group kill, the process count and the CPU quota are set, and
  \<open>memory.max\<close> is written before \<open>memory.high\<close>, which is written only when there is swap to
  reclaim to.
\<close>

theorem limits_applied:
  assumes "lim_mem l \<le> u64_max"
  shows "memory_ceiling [after_writes (leaf_writes l) leaf, after_writes (function_writes cm l) fn]
           = Some (lim_mem l)
    \<and> after_writes (leaf_writes l) leaf ''memory.swap.max'' = Some (show_nat (lim_swap l))
    \<and> after_writes (leaf_writes l) leaf ''memory.oom.group'' = Some (show_nat (of_bool (lim_oom_group l)))
    \<and> after_writes (function_writes cm l) fn ''pids.max'' = Some (show_nat (lim_pids l))
    \<and> after_writes (function_writes cm l) fn ''cpu.max'' = Some (cm (lim_cpu l))
    \<and> filter (\<lambda>f. f \<in> {''memory.max'', ''memory.high''}) (map cw_file (leaf_writes l))
        = (if lim_swap l > 0 then [''memory.max'', ''memory.high''] else [''memory.max''])"
  by (simp add: memory_ceiling_def memory_max_leaf [OF assms] memory_max_function
      after_leaf_writes after_function_writes leaf_writes_order)

theorem limits_applied_witness:
  "memory_ceiling
     [after_writes (leaf_writes (for_tests () 241591910)) Map.empty,
      after_writes (function_writes (\<lambda>_. ''50000 100000'') (for_tests () 241591910))
        [''memory.max'' \<mapsto> ''16'']]
   = Some 268435456"
  by (subst limits_applied [THEN conjunct1]) (simp_all add: for_tests_def u64_max_def)

end
