(* ===== verification/Zygo_Mount.thy ===== *)
theory Zygo_Mount
  imports Rust_Paths Zygo_Limits Zygo_Types
begin

unbundle bit_operations_syntax

text \<open>
  The mount plan (\<open>crates/zygo-core/src/sandbox/mount.rs\<close>): the ordered operations that
  assemble a sandbox's root, their description, and the paths the plan leaves writable. What
  a plan means is \<open>visible\<close>: after the operations ran in order, a path shows what the last
  operation at or above it put there.
\<close>

section \<open>Operations\<close>

datatype rootfs_view = RootOverlay "string list" | RootFlat string

definition NOSUID :: u64 where "NOSUID = push_bit 0 1"
definition NODEV :: u64 where "NODEV = push_bit 1 1"
definition NOEXEC :: u64 where "NOEXEC = push_bit 2 1"
definition RDONLY :: u64 where "RDONLY = push_bit 3 1"

datatype mount_op =
    MakeRootPrivate
  | Overlay "string list" string
  | BindRoot string string
  | Tmpfs string string u64
  | Bind string string mount_mode
  | Proc string
  | Sysfs string
  | DevPts string
  | DevNode string
  | Mask string
  | RemountReadOnly string

record mount_plan =
  mp_newroot :: string
  mp_ops :: "mount_op list"

definition DEV_NODES :: "string list" where
  "DEV_NODES = [''null'', ''zero'', ''full'', ''random'', ''urandom'', ''tty'']"

definition MASKED_PATHS :: "string list" where
  "MASKED_PATHS =
     [''/proc/acpi'', ''/proc/asound'', ''/proc/kcore'', ''/proc/keys'', ''/proc/latency_stats'',
      ''/proc/sched_debug'', ''/proc/scsi'', ''/proc/timer_list'', ''/proc/timer_stats'',
      ''/sys/firmware'', ''/sys/devices/virtual/powercap'']"

definition READONLY_PATHS :: "string list" where
  "READONLY_PATHS =
     [''/proc/bus'', ''/proc/fs'', ''/proc/irq'', ''/proc/sys'', ''/proc/sysrq-trigger'']"

datatype mount_point_kind = Directory | File

record mount_point =
  mpt_path :: string
  mpt_kind :: mount_point_kind

definition WORKSPACE_DIR :: string where "WORKSPACE_DIR = ''/work''"

text \<open>\<open>pool::SCRIPT_DIR_IN_SANDBOX\<close>.\<close>

definition SCRIPT_DIR_IN_SANDBOX :: string where "SCRIPT_DIR_IN_SANDBOX = ''/run/script''"

definition MANAGED_TARGETS :: "string list" where
  "MANAGED_TARGETS =
     [''/proc'', ''/sys'', ''/dev'', ''/dev/pts'', ''/dev/shm'', ''/tmp'', ''/run'',
      SCRIPT_DIR_IN_SANDBOX, WORKSPACE_DIR]"

text \<open>Whether a mount's source is a file on the host is asked of the host.\<close>

definition required_mount_points :: "(string \<Rightarrow> bool) \<Rightarrow> mount list \<Rightarrow> mount_point list" where
  "required_mount_points is_file mounts =
     map (\<lambda>p. \<lparr>mpt_path = p, mpt_kind = Directory\<rparr>) MANAGED_TARGETS
     @ map (\<lambda>m. \<lparr>mpt_path = m_target m,
                  mpt_kind = (if is_file (m_source m) then File else Directory)\<rparr>) mounts"

section \<open>The plan\<close>

definition depth :: "string \<Rightarrow> nat" where
  "depth p = length (components p)"

definition inside :: "string \<Rightarrow> string \<Rightarrow> string" where
  "inside newroot p = path_join newroot (trim_start_slashes p)"

definition root_op :: "string \<Rightarrow> rootfs_view \<Rightarrow> mount_op" where
  "root_op newroot rootfs =
     (case rootfs of RootOverlay lower \<Rightarrow> Overlay lower newroot | RootFlat dir \<Rightarrow> BindRoot dir newroot)"

definition system_ops :: "string \<Rightarrow> 'c limits \<Rightarrow> mount_op list" where
  "system_ops newroot l =
     [Proc (inside newroot ''/proc''),
      Sysfs (inside newroot ''/sys''),
      Tmpfs (inside newroot ''/dev'') ''size=64k,mode=755'' (NOSUID OR NOEXEC)]
     @ map DevNode DEV_NODES
     @ [DevPts (inside newroot ''/dev/pts''),
        Tmpfs (inside newroot ''/dev/shm'')
          (''size='' @ show_nat (lim_scratch l div 4) @ '',mode=1777'') (NOSUID OR NODEV OR NOEXEC),
        Tmpfs (inside newroot ''/tmp'') (scratch_mount_options l) (NOSUID OR NODEV),
        Tmpfs (inside newroot ''/run'') ''size=1048576,mode=755'' (NOSUID OR NODEV OR NOEXEC),
        Tmpfs (inside newroot WORKSPACE_DIR)
          (''size='' @ show_nat (lim_scratch l) @ '',mode=311'') (NOSUID OR NODEV)]"

definition user_ops :: "string \<Rightarrow> mount list \<Rightarrow> mount_op list" where
  "user_ops newroot mounts =
     map (\<lambda>m. Bind (m_source m) (inside newroot (m_target m)) (m_mode m))
       (sort_key (\<lambda>m. (depth (m_target m), components (m_target m))) mounts)"

definition hardening_ops :: "string \<Rightarrow> mount_op list" where
  "hardening_ops newroot =
     map (\<lambda>p. Mask (inside newroot p)) MASKED_PATHS
     @ map (\<lambda>p. RemountReadOnly (inside newroot p)) READONLY_PATHS"

definition plan :: "string \<Rightarrow> rootfs_view \<Rightarrow> 'c limits \<Rightarrow> mount list \<Rightarrow> mount_plan" where
  "plan newroot rootfs l mounts =
     \<lparr>mp_newroot = newroot,
      mp_ops = [MakeRootPrivate, root_op newroot rootfs] @ system_ops newroot l
        @ user_ops newroot mounts @ hardening_ops newroot\<rparr>"

section \<open>Descriptions\<close>

definition describe_flags :: "u64 \<Rightarrow> string" where
  "describe_flags value =
     concat (map (\<lambda>(bit, name). if value AND bit \<noteq> 0 then '','' @ name else [])
       [(NOSUID, ''nosuid''), (NODEV, ''nodev''), (NOEXEC, ''noexec''), (RDONLY, ''ro'')])"

fun describe_op :: "mount_op \<Rightarrow> string" where
  "describe_op MakeRootPrivate = ''make-rprivate /''"
| "describe_op (Overlay lower target) = ''overlay ro '' @ join '':'' lower @ '' -> '' @ target"
| "describe_op (BindRoot source target) = ''bind ro '' @ source @ '' -> '' @ target"
| "describe_op (Tmpfs target options fl) =
     ''tmpfs '' @ target @ '' ('' @ options @ describe_flags fl @ '')''"
| "describe_op (Bind source target mode) =
     ''bind '' @ (case mode of Ro \<Rightarrow> ''ro'' | Rw \<Rightarrow> ''rw'') @ '' '' @ source @ '' -> '' @ target"
| "describe_op (Proc target) = ''proc '' @ target"
| "describe_op (Sysfs target) = ''sysfs ro '' @ target"
| "describe_op (DevPts target) = ''devpts '' @ target"
| "describe_op (DevNode name) = ''dev node /dev/'' @ name"
| "describe_op (Mask target) = ''mask '' @ target"
| "describe_op (RemountReadOnly target) = ''remount ro '' @ target"

definition describe :: "mount_plan \<Rightarrow> string list" where
  "describe p = map describe_op (mp_ops p)"

fun writable_target :: "mount_op \<Rightarrow> string option" where
  "writable_target (Tmpfs target options fl) = Some target"
| "writable_target (Bind source target Rw) = Some target"
| "writable_target _ = None"

definition writable_targets :: "mount_plan \<Rightarrow> string list" where
  "writable_targets p = List.map_filter writable_target (mp_ops p)"

section \<open>What a plan shows\<close>

text \<open>
  Where an operation mounts (the launcher puts a device node at \<open>newroot/dev/name\<close>). A mount
  covers everything at and below its target until a later one does, so the object at a path
  is the one put there by the last operation that covers it.
\<close>

fun op_target :: "string \<Rightarrow> mount_op \<Rightarrow> string option" where
  "op_target newroot MakeRootPrivate = None"
| "op_target newroot (Overlay lower target) = Some target"
| "op_target newroot (BindRoot source target) = Some target"
| "op_target newroot (Tmpfs target options fl) = Some target"
| "op_target newroot (Bind source target mode) = Some target"
| "op_target newroot (Proc target) = Some target"
| "op_target newroot (Sysfs target) = Some target"
| "op_target newroot (DevPts target) = Some target"
| "op_target newroot (DevNode name) = Some (path_join (path_join newroot ''dev'') name)"
| "op_target newroot (Mask target) = Some target"
| "op_target newroot (RemountReadOnly target) = Some target"

definition covers :: "string \<Rightarrow> component list \<Rightarrow> mount_op \<Rightarrow> bool" where
  "covers newroot p op \<longleftrightarrow>
     (case op_target newroot op of None \<Rightarrow> False | Some t \<Rightarrow> prefix (components t) p)"

definition visible :: "string \<Rightarrow> mount_op list \<Rightarrow> component list \<Rightarrow> mount_op option" where
  "visible newroot ops p = find (covers newroot p) (rev ops)"

fun op_writable :: "mount_op \<Rightarrow> bool" where
  "op_writable (Tmpfs target options fl) \<longleftrightarrow> True"
| "op_writable (Bind source target mode) \<longleftrightarrow> mode = Rw"
| "op_writable _ \<longleftrightarrow> False"

text \<open>The path of the sandbox's \<open>p\<close> while the root is being assembled.\<close>

definition staged :: "string \<Rightarrow> string list \<Rightarrow> component list" where
  "staged newroot segs = components newroot @ map component_of segs"

lemma components_inside:
  "is_absolute newroot \<Longrightarrow> components (inside newroot p) = staged newroot (path_segments p)"
  by (simp add: inside_def staged_def components_join_trimmed)

lemma covers_inside:
  assumes "is_absolute newroot" and "op_target newroot op = Some (inside newroot p)"
  shows "covers newroot (staged newroot segs) op \<longleftrightarrow> prefix (path_segments p) segs"
  using assms by (simp add: covers_def components_inside) (simp add: staged_def map_component_of_prefix)

lemma visible_append:
  "visible newroot (xs @ ys) p = (case visible newroot ys p of Some op \<Rightarrow> Some op | None \<Rightarrow> visible newroot xs p)"
  by (simp add: visible_def find_append_case split: option.splits)

lemma visible_mem: "visible newroot ops p = Some op \<Longrightarrow> op \<in> set ops \<and> covers newroot p op"
  unfolding visible_def by (metis find_Some_iff length_rev nth_mem set_rev)

lemma visible_None: "visible newroot ops p = None \<longleftrightarrow> (\<forall>op \<in> set ops. \<not> covers newroot p op)"
  by (auto simp: visible_def find_None_iff)

section \<open>The hardening survives\<close>

definition hardened_paths :: "string list" where
  "hardened_paths = MASKED_PATHS @ READONLY_PATHS"

lemma path_segments_eval:
  "path_segments p = filter (\<lambda>s. s \<noteq> [] \<and> s \<noteq> ''.'') (split_on CHR ''/'' p)"
  by (rule path_segments_def)

lemma hardened_segments:
  "map path_segments hardened_paths =
     [[''proc'', ''acpi''], [''proc'', ''asound''], [''proc'', ''kcore''], [''proc'', ''keys''],
      [''proc'', ''latency_stats''], [''proc'', ''sched_debug''], [''proc'', ''scsi''],
      [''proc'', ''timer_list''], [''proc'', ''timer_stats''], [''sys'', ''firmware''],
      [''sys'', ''devices'', ''virtual'', ''powercap''], [''proc'', ''bus''], [''proc'', ''fs''],
      [''proc'', ''irq''], [''proc'', ''sys''], [''proc'', ''sysrq-trigger'']]"
  by (simp add: hardened_paths_def MASKED_PATHS_def READONLY_PATHS_def path_segments_def)

text \<open>No hardened path lies below another, so at most one of them covers a path.\<close>

lemma hardened_antichain:
  assumes "p \<in> set hardened_paths" and "q \<in> set hardened_paths"
    and "prefix (path_segments p) segs" and "prefix (path_segments q) segs"
  shows "path_segments p = path_segments q"
proof -
  have "prefix (path_segments p) (path_segments q) \<or> prefix (path_segments q) (path_segments p)"
    using assms(3,4) prefix_same_cases by blast
  moreover have "path_segments p \<in> set (map path_segments hardened_paths)"
    "path_segments q \<in> set (map path_segments hardened_paths)"
    using assms(1,2) by auto
  then show ?thesis
    using calculation unfolding hardened_segments by auto
qed

lemma hardened_distinct:
  "p \<in> set hardened_paths \<Longrightarrow> q \<in> set hardened_paths \<Longrightarrow> path_segments p = path_segments q \<Longrightarrow> p = q"
proof -
  have "distinct (map path_segments hardened_paths)"
    unfolding hardened_segments by simp
  then show "p \<in> set hardened_paths \<Longrightarrow> q \<in> set hardened_paths \<Longrightarrow> path_segments p = path_segments q \<Longrightarrow> p = q"
    by (auto simp: distinct_map inj_on_def)
qed

lemma hardening_disjoint: "set MASKED_PATHS \<inter> set READONLY_PATHS = {}"
  by (simp add: MASKED_PATHS_def READONLY_PATHS_def)

definition hardening_op :: "string \<Rightarrow> string \<Rightarrow> mount_op" where
  "hardening_op newroot p =
     (if p \<in> set MASKED_PATHS then Mask (inside newroot p) else RemountReadOnly (inside newroot p))"

lemma hardening_ops_eq: "hardening_ops newroot = map (hardening_op newroot) hardened_paths"
  using hardening_disjoint by (auto simp: hardening_ops_def hardened_paths_def hardening_op_def)

lemma hardening_target: "op_target newroot (hardening_op newroot p) = Some (inside newroot p)"
  by (simp add: hardening_op_def)

lemma visible_hardening:
  assumes "is_absolute newroot" and "p \<in> set hardened_paths" and "prefix (path_segments p) segs"
  shows "visible newroot (hardening_ops newroot) (staged newroot segs) = Some (hardening_op newroot p)"
proof -
  have "find (covers newroot (staged newroot segs) \<circ> hardening_op newroot) (rev hardened_paths) = Some p"
  proof (rule find_unique)
    show "\<forall>y \<in> set (rev hardened_paths).
        (covers newroot (staged newroot segs) \<circ> hardening_op newroot) y \<longrightarrow> y = p"
      using assms hardened_antichain hardened_distinct
      by (auto simp: covers_inside [OF assms(1) hardening_target])
  qed (use assms in \<open>simp_all add: covers_inside [OF assms(1) hardening_target]\<close>)
  then show ?thesis
    by (simp add: visible_def hardening_ops_eq find_rev_map)
qed

lemma visible_hardening_None:
  assumes "is_absolute newroot" and "\<forall>p \<in> set hardened_paths. \<not> prefix (path_segments p) segs"
  shows "visible newroot (hardening_ops newroot) (staged newroot segs) = None"
  using assms(2) by (auto simp: visible_None hardening_ops_eq covers_inside [OF assms(1) hardening_target])

lemma visible_plan:
  "visible newroot (mp_ops (plan newroot rootfs l mounts)) p =
     (case visible newroot (hardening_ops newroot) p of Some op \<Rightarrow> Some op
      | None \<Rightarrow> (case visible newroot (user_ops newroot mounts) p of Some op \<Rightarrow> Some op
      | None \<Rightarrow> visible newroot ([MakeRootPrivate, root_op newroot rootfs] @ system_ops newroot l) p))"
proof -
  have "mp_ops (plan newroot rootfs l mounts)
      = (([MakeRootPrivate, root_op newroot rootfs] @ system_ops newroot l) @ user_ops newroot mounts)
        @ hardening_ops newroot"
    by (simp add: plan_def)
  then show ?thesis
    by (simp only: visible_append)
qed

text \<open>
  The hardening cannot be undone by a spec: whatever bind mounts a specification asks for,
  after the plan ran every path at or below a masked path shows the mask and every path at
  or below a read-only path the read-only remount.
\<close>

theorem hardening_survives:
  assumes "is_absolute newroot" and "p \<in> set (MASKED_PATHS @ READONLY_PATHS)"
    and "prefix (path_segments p) segs"
  shows "visible newroot (mp_ops (plan newroot rootfs l mounts)) (staged newroot segs)
    = Some (if p \<in> set MASKED_PATHS then Mask (inside newroot p) else RemountReadOnly (inside newroot p))"
  using visible_hardening [OF assms(1) _ assms(3)] assms(2)
  by (simp add: visible_plan hardened_paths_def hardening_op_def)

theorem hardening_survives_witness:
  "visible ''/n'' (mp_ops (plan ''/n'' (RootFlat ''/img'')
      (for_tests () 241591910)
      [\<lparr>m_source = ''/host'', m_target = ''/proc/kcore'', m_mode = Rw\<rparr>]))
    (staged ''/n'' [''proc'', ''kcore'']) = Some (Mask (inside ''/n'' ''/proc/kcore''))"
  by (subst hardening_survives [where p = "''/proc/kcore''"])
    (simp_all add: is_absolute_def MASKED_PATHS_def path_segments_def)

section \<open>User mounts\<close>

lemma covers_user:
  assumes "is_absolute newroot"
  shows "covers newroot (staged newroot segs) (Bind (m_source m) (inside newroot (m_target m)) (m_mode m))
    \<longleftrightarrow> prefix (path_segments (m_target m)) segs"
  by (rule covers_inside [OF assms]) simp

abbreviation bind_of :: "string \<Rightarrow> mount \<Rightarrow> mount_op" where
  "bind_of newroot m \<equiv> Bind (m_source m) (inside newroot (m_target m)) (m_mode m)"

lemma depth_absolute: "is_absolute p \<Longrightarrow> depth p = Suc (length (path_segments p))"
  by (simp add: depth_def components_absolute)

lemma visible_user_ops:
  assumes "is_absolute newroot" and "m \<in> set mounts" and "prefix (path_segments (m_target m)) segs"
    and "\<forall>m' \<in> set mounts. is_absolute (m_target m')"
    and "\<forall>m' \<in> set mounts. prefix (path_segments (m_target m')) segs
           \<longrightarrow> m' = m \<or> length (path_segments (m_target m')) < length (path_segments (m_target m))"
  shows "visible newroot (user_ops newroot mounts) (staged newroot segs) = Some (bind_of newroot m)"
proof -
  let ?k = "\<lambda>m. (depth (m_target m), components (m_target m))"
  have "find (covers newroot (staged newroot segs) \<circ> bind_of newroot) (rev (sort_key ?k mounts)) = Some m"
  proof (rule find_rev_sort_key)
    show "\<forall>y \<in> set mounts. (covers newroot (staged newroot segs) \<circ> bind_of newroot) y
        \<longrightarrow> y = m \<or> ?k y < ?k m"
      using assms by (auto simp: covers_user depth_absolute)
  qed (use assms in \<open>simp_all add: covers_user\<close>)
  then show ?thesis
    by (simp add: visible_def user_ops_def find_rev_map)
qed

text \<open>
  The deepest mount wins, in whatever order the specification lists them: a path that no
  hardened path covers shows the bind mount whose target is the closest one above it, so a
  nested mount is never shadowed by the one it is nested in, and no launcher mount shadows
  either.
\<close>

theorem deepest_mount_visible:
  assumes "is_absolute newroot" and "m \<in> set mounts" and "prefix (path_segments (m_target m)) segs"
    and "\<forall>m' \<in> set mounts. is_absolute (m_target m')"
    and "\<forall>m' \<in> set mounts. prefix (path_segments (m_target m')) segs
           \<longrightarrow> m' = m \<or> length (path_segments (m_target m')) < length (path_segments (m_target m))"
    and "\<forall>h \<in> set (MASKED_PATHS @ READONLY_PATHS). \<not> prefix (path_segments h) segs"
  shows "visible newroot (mp_ops (plan newroot rootfs l mounts)) (staged newroot segs)
    = Some (Bind (m_source m) (inside newroot (m_target m)) (m_mode m))"
  using visible_hardening_None [OF assms(1)] visible_user_ops [OF assms(1-5)] assms(6)
  by (simp add: visible_plan hardened_paths_def)

theorem deepest_mount_visible_witness:
  "visible ''/n'' (mp_ops (plan ''/n'' (RootFlat ''/img'')
      (for_tests () 241591910)
      [\<lparr>m_source = ''/b'', m_target = ''/app/data'', m_mode = Rw\<rparr>,
       \<lparr>m_source = ''/a'', m_target = ''/app'', m_mode = Ro\<rparr>]))
    (staged ''/n'' [''app'', ''data'', ''x'']) = Some (Bind ''/b'' (inside ''/n'' ''/app/data'') Rw)"
  by (subst deepest_mount_visible [where m = "\<lparr>m_source = ''/b'', m_target = ''/app/data'', m_mode = Rw\<rparr>"])
    (simp_all add: is_absolute_def MASKED_PATHS_def READONLY_PATHS_def path_segments_def)

section \<open>What is writable\<close>

definition scratch_targets :: "string list" where
  "scratch_targets = [''/dev'', ''/dev/shm'', ''/tmp'', ''/run'', WORKSPACE_DIR]"

lemma visible_writable_prefix:
  assumes "is_absolute newroot" and "visible newroot (mp_ops (plan newroot rootfs l mounts)) (staged newroot segs) = Some op"
    and "op_writable op"
  shows "(\<exists>t \<in> set scratch_targets. prefix (path_segments t) segs)
    \<or> (\<exists>m \<in> set mounts. m_mode m = Rw \<and> prefix (path_segments (m_target m)) segs)"
proof -
  have op: "op \<in> set (mp_ops (plan newroot rootfs l mounts))" "covers newroot (staged newroot segs) op"
    using visible_mem [OF assms(2)] by auto
  have cases: "(\<exists>t \<in> set scratch_targets. op_target newroot op = Some (inside newroot t))
      \<or> (\<exists>m \<in> set mounts. m_mode m = Rw \<and> op_target newroot op = Some (inside newroot (m_target m)))"
    using op(1) assms(3)
    by (auto simp: plan_def system_ops_def user_ops_def hardening_ops_def scratch_targets_def root_op_def
        split: rootfs_view.splits)
  then show ?thesis
    using op(2) covers_inside [OF assms(1)] by metis
qed

lemma writable_target_bind: "writable_target (Bind s t mode) = (if mode = Rw then Some t else None)"
  by (cases mode) simp_all

lemma writable_targets_plan:
  "writable_targets (plan newroot rootfs l mounts) =
     map (inside newroot) scratch_targets
     @ map (\<lambda>m. inside newroot (m_target m))
         (filter (\<lambda>m. m_mode m = Rw)
           (sort_key (\<lambda>m. (depth (m_target m), components (m_target m))) mounts))"
proof -
  have user: "List.map_filter writable_target (map (bind_of newroot) ms)
      = map (\<lambda>m. inside newroot (m_target m)) (filter (\<lambda>m. m_mode m = Rw) ms)" for ms
    by (induction ms) (auto simp: List.map_filter_simps writable_target_bind)
  have "List.map_filter writable_target (hardening_ops newroot) = []"
    by (rule map_filter_None) (auto simp: hardening_ops_def)
  moreover have "List.map_filter writable_target [MakeRootPrivate, root_op newroot rootfs] = []"
    by (rule map_filter_None) (auto simp: root_op_def split: rootfs_view.splits)
  moreover have "List.map_filter writable_target (system_ops newroot l) = map (inside newroot) scratch_targets"
    by (simp add: system_ops_def map_filter_append DEV_NODES_def List.map_filter_simps scratch_targets_def)
  moreover have "mp_ops (plan newroot rootfs l mounts) = [MakeRootPrivate, root_op newroot rootfs]
      @ system_ops newroot l @ user_ops newroot mounts @ hardening_ops newroot"
    by (simp add: plan_def)
  ultimately show ?thesis
    by (simp only: writable_targets_def map_filter_append user_ops_def user append_Nil append_Nil2)
qed



end
