(* ===== verification/Zygo_Landlock.thy ===== *)
theory Zygo_Landlock
  imports Zygo_Mount
begin

text \<open>
  The Landlock ruleset (\<open>crates/zygo-core/src/backend/ns/landlock.rs\<close>): the rights each ABI
  knows, the rules derived from a mount plan and the network policy, and the system calls
  that apply them. \<open>landlock_allows\<close> and \<open>landlock_tcp\<close> say what a ruleset means: a handled right is
  refused unless a rule at or above the path (or for the port) grants it.
\<close>

section \<open>Access rights\<close>

definition ACCESS_FS_EXECUTE :: u64 where "ACCESS_FS_EXECUTE = push_bit 0 1"
definition ACCESS_FS_WRITE_FILE :: u64 where "ACCESS_FS_WRITE_FILE = push_bit 1 1"
definition ACCESS_FS_READ_FILE :: u64 where "ACCESS_FS_READ_FILE = push_bit 2 1"
definition ACCESS_FS_READ_DIR :: u64 where "ACCESS_FS_READ_DIR = push_bit 3 1"
definition ACCESS_FS_REMOVE_DIR :: u64 where "ACCESS_FS_REMOVE_DIR = push_bit 4 1"
definition ACCESS_FS_REMOVE_FILE :: u64 where "ACCESS_FS_REMOVE_FILE = push_bit 5 1"
definition ACCESS_FS_MAKE_CHAR :: u64 where "ACCESS_FS_MAKE_CHAR = push_bit 6 1"
definition ACCESS_FS_MAKE_DIR :: u64 where "ACCESS_FS_MAKE_DIR = push_bit 7 1"
definition ACCESS_FS_MAKE_REG :: u64 where "ACCESS_FS_MAKE_REG = push_bit 8 1"
definition ACCESS_FS_MAKE_SOCK :: u64 where "ACCESS_FS_MAKE_SOCK = push_bit 9 1"
definition ACCESS_FS_MAKE_FIFO :: u64 where "ACCESS_FS_MAKE_FIFO = push_bit 10 1"
definition ACCESS_FS_MAKE_BLOCK :: u64 where "ACCESS_FS_MAKE_BLOCK = push_bit 11 1"
definition ACCESS_FS_MAKE_SYM :: u64 where "ACCESS_FS_MAKE_SYM = push_bit 12 1"
definition ACCESS_FS_REFER :: u64 where "ACCESS_FS_REFER = push_bit 13 1"
definition ACCESS_FS_TRUNCATE :: u64 where "ACCESS_FS_TRUNCATE = push_bit 14 1"
definition ACCESS_FS_IOCTL_DEV :: u64 where "ACCESS_FS_IOCTL_DEV = push_bit 15 1"
definition ACCESS_NET_BIND_TCP :: u64 where "ACCESS_NET_BIND_TCP = push_bit 0 1"
definition ACCESS_NET_CONNECT_TCP :: u64 where "ACCESS_NET_CONNECT_TCP = push_bit 1 1"

lemmas access_defs =
  ACCESS_FS_EXECUTE_def ACCESS_FS_WRITE_FILE_def ACCESS_FS_READ_FILE_def ACCESS_FS_READ_DIR_def
  ACCESS_FS_REMOVE_DIR_def ACCESS_FS_REMOVE_FILE_def ACCESS_FS_MAKE_CHAR_def ACCESS_FS_MAKE_DIR_def
  ACCESS_FS_MAKE_REG_def ACCESS_FS_MAKE_SOCK_def ACCESS_FS_MAKE_FIFO_def ACCESS_FS_MAKE_BLOCK_def
  ACCESS_FS_MAKE_SYM_def ACCESS_FS_REFER_def ACCESS_FS_TRUNCATE_def ACCESS_FS_IOCTL_DEV_def
  ACCESS_NET_BIND_TCP_def ACCESS_NET_CONNECT_TCP_def

definition handled_fs_access :: "nat \<Rightarrow> u64" where
  "handled_fs_access abi =
     ACCESS_FS_EXECUTE OR ACCESS_FS_WRITE_FILE OR ACCESS_FS_READ_FILE OR ACCESS_FS_READ_DIR
     OR ACCESS_FS_REMOVE_DIR OR ACCESS_FS_REMOVE_FILE OR ACCESS_FS_MAKE_CHAR OR ACCESS_FS_MAKE_DIR
     OR ACCESS_FS_MAKE_REG OR ACCESS_FS_MAKE_SOCK OR ACCESS_FS_MAKE_FIFO OR ACCESS_FS_MAKE_BLOCK
     OR ACCESS_FS_MAKE_SYM
     OR (if abi \<ge> 2 then ACCESS_FS_REFER else 0)
     OR (if abi \<ge> 3 then ACCESS_FS_TRUNCATE else 0)
     OR (if abi \<ge> 5 then ACCESS_FS_IOCTL_DEV else 0)"

definition handled_net_access :: "nat \<Rightarrow> u64" where
  "handled_net_access abi = (if abi \<ge> 4 then ACCESS_NET_BIND_TCP OR ACCESS_NET_CONNECT_TCP else 0)"

definition read_only_rights :: "nat \<Rightarrow> u64" where
  "read_only_rights abi =
     ACCESS_FS_EXECUTE OR ACCESS_FS_READ_FILE OR ACCESS_FS_READ_DIR
     OR (if abi \<ge> 5 then ACCESS_FS_IOCTL_DEV else 0)"

definition read_write_rights :: "nat \<Rightarrow> u64" where
  "read_write_rights abi =
     read_only_rights abi
     OR ACCESS_FS_WRITE_FILE OR ACCESS_FS_REMOVE_DIR OR ACCESS_FS_REMOVE_FILE OR ACCESS_FS_MAKE_DIR
     OR ACCESS_FS_MAKE_REG OR ACCESS_FS_MAKE_SOCK OR ACCESS_FS_MAKE_FIFO OR ACCESS_FS_MAKE_SYM
     OR (if abi \<ge> 2 then ACCESS_FS_REFER else 0)
     OR (if abi \<ge> 3 then ACCESS_FS_TRUNCATE else 0)"

definition ACCESS_FILE :: u64 where
  "ACCESS_FILE = ACCESS_FS_EXECUTE OR ACCESS_FS_WRITE_FILE OR ACCESS_FS_READ_FILE
     OR ACCESS_FS_TRUNCATE OR ACCESS_FS_IOCTL_DEV"

definition rights_for :: "u64 \<Rightarrow> bool \<Rightarrow> u64" where
  "rights_for rights is_dir = (if is_dir then rights else rights AND ACCESS_FILE)"

section \<open>Rules\<close>

record path_rule =
  pr_path :: string
  pr_rights :: u64

record net_rule =
  nr_port :: nat
  nr_rights :: u64

datatype net_policy = Sealed | EgressPorts "nat list" | Open | Unrestricted

text \<open>The loop over the rules stops at the first one without a port.\<close>

fun egress_ports :: "allow_rule list \<Rightarrow> nat list option" where
  "egress_ports [] = Some []"
| "egress_ports (r # rs) =
     (case ar_port r of None \<Rightarrow> None | Some p \<Rightarrow> map_option ((#) p) (egress_ports rs))"

definition net_policy_of :: "network \<Rightarrow> allow_rule list \<Rightarrow> net_policy" where
  "net_policy_of network allow =
     (case network of
        NetNone \<Rightarrow> Sealed
      | Host \<Rightarrow> Unrestricted
      | Full \<Rightarrow> Open
      | Egress \<Rightarrow> (case egress_ports allow of
           None \<Rightarrow> EgressPorts []
         | Some ports \<Rightarrow> EgressPorts (remdups_adj (sort (ports @ [53])))))"

record ll_ruleset =
  rs_abi :: nat
  rs_handled_fs :: u64
  rs_handled_net :: u64
  rs_rules :: "path_rule list"
  rs_net_rules :: "net_rule list"

definition ruleset_is_empty :: "ll_ruleset \<Rightarrow> bool" where
  "ruleset_is_empty r \<longleftrightarrow> rs_abi r = 0"

definition inside_path :: "string \<Rightarrow> string \<Rightarrow> string" where
  "inside_path newroot target =
     (case path_strip_prefix newroot target of
        Some rest \<Rightarrow> path_join ''/'' rest
      | None \<Rightarrow> target)"

definition root_rule :: "nat \<Rightarrow> bool \<Rightarrow> path_rule" where
  "root_rule abi writable_root =
     \<lparr>pr_path = ''/'',
      pr_rights = (if writable_root then read_write_rights abi else read_only_rights abi)\<rparr>"

text \<open>A path with an interior NUL has no \<open>CString\<close> and is skipped.\<close>

definition target_rule :: "nat \<Rightarrow> string \<Rightarrow> string \<Rightarrow> path_rule option" where
  "target_rule abi newroot target =
     (let p = inside_path newroot target in
      if path_eq p ''/'' then None
      else if CHR 0x00 \<in> set p then None
      else Some \<lparr>pr_path = p, pr_rights = read_write_rights abi\<rparr>)"

fun dedup_by :: "('a \<Rightarrow> 'b) \<Rightarrow> 'a list \<Rightarrow> 'a list" where
  "dedup_by f [] = []"
| "dedup_by f [x] = [x]"
| "dedup_by f (x # y # zs) = (if f x = f y then dedup_by f (x # zs) else x # dedup_by f (y # zs))"

definition path_rules :: "nat \<Rightarrow> mount_plan \<Rightarrow> bool \<Rightarrow> path_rule list" where
  "path_rules abi p writable_root =
     dedup_by pr_path (sort_key pr_path
       (root_rule abi writable_root
        # List.map_filter (target_rule abi (mp_newroot p)) (writable_targets p)))"

definition net_handling :: "nat \<Rightarrow> net_policy \<Rightarrow> bool \<Rightarrow> u64 \<times> net_rule list" where
  "net_handling abi network shared =
     (let bind = (if shared then ACCESS_NET_BIND_TCP else 0) in
      if handled_net_access abi = 0 then (0, [])
      else (case network of
          Sealed \<Rightarrow> if shared then (ACCESS_NET_BIND_TCP OR ACCESS_NET_CONNECT_TCP, []) else (0, [])
        | Open \<Rightarrow> (bind, [])
        | EgressPorts ports \<Rightarrow>
            if ports = [] then (bind, [])
            else (bind OR ACCESS_NET_CONNECT_TCP,
                  map (\<lambda>port. \<lparr>nr_port = port, nr_rights = ACCESS_NET_CONNECT_TCP\<rparr>) ports)
        | Unrestricted \<Rightarrow> (0, [])))"

definition landlock_build :: "nat \<Rightarrow> mount_plan \<Rightarrow> net_policy \<Rightarrow> bool \<Rightarrow> bool \<Rightarrow> ll_ruleset" where
  "landlock_build abi p network writable_root shared =
     (if abi = 0
      then \<lparr>rs_abi = 0, rs_handled_fs = 0, rs_handled_net = 0, rs_rules = [], rs_net_rules = []\<rparr>
      else \<lparr>rs_abi = abi, rs_handled_fs = handled_fs_access abi,
            rs_handled_net = fst (net_handling abi network shared),
            rs_rules = path_rules abi p writable_root,
            rs_net_rules = snd (net_handling abi network shared)\<rparr>)"

section \<open>What a ruleset means\<close>

definition landlock_allows :: "ll_ruleset \<Rightarrow> string list \<Rightarrow> u64 \<Rightarrow> bool" where
  "landlock_allows r segs right \<longleftrightarrow>
     right AND rs_handled_fs r = 0
     \<or> (\<exists>rule \<in> set (rs_rules r). prefix (path_segments (pr_path rule)) segs \<and> right AND pr_rights rule = right)"

definition landlock_tcp :: "ll_ruleset \<Rightarrow> nat \<Rightarrow> u64 \<Rightarrow> bool" where
  "landlock_tcp r port right \<longleftrightarrow>
     right AND rs_handled_net r = 0
     \<or> (\<exists>rule \<in> set (rs_net_rules r). nr_port rule = port \<and> right AND nr_rights rule = right)"

section \<open>Rights\<close>

text \<open>The thresholds at which an ABI gains rights, for case analysis.\<close>

lemma abi_cases:
  obtains "abi < 2" | "abi = 2" | "abi = (3::nat)" | "abi = 4" | "5 \<le> abi"
  by linarith

lemma rights_within_handled:
  "pr_rights (root_rule abi w) AND NOT (handled_fs_access abi) = 0"
  "read_write_rights abi AND NOT (handled_fs_access abi) = 0"
  "rights_for (read_write_rights abi) d AND NOT (handled_fs_access abi) = 0"
  by (cases abi rule: abi_cases; simp add: root_rule_def read_write_rights_def read_only_rights_def
      handled_fs_access_def rights_for_def ACCESS_FILE_def access_defs)+

lemma right_bits:
  "ACCESS_FS_WRITE_FILE AND handled_fs_access abi \<noteq> 0"
  "ACCESS_FS_MAKE_CHAR AND handled_fs_access abi \<noteq> 0"
  "ACCESS_FS_MAKE_BLOCK AND handled_fs_access abi \<noteq> 0"
  "ACCESS_FS_WRITE_FILE AND read_write_rights abi = ACCESS_FS_WRITE_FILE"
  "ACCESS_FS_WRITE_FILE AND read_only_rights abi \<noteq> ACCESS_FS_WRITE_FILE"
  "ACCESS_FS_READ_FILE AND read_only_rights abi = ACCESS_FS_READ_FILE"
  "ACCESS_FS_READ_FILE AND read_write_rights abi = ACCESS_FS_READ_FILE"
  "ACCESS_FS_MAKE_CHAR AND read_write_rights abi \<noteq> ACCESS_FS_MAKE_CHAR"
  "ACCESS_FS_MAKE_BLOCK AND read_write_rights abi \<noteq> ACCESS_FS_MAKE_BLOCK"
  "ACCESS_FS_MAKE_CHAR AND read_only_rights abi \<noteq> ACCESS_FS_MAKE_CHAR"
  "ACCESS_FS_MAKE_BLOCK AND read_only_rights abi \<noteq> ACCESS_FS_MAKE_BLOCK"
  by (cases abi rule: abi_cases; simp add: read_write_rights_def read_only_rights_def
      handled_fs_access_def access_defs)+

section \<open>The rules of a plan\<close>

lemma set_dedup_by:
  assumes "\<And>x y. x \<in> set xs \<Longrightarrow> y \<in> set xs \<Longrightarrow> f x = f y \<Longrightarrow> x = y"
  shows "set (dedup_by f xs) = set xs"
  using assms
proof (induction f xs rule: dedup_by.induct)
  case (3 f x y zs)
  show ?case
  proof (cases "f x = f y")
    case True
    then have "x = y"
      by (intro 3(3)) simp_all
    moreover have "set (dedup_by f (x # zs)) = set (x # zs)"
      by (rule 3(1) [OF True]) (rule 3(3); auto)
    ultimately show ?thesis
      by simp
  next
    case False
    have "set (dedup_by f (y # zs)) = set (y # zs)"
      by (rule 3(2) [OF False]) (rule 3(3); auto)
    with False show ?thesis
      by simp
  qed
qed simp_all

lemma set_dedup_sort:
  assumes "\<And>x y. x \<in> set xs \<Longrightarrow> y \<in> set xs \<Longrightarrow> f x = f y \<Longrightarrow> x = y"
  shows "set (dedup_by f (sort_key f xs)) = set xs"
  by (subst set_dedup_by) (use assms in simp_all)

lemma inside_path_segments:
  assumes "is_absolute newroot"
  shows "path_segments (inside_path newroot (inside newroot t)) = path_segments t"
    and "is_absolute (inside_path newroot (inside newroot t))"
proof -
  have abs: "is_absolute (inside newroot t)"
    unfolding inside_def by (rule is_absolute_join [OF assms trim_start_slashes_relative])
  have "path_under newroot (inside newroot t)"
    by (simp add: path_under_def components_inside [OF assms]) (simp add: staged_def)
  then obtain r where r: "path_strip_prefix newroot (inside newroot t) = Some r"
    by (simp add: path_strip_prefix_def)
  note strip = path_strip_prefix_segments [OF assms abs r]
  have "path_segments (inside newroot t) = path_segments newroot @ path_segments t"
    unfolding inside_def by (simp add: path_segments_join [OF trim_start_slashes_relative])
  then have seg: "path_segments r = path_segments t"
    using strip(1) by simp
  have "inside_path newroot (inside newroot t) = path_join ''/'' r"
    by (simp add: inside_path_def r)
  moreover have "is_absolute ''/''"
    by (simp add: is_absolute_def)
  ultimately show "path_segments (inside_path newroot (inside newroot t)) = path_segments t"
    and "is_absolute (inside_path newroot (inside newroot t))"
    using seg strip(2) path_segments_join [OF strip(2), of "''/''"]
    by (simp_all add: is_absolute_join)
qed

lemma target_rule_Some:
  assumes "target_rule abi newroot t = Some rule"
  shows "pr_path rule = inside_path newroot t" and "pr_rights rule = read_write_rights abi"
    and "pr_path rule \<noteq> ''/''"
  using assms by (auto simp: target_rule_def Let_def path_eq_def split: if_splits)

lemma set_path_rules:
  "set (path_rules abi p w) =
     insert (root_rule abi w) (set (List.map_filter (target_rule abi (mp_newroot p)) (writable_targets p)))"
proof -
  let ?ts = "List.map_filter (target_rule abi (mp_newroot p)) (writable_targets p)"
  have "\<forall>x \<in> set ?ts.
      pr_rights x = read_write_rights abi \<and> pr_path x \<noteq> ''/''"
    using target_rule_Some by (fastforce simp: set_map_filter)
  then have inj: "x = y" if "x \<in> set (root_rule abi w # ?ts)" "y \<in> set (root_rule abi w # ?ts)"
      "pr_path x = pr_path y" for x y
    using that by (auto simp: root_rule_def)
  have "set (path_rules abi p w) = set (root_rule abi w # ?ts)"
    unfolding path_rules_def by (rule set_dedup_sort) (rule inj)
  then show ?thesis
    by simp
qed

lemma path_rules_rights:
  assumes "rule \<in> set (path_rules abi p w)"
  shows "rule = root_rule abi w \<or> pr_rights rule = read_write_rights abi"
  using assms target_rule_Some(2) by (auto simp: set_path_rules set_map_filter)

lemma writable_rule:
  assumes "is_absolute newroot" and "path_segments t \<noteq> []"
    and "CHR 0x00 \<notin> set (inside_path newroot (inside newroot t))"
  obtains rule where "target_rule abi newroot (inside newroot t) = Some rule"
    and "path_segments (pr_path rule) = path_segments t"
proof -
  have "\<not> path_eq (inside_path newroot (inside newroot t)) ''/''"
    using assms(2) inside_path_segments [OF assms(1), of t]
    by (simp add: path_eq_def components_absolute is_absolute_def)
  then show ?thesis
    using that assms(3) inside_path_segments(1) [OF assms(1), of t]
    by (simp add: target_rule_def Let_def)
qed

section \<open>Agreement with the mount plan\<close>

lemma rules_of_plan:
  assumes "is_absolute newroot"
    and "\<forall>m \<in> set mounts. path_segments (m_target m) \<noteq> []"
    and "\<forall>t \<in> set (writable_targets (plan newroot rootfs l mounts)). CHR 0x00 \<notin> set (inside_path newroot t)"
  shows "(\<exists>rule \<in> set (path_rules abi (plan newroot rootfs l mounts) False).
            rule \<noteq> root_rule abi False \<and> prefix (path_segments (pr_path rule)) segs)
    \<longleftrightarrow> (\<exists>t \<in> set (writable_targets (plan newroot rootfs l mounts)). prefix (components t) (staged newroot segs))"
    (is "?L \<longleftrightarrow> ?R")
proof -
  let ?p = "plan newroot rootfs l mounts"
  have newroot: "mp_newroot ?p = newroot"
    by (simp add: plan_def)
  have targets: "\<exists>g. t = inside newroot g \<and> path_segments g \<noteq> []" if "t \<in> set (writable_targets ?p)" for t
    using that assms(2)
    by (auto simp: writable_targets_plan scratch_targets_def WORKSPACE_DIR_def path_segments_def)
  have covered: "prefix (components (inside newroot g)) (staged newroot segs) \<longleftrightarrow> prefix (path_segments g) segs" for g
    by (simp add: components_inside [OF assms(1)]) (simp add: staged_def map_component_of_prefix)
  show ?thesis
  proof
    assume ?L
    then obtain rule t where rule: "t \<in> set (writable_targets ?p)" "target_rule abi newroot t = Some rule"
      "prefix (path_segments (pr_path rule)) segs"
      by (auto simp: set_path_rules set_map_filter newroot)
    then obtain g where "t = inside newroot g"
      using targets by blast
    with rule show ?R
      using covered target_rule_Some(1) inside_path_segments(1) [OF assms(1)] by metis
  next
    assume ?R
    then obtain g where g: "inside newroot g \<in> set (writable_targets ?p)" "path_segments g \<noteq> []"
      "prefix (path_segments g) segs"
      using targets covered by metis
    then obtain rule where rule: "target_rule abi newroot (inside newroot g) = Some rule"
      "path_segments (pr_path rule) = path_segments g"
      using writable_rule [OF assms(1)] assms(3) by metis
    have "pr_path (root_rule abi False) = ''/''"
      by (simp add: root_rule_def)
    then have "rule \<noteq> root_rule abi False"
      using target_rule_Some(3) [OF rule(1)] by metis
    with g rule show ?L
      by (force simp: set_path_rules set_map_filter newroot)
  qed
qed


lemmas path_eval =
  inside_def inside_path_def path_join_def path_strip_prefix_def path_under_def components_def
  path_segments_def component_of_def is_absolute_def trim_start_slashes_def trim_pieces_def
  trivial_piece_def


lemma rights_for_within: "r AND NOT h = 0 \<Longrightarrow> rights_for r d AND NOT h = 0"
  by (simp add: rights_for_def) (metis and.assoc and.commute and_zero_eq)

lemma handled_net_nonzero: "handled_net_access abi = 0 \<longleftrightarrow> abi < 4"
  by (simp add: handled_net_access_def access_defs)

lemma net_within_handled:
  "rule \<in> set (snd (net_handling abi net shared)) \<Longrightarrow> nr_rights rule AND NOT (fst (net_handling abi net shared)) = 0"
  "fst (net_handling abi net shared) AND NOT (handled_net_access abi) = 0"
  by (cases net; auto simp: net_handling_def handled_net_access_def access_defs Let_def split: if_splits)+

lemma handled_fs_bounds:
  "abi < 2 \<Longrightarrow> handled_fs_access abi < 2 ^ 13"
  "abi < 3 \<Longrightarrow> handled_fs_access abi < 2 ^ 14"
  "abi < 5 \<Longrightarrow> handled_fs_access abi < 2 ^ 15"
  by (cases abi rule: abi_cases; simp add: handled_fs_access_def access_defs)+

text \<open>
  The kernel accepts every ruleset: no rule grants a right its ABI does not handle, on a
  directory or narrowed for a file, and no port rule one that is not handled; and nothing
  is handled that the ABI does not know (13, 14 and 15 file rights before versions 2, 3, 5).
\<close>

theorem rules_within_handled:
  assumes "r = landlock_build abi p net w shared"
  shows "(\<forall>rule \<in> set (rs_rules r). rights_for (pr_rights rule) is_dir AND NOT (rs_handled_fs r) = 0)
   \<and> (\<forall>rule \<in> set (rs_net_rules r). nr_rights rule AND NOT (rs_handled_net r) = 0)
   \<and> rs_handled_net r AND NOT (handled_net_access abi) = 0
   \<and> (abi < 2 \<longrightarrow> rs_handled_fs r < 2 ^ 13)
   \<and> (abi < 3 \<longrightarrow> rs_handled_fs r < 2 ^ 14)
   \<and> (abi < 5 \<longrightarrow> rs_handled_fs r < 2 ^ 15)"
proof (cases "abi = 0")
  case True
  then show ?thesis
    by (simp add: assms landlock_build_def)
next
  case False
  have "pr_rights rule AND NOT (handled_fs_access abi) = 0" if "rule \<in> set (path_rules abi p w)" for rule
    using path_rules_rights [OF that] rights_within_handled by metis
  then show ?thesis
    using False net_within_handled handled_fs_bounds rights_for_within
    by (simp add: assms landlock_build_def)
qed

theorem rules_within_handled_witness:
  "rs_handled_fs (landlock_build 1 (plan ''/n'' (RootFlat ''/img'') (for_tests () 100) []) Sealed False True) < 2 ^ 13"
  using rules_within_handled [OF refl, of 1 "plan ''/n'' (RootFlat ''/img'') (for_tests () 100) []"] by simp

section \<open>The network policy\<close>

lemma egress_ports_None: "egress_ports allow = None \<longleftrightarrow> (\<exists>r \<in> set allow. ar_port r = None)"
  by (induction allow) (auto split: option.splits)

lemma egress_ports_Some: "egress_ports allow = Some ports \<Longrightarrow> set ports = {p. \<exists>r \<in> set allow. ar_port r = Some p}"
  by (induction allow arbitrary: ports) (auto split: option.splits)

lemma net_bits:
  "ACCESS_NET_CONNECT_TCP AND ACCESS_NET_BIND_TCP = 0"
  "ACCESS_NET_CONNECT_TCP \<noteq> 0" "ACCESS_NET_BIND_TCP \<noteq> 0"
  "ACCESS_NET_BIND_TCP AND ACCESS_NET_CONNECT_TCP = 0"
  "ACCESS_NET_CONNECT_TCP AND (ACCESS_NET_BIND_TCP OR ACCESS_NET_CONNECT_TCP) \<noteq> 0"
  "ACCESS_NET_BIND_TCP AND (ACCESS_NET_BIND_TCP OR ACCESS_NET_CONNECT_TCP) \<noteq> 0"
  by (simp_all add: access_defs)

text \<open>
  The second line of defence on the network, exactly: from ABI 4 on, under \<open>egress\<close> a TCP
  connection to a port is let through if and only if it is the resolver's port 53 or some
  rule of the allowlist gives that port or none at all (so Landlock never refuses what the
  filter's rules for the port allow, and refuses every port no rule names); a listener is
  refused exactly in a shared namespace; a sealed shared namespace can neither listen nor
  connect; before ABI 4, and for the host's network, nothing is restricted.
\<close>

theorem landlock_network:
  "landlock_tcp (landlock_build abi p (net_policy_of Egress allow) w shared) port ACCESS_NET_CONNECT_TCP
     = (abi < 4 \<or> port = 53 \<or> (\<exists>r \<in> set allow. ar_port r = None \<or> ar_port r = Some port))
   \<and> landlock_tcp (landlock_build abi p (net_policy_of Egress allow) w shared) port ACCESS_NET_BIND_TCP
     = (\<not> (4 \<le> abi \<and> shared))
   \<and> landlock_tcp (landlock_build abi p (net_policy_of Full allow) w shared) port ACCESS_NET_CONNECT_TCP
   \<and> landlock_tcp (landlock_build abi p (net_policy_of NetNone allow) w shared) port ACCESS_NET_CONNECT_TCP
     = (\<not> (4 \<le> abi \<and> shared))
   \<and> landlock_tcp (landlock_build abi p (net_policy_of Host allow) w shared) port ACCESS_NET_BIND_TCP"
proof -
  note unfold = landlock_tcp_def landlock_build_def net_policy_of_def net_handling_def
    handled_net_nonzero Let_def
  have "landlock_tcp (landlock_build abi p (net_policy_of Egress allow) w shared) port ACCESS_NET_CONNECT_TCP
       = (abi < 4 \<or> port = 53 \<or> (\<exists>r \<in> set allow. ar_port r = None \<or> ar_port r = Some port))
     \<and> landlock_tcp (landlock_build abi p (net_policy_of Egress allow) w shared) port ACCESS_NET_BIND_TCP
       = (\<not> (4 \<le> abi \<and> shared))"
  proof (cases "egress_ports allow")
    case None
    then show ?thesis
      using egress_ports_None [of allow] net_bits by (auto simp: unfold)
  next
    case (Some ports)
    have set: "set (remdups_adj (sort (ports @ [53]))) = insert 53 (set ports)"
      by simp
    then have "remdups_adj (sort (ports @ [53])) \<noteq> []"
      by (metis insert_not_empty list.set(1))
    moreover note set
    moreover have "\<not> (\<exists>r \<in> set allow. ar_port r = None)"
      using Some egress_ports_None by (metis option.distinct(1))
    ultimately show ?thesis
      using Some egress_ports_Some [OF Some] net_bits by (auto simp: unfold)
  qed
  then show ?thesis
    using net_bits by (auto simp: unfold)
qed

section \<open>Applying a ruleset\<close>

text \<open>
  The system calls \<open>apply\<close> makes, on an abstract kernel state: creating the ruleset (with the
  handled rights and the size of the attribute), \<open>open\<close> with \<open>O_PATH\<close>, \<open>fstat\<close> (whether it
  failed or found a directory), adding rules, restricting the process, \<open>close\<close> and \<open>errno\<close>.
\<close>

record 's ll_kernel =
  k_create :: "u64 \<Rightarrow> u64 \<Rightarrow> nat \<Rightarrow> 's \<Rightarrow> int \<times> 's"
  k_open :: "string \<Rightarrow> 's \<Rightarrow> int \<times> 's"
  k_is_dir :: "int \<Rightarrow> 's \<Rightarrow> bool \<times> 's"
  k_add_path :: "int \<Rightarrow> u64 \<Rightarrow> int \<Rightarrow> 's \<Rightarrow> int \<times> 's"
  k_add_port :: "int \<Rightarrow> u64 \<Rightarrow> nat \<Rightarrow> 's \<Rightarrow> int \<times> 's"
  k_restrict :: "int \<Rightarrow> 's \<Rightarrow> int \<times> 's"
  k_close :: "int \<Rightarrow> 's \<Rightarrow> 's"
  k_errno :: "'s \<Rightarrow> int"

fun add_path_rules :: "'s ll_kernel \<Rightarrow> int \<Rightarrow> path_rule list \<Rightarrow> 's \<Rightarrow> (int + unit) \<times> 's" where
  "add_path_rules k rfd [] s = (Inr (), s)"
| "add_path_rules k rfd (rule # rest) s =
     (let (fd, s1) = k_open k (pr_path rule) s in
      if fd < 0 then add_path_rules k rfd rest s1
      else
        let (is_dir, s2) = k_is_dir k fd s1;
            (rc, s3) = k_add_path k rfd (rights_for (pr_rights rule) is_dir) fd s2;
            s4 = k_close k fd s3
        in if rc \<noteq> 0 then (Inl (k_errno k s4), k_close k rfd s4)
           else add_path_rules k rfd rest s4)"

fun add_net_rules :: "'s ll_kernel \<Rightarrow> int \<Rightarrow> net_rule list \<Rightarrow> 's \<Rightarrow> (int + unit) \<times> 's" where
  "add_net_rules k rfd [] s = (Inr (), s)"
| "add_net_rules k rfd (rule # rest) s =
     (let (rc, s1) = k_add_port k rfd (nr_rights rule) (nr_port rule) s in
      if rc \<noteq> 0 then (Inl (k_errno k s1), k_close k rfd s1)
      else add_net_rules k rfd rest s1)"

definition landlock_apply :: "'s ll_kernel \<Rightarrow> ll_ruleset \<Rightarrow> 's \<Rightarrow> (int + unit) \<times> 's" where
  "landlock_apply k r s =
     (if ruleset_is_empty r then (Inr (), s)
      else
        let (rfd, s1) = k_create k (rs_handled_fs r) (rs_handled_net r) (if rs_abi r \<ge> 4 then 16 else 8) s in
        if rfd < 0 then (Inl (k_errno k s1), s1)
        else (case add_path_rules k rfd (rs_rules r) s1 of
            (Inl e, s2) \<Rightarrow> (Inl e, s2)
          | (Inr _, s2) \<Rightarrow> (case add_net_rules k rfd (rs_net_rules r) s2 of
              (Inl e, s3) \<Rightarrow> (Inl e, s3)
            | (Inr _, s3) \<Rightarrow>
                let (rc, s4) = k_restrict k rfd s3; s5 = k_close k rfd s4
                in if rc \<noteq> 0 then (Inl (k_errno k s5), s5) else (Inr (), s5))))"

text \<open>
  What is relied on of the kernel: \<open>fds\<close> is the table of open descriptors, \<open>open\<close> and the
  creation of a ruleset give a fresh one or fail, \<open>close\<close> gives it back, nothing else
  touches the table; a successful restriction enforces, and stays.
\<close>

definition ll_contract :: "'s ll_kernel \<Rightarrow> ('s \<Rightarrow> int set) \<Rightarrow> ('s \<Rightarrow> bool) \<Rightarrow> bool" where
  "ll_contract k fds enforced \<longleftrightarrow>
     (\<forall>a b n s fd s'. k_create k a b n s = (fd, s') \<longrightarrow>
        (if fd < 0 then fds s' = fds s else fd \<notin> fds s \<and> fds s' = insert fd (fds s)))
     \<and> (\<forall>p s fd s'. k_open k p s = (fd, s') \<longrightarrow>
        (if fd < 0 then fds s' = fds s else fd \<notin> fds s \<and> fds s' = insert fd (fds s)))
     \<and> (\<forall>fd s d s'. k_is_dir k fd s = (d, s') \<longrightarrow> fds s' = fds s)
     \<and> (\<forall>r a fd s rc s'. k_add_path k r a fd s = (rc, s') \<longrightarrow> fds s' = fds s)
     \<and> (\<forall>r a p s rc s'. k_add_port k r a p s = (rc, s') \<longrightarrow> fds s' = fds s)
     \<and> (\<forall>r s rc s'. k_restrict k r s = (rc, s') \<longrightarrow> fds s' = fds s \<and> (rc = 0 \<longrightarrow> enforced s'))
     \<and> (\<forall>fd s. fds (k_close k fd s) = fds s - {fd} \<and> (enforced s \<longrightarrow> enforced (k_close k fd s)))"

lemma ll_contract_close:
  assumes "ll_contract k fds enforced"
  shows "fds (k_close k fd s) = fds s - {fd}" and "enforced s \<Longrightarrow> enforced (k_close k fd s)"
  using assms by (simp_all add: ll_contract_def)

lemma ll_contract_fds:
  assumes "ll_contract k fds enforced"
  shows "k_is_dir k fd s = (d, s') \<Longrightarrow> fds s' = fds s"
    and "k_add_path k rfd a fd s = (rc, s') \<Longrightarrow> fds s' = fds s"
    and "k_add_port k rfd a p s = (rc, s') \<Longrightarrow> fds s' = fds s"
    and "k_restrict k rfd s = (rc, s') \<Longrightarrow> fds s' = fds s"
    and "k_restrict k rfd s = (0, s') \<Longrightarrow> enforced s'"
  using assms unfolding ll_contract_def by metis+

lemma ll_contract_fresh:
  assumes "ll_contract k fds enforced"
  shows "k_create k a b n s = (fd, s') \<Longrightarrow> fd < 0 \<Longrightarrow> fds s' = fds s"
    and "k_create k a b n s = (fd, s') \<Longrightarrow> \<not> fd < 0 \<Longrightarrow> fd \<notin> fds s \<and> fds s' = insert fd (fds s)"
    and "k_open k p s = (fd, s') \<Longrightarrow> fd < 0 \<Longrightarrow> fds s' = fds s"
    and "k_open k p s = (fd, s') \<Longrightarrow> \<not> fd < 0 \<Longrightarrow> fd \<notin> fds s \<and> fds s' = insert fd (fds s)"
  using assms unfolding ll_contract_def by metis+

lemma add_path_rules_fds:
  assumes "ll_contract k fds enforced" and "add_path_rules k rfd rules s = (res, s')" and "rfd \<in> fds s"
  shows "fds s' = (case res of Inl e \<Rightarrow> fds s - {rfd} | Inr _ \<Rightarrow> fds s)"
  using assms(2,3)
proof (induction rules arbitrary: s)
  case (Cons rule rest)
  obtain fd s1 where opened: "k_open k (pr_path rule) s = (fd, s1)"
    by fastforce
  show ?case
  proof (cases "fd < 0")
    case True
    then have "fds s1 = fds s"
      using ll_contract_fresh(3) [OF assms(1) opened] by simp
    then show ?thesis
      using Cons True opened by (simp split: sum.splits)
  next
    case False
    then have fd: "fd \<notin> fds s" "fds s1 = insert fd (fds s)"
      using ll_contract_fresh(4) [OF assms(1) opened] by simp_all
    obtain d s2 where dir: "k_is_dir k fd s1 = (d, s2)"
      by fastforce
    obtain rc s3 where add: "k_add_path k rfd (rights_for (pr_rights rule) d) fd s2 = (rc, s3)"
      by fastforce
    have "fds s3 = insert fd (fds s)"
      using ll_contract_fds(1) [OF assms(1) dir] ll_contract_fds(2) [OF assms(1) add] fd(2) by simp
    then have s4: "fds (k_close k fd s3) = fds s"
      using ll_contract_close(1) [OF assms(1)] fd(1) by simp
    show ?thesis
    proof (cases "rc = 0")
      case True
      then show ?thesis
        using Cons False opened dir add s4 by (simp split: sum.splits)
    next
      case rc: False
      then show ?thesis
        using Cons.prems False opened dir add s4 ll_contract_close(1) [OF assms(1)] by (auto simp: Let_def)
    qed
  qed
qed auto

lemma add_net_rules_fds:
  assumes "ll_contract k fds enforced" and "add_net_rules k rfd rules s = (res, s')"
  shows "fds s' = (case res of Inl e \<Rightarrow> fds s - {rfd} | Inr _ \<Rightarrow> fds s)"
  using assms(2)
proof (induction rules arbitrary: s)
  case (Cons rule rest)
  obtain rc s1 where add: "k_add_port k rfd (nr_rights rule) (nr_port rule) s = (rc, s1)"
    by fastforce
  then have "fds s1 = fds s"
    by (rule ll_contract_fds(3) [OF assms(1)])
  then show ?case
    using Cons add ll_contract_close(1) [OF assms(1)] by (auto split: if_splits sum.splits)
qed auto

text \<open>
  Applying a ruleset leaks no descriptor and never pretends: on every path, each error
  return included, exactly the descriptors open before are open afterwards; and success
  means the kernel enforces the ruleset, unless there was none to apply.
\<close>

theorem landlock_apply_clean:
  assumes "ll_contract k fds enforced" and "landlock_apply k r s = (res, s')"
  shows "fds s' = fds s \<and> (res = Inr () \<longrightarrow> ruleset_is_empty r \<or> enforced s')"
proof (cases "ruleset_is_empty r")
  case True
  then show ?thesis
    using assms(2) by (simp add: landlock_apply_def)
next
  case False
  obtain rfd s1 where create:
    "k_create k (rs_handled_fs r) (rs_handled_net r) (if rs_abi r \<ge> 4 then 16 else 8) s = (rfd, s1)"
    by fastforce
  show ?thesis
  proof (cases "rfd < 0")
    case True
    then show ?thesis
      using False create assms(2) ll_contract_fresh(1) [OF assms(1) create]
      by (auto simp: landlock_apply_def)
  next
    case rfd: False
    then have fds1: "rfd \<notin> fds s" "fds s1 = insert rfd (fds s)"
      using ll_contract_fresh(2) [OF assms(1) create] by simp_all
    obtain res2 s2 where paths: "add_path_rules k rfd (rs_rules r) s1 = (res2, s2)"
      by fastforce
    note p = add_path_rules_fds [OF assms(1) paths]
    obtain res3 s3 where ports: "add_net_rules k rfd (rs_net_rules r) s2 = (res3, s3)"
      by fastforce
    note n = add_net_rules_fds [OF assms(1) ports]
    obtain rc s4 where restrict: "k_restrict k rfd s3 = (rc, s4)"
      by fastforce
    note k = ll_contract_fds(4) [OF assms(1) restrict] ll_contract_close(1) [OF assms(1), of rfd s4]
      ll_contract_close(2) [OF assms(1), of s4 rfd]
    have "rc = 0 \<Longrightarrow> enforced s4"
      using ll_contract_fds(5) [OF assms(1)] restrict by simp
    then show ?thesis
      using k assms(2) False create rfd fds1 p n paths ports restrict
      by (cases res2; cases res3) (auto simp: landlock_apply_def Let_def split: if_splits)
  qed
qed

text \<open>A kernel on which the contract holds: a list of open descriptors and a flag.\<close>

definition fresh_fd :: "int list \<Rightarrow> int" where
  "fresh_fd xs = 1 + fold max xs 0"

definition demo_kernel :: "(int list \<times> bool) ll_kernel" where
  "demo_kernel =
     \<lparr>k_create = (\<lambda>a b n s. (fresh_fd (fst s), (fresh_fd (fst s) # fst s, snd s))),
      k_open = (\<lambda>p s. (fresh_fd (fst s), (fresh_fd (fst s) # fst s, snd s))),
      k_is_dir = (\<lambda>fd s. (True, s)),
      k_add_path = (\<lambda>r a fd s. (0, s)),
      k_add_port = (\<lambda>r a p s. (0, s)),
      k_restrict = (\<lambda>r s. (0, (fst s, True))),
      k_close = (\<lambda>fd s. (filter (\<lambda>x. x \<noteq> fd) (fst s), snd s)),
      k_errno = (\<lambda>s. 0)\<rparr>"

lemma fold_max_bounds: "m \<le> fold max xs m \<and> (\<forall>x \<in> set xs. x \<le> fold max xs (m::int))"
proof (induction xs arbitrary: m)
  case (Cons a xs)
  show ?case
    using Cons.IH [of "max a m"] by simp
qed simp

lemma fresh_fd_fresh: "fresh_fd xs \<notin> set xs" "\<not> fresh_fd xs < 0"
  using fold_max_bounds [of 0 xs] by (auto simp: fresh_fd_def)

lemma demo_kernel_contract: "ll_contract demo_kernel (\<lambda>s. set (fst s)) snd"
  by (auto simp: ll_contract_def demo_kernel_def fresh_fd_fresh)

theorem landlock_apply_clean_witness:
  "set (fst (snd (landlock_apply demo_kernel
      (landlock_build 1 (plan ''/n'' (RootFlat ''/img'') (for_tests () 100) []) Sealed False True) ([3], False))))
   = {3}"
  using landlock_apply_clean [OF demo_kernel_contract prod.collapse [symmetric],
      of "landlock_build 1 (plan ''/n'' (RootFlat ''/img'') (for_tests () 100) []) Sealed False True" "([3], False)"]
  by simp

end
