(* ===== verification/Zygo_Suggest.thy ===== *)
theory Zygo_Suggest
  imports Rust_Strings
begin

text \<open>
  Diagnostics of a spec (\<open>crates/zygo-core/src/spec/mod.rs\<close>): the edit distance behind "did you
  mean", and the search for a key's position in the text. A string is its bytes; the code
  counts the distance in characters, which is the same for ASCII names.
\<close>

section \<open>Edit distance\<close>

text \<open>
  One row of the table from the row before: \<open>prev ! j\<close>, \<open>prev ! (j + 1)\<close> and the entry to the
  left give the next entry. The first entry of the row is the number of the row.
\<close>

fun distance_row :: "char \<Rightarrow> string \<Rightarrow> nat list \<Rightarrow> nat \<Rightarrow> nat list" where
  "distance_row ca (cb # b) (p # q # prev) left =
     (let e = min (min (q + 1) (left + 1)) (p + of_bool (ca \<noteq> cb))
      in e # distance_row ca b (q # prev) e)"
| "distance_row ca _ _ left = []"

fun distance_rows :: "string \<Rightarrow> string \<Rightarrow> nat \<Rightarrow> nat list \<Rightarrow> nat list" where
  "distance_rows [] b i prev = prev"
| "distance_rows (ca # a) b i prev = distance_rows a b (i + 1) ((i + 1) # distance_row ca b prev (i + 1))"

definition edit_distance :: "string \<Rightarrow> string \<Rightarrow> nat" where
  "edit_distance a b = distance_rows a b 0 [0..<length b + 1] ! length b"

text \<open>The nearest candidate within the bound; of equally near ones the first.\<close>

definition closest :: "string \<Rightarrow> string list \<Rightarrow> string option" where
  "closest input candidates =
     (let bound = max (length input div 3) 1
      in map_option fst
        (min_by_key snd (filter (\<lambda>(_, d). d \<le> bound) (map (\<lambda>c. (c, edit_distance input c)) candidates))))"

section \<open>The reference\<close>

text \<open>
  Scripts of single-character edits: \<open>edits a b n\<close> says that \<open>n\<close> deletions, insertions and
  substitutions turn \<open>a\<close> into \<open>b\<close>, reading both from their ends.
\<close>

inductive edits :: "string \<Rightarrow> string \<Rightarrow> nat \<Rightarrow> bool" where
  nothing: "edits [] [] 0"
| keep: "edits a b n \<Longrightarrow> edits (a @ [c]) (b @ [c]) n"
| delete: "edits a b n \<Longrightarrow> edits (a @ [c]) b (n + 1)"
| insert: "edits a b n \<Longrightarrow> edits a (b @ [c]) (n + 1)"
| substitute: "edits a b n \<Longrightarrow> edits (a @ [c]) (b @ [d]) (n + 1)"

text \<open>The recurrence over the last characters, on reversed strings.\<close>

fun lev :: "string \<Rightarrow> string \<Rightarrow> nat" where
  "lev [] b = length b"
| "lev a [] = length a"
| "lev (c # a) (d # b) = min (min (lev a (d # b) + 1) (lev (c # a) b + 1)) (lev a b + of_bool (c \<noteq> d))"

lemma lev_Nil2 [simp]: "lev a [] = length a"
  by (cases a) auto

lemma lev_symmetric: "lev a b = lev b a"
  by (induction a b rule: lev.induct) auto

lemma lev_Cons_le: "lev a b \<le> lev (c # a) b + 1"
proof (induction b)
  case (Cons d b)
  show ?case
  proof (cases "lev (c # a) (d # b) = lev a b + of_bool (c \<noteq> d)")
    case True
    have "lev a (d # b) \<le> lev a b + 1"
      by (cases a) auto
    then show ?thesis
      using True by simp
  next
    case False
    have "lev a (d # b) \<le> lev a b + 1"
      by (cases a) auto
    then show ?thesis
      using Cons False by auto
  qed
qed simp

lemma edits_lev: "edits a b n \<Longrightarrow> lev (rev a) (rev b) \<le> n"
proof (induction rule: edits.induct)
  case (keep a b n c)
  then show ?case by auto
next
  case (delete a b n c)
  then show ?case
    by (cases "rev b") auto
next
  case (insert a b n c)
  then show ?case
    by (cases "rev a") auto
next
  case (substitute a b n c d)
  then show ?case by auto
qed simp

lemma edits_Nil1: "edits [] b (length b)"
  by (induction b rule: rev_induct) (auto intro: edits.nothing edits.insert [simplified])

lemma edits_Nil2: "edits a [] (length a)"
  by (induction a rule: rev_induct) (auto intro: edits.nothing edits.delete [simplified])

lemma lev_edits: "edits (rev a) (rev b) (lev a b)"
proof (induction a b rule: lev.induct)
  case (1 b)
  then show ?case
    using edits_Nil1 [of "rev b"] by simp
next
  case (2 c a)
  then show ?case
    using edits_Nil2 [of "rev (c # a)"] by simp
next
  case (3 c a d b)
  have "lev (c # a) (d # b) = lev a (d # b) + 1 \<or> lev (c # a) (d # b) = lev (c # a) b + 1
      \<or> (c = d \<and> lev (c # a) (d # b) = lev a b) \<or> lev (c # a) (d # b) = lev a b + 1"
    by (auto simp: min_def)
  then show ?case
    using 3 edits.intros(2-5) by (metis Suc_eq_plus1 rev.simps(2))
qed

section \<open>The table is the recurrence\<close>

text \<open>
  A row of the table: the distances of the (reversed) \<open>a\<close> to every prefix of \<open>b\<close>, where \<open>pre\<close>
  is what was read of \<open>b\<close>, reversed.
\<close>

fun lev_row :: "string \<Rightarrow> string \<Rightarrow> string \<Rightarrow> nat list" where
  "lev_row a pre [] = [lev a pre]"
| "lev_row a pre (c # b) = lev a pre # lev_row a (c # pre) b"

lemma lev_row_hd: "\<exists>r. lev_row a pre b = lev a pre # r"
  by (cases b) auto

lemma distance_row_lev: "distance_row ca b (lev_row a pre b) (lev (ca # a) pre) = tl (lev_row (ca # a) pre b)"
proof (induction b arbitrary: pre)
  case (Cons cb b)
  obtain r where r: "lev_row a (cb # pre) b = lev a (cb # pre) # r"
    using lev_row_hd by blast
  obtain r' where r': "lev_row (ca # a) (cb # pre) b = lev (ca # a) (cb # pre) # r'"
    using lev_row_hd by blast
  show ?case
    using Cons.IH [of "cb # pre"] by (simp add: r r' Let_def)
qed simp

lemma distance_rows_lev:
  "length row = i \<Longrightarrow> distance_rows a b i (lev_row row [] b) = lev_row (rev a @ row) [] b"
proof (induction a arbitrary: i "row")
  case (Cons ca a)
  obtain r where r: "lev_row (ca # row) [] b = lev (ca # row) [] # r"
    using lev_row_hd by blast
  have "(i + 1) # distance_row ca b (lev_row row [] b) (i + 1) = lev_row (ca # row) [] b"
    using distance_row_lev [of ca b "row" "[]"] Cons.prems by (simp add: r)
  moreover have "distance_rows a b (i + 1) (lev_row (ca # row) [] b) = lev_row (rev a @ ca # row) [] b"
    by (rule Cons.IH) (simp add: Cons.prems)
  ultimately show ?case
    by simp
qed simp

lemma lev_row_start: "lev_row [] pre b = [length pre..<length pre + length b + 1]"
  by (induction b arbitrary: pre) (simp_all add: upt_rec)

lemma lev_row_last: "lev_row a pre b ! length b = lev a (rev b @ pre)"
  by (induction b arbitrary: pre) simp_all

lemma edit_distance_lev: "edit_distance a b = lev (rev a) (rev b)"
  using distance_rows_lev [of "[]" 0 a b] lev_row_start [of "[]" b]
  by (simp add: edit_distance_def lev_row_last)

text \<open>
  The table computes the edit distance: its last entry is the length of a shortest
  script of deletions, insertions and substitutions that turns one name into the other.
\<close>

theorem edit_distance_shortest:
  "edits a b (edit_distance a b) \<and> (LEAST n. edits a b n) = edit_distance a b"
proof
  show e: "edits a b (edit_distance a b)"
    using lev_edits [of "rev a" "rev b"] by (simp add: edit_distance_lev)
  show "(LEAST n. edits a b n) = edit_distance a b"
    using e edits_lev by (intro Least_equality) (auto simp: edit_distance_lev)
qed

section \<open>Suggestions\<close>

text \<open>
  A suggestion is the best there is: a name is suggested exactly when some known name
  is within a third of the length of the input (at least one edit), and then it is a known
  name as near as any.
\<close>

lemma closest_best:
  "closest input candidates = None \<longleftrightarrow>
     (\<forall>c \<in> set candidates. max (length input div 3) 1 < edit_distance input c)"
  "closest input candidates = Some s \<Longrightarrow> s \<in> set candidates
     \<and> edit_distance input s \<le> max (length input div 3) 1
     \<and> (\<forall>c \<in> set candidates. edit_distance input s \<le> edit_distance input c)"
proof -
  show "closest input candidates = None \<longleftrightarrow>
     (\<forall>c \<in> set candidates. max (length input div 3) 1 < edit_distance input c)"
    by (auto simp: closest_def Let_def filter_empty_conv not_le)
  assume "closest input candidates = Some s"
  then obtain d where
    "min_by_key snd (filter (\<lambda>(_, d). d \<le> max (length input div 3) 1) (map (\<lambda>c. (c, edit_distance input c)) candidates))
       = Some (s, d)"
    by (auto simp: closest_def Let_def)
  from min_by_key_Some [OF this] show "s \<in> set candidates
     \<and> edit_distance input s \<le> max (length input div 3) 1
     \<and> (\<forall>c \<in> set candidates. edit_distance input s \<le> edit_distance input c)"
    by force
qed

end
