(* ===== verification/Rust_Io.thy ===== *)
theory Rust_Io
  imports Zygo_Prelude
begin

text \<open>
  Operations on a state that can fail, as \<open>std::io\<close> has them: the kinds of error the program
  tells apart, sequencing with early return (\<open>?\<close>), errors that are ignored, and loops.
\<close>

datatype io_error = NotFound | AlreadyExists | PermissionDenied | BusyError | OtherError int

type_synonym ('s, 'e, 'a) step = "'s \<Rightarrow> ('e + 'a) \<times> 's"

definition and_do :: "('s, 'e, 'a) step \<Rightarrow> ('a \<Rightarrow> ('s, 'e, 'b) step) \<Rightarrow> ('s, 'e, 'b) step" where
  "and_do m f s = (case m s of (Inl e, s') \<Rightarrow> (Inl e, s') | (Inr a, s') \<Rightarrow> f a s')"

definition return_ok :: "'a \<Rightarrow> ('s, 'e, 'a) step" where
  "return_ok a s = (Inr a, s)"

text \<open>An operation whose failure is ignored: \<open>let _ = \<dots>\<close>.\<close>

definition ignoring :: "('s, 'd, 'a) step \<Rightarrow> ('s, 'e, unit) step" where
  "ignoring m s = (Inr (), snd (m s))"

fun each :: "('a \<Rightarrow> ('s, 'e, unit) step) \<Rightarrow> 'a list \<Rightarrow> ('s, 'e, unit) step" where
  "each f [] s = (Inr (), s)"
| "each f (x # xs) s = and_do (f x) (\<lambda>_. each f xs) s"

lemma and_do_Inr [result_simps]:
  "and_do m f s = (Inr b, s'') \<longleftrightarrow> (\<exists>a s'. m s = (Inr a, s') \<and> f a s' = (Inr b, s''))"
  by (auto simp: and_do_def split: prod.splits sum.splits)

lemma and_do_Inl:
  "and_do m f s = (Inl e, s'') \<longleftrightarrow>
     m s = (Inl e, s'') \<or> (\<exists>a s'. m s = (Inr a, s') \<and> f a s' = (Inl e, s''))"
  by (auto simp: and_do_def split: prod.splits sum.splits)

lemma return_ok_Inr [result_simps]: "return_ok a s = (Inr b, s') \<longleftrightarrow> b = a \<and> s' = s"
  by (auto simp: return_ok_def)

text \<open>A step only changes the files named in \<open>P\<close>.\<close>

definition touches :: "('s \<Rightarrow> 'q \<Rightarrow> 'v) \<Rightarrow> ('q \<Rightarrow> bool) \<Rightarrow> 's \<Rightarrow> 's \<Rightarrow> bool" where
  "touches held P s s' \<longleftrightarrow> (\<forall>p. \<not> P p \<longrightarrow> held s' p = held s p)"

lemma touches_refl [simp]: "touches held P s s"
  by (simp add: touches_def)

lemma touches_trans: "touches held P s s' \<Longrightarrow> touches held P s' s'' \<Longrightarrow> touches held P s s''"
  by (simp add: touches_def)

lemma touches_mono: "touches held P s s' \<Longrightarrow> (\<And>p. P p \<Longrightarrow> Q p) \<Longrightarrow> touches held Q s s'"
  by (auto simp: touches_def)

end
