(* ===== verification/Zygo_Cgroup.thy ===== *)
theory Zygo_Cgroup
  imports Zygo_Limits Rust_Text Rust_Paths Rust_Io
begin

text \<open>
  The cgroup hierarchy (\<open>crates/zygo-core/src/cgroup.rs\<close>): the names and paths of slices,
  tenants, functions, generations and requests, creating them with their limits, moving
  processes aside, killing, removing and cleaning up, and choosing where the slice goes.

  The file system is a parameter: a record of the operations the code performs on an
  abstract state. A recursion over directories carries fuel; running out of it is \<open>None\<close>.
\<close>

section \<open>The file system\<close>

record 's cgroupfs =
  cf_read :: "string \<Rightarrow> 's \<Rightarrow> string option"
  cf_exists :: "string \<Rightarrow> 's \<Rightarrow> bool"
  cf_subdirs :: "string \<Rightarrow> 's \<Rightarrow> string list option"
  cf_access :: "string \<Rightarrow> 's \<Rightarrow> bool"
  cf_link :: "string \<Rightarrow> 's \<Rightarrow> string option"
  cf_write :: "string \<Rightarrow> string \<Rightarrow> 's \<Rightarrow> (io_error + unit) \<times> 's"
  cf_create_dir :: "string \<Rightarrow> 's \<Rightarrow> (io_error + unit) \<times> 's"
  cf_create_dir_all :: "string \<Rightarrow> 's \<Rightarrow> (io_error + unit) \<times> 's"
  cf_remove_dir :: "string \<Rightarrow> 's \<Rightarrow> (io_error + unit) \<times> 's"
  cf_signal :: "nat \<Rightarrow> 's \<Rightarrow> int \<times> 's"

datatype cgroup_error =
    NotDelegated string "string list"
  | CannotCreate string
  | IoFailed string io_error

type_synonym ('s, 'a) cg_step = "('s, cgroup_error, 'a) step"

section \<open>Names and paths\<close>

definition SYSTEM_RESERVE :: nat where "SYSTEM_RESERVE = 512 * 1024 * 1024"

definition safe_char :: "char \<Rightarrow> bool" where
  "safe_char c \<longleftrightarrow> is_ascii_alphanumeric c \<or> c = CHR ''-'' \<or> c = CHR ''_'' \<or> c = CHR ''.''"

definition sanitise :: "string \<Rightarrow> string" where
  "sanitise name =
     (let cleaned = map (\<lambda>c. if safe_char c then c else CHR ''_'') name
      in if list_all (\<lambda>c. c = CHR ''.'') cleaned then replicate (max (length cleaned) 1) (CHR ''_'')
         else if cleaned = [] then ''_'' else cleaned)"

definition system_dir :: "string \<Rightarrow> string" where
  "system_dir root = path_join root ''system''"

definition tenants_dir :: "string \<Rightarrow> string" where
  "tenants_dir root = path_join root ''tenants''"

definition tenant_dir :: "string \<Rightarrow> string \<Rightarrow> string" where
  "tenant_dir root tenant = path_join (tenants_dir root) (sanitise tenant)"

definition function_dir :: "string \<Rightarrow> string \<Rightarrow> string \<Rightarrow> string" where
  "function_dir root tenant name = path_join (tenant_dir root tenant) (sanitise name)"

text \<open>The counters are handed in and out; \<open>token\<close> is the token of the process.\<close>

definition function_name :: "string \<Rightarrow> nat \<Rightarrow> string \<Rightarrow> bool \<Rightarrow> string \<times> nat" where
  "function_name token counter name own_limits =
     (if \<not> own_limits then (name, counter)
      else (name @ ''.'' @ token @ ''-'' @ show_nat counter, counter + 1))"

definition generation_dir :: "string \<Rightarrow> nat \<Rightarrow> string \<Rightarrow> string \<Rightarrow> string \<Rightarrow> string \<times> nat" where
  "generation_dir token counter root tenant name =
     (path_join (function_dir root tenant name) (''g'' @ token @ ''-'' @ show_nat counter), counter + 1)"

definition zygote_dir :: "string \<Rightarrow> string" where
  "zygote_dir generation = path_join generation ''zygote''"

definition request_dir :: "string \<Rightarrow> string \<Rightarrow> string" where
  "request_dir generation request_id = path_join generation (''req-'' @ sanitise request_id)"

section \<open>Files of a cgroup\<close>

definition write_file :: "'s cgroupfs \<Rightarrow> string \<Rightarrow> string \<Rightarrow> ('s, unit) cg_step" where
  "write_file k path value s =
     (case cf_write k path value s of
        (Inl e, s') \<Rightarrow> (Inl (IoFailed path e), s')
      | (Inr _, s') \<Rightarrow> (Inr (), s'))"

definition create_cgroup :: "'s cgroupfs \<Rightarrow> string \<Rightarrow> ('s, unit) cg_step" where
  "create_cgroup k dir s =
     (case cf_create_dir_all k dir s of
        (Inr _, s') \<Rightarrow> (Inr (), s')
      | (Inl AlreadyExists, s') \<Rightarrow> (Inr (), s')
      | (Inl PermissionDenied, s') \<Rightarrow> (Inl (CannotCreate dir), s')
      | (Inl e, s') \<Rightarrow> (Inl (IoFailed dir e), s'))"

definition read_or_default :: "'s cgroupfs \<Rightarrow> string \<Rightarrow> 's \<Rightarrow> string" where
  "read_or_default k path s = (case cf_read k path s of Some t \<Rightarrow> t | None \<Rightarrow> [])"

definition available_controllers :: "'s cgroupfs \<Rightarrow> string \<Rightarrow> 's \<Rightarrow> string list" where
  "available_controllers k dir s =
     (case cf_read k (path_join dir ''cgroup.controllers'') s of
        Some t \<Rightarrow> split_whitespace t | None \<Rightarrow> [])"

definition CONTROLLERS :: "string list" where
  "CONTROLLERS = [''cpu'', ''io'', ''memory'', ''pids'']"

definition REQUIRED_CONTROLLERS :: "string list" where
  "REQUIRED_CONTROLLERS = [''memory'', ''pids'', ''cpu'']"

definition REQUIRED_LIMIT_FILES :: "string list" where
  "REQUIRED_LIMIT_FILES = [''memory.max'', ''pids.max'', ''cpu.max'']"

text \<open>What is available and enabled is read once, before the writes.\<close>

definition enable_controllers :: "'s cgroupfs \<Rightarrow> string \<Rightarrow> string list \<Rightarrow> ('s, unit) cg_step" where
  "enable_controllers k dir controllers s =
     (let have = available_controllers k dir s;
          control = path_join dir ''cgroup.subtree_control'';
          enabled = split_whitespace (read_or_default k control s)
      in each (\<lambda>c. if c \<in> set enabled then return_ok ()
                   else if c \<in> set have then ignoring (cf_write k control (''+'' @ c))
                   else return_ok ()) controllers s)"

definition missing_controllers :: "'s cgroupfs \<Rightarrow> string \<Rightarrow> 's \<Rightarrow> string list" where
  "missing_controllers k dir s =
     (let have = available_controllers k dir s in filter (\<lambda>c. c \<notin> set have) REQUIRED_CONTROLLERS)"

definition missing_limit_files :: "'s cgroupfs \<Rightarrow> string \<Rightarrow> 's \<Rightarrow> string list" where
  "missing_limit_files k dir s =
     filter (\<lambda>f. \<not> cf_exists k (path_join dir f) s) REQUIRED_LIMIT_FILES"

definition apply_writes :: "'s cgroupfs \<Rightarrow> string \<Rightarrow> cgroup_write list \<Rightarrow> ('s, unit) cg_step" where
  "apply_writes k dir = each (\<lambda>w. write_file k (path_join dir (cw_file w)) (cw_value w))"

definition members :: "'s cgroupfs \<Rightarrow> string \<Rightarrow> 's \<Rightarrow> nat list" where
  "members k dir s =
     List.map_filter (\<lambda>l. parse_uint u32_max (trim l)) (lines (read_or_default k (path_join dir ''cgroup.procs'') s))"

definition freeze :: "'s cgroupfs \<Rightarrow> string \<Rightarrow> bool \<Rightarrow> ('s, unit) cg_step" where
  "freeze k dir frozen =
     write_file k (path_join dir ''cgroup.freeze'') (if frozen then ''1'' else ''0'')"

definition attach :: "'s cgroupfs \<Rightarrow> string \<Rightarrow> nat \<Rightarrow> ('s, unit) cg_step" where
  "attach k dir pid = write_file k (path_join dir ''cgroup.procs'') (show_nat pid)"

definition peak_memory :: "'s cgroupfs \<Rightarrow> string \<Rightarrow> 's \<Rightarrow> nat option" where
  "peak_memory k dir s =
     Option.bind (cf_read k (path_join dir ''memory.peak'') s) (\<lambda>t. parse_uint u64_max (trim t))"

text \<open>The last \<open>oom_kill\<close> line decides.\<close>

definition oom_kills :: "'s cgroupfs \<Rightarrow> string \<Rightarrow> 's \<Rightarrow> nat option" where
  "oom_kills k dir s =
     Option.bind (cf_read k (path_join dir ''memory.events'') s) (\<lambda>text.
       fold (\<lambda>line total. case strip_prefix ''oom_kill '' line of
               Some rest \<Rightarrow> parse_uint u64_max (trim rest)
             | None \<Rightarrow> total)
         (lines text) None)"

section \<open>Killing\<close>

fun signal_all :: "'s cgroupfs \<Rightarrow> nat list \<Rightarrow> bool \<Rightarrow> 's \<Rightarrow> bool \<times> 's" where
  "signal_all k [] signalled s = (signalled, s)"
| "signal_all k (pid # pids) signalled s =
     (let (rc, s') = cf_signal k pid s in signal_all k pids (signalled \<or> rc = 0) s')"

definition kill_by_freezing :: "'s cgroupfs \<Rightarrow> string \<Rightarrow> ('s, bool) cg_step" where
  "kill_by_freezing k dir s =
     (if \<not> cf_exists k (path_join dir ''cgroup.procs'') s then (Inr False, s)
      else
        let (froze, s1) = freeze k dir True s;
            (signalled, s2) = signal_all k (members k dir s1) False s1
        in if is_ok froze then and_do (freeze k dir False) (\<lambda>_. return_ok signalled) s2
           else (Inr signalled, s2))"

definition kill_cgroup :: "'s cgroupfs \<Rightarrow> string \<Rightarrow> ('s, bool) cg_step" where
  "kill_cgroup k dir s =
     (let path = path_join dir ''cgroup.kill'' in
      if \<not> cf_exists k path s then kill_by_freezing k dir s
      else and_do (write_file k path ''1'') (\<lambda>_. return_ok True) s)"

section \<open>Removing\<close>

text \<open>
  \<open>remove\<close> on the directory and the loop over its children, and the walk that looks for
  processes. The outer \<open>option\<close> is the fuel.
\<close>

fun each_opt :: "('a \<Rightarrow> 's \<Rightarrow> ((cgroup_error + unit) \<times> 's) option) \<Rightarrow> 'a list \<Rightarrow> 's
    \<Rightarrow> ((cgroup_error + unit) \<times> 's) option" where
  "each_opt f [] s = Some (Inr (), s)"
| "each_opt f (x # xs) s =
     (case f x s of
        None \<Rightarrow> None
      | Some (Inl e, s') \<Rightarrow> Some (Inl e, s')
      | Some (Inr _, s') \<Rightarrow> each_opt f xs s')"

definition rmdir_result :: "string \<Rightarrow> (io_error + unit) \<Rightarrow> cgroup_error + unit" where
  "rmdir_result dir r =
     (case r of
        Inr _ \<Rightarrow> Inr ()
      | Inl NotFound \<Rightarrow> Inr ()
      | Inl BusyError \<Rightarrow> Inr ()
      | Inl e \<Rightarrow> Inl (IoFailed dir e))"

fun remove_cgroup :: "'s cgroupfs \<Rightarrow> nat \<Rightarrow> string \<Rightarrow> 's \<Rightarrow> ((cgroup_error + unit) \<times> 's) option" where
  "remove_cgroup k 0 dir s = None"
| "remove_cgroup k (Suc fuel) dir s =
     (let children = (case cf_subdirs k dir s of Some ds \<Rightarrow> ds | None \<Rightarrow> [])
      in case each_opt (remove_cgroup k fuel) children s of
           None \<Rightarrow> None
         | Some (Inl e, s') \<Rightarrow> Some (Inl e, s')
         | Some (Inr _, s') \<Rightarrow>
             let (r, s'') = cf_remove_dir k dir s' in Some (rmdir_result dir r, s''))"

fun all_opt :: "('a \<Rightarrow> bool option) \<Rightarrow> 'a list \<Rightarrow> bool option" where
  "all_opt f [] = Some True"
| "all_opt f (x # xs) =
     (case f x of None \<Rightarrow> None | Some False \<Rightarrow> Some False | Some True \<Rightarrow> all_opt f xs)"

fun is_empty_subtree :: "'s cgroupfs \<Rightarrow> nat \<Rightarrow> string \<Rightarrow> 's \<Rightarrow> bool option" where
  "is_empty_subtree k 0 dir s = None"
| "is_empty_subtree k (Suc fuel) dir s =
     (if members k dir s \<noteq> [] then Some False
      else case cf_subdirs k dir s of
             None \<Rightarrow> Some True
           | Some ds \<Rightarrow> all_opt (\<lambda>d. is_empty_subtree k fuel d s) ds)"

text \<open>The cleanup after a dead supervisor; the names it removed, in the order it met them.\<close>

fun clean_stale :: "'s cgroupfs \<Rightarrow> nat \<Rightarrow> string list \<Rightarrow> string list \<Rightarrow> 's \<Rightarrow> (string list \<times> 's) option" where
  "clean_stale k fuel [] cleaned s = Some (cleaned, s)"
| "clean_stale k fuel (path # paths) cleaned s =
     (case is_empty_subtree k fuel path s of
        None \<Rightarrow> None
      | Some False \<Rightarrow> clean_stale k fuel paths cleaned s
      | Some True \<Rightarrow>
          (case remove_cgroup k fuel path s of
             None \<Rightarrow> None
           | Some (r, s') \<Rightarrow>
               if is_ok r \<and> \<not> cf_exists k path s'
               then (case file_name path of
                       Some n \<Rightarrow> clean_stale k fuel paths (cleaned @ [n]) s'
                     | None \<Rightarrow> clean_stale k fuel paths cleaned s')
               else clean_stale k fuel paths cleaned s'))"

definition clean_stale_tenants :: "'s cgroupfs \<Rightarrow> nat \<Rightarrow> string \<Rightarrow> 's \<Rightarrow> (string list \<times> 's) option" where
  "clean_stale_tenants k fuel root s =
     (case cf_subdirs k (tenants_dir root) s of
        None \<Rightarrow> Some ([], s)
      | Some ds \<Rightarrow> clean_stale k fuel ds [] s)"

section \<open>Moving processes aside\<close>

definition join_system :: "'s cgroupfs \<Rightarrow> nat \<Rightarrow> string \<Rightarrow> ('s, unit) cg_step" where
  "join_system k pid system = ignoring (cf_write k (path_join system ''cgroup.procs'') (show_nat pid))"

definition vacate :: "'s cgroupfs \<Rightarrow> string \<Rightarrow> string \<Rightarrow> ('s, unit) cg_step" where
  "vacate k src into s =
     (case cf_read k (path_join src ''cgroup.procs'') s of
        None \<Rightarrow> (Inr (), s)
      | Some procs \<Rightarrow>
          if trim procs = [] then (Inr (), s)
          else and_do (create_cgroup k into) (\<lambda>_.
            each (\<lambda>pid. ignoring (cf_write k (path_join into ''cgroup.procs'') pid)) (split_whitespace procs)) s)"

definition exe_link :: "string \<Rightarrow> string" where
  "exe_link pid = ''/proc/'' @ pid @ ''/exe''"

text \<open>The loop of \<open>vacate_ours\<close>, which creates the target before the first move.\<close>

fun move_ours :: "'s cgroupfs \<Rightarrow> string \<Rightarrow> string \<Rightarrow> bool \<Rightarrow> string list \<Rightarrow> ('s, unit) cg_step" where
  "move_ours k ours into moved [] s = (Inr (), s)"
| "move_ours k ours into moved (pid # pids) s =
     (if cf_link k (exe_link pid) s = Some ours then
        and_do (if moved then return_ok () else create_cgroup k into) (\<lambda>_.
        and_do (ignoring (cf_write k (path_join into ''cgroup.procs'') pid)) (\<lambda>_.
        move_ours k ours into True pids)) s
      else move_ours k ours into moved pids s)"

definition vacate_ours :: "'s cgroupfs \<Rightarrow> string \<Rightarrow> string \<Rightarrow> ('s, unit) cg_step" where
  "vacate_ours k src into s =
     (case cf_read k (path_join src ''cgroup.procs'') s of
        None \<Rightarrow> (Inr (), s)
      | Some procs \<Rightarrow>
          (case cf_link k ''/proc/self/exe'' s of
             None \<Rightarrow> (Inr (), s)
           | Some ours \<Rightarrow> move_ours k ours into False (split_whitespace procs) s))"

section \<open>Where the slice goes\<close>

definition CGROUP_MOUNT :: string where "CGROUP_MOUNT = ''/sys/fs/cgroup''"

definition may_write :: "'s cgroupfs \<Rightarrow> string \<Rightarrow> 's \<Rightarrow> bool" where
  "may_write k dir s \<longleftrightarrow> CHR 0x00 \<notin> set dir \<and> cf_access k dir s \<and> cf_access k (path_join dir ''cgroup.procs'') s"

definition holds_foreign_processes :: "'s cgroupfs \<Rightarrow> string \<Rightarrow> 's \<Rightarrow> bool" where
  "holds_foreign_processes k dir s =
     (case cf_read k (path_join dir ''cgroup.procs'') s of
        None \<Rightarrow> False
      | Some procs \<Rightarrow>
          (let ours = cf_link k ''/proc/self/exe'' s
           in list_ex (\<lambda>pid. let exe = cf_link k (exe_link pid) s in exe = None \<or> exe \<noteq> ours)
                (split_whitespace procs)))"

text \<open>The loop of \<open>delegation_root\<close> over the ancestors, with its two breaks.\<close>

fun delegation_walk :: "'s cgroupfs \<Rightarrow> 's \<Rightarrow> string option \<Rightarrow> string list \<Rightarrow> string option" where
  "delegation_walk k s found [] = found"
| "delegation_walk k s found (a # as) =
     (if \<not> path_under CGROUP_MOUNT a \<or> \<not> may_write k a s then found
      else if path_eq a CGROUP_MOUNT then Some a
      else delegation_walk k s (Some a) as)"

definition delegation_root :: "'s cgroupfs \<Rightarrow> string \<Rightarrow> 's \<Rightarrow> string option" where
  "delegation_root k dir s = delegation_walk k s None (path_ancestors dir)"

definition placement_parent :: "'s cgroupfs \<Rightarrow> string \<Rightarrow> 's \<Rightarrow> string" where
  "placement_parent k current s =
     (if \<not> holds_foreign_processes k current s then current
      else case delegation_root k current s of
             Some root \<Rightarrow>
               if \<not> path_eq root current \<and> \<not> holds_foreign_processes k root s then root else current
           | None \<Rightarrow> current)"

text \<open>The path in the \<open>0::\<close> line of \<open>/proc/self/cgroup\<close>.\<close>

definition own_cgroup :: "'s cgroupfs \<Rightarrow> 's \<Rightarrow> string option" where
  "own_cgroup k s =
     Option.bind (cf_read k ''/proc/self/cgroup'' s) (\<lambda>text.
     case List.map_filter (strip_prefix ''0::'') (lines text) of
       [] \<Rightarrow> None
     | rel # _ \<Rightarrow> Some (path_join CGROUP_MOUNT (trim_start_slashes (trim rel))))"

datatype discover_error = NoProcFile | NotUnified

definition discover :: "'s cgroupfs \<Rightarrow> 's \<Rightarrow> discover_error + string" where
  "discover k s =
     (case cf_read k ''/proc/self/cgroup'' s of
        None \<Rightarrow> Inl NoProcFile
      | Some text \<Rightarrow>
          (case List.map_filter (strip_prefix ''0::'') (lines text) of
             [] \<Rightarrow> Inl NotUnified
           | rel # _ \<Rightarrow>
               (let current = path_join CGROUP_MOUNT (trim_start_slashes (trim rel))
                in case find (\<lambda>a. file_name a = Some ''zygo.slice'') (path_ancestors current) of
                     Some existing \<Rightarrow> Inr existing
                   | None \<Rightarrow> Inr (path_join (placement_parent k current s) ''zygo.slice''))))"

text \<open>\<open>probe_delegation\<close>: one child is made and removed again.\<close>

datatype probe_error = Missing "string list" | NoChild io_error

definition probe_delegation ::
  "'s cgroupfs \<Rightarrow> string \<Rightarrow> string \<Rightarrow> 's \<Rightarrow> (probe_error + string list) \<times> 's" where
  "probe_delegation k token dir s =
     (let missing = missing_controllers k dir s in
      if missing \<noteq> [] then (Inl (Missing missing), s)
      else
        let probe = path_join dir (''zygo-doctor-'' @ token);
            s1 = snd (cf_remove_dir k probe s)
        in case cf_create_dir k probe s1 of
             (Inr _, s2) \<Rightarrow>
               let s3 = snd (cf_remove_dir k probe s2) in (Inr (available_controllers k dir s3), s3)
           | (Inl e, s2) \<Rightarrow> (Inl (NoChild e), s2))"

definition usable_from_here :: "'s cgroupfs \<Rightarrow> string \<Rightarrow> string \<Rightarrow> 's \<Rightarrow> bool \<times> 's" where
  "usable_from_here k token root s =
     (if cf_exists k root s then (missing_controllers k root s = [] \<and> may_write k root s, s)
      else case path_parent root of
             None \<Rightarrow> (False, s)
           | Some parent \<Rightarrow>
               if holds_foreign_processes k parent s then (False, s)
               else let (r, s') = probe_delegation k token parent s in (is_ok r, s'))"

section \<open>Creating the hierarchy\<close>

text \<open>
  \<open>host_ram\<close> is the \<open>MemTotal\<close> line of \<open>/proc/meminfo\<close> in kibibytes, or a guess; the product
  is a \<open>u64\<close> and wraps (a release build does not check it).
\<close>

definition host_ram :: "'s cgroupfs \<Rightarrow> 's \<Rightarrow> nat" where
  "host_ram k s =
     (case Option.bind (cf_read k ''/proc/meminfo'' s) (\<lambda>text.
             case List.map_filter (strip_prefix ''MemTotal:'') (lines text) of
               [] \<Rightarrow> None
             | v # _ \<Rightarrow> (case split_whitespace v of [] \<Rightarrow> None | w # _ \<Rightarrow> parse_uint u64_max w)) of
        Some kb \<Rightarrow> (kb * 1024) mod (u64_max + 1)
      | None \<Rightarrow> 2 * 1024 * 1024 * 1024)"

text \<open>
  \<open>ensure\<close>: \<open>scaled\<close> is the budget fraction, floating point and a parameter. \<open>own\<close> is the
  cgroup of the calling process as it was read.
\<close>

definition in_the_way :: "string \<Rightarrow> string option \<Rightarrow> bool" where
  "in_the_way root own =
     (case own of
        None \<Rightarrow> False
      | Some h \<Rightarrow>
          (case path_parent root of Some p \<Rightarrow> path_eq p h | None \<Rightarrow> False)
          \<or> (path_under root h \<and> \<not> path_under (system_dir root) h))"

definition ensure_layout :: "'s cgroupfs \<Rightarrow> (nat \<Rightarrow> nat) \<Rightarrow> nat \<Rightarrow> string \<Rightarrow> nat \<Rightarrow> ('s, unit) cg_step" where
  "ensure_layout k scaled pid root ram s =
     (let tenant_budget = scaled (ram - SYSTEM_RESERVE) in
      and_do (create_cgroup k root) (\<lambda>_.
      and_do (create_cgroup k (system_dir root)) (\<lambda>_.
      and_do (\<lambda>s. if in_the_way root (own_cgroup k s) then join_system k pid (system_dir root) s else (Inr (), s)) (\<lambda>_.
      and_do (vacate k root (system_dir root)) (\<lambda>_.
      and_do (case path_parent root of
                None \<Rightarrow> return_ok ()
              | Some parent \<Rightarrow> and_do (vacate_ours k parent (system_dir root)) (\<lambda>_.
                                enable_controllers k parent CONTROLLERS)) (\<lambda>_.
      and_do (enable_controllers k root CONTROLLERS) (\<lambda>_.
      and_do (ignoring (write_file k (path_join (system_dir root) ''memory.min'') (show_nat SYSTEM_RESERVE))) (\<lambda>_.
      and_do (create_cgroup k (tenants_dir root)) (\<lambda>_.
      and_do (enable_controllers k (tenants_dir root) CONTROLLERS) (\<lambda>_.
      ignoring (write_file k (path_join (tenants_dir root) ''memory.max'') (show_nat tenant_budget))))))))))) s)"

definition create_function ::
  "'s cgroupfs \<Rightarrow> ('c \<Rightarrow> string) \<Rightarrow> string \<Rightarrow> string \<Rightarrow> string \<Rightarrow> 'c limits \<Rightarrow> ('s, string) cg_step" where
  "create_function k cgroup_max root tenant name l =
     (let dir = function_dir root tenant name in
      and_do (create_cgroup k (tenants_dir root)) (\<lambda>_.
      and_do (enable_controllers k root CONTROLLERS) (\<lambda>_.
      and_do (enable_controllers k (tenants_dir root) CONTROLLERS) (\<lambda>_.
      and_do (create_cgroup k (tenant_dir root tenant)) (\<lambda>_.
      and_do (enable_controllers k (tenant_dir root tenant) CONTROLLERS) (\<lambda>_.
      and_do (create_cgroup k dir) (\<lambda>_.
      and_do (enable_controllers k dir CONTROLLERS) (\<lambda>_ s.
      let missing = missing_limit_files k dir s in
      if missing \<noteq> [] then (Inl (NotDelegated dir missing), s)
      else and_do (apply_writes k dir (function_writes cgroup_max l)) (\<lambda>_. return_ok dir) s))))))))"

definition create_generation ::
  "'s cgroupfs \<Rightarrow> string \<Rightarrow> nat \<Rightarrow> string \<Rightarrow> string \<Rightarrow> string \<Rightarrow> 'c limits \<Rightarrow> ('s, string) cg_step" where
  "create_generation k token counter root tenant name l =
     (let dir = fst (generation_dir token counter root tenant name) in
      and_do (create_cgroup k dir) (\<lambda>_.
      and_do (enable_controllers k dir CONTROLLERS) (\<lambda>_.
      and_do (create_cgroup k (zygote_dir dir)) (\<lambda>_.
      and_do (apply_writes k (zygote_dir dir) (leaf_writes l)) (\<lambda>_.
      return_ok dir)))))"

definition create_request ::
  "'s cgroupfs \<Rightarrow> string \<Rightarrow> string \<Rightarrow> 'c limits \<Rightarrow> ('s, string) cg_step" where
  "create_request k generation request_id l =
     (let dir = request_dir generation request_id in
      and_do (create_cgroup k dir) (\<lambda>_.
      and_do (apply_writes k dir (leaf_writes l)) (\<lambda>_.
      return_ok dir)))"

end
