(* ===== verification/Zygo_Resolve.thy ===== *)
theory Zygo_Resolve
  imports Zygo_Mount
begin

text \<open>
  Spec resolution (\<open>crates/zygo-core/src/spec/resolve.rs\<close> and the layers of \<open>spec/mod.rs\<close>):
  the layers of a specification, their merge, and the resolution of a merged layer into a
  function in which every limit is decided, with all its refusals and warnings.

  A refusal is a constructor of \<open>resolve_error\<close> and a warning one of \<open>resolve_warning\<close>, in place
  of the message texts; \<open>Panic\<close> stands for an \<open>expect\<close> that fails. The CPU quota and the two
  scalings of a byte count are floating point and parameters. A \<open>BTreeMap\<close> of environment
  variables is the list of its entries.
\<close>

section \<open>Layers\<close>

record 'c layer =
  l_image :: "string option"
  l_entry :: "string option"
  l_cmd :: "string list option"
  l_mode :: "handler_mode option"
  l_runtime :: "runtime option"
  l_requirements :: "string option"
  l_workdir :: "string option"
  l_user :: "string option"
  l_system :: "string list option"
  l_nix :: "string list option"
  l_isolation :: "isolation option"
  l_seccomp :: "seccomp_profile option"
  l_mem :: "nat option"
  l_cpu :: "'c option"
  l_pids :: "nat option"
  l_timeout :: "duration option"
  l_scratch :: "nat option"
  l_io_read :: "nat option"
  l_io_write :: "nat option"
  l_nofile :: "nat option"
  l_connections :: "nat option"
  l_bandwidth :: "nat option"
  l_network :: "network option"
  l_allow :: "allow_rule list option"
  l_mounts :: "mount list option"
  l_env :: "(string \<times> string) list option"
  l_secrets :: "string list option"
  l_concurrency :: "nat option"
  l_idle_timeout :: "duration option"
  l_cold_after :: "duration option"
  l_min_warm :: "nat option"
  l_max_warm :: "nat option"

definition pick :: "'a option \<Rightarrow> 'a option \<Rightarrow> 'a option" where
  "pick over base = (case over of Some x \<Rightarrow> Some x | None \<Rightarrow> base)"

definition empty_layer :: "'c layer" where
  "empty_layer =
     \<lparr>l_image = None, l_entry = None, l_cmd = None, l_mode = None, l_runtime = None,
      l_requirements = None, l_workdir = None, l_user = None, l_system = None, l_nix = None,
      l_isolation = None, l_seccomp = None, l_mem = None, l_cpu = None, l_pids = None,
      l_timeout = None, l_scratch = None, l_io_read = None, l_io_write = None, l_nofile = None,
      l_connections = None, l_bandwidth = None, l_network = None, l_allow = None,
      l_mounts = None, l_env = None, l_secrets = None, l_concurrency = None,
      l_idle_timeout = None, l_cold_after = None, l_min_warm = None, l_max_warm = None\<rparr>"

text \<open>\<open>merge s over\<close> is \<open>s.merge(&over)\<close>: every field set in \<open>over\<close> wins.\<close>

definition merge :: "'c layer \<Rightarrow> 'c layer \<Rightarrow> 'c layer" where
  "merge s over =
     \<lparr>l_image = pick (l_image over) (l_image s), l_entry = pick (l_entry over) (l_entry s),
      l_cmd = pick (l_cmd over) (l_cmd s), l_mode = pick (l_mode over) (l_mode s),
      l_runtime = pick (l_runtime over) (l_runtime s),
      l_requirements = pick (l_requirements over) (l_requirements s),
      l_workdir = pick (l_workdir over) (l_workdir s), l_user = pick (l_user over) (l_user s),
      l_system = pick (l_system over) (l_system s), l_nix = pick (l_nix over) (l_nix s),
      l_isolation = pick (l_isolation over) (l_isolation s),
      l_seccomp = pick (l_seccomp over) (l_seccomp s), l_mem = pick (l_mem over) (l_mem s),
      l_cpu = pick (l_cpu over) (l_cpu s), l_pids = pick (l_pids over) (l_pids s),
      l_timeout = pick (l_timeout over) (l_timeout s),
      l_scratch = pick (l_scratch over) (l_scratch s),
      l_io_read = pick (l_io_read over) (l_io_read s),
      l_io_write = pick (l_io_write over) (l_io_write s),
      l_nofile = pick (l_nofile over) (l_nofile s),
      l_connections = pick (l_connections over) (l_connections s),
      l_bandwidth = pick (l_bandwidth over) (l_bandwidth s),
      l_network = pick (l_network over) (l_network s), l_allow = pick (l_allow over) (l_allow s),
      l_mounts = pick (l_mounts over) (l_mounts s), l_env = pick (l_env over) (l_env s),
      l_secrets = pick (l_secrets over) (l_secrets s),
      l_concurrency = pick (l_concurrency over) (l_concurrency s),
      l_idle_timeout = pick (l_idle_timeout over) (l_idle_timeout s),
      l_cold_after = pick (l_cold_after over) (l_cold_after s),
      l_min_warm = pick (l_min_warm over) (l_min_warm s),
      l_max_warm = pick (l_max_warm over) (l_max_warm s)\<rparr>"

definition MIB :: nat where "MIB = 1048576"

definition defaults :: "'c \<Rightarrow> 'c layer" where
  "defaults one_core = empty_layer
     \<lparr>l_isolation := Some Ns, l_seccomp := Some Default, l_mem := Some (256 * MIB),
      l_cpu := Some one_core, l_pids := Some 64, l_timeout := Some (from_secs 30),
      l_nofile := Some 1024, l_connections := Some 256, l_network := Some NetNone,
      l_mode := Some Function, l_concurrency := Some 4, l_idle_timeout := Some (from_secs 600),
      l_cold_after := Some (from_secs 3600), l_user := Some ''1000'', l_workdir := Some ''/app''\<rparr>"

section \<open>Options and results\<close>

record resolve_options =
  ro_allow_host_net :: bool
  ro_allow_private_net :: bool
  ro_allow_unlimited :: bool
  ro_base_dir :: "string option"
  ro_one_shot :: bool
  ro_tenant :: "string option"
  ro_pool :: bool

definition DEFAULT_TENANT :: string where "DEFAULT_TENANT = ''default''"

datatype resolve_error =
    UnknownFunction string
  | BadName string
  | CannotInferRuntime
  | PoolNamesCode
  | PoolNeedsAgentOrCommand
  | PoolAgentAndCommand
  | NothingToRun
  | EntryAndCommand
  | RuntimeNeedsHandler
  | NoImage
  | MemTooSmall nat
  | ScratchTooLarge nat nat
  | ZeroPids
  | ZeroTimeout
  | ZeroConcurrency
  | MaxWarmBelowMin nat nat
  | WarmOnFunction string
  | ZeroConnections
  | ZeroBandwidth
  | HostNetwork
  | StrictNetwork
  | AllowWithoutEgress
  | PrivateAllow allow_rule
  | ReservedTarget string
  | RelativeTarget string
  | DuplicateTarget string
  | BadEnvName string
  | BadSecretName string
  | SecretInEnv string
  | BadPackage string
  | Panic

datatype resolve_warning =
    PoolLowered seccomp_profile
  | ScratchOverHalf
  | ColdBeforeIdle
  | NoIoLimit
  | NoBandwidthLimit
  | EmptyAllowlist

record 'c resolved_fn =
  rf_name :: string
  rf_tenant :: string
  rf_image :: string
  rf_entry :: "string option"
  rf_cmd :: "string list"
  rf_mode :: handler_mode
  rf_runtime :: "runtime option"
  rf_requirements :: "string option"
  rf_workdir :: string
  rf_user :: string
  rf_system :: "string list"
  rf_nix :: "string list"
  rf_isolation :: isolation
  rf_seccomp :: seccomp_profile
  rf_limits :: "'c limits"
  rf_network :: network
  rf_allow :: "allow_rule list"
  rf_allow_private_net :: bool
  rf_mounts :: "mount list"
  rf_env :: "(string \<times> string) list"
  rf_secrets :: "string list"
  rf_concurrency :: nat
  rf_idle_timeout :: duration
  rf_cold_after :: duration
  rf_min_warm :: nat
  rf_max_warm :: nat
  rf_warnings :: "resolve_warning list"
  rf_pool :: bool
  rf_one_shot :: bool

section \<open>Names and paths\<close>

definition is_fn_name :: "string \<Rightarrow> bool" where
  "is_fn_name s \<longleftrightarrow> s \<noteq> [] \<and> length s \<le> 64 \<and> is_ascii_alphanumeric (hd s)
     \<and> list_all (\<lambda>c. is_ascii_alphanumeric c \<or> c = CHR ''-'' \<or> c = CHR ''_'' \<or> c = CHR ''.'') s"

definition is_env_name :: "string \<Rightarrow> bool" where
  "is_env_name s \<longleftrightarrow> s \<noteq> [] \<and> \<not> is_ascii_digit (hd s)
     \<and> list_all (\<lambda>c. is_ascii_alphanumeric c \<or> c = CHR ''_'') s"

text \<open>
  The loop of \<open>normalise\<close>, on the components of the path built so far. \<open>pop\<close> does nothing on
  an empty path and on the root; there \<open>..\<close> is pushed instead.
\<close>

definition norm_step :: "component \<Rightarrow> component list \<Rightarrow> component list" where
  "norm_step c out =
     (case c of
        CurDir \<Rightarrow> out
      | ParentDir \<Rightarrow> if out = [] \<or> out = [RootDir] then out @ [ParentDir] else butlast out
      | RootDir \<Rightarrow> [RootDir]
      | Normal s \<Rightarrow> out @ [Normal s])"

definition normalise :: "string \<Rightarrow> string" where
  "normalise p = show_path (fold norm_step (components p) [])"

definition absolutise :: "string \<Rightarrow> string \<Rightarrow> string" where
  "absolutise base p = (if is_absolute p then p else normalise (path_join base p))"

definition is_reserved_mount_target :: "string \<Rightarrow> bool" where
  "is_reserved_mount_target target \<longleftrightarrow>
     path_eq (normalise target) ''/'' \<or> list_ex (\<lambda>m. path_eq (normalise target) m) MANAGED_TARGETS"

definition default_image_for :: "runtime option \<Rightarrow> string option" where
  "default_image_for r =
     (case r of
        Some (Builtin Python) \<Rightarrow> Some ''python:3.12-slim''
      | Some (Builtin Node) \<Rightarrow> Some ''node:22-slim''
      | _ \<Rightarrow> None)"

definition name_char :: "char \<Rightarrow> bool" where
  "name_char b \<longleftrightarrow> is_ascii_lowercase b \<or> is_ascii_digit b \<or> b = CHR ''+'' \<or> b = CHR ''-'' \<or> b = CHR ''.''"

definition validate_package :: "string \<Rightarrow> bool" where
  "validate_package spec =
     (let (name, version) = (case split_once CHR ''='' spec of Some (n, v) \<Rightarrow> (n, Some v) | None \<Rightarrow> (spec, None))
      in 2 \<le> length name \<and> (is_ascii_lowercase (hd name) \<or> is_ascii_digit (hd name)) \<and> list_all name_char name
         \<and> (case version of None \<Rightarrow> True
            | Some v \<Rightarrow> v \<noteq> [] \<and> list_all (\<lambda>b. is_ascii_alphanumeric b \<or> b \<in> set ''.+~:-*'') v))"

section \<open>Resolving a layer\<close>

definition MIN_MEM :: nat where "MIN_MEM = 8 * 1024 * 1024"
definition DEFAULT_SCRATCH :: nat where "DEFAULT_SCRATCH = 64 * 1024 * 1024"
definition DEFAULT_MAX_WARM :: nat where "DEFAULT_MAX_WARM = 4"

definition default_scratch :: "nat \<Rightarrow> nat" where
  "default_scratch mem = min DEFAULT_SCRATCH (mem div 2)"

definition refuse :: "bool \<Rightarrow> resolve_error \<Rightarrow> resolve_error + unit" where
  "refuse bad e = (if bad then Inl e else Inr ())"

definition expect :: "'a option \<Rightarrow> resolve_error + 'a" where
  "expect x = (case x of Some v \<Rightarrow> Inr v | None \<Rightarrow> Inl Panic)"

definition warn_if :: "bool \<Rightarrow> resolve_warning \<Rightarrow> resolve_warning list" where
  "warn_if b w = (if b then [w] else [])"

text \<open>What to run: the runtime, then the refusals about pools, entries and commands.\<close>

definition runtime_of :: "runtime option \<Rightarrow> string option \<Rightarrow> resolve_error + runtime option" where
  "runtime_of explicit entry =
     (case (explicit, entry) of
        (Some r, _) \<Rightarrow> Inr (Some r)
      | (None, Some e) \<Rightarrow>
          (case infer_from_entry e of None \<Rightarrow> Inl CannotInferRuntime | Some r \<Rightarrow> Inr (Some r))
      | (None, None) \<Rightarrow> Inr None)"

definition check_pool :: "string option \<Rightarrow> runtime option \<Rightarrow> string list \<Rightarrow> resolve_error + unit" where
  "check_pool entry runtime cmd =
     and_then (refuse (entry \<noteq> None) PoolNamesCode) (\<lambda>_.
     and_then (refuse (runtime = None \<and> cmd = []) PoolNeedsAgentOrCommand) (\<lambda>_.
     refuse (runtime \<noteq> None \<and> cmd \<noteq> []) PoolAgentAndCommand))"

definition is_builtin :: "runtime option \<Rightarrow> bool" where
  "is_builtin r = (case r of Some (Builtin _) \<Rightarrow> True | _ \<Rightarrow> False)"

definition check_code ::
  "resolve_options \<Rightarrow> string option \<Rightarrow> runtime option \<Rightarrow> string list \<Rightarrow> resolve_error + unit" where
  "check_code opts entry runtime cmd =
     and_then (if ro_pool opts then check_pool entry runtime cmd else Inr ()) (\<lambda>_.
     and_then (refuse (entry = None \<and> cmd = [] \<and> \<not> ro_one_shot opts \<and> \<not> ro_pool opts) NothingToRun) (\<lambda>_.
     and_then (refuse (entry \<noteq> None \<and> cmd \<noteq> []) EntryAndCommand) (\<lambda>_.
     refuse (entry = None \<and> \<not> ro_pool opts \<and> is_builtin runtime) RuntimeNeedsHandler)))"

definition image_of :: "string option \<Rightarrow> runtime option \<Rightarrow> resolve_error + string" where
  "image_of img runtime =
     (case img of
        Some i \<Rightarrow> Inr i
      | None \<Rightarrow> (case default_image_for runtime of None \<Rightarrow> Inl NoImage | Some i \<Rightarrow> Inr i))"

text \<open>How warm a pool is kept; a function is one zygote and refuses the two keys.\<close>

definition warm_bounds ::
  "resolve_options \<Rightarrow> nat option \<Rightarrow> nat option \<Rightarrow> resolve_error + (nat \<times> nat)" where
  "warm_bounds opts min_warm max_warm =
     (if ro_pool opts then
        let lo = max (case min_warm of Some n \<Rightarrow> n | None \<Rightarrow> 1) 1;
            hi = (case max_warm of Some n \<Rightarrow> n | None \<Rightarrow> max lo DEFAULT_MAX_WARM)
        in if hi < lo then Inl (MaxWarmBelowMin hi lo) else Inr (lo, hi)
      else if min_warm \<noteq> None then Inl (WarmOnFunction ''min_warm'')
      else if max_warm \<noteq> None then Inl (WarmOnFunction ''max_warm'')
      else Inr (1, 1))"

text \<open>
  The limits: \<open>half\<close> is \<open>Bytes::scaled(0.5)\<close>, \<open>high\<close> is \<open>Bytes::scaled(0.9)\<close>. First the scratch size
  and its refusals and warning, then the counters.
\<close>

definition scratch_of :: "nat \<Rightarrow> nat option \<Rightarrow> resolve_error + nat" where
  "scratch_of mem scratch =
     (let s = (case scratch of Some s \<Rightarrow> s | None \<Rightarrow> default_scratch mem)
      in map_ok (\<lambda>_. s) (refuse (s \<ge> mem) (ScratchTooLarge s mem)))"

definition mem_of :: "'c layer \<Rightarrow> resolve_error + nat" where
  "mem_of l = and_then (expect (l_mem l)) (\<lambda>mem. map_ok (\<lambda>_. mem) (refuse (mem < MIN_MEM) (MemTooSmall mem)))"

definition pids_of :: "'c layer \<Rightarrow> resolve_error + nat" where
  "pids_of l = and_then (expect (l_pids l)) (\<lambda>pids. map_ok (\<lambda>_. pids) (refuse (pids = 0) ZeroPids))"

definition timeout_of :: "resolve_options \<Rightarrow> 'c layer \<Rightarrow> resolve_error + duration" where
  "timeout_of opts l =
     and_then (expect (l_timeout l)) (\<lambda>t.
     map_ok (\<lambda>_. t) (refuse (as_millis t = 0 \<and> \<not> ro_allow_unlimited opts) ZeroTimeout))"

definition concurrency_of :: "'c layer \<Rightarrow> resolve_error + nat" where
  "concurrency_of l =
     and_then (expect (l_concurrency l)) (\<lambda>n. map_ok (\<lambda>_. n) (refuse (n = 0) ZeroConcurrency))"

definition connections_of :: "'c layer \<Rightarrow> resolve_error + nat" where
  "connections_of l =
     and_then (expect (l_connections l)) (\<lambda>n.
     and_then (refuse (n = 0) ZeroConnections) (\<lambda>_.
     map_ok (\<lambda>_. n) (refuse (l_bandwidth l = Some 0) ZeroBandwidth)))"

section \<open>Network, mounts, environment\<close>

definition networked :: "network \<Rightarrow> bool" where
  "networked n \<longleftrightarrow> n \<in> {Egress, Full}"

definition private_rule :: "allow_rule \<Rightarrow> bool" where
  "private_rule r =
     (case ar_host r of
        CidrHost c \<Rightarrow> is_private_or_link_local c
      | Exact h \<Rightarrow> (case parse_ip h of Some a \<Rightarrow> is_private_addr a | None \<Rightarrow> False)
      | Wildcard _ \<Rightarrow> False)"

definition check_network :: "resolve_options \<Rightarrow> network \<Rightarrow> 'c layer \<Rightarrow> resolve_error + unit" where
  "check_network opts network l =
     and_then (refuse (network = Host \<and> \<not> ro_allow_host_net opts) HostNetwork) (\<lambda>_.
     refuse (networked network \<and> l_seccomp l = Some Strict) StrictNetwork)"

definition check_allow :: "resolve_options \<Rightarrow> network \<Rightarrow> allow_rule list \<Rightarrow> resolve_error + unit" where
  "check_allow opts network allow =
     and_then (refuse (allow \<noteq> [] \<and> network \<noteq> Egress) AllowWithoutEgress) (\<lambda>_.
     (if ro_allow_private_net opts then Inr ()
      else (case find private_rule allow of Some r \<Rightarrow> Inl (PrivateAllow r) | None \<Rightarrow> Inr ())))"

text \<open>The loop over the mounts, with the places seen so far.\<close>

fun resolve_mounts ::
  "string \<Rightarrow> component list list \<Rightarrow> mount list \<Rightarrow> resolve_error + mount list" where
  "resolve_mounts base seen [] = Inr []"
| "resolve_mounts base seen (m # ms) =
     (if is_reserved_mount_target (m_target m) then Inl (ReservedTarget (m_target m))
      else
        let target = normalise (m_target m)
        in if \<not> is_absolute target then Inl (RelativeTarget (m_target m))
           else if components target \<in> set seen then Inl (DuplicateTarget target)
           else map_ok
             (\<lambda>rest. \<lparr>m_source = absolutise base (m_source m), m_target = target, m_mode = m_mode m\<rparr> # rest)
             (resolve_mounts base (components target # seen) ms))"

definition check_env :: "(string \<times> string) list \<Rightarrow> resolve_error + unit" where
  "check_env env =
     (case find (\<lambda>k. \<not> is_env_name k) (map fst env) of Some k \<Rightarrow> Inl (BadEnvName k) | None \<Rightarrow> Inr ())"

fun check_secrets :: "(string \<times> string) list \<Rightarrow> string list \<Rightarrow> resolve_error + unit" where
  "check_secrets env [] = Inr ()"
| "check_secrets env (s # ss) =
     (if \<not> is_env_name s then Inl (BadSecretName s)
      else if s \<in> set (map fst env) then Inl (SecretInEnv s)
      else check_secrets env ss)"

definition check_system :: "string list \<Rightarrow> resolve_error + unit" where
  "check_system system =
     (case find (\<lambda>p. \<not> validate_package p) system of Some p \<Rightarrow> Inl (BadPackage p) | None \<Rightarrow> Inr ())"

section \<open>The whole resolution\<close>

definition or_default :: "'a \<Rightarrow> 'a option \<Rightarrow> 'a" where
  "or_default d x = (case x of Some v \<Rightarrow> v | None \<Rightarrow> d)"

text \<open>The warnings, in the order they are pushed.\<close>

definition warnings_of ::
  "(nat \<Rightarrow> nat) \<Rightarrow> resolve_options \<Rightarrow> 'c layer \<Rightarrow> nat \<Rightarrow> nat \<Rightarrow> duration \<Rightarrow> duration \<Rightarrow> network \<Rightarrow> resolve_warning list"
where
  "warnings_of half opts l mem scratch idle cold network =
     (case l_seccomp l of
        Some p \<Rightarrow> warn_if (ro_pool opts \<and> p \<noteq> Strict) (PoolLowered p) | None \<Rightarrow> [])
     @ warn_if (scratch > half mem) ScratchOverHalf
     @ warn_if (cold < idle) ColdBeforeIdle
     @ warn_if (l_io_read l = None \<and> l_io_write l = None \<and> \<not> ro_one_shot opts) NoIoLimit
     @ warn_if (l_bandwidth l = None \<and> networked network \<and> \<not> ro_one_shot opts) NoBandwidthLimit
     @ warn_if (network = Egress \<and> or_default [] (l_allow l) = []) EmptyAllowlist"

definition resolve_layer ::
  "(nat \<Rightarrow> nat) \<Rightarrow> (nat \<Rightarrow> nat) \<Rightarrow> string \<Rightarrow> 'c layer \<Rightarrow> string \<Rightarrow> resolve_options \<Rightarrow> resolve_error + 'c resolved_fn"
where
  "resolve_layer half high name l base opts =
     and_then (refuse (\<not> is_fn_name name) (BadName name)) (\<lambda>_.
     let entry = map_option (absolutise base) (l_entry l) in
     and_then (runtime_of (l_runtime l) entry) (\<lambda>runtime.
     let cmd = or_default [] (l_cmd l) in
     and_then (check_code opts entry runtime cmd) (\<lambda>_.
     and_then (image_of (l_image l) runtime) (\<lambda>image.
     and_then (mem_of l) (\<lambda>mem.
     and_then (scratch_of mem (l_scratch l)) (\<lambda>scratch.
     and_then (pids_of l) (\<lambda>pids.
     and_then (timeout_of opts l) (\<lambda>timeout.
     and_then (concurrency_of l) (\<lambda>concurrency.
     and_then (warm_bounds opts (l_min_warm l) (l_max_warm l)) (\<lambda>(min_warm, max_warm).
     and_then (expect (l_idle_timeout l)) (\<lambda>idle.
     and_then (expect (l_cold_after l)) (\<lambda>cold.
     and_then (connections_of l) (\<lambda>connections.
     and_then (expect (l_cpu l)) (\<lambda>cpu.
     and_then (expect (l_nofile l)) (\<lambda>nofile.
     and_then (expect (l_network l)) (\<lambda>network.
     and_then (check_network opts network l) (\<lambda>_.
     let allow = or_default [] (l_allow l) in
     and_then (check_allow opts network allow) (\<lambda>_.
     and_then (resolve_mounts base [] (or_default [] (l_mounts l))) (\<lambda>mounts.
     let env = or_default [] (l_env l); secrets = or_default [] (l_secrets l) in
     and_then (check_env env) (\<lambda>_.
     and_then (check_secrets env secrets) (\<lambda>_.
     let system = or_default [] (l_system l) in
     and_then (check_system system) (\<lambda>_.
     and_then (expect (l_mode l)) (\<lambda>mode.
     and_then (expect (l_workdir l)) (\<lambda>workdir.
     and_then (expect (l_user l)) (\<lambda>user.
     and_then (expect (l_isolation l)) (\<lambda>isolation.
     and_then (expect (l_seccomp l)) (\<lambda>seccomp.
     Inr \<lparr>rf_name = name,
          rf_tenant = (case ro_tenant opts of Some t \<Rightarrow> t | None \<Rightarrow> DEFAULT_TENANT),
          rf_image = image, rf_entry = entry, rf_cmd = cmd, rf_mode = mode, rf_runtime = runtime,
          rf_requirements = map_option (absolutise base) (l_requirements l),
          rf_workdir = workdir, rf_user = user, rf_system = system,
          rf_nix = or_default [] (l_nix l), rf_isolation = isolation, rf_seccomp = seccomp,
          rf_limits = \<lparr>lim_mem = mem, lim_mem_high = high mem, lim_swap = 0, lim_oom_group = True,
            lim_cpu = cpu, lim_pids = pids, lim_timeout_ms = timeout, lim_scratch = scratch,
            lim_scratch_inodes = 10000, lim_io_read = l_io_read l, lim_io_write = l_io_write l,
            lim_nofile = nofile, lim_fsize = scratch, lim_connections = connections,
            lim_bandwidth = l_bandwidth l\<rparr>,
          rf_network = network, rf_allow = allow, rf_allow_private_net = ro_allow_private_net opts,
          rf_mounts = mounts, rf_env = env, rf_secrets = secrets, rf_concurrency = concurrency,
          rf_idle_timeout = idle, rf_cold_after = cold, rf_min_warm = min_warm, rf_max_warm = max_warm,
          rf_warnings = warnings_of half opts l mem scratch idle cold network,
          rf_pool = ro_pool opts, rf_one_shot = ro_one_shot opts\<rparr>)))))))))))))))))))))))))))"

section \<open>Specs\<close>

text \<open>A spec is its defaults and two tables of layers, and the file it was read from.\<close>

record 'c spec =
  sp_defaults :: "'c layer"
  sp_functions :: "(string \<times> 'c layer) list"
  sp_runtimes :: "(string \<times> 'c layer) list"
  sp_source :: "string option"

definition spec_base_dir :: "'c spec \<Rightarrow> string" where
  "spec_base_dir sp = or_default ''.'' (Option.bind (sp_source sp) path_parent)"

definition base_dir_for :: "'c spec \<Rightarrow> resolve_options \<Rightarrow> string" where
  "base_dir_for sp opts = (case ro_base_dir opts of Some b \<Rightarrow> b | None \<Rightarrow> spec_base_dir sp)"

definition merged_layer :: "'c \<Rightarrow> 'c spec \<Rightarrow> 'c layer \<Rightarrow> 'c layer \<Rightarrow> 'c layer" where
  "merged_layer one_core sp table overrides =
     merge (merge (merge (defaults one_core) (sp_defaults sp)) table) overrides"

text \<open>\<open>one_core\<close>, \<open>half\<close> and \<open>high\<close> are the floating point parameters.\<close>

definition resolve_fn ::
  "'c \<Rightarrow> (nat \<Rightarrow> nat) \<Rightarrow> (nat \<Rightarrow> nat) \<Rightarrow> 'c spec \<Rightarrow> string option \<Rightarrow> 'c layer \<Rightarrow> resolve_options
    \<Rightarrow> resolve_error + 'c resolved_fn" where
  "resolve_fn one_core half high sp name overrides opts =
     and_then
       (case name of
          Some n \<Rightarrow> ok_or (UnknownFunction n) (map_of (sp_functions sp) n)
        | None \<Rightarrow> Inr empty_layer) (\<lambda>fn_layer.
     resolve_layer half high (or_default ''run'' name) (merged_layer one_core sp fn_layer overrides)
       (base_dir_for sp opts) opts)"

datatype seccomp_source =
    FromOverride | FromFunction | FromRuntime | FromDefaults | FromPoolDefault | FromBuiltIn

fun seccomp_source_as_str :: "seccomp_source \<Rightarrow> string" where
  "seccomp_source_as_str FromOverride = ''the --seccomp flag''"
| "seccomp_source_as_str FromFunction = ''the function'' @ [CHR 0x27] @ ''s own table''"
| "seccomp_source_as_str FromRuntime = ''the pool'' @ [CHR 0x27] @ ''s own table''"
| "seccomp_source_as_str FromDefaults = ''[defaults]''"
| "seccomp_source_as_str FromPoolDefault = ''the pool default''"
| "seccomp_source_as_str FromBuiltIn = ''the built-in default''"

definition table_of :: "(string \<times> 'c layer) list \<Rightarrow> string \<Rightarrow> 'c layer" where
  "table_of tables n = or_default empty_layer (map_of tables n)"

definition seccomp_source_fn :: "'c spec \<Rightarrow> string option \<Rightarrow> 'c layer \<Rightarrow> seccomp_source" where
  "seccomp_source_fn sp name overrides =
     (if l_seccomp overrides \<noteq> None then FromOverride
      else if (case Option.bind name (map_of (sp_functions sp)) of Some f \<Rightarrow> l_seccomp f \<noteq> None | None \<Rightarrow> False)
        then FromFunction
      else if l_seccomp (sp_defaults sp) \<noteq> None then FromDefaults
      else FromBuiltIn)"

definition seccomp_source_runtime :: "'c spec \<Rightarrow> string \<Rightarrow> 'c layer \<Rightarrow> seccomp_source" where
  "seccomp_source_runtime sp name overrides =
     (if l_seccomp overrides \<noteq> None then FromOverride
      else if (case map_of (sp_runtimes sp) name of Some r \<Rightarrow> l_seccomp r \<noteq> None | None \<Rightarrow> False)
        then FromRuntime
      else if l_seccomp (sp_defaults sp) \<noteq> None then FromDefaults
      else FromPoolDefault)"

definition resolve_runtime ::
  "'c \<Rightarrow> (nat \<Rightarrow> nat) \<Rightarrow> (nat \<Rightarrow> nat) \<Rightarrow> 'c spec \<Rightarrow> string \<Rightarrow> 'c layer \<Rightarrow> resolve_options
    \<Rightarrow> resolve_error + 'c resolved_fn" where
  "resolve_runtime one_core half high sp name overrides opts =
     (let table = table_of (sp_runtimes sp) name;
          merged = merged_layer one_core sp table overrides;
          chosen = pick (l_seccomp overrides) (pick (l_seccomp table) (l_seccomp (sp_defaults sp)))
      in resolve_layer half high name
           (if chosen = None then merged\<lparr>l_seccomp := Some Strict\<rparr> else merged)
           (base_dir_for sp opts) (opts\<lparr>ro_pool := True\<rparr>))"

definition resolve_for_serve ::
  "'c \<Rightarrow> (nat \<Rightarrow> nat) \<Rightarrow> (nat \<Rightarrow> nat) \<Rightarrow> 'c spec \<Rightarrow> string \<Rightarrow> 'c layer \<Rightarrow> resolve_options
    \<Rightarrow> resolve_error + 'c resolved_fn" where
  "resolve_for_serve one_core half high sp name overrides opts =
     resolve_layer half high name
       (merged_layer one_core sp (table_of (sp_functions sp) name) overrides)
       (base_dir_for sp opts) opts"

definition resolve_standalone ::
  "'c \<Rightarrow> (nat \<Rightarrow> nat) \<Rightarrow> (nat \<Rightarrow> nat) \<Rightarrow> string option \<Rightarrow> string \<Rightarrow> 'c layer \<Rightarrow> resolve_options
    \<Rightarrow> resolve_error + 'c resolved_fn" where
  "resolve_standalone one_core half high current_dir name overrides opts =
     resolve_layer half high name (merge (defaults one_core) overrides)
       (case ro_base_dir opts of Some b \<Rightarrow> b | None \<Rightarrow> or_default ''.'' current_dir) opts"

section \<open>Merging\<close>

text \<open>
  Layers form a monoid under \<open>merge\<close>, so a stack of layers means the same however it is
  grouped, which is why the order of the merges in the code does not matter.
\<close>

lemma pick_simps [simp]:
  "pick None u = u" "pick u None = u" "pick (Some x) u = Some x" "pick a (pick b c) = pick (pick a b) c"
  by (simp_all add: pick_def split: option.splits)

lemma pick_eq_None [simp]: "pick a b = None \<longleftrightarrow> a = None \<and> b = None"
  by (simp add: pick_def split: option.splits)

lemma merge_sel [simp]:
  "l_image (merge s over) = pick (l_image over) (l_image s)"
  "l_entry (merge s over) = pick (l_entry over) (l_entry s)"
  "l_cmd (merge s over) = pick (l_cmd over) (l_cmd s)"
  "l_mode (merge s over) = pick (l_mode over) (l_mode s)"
  "l_runtime (merge s over) = pick (l_runtime over) (l_runtime s)"
  "l_requirements (merge s over) = pick (l_requirements over) (l_requirements s)"
  "l_workdir (merge s over) = pick (l_workdir over) (l_workdir s)"
  "l_user (merge s over) = pick (l_user over) (l_user s)"
  "l_system (merge s over) = pick (l_system over) (l_system s)"
  "l_nix (merge s over) = pick (l_nix over) (l_nix s)"
  "l_isolation (merge s over) = pick (l_isolation over) (l_isolation s)"
  "l_seccomp (merge s over) = pick (l_seccomp over) (l_seccomp s)"
  "l_mem (merge s over) = pick (l_mem over) (l_mem s)"
  "l_cpu (merge s over) = pick (l_cpu over) (l_cpu s)"
  "l_pids (merge s over) = pick (l_pids over) (l_pids s)"
  "l_timeout (merge s over) = pick (l_timeout over) (l_timeout s)"
  "l_scratch (merge s over) = pick (l_scratch over) (l_scratch s)"
  "l_io_read (merge s over) = pick (l_io_read over) (l_io_read s)"
  "l_io_write (merge s over) = pick (l_io_write over) (l_io_write s)"
  "l_nofile (merge s over) = pick (l_nofile over) (l_nofile s)"
  "l_connections (merge s over) = pick (l_connections over) (l_connections s)"
  "l_bandwidth (merge s over) = pick (l_bandwidth over) (l_bandwidth s)"
  "l_network (merge s over) = pick (l_network over) (l_network s)"
  "l_allow (merge s over) = pick (l_allow over) (l_allow s)"
  "l_mounts (merge s over) = pick (l_mounts over) (l_mounts s)"
  "l_env (merge s over) = pick (l_env over) (l_env s)"
  "l_secrets (merge s over) = pick (l_secrets over) (l_secrets s)"
  "l_concurrency (merge s over) = pick (l_concurrency over) (l_concurrency s)"
  "l_idle_timeout (merge s over) = pick (l_idle_timeout over) (l_idle_timeout s)"
  "l_cold_after (merge s over) = pick (l_cold_after over) (l_cold_after s)"
  "l_min_warm (merge s over) = pick (l_min_warm over) (l_min_warm s)"
  "l_max_warm (merge s over) = pick (l_max_warm over) (l_max_warm s)"
  by (simp_all add: merge_def)

lemma empty_sel [simp]:
  "l_image empty_layer = None"
  "l_entry empty_layer = None"
  "l_cmd empty_layer = None"
  "l_mode empty_layer = None"
  "l_runtime empty_layer = None"
  "l_requirements empty_layer = None"
  "l_workdir empty_layer = None"
  "l_user empty_layer = None"
  "l_system empty_layer = None"
  "l_nix empty_layer = None"
  "l_isolation empty_layer = None"
  "l_seccomp empty_layer = None"
  "l_mem empty_layer = None"
  "l_cpu empty_layer = None"
  "l_pids empty_layer = None"
  "l_timeout empty_layer = None"
  "l_scratch empty_layer = None"
  "l_io_read empty_layer = None"
  "l_io_write empty_layer = None"
  "l_nofile empty_layer = None"
  "l_connections empty_layer = None"
  "l_bandwidth empty_layer = None"
  "l_network empty_layer = None"
  "l_allow empty_layer = None"
  "l_mounts empty_layer = None"
  "l_env empty_layer = None"
  "l_secrets empty_layer = None"
  "l_concurrency empty_layer = None"
  "l_idle_timeout empty_layer = None"
  "l_cold_after empty_layer = None"
  "l_min_warm empty_layer = None"
  "l_max_warm empty_layer = None"
  by (simp_all add: empty_layer_def)

interpretation layers: monoid merge empty_layer
  by unfold_locales (simp_all add: merge_def empty_layer_def)

end
