(* ===== verification/Zygo_Resolved.thy ===== *)
theory Zygo_Resolved
  imports Zygo_Resolve
begin

text \<open>
  What resolution promises: it never panics, a resolved function obeys the limits and the
  security rules, its mounts name distinct places and are visible where they are put, and the
  reported source of its system call profile is the one the merge used.
\<close>

section \<open>No expectation fails\<close>

text \<open>The fields with a built-in default; merging over the defaults keeps every one set.\<close>

definition complete :: "'c layer \<Rightarrow> bool" where
  "complete l \<longleftrightarrow> l_mem l \<noteq> None \<and> l_pids l \<noteq> None \<and> l_timeout l \<noteq> None \<and> l_concurrency l \<noteq> None
     \<and> l_idle_timeout l \<noteq> None \<and> l_cold_after l \<noteq> None \<and> l_connections l \<noteq> None \<and> l_cpu l \<noteq> None
     \<and> l_nofile l \<noteq> None \<and> l_network l \<noteq> None \<and> l_mode l \<noteq> None \<and> l_workdir l \<noteq> None
     \<and> l_user l \<noteq> None \<and> l_isolation l \<noteq> None \<and> l_seccomp l \<noteq> None"

lemma complete_defaults [simp]: "complete (defaults one_core)"
  by (simp add: complete_def defaults_def)

lemma complete_merge [simp]: "complete s \<Longrightarrow> complete (merge s over)"
  by (simp add: complete_def)

lemma complete_merged [simp]: "complete (merged_layer one_core sp table overrides)"
  by (simp add: merged_layer_def)

lemma complete_strict [simp]: "complete l \<Longrightarrow> complete (l\<lparr>l_seccomp := Some p\<rparr>)"
  by (simp add: complete_def)

definition panics :: "resolve_error + 'a \<Rightarrow> bool" where
  "panics r \<longleftrightarrow> r = Inl Panic"

named_theorems no_panic

lemma no_panic_bind [no_panic]:
  "\<not> panics r \<Longrightarrow> (\<And>x. r = Inr x \<Longrightarrow> \<not> panics (f x)) \<Longrightarrow> \<not> panics (and_then r f)"
  by (cases r) (simp_all add: panics_def)

lemma no_panic_map [no_panic]: "\<not> panics r \<Longrightarrow> \<not> panics (map_ok f r)"
  by (cases r) (simp_all add: panics_def)

lemma no_panic_Inr [no_panic]: "\<not> panics (Inr x)"
  by (simp add: panics_def)

lemma no_panic_Inl [no_panic]: "e \<noteq> Panic \<Longrightarrow> \<not> panics (Inl e)"
  by (simp add: panics_def)

lemma no_panic_refuse [no_panic]: "e \<noteq> Panic \<Longrightarrow> \<not> panics (refuse b e)"
  by (simp add: panics_def refuse_def)

lemma no_panic_expect [no_panic]: "x \<noteq> None \<Longrightarrow> \<not> panics (expect x)"
  by (auto simp: panics_def expect_def)

lemma no_panic_runtime_of [no_panic]: "\<not> panics (runtime_of r e)"
  by (simp add: panics_def runtime_of_def split: option.splits)

lemma no_panic_check_code [no_panic]: "\<not> panics (check_code opts e r c)"
  by (simp add: panics_def check_code_def check_pool_def refuse_def)

lemma no_panic_image_of [no_panic]: "\<not> panics (image_of i r)"
  by (simp add: panics_def image_of_def split: option.splits)

lemma no_panic_warm_bounds [no_panic]: "\<not> panics (warm_bounds opts lo hi)"
  by (simp add: panics_def warm_bounds_def Let_def)

lemma no_panic_counters:
  assumes "complete l"
  shows "\<not> panics (mem_of l)" "\<not> panics (scratch_of m s)" "\<not> panics (pids_of l)"
    "\<not> panics (timeout_of opts l)" "\<not> panics (concurrency_of l)" "\<not> panics (connections_of l)"
  using assms by (auto simp: panics_def complete_def mem_of_def scratch_of_def pids_of_def timeout_of_def
      concurrency_of_def connections_of_def expect_def refuse_def Let_def result_simps split: if_splits)

lemma no_panic_checks [no_panic]:
  shows "\<not> panics (check_network opts n l)" "\<not> panics (check_allow opts n a)"
    "\<not> panics (check_env e)" "\<not> panics (check_system y)"
  by (simp_all add: panics_def check_network_def check_allow_def check_env_def check_system_def
      refuse_def split: option.splits)

lemma no_panic_secrets [no_panic]: "\<not> panics (check_secrets e s)"
  by (induction s) (simp_all add: panics_def)

lemma no_panic_mounts [no_panic]: "\<not> panics (resolve_mounts base seen ms)"
  by (induction ms arbitrary: seen) (auto intro!: no_panic simp: Let_def)

lemma resolve_layer_no_panic:
  assumes "complete l"
  shows "\<not> panics (resolve_layer half high name l base opts)"
proof -
  note set = assms [unfolded complete_def]
  show ?thesis
    unfolding resolve_layer_def Let_def
    by (intro no_panic no_panic_counters [OF assms] | simp add: set split del: if_split split: prod.split | intro allI impI)+
qed

section \<open>The parts of a resolved function\<close>

lemma refuse_Inr [simp]: "refuse b e = Inr () \<longleftrightarrow> \<not> b" "refuse b e = Inr u \<longleftrightarrow> \<not> b"
  by (simp_all add: refuse_def)

lemma expect_Inr [simp]: "expect x = Inr v \<longleftrightarrow> x = Some v"
  by (simp add: expect_def split: option.splits)

lemma resolve_layer_parts:
  assumes "resolve_layer half high name l base opts = Inr rf"
  shows "is_fn_name name \<and> rf_name rf = name"
    and "rf_entry rf = map_option (absolutise base) (l_entry l)"
    and "runtime_of (l_runtime l) (rf_entry rf) = Inr (rf_runtime rf)"
    and "check_code opts (rf_entry rf) (rf_runtime rf) (rf_cmd rf) = Inr ()"
    and "image_of (l_image l) (rf_runtime rf) = Inr (rf_image rf)"
    and "mem_of l = Inr (lim_mem (rf_limits rf))"
    and "scratch_of (lim_mem (rf_limits rf)) (l_scratch l) = Inr (lim_scratch (rf_limits rf))"
    and "pids_of l = Inr (lim_pids (rf_limits rf))"
    and "timeout_of opts l = Inr (lim_timeout_ms (rf_limits rf))"
    and "concurrency_of l = Inr (rf_concurrency rf)"
    and "warm_bounds opts (l_min_warm l) (l_max_warm l) = Inr (rf_min_warm rf, rf_max_warm rf)"
    and "connections_of l = Inr (lim_connections (rf_limits rf))"
    and "check_network opts (rf_network rf) l = Inr ()"
    and "check_allow opts (rf_network rf) (rf_allow rf) = Inr ()"
    and "resolve_mounts base [] (or_default [] (l_mounts l)) = Inr (rf_mounts rf)"
    and "check_env (rf_env rf) = Inr ()"
    and "check_secrets (rf_env rf) (rf_secrets rf) = Inr ()"
    and "check_system (rf_system rf) = Inr ()"
    and "l_seccomp l = Some (rf_seccomp rf)"
    and "lim_bandwidth (rf_limits rf) = l_bandwidth l \<and> lim_swap (rf_limits rf) = 0
      \<and> lim_oom_group (rf_limits rf) \<and> lim_fsize (rf_limits rf) = lim_scratch (rf_limits rf)"
    and "rf_pool rf = ro_pool opts \<and> rf_one_shot rf = ro_one_shot opts
      \<and> rf_allow_private_net rf = ro_allow_private_net opts"
    and "l_network l = Some (rf_network rf)"
  using assms unfolding resolve_layer_def Let_def
  by (auto simp only: and_then_Inr_iff refuse_Inr expect_Inr split: prod.splits) auto

section \<open>Normalised paths\<close>

text \<open>
  What the loop of \<open>normalise\<close> keeps: the root of an absolute path stays, at most one \<open>..\<close> is
  left and only where there was nothing to pop, and the rest are names.
\<close>

definition norm_ok :: "bool \<Rightarrow> component list \<Rightarrow> bool" where
  "norm_ok r out \<longleftrightarrow> (\<exists>d ns. out = (if r then [RootDir] else []) @ (if d then [ParentDir] else []) @ map Normal ns
     \<and> list_all (\<lambda>s. component_ok (Normal s)) ns)"

lemma norm_step_ok:
  assumes "norm_ok r out" and "component_ok c"
  shows "norm_ok r (norm_step c out)"
proof -
  obtain d ns where out: "out = (if r then [RootDir] else []) @ (if d then [ParentDir] else []) @ map Normal ns"
    and ns: "list_all (\<lambda>s. component_ok (Normal s)) ns"
    using assms(1) by (auto simp: norm_ok_def)
  show ?thesis
  proof (cases c)
    case (Normal s)
    then have "norm_step c out = (if r then [RootDir] else []) @ (if d then [ParentDir] else []) @ map Normal (ns @ [s])"
      by (simp add: norm_step_def out)
    moreover have "list_all (\<lambda>s. component_ok (Normal s)) (ns @ [s])"
      using ns assms(2) Normal by simp
    ultimately show ?thesis
      unfolding norm_ok_def by blast
  next
    case ParentDir
    show ?thesis
    proof (cases ns rule: rev_cases)
      case Nil
      then have "norm_step c out = (if r then [RootDir] else []) @ (if \<not> d then [ParentDir] else []) @ map Normal []"
        by (simp add: norm_step_def out ParentDir)
      then show ?thesis
        unfolding norm_ok_def by (metis list.pred_inject(1))
    next
      case (snoc ns' s)
      then have "norm_step c out = (if r then [RootDir] else []) @ (if d then [ParentDir] else []) @ map Normal ns'"
        by (simp add: norm_step_def out ParentDir butlast_append)
      then show ?thesis
        using ns snoc unfolding norm_ok_def by (metis list_all_append)
    qed
  qed (use assms(2) in simp_all)
qed

lemma norm_fold_ok: "norm_ok r out \<Longrightarrow> list_all component_ok cs \<Longrightarrow> norm_ok r (fold norm_step cs out)"
  by (induction cs arbitrary: out) (simp_all add: norm_step_ok)

lemma normalise_fold: "norm_ok (is_absolute p) (fold norm_step (components p) [])"
proof -
  have pieces: "list_all component_ok (map component_of (path_segments p))"
    using components_pieces by (auto simp: list_all_iff)
  have "norm_ok True [RootDir]" "norm_ok False []"
    by (rule exI [of _ False] exI [of _ "[]"] | simp add: norm_ok_def)+
  then show ?thesis
    using norm_fold_ok [OF _ pieces] by (simp add: components_def norm_step_def)
qed

lemma norm_ok_components:
  assumes "norm_ok r out"
  shows "components_ok out"
proof -
  obtain d ns where out: "out = (if r then [RootDir] else []) @ (if d then [ParentDir] else []) @ map Normal ns"
    and ns: "list_all (\<lambda>s. component_ok (Normal s)) ns"
    using assms by (auto simp only: norm_ok_def)
  show ?thesis
    using ns by (cases r; cases d; cases ns) (simp_all add: out components_ok_def list.pred_map comp_def)
qed

lemma components_normalise: "components (normalise p) = fold norm_step (components p) []"
  using components_show_path [OF norm_ok_components [OF normalise_fold]] by (simp add: normalise_def)

lemma is_absolute_components: "is_absolute p \<longleftrightarrow> RootDir \<in> set (components p)"
  by (auto simp: components_def component_of_def)

lemma norm_ok_root: "norm_ok r out \<Longrightarrow> RootDir \<in> set out \<longleftrightarrow> r"
  by (auto simp: norm_ok_def)

lemma is_absolute_normalise [simp]: "is_absolute (normalise p) \<longleftrightarrow> is_absolute p"
  using norm_ok_root [OF normalise_fold] by (simp add: is_absolute_components components_normalise)

lemma norm_fold_names:
  assumes "list_all component_ok cs" and "ParentDir \<notin> set cs"
  shows "fold norm_step cs out = out @ cs"
  using assms
proof (induction cs arbitrary: out)
  case (Cons c cs)
  then show ?case
    by (cases c) (simp_all add: norm_step_def)
qed simp

section \<open>The mounts of a resolved function\<close>

lemma resolve_mounts_places:
  assumes "resolve_mounts base seen ms = Inr ms'"
  shows "(\<forall>m \<in> set ms'. is_absolute (m_target m) \<and> components (m_target m) \<notin> set seen
            \<and> \<not> path_eq (m_target m) ''/'' \<and> \<not> list_ex (path_eq (m_target m)) MANAGED_TARGETS)
    \<and> distinct (map (\<lambda>m. components (m_target m)) ms')"
  using assms
proof (induction base seen ms arbitrary: ms' rule: resolve_mounts.induct)
  case (2 base seen m ms)
  obtain rest where rest: "resolve_mounts base (components (normalise (m_target m)) # seen) ms = Inr rest"
    and ms': "ms' = \<lparr>m_source = absolutise base (m_source m), m_target = normalise (m_target m), m_mode = m_mode m\<rparr> # rest"
    and ok: "\<not> is_reserved_mount_target (m_target m)" "is_absolute (m_target m)"
      "components (normalise (m_target m)) \<notin> set seen"
    using 2(2) by (auto simp: Let_def result_simps split: if_splits)
  show ?case
    using "2.IH" [OF ok(1) refl _ _ rest] ok by (auto simp: ms' is_reserved_mount_target_def)
qed simp

lemma path_segments_of_components:
  assumes "is_absolute p" and "is_absolute q"
  shows "path_segments p = path_segments q \<longleftrightarrow> components p = components q"
  using assms by (simp add: components_absolute map_component_of_inj)

lemma prefix_antisym_length: "prefix xs ys \<Longrightarrow> length ys \<le> length xs \<Longrightarrow> xs = ys"
  by (auto simp: prefix_def)

section \<open>A resolved example\<close>

text \<open>A function with a nested pair of mounts, an allowlist, a variable and a secret.\<close>

definition demo_overrides :: "nat layer" where
  "demo_overrides = empty_layer
     \<lparr>l_cmd := Some [''/bin/sh''], l_image := Some ''alpine:3'', l_network := Some Egress,
      l_allow := Some [\<lparr>ar_host = Wildcard ''example.com'', ar_port = Some 443\<rparr>],
      l_mounts := Some [\<lparr>m_source = ''/srv/a/b'', m_target = ''/data/./b'', m_mode = Rw\<rparr>,
                       \<lparr>m_source = ''/srv/a'', m_target = ''/data'', m_mode = Ro\<rparr>],
      l_env := Some [(''LANG'', ''C'')], l_secrets := Some [''API_KEY'']\<rparr>"

definition demo_options :: "bool \<Rightarrow> resolve_options" where
  "demo_options pool = \<lparr>ro_allow_host_net = False, ro_allow_private_net = False, ro_allow_unlimited = False,
     ro_base_dir = Some ''/srv'', ro_one_shot = True, ro_tenant = None, ro_pool = pool\<rparr>"

definition demo_layer :: "nat layer" where
  "demo_layer = merge (defaults 1) demo_overrides"

lemma defaults_sel:
  "l_mem (defaults c) = Some 268435456" "l_pids (defaults c) = Some 64" "l_timeout (defaults c) = Some 30000"
  "l_nofile (defaults c) = Some 1024" "l_connections (defaults c) = Some 256" "l_cpu (defaults c) = Some c"
  "l_concurrency (defaults c) = Some 4" "l_idle_timeout (defaults c) = Some 600000"
  "l_cold_after (defaults c) = Some 3600000"
  by (simp_all add: defaults_def from_secs_def MIB_def)

lemma defaults_sel':
  "l_user (defaults c) = Some ''1000''" "l_workdir (defaults c) = Some ''/app''"
  "l_isolation (defaults c) = Some Ns" "l_seccomp (defaults c) = Some Default" "l_mode (defaults c) = Some Function"
  "l_entry (defaults c) = None" "l_runtime (defaults c) = None" "l_scratch (defaults c) = None"
  "l_min_warm (defaults c) = None" "l_max_warm (defaults c) = None" "l_system (defaults c) = None"
  "l_bandwidth (defaults c) = None"
  by (simp_all add: defaults_def)

lemma demo_overrides_sel:
  "l_cmd demo_overrides = Some [''/bin/sh'']" "l_image demo_overrides = Some ''alpine:3''"
  "l_network demo_overrides = Some Egress" "l_env demo_overrides = Some [(''LANG'', ''C'')]"
  "l_secrets demo_overrides = Some [''API_KEY'']"
  "l_allow demo_overrides = Some [\<lparr>ar_host = Wildcard ''example.com'', ar_port = Some 443\<rparr>]"
  by (simp_all add: demo_overrides_def)

lemma demo_overrides_unset:
  "l_mem demo_overrides = None" "l_pids demo_overrides = None" "l_timeout demo_overrides = None"
  "l_nofile demo_overrides = None" "l_connections demo_overrides = None" "l_cpu demo_overrides = None"
  "l_concurrency demo_overrides = None" "l_idle_timeout demo_overrides = None" "l_cold_after demo_overrides = None"
  by (simp_all add: demo_overrides_def)

lemma demo_overrides_unset':
  "l_user demo_overrides = None" "l_workdir demo_overrides = None" "l_isolation demo_overrides = None"
  "l_seccomp demo_overrides = None" "l_mode demo_overrides = None" "l_entry demo_overrides = None"
  "l_runtime demo_overrides = None" "l_scratch demo_overrides = None" "l_min_warm demo_overrides = None"
  "l_max_warm demo_overrides = None" "l_system demo_overrides = None" "l_bandwidth demo_overrides = None"
  by (simp_all add: demo_overrides_def)

lemma demo_fields:
  "l_entry demo_layer = None" "l_runtime demo_layer = None" "l_cmd demo_layer = Some [''/bin/sh'']"
  "l_image demo_layer = Some ''alpine:3''" "l_scratch demo_layer = None" "l_min_warm demo_layer = None"
  "l_max_warm demo_layer = None" "l_idle_timeout demo_layer = Some 600000"
  "l_cold_after demo_layer = Some 3600000" "l_cpu demo_layer = Some 1" "l_nofile demo_layer = Some 1024"
  "l_network demo_layer = Some Egress" "l_env demo_layer = Some [(''LANG'', ''C'')]"
  "l_secrets demo_layer = Some [''API_KEY'']" "l_system demo_layer = None" "l_mode demo_layer = Some Function"
  "l_workdir demo_layer = Some ''/app''" "l_user demo_layer = Some ''1000''" "l_isolation demo_layer = Some Ns"
  "l_seccomp demo_layer = Some Default" "l_mem demo_layer = Some 268435456" "l_pids demo_layer = Some 64"
  "l_timeout demo_layer = Some 30000" "l_concurrency demo_layer = Some 4" "l_connections demo_layer = Some 256"
  "l_bandwidth demo_layer = None"
  "l_allow demo_layer = Some [\<lparr>ar_host = Wildcard ''example.com'', ar_port = Some 443\<rparr>]"
  by (simp_all add: demo_layer_def defaults_sel defaults_sel' demo_overrides_sel demo_overrides_unset
      demo_overrides_unset')

lemma demo_counters:
  "mem_of demo_layer = Inr 268435456" "scratch_of 268435456 None = Inr 67108864"
  "pids_of demo_layer = Inr 64" "timeout_of (demo_options pool) demo_layer = Inr 30000"
  "concurrency_of demo_layer = Inr 4" "connections_of demo_layer = Inr 256"
  "warm_bounds (demo_options pool) None None = Inr (1, if pool then 4 else 1)"
  by (simp_all add: mem_of_def scratch_of_def pids_of_def timeout_of_def concurrency_of_def
      connections_of_def warm_bounds_def demo_fields demo_options_def expect_def refuse_def MIN_MEM_def
      default_scratch_def DEFAULT_MAX_WARM_def DEFAULT_SCRATCH_def as_millis_def u64_max_def Let_def)

lemma demo_checks:
  "is_fn_name ''job''" "check_code (demo_options pool) None None [''/bin/sh''] = Inr ()"
  "check_network (demo_options pool) Egress demo_layer = Inr ()"
  "check_allow (demo_options pool) Egress [\<lparr>ar_host = Wildcard ''example.com'', ar_port = Some 443\<rparr>] = Inr ()"
  "check_env [(''LANG'', ''C'')] = Inr ()" "check_secrets [(''LANG'', ''C'')] [''API_KEY''] = Inr ()"
  "check_system [] = Inr ()" "is_env_name ''API_KEY''"
proof -
  show "check_allow (demo_options pool) Egress [\<lparr>ar_host = Wildcard ''example.com'', ar_port = Some 443\<rparr>] = Inr ()"
    by (simp add: check_allow_def demo_options_def private_rule_def refuse_def)
  show "is_fn_name ''job''"
    by (simp add: is_fn_name_def is_ascii_alphanumeric_def is_ascii_lowercase_def code_def)
  have names: "is_env_name ''LANG''" "is_env_name ''API_KEY''"
    by code_simp+
  then show "is_env_name ''API_KEY''"
    by simp
  show "check_env [(''LANG'', ''C'')] = Inr ()" "check_secrets [(''LANG'', ''C'')] [''API_KEY''] = Inr ()"
    by (simp_all add: check_env_def names)
qed (simp_all add: check_code_def check_pool_def check_network_def check_system_def refuse_def is_builtin_def demo_options_def
    demo_fields)

lemma demo_mounts:
  "resolve_mounts ''/srv'' [] (or_default [] (l_mounts demo_layer))
     = Inr [\<lparr>m_source = ''/srv/a/b'', m_target = ''/data/b'', m_mode = Rw\<rparr>,
            \<lparr>m_source = ''/srv/a'', m_target = ''/data'', m_mode = Ro\<rparr>]"
proof -
  have "l_mounts demo_layer = l_mounts demo_overrides"
    by (simp add: demo_layer_def demo_overrides_def)
  moreover have "resolve_mounts ''/srv'' []
      [\<lparr>m_source = ''/srv/a/b'', m_target = ''/data/./b'', m_mode = Rw\<rparr>,
       \<lparr>m_source = ''/srv/a'', m_target = ''/data'', m_mode = Ro\<rparr>]
    = Inr [\<lparr>m_source = ''/srv/a/b'', m_target = ''/data/b'', m_mode = Rw\<rparr>,
           \<lparr>m_source = ''/srv/a'', m_target = ''/data'', m_mode = Ro\<rparr>]"
    by code_simp
  ultimately show ?thesis
    by (simp add: demo_overrides_def or_default_def)
qed

lemma demo_resolves:
  "\<exists>rf. resolve_layer (\<lambda>n. n div 2) (\<lambda>n. n * 9 div 10) ''job'' demo_layer ''/srv'' (demo_options pool) = Inr rf
     \<and> rf_mounts rf = [\<lparr>m_source = ''/srv/a/b'', m_target = ''/data/b'', m_mode = Rw\<rparr>,
                      \<lparr>m_source = ''/srv/a'', m_target = ''/data'', m_mode = Ro\<rparr>]"
proof -
  show ?thesis
    unfolding resolve_layer_def Let_def
    by (simp add: refuse_def expect_def or_default_def runtime_of_def image_of_def demo_fields demo_counters
        demo_checks demo_mounts [simplified or_default_def])
qed



section \<open>Every entry point\<close>

text \<open>
  C11. Resolution never panics: whatever the spec, the overrides and the options say, every
  entry point returns a resolved function or one of its refusals; no \<open>expect\<close> of the code can
  fail, since every one of them asks for a field the defaults set and merging keeps set.
\<close>

theorem resolution_never_panics:
  "resolve_fn one_core half high sp fname overrides opts \<noteq> Inl Panic
   \<and> resolve_runtime one_core half high sp name overrides opts \<noteq> Inl Panic
   \<and> resolve_for_serve one_core half high sp name overrides opts \<noteq> Inl Panic
   \<and> resolve_standalone one_core half high cwd name overrides opts \<noteq> Inl Panic"
proof -
  have "\<not> panics (resolve_fn one_core half high sp fname overrides opts)"
    unfolding resolve_fn_def
    by (intro no_panic_bind resolve_layer_no_panic complete_merged)
      (auto simp: panics_def split: option.splits elim!: ok_or.elims)
  moreover have "\<not> panics (resolve_runtime one_core half high sp name overrides opts)"
    unfolding resolve_runtime_def Let_def by (intro resolve_layer_no_panic) simp
  moreover have "\<not> panics (resolve_for_serve one_core half high sp name overrides opts)"
    unfolding resolve_for_serve_def by (intro resolve_layer_no_panic) simp
  moreover have "\<not> panics (resolve_standalone one_core half high cwd name overrides opts)"
    unfolding resolve_standalone_def by (intro resolve_layer_no_panic) simp
  ultimately show ?thesis
    by (simp add: panics_def)
qed

text \<open>Two facts about the warm bounds and the checks on names.\<close>

lemma warm_bounds_ok:
  "warm_bounds opts lo hi = Inr (a, b) \<Longrightarrow> 1 \<le> a \<and> a \<le> b \<and> (ro_pool opts \<or> (a, b) = (1, 1))"
  by (auto simp: warm_bounds_def Let_def split: if_splits option.splits)

lemma check_secrets_ok:
  "check_secrets env ss = Inr () \<Longrightarrow> list_all is_env_name ss \<and> set ss \<inter> set (map fst env) = {}"
  by (induction env ss rule: check_secrets.induct) (auto split: if_splits)

lemma check_env_ok: "check_env env = Inr () \<Longrightarrow> list_all is_env_name (map fst env)"
  by (auto simp: check_env_def find_None_iff list_all_iff split: option.splits)

lemma check_system_ok: "check_system ps = Inr () \<Longrightarrow> list_all validate_package ps"
  by (auto simp: check_system_def find_None_iff list_all_iff split: option.splits)

text \<open>
  Limits are mandatory: in every resolved function memory is at least 8 MiB and the
  scratch file system, the largest file and the swap ceiling stay below it; at least one
  process, one request, one connection and one warm zygote are allowed, the warm bounds are
  in order and a function has exactly one; there is a wall-clock limit unless unlimited runs
  were permitted, and the bandwidth is not zero.
\<close>

theorem resolved_limits:
  assumes "resolve_layer half high name l base opts = Inr rf"
  shows "8 * 1024 * 1024 \<le> lim_mem (rf_limits rf)
    \<and> lim_scratch (rf_limits rf) < lim_mem (rf_limits rf)
    \<and> lim_fsize (rf_limits rf) = lim_scratch (rf_limits rf) \<and> lim_swap (rf_limits rf) = 0
    \<and> 1 \<le> lim_pids (rf_limits rf) \<and> 1 \<le> lim_connections (rf_limits rf) \<and> 1 \<le> rf_concurrency rf
    \<and> 1 \<le> rf_min_warm rf \<and> rf_min_warm rf \<le> rf_max_warm rf
    \<and> (rf_pool rf \<or> (rf_min_warm rf, rf_max_warm rf) = (1, 1))
    \<and> (0 < as_millis (lim_timeout_ms (rf_limits rf)) \<or> ro_allow_unlimited opts)
    \<and> lim_bandwidth (rf_limits rf) \<noteq> Some 0"
proof -
  note parts = resolve_layer_parts [OF assms]
  have "8 * 1024 * 1024 \<le> lim_mem (rf_limits rf)"
    using parts(6) by (auto simp: mem_of_def MIN_MEM_def result_simps)
  moreover have "lim_scratch (rf_limits rf) < lim_mem (rf_limits rf)"
    using parts(7) by (auto simp: scratch_of_def Let_def result_simps)
  moreover have "1 \<le> lim_pids (rf_limits rf)" "1 \<le> rf_concurrency rf"
    using parts(8,10) by (auto simp: pids_of_def concurrency_of_def result_simps)
  moreover have "1 \<le> lim_connections (rf_limits rf) \<and> l_bandwidth l \<noteq> Some 0"
    using parts(12) by (auto simp: connections_of_def result_simps)
  moreover have "0 < as_millis (lim_timeout_ms (rf_limits rf)) \<or> ro_allow_unlimited opts"
    using parts(9) by (auto simp: timeout_of_def result_simps)
  ultimately show ?thesis
    using warm_bounds_ok [OF parts(11)] parts(20,21) by simp
qed

theorem resolved_limits_witness:
  "\<exists>rf. resolve_layer (\<lambda>n. n div 2) (\<lambda>n. n * 9 div 10) ''job'' demo_layer ''/srv'' (demo_options False) = Inr rf
     \<and> lim_scratch (rf_limits rf) < lim_mem (rf_limits rf) \<and> 1 \<le> lim_pids (rf_limits rf)"
  using demo_resolves resolved_limits by blast

text \<open>A name that passes is one safe path component, and a package name cannot be an option.\<close>

lemma fn_name_component:
  assumes "is_fn_name s"
  shows "CHR ''/'' \<notin> set s" and "s \<noteq> ''.''" and "s \<noteq> ''..''" and "component_of s = Normal s"
proof -
  have "\<not> is_ascii_alphanumeric CHR ''/''" "\<not> is_ascii_alphanumeric CHR ''.''"
    by code_simp+
  then show "CHR ''/'' \<notin> set s" "s \<noteq> ''.''" "s \<noteq> ''..''"
    using assms by (auto simp: is_fn_name_def list_all_iff)
  then show "component_of s = Normal s"
    by (simp add: component_of_def)
qed

lemma package_not_option:
  assumes "validate_package p"
  shows "p \<noteq> [] \<and> hd p \<noteq> CHR ''-''"
proof -
  obtain name where name: "2 \<le> length name" "is_ascii_lowercase (hd name) \<or> is_ascii_digit (hd name)"
    and p: "p = name \<or> (\<exists>v. p = name @ CHR ''='' # v)"
  proof (cases "split_once CHR ''='' p")
    case None
    then show ?thesis
      using assms that by (auto simp: validate_package_def)
  next
    case (Some nv)
    then show ?thesis
      using assms that split_once_SomeD [of "CHR ''=''" p "fst nv" "snd nv"]
      by (cases nv) (auto simp: validate_package_def)
  qed
  then have "hd p = hd name" "p \<noteq> []"
    by (cases name; auto)+
  moreover have "\<not> is_ascii_lowercase CHR ''-''" "\<not> is_ascii_digit CHR ''-''"
    by code_simp+
  ultimately show ?thesis
    using name(2) by auto
qed

text \<open>
  C10. What widens the boundary has to be spelled out: a resolved function has the host's
  network only under the flag; an allowlist only under \<open>egress\<close>, and no rule of it names a
  private or link-local address without the flag; a network that needs sockets is never
  combined with the strict profile; a secret is never also a plain variable; the name is one
  ordinary path component; a pool names no code to warm and has either an agent or a command;
  and no package can be taken for an option of the package manager.
\<close>

theorem resolved_secure:
  assumes "resolve_layer half high name l base opts = Inr rf"
  shows "(rf_network rf \<noteq> Host \<or> ro_allow_host_net opts)
    \<and> (rf_allow rf = [] \<or> rf_network rf = Egress)
    \<and> (ro_allow_private_net opts \<or> filter private_rule (rf_allow rf) = [])
    \<and> (rf_seccomp rf \<noteq> Strict \<or> rf_network rf \<in> {NetNone, Host})
    \<and> set (rf_secrets rf) \<inter> set (map fst (rf_env rf)) = {}
    \<and> list_all is_env_name (rf_secrets rf @ map fst (rf_env rf))
    \<and> component_of (rf_name rf) = Normal (rf_name rf) \<and> CHR ''/'' \<notin> set (rf_name rf)
    \<and> (rf_pool rf = False \<or> rf_entry rf = None \<and> ((rf_runtime rf = None) \<noteq> (rf_cmd rf = [])))
    \<and> filter (\<lambda>p. p = [] \<or> hd p = CHR ''-'') (rf_system rf) = []"
proof -
  note parts = resolve_layer_parts [OF assms]
  have net: "rf_network rf \<noteq> Host \<or> ro_allow_host_net opts"
    "\<not> (networked (rf_network rf) \<and> l_seccomp l = Some Strict)"
    using parts(13) by (auto simp: check_network_def result_simps)
  have "rf_seccomp rf \<noteq> Strict \<or> rf_network rf \<in> {NetNone, Host}"
    using net(2) parts(19) by (cases "rf_network rf") (auto simp: networked_def)
  moreover have "(rf_allow rf = [] \<or> rf_network rf = Egress)
      \<and> (ro_allow_private_net opts \<or> filter private_rule (rf_allow rf) = [])"
    using parts(14)
    by (auto simp: check_allow_def result_simps find_None_iff filter_empty_conv split: if_splits option.splits)
  moreover have "rf_pool rf = False \<or> rf_entry rf = None \<and> ((rf_runtime rf = None) \<noteq> (rf_cmd rf = []))"
    using parts(4,21) by (auto simp: check_code_def check_pool_def result_simps split: if_splits)
  moreover have "filter (\<lambda>p. p = [] \<or> hd p = CHR ''-'') (rf_system rf) = []"
    using check_system_ok [OF parts(18)] package_not_option by (auto simp: filter_empty_conv list_all_iff)
  ultimately show ?thesis
    using net(1) check_secrets_ok [OF parts(17)] check_env_ok [OF parts(16)] parts(1) fn_name_component
    by simp
qed

theorem resolved_secure_witness:
  "\<exists>rf. resolve_layer (\<lambda>n. n div 2) (\<lambda>n. n * 9 div 10) ''job'' demo_layer ''/srv'' (demo_options False) = Inr rf
     \<and> component_of (rf_name rf) = Normal (rf_name rf) \<and> list_all is_env_name (rf_secrets rf @ map fst (rf_env rf))"
  using demo_resolves resolved_secure by blast

section \<open>Where the system call profile came from\<close>

text \<open>What each answer claims: the profile that layer carries, or the built-in one.\<close>

definition claimed_profile :: "'c spec \<Rightarrow> 'c layer \<Rightarrow> 'c layer \<Rightarrow> seccomp_source \<Rightarrow> seccomp_profile option" where
  "claimed_profile sp table overrides src =
     (case src of
        FromOverride \<Rightarrow> l_seccomp overrides
      | FromFunction \<Rightarrow> l_seccomp table
      | FromRuntime \<Rightarrow> l_seccomp table
      | FromDefaults \<Rightarrow> l_seccomp (sp_defaults sp)
      | FromPoolDefault \<Rightarrow> Some Strict
      | FromBuiltIn \<Rightarrow> Some Default)"

lemma l_seccomp_defaults [simp]: "l_seccomp (defaults c) = Some Default"
  by (simp add: defaults_def)

text \<open>The example as a spec with the same table for a function and for a pool.\<close>

definition demo_spec :: "nat spec" where
  "demo_spec = \<lparr>sp_defaults = empty_layer, sp_functions = [(''job'', demo_overrides)],
     sp_runtimes = [(''job'', demo_overrides)], sp_source = None\<rparr>"

definition demo_choice :: "nat layer" where
  "demo_choice = empty_layer \<lparr>l_seccomp := Some Default\<rparr>"

lemma demo_merged: "merged_layer 1 demo_spec demo_overrides demo_choice = demo_layer"
proof -
  have "merge demo_layer demo_choice = demo_layer"
    by (rule layer.equality) (simp_all add: demo_choice_def demo_fields)
  then show ?thesis
    by (simp add: merged_layer_def demo_spec_def demo_layer_def)
qed

lemma demo_spec_resolves:
  "\<exists>f p. resolve_fn 1 (\<lambda>n. n div 2) (\<lambda>n. n * 9 div 10) demo_spec (Some ''job'') demo_choice (demo_options False) = Inr f
     \<and> resolve_runtime 1 (\<lambda>n. n div 2) (\<lambda>n. n * 9 div 10) demo_spec ''job'' demo_choice (demo_options False) = Inr p"
proof -
  have base: "base_dir_for demo_spec (demo_options False) = ''/srv''"
    by (simp add: base_dir_for_def demo_options_def)
  have pool: "(demo_options False)\<lparr>ro_pool := True\<rparr> = demo_options True"
    by (simp add: demo_options_def)
  have table: "map_of (sp_functions demo_spec) ''job'' = Some demo_overrides"
    "table_of (sp_runtimes demo_spec) ''job'' = demo_overrides" "l_seccomp demo_choice = Some Default"
    by (simp_all add: table_of_def demo_spec_def or_default_def demo_choice_def)
  show ?thesis
    using demo_resolves [of False] demo_resolves [of True]
    by (auto simp: resolve_fn_def resolve_runtime_def Let_def table demo_merged [unfolded One_nat_def] base pool or_default_def)
qed

text \<open>
  The reported source is the true one: for a function and for a pool the profile of the
  resolved function is the one set in the layer that \<open>seccomp_source\<close> or
  \<open>seccomp_source_runtime\<close> names, and a pool nobody chose a profile for is strict.
\<close>

theorem seccomp_source_true:
  assumes "resolve_fn one_core half high sp (Some n) overrides opts = Inr f"
    and "resolve_runtime one_core half high sp n overrides opts = Inr p"
  shows "Some (rf_seccomp f) = claimed_profile sp (table_of (sp_functions sp) n) overrides
           (seccomp_source_fn sp (Some n) overrides)
    \<and> Some (rf_seccomp p) = claimed_profile sp (table_of (sp_runtimes sp) n) overrides
           (seccomp_source_runtime sp n overrides)"
proof
  obtain t where t: "map_of (sp_functions sp) n = Some t"
    and f: "resolve_layer half high n (merged_layer one_core sp t overrides) (base_dir_for sp opts) opts = Inr f"
    using assms(1) by (auto simp: resolve_fn_def result_simps or_default_def)
  show "Some (rf_seccomp f) = claimed_profile sp (table_of (sp_functions sp) n) overrides
      (seccomp_source_fn sp (Some n) overrides)"
    using resolve_layer_parts(19) [OF f] t
    by (auto simp: claimed_profile_def seccomp_source_fn_def merged_layer_def table_of_def or_default_def pick_def
        split: option.splits)
  let ?t = "table_of (sp_runtimes sp) n"
  note parts = resolve_layer_parts(19) [OF assms(2) [unfolded resolve_runtime_def Let_def]]
  have "(case map_of (sp_runtimes sp) n of Some r \<Rightarrow> l_seccomp r \<noteq> None | None \<Rightarrow> False) \<longleftrightarrow> l_seccomp ?t \<noteq> None"
    by (simp add: table_of_def or_default_def split: option.splits)
  then show "Some (rf_seccomp p) = claimed_profile sp ?t overrides (seccomp_source_runtime sp n overrides)"
    using parts
    by (auto simp: claimed_profile_def seccomp_source_runtime_def merged_layer_def pick_def
        split: option.splits if_splits)
qed

theorem seccomp_source_true_witness:
  "\<exists>f p. resolve_fn 1 (\<lambda>n. n div 2) (\<lambda>n. n * 9 div 10) demo_spec (Some ''job'') demo_choice (demo_options False) = Inr f
     \<and> resolve_runtime 1 (\<lambda>n. n div 2) (\<lambda>n. n * 9 div 10) demo_spec ''job'' demo_choice (demo_options False) = Inr p
     \<and> Some (rf_seccomp f) = claimed_profile demo_spec demo_overrides demo_choice FromOverride
     \<and> Some (rf_seccomp p) = claimed_profile demo_spec demo_overrides demo_choice FromOverride"
proof -
  have table: "table_of (sp_functions demo_spec) ''job'' = demo_overrides"
    "table_of (sp_runtimes demo_spec) ''job'' = demo_overrides"
    by (simp_all add: table_of_def demo_spec_def or_default_def)
  have src: "seccomp_source_fn demo_spec (Some ''job'') demo_choice = FromOverride"
    "seccomp_source_runtime demo_spec ''job'' demo_choice = FromOverride"
    by (simp_all add: seccomp_source_fn_def seccomp_source_runtime_def demo_choice_def)
  obtain f p where
    "resolve_fn 1 (\<lambda>n. n div 2) (\<lambda>n. n * 9 div 10) demo_spec (Some ''job'') demo_choice (demo_options False) = Inr f"
    "resolve_runtime 1 (\<lambda>n. n div 2) (\<lambda>n. n * 9 div 10) demo_spec ''job'' demo_choice (demo_options False) = Inr p"
    using demo_spec_resolves by blast
  then show ?thesis
    using seccomp_source_true [of 1 "\<lambda>n. n div 2" "\<lambda>n. n * 9 div 10" demo_spec "''job''" demo_choice
        "demo_options False" f p] unfolding table src by blast
qed

section \<open>A reserved place under another name\<close>

text \<open>
  A target that climbs above the root is not recognised: \<open>/../proc\<close>, which is \<open>/proc\<close>
  for whoever looks it up, passes the check on reserved targets and stays as it is, and joined
  to the root being assembled it names a directory beside that root.
\<close>

theorem reserved_target_missed:
  "is_reserved_mount_target ''/proc/../proc'' \<and> \<not> is_reserved_mount_target ''/../proc''
   \<and> resolve_mounts base [] [\<lparr>m_source = ''/x'', m_target = ''/../proc'', m_mode = Ro\<rparr>]
       = Inr [\<lparr>m_source = ''/x'', m_target = ''/../proc'', m_mode = Ro\<rparr>]
   \<and> components (inside ''/new'' ''/../proc'') = [RootDir, Normal ''new'', ParentDir, Normal ''proc'']
   \<and> normalise ''../../shared/x'' = ''shared/x''"
proof -
  have "is_reserved_mount_target ''/proc/../proc''" and miss: "\<not> is_reserved_mount_target ''/../proc''"
    and target: "normalise ''/../proc'' = ''/../proc''" "is_absolute ''/../proc''" "is_absolute ''/x''"
    and "components (inside ''/new'' ''/../proc'') = [RootDir, Normal ''new'', ParentDir, Normal ''proc'']"
    and "normalise ''../../shared/x'' = ''shared/x''"
    by code_simp+
  then show ?thesis
    by (simp add: absolutise_def)
qed

end
