(* ===== verification/Zygo_Cgroup_Laws.thy ===== *)
theory Zygo_Cgroup_Laws
  imports Zygo_Cgroup Zygo_Resolved
begin

text \<open>
  What the cgroup hierarchy promises: no name leaves the subtree it belongs to, a function is
  created with its limits or not at all, a request is bounded by exactly its memory, and the
  walks over the tree end and find every process.
\<close>

section \<open>Names\<close>

lemma safe_char_facts: "\<not> safe_char CHR ''/''" "safe_char CHR ''_''" "safe_char CHR ''.''"
  by code_simp+

lemma sanitise_chars: "list_all safe_char (sanitise name)" and sanitise_nonempty: "sanitise name \<noteq> []"
  by (auto simp: sanitise_def list_all_iff safe_char_facts Let_def)

lemma sanitise_not_dots: "\<not> list_all (\<lambda>c. c = CHR ''.'') (sanitise name)"
  by (auto simp: sanitise_def list_all_iff Let_def)

lemma sanitise_component:
  "CHR ''/'' \<notin> set (sanitise name)" "sanitise name \<noteq> ''.''" "sanitise name \<noteq> ''..''"
  "component_of (sanitise name) = Normal (sanitise name)"
proof -
  show "CHR ''/'' \<notin> set (sanitise name)"
    using sanitise_chars [of name] safe_char_facts(1) by (auto simp: list_all_iff)
  show "sanitise name \<noteq> ''.''" and dots: "sanitise name \<noteq> ''..''"
    using sanitise_not_dots [of name] by auto
  then show "component_of (sanitise name) = Normal (sanitise name)"
    by (simp add: component_of_def)
qed

lemma sanitise_id:
  assumes "list_all safe_char s" and "s \<noteq> []" and "hd s \<noteq> CHR ''.''"
  shows "sanitise s = s"
proof -
  have "map (\<lambda>c. if safe_char c then c else CHR ''_'') s = s"
    using assms(1) by (simp add: list_all_iff map_idI)
  moreover have "\<not> list_all (\<lambda>c. c = CHR ''.'') s"
    using assms(2,3) by (cases s) auto
  ultimately show ?thesis
    using assms(2) by (simp add: sanitise_def Let_def)
qed

lemma sanitise_fn_name:
  assumes "is_fn_name s"
  shows "sanitise s = s"
proof (rule sanitise_id)
  have "\<not> is_ascii_alphanumeric CHR ''.''"
    by code_simp
  then show "hd s \<noteq> CHR ''.''"
    using assms by (auto simp: is_fn_name_def)
qed (use assms in \<open>auto simp: is_fn_name_def list_all_iff safe_char_def\<close>)

lemma tenants_components:
  assumes "is_absolute root"
  shows "components (tenants_dir root) = components root @ [Normal ''tenants'']" "is_absolute (tenants_dir root)"
  using components_join_name [OF assms, of "''tenants''"] by (simp_all add: tenants_dir_def component_of_def)

lemma function_components:
  assumes "is_absolute root"
  shows "components (function_dir root tenant name)
      = components root @ [Normal ''tenants'', Normal (sanitise tenant), Normal (sanitise name)]"
    and "is_absolute (function_dir root tenant name)"
proof -
  note t = components_join_name [OF tenants_components(2) [OF assms] sanitise_component(1) sanitise_nonempty
      sanitise_component(2), of tenant, folded tenant_dir_def]
  note f = components_join_name [OF t(2) sanitise_component(1) sanitise_nonempty sanitise_component(2), of name,
      folded function_dir_def]
  show "components (function_dir root tenant name)
      = components root @ [Normal ''tenants'', Normal (sanitise tenant), Normal (sanitise name)]"
    by (simp add: f(1) t(1) tenants_components(1) [OF assms] sanitise_component(4))
  show "is_absolute (function_dir root tenant name)"
    by (rule f(2))
qed

lemma show_nat_no_slash: "CHR ''/'' \<notin> set (show_nat n)"
proof -
  have "\<not> is_ascii_digit CHR ''/''"
    by code_simp
  then show ?thesis
    using show_nat_digits by blast
qed

lemma generation_components:
  assumes "is_absolute root" and "CHR ''/'' \<notin> set token"
  shows "components (fst (generation_dir token n root tenant name))
      = components (function_dir root tenant name) @ [Normal (''g'' @ token @ ''-'' @ show_nat n)]"
    and "is_absolute (fst (generation_dir token n root tenant name))"
  using components_join_name [OF function_components(2) [OF assms(1)], of "''g'' @ token @ ''-'' @ show_nat n"]
    assms(2) show_nat_no_slash by (auto simp: generation_dir_def component_of_def)

lemma request_components:
  assumes "is_absolute generation"
  shows "components (request_dir generation rid) = components generation @ [Normal (''req-'' @ sanitise rid)]"
    and "is_absolute (request_dir generation rid)"
  using components_join_name [OF assms, of "''req-'' @ sanitise rid"] sanitise_component(1) [of rid]
  by (auto simp: request_dir_def component_of_def)

text \<open>
  No name is a way out: whatever the tenant, the function and the request are called,
  the cgroup of a request lies exactly four ordinary components below \<open>tenants\<close>, and the
  names a spec and the tenant store accept are used as they are, so two different functions
  never share a cgroup.
\<close>

theorem cgroup_paths_confined:
  assumes "is_absolute root" and "CHR ''/'' \<notin> set token"
  shows "components (request_dir (fst (generation_dir token n root tenant name)) rid)
      = components root @ [Normal ''tenants'', Normal (sanitise tenant), Normal (sanitise name),
          Normal (''g'' @ token @ ''-'' @ show_nat n), Normal (''req-'' @ sanitise rid)]
    \<and> path_under (tenants_dir root) (request_dir (fst (generation_dir token n root tenant name)) rid)
    \<and> (\<forall>tenant' name'. is_fn_name tenant \<and> is_fn_name tenant' \<and> is_fn_name name \<and> is_fn_name name'
          \<and> path_eq (function_dir root tenant name) (function_dir root tenant' name')
        \<longrightarrow> tenant = tenant' \<and> name = name')"
  using request_components(1) [OF generation_components(2) [OF assms]] generation_components(1) [OF assms]
    function_components(1) [OF assms(1)] tenants_components(1) [OF assms(1)] sanitise_fn_name
  by (auto simp: path_under_def path_eq_def)

theorem cgroup_paths_confined_witness:
  "components (request_dir (fst (generation_dir ''42-ab'' 1 ''/z'' ''../acme'' ''a/b'')) ''..'')
     = [RootDir, Normal ''z'', Normal ''tenants'', Normal ''.._acme'', Normal ''a_b'',
        Normal ''g42-ab-1'', Normal ''req-__'']"
proof -
  have "is_absolute ''/z''" and "CHR ''/'' \<notin> set ''42-ab''"
    by (simp_all add: is_absolute_def)
  note conj = cgroup_paths_confined [OF this, THEN conjunct1, of 1 "''../acme''" "''a/b''" "''..''"]
  have "sanitise ''../acme'' = ''.._acme''" "sanitise ''a/b'' = ''a_b''" "sanitise ''..'' = ''__''"
    "components ''/z'' = [RootDir, Normal ''z'']" "show_nat 1 = ''1''"
    by code_simp+
  then show ?thesis
    unfolding conj by simp
qed

section \<open>Limits in force\<close>

text \<open>
  What is relied on of cgroupfs: \<open>held\<close> is the value the kernel last accepted for each control
  file. An accepted write puts its value there and nowhere else, a refused one and the making
  of directories change no value, and writing makes no file disappear.
\<close>

definition fs_contract :: "'s cgroupfs \<Rightarrow> ('s \<Rightarrow> component list \<Rightarrow> string option) \<Rightarrow> bool" where
  "fs_contract k held \<longleftrightarrow>
     (\<forall>p v s r s'. cf_write k p v s = (r, s') \<longrightarrow>
        held s' = (if is_ok r then (held s)(components p \<mapsto> v) else held s)
        \<and> (\<forall>q. cf_exists k q s \<longrightarrow> cf_exists k q s'))
     \<and> (\<forall>d s r s'. cf_create_dir_all k d s = (r, s') \<longrightarrow> held s' = held s)"

definition files_of :: "('s \<Rightarrow> component list \<Rightarrow> string option) \<Rightarrow> 's \<Rightarrow> string \<Rightarrow> cgroup_files" where
  "files_of held s dir = (\<lambda>f. held s (components dir @ [Normal f]))"

lemma write_file_held:
  assumes "fs_contract k held" and "write_file k p v s = (Inr u, s')"
  shows "held s' = (held s)(components p \<mapsto> v)" and "cf_exists k q s \<Longrightarrow> cf_exists k q s'"
  using assms unfolding fs_contract_def write_file_def
  by (auto split: prod.splits sum.splits simp: result_simps)

lemma create_cgroup_held: "fs_contract k held \<Longrightarrow> create_cgroup k d s = (r, s') \<Longrightarrow> held s' = held s"
  unfolding fs_contract_def create_cgroup_def
  by (auto split: prod.splits sum.splits io_error.splits)

lemma ignored_write_touches:
  assumes "fs_contract k held" and "ignoring (cf_write k p v) s = (r, s')"
  shows "touches held (\<lambda>q. q = components p) s s'"
  using assms unfolding fs_contract_def ignoring_def touches_def
  by (cases "cf_write k p v s") (auto split: if_splits)

lemma enable_controllers_touches:
  assumes "fs_contract k held" and "is_absolute d" and "enable_controllers k d cs s = (r, s')"
  shows "touches held (\<lambda>q. last q = Normal ''cgroup.subtree_control'') s s'"
proof -
  have ctl: "components (path_join d ''cgroup.subtree_control'') = components d @ [Normal ''cgroup.subtree_control'']"
    using components_file [OF assms(2), of "''cgroup.subtree_control''"] by (simp add: plain_def)
  have "touches held (\<lambda>q. last q = Normal ''cgroup.subtree_control'') s s'"
    if "each (\<lambda>c. if c \<in> set enabled then return_ok ()
                   else if c \<in> set have then ignoring (cf_write k (path_join d ''cgroup.subtree_control'') (''+'' @ c))
                   else return_ok ()) cs s = (r, s')" for enabled "have" s and r :: "cgroup_error + unit"
    using that
  proof (induction cs arbitrary: s)
    case (Cons c cs)
    obtain r1 :: "cgroup_error + unit" and s1 where s1: "(if c \<in> set enabled then return_ok ()
        else if c \<in> set have then ignoring (cf_write k (path_join d ''cgroup.subtree_control'') (''+'' @ c))
        else return_ok ()) s = (r1, s1)"
      by fastforce
    then have "touches held (\<lambda>q. last q = Normal ''cgroup.subtree_control'') s s1"
      using ignored_write_touches [OF assms(1)] touches_mono
      by (fastforce simp: ctl return_ok_def split: if_splits)
    moreover have "touches held (\<lambda>q. last q = Normal ''cgroup.subtree_control'') s1 s'"
    proof (cases r1)
      case (Inl e)
      then have "s' = s1"
        using Cons.prems s1 by (simp add: and_do_def)
      then show ?thesis
        by simp
    next
      case (Inr u)
      then show ?thesis
        using Cons.prems s1 by (intro Cons.IH) (simp add: and_do_def)
    qed
    ultimately show ?case
      by (rule touches_trans)
  qed simp
  then show ?thesis
    using assms(3) by (auto simp: enable_controllers_def Let_def)
qed

lemma apply_writes_held:
  assumes "fs_contract k held" and "is_absolute d" and "list_all (\<lambda>w. plain (cw_file w)) ws"
    and "apply_writes k d ws s = (Inr u, s')"
  shows "files_of held s' d = after_writes ws (files_of held s d)
    \<and> touches held (\<lambda>q. butlast q = components d) s s' \<and> (\<forall>q. cf_exists k q s \<longrightarrow> cf_exists k q s')"
  using assms(3,4)
proof (induction ws arbitrary: s)
  case (Cons w ws)
  obtain s1 where s1: "write_file k (path_join d (cw_file w)) (cw_value w) s = (Inr (), s1)"
    and rest: "apply_writes k d ws s1 = (Inr u, s')"
    using Cons.prems(2) by (auto simp: apply_writes_def result_simps)
  have h: "held s1 = (held s)(components d @ [Normal (cw_file w)] \<mapsto> cw_value w)"
    using write_file_held(1) [OF assms(1) s1] components_file [OF assms(2)] Cons.prems(1) by simp
  have "files_of held s1 d = (files_of held s d)(cw_file w \<mapsto> cw_value w)"
    by (auto simp: files_of_def h)
  moreover have "touches held (\<lambda>q. butlast q = components d) s s1"
    by (auto simp: touches_def h)
  moreover have tail: "files_of held s' d = after_writes ws (files_of held s1 d)"
    "touches held (\<lambda>q. butlast q = components d) s1 s'" "\<forall>q. cf_exists k q s1 \<longrightarrow> cf_exists k q s'"
    using Cons.IH [OF _ rest] Cons.prems(1) by simp_all
  ultimately have "files_of held s' d = after_writes (w # ws) (files_of held s d)"
    "touches held (\<lambda>q. butlast q = components d) s s'"
    using touches_trans [OF _ tail(2)] by simp_all
  then show ?case
    using tail(3) write_file_held(2) [OF assms(1) s1] by blast
qed (auto simp: apply_writes_def)

lemma after_writes_cong: "files f = files' f \<Longrightarrow> after_writes ws files f = after_writes ws files' f"
proof (induction ws arbitrary: files files')
  case (Cons w ws)
  let ?g = "files(cw_file w \<mapsto> cw_value w)" and ?g' = "files'(cw_file w \<mapsto> cw_value w)"
  have "?g f = ?g' f"
    using Cons.prems by simp
  then have "after_writes ws ?g f = after_writes ws ?g' f"
    by (rule Cons.IH [of ?g ?g'])
  then show ?case
    unfolding after_writes_simps .
qed simp

lemma writes_plain:
  "list_all (\<lambda>w. plain (cw_file w)) (function_writes cm l)"
  "list_all (\<lambda>w. plain (cw_file w)) (leaf_writes l)"
  by (simp_all add: function_writes_def shared_writes_def leaf_writes_eq plain_def)

lemma files_untouched:
  "touches held P s s' \<Longrightarrow> \<not> P (components d @ [Normal f]) \<Longrightarrow> files_of held s' d f = files_of held s d f"
  by (simp add: touches_def files_of_def)

text \<open>Creating a function: what was there, then its writes.\<close>

lemma create_function_held:
  assumes "fs_contract k held" and "is_absolute root"
    and "create_function k cm root tenant name l s = (Inr dir, s')"
  shows "dir = function_dir root tenant name"
    and "f \<noteq> ''cgroup.subtree_control'' \<Longrightarrow>
      files_of held s' dir f = after_writes (function_writes cm l) (files_of held s dir) f"
    and "f \<in> set REQUIRED_LIMIT_FILES \<Longrightarrow> cf_exists k (path_join dir f) s'"
    and "touches held (\<lambda>q. last q = Normal ''cgroup.subtree_control'' \<or> butlast q = components dir) s s'"
proof -
  let ?C = "\<lambda>q. last q = Normal ''cgroup.subtree_control''"
  let ?d = "function_dir root tenant name"
  have tenant: "is_absolute (tenant_dir root tenant)"
    using components_join_name(2) [OF tenants_components(2) [OF assms(2)] sanitise_component(1) sanitise_nonempty
        sanitise_component(2)] by (simp add: tenant_dir_def)
  note abs = assms(2) tenants_components(2) [OF assms(2)] tenant function_components(2) [OF assms(2)]
  obtain s1 s2 s3 s4 s5 s6 s7 where steps:
    "create_cgroup k (tenants_dir root) s = (Inr (), s1)"
    "enable_controllers k root CONTROLLERS s1 = (Inr (), s2)"
    "enable_controllers k (tenants_dir root) CONTROLLERS s2 = (Inr (), s3)"
    "create_cgroup k (tenant_dir root tenant) s3 = (Inr (), s4)"
    "enable_controllers k (tenant_dir root tenant) CONTROLLERS s4 = (Inr (), s5)"
    "create_cgroup k ?d s5 = (Inr (), s6)"
    "enable_controllers k ?d CONTROLLERS s6 = (Inr (), s7)"
    "missing_limit_files k ?d s7 = []"
    "apply_writes k ?d (function_writes cm l) s7 = (Inr (), s')" "dir = ?d"
    using assms(3) by (auto simp: create_function_def Let_def result_simps split: if_splits)
  have created: "held s1 = held s" "held s4 = held s3" "held s6 = held s5"
    using create_cgroup_held [OF assms(1)] steps(1,4,6) by metis+
  note enabled = enable_controllers_touches [OF assms(1) abs(1) steps(2)]
    enable_controllers_touches [OF assms(1) abs(2) steps(3)] enable_controllers_touches [OF assms(1) abs(3) steps(5)]
    enable_controllers_touches [OF assms(1) abs(4) steps(7)]
  have before: "touches held ?C s s7"
    using enabled created by (simp add: touches_def)
  note writes = apply_writes_held [OF assms(1) abs(4) writes_plain(1) steps(9)]
  show "dir = ?d"
    by (rule steps(10))
  show "touches held (\<lambda>q. ?C q \<or> butlast q = components dir) s s'"
    using before writes by (simp add: touches_def steps(10))
  show "files_of held s' dir f = after_writes (function_writes cm l) (files_of held s dir) f"
    if "f \<noteq> ''cgroup.subtree_control''"
    using writes files_untouched [OF before, of ?d f] that after_writes_cong [of "files_of held s7 ?d" f]
    by (simp add: steps(10))
  show "cf_exists k (path_join dir f) s'" if "f \<in> set REQUIRED_LIMIT_FILES"
    using steps(8) writes that by (auto simp: missing_limit_files_def filter_empty_conv steps(10))
qed

lemma create_leaf_held:
  assumes "fs_contract k held" and "is_absolute d"
    and "and_do (create_cgroup k d) (\<lambda>_. and_do (apply_writes k d (leaf_writes l)) (\<lambda>_. return_ok x)) s = (Inr y, s')"
  shows "y = x" and "files_of held s' d = after_writes (leaf_writes l) (files_of held s d)"
    and "touches held (\<lambda>q. butlast q = components d) s s'"
proof -
  obtain s1 where "create_cgroup k d s = (Inr (), s1)" "apply_writes k d (leaf_writes l) s1 = (Inr (), s')" "y = x"
    using assms(3) by (auto simp: result_simps)
  with create_cgroup_held [OF assms(1)] apply_writes_held [OF assms(1,2) writes_plain(2)]
  have "held s1 = held s" "y = x" "files_of held s' d = after_writes (leaf_writes l) (files_of held s1 d)"
    "touches held (\<lambda>q. butlast q = components d) s1 s'"
    by blast+
  then show "y = x" "files_of held s' d = after_writes (leaf_writes l) (files_of held s d)"
    "touches held (\<lambda>q. butlast q = components d) s s'"
    by (simp_all add: files_of_def touches_def)
qed

lemma create_generation_held:
  assumes "fs_contract k held" and "is_absolute root" and "CHR ''/'' \<notin> set token"
    and "create_generation k token n root tenant name l s = (Inr g, s')"
  shows "g = fst (generation_dir token n root tenant name)"
    and "touches held (\<lambda>q. last q = Normal ''cgroup.subtree_control'' \<or> butlast q = components (zygote_dir g)) s s'"
    and "f \<noteq> ''cgroup.subtree_control'' \<Longrightarrow>
      files_of held s' (zygote_dir g) f = after_writes (leaf_writes l) (files_of held s (zygote_dir g)) f"
proof -
  let ?g = "fst (generation_dir token n root tenant name)"
  note abs = generation_components(2) [OF assms(2,3)]
  have z: "is_absolute (zygote_dir ?g)"
    using components_join_name(2) [OF abs, of "''zygote''"] by (simp add: zygote_dir_def)
  obtain s1 s2 where steps: "create_cgroup k ?g s = (Inr (), s1)" "enable_controllers k ?g CONTROLLERS s1 = (Inr (), s2)"
    "and_do (create_cgroup k (zygote_dir ?g))
       (\<lambda>_. and_do (apply_writes k (zygote_dir ?g) (leaf_writes l)) (\<lambda>_. return_ok ?g)) s2 = (Inr g, s')"
    using assms(4) by (auto simp: create_generation_def Let_def and_do_Inr)
  note leaf = create_leaf_held [OF assms(1) z steps(3)]
  have before: "touches held (\<lambda>q. last q = Normal ''cgroup.subtree_control'') s s2"
    using enable_controllers_touches [OF assms(1) abs steps(2)] create_cgroup_held [OF assms(1) steps(1)]
    by (simp add: touches_def)
  show g: "g = ?g"
    by (rule leaf(1))
  show "touches held (\<lambda>q. last q = Normal ''cgroup.subtree_control'' \<or> butlast q = components (zygote_dir g)) s s'"
    using before leaf(3) by (simp add: touches_def g)
  show "files_of held s' (zygote_dir g) f = after_writes (leaf_writes l) (files_of held s (zygote_dir g)) f"
    if "f \<noteq> ''cgroup.subtree_control''"
    using leaf(2) files_untouched [OF before, of "zygote_dir g" f] that
      after_writes_cong [of "files_of held s2 (zygote_dir g)" f] by (simp add: g)
qed

text \<open>The smallest of the ceilings that are set.\<close>

lemma memory_ceiling_Min:
  "memory_ceiling ds =
     (let M = {m. \<exists>d \<in> set ds. memory_max d = Some m} in if M = {} then None else Some (Min M))"
proof -
  have M: "{m. \<exists>d \<in> set ds. memory_max d = Some m} = set (List.map_filter memory_max ds)"
    by (induction ds) (auto simp: List.map_filter_def)
  show ?thesis
    unfolding M memory_ceiling_def Let_def
    by (cases "List.map_filter memory_max ds") (simp_all add: Min.set_eq_fold [symmetric])
qed

lemma memory_ceiling_capped:
  assumes "memory_max d = Some m"
    and "{x. \<exists>d \<in> set ds. memory_max d = Some x} = {x. \<exists>d \<in> D. memory_max (f d) = Some x}"
  shows "memory_ceiling (d # ds) = Some (Min (insert m {x. \<exists>d \<in> D. memory_max (f d) = Some x}))"
proof -
  have "{x. \<exists>d \<in> set (d # ds). memory_max d = Some x} = insert m {x. \<exists>d \<in> set ds. memory_max d = Some x}"
    using assms(1) by auto
  then show ?thesis
    using assms(2) by (simp add: memory_ceiling_Min)
qed

text \<open>
  C12. No limits, no sandbox: once the function, a generation and a request have been
  created with success, the mandatory limit files exist, the function holds its process and
  CPU limits, and on the whole way up from the request, and from the zygote, through the function's
  cgroup to any cgroups above it (the tenant's, \<open>tenants\<close>, the root and those it lies in), the
  smallest memory ceiling is the memory it was given, or a smaller one that a cgroup
  above the function, or the generation's own, already held before. What the cgroups of
  the function, the zygote and the request held before does not matter, and none of
  the steps changes a ceiling elsewhere; a request may be given less than the function.
\<close>

theorem request_bounded:
  assumes "fs_contract k held" and "is_absolute root" and "CHR ''/'' \<notin> set token"
    and "lim_mem l \<le> u64_max" and "lim_mem l' \<le> u64_max"
    and "create_function k cm root tenant name l s = (Inr fdir, s1)"
    and "create_generation k token n root tenant name l s1 = (Inr gdir, s2)"
    and "create_request k gdir rid l' s2 = (Inr rdir, s3)"
    and "\<forall>d \<in> set outer. \<exists>rest. rest \<noteq> [] \<and> components fdir = components d @ rest"
  shows "memory_ceiling (map (files_of held s3) ([rdir, gdir, fdir] @ outer))
        = Some (Min (insert (lim_mem l') {m. \<exists>d \<in> set (gdir # outer). memory_max (files_of held s d) = Some m}))
    \<and> memory_ceiling (map (files_of held s3) ([zygote_dir gdir, gdir, fdir] @ outer))
        = Some (Min (insert (lim_mem l) {m. \<exists>d \<in> set (gdir # outer). memory_max (files_of held s d) = Some m}))
    \<and> files_of held s3 fdir ''pids.max'' = Some (show_nat (lim_pids l))
    \<and> files_of held s3 fdir ''cpu.max'' = Some (cm (lim_cpu l))
    \<and> filter (\<lambda>f. \<not> cf_exists k (path_join fdir f) s1) REQUIRED_LIMIT_FILES = []"
proof -
  note f = create_function_held [OF assms(1,2,6)]
  note g = create_generation_held [OF assms(1,2,3,7)]
  have gabs: "is_absolute gdir"
    using generation_components(2) [OF assms(2,3)] g(1) by simp
  note rdir = request_components [OF gabs, of rid]
  have "create_request k gdir rid l' s2
      = and_do (create_cgroup k (request_dir gdir rid)) (\<lambda>_. and_do (apply_writes k (request_dir gdir rid) (leaf_writes l'))
          (\<lambda>_. return_ok (request_dir gdir rid))) s2"
    by (simp add: create_request_def Let_def)
  note r = create_leaf_held [OF assms(1) rdir(2) this [symmetric, THEN trans, OF assms(8)]]
  have dirs: "components gdir = components fdir @ [Normal (''g'' @ token @ ''-'' @ show_nat n)]"
    "components (zygote_dir gdir) = components gdir @ [Normal ''zygote'']"
    "components rdir = components gdir @ [Normal (''req-'' @ sanitise rid)]"
    using generation_components(1) [OF assms(2,3), of n tenant name] f(1) g(1) rdir(1) r(1)
      components_join_name(1) [OF gabs, of "''zygote''"] by (simp_all add: zygote_dir_def component_of_def)
  have fkeep: "files_of held s3 fdir h = files_of held s1 fdir h" if "h \<noteq> ''cgroup.subtree_control''" for h
    using files_untouched [OF g(2), of fdir h] files_untouched [OF r(3), of fdir h] that dirs r(1) by auto
  have above: "files_of held s3 d ''memory.max'' = files_of held s d ''memory.max''"
    if "d = gdir \<or> (\<exists>rest. rest \<noteq> [] \<and> components fdir = components d @ rest)" for d
    using files_untouched [OF f(4), of d "''memory.max''"] files_untouched [OF g(2), of d "''memory.max''"]
      files_untouched [OF r(3), of d "''memory.max''"] that dirs r(1) by (auto simp: butlast_append)
  have keep: "memory_max (files_of held s3 d) = memory_max (files_of held s d)" if "d \<in> set (gdir # outer)" for d
    using above [of d] assms(9) that by (auto simp: memory_max_def)
  have zkeep: "files_of held s3 (zygote_dir gdir) ''memory.max'' = files_of held s2 (zygote_dir gdir) ''memory.max''"
    using files_untouched [OF r(3), of "zygote_dir gdir" "''memory.max''"] dirs r(1) by (auto simp: butlast_append)
  have max: "memory_max (files_of held s3 fdir) = None"
    "memory_max (files_of held s3 (zygote_dir gdir)) = Some (lim_mem l)"
    "memory_max (files_of held s3 rdir) = Some (lim_mem l')"
    using fkeep [of "''memory.max''"] f(2) [of "''memory.max''"] zkeep g(3) [of "''memory.max''"] r(1,2)
      memory_max_leaf [OF assms(4)] memory_max_leaf [OF assms(5)]
    by (simp_all add: memory_max_def after_function_writes)
  have up: "{x. \<exists>d \<in> set (map (files_of held s3) (gdir # fdir # outer)). memory_max d = Some x}
      = {x. \<exists>d \<in> set (gdir # outer). memory_max (files_of held s d) = Some x}"
    using keep max(1) by auto
  have "filter (\<lambda>f. \<not> cf_exists k (path_join fdir f) s1) REQUIRED_LIMIT_FILES = []"
    using f(3) by (auto simp: filter_empty_conv)
  moreover have "files_of held s3 fdir ''pids.max'' = Some (show_nat (lim_pids l))"
    "files_of held s3 fdir ''cpu.max'' = Some (cm (lim_cpu l))"
    using fkeep f(2) by (simp_all add: after_function_writes)
  ultimately show ?thesis
    using memory_ceiling_capped [OF max(3) up] memory_ceiling_capped [OF max(2) up] by simp
qed

text \<open>A kernel that accepts everything, for an instance.\<close>

definition demo_fs :: "(component list \<Rightarrow> string option) cgroupfs" where
  "demo_fs = \<lparr>cf_read = (\<lambda>p s. s (components p)), cf_exists = (\<lambda>_ _. True), cf_subdirs = (\<lambda>_ _. Some []),
     cf_access = (\<lambda>_ _. True), cf_link = (\<lambda>_ _. None),
     cf_write = (\<lambda>p v s. (Inr (), s(components p \<mapsto> v))), cf_create_dir = (\<lambda>_ s. (Inr (), s)),
     cf_create_dir_all = (\<lambda>_ s. (Inr (), s)), cf_remove_dir = (\<lambda>_ s. (Inr (), s)), cf_signal = (\<lambda>_ s. (0, s))\<rparr>"

lemma demo_contract: "fs_contract demo_fs (\<lambda>s. s)"
  by (auto simp: fs_contract_def demo_fs_def result_simps)

lemma demo_steps:
  "fst (create_cgroup demo_fs d s) = Inr ()" "fst (enable_controllers demo_fs d cs s) = Inr ()"
  "fst (apply_writes demo_fs d ws s) = Inr ()"
proof -
  show "fst (create_cgroup demo_fs d s) = Inr ()"
    by (simp add: create_cgroup_def demo_fs_def)
  show "fst (apply_writes demo_fs d ws s) = Inr ()"
    by (induction ws arbitrary: s) (simp_all add: apply_writes_def and_do_def write_file_def demo_fs_def)
  have "fst (each (\<lambda>c. if c \<in> set a then return_ok () else if c \<in> set b then ignoring (f c) else return_ok ()) cs s)
      = Inr ()" for a b and f :: "string \<Rightarrow> 'a \<Rightarrow> (io_error + unit) \<times> 'a" and s
    by (induction cs arbitrary: s) (simp_all add: and_do_def ignoring_def return_ok_def)
  then show "fst (enable_controllers demo_fs d cs s) = Inr ()"
    by (simp add: enable_controllers_def Let_def)
qed

lemma demo_create:
  "\<exists>s1 s2 s3 gdir. create_function demo_fs (\<lambda>_. ''50000 100000'') ''/z'' ''acme'' ''job'' l Map.empty
       = (Inr (function_dir ''/z'' ''acme'' ''job''), s1)
     \<and> create_generation demo_fs ''42'' 1 ''/z'' ''acme'' ''job'' l s1 = (Inr gdir, s2)
     \<and> create_request demo_fs gdir ''r1'' l s2 = (Inr (request_dir gdir ''r1''), s3)"
proof -
  have step: "\<exists>s'. m s = (Inr (), s')" if "fst (m s) = Inr ()" for m :: "('s, 'e, unit) step" and s
    using that by (cases "m s") auto
  note create = step [OF demo_steps(1)] and enable = step [OF demo_steps(2)] and apply' = step [OF demo_steps(3)]
  have missing: "missing_limit_files demo_fs d s = []" for d s
    by (simp add: missing_limit_files_def demo_fs_def)
  have f: "\<exists>s1. create_function demo_fs (\<lambda>_. ''50000 100000'') ''/z'' ''acme'' ''job'' l Map.empty
      = (Inr (function_dir ''/z'' ''acme'' ''job''), s1)"
    unfolding create_function_def Let_def missing and_do_Inr
    using create enable apply' by (simp add: and_do_Inr return_ok_Inr) meson
  have g: "\<exists>s2. create_generation demo_fs ''42'' 1 ''/z'' ''acme'' ''job'' l s1
      = (Inr (fst (generation_dir ''42'' 1 ''/z'' ''acme'' ''job'')), s2)" for s1
    unfolding create_generation_def Let_def and_do_Inr return_ok_Inr using create enable apply' by meson
  have "\<exists>s3. create_request demo_fs gdir ''r1'' l s2 = (Inr (request_dir gdir ''r1''), s3)" for gdir s2
    unfolding create_request_def Let_def and_do_Inr return_ok_Inr using create apply' by meson
  with f g show ?thesis
    by metis
qed

theorem request_bounded_witness:
  "\<exists>s3 rdir gdir. memory_ceiling (map (files_of (\<lambda>s. s) s3)
      [rdir, gdir, function_dir ''/z'' ''acme'' ''job'', tenant_dir ''/z'' ''acme'', tenants_dir ''/z''])
     = Some 268435456"
proof -
  let ?l = "for_tests () 241591910"
  let ?outer = "[tenant_dir ''/z'' ''acme'', tenants_dir ''/z'']"
  have l: "lim_mem ?l \<le> u64_max" "lim_mem ?l = 268435456"
    by (simp_all add: for_tests_def u64_max_def)
  have "components (tenants_dir ''/z'') = [RootDir, Normal ''z'', Normal ''tenants'']"
    "components (tenant_dir ''/z'' ''acme'') = [RootDir, Normal ''z'', Normal ''tenants'', Normal ''acme'']"
    "components (function_dir ''/z'' ''acme'' ''job'')
       = [RootDir, Normal ''z'', Normal ''tenants'', Normal ''acme'', Normal ''job'']"
    by code_simp+
  then have o: "\<forall>d \<in> set ?outer. \<exists>rest. rest \<noteq> [] \<and> components (function_dir ''/z'' ''acme'' ''job'') = components d @ rest"
    by simp
  obtain s1 s2 s3 gdir where "create_function demo_fs (\<lambda>_. ''50000 100000'') ''/z'' ''acme'' ''job'' ?l Map.empty
       = (Inr (function_dir ''/z'' ''acme'' ''job''), s1)"
    "create_generation demo_fs ''42'' 1 ''/z'' ''acme'' ''job'' ?l s1 = (Inr gdir, s2)"
    "create_request demo_fs gdir ''r1'' ?l s2 = (Inr (request_dir gdir ''r1''), s3)"
    using demo_create by blast
  from request_bounded [OF demo_contract _ _ l(1) l(1) this o, THEN conjunct1] show ?thesis
    unfolding l(2) by (auto simp: is_absolute_def memory_max_def files_of_def)
qed

section \<open>Walks over the tree\<close>

text \<open>
  What is relied on of the directory tree: it has finite depth (a child's \<open>rank\<close> is below its
  parent's), and removing a directory adds no child and no depth anywhere, and neither
  removes another directory nor changes its list of processes.
\<close>

definition tree_contract :: "'s cgroupfs \<Rightarrow> (string \<Rightarrow> 's \<Rightarrow> nat) \<Rightarrow> bool" where
  "tree_contract k rank \<longleftrightarrow>
     (\<forall>d s ds. cf_subdirs k d s = Some ds \<longrightarrow> (\<forall>c \<in> set ds. rank c s < rank d s))
     \<and> (\<forall>d s r s'. cf_remove_dir k d s = (r, s') \<longrightarrow>
          (\<forall>p. rank p s' \<le> rank p s)
          \<and> (\<forall>p ds'. cf_subdirs k p s' = Some ds' \<longrightarrow> (\<exists>ds. cf_subdirs k p s = Some ds \<and> set ds' \<subseteq> set ds))
          \<and> (\<forall>p. p \<noteq> d \<longrightarrow> cf_exists k p s' = cf_exists k p s \<and> members k p s' = members k p s))"

text \<open>The directories at and below one.\<close>

inductive below :: "'s cgroupfs \<Rightarrow> 's \<Rightarrow> string \<Rightarrow> string \<Rightarrow> bool" for k s where
  here: "below k s d d"
| child: "cf_subdirs k d s = Some ds \<Longrightarrow> c \<in> set ds \<Longrightarrow> below k s c p \<Longrightarrow> below k s d p"

lemma tree_rank: "tree_contract k rank \<Longrightarrow> cf_subdirs k d s = Some ds \<Longrightarrow> c \<in> set ds \<Longrightarrow> rank c s < rank d s"
  unfolding tree_contract_def by blast

lemma tree_remove:
  assumes "tree_contract k rank" and "cf_remove_dir k d s = (r, s')"
  shows "rank p s' \<le> rank p s"
    and "cf_subdirs k p s' = Some ds' \<Longrightarrow> \<exists>ds. cf_subdirs k p s = Some ds \<and> set ds' \<subseteq> set ds"
    and "p \<noteq> d \<Longrightarrow> cf_exists k p s' = cf_exists k p s \<and> members k p s' = members k p s"
  using assms unfolding tree_contract_def by blast+

text \<open>A state that only lost directories, all of them at or below the given ones.\<close>

definition shrinks :: "'s cgroupfs \<Rightarrow> (string \<Rightarrow> 's \<Rightarrow> nat) \<Rightarrow> string set \<Rightarrow> 's \<Rightarrow> 's \<Rightarrow> bool" where
  "shrinks k rank D s s' \<longleftrightarrow>
     (\<forall>p. rank p s' \<le> rank p s)
     \<and> (\<forall>p ds'. cf_subdirs k p s' = Some ds' \<longrightarrow> (\<exists>ds. cf_subdirs k p s = Some ds \<and> set ds' \<subseteq> set ds))
     \<and> (\<forall>p. (\<forall>d \<in> D. \<not> below k s d p) \<longrightarrow> cf_exists k p s' = cf_exists k p s \<and> members k p s' = members k p s)"

lemma shrinks_refl [simp]: "shrinks k rank D s s"
  by (auto simp: shrinks_def)

lemma below_shrinks:
  assumes "below k s' d p" and "shrinks k rank D s s'"
  shows "below k s d p"
  using assms
proof (induction rule: below.induct)
  case (child d ds c p)
  then show ?case
    unfolding shrinks_def by (meson below.child in_mono)
qed (rule below.here)

lemma shrinks_trans:
  assumes "shrinks k rank D s s'" and "shrinks k rank D' s' s''" and "D' \<subseteq> {p. \<exists>d \<in> D. below k s d p}"
  shows "shrinks k rank D s s''"
proof -
  have below: "\<exists>d \<in> D. below k s d p" if d': "d' \<in> D'" and p: "below k s' d' p" for d' p
  proof -
    obtain d where d: "d \<in> D" "below k s d d'"
      using assms(3) d' by blast
    have "below k s d' p"
      using below_shrinks [OF p assms(1)] .
    with d(2) have "below k s d p"
      by (induction rule: below.induct) (auto intro: below.child)
    with d(1) show ?thesis
      by blast
  qed
  show ?thesis
    unfolding shrinks_def
  proof (intro conjI allI impI)
    show "rank p s'' \<le> rank p s" for p
      using assms(1,2) unfolding shrinks_def by (meson le_trans)
    show "\<exists>ds. cf_subdirs k p s = Some ds \<and> set ds'' \<subseteq> set ds" if "cf_subdirs k p s'' = Some ds''" for p ds''
      using assms(1,2) that unfolding shrinks_def by (meson subset_trans)
    show "cf_exists k p s'' = cf_exists k p s" "members k p s'' = members k p s" if "\<forall>d \<in> D. \<not> below k s d p" for p
      using assms(1,2) that below unfolding shrinks_def by metis+
  qed
qed

lemma remove_dir_shrinks: "tree_contract k rank \<Longrightarrow> cf_remove_dir k d s = (r, s') \<Longrightarrow> shrinks k rank {d} s s'"
  using tree_remove [of k rank d s r s'] unfolding shrinks_def by (metis below.here singletonI)

text \<open>The removal ends with enough fuel, and only takes away what lies below.\<close>

lemma each_opt_shrinks:
  assumes "\<And>d s. d \<in> set ds \<Longrightarrow> rank d s < n \<Longrightarrow> \<exists>r s'. f d s = Some (r, s') \<and> shrinks k rank {d} s s'"
    and "\<forall>d \<in> set ds. rank d s < n"
  shows "\<exists>r s'. each_opt f ds s = Some (r, s') \<and> shrinks k rank (set ds) s s'"
  using assms
proof (induction ds arbitrary: s)
  case (Cons d ds)
  obtain r s1 where s1: "f d s = Some (r, s1)" "shrinks k rank {d} s s1"
    using Cons.prems by (meson list.set_intros(1))
  then have mono: "shrinks k rank (set (d # ds)) s s1"
    by (auto simp: shrinks_def)
  have rank1: "\<forall>c \<in> set ds. rank c s1 < n"
    using Cons.prems(2) s1(2) unfolding shrinks_def by (meson le_less_trans list.set_intros(2))
  obtain r2 s2 where s2: "each_opt f ds s1 = Some (r2, s2)" "shrinks k rank (set ds) s1 s2"
    using Cons.IH [OF Cons.prems(1) rank1] by (meson list.set_intros(2))
  have "shrinks k rank (set (d # ds)) s s2"
    using shrinks_trans [OF mono s2(2)] by (auto intro: below.here)
  then show ?case
    using s1(1) s2(1) mono by (cases r) auto
qed simp

lemma remove_cgroup_shrinks:
  assumes "tree_contract k rank"
  shows "rank dir s < fuel \<Longrightarrow> \<exists>r s'. remove_cgroup k fuel dir s = Some (r, s') \<and> shrinks k rank {dir} s s'"
proof (induction fuel arbitrary: dir s)
  case (Suc fuel)
  let ?ds = "case cf_subdirs k dir s of Some ds \<Rightarrow> ds | None \<Rightarrow> []"
  have child: "rank d s < fuel \<and> below k s dir d" if mem: "d \<in> set ?ds" for d
  proof -
    obtain ds where ds: "cf_subdirs k dir s = Some ds" "d \<in> set ds"
      using mem by (cases "cf_subdirs k dir s") auto
    show ?thesis
      using tree_rank [OF assms ds] Suc.prems below.child [OF ds below.here] by simp
  qed
  obtain r s1 where s1: "each_opt (remove_cgroup k fuel) ?ds s = Some (r, s1)" "shrinks k rank (set ?ds) s s1"
    using each_opt_shrinks [of ?ds rank fuel "remove_cgroup k fuel" k s] Suc.IH child by blast
  have mono: "shrinks k rank {dir} s s1"
    using shrinks_trans [of k rank "{dir}" s s "set ?ds" s1] s1(2) child by auto
  obtain r2 s2 where s2: "cf_remove_dir k dir s1 = (r2, s2)"
    by fastforce
  have "shrinks k rank {dir} s s2"
    using shrinks_trans [OF mono remove_dir_shrinks [OF assms s2]] by (auto intro: below.here)
  then show ?case
    using s1(1) s2 mono by (cases r) (auto simp: Let_def)
qed simp

lemma all_opt_Some:
  assumes "\<forall>d \<in> set ds. f d = Some (P d)"
  shows "all_opt f ds = Some (list_all P ds)"
  using assms by (induction ds) (auto split: bool.splits)

lemma is_empty_subtree_correct:
  assumes "tree_contract k rank"
  shows "rank dir s < fuel \<Longrightarrow>
    is_empty_subtree k fuel dir s = Some (\<forall>p. below k s dir p \<longrightarrow> members k p s = [])"
proof (induction fuel arbitrary: dir)
  case (Suc fuel)
  let ?empty = "\<lambda>d. \<forall>p. below k s d p \<longrightarrow> members k p s = []"
  show ?case
  proof (cases "cf_subdirs k dir s")
    case None
    then have "below k s dir p \<longleftrightarrow> p = dir" for p
      by (auto elim: below.cases intro: below.here)
    then show ?thesis
      using None by auto
  next
    case (Some ds)
    have "all_opt (\<lambda>d. is_empty_subtree k fuel d s) ds = Some (list_all ?empty ds)"
      using Suc tree_rank [OF assms Some] by (intro all_opt_Some) fastforce
    moreover have "below k s dir p \<longleftrightarrow> p = dir \<or> (\<exists>c \<in> set ds. below k s c p)" for p
      using Some by (auto elim: below.cases intro: below.here below.child)
    then have "?empty dir \<longleftrightarrow> members k dir s = [] \<and> list_all ?empty ds"
      by (auto simp: list_all_iff)
    ultimately show ?thesis
      using Some by simp
  qed
qed simp

text \<open>
  C13. The walks over a hierarchy end: with more fuel than the tree is deep, removing a
  cgroup and looking for processes below it return a result, whatever fails on the way, and
  the answer of the search is exact: it says empty if and only if no cgroup at or below the
  directory has a member.
\<close>

theorem tree_walks_terminate:
  assumes "tree_contract k rank" and "rank dir s < fuel"
  shows "(\<exists>r s'. remove_cgroup k fuel dir s = Some (r, s'))
    \<and> (\<exists>b. is_empty_subtree k fuel dir s = Some b \<and> b = (\<forall>p. below k s dir p \<longrightarrow> members k p s = []))"
  using remove_cgroup_shrinks [OF assms] is_empty_subtree_correct [OF assms] by blast

text \<open>Two levels of a tree with one process, for an instance.\<close>

definition demo_tree :: "string set cgroupfs" where
  "demo_tree = \<lparr>cf_read = (\<lambda>p s. if p = ''/t/a/cgroup.procs'' then Some ''7'' else None),
     cf_exists = (\<lambda>p s. p \<notin> s),
     cf_subdirs = (\<lambda>d s. if d = ''/t'' then Some (filter (\<lambda>c. c \<notin> s) [''/t/a'', ''/t/b'']) else Some []),
     cf_access = (\<lambda>_ _. True), cf_link = (\<lambda>_ _. None), cf_write = (\<lambda>_ _ s. (Inr (), s)),
     cf_create_dir = (\<lambda>_ s. (Inr (), s)), cf_create_dir_all = (\<lambda>_ s. (Inr (), s)),
     cf_remove_dir = (\<lambda>d s. if d = ''/t/a'' then (Inl BusyError, s) else (Inr (), insert d s)),
     cf_signal = (\<lambda>_ s. (0, s))\<rparr>"

lemma demo_tree_contract: "tree_contract demo_tree (\<lambda>d _. if d = ''/t'' then 1 else 0)"
  by (auto simp: tree_contract_def demo_tree_def members_def read_or_default_def split: if_splits)

theorem tree_walks_terminate_witness:
  "(\<exists>r s'. remove_cgroup demo_tree 2 ''/t'' {} = Some (r, s')) \<and> (\<exists>b. is_empty_subtree demo_tree 2 ''/t'' {} = Some b)"
proof -
  have "(if ''/t'' = ''/t'' then 1 else 0) < (2::nat)"
    by simp
  from tree_walks_terminate [OF demo_tree_contract this, of "{}"] show ?thesis
    by blast
qed

text \<open>The cleanup of stale tenants leaves every directory that holds a process.\<close>

lemma clean_stale_spares:
  assumes "tree_contract k rank"
  shows "\<forall>d \<in> set ds. rank d s < fuel \<Longrightarrow> \<exists>names s'. clean_stale k fuel ds cleaned s = Some (names, s')
    \<and> (\<forall>p. members k p s \<noteq> [] \<longrightarrow> cf_exists k p s' = cf_exists k p s \<and> members k p s' = members k p s)"
proof (induction ds arbitrary: cleaned s)
  case (Cons d ds)
  note empty = is_empty_subtree_correct [OF assms, of d s fuel]
  have rank: "rank d s < fuel" "\<forall>d \<in> set ds. rank d s < fuel"
    using Cons.prems by simp_all
  show ?case
  proof (cases "\<forall>p. below k s d p \<longrightarrow> members k p s = []")
    case False
    then have "is_empty_subtree k fuel d s = Some False"
      unfolding empty [OF rank(1)] by blast
    then show ?thesis
      using Cons.IH [OF rank(2)] by simp
  next
    case True
    obtain r s1 where s1: "remove_cgroup k fuel d s = Some (r, s1)" "shrinks k rank {d} s s1"
      using remove_cgroup_shrinks [OF assms rank(1)] by blast
    have keep: "cf_exists k p s1 = cf_exists k p s \<and> members k p s1 = members k p s" if "members k p s \<noteq> []" for p
      using s1(2) True that unfolding shrinks_def by blast
    have "\<forall>d \<in> set ds. rank d s1 < fuel"
      using rank(2) s1(2) unfolding shrinks_def by (meson le_less_trans)
    note IH = Cons.IH [OF this]
    have "\<exists>cleaned'. clean_stale k fuel (d # ds) cleaned s = clean_stale k fuel ds cleaned' s1"
      using empty [OF rank(1)] True s1(1) by (auto split: option.splits)
    then obtain cleaned' where step: "clean_stale k fuel (d # ds) cleaned s = clean_stale k fuel ds cleaned' s1"
      by blast
    show ?thesis
      using IH [of cleaned'] keep unfolding step by metis
  qed
qed simp

text \<open>
  Cleaning up after a dead supervisor never takes a cgroup away from a live process: it
  ends, and every directory that listed a process before is still there with the same list.
\<close>

theorem cleanup_spares_processes:
  assumes "tree_contract k rank" and "rank (tenants_dir root) s < fuel"
  shows "\<exists>names s'. clean_stale_tenants k fuel root s = Some (names, s')
    \<and> (\<forall>p. members k p s \<noteq> [] \<longrightarrow> cf_exists k p s' = cf_exists k p s \<and> members k p s' = members k p s)"
proof (cases "cf_subdirs k (tenants_dir root) s")
  case (Some ds)
  then have "\<forall>d \<in> set ds. rank d s < fuel"
    using tree_rank [OF assms(1) Some] assms(2) by fastforce
  then show ?thesis
    using clean_stale_spares [OF assms(1)] Some by (simp add: clean_stale_tenants_def)
qed (simp add: clean_stale_tenants_def)

theorem cleanup_spares_processes_witness:
  "\<exists>names s'. clean_stale_tenants demo_tree 2 ''/x'' {} = Some (names, s')
     \<and> cf_exists demo_tree ''/t/a'' s' \<and> members demo_tree ''/t/a'' s' = [7]"
proof -
  have texts: "path_join ''/t/a'' ''cgroup.procs'' = ''/t/a/cgroup.procs''" "lines ''7'' = [''7'']" "trim ''7'' = ''7''"
    "''7'' = show_nat 7"
    by code_simp+
  have "parse_uint u32_max ''7'' = Some 7"
    unfolding texts(4) by (simp add: u32_max_def)
  then have a: "members demo_tree ''/t/a'' {} = [7]" "cf_exists demo_tree ''/t/a'' {}"
    by (simp_all add: members_def read_or_default_def demo_tree_def texts(1-3) List.map_filter_simps)
  have "(if tenants_dir ''/x'' = ''/t'' then 1 else 0) < (2::nat)"
    by simp
  from cleanup_spares_processes [OF demo_tree_contract this] obtain names s' where
    "clean_stale_tenants demo_tree 2 ''/x'' {} = Some (names, s')"
    and keep: "\<And>p. members demo_tree p {} \<noteq> [] \<Longrightarrow>
      cf_exists demo_tree p s' = cf_exists demo_tree p {} \<and> members demo_tree p s' = members demo_tree p {}"
    by blast
  then show ?thesis
    using keep [of "''/t/a''"] a by (intro exI [of _ names] exI [of _ s']) simp
qed

end
