(* ===== verification/Zygo_Paths.thy ===== *)
theory Zygo_Paths
  imports Rust_Paths Rust_Nums Rust_Io
begin

text \<open>
  Where things are on disk (\<open>crates/zygo-core/src/paths.rs\<close>): the two roots, found in the
  environment, and the places below them. The environment and the uid of the process are
  arguments.
\<close>

record zygo_paths =
  zp_data :: string
  zp_runtime :: string

definition or_else :: "'a option \<Rightarrow> 'a option \<Rightarrow> 'a option" where
  "or_else a b = (case a of Some x \<Rightarrow> Some x | None \<Rightarrow> b)"

definition from_vars :: "(string \<Rightarrow> string option) \<Rightarrow> nat \<Rightarrow> zygo_paths" where
  "from_vars var uid =
     \<lparr>zp_data =
        (case or_else (var ''ZYGO_DATA_HOME'')
               (or_else (map_option (\<lambda>p. path_join p ''zygo'') (var ''XDG_DATA_HOME''))
                        (map_option (\<lambda>h. path_join h ''.local/share/zygo'') (var ''HOME''))) of
           Some d \<Rightarrow> d | None \<Rightarrow> ''/tmp/zygo''),
      zp_runtime =
        (case or_else (var ''ZYGO_RUNTIME_DIR'')
               (map_option (\<lambda>p. path_join p ''zygo'') (var ''XDG_RUNTIME_DIR'')) of
           Some d \<Rightarrow> d | None \<Rightarrow> ''/tmp/zygo-'' @ show_nat uid)\<rparr>"

definition from_env :: "(string \<Rightarrow> string option) \<Rightarrow> nat \<Rightarrow> zygo_paths" where
  "from_env env = from_vars (\<lambda>key. case env key of Some v \<Rightarrow> if v \<noteq> [] then Some v else None | None \<Rightarrow> None)"

definition as_vars :: "zygo_paths \<Rightarrow> (string \<times> string) list" where
  "as_vars p = [(''ZYGO_DATA_HOME'', zp_data p), (''ZYGO_RUNTIME_DIR'', zp_runtime p)]"

definition with_runtime :: "zygo_paths \<Rightarrow> string \<Rightarrow> zygo_paths" where
  "with_runtime p runtime = p\<lparr>zp_runtime := runtime\<rparr>"

definition rooted :: "string \<Rightarrow> zygo_paths" where
  "rooted root = \<lparr>zp_data = root, zp_runtime = path_join root ''run''\<rparr>"

definition images_path :: "zygo_paths \<Rightarrow> string" where
  "images_path p = path_join (zp_data p) ''images''"

definition blobs_path :: "zygo_paths \<Rightarrow> string" where
  "blobs_path p = path_join (images_path p) ''blobs/sha256''"

definition layers_path :: "zygo_paths \<Rightarrow> string" where
  "layers_path p = path_join (images_path p) ''layers''"

definition image_index_path :: "zygo_paths \<Rightarrow> string" where
  "image_index_path p = path_join (images_path p) ''index.json''"

definition tmp_path :: "zygo_paths \<Rightarrow> string" where
  "tmp_path p = path_join (zp_data p) ''tmp''"

definition scripts_path :: "zygo_paths \<Rightarrow> string" where
  "scripts_path p = path_join (zp_data p) ''scripts''"

definition blob_store_path :: "zygo_paths \<Rightarrow> string" where
  "blob_store_path p = path_join (zp_data p) ''blobs''"

definition secrets_path :: "zygo_paths \<Rightarrow> string" where
  "secrets_path p = path_join (zp_data p) ''secrets''"

definition tenants_path :: "zygo_paths \<Rightarrow> string" where
  "tenants_path p = path_join (zp_data p) ''tenants''"

definition tokens_path :: "zygo_paths \<Rightarrow> string" where
  "tokens_path p = path_join (zp_data p) ''tokens.json''"

definition venv_cache_path :: "zygo_paths \<Rightarrow> string" where
  "venv_cache_path p = path_join (zp_data p) ''cache/venvs''"

definition deps_path :: "zygo_paths \<Rightarrow> string" where
  "deps_path p = path_join (zp_data p) ''deps''"

definition flat_cache_path :: "zygo_paths \<Rightarrow> string" where
  "flat_cache_path p = path_join (zp_data p) ''cache/flat''"

definition system_cache_path :: "zygo_paths \<Rightarrow> string" where
  "system_cache_path p = path_join (zp_data p) ''cache/system''"

definition tenant_data_path :: "zygo_paths \<Rightarrow> string \<Rightarrow> string" where
  "tenant_data_path p name = path_join (path_join (zp_data p) ''tenants'') name"

definition supervisor_sock :: "zygo_paths \<Rightarrow> string" where
  "supervisor_sock p = path_join (zp_runtime p) ''supervisor.sock''"

definition supervisor_pid :: "zygo_paths \<Rightarrow> string" where
  "supervisor_pid p = path_join (zp_runtime p) ''supervisor.pid''"

definition supervisor_log :: "zygo_paths \<Rightarrow> string" where
  "supervisor_log p = path_join (zp_data p) ''supervisor.log''"

definition agent_sock :: "zygo_paths \<Rightarrow> string \<Rightarrow> string" where
  "agent_sock p name = path_join (path_join (path_join (zp_runtime p) ''tenants'') name) ''agent.sock''"

text \<open>The file a lock key is taken on; \<open>is_locked\<close> builds the same name.\<close>

definition lock_file_name :: "string \<Rightarrow> string" where
  "lock_file_name key =
     map (\<lambda>c. if is_ascii_alphanumeric c \<or> c = CHR ''-'' then c else CHR ''_'') key @ ''.lock''"

definition lock_path :: "zygo_paths \<Rightarrow> string \<Rightarrow> string" where
  "lock_path p key = path_join (tmp_path p) (lock_file_name key)"

section \<open>Facts\<close>

text \<open>What a parent hands to the child it starts makes the child find the same places.\<close>

lemma child_finds_the_same:
  assumes "zp_data p \<noteq> []" and "zp_runtime p \<noteq> []"
  shows "from_env (map_of (as_vars p)) uid = p"
  using assms by (simp add: from_env_def from_vars_def as_vars_def or_else_def)

lemma lock_file_plain: "plain (lock_file_name key)"
proof -
  have "\<not> is_ascii_alphanumeric CHR ''/''"
    by code_simp
  moreover have "lock_file_name key \<noteq> ''.''" "lock_file_name key \<noteq> ''..''"
    by (cases key; auto simp: lock_file_name_def Cons_eq_append_conv append_eq_Cons_conv)+
  ultimately show ?thesis
    by (auto simp: plain_def lock_file_name_def)
qed

text \<open>A lock is a file of its own right below \<open>tmp\<close>, whatever the key.\<close>

lemma lock_components:
  assumes "is_absolute (zp_data p)"
  shows "components (lock_path p key) = components (zp_data p) @ [Normal ''tmp'', Normal (lock_file_name key)]"
  using components_file [OF assms, of "''tmp''"] is_absolute_file [OF assms, of "''tmp''"]
    components_file [OF _ lock_file_plain, of "tmp_path p" key]
  by (simp add: lock_path_def tmp_path_def plain_def)

end
