(* ===== verification/Zygo_Store.thy ===== *)
theory Zygo_Store
  imports Zygo_Paths
begin

text \<open>
  What the stores under the data root share (\<open>tokens.rs\<close>, \<open>tenants.rs\<close>, \<open>secrets.rs\<close>,
  \<open>scripts.rs\<close>): the file system they work on, the errors they return, writing a file whole
  under a temporary name and renaming it into place, and the interface of a store that keeps
  one record per key.

  The file system is a parameter: a record of the operations the code performs on an abstract
  state, with a contract over the files an observer sees, by path components, each a text
  with its permission bits.
\<close>

section \<open>The host file system\<close>

record 's hostfs =
  hf_read :: "string \<Rightarrow> 's \<Rightarrow> io_error + string"
  hf_read_dir :: "string \<Rightarrow> 's \<Rightarrow> io_error + (io_error + string) list"
  hf_is_file :: "string \<Rightarrow> 's \<Rightarrow> bool"
  hf_now_ms :: "'s \<Rightarrow> nat"
  hf_create_dir_all :: "string \<Rightarrow> ('s, io_error, unit) step"
  hf_write :: "string \<Rightarrow> string \<Rightarrow> ('s, io_error, unit) step"
  hf_chmod :: "string \<Rightarrow> nat \<Rightarrow> ('s, io_error, unit) step"
  hf_rename :: "string \<Rightarrow> string \<Rightarrow> ('s, io_error, unit) step"
  hf_remove_file :: "string \<Rightarrow> ('s, io_error, unit) step"
  hf_random :: "nat \<Rightarrow> ('s, io_error, string) step"

type_synonym 's files = "'s \<Rightarrow> component list \<Rightarrow> (string \<times> nat) option"

definition contents :: "'s files \<Rightarrow> 's \<Rightarrow> string \<Rightarrow> string option" where
  "contents files s p = map_option fst (files s (components p))"

text \<open>
  A read returns what the file holds and says \<open>NotFound\<close> only where there is none; listing a
  directory without an error names every file in it; a write touches one file and sets its
  text when it succeeds; a rename and a removal happen or do not.
\<close>

definition reads_truly :: "'s hostfs \<Rightarrow> 's files \<Rightarrow> bool" where
  "reads_truly h files \<longleftrightarrow> (\<forall>p s.
     (\<forall>t. hf_read h p s = Inr t \<longrightarrow> contents files s p = Some t)
     \<and> (hf_read h p s = Inl NotFound \<longrightarrow> files s (components p) = None)
     \<and> (hf_is_file h p s \<longrightarrow> files s (components p) \<noteq> None))"

definition lists_all :: "'s hostfs \<Rightarrow> 's files \<Rightarrow> bool" where
  "lists_all h files \<longleftrightarrow> (\<forall>d s n. files s (components d @ [Normal n]) \<noteq> None \<longrightarrow>
     (case hf_read_dir h d s of
        Inl e \<Rightarrow> e \<noteq> NotFound
      | Inr es \<Rightarrow> Inr n \<in> set es \<or> (\<exists>e. Inl e \<in> set es)))"

definition mkdir_keeps_files :: "'s hostfs \<Rightarrow> 's files \<Rightarrow> bool" where
  "mkdir_keeps_files h files \<longleftrightarrow> (\<forall>d s r s'. hf_create_dir_all h d s = (r, s') \<longrightarrow> files s' = files s)"

definition random_keeps_files :: "'s hostfs \<Rightarrow> 's files \<Rightarrow> bool" where
  "random_keeps_files h files \<longleftrightarrow> (\<forall>n s r s'. hf_random h n s = (r, s') \<longrightarrow> files s' = files s)"

definition write_sets :: "'s hostfs \<Rightarrow> 's files \<Rightarrow> bool" where
  "write_sets h files \<longleftrightarrow> (\<forall>p v s r s'. hf_write h p v s = (r, s') \<longrightarrow>
     touches files (\<lambda>q. q = components p) s s' \<and> (is_ok r \<longrightarrow> contents files s' p = Some v))"

definition chmod_sets :: "'s hostfs \<Rightarrow> 's files \<Rightarrow> bool" where
  "chmod_sets h files \<longleftrightarrow> (\<forall>p m s r s'. hf_chmod h p m s = (r, s') \<longrightarrow>
     files s' = (if is_ok r then (files s)(components p := map_option (\<lambda>(t, _). (t, m)) (files s (components p)))
                 else files s))"

definition rename_moves :: "'s hostfs \<Rightarrow> 's files \<Rightarrow> bool" where
  "rename_moves h files \<longleftrightarrow> (\<forall>a b s r s'. components a \<noteq> components b \<and> hf_rename h a b s = (r, s') \<longrightarrow>
     files s' = (if is_ok r then (files s)(components b := files s (components a), components a := None)
                 else files s))"

definition remove_removes :: "'s hostfs \<Rightarrow> 's files \<Rightarrow> bool" where
  "remove_removes h files \<longleftrightarrow> (\<forall>p s r s'. hf_remove_file h p s = (r, s') \<longrightarrow>
     files s' = (if is_ok r then (files s)(components p := None) else files s)
     \<and> (r = Inl NotFound \<longrightarrow> files s (components p) = None))"

definition hostfs_contract :: "'s hostfs \<Rightarrow> 's files \<Rightarrow> bool" where
  "hostfs_contract h files \<longleftrightarrow>
     reads_truly h files \<and> lists_all h files \<and> mkdir_keeps_files h files \<and> random_keeps_files h files
     \<and> write_sets h files \<and> chmod_sets h files \<and> rename_moves h files \<and> remove_removes h files"

section \<open>Errors and small steps\<close>

datatype store_error =
    SpecRefused string
  | StoreIo string io_error
  | PrimitiveFailed string

definition fail_with :: "'e \<Rightarrow> ('s, 'e, 'a) step" where
  "fail_with e s = (Inl e, s)"

text \<open>\<open>IoContext::at\<close>.\<close>

definition at :: "string \<Rightarrow> ('s, io_error, 'a) step \<Rightarrow> ('s, store_error, 'a) step" where
  "at p m s = (map_err (StoreIo p) (fst (m s)), snd (m s))"

text \<open>A computation that only looks at the state.\<close>

definition look :: "('s \<Rightarrow> 'e + 'a) \<Rightarrow> ('s, 'e, 'a) step" where
  "look f s = (f s, s)"

lemma fail_with_Inr [result_simps]: "fail_with e s = (Inr a, s') \<longleftrightarrow> False"
  and fail_with_Inl: "fail_with e s = (Inl e', s') \<longleftrightarrow> e' = e \<and> s' = s"
  and look_Inr [result_simps]: "look f s = (Inr a, s') \<longleftrightarrow> f s = Inr a \<and> s' = s"
  and look_Inl: "look f s = (Inl e', s') \<longleftrightarrow> f s = Inl e' \<and> s' = s"
  and return_ok_Inl: "return_ok a s = (Inl e', s') \<longleftrightarrow> False"
  by (auto simp: fail_with_def look_def return_ok_def)

lemma at_Inr [result_simps]: "at p m s = (Inr a, s') \<longleftrightarrow> m s = (Inr a, s')"
  by (cases "m s") (auto simp: at_def result_simps)

lemma at_Inl: "at p m s = (Inl e, s') \<longleftrightarrow> (\<exists>i. m s = (Inl i, s') \<and> e = StoreIo p i)"
  by (cases "m s") (auto simp: at_def result_simps)

lemmas step_errors = and_do_Inl fail_with_Inl look_Inl return_ok_Inl at_Inl

text \<open>A store's record read from its file: absent, unreadable, damaged or there.\<close>

definition read_record ::
  "'s hostfs \<Rightarrow> store_error \<Rightarrow> (string \<Rightarrow> 'a option) \<Rightarrow> string \<Rightarrow> 's \<Rightarrow> store_error + 'a option" where
  "read_record h damaged decode p s =
     (case hf_read h p s of
        Inl NotFound \<Rightarrow> Inr None
      | Inl e \<Rightarrow> Inl (StoreIo p e)
      | Inr t \<Rightarrow> (case decode t of Some x \<Rightarrow> Inr (Some x) | None \<Rightarrow> Inl damaged))"

text \<open>
  Writing a file: the directory, the text (a record that cannot be serialised is an error
  after the directory was made), the temporary file, its permissions, the rename.
\<close>

definition replace_file ::
  "'s hostfs \<Rightarrow> nat option \<Rightarrow> string \<Rightarrow> string \<Rightarrow> string \<Rightarrow> store_error + string \<Rightarrow> ('s, store_error, unit) step" where
  "replace_file h mode dir temporary p body =
     and_do (at dir (hf_create_dir_all h dir)) (\<lambda>_.
     and_do (look (\<lambda>_. body)) (\<lambda>text.
     and_do (at temporary (hf_write h temporary text)) (\<lambda>_.
     and_do (case mode of Some m \<Rightarrow> at temporary (hf_chmod h temporary m) | None \<Rightarrow> return_ok ()) (\<lambda>_.
     at p (hf_rename h temporary p)))))"

section \<open>What a replaced file holds\<close>

text \<open>The parts of the contract, as rules.\<close>

lemma contract_read:
  assumes "hostfs_contract h files"
  shows "hf_read h p s = Inr t \<Longrightarrow> contents files s p = Some t"
    and "hf_read h p s = Inl NotFound \<Longrightarrow> files s (components p) = None"
    and "hf_is_file h p s \<Longrightarrow> files s (components p) \<noteq> None"
  using assms by (simp_all add: hostfs_contract_def reads_truly_def)

lemma contract_list:
  assumes "hostfs_contract h files" and "files s (components d @ [Normal n]) \<noteq> None"
  shows "hf_read_dir h d s \<noteq> Inl NotFound"
    and "hf_read_dir h d s = Inr es \<Longrightarrow> \<forall>e. Inl e \<notin> set es \<Longrightarrow> Inr n \<in> set es"
proof -
  have "case hf_read_dir h d s of Inl e \<Rightarrow> e \<noteq> NotFound | Inr es \<Rightarrow> Inr n \<in> set es \<or> (\<exists>e. Inl e \<in> set es)"
    using assms unfolding hostfs_contract_def lists_all_def by blast
  then show "hf_read_dir h d s \<noteq> Inl NotFound"
    and "hf_read_dir h d s = Inr es \<Longrightarrow> \<forall>e. Inl e \<notin> set es \<Longrightarrow> Inr n \<in> set es"
    by auto
qed

lemma contract_mkdir: "hostfs_contract h files \<Longrightarrow> hf_create_dir_all h d s = (r, s') \<Longrightarrow> files s' = files s"
  unfolding hostfs_contract_def mkdir_keeps_files_def by blast

lemma contract_random: "hostfs_contract h files \<Longrightarrow> hf_random h n s = (q, s') \<Longrightarrow> files s' = files s"
  unfolding hostfs_contract_def random_keeps_files_def by blast

lemma contract_write:
  assumes "hostfs_contract h files" and "hf_write h p v s = (r, s')"
  shows "touches files (\<lambda>q. q = components p) s s'" and "is_ok r \<Longrightarrow> contents files s' p = Some v"
proof -
  have "write_sets h files"
    using assms(1) by (simp add: hostfs_contract_def)
  then have "touches files (\<lambda>q. q = components p) s s' \<and> (is_ok r \<longrightarrow> contents files s' p = Some v)"
    using assms(2) unfolding write_sets_def by blast
  then show "touches files (\<lambda>q. q = components p) s s'" and "is_ok r \<Longrightarrow> contents files s' p = Some v"
    by blast+
qed

lemma contract_chmod:
  assumes "hostfs_contract h files" and "hf_chmod h p m s = (r, s')"
  shows "touches files (\<lambda>q. q = components p) s s'"
    and "is_ok r \<Longrightarrow> files s (components p) = Some (t, m') \<Longrightarrow> files s' (components p) = Some (t, m)"
proof -
  have "chmod_sets h files"
    using assms(1) by (simp add: hostfs_contract_def)
  then have "files s' = (if is_ok r then (files s)(components p := map_option (\<lambda>(t, _). (t, m)) (files s (components p)))
      else files s)"
    using assms(2) unfolding chmod_sets_def by blast
  then show "touches files (\<lambda>q. q = components p) s s'"
    and "is_ok r \<Longrightarrow> files s (components p) = Some (t, m') \<Longrightarrow> files s' (components p) = Some (t, m)"
    by (auto simp: touches_def)
qed

lemma contract_rename:
  assumes "hostfs_contract h files" and "hf_rename h a b s = (r, s')" and "components a \<noteq> components b"
  shows "files s' = (if is_ok r then (files s)(components b := files s (components a), components a := None)
                     else files s)"
proof -
  have "rename_moves h files"
    using assms(1) by (simp add: hostfs_contract_def)
  then show ?thesis
    using assms(2,3) unfolding rename_moves_def by blast
qed

lemma contract_remove:
  assumes "hostfs_contract h files" and "hf_remove_file h p s = (r, s')"
  shows "files s' = (if is_ok r then (files s)(components p := None) else files s)"
    and "r = Inl NotFound \<Longrightarrow> files s (components p) = None"
proof -
  have "remove_removes h files"
    using assms(1) by (simp add: hostfs_contract_def)
  then have "files s' = (if is_ok r then (files s)(components p := None) else files s)
     \<and> (r = Inl NotFound \<longrightarrow> files s (components p) = None)"
    using assms(2) unfolding remove_removes_def by blast
  then show "files s' = (if is_ok r then (files s)(components p := None) else files s)"
    and "r = Inl NotFound \<Longrightarrow> files s (components p) = None"
    by blast+
qed

text \<open>Reading a record: absent where there is no file, else what the file decodes to.\<close>

lemma read_record_view:
  assumes "hostfs_contract h files" and "read_record h e decode p s = Inr x"
  shows "x = (case contents files s p of None \<Rightarrow> None | Some t \<Rightarrow> decode t)"
    and "contents files s p \<noteq> None \<Longrightarrow> x \<noteq> None"
proof -
  have "(hf_read h p s = Inl NotFound \<and> x = None) \<or> (\<exists>t y. hf_read h p s = Inr t \<and> x = Some y \<and> decode t = Some y)"
  proof (cases "hf_read h p s")
    case (Inl i)
    then show ?thesis
      using assms(2) by (cases i) (simp_all add: read_record_def)
  next
    case (Inr t)
    then show ?thesis
      using assms(2) by (cases "decode t") (auto simp: read_record_def)
  qed
  then show "x = (case contents files s p of None \<Rightarrow> None | Some t \<Rightarrow> decode t)"
    and "contents files s p \<noteq> None \<Longrightarrow> x \<noteq> None"
    using contract_read(1,2) [OF assms(1), of p s] by (auto simp: contents_def)
qed

text \<open>
  Replacing a file is all or nothing: on success it holds the new text with the permissions
  asked for, on any failure it is what it was, and only it and the temporary file are touched.
\<close>

lemma replace_file_atomic:
  assumes contract: "hostfs_contract h files" and ne: "components temporary \<noteq> components p"
    and run: "replace_file h mode dir temporary p body s = (r, s')"
  shows "touches files (\<lambda>q. q = components temporary \<or> q = components p) s s'"
    and "is_ok r \<Longrightarrow> \<exists>v m. body = Inr v \<and> files s' (components p) = Some (v, m) \<and> (\<forall>m'. mode = Some m' \<longrightarrow> m = m')"
    and "\<not> is_ok r \<Longrightarrow> files s' (components p) = files s (components p)"
proof -
  let ?T = "components temporary" and ?P = "components p"
  obtain r1 s1 where mk: "hf_create_dir_all h dir s = (r1, s1)"
    by fastforce
  have f1: "files s1 = files s"
    by (rule contract_mkdir [OF contract mk])
  have all: "touches files (\<lambda>q. q = ?T \<or> q = ?P) s s'
      \<and> (is_ok r \<longrightarrow> (\<exists>v m. body = Inr v \<and> files s' ?P = Some (v, m) \<and> (\<forall>m'. mode = Some m' \<longrightarrow> m = m')))
      \<and> (\<not> is_ok r \<longrightarrow> files s' ?P = files s ?P)"
  proof (cases r1)
    case (Inl e)
    then show ?thesis
      using run mk f1 by (auto simp: replace_file_def and_do_def at_def touches_def)
  next
    case r1: (Inr u)
    show ?thesis
    proof (cases body)
      case (Inl e)
      then show ?thesis
        using run mk f1 r1 by (auto simp: replace_file_def and_do_def at_def look_def touches_def)
    next
      case body: (Inr v)
      obtain r2 s2 where wr: "hf_write h temporary v s1 = (r2, s2)"
        by fastforce
      note w = contract_write [OF contract wr]
      show ?thesis
      proof (cases r2)
        case (Inl e)
        then have "r = Inl (StoreIo temporary e)" "s' = s2"
          using run mk r1 body wr by (auto simp: replace_file_def and_do_def at_def look_def)
        then show ?thesis
          using w(1) ne f1 by (auto simp: touches_def)
      next
        case r2: (Inr u2)
        obtain m0 where t2: "files s2 ?T = Some (v, m0)"
          using w(2) r2 by (auto simp: contents_def)
        obtain r3 s3 where ch: "(case mode of Some m \<Rightarrow> at temporary (hf_chmod h temporary m) | None \<Rightarrow> return_ok ()) s2 = (r3, s3)"
          by fastforce
        have c: "touches files (\<lambda>q. q = ?T) s2 s3
          \<and> (is_ok r3 \<longrightarrow> (\<exists>m. files s3 ?T = Some (v, m) \<and> (\<forall>m'. mode = Some m' \<longrightarrow> m = m')))"
        proof (cases mode)
          case None
          then show ?thesis
            using ch t2 by (auto simp: return_ok_def)
        next
          case (Some m)
          obtain q where q: "hf_chmod h temporary m s2 = (q, s3)" "is_ok r3 = is_ok q"
            using ch Some by (cases "hf_chmod h temporary m s2"; cases "fst (hf_chmod h temporary m s2)") (auto simp: at_def)
          show ?thesis
            using contract_chmod [OF contract q(1)] t2 q(2) Some by auto
        qed
        show ?thesis
        proof (cases r3)
          case (Inl e)
          then have "r = Inl e" "s' = s3"
            using run mk r1 body wr r2 ch by (auto simp: replace_file_def and_do_def at_def look_def)
          then show ?thesis
            using w(1) c ne f1 by (auto simp: touches_def)
        next
          case r3: (Inr u3)
          obtain q where q: "hf_rename h temporary p s3 = (q, s')" "is_ok r = is_ok q"
            using run mk r1 body wr r2 ch r3
            by (cases "hf_rename h temporary p s3"; cases "fst (hf_rename h temporary p s3)")
              (auto simp: replace_file_def and_do_def at_def look_def)
          show ?thesis
            using contract_rename [OF contract q(1) ne] w(1) c r3 q(2) ne f1 body by (auto simp: touches_def)
        qed
      qed
    qed
  qed
  then show "touches files (\<lambda>q. q = ?T \<or> q = ?P) s s'"
    and "is_ok r \<Longrightarrow> \<exists>v m. body = Inr v \<and> files s' ?P = Some (v, m) \<and> (\<forall>m'. mode = Some m' \<longrightarrow> m = m')"
    and "\<not> is_ok r \<Longrightarrow> files s' ?P = files s ?P"
    by blast+
qed

text \<open>Removing a file that need not be there.\<close>

definition remove_if_there :: "'s hostfs \<Rightarrow> string \<Rightarrow> ('s, store_error, unit) step" where
  "remove_if_there h p s =
     (case hf_remove_file h p s of
        (Inr _, s') \<Rightarrow> (Inr (), s')
      | (Inl NotFound, s') \<Rightarrow> (Inr (), s')
      | (Inl e, s') \<Rightarrow> (Inl (StoreIo p e), s'))"

lemma remove_if_there_removes:
  assumes "hostfs_contract h files" and "remove_if_there h p s = (r, s')"
  shows "files s' = (if is_ok r then (files s)(components p := None) else files s)"
proof -
  obtain q where q: "hf_remove_file h p s = (q, s')" "is_ok r \<longleftrightarrow> is_ok q \<or> q = Inl NotFound"
    using assms(2) by (auto simp: remove_if_there_def split: prod.splits sum.splits io_error.splits)
  then show ?thesis
    using contract_remove [OF assms(1) q(1)] by (auto simp: result_simps fun_eq_iff)
qed

section \<open>A store with one record per key\<close>

text \<open>
  The interface the stores' operations rely on. A store \<open>p\<close> is one with its files and codec;
  \<open>view\<close> is the record an observer sees under a key, \<open>None\<close> where it is damaged.
\<close>

locale record_store =
  fixes ok :: "'p \<Rightarrow> bool"
    and good :: "'k \<Rightarrow> bool"
    and load :: "'p \<Rightarrow> 'k \<Rightarrow> 's \<Rightarrow> 'e + 'a"
    and save :: "'p \<Rightarrow> 'k \<Rightarrow> 'a \<Rightarrow> ('s, 'e, unit) step"
    and view :: "'p \<Rightarrow> 'k \<Rightarrow> 's \<Rightarrow> 'a option"
  assumes load_view: "ok p \<Longrightarrow> good k \<Longrightarrow> load p k s = Inr x \<Longrightarrow> view p k s = Some x"
    and save_view: "ok p \<Longrightarrow> good k \<Longrightarrow> save p k x s = (r, s') \<Longrightarrow>
      view p k s' = (if is_ok r then Some x else view p k s)"
    and save_other: "ok p \<Longrightarrow> good k \<Longrightarrow> good k' \<Longrightarrow> k \<noteq> k' \<Longrightarrow> save p k x s = (r, s') \<Longrightarrow>
      view p k' s' = view p k' s"
begin

text \<open>What was saved is what is loaded, if it can be loaded at all.\<close>

lemma load_after_save:
  "ok p \<Longrightarrow> good k \<Longrightarrow> save p k x s = (Inr u, s') \<Longrightarrow> load p k s' = Inr y \<Longrightarrow> y = x"
  using save_view load_view by fastforce

text \<open>A property of every readable record survives a save of one that has it.\<close>

lemma save_invariant:
  assumes "ok p" and "good k" and "save p k x s = (r, s')" and "P k x"
    and "\<And>k y. good k \<Longrightarrow> view p k s = Some y \<Longrightarrow> P k y" and "good k'" and "view p k' s' = Some y"
  shows "P k' y"
proof (cases "k' = k")
  case True
  then show ?thesis
    using assms save_view [OF assms(1-3)] by (auto split: if_splits)
next
  case False
  then show ?thesis
    using assms save_other [OF assms(1,2,6) _ assms(3)] by simp
qed

text \<open>Read, change, write: the record becomes the changed one or stays as it was.\<close>

lemma modify:
  assumes "ok p" and "good k" and "load p k s = Inr x" and "save p k (f x) s = (r, s')"
  shows "view p k s = Some x" and "view p k s' = Some (if is_ok r then f x else x)"
  using save_view [OF assms(1,2,4)] load_view [OF assms(1-3)] by simp_all

end

end
