(* ===== verification/Zygo_Tenants.thy ===== *)
theory Zygo_Tenants
  imports Zygo_Store Zygo_Types Zygo_Cgroup
begin

text \<open>
  Tenants (\<open>crates/zygo-core/src/tenants.rs\<close>, with \<open>supervisor/tenants.rs\<close> for the check of a
  change against what is running and \<open>pool/request.rs\<close>, \<open>pool/warm_fn.rs\<close> for where a tenant's
  limits land): the limits, which only narrow, and the store of one record per tenant. CPU
  counts are finite floating point numbers, so any linear order; the JSON codec is a parameter.
\<close>

section \<open>Limits\<close>

record 'c tenant_limits =
  tl_mem :: "nat option"
  tl_cpu :: "'c option"
  tl_pids :: "nat option"
  tl_timeout_ms :: "nat option"
  tl_scratch :: "nat option"
  tl_network :: "network option"
  tl_allow :: "string list option"

definition no_limits :: "'c tenant_limits" where
  "no_limits = \<lparr>tl_mem = None, tl_cpu = None, tl_pids = None, tl_timeout_ms = None, tl_scratch = None,
     tl_network = None, tl_allow = None\<rparr>"

definition limits_empty :: "'c tenant_limits \<Rightarrow> bool" where
  "limits_empty l \<longleftrightarrow> l = no_limits"

definition lowered :: "'a::ord option \<Rightarrow> 'a \<Rightarrow> 'a" where
  "lowered m x = (case m of Some v \<Rightarrow> min x v | None \<Rightarrow> x)"

definition narrow :: "('c::linorder) tenant_limits \<Rightarrow> 'c limits \<Rightarrow> 'c limits" where
  "narrow l limits =
     (let mem = lowered (tl_mem l) (lim_mem limits) in
      limits\<lparr>lim_mem := mem,
        lim_mem_high := (if tl_mem l = None then lim_mem_high limits else min (lim_mem_high limits) mem),
        lim_cpu := lowered (tl_cpu l) (lim_cpu limits),
        lim_pids := lowered (tl_pids l) (lim_pids limits),
        lim_timeout_ms := lowered (tl_timeout_ms l) (lim_timeout_ms limits),
        lim_scratch := lowered (tl_scratch l) (lim_scratch limits)\<rparr>)"

definition narrows :: "('c::linorder) tenant_limits \<Rightarrow> 'c limits \<Rightarrow> bool" where
  "narrows l limits \<longleftrightarrow>
     (let n = narrow l limits in
      lim_mem n \<noteq> lim_mem limits \<or> lim_cpu n \<noteq> lim_cpu limits \<or> lim_pids n \<noteq> lim_pids limits
      \<or> lim_timeout_ms n \<noteq> lim_timeout_ms limits \<or> lim_scratch n \<noteq> lim_scratch limits)"

section \<open>Where a request's limits land\<close>

text \<open>
  \<open>WarmFunction::call\<close>: the tenant's limits when they narrow the function's own; the deadline
  left to a request that asked for \<open>timeout\<close> and was admitted after \<open>elapsed\<close>.
\<close>

definition request_limits :: "('c::linorder) limits \<Rightarrow> 'c tenant_limits option \<Rightarrow> 'c limits" where
  "request_limits own tenant =
     (case tenant of
        Some l \<Rightarrow> if narrows l own then narrow l own else own
      | None \<Rightarrow> own)"

definition request_deadline :: "('c::linorder) limits \<Rightarrow> 'c tenant_limits option \<Rightarrow> nat \<Rightarrow> nat \<Rightarrow> nat" where
  "request_deadline own tenant timeout elapsed =
     min timeout (lim_timeout_ms (request_limits own tenant)) - elapsed"

text \<open>\<open>request_cgroup\<close> and \<open>admit\<close>: best effort once the directory is there.\<close>

definition request_cgroup ::
  "'s cgroupfs \<Rightarrow> string option \<Rightarrow> bool \<Rightarrow> string \<Rightarrow> 'c limits \<Rightarrow> 's \<Rightarrow> string option \<times> 's" where
  "request_cgroup k generation per_request rid limits s =
     (if \<not> per_request then (None, s)
      else case generation of
        None \<Rightarrow> (None, s)
      | Some g \<Rightarrow>
          let dir = request_dir g rid in
          (case cf_create_dir k dir s of
             (Inl _, s') \<Rightarrow> (None, s')
           | (Inr _, s') \<Rightarrow> (Some dir, snd (apply_writes k dir (leaf_writes limits) s'))))"

definition admit_request ::
  "'s cgroupfs \<Rightarrow> string option \<Rightarrow> bool \<Rightarrow> string \<Rightarrow> nat \<Rightarrow> 'c limits \<Rightarrow> 's \<Rightarrow> string option \<times> 's" where
  "admit_request k generation per_request rid pid limits s =
     (case request_cgroup k generation per_request rid limits s of
        (None, s') \<Rightarrow> (None, s')
      | (Some dir, s') \<Rightarrow> (Some dir, snd (attach k dir pid s')))"

section \<open>The record and its store\<close>

text \<open>The set of scripts is kept sorted, as a \<open>BTreeSet\<close> iterates it.\<close>

record 'c tenant =
  tn_id :: string
  tn_created_ms :: nat
  tn_scripts :: "string list"
  tn_limits :: "'c tenant_limits"

record ('s, 'c) tenant_store =
  tn_fs :: "'s hostfs"
  tn_encode :: "'c tenant \<Rightarrow> string option"
  tn_decode :: "string \<Rightarrow> 'c tenant option"
  tn_process :: string
  tn_dir :: string

definition new_tenant :: "string \<Rightarrow> nat \<Rightarrow> 'c tenant" where
  "new_tenant tid now = \<lparr>tn_id = tid, tn_created_ms = now, tn_scripts = [], tn_limits = no_limits\<rparr>"

definition valid_tenant_id :: "string \<Rightarrow> bool" where
  "valid_tenant_id tid \<longleftrightarrow> tid \<noteq> [] \<and> length tid \<le> 64
     \<and> list_all (\<lambda>b. is_ascii_alphanumeric b \<or> b = CHR ''-'' \<or> b = CHR ''_'' \<or> b = CHR ''.'') tid
     \<and> hd tid \<noteq> CHR ''.''"

definition check_tenant_id :: "string \<Rightarrow> store_error + unit" where
  "check_tenant_id tid = (if valid_tenant_id tid then Inr () else Inl (SpecRefused ''tenant''))"

definition tenant_path :: "('s, 'c) tenant_store \<Rightarrow> string \<Rightarrow> string" where
  "tenant_path st tid = path_join (tn_dir st) (tid @ ''.json'')"

definition tenant_temporary :: "('s, 'c) tenant_store \<Rightarrow> string \<Rightarrow> string" where
  "tenant_temporary st tid = path_join (tn_dir st) (''.'' @ tid @ ''.'' @ tn_process st @ ''.incoming'')"

definition tenant_get :: "('s, 'c) tenant_store \<Rightarrow> string \<Rightarrow> 's \<Rightarrow> store_error + 'c tenant option" where
  "tenant_get st tid s =
     and_then (check_tenant_id tid) (\<lambda>_.
     read_record (tn_fs st) (PrimitiveFailed ''tenant store'') (tn_decode st) (tenant_path st tid) s)"

definition tenant_write :: "('s, 'c) tenant_store \<Rightarrow> 'c tenant \<Rightarrow> ('s, store_error, unit) step" where
  "tenant_write st t =
     replace_file (tn_fs st) None (tn_dir st) (tenant_temporary st (tn_id t)) (tenant_path st (tn_id t))
       (ok_or (PrimitiveFailed ''serialise'') (tn_encode st t))"

text \<open>The second component tells whether the tenant existed.\<close>

definition tenant_create :: "('s, 'c) tenant_store \<Rightarrow> string \<Rightarrow> ('s, store_error, 'c tenant \<times> bool) step" where
  "tenant_create st tid =
     and_do (look (\<lambda>_. check_tenant_id tid)) (\<lambda>_.
     and_do (look (tenant_get st tid)) (\<lambda>existing.
     case existing of
       Some t \<Rightarrow> return_ok (t, True)
     | None \<Rightarrow> (\<lambda>s.
         let t = new_tenant tid (hf_now_ms (tn_fs st) s)
         in and_do (tenant_write st t) (\<lambda>_. return_ok (t, False)) s)))"

text \<open>\<open>Path::extension\<close> of a file name.\<close>

definition name_extension :: "string \<Rightarrow> string option" where
  "name_extension name =
     (case rsplit_once CHR ''.'' name of
        Some (a, b) \<Rightarrow> if a = [] \<or> name = ''..'' then None else Some b
      | None \<Rightarrow> None)"

definition tenant_entry :: "('s, 'c) tenant_store \<Rightarrow> 's \<Rightarrow> io_error + string \<Rightarrow> 'c tenant option" where
  "tenant_entry st s entry =
     (case entry of
        Inl _ \<Rightarrow> None
      | Inr name \<Rightarrow>
          if name_extension name \<noteq> Some ''json'' then None
          else case hf_read (tn_fs st) (path_join (tn_dir st) name) s of
            Inl _ \<Rightarrow> None
          | Inr text \<Rightarrow> tn_decode st text)"

definition tenant_list :: "('s, 'c) tenant_store \<Rightarrow> 's \<Rightarrow> store_error + 'c tenant list" where
  "tenant_list st s =
     (case hf_read_dir (tn_fs st) (tn_dir st) s of
        Inl NotFound \<Rightarrow> Inr []
      | Inl e \<Rightarrow> Inl (StoreIo (tn_dir st) e)
      | Inr entries \<Rightarrow> Inr (sort_key tn_id (List.map_filter (tenant_entry st s) entries)))"

definition get_or_create :: "('s, 'c) tenant_store \<Rightarrow> string \<Rightarrow> ('s, store_error, 'c tenant) step" where
  "get_or_create st tid =
     and_do (look (tenant_get st tid)) (\<lambda>found.
     case found of
       Some t \<Rightarrow> return_ok t
     | None \<Rightarrow> and_do (tenant_create st tid) (\<lambda>(t, _). return_ok t))"

definition add_script :: "('s, 'c) tenant_store \<Rightarrow> string \<Rightarrow> string \<Rightarrow> ('s, store_error, unit) step" where
  "add_script st tid digest =
     and_do (get_or_create st tid) (\<lambda>t.
     if digest \<in> set (tn_scripts t) then return_ok ()
     else tenant_write st (t\<lparr>tn_scripts := insort digest (tn_scripts t)\<rparr>))"

definition set_tenant_limits ::
  "('s, 'c) tenant_store \<Rightarrow> string \<Rightarrow> 'c tenant_limits \<Rightarrow> ('s, store_error, 'c tenant) step" where
  "set_tenant_limits st tid limits =
     and_do (get_or_create st tid) (\<lambda>t.
     let t' = t\<lparr>tn_limits := limits\<rparr> in
     and_do (tenant_write st t') (\<lambda>_. return_ok t'))"

text \<open>What only the tenant that goes refers to.\<close>

definition orphaned :: "'c tenant \<Rightarrow> 'c tenant list \<Rightarrow> string list" where
  "orphaned t all =
     (let others = \<Union> (set (map (\<lambda>x. set (tn_scripts x)) (filter (\<lambda>x. tn_id x \<noteq> tn_id t) all)))
      in filter (\<lambda>d. d \<notin> others) (tn_scripts t))"

definition tenant_remove :: "('s, 'c) tenant_store \<Rightarrow> string \<Rightarrow> ('s, store_error, string list option) step" where
  "tenant_remove st tid =
     and_do (look (tenant_get st tid)) (\<lambda>found.
     case found of
       None \<Rightarrow> return_ok None
     | Some t \<Rightarrow>
         and_do (look (tenant_list st)) (\<lambda>all.
         and_do (remove_if_there (tn_fs st) (tenant_path st tid)) (\<lambda>_.
         return_ok (Some (orphaned t all)))))"

section \<open>Checking limits against what is running\<close>

datatype limit_key = MemKey | CpuKey | PidsKey | TimeoutKey | ScratchKey

definition above_all :: "'a::linorder option \<Rightarrow> ('b \<Rightarrow> 'a) \<Rightarrow> 'b list \<Rightarrow> bool" where
  "above_all v f cs = (case v of Some x \<Rightarrow> list_all (\<lambda>c. f c < x) cs | None \<Rightarrow> False)"

text \<open>
  \<open>functions\<close> are the running functions with their tenants, \<open>pools\<close> every pool of the host.
\<close>

definition over_every_ceiling ::
  "(string \<times> ('c::linorder) limits) list \<Rightarrow> 'c limits list \<Rightarrow> string \<Rightarrow> 'c tenant_limits \<Rightarrow> limit_key list" where
  "over_every_ceiling functions pools tenant l =
     (let ceilings = map snd (filter (\<lambda>e. fst e = tenant) functions) @ pools in
      if ceilings = [] then []
      else (if above_all (tl_mem l) lim_mem ceilings then [MemKey] else [])
         @ (if above_all (tl_cpu l) lim_cpu ceilings then [CpuKey] else [])
         @ (if above_all (tl_pids l) lim_pids ceilings then [PidsKey] else [])
         @ (if above_all (tl_timeout_ms l) lim_timeout_ms ceilings then [TimeoutKey] else [])
         @ (if above_all (tl_scratch l) lim_scratch ceilings then [ScratchKey] else []))"

datatype control_error = BadSpec | NoSuch | AboveCeiling "limit_key list" | CallFailed

definition supervisor_set_limits ::
  "('s, 'c::linorder) tenant_store \<Rightarrow> (string \<times> 'c limits) list \<Rightarrow> 'c limits list \<Rightarrow> string \<Rightarrow> 'c tenant_limits
     \<Rightarrow> ('s, control_error, 'c tenant) step" where
  "supervisor_set_limits st functions pools tid l s =
     (if \<not> valid_tenant_id tid then (Inl BadSpec, s)
      else
        let over = over_every_ceiling functions pools tid l in
        if over \<noteq> [] then (Inl (AboveCeiling over), s)
        else case set_tenant_limits st tid l s of
               (Inl _, s') \<Rightarrow> (Inl BadSpec, s')
             | (Inr t, s') \<Rightarrow> (Inr t, s'))"

text \<open>\<open>limits_for\<close>: nothing for the operator and for a tenant with nothing set.\<close>

definition limits_for ::
  "('s, 'c) tenant_store \<Rightarrow> string option \<Rightarrow> 's \<Rightarrow> control_error + 'c tenant_limits option" where
  "limits_for st tenant s =
     (case tenant of
        None \<Rightarrow> Inr None
      | Some tid \<Rightarrow>
          (case tenant_get st tid s of
             Inl _ \<Rightarrow> Inl CallFailed
           | Inr found \<Rightarrow>
               Inr (case found of
                      Some t \<Rightarrow> if limits_empty (tn_limits t) then None else Some (tn_limits t)
                    | None \<Rightarrow> None)))"

end
