(* ===== verification/Zygo_Tokens.thy ===== *)
theory Zygo_Tokens
  imports Zygo_Tenants
begin

text \<open>
  API tokens (\<open>crates/zygo-core/src/tokens.rs\<close>) and who a request acts for
  (\<open>crates/zygo-cli/src/cmd/api/auth.rs\<close>). SHA-256, hexadecimal text and the JSON codec are
  parameters; the secret is what the kernel's random source gives.
\<close>

section \<open>Tokens\<close>

datatype token_kind = Operator | TenantToken string

record token =
  tk_id :: string
  tk_kind :: token_kind
  tk_created_ms :: nat
  tk_revoked_ms :: "nat option"
  tk_hash :: string

definition token_tenant :: "token \<Rightarrow> string option" where
  "token_tenant t = (case tk_kind t of Operator \<Rightarrow> None | TenantToken x \<Rightarrow> Some x)"

definition is_operator :: "token \<Rightarrow> bool" where
  "is_operator t \<longleftrightarrow> tk_kind t = Operator"

definition revoked :: "token \<Rightarrow> bool" where
  "revoked t \<longleftrightarrow> tk_revoked_ms t \<noteq> None"

record 's token_store =
  ts_fs :: "'s hostfs"
  ts_sha :: "string \<Rightarrow> string"
  ts_hex :: "string \<Rightarrow> string"
  ts_encode :: "token list \<Rightarrow> string option"
  ts_decode :: "string \<Rightarrow> token list option"
  ts_process :: string
  ts_path :: string

definition token_hash :: "'s token_store \<Rightarrow> string \<Rightarrow> string" where
  "token_hash st secret = ''sha256:'' @ ts_hex st (ts_sha st secret)"

definition new_secret :: "'s token_store \<Rightarrow> ('s, store_error, string) step" where
  "new_secret st =
     and_do (at ''/dev/urandom'' (hf_random (ts_fs st) 32)) (\<lambda>bytes. return_ok (''zygo_'' @ ts_hex st bytes))"

definition token_list :: "'s token_store \<Rightarrow> 's \<Rightarrow> store_error + token list" where
  "token_list st s =
     map_ok (\<lambda>r. case r of Some ts \<Rightarrow> ts | None \<Rightarrow> [])
       (read_record (ts_fs st) (PrimitiveFailed ''token store'') (ts_decode st) (ts_path st) s)"

definition token_dir :: "'s token_store \<Rightarrow> string" where
  "token_dir st = (case path_parent (ts_path st) of Some d \<Rightarrow> d | None \<Rightarrow> ''.'')"

definition token_temporary :: "'s token_store \<Rightarrow> string" where
  "token_temporary st = path_join (token_dir st) (''.tokens.'' @ ts_process st @ ''.incoming'')"

text \<open>\<open>0o600\<close>.\<close>

definition PRIVATE_MODE :: nat where "PRIVATE_MODE = 384"

definition token_write :: "'s token_store \<Rightarrow> token list \<Rightarrow> ('s, store_error, unit) step" where
  "token_write st tokens =
     replace_file (ts_fs st) (Some PRIVATE_MODE) (token_dir st) (token_temporary st) (ts_path st)
       (ok_or (PrimitiveFailed ''serialise'') (ts_encode st tokens))"

definition minted_token :: "'s token_store \<Rightarrow> token_kind \<Rightarrow> string \<Rightarrow> nat \<Rightarrow> token" where
  "minted_token st kind secret now =
     \<lparr>tk_id = ''tok_'' @ take 12 (drop (length ''sha256:'') (token_hash st secret)),
      tk_kind = kind, tk_created_ms = now, tk_revoked_ms = None, tk_hash = token_hash st secret\<rparr>"

text \<open>The token and its secret.\<close>

definition mint :: "'s token_store \<Rightarrow> token_kind \<Rightarrow> ('s, store_error, token \<times> string) step" where
  "mint st kind =
     and_do (look (\<lambda>_. case kind of TenantToken x \<Rightarrow> check_tenant_id x | Operator \<Rightarrow> Inr ())) (\<lambda>_.
     and_do (new_secret st) (\<lambda>secret s.
     let t = minted_token st kind secret (hf_now_ms (ts_fs st) s) in
     and_do (look (token_list st)) (\<lambda>tokens.
     and_do (token_write st (tokens @ [t])) (\<lambda>_.
     return_ok (t, secret))) s))"

fun revoke_first :: "string \<Rightarrow> nat \<Rightarrow> token list \<Rightarrow> token list" where
  "revoke_first tid now [] = []"
| "revoke_first tid now (t # ts) =
     (if tk_id t = tid then t\<lparr>tk_revoked_ms := Some now\<rparr> # ts else t # revoke_first tid now ts)"

definition revoke :: "'s token_store \<Rightarrow> string \<Rightarrow> ('s, store_error, bool) step" where
  "revoke st tid =
     and_do (look (token_list st)) (\<lambda>tokens s.
     case find (\<lambda>t. tk_id t = tid) tokens of
       None \<Rightarrow> (Inr False, s)
     | Some t \<Rightarrow>
         and_do (if revoked t then return_ok ()
                 else token_write st (revoke_first tid (hf_now_ms (ts_fs st) s) tokens))
           (\<lambda>_. return_ok True) s)"

definition revoke_tenants :: "'s token_store \<Rightarrow> string \<Rightarrow> ('s, store_error, nat) step" where
  "revoke_tenants st tenant =
     and_do (look (token_list st)) (\<lambda>tokens.
     let kept = filter (\<lambda>t. token_tenant t \<noteq> Some tenant) tokens in
     and_do (if length kept \<noteq> length tokens then token_write st kept else return_ok ())
       (\<lambda>_. return_ok (length tokens - length kept)))"

definition resolve_token :: "'s token_store \<Rightarrow> string \<Rightarrow> 's \<Rightarrow> store_error + token option" where
  "resolve_token st secret s =
     map_ok (find (\<lambda>t. tk_hash t = token_hash st secret \<and> \<not> revoked t)) (token_list st s)"

definition valid_token_id :: "string \<Rightarrow> bool" where
  "valid_token_id tid \<longleftrightarrow> starts_with ''tok_'' tid \<and> length tid \<le> 32
     \<and> list_all (\<lambda>b. is_ascii_alphanumeric b \<or> b = CHR ''_'') tid"

section \<open>Who a request acts for\<close>

text \<open>No tenant is the operator.\<close>

record actor =
  ac_tenant :: "string option"
  ac_deploy :: bool

datatype http_error = BadRequest | Unauthorized | Forbidden | InternalError

definition operator_only :: "actor \<Rightarrow> http_error + unit" where
  "operator_only a = (case ac_tenant a of None \<Rightarrow> Inr () | Some _ \<Rightarrow> Inl Forbidden)"

definition may_deploy :: "actor \<Rightarrow> http_error + unit" where
  "may_deploy a = (if ac_deploy a then operator_only a else Inl Forbidden)"


text \<open>
  The fold of \<open>constant_time_eq\<close>: the differing bits of every pair of bytes, collected.
\<close>

definition constant_time_eq :: "8 word list \<Rightarrow> 8 word list \<Rightarrow> bool" where
  "constant_time_eq a b =
     (if length a \<noteq> length b then False
      else fold (\<lambda>(x, y) acc. or acc (xor x y)) (zip a b) 0 = 0)"

definition bytes_of :: "string \<Rightarrow> 8 word list" where
  "bytes_of s = map (\<lambda>c. word_of_nat (code c)) s"

text \<open>
  The tenant header of a request: absent, not ASCII, or a text; the authorization header that
  is there as a text.
\<close>

datatype header = NoHeader | NotAscii | HeaderText string

definition tenant_header :: "header \<Rightarrow> http_error + string option" where
  "tenant_header h =
     (case h of
        NoHeader \<Rightarrow> Inr None
      | NotAscii \<Rightarrow> Inl BadRequest
      | HeaderText v \<Rightarrow> if valid_tenant_id (trim v) then Inr (Some (trim v)) else Inl BadRequest)"

definition presented :: "header \<Rightarrow> http_error + string" where
  "presented authorization =
     ok_or Unauthorized
       (case authorization of
          HeaderText v \<Rightarrow> map_option trim (strip_prefix ''Bearer '' v)
        | _ \<Rightarrow> None)"

definition authorise ::
  "'s token_store \<Rightarrow> string option \<Rightarrow> bool \<Rightarrow> header \<Rightarrow> header \<Rightarrow> 's \<Rightarrow> http_error + actor" where
  "authorise st bootstrap deploy authorization tenant s =
     (case bootstrap of
        None \<Rightarrow> map_ok (\<lambda>t. \<lparr>ac_tenant = t, ac_deploy = deploy\<rparr>) (tenant_header tenant)
      | Some b \<Rightarrow>
          and_then (presented authorization) (\<lambda>secret.
          if constant_time_eq (bytes_of secret) (bytes_of b) then
            map_ok (\<lambda>t. \<lparr>ac_tenant = t, ac_deploy = deploy\<rparr>) (tenant_header tenant)
          else
            and_then (map_err (\<lambda>_. InternalError) (resolve_token st secret s)) (\<lambda>found.
            case found of
              None \<Rightarrow> Inl Unauthorized
            | Some t \<Rightarrow>
                (case token_tenant t of
                   None \<Rightarrow> map_ok (\<lambda>x. \<lparr>ac_tenant = x, ac_deploy = True\<rparr>) (tenant_header tenant)
                 | Some own \<Rightarrow>
                     and_then (tenant_header tenant) (\<lambda>named.
                     if named \<noteq> None \<and> named \<noteq> Some own then Inl Forbidden
                     else Inr \<lparr>ac_tenant = Some own, ac_deploy = False\<rparr>)))))"

end
