(* ===== verification/Zygo_Secrets.thy ===== *)
theory Zygo_Secrets
  imports Zygo_Tenants Rust_Utf8
begin

text \<open>
  Secrets encrypted at rest (\<open>crates/zygo-core/src/secrets.rs\<close>): the key an operator
  configured, the names, the sealed record of each tenant and its operations. The cipher,
  base64, hexadecimal text and the JSON codec are parameters. A \<open>BTreeMap\<close> is the list of its
  entries in order.
\<close>

section \<open>Ordered maps\<close>

fun bt_insert :: "string \<Rightarrow> 'v \<Rightarrow> (string \<times> 'v) list \<Rightarrow> (string \<times> 'v) list" where
  "bt_insert k v [] = [(k, v)]"
| "bt_insert k v ((a, w) # m) =
     (if k = a then (k, v) # m
      else if k < a then (k, v) # (a, w) # m
      else (a, w) # bt_insert k v m)"

definition bt_remove :: "string \<Rightarrow> (string \<times> 'v) list \<Rightarrow> (string \<times> 'v) list" where
  "bt_remove k m = filter (\<lambda>e. fst e \<noteq> k) m"

section \<open>The key\<close>

definition KEY_ENV :: string where "KEY_ENV = ''ZYGO_SECRETS_KEY''"
definition KEY_FILE_ENV :: string where "KEY_FILE_ENV = ''ZYGO_SECRETS_KEY_FILE''"
definition MAX_SECRET_BYTES :: nat where "MAX_SECRET_BYTES = 64 * 1024"

definition bad_secret :: store_error where "bad_secret = PrimitiveFailed ''secrets''"

definition parse_key ::
  "(string \<Rightarrow> string option) \<Rightarrow> (string \<Rightarrow> string option) \<Rightarrow> string \<Rightarrow> store_error + string" where
  "parse_key unhex unbase64 body =
     (let bytes = (if length body = 64 \<and> list_all is_ascii_hexdigit body then unhex body else unbase64 body)
      in case bytes of
           Some b \<Rightarrow> if length b = 32 then Inr b else Inl bad_secret
         | None \<Rightarrow> Inl bad_secret)"

definition key_from_env ::
  "'s hostfs \<Rightarrow> (string \<Rightarrow> string option) \<Rightarrow> (string \<Rightarrow> string option) \<Rightarrow> (string \<Rightarrow> string option)
     \<Rightarrow> 's \<Rightarrow> store_error + string option" where
  "key_from_env h unhex unbase64 var s =
     (case (var KEY_ENV, var KEY_FILE_ENV) of
        (Some _, Some _) \<Rightarrow> Inl bad_secret
      | (Some body, None) \<Rightarrow> map_ok Some (parse_key unhex unbase64 (trim body))
      | (None, Some p) \<Rightarrow>
          and_then (map_err (StoreIo p) (hf_read h p s)) (\<lambda>body.
          map_ok Some (parse_key unhex unbase64 (trim body)))
      | (None, None) \<Rightarrow> Inr None)"

section \<open>Names and what a value is bound to\<close>

definition valid_secret_name :: "string \<Rightarrow> bool" where
  "valid_secret_name name \<longleftrightarrow> name \<noteq> [] \<and> length name \<le> 128
     \<and> list_all (\<lambda>b. is_ascii_alphanumeric b \<or> b = CHR ''_'' \<or> b = CHR ''-'' \<or> b = CHR ''.'') name
     \<and> hd name \<noteq> CHR ''.''"

definition check_secret_name :: "string \<Rightarrow> store_error + unit" where
  "check_secret_name name = (if valid_secret_name name then Inr () else Inl (SpecRefused ''secret''))"

definition aad :: "string \<Rightarrow> string \<Rightarrow> string" where
  "aad tenant name = ''zygo/secret/'' @ tenant @ ''/'' @ name"

section \<open>The store\<close>

type_synonym sealed = "(string \<times> string) list"

record 's secret_store =
  ss_fs :: "'s hostfs"
  ss_encode :: "sealed \<Rightarrow> string option"
  ss_decode :: "string \<Rightarrow> sealed option"
  ss_base64 :: "string \<Rightarrow> string"
  ss_unbase64 :: "string \<Rightarrow> string option"
  ss_encrypt :: "string \<Rightarrow> string \<Rightarrow> string \<Rightarrow> string \<Rightarrow> string option"
  ss_decrypt :: "string \<Rightarrow> string \<Rightarrow> string \<Rightarrow> string \<Rightarrow> string option"
  ss_key :: string
  ss_process :: string
  ss_dir :: string

text \<open>\<open>ss_encrypt key nonce aad msg\<close> and \<open>ss_decrypt key nonce aad body\<close>.\<close>

definition secret_path :: "'s secret_store \<Rightarrow> string \<Rightarrow> string" where
  "secret_path st tenant = path_join (ss_dir st) (tenant @ ''.json'')"

definition secret_temporary :: "'s secret_store \<Rightarrow> string \<Rightarrow> string" where
  "secret_temporary st tenant = path_join (ss_dir st) (''.'' @ tenant @ ''.'' @ ss_process st @ ''.incoming'')"

definition secret_read :: "'s secret_store \<Rightarrow> string \<Rightarrow> 's \<Rightarrow> store_error + sealed" where
  "secret_read st tenant s =
     map_ok (\<lambda>r. case r of Some m \<Rightarrow> m | None \<Rightarrow> [])
       (read_record (ss_fs st) bad_secret (ss_decode st) (secret_path st tenant) s)"

definition secret_write :: "'s secret_store \<Rightarrow> string \<Rightarrow> sealed \<Rightarrow> ('s, store_error, unit) step" where
  "secret_write st tenant m =
     replace_file (ss_fs st) (Some 384) (ss_dir st) (secret_temporary st tenant) (secret_path st tenant)
       (ok_or bad_secret (ss_encode st m))"

definition seal :: "'s secret_store \<Rightarrow> string \<Rightarrow> string \<Rightarrow> string \<Rightarrow> ('s, store_error, string) step" where
  "seal st tenant name value =
     and_do (at ''/dev/urandom'' (hf_random (ss_fs st) 12)) (\<lambda>nonce.
     and_do (look (\<lambda>_. ok_or bad_secret (ss_encrypt st (ss_key st) nonce (aad tenant name) value))) (\<lambda>body.
     return_ok (ss_base64 st (nonce @ body))))"

definition open_secret :: "'s secret_store \<Rightarrow> string \<Rightarrow> string \<Rightarrow> string \<Rightarrow> store_error + string" where
  "open_secret st tenant name stored =
     and_then (ok_or bad_secret (ss_unbase64 st stored)) (\<lambda>raw.
     if length raw < 12 then Inl bad_secret
     else
       and_then (ok_or bad_secret
         (ss_decrypt st (ss_key st) (take 12 raw) (aad tenant name) (drop 12 raw))) (\<lambda>plain.
       if is_utf8 plain then Inr plain else Inl bad_secret))"

definition secret_put :: "'s secret_store \<Rightarrow> string \<Rightarrow> string \<Rightarrow> string \<Rightarrow> ('s, store_error, unit) step" where
  "secret_put st tenant name value =
     and_do (look (\<lambda>_. check_tenant_id tenant)) (\<lambda>_.
     and_do (look (\<lambda>_. check_secret_name name)) (\<lambda>_.
     if length value > MAX_SECRET_BYTES then fail_with bad_secret
     else
       and_do (look (secret_read st tenant)) (\<lambda>m.
       and_do (seal st tenant name value) (\<lambda>v.
       secret_write st tenant (bt_insert name v m)))))"

definition secret_names :: "'s secret_store \<Rightarrow> string \<Rightarrow> 's \<Rightarrow> store_error + string list" where
  "secret_names st tenant s =
     and_then (check_tenant_id tenant) (\<lambda>_. map_ok (map fst) (secret_read st tenant s))"

definition secret_remove :: "'s secret_store \<Rightarrow> string \<Rightarrow> string \<Rightarrow> ('s, store_error, bool) step" where
  "secret_remove st tenant name =
     and_do (look (\<lambda>_. check_tenant_id tenant)) (\<lambda>_.
     and_do (look (secret_read st tenant)) (\<lambda>m.
     if map_of m name = None then return_ok False
     else and_do (secret_write st tenant (bt_remove name m)) (\<lambda>_. return_ok True)))"

definition secret_remove_tenant :: "'s secret_store \<Rightarrow> string \<Rightarrow> ('s, store_error, unit) step" where
  "secret_remove_tenant st tenant = remove_if_there (ss_fs st) (secret_path st tenant)"

fun open_all ::
  "'s secret_store \<Rightarrow> string \<Rightarrow> sealed \<Rightarrow> (string \<times> string) list \<Rightarrow> store_error + (string \<times> string) list" where
  "open_all st tenant [] out = Inr out"
| "open_all st tenant ((name, v) # m) out =
     and_then (open_secret st tenant name v) (\<lambda>plain. open_all st tenant m (bt_insert name plain out))"

definition secret_values :: "'s secret_store \<Rightarrow> string \<Rightarrow> 's \<Rightarrow> store_error + (string \<times> string) list" where
  "secret_values st tenant s =
     and_then (check_tenant_id tenant) (\<lambda>_.
     and_then (secret_read st tenant s) (\<lambda>m. open_all st tenant m []))"

fun open_named ::
  "'s secret_store \<Rightarrow> string \<Rightarrow> sealed \<Rightarrow> string list \<Rightarrow> (string \<times> string) list \<Rightarrow> store_error + (string \<times> string) list" where
  "open_named st tenant m [] out = Inr out"
| "open_named st tenant m (name # names) out =
     (case map_of m name of
        None \<Rightarrow> open_named st tenant m names out
      | Some v \<Rightarrow>
          and_then (open_secret st tenant name v) (\<lambda>plain.
          open_named st tenant m names (bt_insert name plain out)))"

definition secret_values_named ::
  "'s secret_store \<Rightarrow> string \<Rightarrow> string list \<Rightarrow> 's \<Rightarrow> store_error + (string \<times> string) list" where
  "secret_values_named st tenant names s =
     and_then (check_tenant_id tenant) (\<lambda>_.
     and_then (secret_read st tenant s) (\<lambda>m. open_named st tenant m names []))"

end
