(* ===== verification/Zygo_Scripts.thy ===== *)
theory Zygo_Scripts
  imports Zygo_Tenants
begin

text \<open>
  The content-addressed store of scripts (\<open>crates/zygo-core/src/scripts.rs\<close>), the supervisor's
  routes to it (\<open>supervisor/stores.rs\<close>) and the script a pool's request runs
  (\<open>supervisor/runtime.rs\<close>). SHA-256 and hexadecimal text are parameters; a digest is its text.
\<close>

record 's script_store =
  sc_fs :: "'s hostfs"
  sc_sha :: "string \<Rightarrow> string"
  sc_hex :: "string \<Rightarrow> string"
  sc_process :: string
  sc_dir :: string

definition MAX_SCRIPT_BYTES :: nat where "MAX_SCRIPT_BYTES = 4 * 1024 * 1024"

definition digest_of :: "'s script_store \<Rightarrow> string \<Rightarrow> string" where
  "digest_of st source = ''sha256:'' @ sc_hex st (sc_sha st source)"

definition well_formed_hex :: "string \<Rightarrow> bool" where
  "well_formed_hex hex \<longleftrightarrow> length hex = 64
     \<and> list_all (\<lambda>b. is_ascii_digit b \<or> CHR ''a'' \<le> b \<and> b \<le> CHR ''f'') hex"

definition parse_digest :: "string \<Rightarrow> store_error + string" where
  "parse_digest body =
     (case strip_prefix ''sha256:'' body of
        None \<Rightarrow> Inl (SpecRefused ''script.digest'')
      | Some hex \<Rightarrow> if well_formed_hex hex then Inr body else Inl (SpecRefused ''script.digest''))"

definition digest_hex :: "string \<Rightarrow> string" where
  "digest_hex d = drop (length ''sha256:'') d"

definition script_path :: "'s script_store \<Rightarrow> string \<Rightarrow> string" where
  "script_path st d = path_join (sc_dir st) (digest_hex d)"

definition script_contains :: "'s script_store \<Rightarrow> string \<Rightarrow> 's \<Rightarrow> bool" where
  "script_contains st d s = hf_is_file (sc_fs st) (script_path st d) s"

definition script_temporary :: "'s script_store \<Rightarrow> string \<Rightarrow> string" where
  "script_temporary st d = path_join (sc_dir st) (''.'' @ digest_hex d @ ''.'' @ sc_process st @ ''.incoming'')"

definition script_put :: "'s script_store \<Rightarrow> string \<Rightarrow> ('s, store_error, string) step" where
  "script_put st source =
     (if length source > MAX_SCRIPT_BYTES then fail_with (SpecRefused ''script'')
      else
        let d = digest_of st source in
        (\<lambda>s. if script_contains st d s then (Inr d, s)
             else and_do (replace_file (sc_fs st) None (sc_dir st) (script_temporary st d) (script_path st d) (Inr source))
                    (\<lambda>_. return_ok d) s))"

definition script_get :: "'s script_store \<Rightarrow> string \<Rightarrow> 's \<Rightarrow> store_error + string option" where
  "script_get st d s =
     (case hf_read (sc_fs st) (script_path st d) s of
        Inl NotFound \<Rightarrow> Inr None
      | Inl e \<Rightarrow> Inl (StoreIo (script_path st d) e)
      | Inr source \<Rightarrow>
          if digest_of st source \<noteq> d then Inl (PrimitiveFailed ''script store'') else Inr (Some source))"

definition script_remove :: "'s script_store \<Rightarrow> string \<Rightarrow> ('s, store_error, bool) step" where
  "script_remove st d s =
     (case hf_remove_file (sc_fs st) (script_path st d) s of
        (Inr _, s') \<Rightarrow> (Inr True, s')
      | (Inl NotFound, s') \<Rightarrow> (Inr False, s')
      | (Inl e, s') \<Rightarrow> (Inl (StoreIo (script_path st d) e), s'))"

text \<open>The loop of \<open>list\<close>: the first entry that cannot be read ends it.\<close>

fun collect_digests :: "string \<Rightarrow> (io_error + string) list \<Rightarrow> string list \<Rightarrow> store_error + string list" where
  "collect_digests dir [] out = Inr out"
| "collect_digests dir (Inl e # es) out = Inl (StoreIo dir e)"
| "collect_digests dir (Inr name # es) out =
     (case parse_digest (''sha256:'' @ name) of
        Inr d \<Rightarrow> collect_digests dir es (out @ [d])
      | Inl _ \<Rightarrow> collect_digests dir es out)"

definition script_list :: "'s script_store \<Rightarrow> 's \<Rightarrow> store_error + string list" where
  "script_list st s =
     (case hf_read_dir (sc_fs st) (sc_dir st) s of
        Inl NotFound \<Rightarrow> Inr []
      | Inl e \<Rightarrow> Inl (StoreIo (sc_dir st) e)
      | Inr es \<Rightarrow> map_ok sort (collect_digests (sc_dir st) es []))"

section \<open>The supervisor's side\<close>

text \<open>\<open>put_script\<close> answers with the digest, the size and whether the store had it.\<close>

definition put_script ::
  "'s script_store \<Rightarrow> ('s, 'c) tenant_store \<Rightarrow> string \<Rightarrow> string option \<Rightarrow> ('s, control_error, string \<times> nat \<times> bool) step" where
  "put_script st ts source tenant s =
     (let existed = script_contains st (digest_of st source) s in
      case script_put st source s of
        (Inl _, s1) \<Rightarrow> (Inl BadSpec, s1)
      | (Inr d, s1) \<Rightarrow>
          (case tenant of
             None \<Rightarrow> (Inr (d, length source, existed), s1)
           | Some t \<Rightarrow>
               (case add_script ts t d s1 of
                  (Inl _, s2) \<Rightarrow> (Inl BadSpec, s2)
                | (Inr _, s2) \<Rightarrow> (Inr (d, length source, existed), s2))))"

definition delete_script :: "'s script_store \<Rightarrow> string \<Rightarrow> ('s, control_error, unit) step" where
  "delete_script st body s =
     (case parse_digest body of
        Inl _ \<Rightarrow> (Inl BadSpec, s)
      | Inr d \<Rightarrow>
          (case script_remove st d s of
             (Inr True, s') \<Rightarrow> (Inr (), s')
           | (Inr False, s') \<Rightarrow> (Inl NoSuch, s')
           | (Inl _, s') \<Rightarrow> (Inl CallFailed, s')))"

record script =
  scr_path :: "string option"
  scr_source :: "string option"
  scr_digest :: "string option"
  scr_entry_point :: "string option"

definition is_loadable :: "script \<Rightarrow> bool" where
  "is_loadable x \<longleftrightarrow> scr_path x \<noteq> None \<or> scr_source x \<noteq> None"

definition script_for_request ::
  "'s script_store \<Rightarrow> ('s, 'c) tenant_store \<Rightarrow> script \<Rightarrow> string option \<Rightarrow> 's \<Rightarrow> control_error + script" where
  "script_for_request st ts x tenant s =
     (if is_loadable x then Inr x
      else
        and_then (ok_or BadSpec (scr_digest x)) (\<lambda>body.
        and_then (map_err (\<lambda>_. BadSpec) (parse_digest body)) (\<lambda>d.
        and_then
          (case tenant of
             None \<Rightarrow> Inr ()
           | Some t \<Rightarrow>
               and_then (map_err (\<lambda>_. BadSpec) (tenant_get ts t s)) (\<lambda>found.
               case found of
                 Some r \<Rightarrow> if d \<in> set (tn_scripts r) then Inr () else Inl NoSuch
               | None \<Rightarrow> Inl NoSuch)) (\<lambda>_.
        case script_get st d s of
          Inl _ \<Rightarrow> Inl CallFailed
        | Inr None \<Rightarrow> Inl NoSuch
        | Inr (Some source) \<Rightarrow> Inr (x\<lparr>scr_source := Some source\<rparr>)))))"

end
