(* ===== verification/Zygo_Runtime.thy ===== *)
theory Zygo_Runtime
  imports Rust_Nums
begin

text \<open>
  Runtime pools (\<open>crates/zygo-core/src/supervisor/runtime.rs\<close>): the zygotes of one pool, which
  one a request runs on, growing, pruning and the idle policy, and the threads that do this at
  the same time.

  What the code does under the pool's lock is one step; what it does outside is a step of its
  own, so a request that leaves takes two: it is counted out, and then the zygote's mark and
  clock are set. The pool's list holds the zygotes by identity (their \<open>Arc\<close>). Counts are
  natural numbers: the gate, whose permits are a \<open>u32\<close>, bounds them. Times are milliseconds.
  Starting a sandbox, pausing one and the death of an agent are the environment's: whether they
  work is part of the event, and what a frozen cgroup does to the processes in it is not in the
  model.
\<close>

section \<open>Choosing a zygote\<close>

record seat =
  st_healthy :: bool
  st_in_flight :: nat
  st_alone :: bool

fun position :: "('a \<Rightarrow> bool) \<Rightarrow> 'a list \<Rightarrow> nat option" where
  "position P [] = None"
| "position P (x # xs) = (if P x then Some 0 else map_option Suc (position P xs))"

definition choose_seat :: "seat list \<Rightarrow> bool \<Rightarrow> nat option" where
  "choose_seat seats alone =
     (if alone then position (\<lambda>s. st_healthy s \<and> st_in_flight s = 0) seats
      else map_option fst (min_by_key (\<lambda>e. st_in_flight (snd e))
             (filter (\<lambda>e. st_healthy (snd e) \<and> \<not> st_alone (snd e)) (enumerate 0 seats))))"

section \<open>Zygotes\<close>

text \<open>\<open>zy_warm\<close> is whether its state is \<open>Warm\<close>, which a pause ends.\<close>

record zygote =
  zy_id :: nat
  zy_healthy :: bool
  zy_in_flight :: nat
  zy_alone :: bool
  zy_last_used :: nat
  zy_warm :: bool

definition new_zygote :: "nat \<Rightarrow> nat \<Rightarrow> zygote" where
  "new_zygote z now = \<lparr>zy_id = z, zy_healthy = True, zy_in_flight = 0, zy_alone = False, zy_last_used = now, zy_warm = True\<rparr>"

definition claim :: "bool \<Rightarrow> zygote \<Rightarrow> zygote" where
  "claim alone z = z\<lparr>zy_in_flight := zy_in_flight z + 1, zy_alone := alone \<or> zy_alone z\<rparr>"

definition idle_for :: "nat \<Rightarrow> zygote \<Rightarrow> nat" where
  "idle_for now z = now - zy_last_used z"

text \<open>The two halves of dropping a \<open>Busy\<close>.\<close>

definition count_out :: "zygote \<Rightarrow> zygote" where
  "count_out z = z\<lparr>zy_in_flight := zy_in_flight z - 1\<rparr>"

definition clear_mark :: "nat \<Rightarrow> zygote \<Rightarrow> zygote" where
  "clear_mark now z = z\<lparr>zy_alone := False, zy_last_used := now\<rparr>"

definition seat_of :: "zygote \<Rightarrow> seat" where
  "seat_of z = \<lparr>st_healthy = zy_healthy z, st_in_flight = zy_in_flight z, st_alone = zy_alone z\<rparr>"

section \<open>The pool\<close>

record pool_config =
  rp_min_warm :: nat
  rp_max_warm :: nat
  rp_concurrency :: nat
  rp_cold_after :: nat
  rp_idle_timeout :: nat

text \<open>What \<open>pick_zygote\<close> finds under the lock: a zygote, now claimed, or what to do instead.\<close>

datatype picked = Claimed nat | AtCapacity | MustGrow

definition pick_locked :: "pool_config \<Rightarrow> bool \<Rightarrow> zygote list \<Rightarrow> picked \<times> zygote list" where
  "pick_locked c alone zs =
     (case choose_seat (map seat_of zs) alone of
        Some i \<Rightarrow> (Claimed (zy_id (zs ! i)), zs[i := claim alone (zs ! i)])
      | None \<Rightarrow>
          (if list_ex zy_healthy zs \<and> rp_max_warm c \<le> length zs then AtCapacity else MustGrow, zs))"

definition prune_zygotes :: "zygote list \<Rightarrow> zygote list" where
  "prune_zygotes zs = filter (\<lambda>z. zy_healthy z \<or> zy_in_flight z > 0) zs"

definition add_zygote :: "nat \<Rightarrow> nat \<Rightarrow> bool option \<Rightarrow> zygote list \<Rightarrow> zygote list" where
  "add_zygote z now claimed zs =
     zs @ [case claimed of Some alone \<Rightarrow> claim alone (new_zygote z now) | None \<Rightarrow> new_zygote z now]"

text \<open>Whether \<open>scale_runtimes\<close> grows a pool; the product saturates.\<close>

definition wants_zygote :: "pool_config \<Rightarrow> nat \<Rightarrow> nat \<Rightarrow> nat \<Rightarrow> bool" where
  "wants_zygote c warm in_flight queued \<longleftrightarrow>
     warm < rp_min_warm c
     \<or> warm < rp_max_warm c \<and> in_flight + queued > min u32_max (warm * rp_concurrency c)"

text \<open>
  The loop of \<open>tier_idle_runtimes\<close> over one pool: the zygotes already passed, those to come;
  the zygotes left, the names cooled and paused. \<open>pause\<close> tells whether pausing one works.
\<close>

fun tier_zygotes ::
  "pool_config \<Rightarrow> nat \<Rightarrow> (nat \<Rightarrow> bool) \<Rightarrow> zygote list \<Rightarrow> zygote list \<Rightarrow> zygote list \<times> nat list \<times> nat list" where
  "tier_zygotes c now pause passed [] = (passed, [], [])"
| "tier_zygotes c now pause passed (z # rest) =
     (if zy_in_flight z > 0 then tier_zygotes c now pause (passed @ [z]) rest
      else if length (passed @ z # rest) > rp_min_warm c \<and> idle_for now z \<ge> rp_cold_after c then
        (let (zs, cooled, paused) = tier_zygotes c now pause passed rest in (zs, zy_id z # cooled, paused))
      else if idle_for now z \<ge> rp_idle_timeout c \<and> zy_warm z \<and> pause (zy_id z) then
        (let (zs, cooled, paused) = tier_zygotes c now pause (passed @ [z\<lparr>zy_warm := False\<rparr>]) rest
         in (zs, cooled, zy_id z # paused))
      else tier_zygotes c now pause (passed @ [z]) rest)"

section \<open>Requests and threads\<close>

text \<open>
  Where a request is: admitted by the gate and about to pick; told to grow the pool; starting a
  zygote; running on one; counted out, its mark not yet cleared; gone. \<open>Refused\<close> is \<open>BUSY\<close>, or
  a zygote that could not be started.
\<close>

datatype phase = Waiting | Growing | Warming | On nat | Left nat | Gone | Refused

record pool_state =
  ps_zygotes :: "zygote list"
  ps_next :: nat
  ps_phase :: "nat \<Rightarrow> phase"
  ps_scaling :: bool

definition pool_start :: "zygote list \<Rightarrow> pool_state" where
  "pool_start zs = \<lparr>ps_zygotes = zs, ps_next = length zs, ps_phase = (\<lambda>_. Waiting), ps_scaling = False\<rparr>"

text \<open>A zygote of the list, or one that was dropped from it, which nothing shows any more.\<close>

definition update_zygote :: "nat \<Rightarrow> (zygote \<Rightarrow> zygote) \<Rightarrow> zygote list \<Rightarrow> zygote list" where
  "update_zygote k f zs = map (\<lambda>z. if zy_id z = k then f z else z) zs"

definition with_phase :: "nat \<Rightarrow> phase \<Rightarrow> pool_state \<Rightarrow> pool_state" where
  "with_phase r p s = s\<lparr>ps_phase := (ps_phase s)(r := p)\<rparr>"

text \<open>
  The steps: of a request, of the idle thread, and of the environment. An agent dies, and a
  request resumes the zygote it was given, at any time.
\<close>

datatype pool_event =
    Pick nat | PruneFor nat | Warmed nat nat | WarmFailed nat | Resume nat | CountOut nat | Clear nat nat
  | ScalePrune | ScaleDecide nat nat | ScaleWarmed nat | ScaleFailed | Tier nat "nat \<Rightarrow> bool"
  | Died nat

fun pool_apply :: "pool_config \<Rightarrow> (nat \<Rightarrow> bool) \<Rightarrow> pool_event \<Rightarrow> pool_state \<Rightarrow> pool_state option" where
  "pool_apply c needs (Pick r) s =
     (if ps_phase s r \<noteq> Waiting then None
      else case pick_locked c (needs r) (ps_zygotes s) of
        (Claimed k, zs) \<Rightarrow> Some (with_phase r (On k) (s\<lparr>ps_zygotes := zs\<rparr>))
      | (AtCapacity, _) \<Rightarrow> Some (with_phase r Refused s)
      | (MustGrow, _) \<Rightarrow> Some (with_phase r Growing s))"
| "pool_apply c needs (PruneFor r) s =
     (if ps_phase s r \<noteq> Growing then None
      else Some (with_phase r Warming (s\<lparr>ps_zygotes := prune_zygotes (ps_zygotes s)\<rparr>)))"
| "pool_apply c needs (Warmed r now) s =
     (if ps_phase s r \<noteq> Warming then None
      else Some (with_phase r (On (ps_next s))
        (s\<lparr>ps_zygotes := add_zygote (ps_next s) now (Some (needs r)) (ps_zygotes s), ps_next := ps_next s + 1\<rparr>)))"
| "pool_apply c needs (WarmFailed r) s =
     (if ps_phase s r \<noteq> Warming then None else Some (with_phase r Refused s))"
| "pool_apply c needs (Resume r) s =
     (case ps_phase s r of
        On k \<Rightarrow> Some (s\<lparr>ps_zygotes := update_zygote k (\<lambda>z. z\<lparr>zy_warm := True\<rparr>) (ps_zygotes s)\<rparr>)
      | _ \<Rightarrow> None)"
| "pool_apply c needs (CountOut r) s =
     (case ps_phase s r of
        On k \<Rightarrow> Some (with_phase r (Left k) (s\<lparr>ps_zygotes := update_zygote k count_out (ps_zygotes s)\<rparr>))
      | _ \<Rightarrow> None)"
| "pool_apply c needs (Clear r now) s =
     (case ps_phase s r of
        Left k \<Rightarrow> Some (with_phase r Gone (s\<lparr>ps_zygotes := update_zygote k (clear_mark now) (ps_zygotes s)\<rparr>))
      | _ \<Rightarrow> None)"
| "pool_apply c needs ScalePrune s = Some (s\<lparr>ps_zygotes := prune_zygotes (ps_zygotes s)\<rparr>)"
| "pool_apply c needs (ScaleDecide in_flight queued) s =
     (if ps_scaling s then None
      else Some (s\<lparr>ps_scaling := wants_zygote c (length (ps_zygotes s)) in_flight queued\<rparr>))"
| "pool_apply c needs (ScaleWarmed now) s =
     (if \<not> ps_scaling s then None
      else Some (s\<lparr>ps_zygotes := add_zygote (ps_next s) now None (ps_zygotes s), ps_next := ps_next s + 1, ps_scaling := False\<rparr>))"
| "pool_apply c needs ScaleFailed s = (if \<not> ps_scaling s then None else Some (s\<lparr>ps_scaling := False\<rparr>))"
| "pool_apply c needs (Tier now pause) s =
     (if ps_scaling s then None
      else Some (s\<lparr>ps_zygotes := fst (tier_zygotes c now pause [] (ps_zygotes s))\<rparr>))"
| "pool_apply c needs (Died k) s = Some (s\<lparr>ps_zygotes := update_zygote k (\<lambda>z. z\<lparr>zy_healthy := False\<rparr>) (ps_zygotes s)\<rparr>)"

text \<open>A run is a list of events: any interleaving of any threads.\<close>

fun run_pool :: "pool_config \<Rightarrow> (nat \<Rightarrow> bool) \<Rightarrow> pool_event list \<Rightarrow> pool_state \<Rightarrow> pool_state option" where
  "run_pool c needs [] s = Some s"
| "run_pool c needs (e # es) s = Option.bind (pool_apply c needs e s) (run_pool c needs es)"

end
