(* ===== verification/Zygo_Tenancy.thy ===== *)
theory Zygo_Tenancy
  imports Zygo_Tokens Zygo_Secrets Zygo_Scripts Zygo_Runtime Zygo_Resolve
begin

text \<open>
  The supervisor's side of everything that is about a tenant
  (\<open>crates/zygo-core/src/supervisor/tenants.rs\<close>, the secrets of a request in
  \<open>supervisor/runtime.rs\<close>): registering and forgetting tenants, their secrets and their tokens,
  over the four stores. Stopping what runs and removing the tenant's cgroup are steps of the
  host; the environment variable and the range of subordinate uids are what it answers.
\<close>

record ('s, 'c) host =
  ho_tenants :: "('s, 'c) tenant_store"
  ho_tokens :: "'s token_store"
  ho_secrets :: "'s secret_store option"
  ho_scripts :: "'s script_store"
  ho_shared_uid :: "string option"
  ho_subuid_range :: bool
  ho_stop :: "string \<Rightarrow> 's \<Rightarrow> string list \<times> 's"
  ho_drop_cgroup :: "string \<Rightarrow> 's \<Rightarrow> 's"

definition ALLOW_SHARED_UID_ENV :: string where
  "ALLOW_SHARED_UID_ENV = ''ZYGO_ALLOW_SHARED_UID''"

text \<open>On Linux, outside the unit tests.\<close>

definition uid_separation_or_allowed :: "('s, 'c) host \<Rightarrow> bool" where
  "uid_separation_or_allowed h \<longleftrightarrow> ho_shared_uid h = Some ''1'' \<or> ho_subuid_range h"

text \<open>An error of a store becomes the answer \<open>e\<close>.\<close>

definition answering :: "'e \<Rightarrow> ('s, 'x, 'a) step \<Rightarrow> ('s, 'e, 'a) step" where
  "answering e m s = (map_err (\<lambda>_. e) (fst (m s)), snd (m s))"

section \<open>Tenants\<close>

definition create_tenant :: "('s, 'c) host \<Rightarrow> string \<Rightarrow> ('s, control_error, 'c tenant \<times> bool) step" where
  "create_tenant h tid =
     (if \<not> uid_separation_or_allowed h then fail_with BadSpec
      else answering BadSpec (tenant_create (ho_tenants h) tid))"

definition show_tenants :: "('s, 'c) host \<Rightarrow> string option \<Rightarrow> 's \<Rightarrow> control_error + 'c tenant list" where
  "show_tenants h tid s =
     (case tid of
        Some i \<Rightarrow>
          and_then (map_err (\<lambda>_. BadSpec) (tenant_get (ho_tenants h) i s)) (\<lambda>found.
          case found of Some t \<Rightarrow> Inr [t] | None \<Rightarrow> Inl NoSuch)
      | None \<Rightarrow> map_err (\<lambda>_. CallFailed) (tenant_list (ho_tenants h) s))"

text \<open>The scripts nobody else refers to are removed as far as that goes.\<close>

fun remove_scripts :: "'s script_store \<Rightarrow> string list \<Rightarrow> 's \<Rightarrow> 's" where
  "remove_scripts st [] s = s"
| "remove_scripts st (d # ds) s =
     remove_scripts st ds (case parse_digest d of Inr d' \<Rightarrow> snd (script_remove st d' s) | Inl _ \<Rightarrow> s)"

text \<open>
  The answer names the tenant, the scripts taken and what was stopped. What \<open>remove\<close> answers
  for a record that has vanished in between is an empty list.
\<close>

definition delete_tenant ::
  "('s, 'c) host \<Rightarrow> string \<Rightarrow> ('s, control_error, 'c tenant \<times> string list \<times> string list) step" where
  "delete_tenant h tid =
     and_do (look (\<lambda>s. map_err (\<lambda>_. BadSpec) (tenant_get (ho_tenants h) tid s))) (\<lambda>found.
     case found of
       None \<Rightarrow> fail_with NoSuch
     | Some t \<Rightarrow>
         and_do (\<lambda>s. (Inr (fst (ho_stop h tid s)), snd (ho_stop h tid s))) (\<lambda>stopped.
         and_do (answering CallFailed (revoke_tenants (ho_tokens h) tid)) (\<lambda>_.
         and_do (case ho_secrets h of
                   Some st \<Rightarrow> answering CallFailed (secret_remove_tenant st tid)
                 | None \<Rightarrow> return_ok ()) (\<lambda>_.
         and_do (answering CallFailed (tenant_remove (ho_tenants h) tid)) (\<lambda>removed.
         let scripts = (case removed of Some ds \<Rightarrow> ds | None \<Rightarrow> []) in
         (\<lambda>s. (Inr (t, scripts, stopped), ho_drop_cgroup h tid (remove_scripts (ho_scripts h) scripts s))))))))"

section \<open>Secrets\<close>

definition secrets_or_refuse :: "('s, 'c) host \<Rightarrow> control_error + 's secret_store" where
  "secrets_or_refuse h = ok_or BadSpec (ho_secrets h)"

definition names_of_secrets :: "('s, 'c) host \<Rightarrow> string \<Rightarrow> 's \<Rightarrow> control_error + string list" where
  "names_of_secrets h tenant s =
     and_then (secrets_or_refuse h) (\<lambda>st. map_err (\<lambda>_. BadSpec) (secret_names st tenant s))"

definition put_secret :: "('s, 'c) host \<Rightarrow> string \<Rightarrow> string \<Rightarrow> string \<Rightarrow> ('s, control_error, string list) step" where
  "put_secret h tenant name value =
     and_do (look (\<lambda>_. secrets_or_refuse h)) (\<lambda>st.
     and_do (answering BadSpec (tenant_create (ho_tenants h) tenant)) (\<lambda>_.
     and_do (answering BadSpec (secret_put st tenant name value)) (\<lambda>_.
     look (names_of_secrets h tenant))))"

definition delete_secret :: "('s, 'c) host \<Rightarrow> string \<Rightarrow> string \<Rightarrow> ('s, control_error, string list) step" where
  "delete_secret h tenant name =
     and_do (look (\<lambda>_. secrets_or_refuse h)) (\<lambda>st.
     and_do (answering BadSpec (secret_remove st tenant name)) (\<lambda>there.
     if there then look (names_of_secrets h tenant) else fail_with NoSuch))"

text \<open>The secrets of one request to a pool: those the pool names, of the tenant that calls.\<close>

definition secrets_for_pool_request ::
  "('s, 'c) host \<Rightarrow> string list \<Rightarrow> string option \<Rightarrow> 's \<Rightarrow> control_error + (string \<times> string) list option" where
  "secrets_for_pool_request h names tenant s =
     (if names = [] then Inr None
      else
        and_then (secrets_or_refuse h) (\<lambda>st.
        let t = (case tenant of Some t \<Rightarrow> t | None \<Rightarrow> DEFAULT_TENANT) in
        and_then (map_err (\<lambda>_. CallFailed) (secret_values_named st t names s)) (\<lambda>vals.
        if filter (\<lambda>n. map_of vals n = None) names \<noteq> [] then Inl BadSpec else Inr (Some vals))))"

section \<open>Tokens\<close>

definition mint_token :: "('s, 'c) host \<Rightarrow> string option \<Rightarrow> ('s, control_error, token \<times> string) step" where
  "mint_token h tenant =
     and_do (case tenant of
         Some tid \<Rightarrow> and_do (answering BadSpec (tenant_create (ho_tenants h) tid)) (\<lambda>_. return_ok (TenantToken tid))
       | None \<Rightarrow> return_ok Operator) (\<lambda>kind.
     answering BadSpec (mint (ho_tokens h) kind))"

definition list_tokens :: "('s, 'c) host \<Rightarrow> 's \<Rightarrow> control_error + token list" where
  "list_tokens h s = map_err (\<lambda>_. CallFailed) (token_list (ho_tokens h) s)"

definition revoke_token :: "('s, 'c) host \<Rightarrow> string \<Rightarrow> ('s, control_error, token list) step" where
  "revoke_token h tid =
     (if \<not> valid_token_id tid then fail_with BadSpec
      else
        and_do (answering CallFailed (revoke (ho_tokens h) tid)) (\<lambda>there.
        if there then look (list_tokens h) else fail_with NoSuch))"

section \<open>Before a request reaches a zygote\<close>

text \<open>
  The start of \<open>exec_script_full\<close>: the tenant's limits, its script, the pool's secrets in its
  name, and then the pick, alone when there are secrets. Anything refused is refused before a
  zygote is claimed. The workspace, the gate and the growing of the pool come before and after.
\<close>

definition prepare_request ::
  "('s, 'c) host \<Rightarrow> string list \<Rightarrow> script \<Rightarrow> string option \<Rightarrow> 's
     \<Rightarrow> control_error + ('c tenant_limits option \<times> script \<times> (string \<times> string) list option)" where
  "prepare_request h names x tenant s =
     and_then (limits_for (ho_tenants h) tenant s) (\<lambda>limits.
     and_then (script_for_request (ho_scripts h) (ho_tenants h) x tenant s) (\<lambda>x'.
     and_then (secrets_for_pool_request h names tenant s) (\<lambda>secrets.
     Inr (limits, x', secrets))))"

definition pick_for_request ::
  "('s, 'c) host \<Rightarrow> pool_config \<Rightarrow> string list \<Rightarrow> script \<Rightarrow> string option \<Rightarrow> 's \<Rightarrow> zygote list
     \<Rightarrow> (control_error + picked) \<times> zygote list" where
  "pick_for_request h c names x tenant s zs =
     (case prepare_request h names x tenant s of
        Inl e \<Rightarrow> (Inl e, zs)
      | Inr (_, _, secrets) \<Rightarrow>
          (let (p, zs') = pick_locked c (secrets \<noteq> None) zs in (Inr p, zs')))"

end
