(* ===== verification/Zygo_Memfs.thy ===== *)
theory Zygo_Memfs
  imports Zygo_Store
begin

text \<open>
  A file system in memory that meets the contract: a list of files by path components, newest
  first. The instances of the stores' properties run on it.
\<close>

type_synonym memfs = "(component list \<times> string \<times> nat) list"

definition mem_put :: "component list \<Rightarrow> string \<times> nat \<Rightarrow> memfs \<Rightarrow> memfs" where
  "mem_put q f s = (q, f) # filter (\<lambda>e. fst e \<noteq> q) s"

definition mem_drop :: "component list \<Rightarrow> memfs \<Rightarrow> memfs" where
  "mem_drop q s = filter (\<lambda>e. fst e \<noteq> q) s"

definition mem_child :: "component list \<Rightarrow> component list \<Rightarrow> string option" where
  "mem_child d q =
     (if q \<noteq> [] \<and> butlast q = d then (case last q of Normal n \<Rightarrow> Some n | _ \<Rightarrow> None) else None)"

text \<open>Every file is older than the files written after it, so the count of files is a clock.\<close>

definition memory_fs :: "memfs hostfs" where
  "memory_fs =
     \<lparr>hf_read = (\<lambda>p s. case map_of s (components p) of None \<Rightarrow> Inl NotFound | Some (t, _) \<Rightarrow> Inr t),
      hf_read_dir = (\<lambda>d s. Inr (map Inr (List.map_filter (\<lambda>e. mem_child (components d) (fst e)) s))),
      hf_is_file = (\<lambda>p s. map_of s (components p) \<noteq> None),
      hf_now_ms = (\<lambda>s. length s),
      hf_create_dir_all = (\<lambda>_ s. (Inr (), s)),
      hf_write = (\<lambda>p t s. (Inr (), mem_put (components p) (t, 420) s)),
      hf_chmod = (\<lambda>p m s. case map_of s (components p) of
          None \<Rightarrow> (Inl NotFound, s)
        | Some (t, _) \<Rightarrow> (Inr (), mem_put (components p) (t, m) s)),
      hf_rename = (\<lambda>a b s. case map_of s (components a) of
          None \<Rightarrow> (Inl NotFound, s)
        | Some f \<Rightarrow> (Inr (), mem_drop (components a) (mem_put (components b) f s))),
      hf_remove_file = (\<lambda>p s. case map_of s (components p) of
          None \<Rightarrow> (Inl NotFound, s)
        | Some _ \<Rightarrow> (Inr (), mem_drop (components p) s)),
      hf_random = (\<lambda>n s. (Inr (map (\<lambda>_. CHR 0x00) [0..<n]), s))\<rparr>"

lemma map_of_drop: "map_of (mem_drop q s) = (map_of s)(q := None)"
proof (induction s)
  case (Cons e s)
  then show ?case
    by (cases e) (auto simp: mem_drop_def fun_eq_iff)
qed (simp add: mem_drop_def)

lemma map_of_put: "map_of (mem_put q f s) = (map_of s)(q \<mapsto> f)"
  using map_of_drop [of q s] by (simp add: mem_put_def mem_drop_def fun_upd_idem_iff)

lemma memory_lists:
  assumes "map_of s (d @ [Normal n]) = Some f"
  shows "n \<in> set (List.map_filter (\<lambda>e. mem_child d (fst e)) s)"
proof -
  have "(d @ [Normal n], f) \<in> set s"
    using assms by (rule map_of_SomeD)
  then show ?thesis
    by (force simp: set_map_filter mem_child_def)
qed

lemma memory_fs_contract: "hostfs_contract memory_fs map_of"
  unfolding hostfs_contract_def
proof (intro conjI)
  show "reads_truly memory_fs map_of"
    by (auto simp: reads_truly_def memory_fs_def contents_def split: option.splits)
  show "lists_all memory_fs map_of"
    unfolding lists_all_def
  proof (intro allI impI)
    fix d n and s :: memfs
    assume "map_of s (components d @ [Normal n]) \<noteq> None"
    then show "case hf_read_dir memory_fs d s of Inl e \<Rightarrow> e \<noteq> NotFound
        | Inr es \<Rightarrow> Inr n \<in> set es \<or> (\<exists>e. Inl e \<in> set es)"
      using memory_lists [of s "components d" n] by (auto simp: memory_fs_def)
  qed
  show "mkdir_keeps_files memory_fs map_of" "random_keeps_files memory_fs map_of"
    by (simp_all add: mkdir_keeps_files_def random_keeps_files_def memory_fs_def)
  show "write_sets memory_fs map_of"
    by (auto simp: write_sets_def memory_fs_def map_of_put touches_def contents_def)
  show "chmod_sets memory_fs map_of"
    unfolding chmod_sets_def
  proof (intro allI impI)
    fix p m r and s s' :: memfs
    assume "hf_chmod memory_fs p m s = (r, s')"
    then show "map_of s' = (if is_ok r then (map_of s)(components p := map_option (\<lambda>(t, _). (t, m)) (map_of s (components p)))
        else map_of s)"
      by (cases "map_of s (components p)") (auto simp: memory_fs_def map_of_put)
  qed
  show "rename_moves memory_fs map_of"
    by (auto simp: rename_moves_def memory_fs_def map_of_put map_of_drop split: option.splits)
  show "remove_removes memory_fs map_of"
    by (auto simp: remove_removes_def memory_fs_def map_of_drop split: option.splits)
qed

text \<open>A codec for the values of a list: a text is as long as the place of its value.\<close>

definition known_encode :: "'a list \<Rightarrow> 'a \<Rightarrow> string option" where
  "known_encode known x =
     (if x \<in> set known then Some (replicate (length (takeWhile (\<lambda>y. y \<noteq> x) known)) CHR ''a'') else None)"

definition known_decode :: "'a list \<Rightarrow> string \<Rightarrow> 'a option" where
  "known_decode known body = (if length body < length known then Some (known ! length body) else None)"

lemma known_codec: "known_encode known x = Some body \<Longrightarrow> known_decode known body = Some x"
proof (induction known arbitrary: body)
  case (Cons y known)
  show ?case
  proof (cases "y = x")
    case False
    then have "x \<in> set known"
      using Cons.prems by (auto simp: known_encode_def split: if_splits)
    then have "known_encode known x = Some (tl body)" "length body = Suc (length (tl body))"
      using Cons.prems False by (auto simp: known_encode_def)
    then have "known_decode known (tl body) = Some x"
      using Cons.IH by blast
    then show ?thesis
      using \<open>length body = Suc (length (tl body))\<close>
      by (simp only: known_decode_def length_Cons nth_Cons_Suc Suc_less_eq)
  qed (use Cons.prems in \<open>auto simp: known_encode_def known_decode_def\<close>)
qed (simp add: known_encode_def)

end
