(* ===== verification/Zygo_Tokens_Laws.thy ===== *)
theory Zygo_Tokens_Laws
  imports Zygo_Tokens Zygo_Memfs
begin

text \<open>
  What the tokens promise: a minted secret resolves to its token until that is revoked or its
  tenant goes, what is revoked stays revoked over any sequence of operations, the store file
  is replaced whole and private, and a request acts for whom its token says. And what they do
  not: two operations that interleave can undo a revocation.
\<close>

section \<open>The store\<close>

definition tokens_ok :: "'s token_store \<times> 's files \<Rightarrow> bool" where
  "tokens_ok p \<longleftrightarrow> (case p of (st, files) \<Rightarrow>
     hostfs_contract (ts_fs st) files \<and> (\<exists>d. is_absolute d \<and> ts_path st = path_join d ''tokens.json'')
     \<and> CHR ''/'' \<notin> set (ts_process st)
     \<and> (\<forall>ts text. ts_encode st ts = Some text \<longrightarrow> ts_decode st text = Some ts))"

definition token_view :: "'s token_store \<times> 's files \<Rightarrow> unit \<Rightarrow> 's \<Rightarrow> token list option" where
  "token_view p u s = (case p of (st, files) \<Rightarrow>
     (case contents files s (ts_path st) of None \<Rightarrow> Some [] | Some text \<Rightarrow> ts_decode st text))"

lemma token_temporary_last:
  assumes "tokens_ok (st, files)"
  shows "last (components (token_temporary st)) = Normal (''.tokens.'' @ ts_process st @ ''.incoming'')"
proof -
  obtain d where d: "is_absolute d" "ts_path st = path_join d ''tokens.json''"
    using assms by (auto simp: tokens_ok_def)
  have plain: "plain ''tokens.json''"
    by (simp add: plain_def)
  have abs: "is_absolute (ts_path st)"
    unfolding d(2) by (rule is_absolute_file [OF d(1) plain])
  moreover have "path_parent (ts_path st) \<noteq> None"
    using components_file [OF d(1) plain] components_absolute [OF d(1)] abs d(2) by (auto simp: path_parent_def Let_def)
  ultimately have "is_absolute (token_dir st)"
    using is_absolute_parent by (auto simp: token_dir_def)
  moreover have "plain (''.tokens.'' @ ts_process st @ ''.incoming'')"
    using assms by (auto simp: plain_def tokens_ok_def)
  ultimately show ?thesis
    using components_file by (simp add: token_temporary_def)
qed

lemma token_temporary_differs:
  assumes "tokens_ok (st, files)"
  shows "components (token_temporary st) \<noteq> components (ts_path st)"
proof -
  obtain d where d: "is_absolute d" "ts_path st = path_join d ''tokens.json''"
    using assms by (auto simp: tokens_ok_def)
  have "components (ts_path st) = components d @ [Normal ''tokens.json'']"
    unfolding d(2) by (rule components_file [OF d(1)]) (simp add: plain_def)
  then show ?thesis
    using token_temporary_last [OF assms] by auto
qed

lemma token_write_view:
  assumes ok: "tokens_ok (st, files)" and run: "token_write st ts s = (r, s')"
  shows "token_view (st, files) () s' = (if is_ok r then Some ts else token_view (st, files) () s)"
    and "is_ok r \<Longrightarrow> \<exists>v. files s' (components (ts_path st)) = Some (v, PRIVATE_MODE)"
    and "touches files (\<lambda>q. q = components (token_temporary st) \<or> q = components (ts_path st)) s s'"
proof -
  have contract: "hostfs_contract (ts_fs st) files"
    and codec: "\<And>text. ts_encode st ts = Some text \<Longrightarrow> ts_decode st text = Some ts"
    using ok by (simp_all add: tokens_ok_def)
  note atomic = replace_file_atomic [OF contract token_temporary_differs [OF ok] run [unfolded token_write_def]]
  show "token_view (st, files) () s' = (if is_ok r then Some ts else token_view (st, files) () s)"
    using atomic(2,3) codec
    by (cases "is_ok r") (auto simp: token_view_def contents_def result_simps dest!: sym [of "Inr _"])
  show "is_ok r \<Longrightarrow> \<exists>v. files s' (components (ts_path st)) = Some (v, PRIVATE_MODE)"
    using atomic(2) by blast
  show "touches files (\<lambda>q. q = components (token_temporary st) \<or> q = components (ts_path st)) s s'"
    by (rule atomic(1))
qed

lemma token_list_view:
  assumes "tokens_ok (st, files)" and "token_list st s = Inr ts"
  shows "token_view (st, files) () s = Some ts"
proof -
  have contract: "hostfs_contract (ts_fs st) files"
    using assms(1) by (simp add: tokens_ok_def)
  obtain x where x: "read_record (ts_fs st) (PrimitiveFailed ''token store'') (ts_decode st) (ts_path st) s = Inr x"
    and ts: "ts = (case x of Some ts \<Rightarrow> ts | None \<Rightarrow> [])"
    using assms(2) by (auto simp: token_list_def result_simps)
  show ?thesis
    using read_record_view [OF contract x] ts by (auto simp: token_view_def split: option.splits)
qed

interpretation tokens: record_store tokens_ok "\<lambda>_. True" "\<lambda>p _. token_list (fst p)" "\<lambda>p _. token_write (fst p)" token_view
proof unfold_locales
  fix p :: "'s token_store \<times> 's files" and k :: unit and x s
  assume "tokens_ok p" and "token_list (fst p) s = Inr x"
  then show "token_view p k s = Some x"
    using token_list_view [of "fst p" "snd p"] by simp
next
  fix p :: "'s token_store \<times> 's files" and k :: unit and x s r s'
  assume "tokens_ok p" and "token_write (fst p) x s = (r, s')"
  then show "token_view p k s' = (if is_ok r then Some x else token_view p k s)"
    using token_write_view(1) [of "fst p" "snd p"] by simp
qed simp

section \<open>The operations\<close>

lemma token_view_cong:
  "files s' (components (ts_path st)) = files s (components (ts_path st)) \<Longrightarrow>
     token_view (st, files) u s' = token_view (st, files) u s"
  by (simp add: token_view_def contents_def)

lemma mint_spec:
  assumes ok: "tokens_ok (st, files)" and run: "mint st kind s = (r, s')"
  shows "r = Inr (t, secret) \<Longrightarrow> \<exists>ts. token_view (st, files) () s = Some ts \<and> token_view (st, files) () s' = Some (ts @ [t])
      \<and> tk_hash t = token_hash st secret \<and> tk_kind t = kind \<and> \<not> revoked t
      \<and> (\<exists>v. files s' (components (ts_path st)) = Some (v, PRIVATE_MODE))"
    and "r = Inl e \<Longrightarrow> token_view (st, files) () s' = token_view (st, files) () s"
proof -
  let ?check = "case kind of TenantToken x \<Rightarrow> check_tenant_id x | Operator \<Rightarrow> Inr ()"
  have contract: "hostfs_contract (ts_fs st) files"
    using ok by (simp add: tokens_ok_def)
  obtain q s1 where q: "hf_random (ts_fs st) 32 s = (q, s1)"
    by fastforce
  have same: "token_view (st, files) () s1 = token_view (st, files) () s"
    using contract_random [OF contract q] by (intro token_view_cong) simp
  have all: "(\<forall>t secret. r = Inr (t, secret) \<longrightarrow> (\<exists>ts. token_view (st, files) () s = Some ts
        \<and> token_view (st, files) () s' = Some (ts @ [t]) \<and> tk_hash t = token_hash st secret \<and> tk_kind t = kind \<and> \<not> revoked t
        \<and> (\<exists>v. files s' (components (ts_path st)) = Some (v, PRIVATE_MODE))))
      \<and> (\<forall>e. r = Inl e \<longrightarrow> token_view (st, files) () s' = token_view (st, files) () s)"
  proof (cases "is_ok ?check \<and> is_ok q \<and> is_ok (token_list st s1)")
    case False
    then have "(\<exists>e. r = Inl e) \<and> (s' = s \<or> s' = s1)"
      using run q by (cases ?check; cases q; cases "token_list st s1")
        (auto simp: mint_def and_do_def look_def new_secret_def at_def return_ok_def Let_def)
    then show ?thesis
      using same by auto
  next
    case True
    then obtain bytes ts where b: "q = Inr bytes" and ts: "token_list st s1 = Inr ts" and ch: "?check = Inr ()"
      by (auto simp: result_simps)
    define x where "x = ''zygo_'' @ ts_hex st bytes"
    define t where "t = minted_token st kind x (hf_now_ms (ts_fs st) s1)"
    obtain w where w: "token_write st (ts @ [t]) s1 = (w, s')" "r = map_ok (\<lambda>_. (t, x)) w"
      using run q b ts ch
      by (cases "token_write st (ts @ [t]) s1"; cases "fst (token_write st (ts @ [t]) s1)")
        (auto simp: mint_def and_do_def look_def new_secret_def at_def return_ok_def Let_def x_def t_def)
    have "tk_hash t = token_hash st x" "tk_kind t = kind" "\<not> revoked t"
      by (simp_all add: t_def minted_token_def revoked_def)
    then show ?thesis
      using token_write_view(1,2) [OF ok w(1)] token_list_view [OF ok ts] w(2) same by (cases w) auto
  qed
  then show "r = Inr (t, secret) \<Longrightarrow> \<exists>ts. token_view (st, files) () s = Some ts \<and> token_view (st, files) () s' = Some (ts @ [t])
      \<and> tk_hash t = token_hash st secret \<and> tk_kind t = kind \<and> \<not> revoked t
      \<and> (\<exists>v. files s' (components (ts_path st)) = Some (v, PRIVATE_MODE))"
    and "r = Inl e \<Longrightarrow> token_view (st, files) () s' = token_view (st, files) () s"
    by blast+
qed

lemma revoke_spec:
  assumes ok: "tokens_ok (st, files)" and run: "revoke st tid s = (r, s')"
  shows "token_view (st, files) () s' = token_view (st, files) () s
      \<or> (\<exists>ts. token_view (st, files) () s = Some ts \<and> token_view (st, files) () s' = Some (revoke_first tid (hf_now_ms (ts_fs st) s) ts))"
    and "r = Inr True \<Longrightarrow> \<exists>ts t. token_view (st, files) () s = Some ts \<and> find (\<lambda>t. tk_id t = tid) ts = Some t
      \<and> token_view (st, files) () s' = Some (if revoked t then ts else revoke_first tid (hf_now_ms (ts_fs st) s) ts)"
    and "r = Inr False \<Longrightarrow> s' = s \<and> (\<exists>ts. token_view (st, files) () s = Some ts \<and> tid \<notin> tk_id ` set ts)"
    and "r = Inl e \<Longrightarrow> token_view (st, files) () s' = token_view (st, files) () s"
proof -
  let ?now = "hf_now_ms (ts_fs st) s"
  have all: "(token_view (st, files) () s' = token_view (st, files) () s
      \<or> (\<exists>ts. token_view (st, files) () s = Some ts \<and> token_view (st, files) () s' = Some (revoke_first tid ?now ts)))
    \<and> (r = Inr True \<longrightarrow> (\<exists>ts t. token_view (st, files) () s = Some ts \<and> find (\<lambda>t. tk_id t = tid) ts = Some t
      \<and> token_view (st, files) () s' = Some (if revoked t then ts else revoke_first tid ?now ts)))
    \<and> (r = Inr False \<longrightarrow> s' = s \<and> (\<exists>ts. token_view (st, files) () s = Some ts \<and> tid \<notin> tk_id ` set ts))
    \<and> (\<forall>e. r = Inl e \<longrightarrow> token_view (st, files) () s' = token_view (st, files) () s)"
  proof (cases "token_list st s")
    case (Inl e)
    then show ?thesis
      using run by (auto simp: revoke_def and_do_def look_def)
  next
    case (Inr ts)
    note v = token_list_view [OF ok Inr]
    show ?thesis
    proof (cases "find (\<lambda>t. tk_id t = tid) ts")
      case None
      then have "r = Inr False" "s' = s"
        using run Inr by (simp_all add: revoke_def and_do_def look_def)
      then show ?thesis
        using v None by (auto simp: find_None_iff)
    next
      case (Some t)
      show ?thesis
      proof (cases "revoked t")
        case True
        then show ?thesis
          using run Inr v Some by (auto simp: revoke_def and_do_def look_def return_ok_def)
      next
        case False
        obtain w where w: "token_write st (revoke_first tid ?now ts) s = (w, s')" "r = map_ok (\<lambda>_. True) w"
          using run Inr Some False
          by (cases "token_write st (revoke_first tid ?now ts) s"; cases "fst (token_write st (revoke_first tid ?now ts) s)")
            (auto simp: revoke_def and_do_def look_def return_ok_def)
        show ?thesis
          using token_write_view(1) [OF ok w(1)] w(2) v Some False by (cases w) auto
      qed
    qed
  qed
  then show "token_view (st, files) () s' = token_view (st, files) () s
      \<or> (\<exists>ts. token_view (st, files) () s = Some ts \<and> token_view (st, files) () s' = Some (revoke_first tid ?now ts))"
    and "r = Inr True \<Longrightarrow> \<exists>ts t. token_view (st, files) () s = Some ts \<and> find (\<lambda>t. tk_id t = tid) ts = Some t
      \<and> token_view (st, files) () s' = Some (if revoked t then ts else revoke_first tid ?now ts)"
    and "r = Inr False \<Longrightarrow> s' = s \<and> (\<exists>ts. token_view (st, files) () s = Some ts \<and> tid \<notin> tk_id ` set ts)"
    and "r = Inl e \<Longrightarrow> token_view (st, files) () s' = token_view (st, files) () s"
    by blast+
qed

lemma revoke_tenants_spec:
  assumes ok: "tokens_ok (st, files)" and run: "revoke_tenants st x s = (r, s')"
  shows "r = Inr n \<Longrightarrow> \<exists>ts. token_view (st, files) () s = Some ts
      \<and> token_view (st, files) () s' = Some (filter (\<lambda>t. token_tenant t \<noteq> Some x) ts)"
    and "r = Inl e \<Longrightarrow> token_view (st, files) () s' = token_view (st, files) () s"
    and "touches files (\<lambda>q. q = components (token_temporary st) \<or> q = components (ts_path st)) s s'"
proof -
  have all: "(\<forall>n. r = Inr n \<longrightarrow> (\<exists>ts. token_view (st, files) () s = Some ts
      \<and> token_view (st, files) () s' = Some (filter (\<lambda>t. token_tenant t \<noteq> Some x) ts)))
    \<and> (\<forall>e. r = Inl e \<longrightarrow> token_view (st, files) () s' = token_view (st, files) () s)
    \<and> touches files (\<lambda>q. q = components (token_temporary st) \<or> q = components (ts_path st)) s s'"
  proof (cases "token_list st s")
    case (Inl e)
    then show ?thesis
      using run by (auto simp: revoke_tenants_def and_do_def look_def)
  next
    case (Inr ts)
    note v = token_list_view [OF ok Inr]
    let ?kept = "filter (\<lambda>t. token_tenant t \<noteq> Some x) ts"
    show ?thesis
    proof (cases "length ?kept = length ts")
      case True
      then have "?kept = ts"
        by (metis length_filter_less less_irrefl filter_True)
      then show ?thesis
        using run Inr v by (auto simp: revoke_tenants_def and_do_def look_def return_ok_def Let_def)
    next
      case False
      obtain w where w: "token_write st ?kept s = (w, s')" "is_ok r = is_ok w"
        using run Inr False by (cases "token_write st ?kept s"; cases "fst (token_write st ?kept s)")
          (auto simp: revoke_tenants_def and_do_def look_def return_ok_def Let_def)
      show ?thesis
        using token_write_view(1,3) [OF ok w(1)] w(2) v by (cases r; cases w) (auto simp: result_simps)
    qed
  qed
  then show "r = Inr n \<Longrightarrow> \<exists>ts. token_view (st, files) () s = Some ts
      \<and> token_view (st, files) () s' = Some (filter (\<lambda>t. token_tenant t \<noteq> Some x) ts)"
    and "r = Inl e \<Longrightarrow> token_view (st, files) () s' = token_view (st, files) () s"
    and "touches files (\<lambda>q. q = components (token_temporary st) \<or> q = components (ts_path st)) s s'"
    by blast+
qed

section \<open>Resolving\<close>

definition live :: "string \<Rightarrow> token list \<Rightarrow> token option" where
  "live h ts = find (\<lambda>t. tk_hash t = h \<and> \<not> revoked t) ts"

lemma resolve_view:
  assumes "tokens_ok (st, files)" and "token_view (st, files) () s = Some ts" and "resolve_token st secret s = Inr r"
  shows "r = live (token_hash st secret) ts"
proof -
  obtain ts' where "token_list st s = Inr ts'" "r = live (token_hash st secret) ts'"
    using assms(3) by (auto simp: resolve_token_def live_def result_simps)
  then show ?thesis
    using token_list_view [OF assms(1)] assms(2) by simp
qed

lemma live_snoc: "live h (ts @ [t]) = (case live h ts of Some x \<Rightarrow> Some x | None \<Rightarrow> live h [t])"
  by (induction ts) (auto simp: live_def)

lemma live_none: "live h ts = None \<longleftrightarrow> (\<forall>t \<in> set ts. tk_hash t = h \<longrightarrow> revoked t)"
  by (auto simp: live_def find_None_iff)

lemma revoke_first_entries:
  "t' \<in> set (revoke_first tid now ts) \<Longrightarrow> \<exists>t \<in> set ts. tk_hash t' = tk_hash t \<and> tk_kind t' = tk_kind t \<and> tk_id t' = tk_id t
     \<and> (revoked t \<longrightarrow> revoked t')"
  by (induction ts) (auto simp: revoked_def split: if_splits)

lemma revoke_first_dead: "live h ts = None \<Longrightarrow> live h (revoke_first tid now ts) = None"
  unfolding live_none using revoke_first_entries by metis

lemma revoke_first_revokes:
  assumes "distinct (map tk_id ts)" and "t \<in> set (revoke_first (tk_id x) now ts)" and "tk_id t = tk_id x"
  shows "revoked t"
  using assms by (induction ts) (auto simp: revoked_def image_iff split: if_splits)

lemma revoke_first_others:
  "(\<And>t. t \<in> set ts \<Longrightarrow> tk_id t = tid \<Longrightarrow> tk_hash t \<noteq> h) \<Longrightarrow> live h (revoke_first tid now ts) = live h ts"
  by (induction ts) (auto simp: live_def)

lemma live_filter:
  "(\<And>t. live h ts = Some t \<Longrightarrow> P t) \<Longrightarrow> (\<And>t. live h ts = None \<Longrightarrow> True) \<Longrightarrow> live h (filter P ts) = live h ts"
  by (induction ts) (auto simp: live_def split: if_splits)

text \<open>
  One secret, one token: when the hash of a freshly minted secret is new, the secret resolves to
  exactly the minted token, of the kind asked for, and every other secret to what it resolved
  to before; the file is readable by its owner only. Any failure to mint leaves every secret
  resolving as before.
\<close>

theorem minted_secret_resolves:
  assumes ok: "tokens_ok (st, files)" and run: "mint st kind s = (r, s')"
    and fresh: "\<And>t secret ts. r = Inr (t, secret) \<Longrightarrow> token_view (st, files) () s = Some ts
      \<Longrightarrow> token_hash st secret \<notin> tk_hash ` set ts"
  shows "(\<forall>t secret. r = Inr (t, secret) \<longrightarrow>
        tk_kind t = kind \<and> \<not> revoked t
        \<and> (\<forall>y. resolve_token st secret s' = Inr y \<longrightarrow> y = Some t)
        \<and> (\<forall>x y y'. token_hash st x \<noteq> token_hash st secret \<and> resolve_token st x s = Inr y \<and> resolve_token st x s' = Inr y'
            \<longrightarrow> y' = y)
        \<and> (\<exists>v. files s' (components (ts_path st)) = Some (v, PRIVATE_MODE)))
    \<and> (\<forall>e x y y'. r = Inl e \<and> resolve_token st x s = Inr y \<and> resolve_token st x s' = Inr y' \<longrightarrow> y' = y)"
proof (intro conjI allI impI)
  fix t secret
  assume r: "r = Inr (t, secret)"
  obtain ts where v: "token_view (st, files) () s = Some ts" "token_view (st, files) () s' = Some (ts @ [t])"
    and t: "tk_hash t = token_hash st secret" "tk_kind t = kind" "\<not> revoked t"
    and perm: "\<exists>v. files s' (components (ts_path st)) = Some (v, PRIVATE_MODE)"
    using mint_spec(1) [OF ok run r] by blast
  show "tk_kind t = kind" "\<not> revoked t" "\<exists>v. files s' (components (ts_path st)) = Some (v, PRIVATE_MODE)"
    by (fact t perm)+
  have "live (token_hash st secret) ts = None"
    using fresh [OF r v(1)] by (force simp: live_none)
  then show "y = Some t" if "resolve_token st secret s' = Inr y" for y
    using resolve_view [OF ok v(2) that] t by (simp add: live_snoc) (simp add: live_def)
  show "y' = y" if "token_hash st x \<noteq> token_hash st secret \<and> resolve_token st x s = Inr y \<and> resolve_token st x s' = Inr y'" for x y y'
  proof -
    have "live (token_hash st x) [t] = None"
      using that t by (auto simp: live_def)
    then show ?thesis
      using resolve_view [OF ok v(1), of x y] resolve_view [OF ok v(2), of x y'] that
      by (simp add: live_snoc split: option.splits)
  qed
next
  fix e x y y'
  assume a: "r = Inl e \<and> resolve_token st x s = Inr y \<and> resolve_token st x s' = Inr y'"
  then obtain ts where "token_list st s = Inr ts"
    by (auto simp: resolve_token_def result_simps)
  then have "token_view (st, files) () s = Some ts"
    by (rule token_list_view [OF ok])
  then show "y' = y"
    using mint_spec(2) [OF ok run] a resolve_view [OF ok] by metis
qed

section \<open>Runs\<close>

text \<open>A run of operations, each with its outcome, and the tokens it minted.\<close>

inductive token_run :: "'s token_store \<Rightarrow> 's \<Rightarrow> token list \<Rightarrow> 's \<Rightarrow> bool" for st where
  run_done: "token_run st s [] s"
| run_mint: "mint st kind s = (Inr (t, secret), s1) \<Longrightarrow> token_run st s1 ms s' \<Longrightarrow> token_run st s (t # ms) s'"
| run_mint_failed: "mint st kind s = (Inl e, s1) \<Longrightarrow> token_run st s1 ms s' \<Longrightarrow> token_run st s ms s'"
| run_revoke: "revoke st tid s = (r, s1) \<Longrightarrow> token_run st s1 ms s' \<Longrightarrow> token_run st s ms s'"
| run_revoke_tenants: "revoke_tenants st x s = (n, s1) \<Longrightarrow> token_run st s1 ms s' \<Longrightarrow> token_run st s ms s'"

lemma run_keeps_dead:
  assumes "token_run st s ms s'" and "tokens_ok (st, files)"
    and "\<And>ts. token_view (st, files) () s = Some ts \<Longrightarrow> live h ts = None" and "h \<notin> tk_hash ` set ms"
  shows "token_view (st, files) () s' = Some ts \<Longrightarrow> live h ts = None"
  using assms(1,3,4)
proof (induction arbitrary: ts rule: token_run.induct)
  case (run_mint kind s t secret s1 ms s')
  note m = mint_spec(1) [OF assms(2) run_mint.hyps(1) refl]
  have "live h [t] = None"
    using run_mint.prems(3) by (auto simp: live_def)
  moreover obtain ts0 where v: "token_view (st, files) () s = Some ts0" "token_view (st, files) () s1 = Some (ts0 @ [t])"
    using m by blast
  ultimately have "live h (ts0 @ [t]) = None"
    using run_mint.prems(2) [OF v(1)] by (simp add: live_snoc)
  then show ?case
    using run_mint.IH [OF run_mint.prems(1)] v(2) run_mint.prems(3) by simp
next
  case (run_mint_failed kind s e s1 ms s')
  then show ?case
    using mint_spec(2) [OF assms(2) run_mint_failed.hyps(1) refl] by simp
next
  case (run_revoke tid s r s1 ms s')
  note m = revoke_spec(1) [OF assms(2) run_revoke.hyps(1)]
  have "live h ts1 = None" if v1: "token_view (st, files) () s1 = Some ts1" for ts1
    using m
  proof
    assume "\<exists>ts. token_view (st, files) () s = Some ts
      \<and> token_view (st, files) () s1 = Some (revoke_first tid (hf_now_ms (ts_fs st) s) ts)"
    then obtain ts0 where "token_view (st, files) () s = Some ts0" "ts1 = revoke_first tid (hf_now_ms (ts_fs st) s) ts0"
      using v1 by auto
    then show ?thesis
      using run_revoke.prems(2) revoke_first_dead by simp
  qed (use run_revoke.prems(2) v1 in simp)
  then show ?case
    by (rule run_revoke.IH [OF run_revoke.prems(1) _ run_revoke.prems(3)])
next
  case (run_revoke_tenants x s n s1 ms s')
  have "live h ts1 = None" if v1: "token_view (st, files) () s1 = Some ts1" for ts1
  proof (cases n)
    case (Inl e)
    then show ?thesis
      using revoke_tenants_spec(2) [OF assms(2) run_revoke_tenants.hyps(1)] run_revoke_tenants.prems(2) v1 by simp
  next
    case (Inr m)
    then obtain ts0 where "token_view (st, files) () s = Some ts0" "ts1 = filter (\<lambda>t. token_tenant t \<noteq> Some x) ts0"
      using revoke_tenants_spec(1) [OF assms(2) run_revoke_tenants.hyps(1)] v1 by fastforce
    then show ?thesis
      using run_revoke_tenants.prems(2) by (simp add: live_none)
  qed
  then show ?case
    by (rule run_revoke_tenants.IH [OF run_revoke_tenants.prems(1) _ run_revoke_tenants.prems(3)])
qed

lemma revocation_kills:
  assumes ok: "tokens_ok (st, files)" and view: "token_view (st, files) () s = Some ts"
    and t: "t \<in> set ts" "tk_hash t = token_hash st secret" "\<forall>x \<in> set ts. tk_hash x = tk_hash t \<longrightarrow> x = t" "distinct (map tk_id ts)"
    and gone: "revoke st (tk_id t) s = (Inr True, s1) \<or> (\<exists>x n. token_tenant t = Some x \<and> revoke_tenants st x s = (Inr n, s1))"
    and v1: "token_view (st, files) () s1 = Some ts1"
  shows "live (token_hash st secret) ts1 = None"
  using gone
proof
  assume r: "revoke st (tk_id t) s = (Inr True, s1)"
  then obtain t0 where f: "find (\<lambda>x. tk_id x = tk_id t) ts = Some t0"
    "ts1 = (if revoked t0 then ts else revoke_first (tk_id t) (hf_now_ms (ts_fs st) s) ts)"
    using revoke_spec(2) [OF ok r refl] view v1 by auto
  have "t0 = t"
  proof -
    have "t0 \<in> set ts" "tk_id t0 = tk_id t"
      using f(1) by (metis (mono_tags, lifting) find_Some_iff nth_mem)+
    moreover have "inj_on tk_id (set ts)"
      using t(4) by (simp add: distinct_map)
    ultimately show ?thesis
      using t(1) by (simp add: inj_on_def)
  qed
  show ?thesis
  proof (cases "revoked t")
    case True
    then show ?thesis
      using f(2) \<open>t0 = t\<close> t(2,3) unfolding live_none by metis
  next
    case False
    have "revoked x" if x: "x \<in> set (revoke_first (tk_id t) (hf_now_ms (ts_fs st) s) ts)" "tk_hash x = token_hash st secret" for x
    proof -
      obtain x0 where "x0 \<in> set ts" "tk_hash x = tk_hash x0" "tk_id x = tk_id x0"
        using revoke_first_entries [OF x(1)] by blast
      then have "tk_id x = tk_id t"
        using t x(2) by metis
      then show ?thesis
        by (rule revoke_first_revokes [OF t(4) x(1)])
    qed
    then show ?thesis
      using False f(2) \<open>t0 = t\<close> by (simp add: live_none)
  qed
next
  assume "\<exists>x n. token_tenant t = Some x \<and> revoke_tenants st x s = (Inr n, s1)"
  then obtain x n where x: "token_tenant t = Some x" and r: "revoke_tenants st x s = (Inr n, s1)"
    by blast
  have ts1: "ts1 = filter (\<lambda>t. token_tenant t \<noteq> Some x) ts"
    using revoke_tenants_spec(1) [OF ok r refl] view v1 by auto
  have "tk_hash y \<noteq> token_hash st secret" if "y \<in> set ts1" for y
  proof
    assume "tk_hash y = token_hash st secret"
    then have "y = t"
      using that t(2,3) ts1 by simp
    then show False
      using that ts1 x by simp
  qed
  then show ?thesis
    by (simp add: live_none)
qed

text \<open>
  C15. Revoked is for good: once a token was revoked by its id, or its tenant's tokens were
  forgotten, its secret resolves to nothing after any sequence of further operations,
  whatever fails among them, as long as no newly minted token has the same hash.
\<close>

theorem revoked_never_returns:
  assumes ok: "tokens_ok (st, files)" and view: "token_view (st, files) () s = Some ts"
    and t: "t \<in> set ts" "tk_hash t = token_hash st secret" "\<forall>x \<in> set ts. tk_hash x = tk_hash t \<longrightarrow> x = t" "distinct (map tk_id ts)"
    and gone: "revoke st (tk_id t) s = (Inr True, s1) \<or> (\<exists>x n. token_tenant t = Some x \<and> revoke_tenants st x s = (Inr n, s1))"
    and run: "token_run st s1 ms s'" and other: "token_hash st secret \<notin> tk_hash ` set ms"
    and answer: "resolve_token st secret s' = Inr y"
  shows "y = None"
proof -
  let ?h = "token_hash st secret"
  have dead: "live ?h ts1 = None" if "token_view (st, files) () s1 = Some ts1" for ts1
    by (rule revocation_kills [OF ok view t gone that])
  obtain ts' where v': "token_view (st, files) () s' = Some ts'"
    using answer token_list_view [OF ok] by (auto simp: resolve_token_def result_simps)
  have "live ?h ts' = None"
    by (rule run_keeps_dead [OF run ok dead other v'])
  then show ?thesis
    using resolve_view [OF ok v' answer] by simp
qed

text \<open>
  Nothing orders two operations on the store: a mint that has read the list before a
  revocation, and writes it after the revocation has succeeded, makes the revoked secret
  resolve again.
\<close>

theorem racing_mint_undoes_revocation:
  assumes ok: "tokens_ok (st, files)" and listed: "token_list st s = Inr ts"
    and t: "live (token_hash st secret) ts = Some t"
    and revoked: "revoke st (tk_id t) s = (Inr True, s1)"
    and written: "token_write st (ts @ [new]) s1 = (Inr (), s2)"
    and answer: "resolve_token st secret s2 = Inr y"
  shows "y = Some t"
proof -
  have "token_view (st, files) () s2 = Some (ts @ [new])"
    using token_write_view(1) [OF ok written] by simp
  then show ?thesis
    using resolve_view [OF ok _ answer] t by (simp add: live_snoc)
qed

section \<open>Who a request acts for\<close>

lemma collected_differences:
  "fold (\<lambda>(x, y) acc. or acc (xor x y)) zs a = 0 \<longleftrightarrow> a = 0 \<and> (\<forall>(x, y) \<in> set zs. x = (y :: 'a::len word))"
proof (induction zs arbitrary: a)
  case (Cons z zs)
  have "or a (xor x y) = 0 \<longleftrightarrow> a = 0 \<and> x = y" for x y :: "'a word"
    by (auto simp: bit_eq_iff bit_simps)
  with Cons show ?case
    by (cases z) auto
qed simp

lemma constant_time_eq_iff: "constant_time_eq a b \<longleftrightarrow> a = b"
proof -
  have "length a = length b \<Longrightarrow> (\<forall>(x, y) \<in> set (zip a b). x = y) \<longleftrightarrow> a = b"
    by (induction a b rule: list_induct2) auto
  then show ?thesis
    by (auto simp: constant_time_eq_def collected_differences)
qed

lemma bytes_of_inject: "bytes_of a = bytes_of b \<longleftrightarrow> a = b"
proof -
  have "inj (\<lambda>c. word_of_nat (code c) :: 8 word)"
  proof (rule injI)
    fix c d
    assume "(word_of_nat (code c) :: 8 word) = word_of_nat (code d)"
    then have "unat (word_of_nat (code c) :: 8 word) = unat (word_of_nat (code d) :: 8 word)"
      by simp
    then have "code c = code d"
      by (simp add: unat_of_nat take_bit_nat_eq_self code_less_256 [unfolded numeral_eq_Suc])
    then show "c = d"
      by (simp add: code_inject)
  qed
  then show ?thesis
    by (simp add: bytes_of_def inj_map_eq_map)
qed

text \<open>What is left when the bootstrap token was not presented.\<close>

lemma authorise_minted:
  assumes "presented authorization = Inr secret" and "secret \<noteq> b"
  shows "authorise st (Some b) deploy authorization tenant s =
      and_then (map_err (\<lambda>_. InternalError) (resolve_token st secret s)) (\<lambda>found.
        case found of
          None \<Rightarrow> Inl Unauthorized
        | Some t \<Rightarrow>
            (case token_tenant t of
               None \<Rightarrow> map_ok (\<lambda>x. \<lparr>ac_tenant = x, ac_deploy = True\<rparr>) (tenant_header tenant)
             | Some own \<Rightarrow>
                 and_then (tenant_header tenant) (\<lambda>named.
                 if named \<noteq> None \<and> named \<noteq> Some own then Inl Forbidden
                 else Inr \<lparr>ac_tenant = Some own, ac_deploy = False\<rparr>)))"
  using assms by (simp add: authorise_def constant_time_eq_iff bytes_of_inject)

lemma authorise_tenant:
  assumes "presented authorization = Inr secret" and "secret \<noteq> b"
    and "resolve_token st secret s = Inr (Some t)" and "tk_kind t = TenantToken own"
    and "authorise st (Some b) deploy authorization tenant s = Inr a"
  shows "a = \<lparr>ac_tenant = Some own, ac_deploy = False\<rparr> \<and> may_deploy a = Inl Forbidden \<and> operator_only a = Inl Forbidden
    \<and> (tenant_header tenant = Inr None \<or> tenant_header tenant = Inr (Some own))"
proof -
  have "and_then (tenant_header tenant) (\<lambda>named. if named \<noteq> None \<and> named \<noteq> Some own then Inl Forbidden
      else Inr \<lparr>ac_tenant = Some own, ac_deploy = False\<rparr>) = Inr a"
    using assms(3-5) authorise_minted [OF assms(1,2), of st deploy tenant s] by (simp add: token_tenant_def)
  then have "a = \<lparr>ac_tenant = Some own, ac_deploy = False\<rparr>"
    "tenant_header tenant = Inr None \<or> tenant_header tenant = Inr (Some own)"
    by (auto simp: result_simps split: if_splits)
  then show ?thesis
    by (simp add: may_deploy_def operator_only_def)
qed

lemma authorise_operator:
  assumes "presented authorization = Inr secret" and "secret \<noteq> b"
    and "resolve_token st secret s = Inr (Some t)" and "tk_kind t = Operator"
    and "authorise st (Some b) deploy authorization tenant s = Inr a"
  shows "ac_deploy a \<and> tenant_header tenant = Inr (ac_tenant a)"
proof -
  have "map_ok (\<lambda>x. \<lparr>ac_tenant = x, ac_deploy = True\<rparr>) (tenant_header tenant) = Inr a"
    using assms(3-5) authorise_minted [OF assms(1,2), of st deploy tenant s] by (simp add: token_tenant_def)
  then show ?thesis
    by (auto simp: result_simps)
qed

text \<open>
  C14. A request acts for whom its bearer token says and nobody else: the bootstrap token is the
  operator with the right to deploy the server was started with; a live operator token may
  deploy; a live tenant token is that tenant, cannot be used for another one, and is refused
  every deploying and every operator's route; a token that is unknown or revoked, and a
  request without one, is nobody.
\<close>

theorem request_acts_for_its_token:
  assumes ok: "tokens_ok (st, files)" and view: "token_view (st, files) () s = Some ts"
    and secret: "presented authorization = Inr secret"
  shows "(secret = b \<longrightarrow> authorise st (Some b) deploy authorization tenant s
        = map_ok (\<lambda>t. \<lparr>ac_tenant = t, ac_deploy = deploy\<rparr>) (tenant_header tenant))
    \<and> (secret \<noteq> b \<and> live (token_hash st secret) ts = None \<longrightarrow>
        \<not> is_ok (authorise st (Some b) deploy authorization tenant s))
    \<and> (\<forall>t own a. secret \<noteq> b \<and> live (token_hash st secret) ts = Some t \<and> tk_kind t = TenantToken own
          \<and> authorise st (Some b) deploy authorization tenant s = Inr a \<longrightarrow>
        a = \<lparr>ac_tenant = Some own, ac_deploy = False\<rparr> \<and> may_deploy a = Inl Forbidden \<and> operator_only a = Inl Forbidden
        \<and> (tenant_header tenant = Inr None \<or> tenant_header tenant = Inr (Some own)))
    \<and> (\<forall>t a. secret \<noteq> b \<and> live (token_hash st secret) ts = Some t \<and> tk_kind t = Operator
          \<and> authorise st (Some b) deploy authorization tenant s = Inr a \<longrightarrow>
        ac_deploy a \<and> tenant_header tenant = Inr (ac_tenant a))
    \<and> (\<forall>authorization'. \<not> is_ok (presented authorization') \<longrightarrow>
        authorise st (Some b) deploy authorization' tenant s = Inl Unauthorized)"
proof -
  have found: "r = live (token_hash st secret) ts" if "resolve_token st secret s = Inr r" for r
    by (rule resolve_view [OF ok view that])
  have resolved: "resolve_token st secret s = Inr (live (token_hash st secret) ts)"
    if "secret \<noteq> b" "is_ok (authorise st (Some b) deploy authorization tenant s)"
    using found that authorise_minted [OF secret that(1), of st deploy tenant s]
    by (cases "resolve_token st secret s") (auto simp: result_simps)
  have "\<not> is_ok (authorise st (Some b) deploy authorization tenant s)"
    if "secret \<noteq> b \<and> live (token_hash st secret) ts = None"
    using found that authorise_minted [OF secret, of b st deploy tenant s]
    by (cases "resolve_token st secret s") (auto simp: result_simps)
  moreover have "authorise st (Some b) deploy authorization' tenant s = Inl Unauthorized"
    if "\<not> is_ok (presented authorization')" for authorization'
    using that by (cases "presented authorization'") (auto simp: authorise_def presented_def result_simps)
  moreover have "authorise st (Some b) deploy authorization tenant s
      = map_ok (\<lambda>t. \<lparr>ac_tenant = t, ac_deploy = deploy\<rparr>) (tenant_header tenant)" if "secret = b"
    using that secret by (simp add: authorise_def constant_time_eq_iff)
  moreover have "a = \<lparr>ac_tenant = Some own, ac_deploy = False\<rparr> \<and> may_deploy a = Inl Forbidden \<and> operator_only a = Inl Forbidden
      \<and> (tenant_header tenant = Inr None \<or> tenant_header tenant = Inr (Some own))"
    if "secret \<noteq> b \<and> live (token_hash st secret) ts = Some t \<and> tk_kind t = TenantToken own
      \<and> authorise st (Some b) deploy authorization tenant s = Inr a" for t own a
    using that resolved by (intro authorise_tenant [OF secret]) (auto simp: result_simps)
  moreover have "ac_deploy a \<and> tenant_header tenant = Inr (ac_tenant a)"
    if "secret \<noteq> b \<and> live (token_hash st secret) ts = Some t \<and> tk_kind t = Operator
      \<and> authorise st (Some b) deploy authorization tenant s = Inr a" for t a
    using that resolved by (intro authorise_operator [OF secret, of b st s t deploy tenant]) (auto simp: result_simps)
  ultimately show ?thesis
    by blast
qed

section \<open>Instances\<close>

definition demo_token :: token where
  "demo_token = \<lparr>tk_id = ''tok_zygo_'', tk_kind = TenantToken ''acme'', tk_created_ms = 0, tk_revoked_ms = None,
     tk_hash = ''sha256:zygo_''\<rparr>"

definition other_token :: token where
  "other_token = demo_token\<lparr>tk_id := ''tok_2'', tk_hash := ''sha256:2''\<rparr>"

definition demo_tokens :: "memfs token_store" where
  "demo_tokens =
     (let known = [[demo_token], [demo_token\<lparr>tk_revoked_ms := Some 1\<rparr>], [demo_token, other_token]]
      in \<lparr>ts_fs = memory_fs, ts_sha = (\<lambda>x. x), ts_hex = filter is_ascii_graphic, ts_encode = known_encode known,
          ts_decode = known_decode known, ts_process = ''1-ab'', ts_path = ''/z/tokens.json''\<rparr>)"

definition demo_token_files :: memfs where
  "demo_token_files = [([RootDir, Normal ''z'', Normal ''tokens.json''], [], PRIVATE_MODE)]"

lemma demo_tokens_ok: "tokens_ok (demo_tokens, map_of)"
proof -
  have "is_absolute ''/z'' \<and> ''/z/tokens.json'' = path_join ''/z'' ''tokens.json''"
    by code_simp
  then show ?thesis
    using known_codec by (auto simp: tokens_ok_def demo_tokens_def Let_def memory_fs_contract)
qed

lemma demo_token_view: "token_view (demo_tokens, map_of) () demo_token_files = Some [demo_token]"
  by code_simp

theorem minted_secret_resolves_witness:
  "\<exists>s'. mint demo_tokens (TenantToken ''acme'') [] = (Inr (demo_token, ''zygo_''), s')
    \<and> resolve_token demo_tokens ''zygo_'' s' = Inr (Some demo_token)"
proof -
  define s1 where "s1 = snd (token_write demo_tokens [demo_token] [])"
  have parts: "check_tenant_id ''acme'' = Inr ()" "new_secret demo_tokens [] = (Inr ''zygo_'', [])"
    "hf_now_ms (ts_fs demo_tokens) [] = 0"
    "minted_token demo_tokens (TenantToken ''acme'') ''zygo_'' 0 = demo_token" "token_list demo_tokens [] = Inr []"
    by code_simp+
  have "fst (token_write demo_tokens [demo_token] []) = Inr ()"
    and answer: "resolve_token demo_tokens ''zygo_'' s1 = Inr (Some demo_token)"
    unfolding s1_def by code_simp+
  then have "token_write demo_tokens [demo_token] [] = (Inr (), s1)"
    by (simp add: s1_def prod_eq_iff)
  then have m: "mint demo_tokens (TenantToken ''acme'') [] = (Inr (demo_token, ''zygo_''), s1)"
    by (simp add: mint_def and_do_def look_def return_ok_def parts)
  have "token_view (demo_tokens, map_of) () [] = Some []"
    by code_simp
  then have fresh: "token_hash demo_tokens secret \<notin> tk_hash ` set ts"
    if "token_view (demo_tokens, map_of) () [] = Some ts" for secret ts
    using that by simp
  have "\<not> revoked demo_token"
    using minted_secret_resolves [OF demo_tokens_ok m fresh] by simp
  then show ?thesis
    using m answer by simp
qed

theorem revoked_never_returns_witness:
  "\<exists>s1. revoke demo_tokens ''tok_zygo_'' demo_token_files = (Inr True, s1)
    \<and> resolve_token demo_tokens ''zygo_'' demo_token_files = Inr (Some demo_token)
    \<and> resolve_token demo_tokens ''zygo_'' s1 = Inr None"
proof -
  have run: "fst (revoke demo_tokens ''tok_zygo_'' demo_token_files) = Inr True"
    "is_ok (resolve_token demo_tokens ''zygo_'' (snd (revoke demo_tokens ''tok_zygo_'' demo_token_files)))"
    and before: "resolve_token demo_tokens ''zygo_'' demo_token_files = Inr (Some demo_token)"
    by code_simp+
  obtain s1 where r: "revoke demo_tokens ''tok_zygo_'' demo_token_files = (Inr True, s1)"
    using run(1) by (metis prod.collapse)
  obtain y where y: "resolve_token demo_tokens ''zygo_'' s1 = Inr y"
    using run(2) r by (auto simp: result_simps)
  have h: "tk_hash demo_token = token_hash demo_tokens ''zygo_''" and i: "tk_id demo_token = ''tok_zygo_''"
    by code_simp+
  have "y = None"
    using revoked_never_returns [OF demo_tokens_ok demo_token_view, of demo_token "''zygo_''" s1 "[]" s1 y] r y h i run_done [of demo_tokens s1]
    by simp
  then show ?thesis
    using r before y by simp
qed

theorem racing_mint_undoes_revocation_witness:
  "\<exists>s1 s2. revoke demo_tokens ''tok_zygo_'' demo_token_files = (Inr True, s1)
    \<and> token_write demo_tokens [demo_token, other_token] s1 = (Inr (), s2)
    \<and> resolve_token demo_tokens ''zygo_'' s2 = Inr (Some demo_token)"
proof -
  define s1 where "s1 = snd (revoke demo_tokens ''tok_zygo_'' demo_token_files)"
  define s2 where "s2 = snd (token_write demo_tokens [demo_token, other_token] s1)"
  have "fst (revoke demo_tokens ''tok_zygo_'' demo_token_files) = Inr True"
    "fst (token_write demo_tokens [demo_token, other_token] s1) = Inr ()"
    "is_ok (resolve_token demo_tokens ''zygo_'' s2)"
    unfolding s2_def s1_def by code_simp+
  then obtain y where y: "resolve_token demo_tokens ''zygo_'' s2 = Inr y"
    and r: "revoke demo_tokens (tk_id demo_token) demo_token_files = (Inr True, s1)"
    and w: "token_write demo_tokens ([demo_token] @ [other_token]) s1 = (Inr (), s2)"
    unfolding s1_def s2_def by (auto simp: result_simps demo_token_def prod_eq_iff)
  have l: "token_list demo_tokens demo_token_files = Inr [demo_token]"
    "live (token_hash demo_tokens ''zygo_'') [demo_token] = Some demo_token"
    by code_simp+
  have "y = Some demo_token"
    by (rule racing_mint_undoes_revocation [OF demo_tokens_ok l r w y])
  then show ?thesis
    using r w y by (auto simp: demo_token_def)
qed

theorem request_acts_for_its_token_witness:
  "authorise demo_tokens (Some ''root'') True (HeaderText ''Bearer zygo_'') NoHeader demo_token_files
      = Inr \<lparr>ac_tenant = Some ''acme'', ac_deploy = False\<rparr>
    \<and> \<not> is_ok (authorise demo_tokens (Some ''root'') True (HeaderText ''Bearer x'') NoHeader demo_token_files)"
proof -
  have "list_all is_ascii_graphic ''zygo_''" "list_all is_ascii_graphic ''x''"
    by code_simp+
  then have t: "trim ''zygo_'' = ''zygo_''" "trim ''x'' = ''x''"
    by (auto simp: list_all_iff intro: trim_graphic)
  have "strip_prefix ''Bearer '' ''Bearer zygo_'' = Some ''zygo_''" "strip_prefix ''Bearer '' ''Bearer x'' = Some ''x''"
    by code_simp+
  then have p: "presented (HeaderText ''Bearer zygo_'') = Inr ''zygo_''" "presented (HeaderText ''Bearer x'') = Inr ''x''"
    using t by (simp_all add: presented_def)
  have l: "live (token_hash demo_tokens ''zygo_'') [demo_token] = Some demo_token"
    "live (token_hash demo_tokens ''x'') [demo_token] = None" "tk_kind demo_token = TenantToken ''acme''"
    by code_simp+
  have "resolve_token demo_tokens ''zygo_'' demo_token_files = Inr (Some demo_token)" "tenant_header NoHeader = Inr None"
    by code_simp+
  then obtain a where a: "authorise demo_tokens (Some ''root'') True (HeaderText ''Bearer zygo_'') NoHeader demo_token_files = Inr a"
    using p(1) l(3) by (simp add: authorise_def constant_time_eq_iff bytes_of_inject token_tenant_def)
  have "a = \<lparr>ac_tenant = Some ''acme'', ac_deploy = False\<rparr>"
    using request_acts_for_its_token [OF demo_tokens_ok demo_token_view p(1), of "''root''" True NoHeader] l a by simp
  moreover have "\<not> is_ok (authorise demo_tokens (Some ''root'') True (HeaderText ''Bearer x'') NoHeader demo_token_files)"
    using request_acts_for_its_token [OF demo_tokens_ok demo_token_view p(2), of "''root''" True NoHeader] l by simp
  ultimately show ?thesis
    using a by simp
qed

end
