(* ===== verification/Zygo_Tenants_Laws.thy ===== *)
theory Zygo_Tenants_Laws
  imports Zygo_Tenants Zygo_Memfs
begin

text \<open>
  What the tenants promise: limits only narrow, and which of them reach a request; the store
  keeps one record per id, whatever fails; and removing a tenant gives up exactly the scripts
  no other readable record refers to.
\<close>

section \<open>Limits\<close>

lemma lowered_le: "lowered m (x::'a::linorder) \<le> x"
  by (simp add: lowered_def split: option.splits)

lemma lowered_idem: "lowered m (lowered m (x::'a::linorder)) = lowered m x"
  by (simp add: lowered_def split: option.splits)

lemma lowered_None [simp]: "lowered None x = x"
  by (simp add: lowered_def)

text \<open>\<open>narrows\<close> says exactly whether narrowing changes anything.\<close>

lemma narrows_exact:
  assumes "lim_mem_high L \<le> lim_mem L"
  shows "narrows l L \<longleftrightarrow> narrow l L \<noteq> L"
proof
  assume "narrow l L \<noteq> L"
  show "narrows l L"
  proof (rule ccontr)
    assume "\<not> narrows l L"
    then have "lim_mem (narrow l L) = lim_mem L" "lim_cpu (narrow l L) = lim_cpu L"
      "lim_pids (narrow l L) = lim_pids L" "lim_timeout_ms (narrow l L) = lim_timeout_ms L"
      "lim_scratch (narrow l L) = lim_scratch L"
      by (simp_all add: narrows_def Let_def)
    then have "narrow l L = L"
      using assms by (simp add: narrow_def Let_def)
    with \<open>narrow l L \<noteq> L\<close> show False ..
  qed
qed (auto simp: narrows_def Let_def)

lemma request_limits_narrow:
  "lim_mem_high L \<le> lim_mem L \<Longrightarrow> request_limits L (Some l) = narrow l L"
  using narrows_exact [of L l] by (auto simp: request_limits_def)

text \<open>
  C16. A tenant's limits can only take away, and they take away what they say: whatever a tenant has
  set, no limit of a request is above the function's own, the soft memory limit included, which
  stays below the hard one as well; a limit the tenant has set is not exceeded; every limit a tenant
  cannot set (swap, group kill, inodes, I/O, descriptors, file size, connections, bandwidth)
  is exactly the function's; applying the limits again changes nothing, and no deadline is
  later than without them.
\<close>

theorem tenant_limits_only_narrow:
  assumes "lim_mem_high own \<le> lim_mem own"
  shows "lim_mem (request_limits own t) \<le> lim_mem own
    \<and> lim_mem_high (request_limits own t) \<le> lim_mem_high own
    \<and> lim_mem_high (request_limits own t) \<le> lim_mem (request_limits own t)
    \<and> lim_cpu (request_limits own t) \<le> lim_cpu own
    \<and> lim_pids (request_limits own t) \<le> lim_pids own
    \<and> lim_timeout_ms (request_limits own t) \<le> lim_timeout_ms own
    \<and> lim_scratch (request_limits own t) \<le> lim_scratch own
    \<and> (\<forall>v. Option.bind t tl_mem = Some v \<longrightarrow> lim_mem (request_limits own t) \<le> v)
    \<and> (\<forall>v. Option.bind t tl_cpu = Some v \<longrightarrow> lim_cpu (request_limits own t) \<le> v)
    \<and> (\<forall>v. Option.bind t tl_pids = Some v \<longrightarrow> lim_pids (request_limits own t) \<le> v)
    \<and> (\<forall>v. Option.bind t tl_timeout_ms = Some v \<longrightarrow> lim_timeout_ms (request_limits own t) \<le> v)
    \<and> (\<forall>v. Option.bind t tl_scratch = Some v \<longrightarrow> lim_scratch (request_limits own t) \<le> v)
    \<and> request_limits own t = own
        \<lparr>lim_mem := lim_mem (request_limits own t), lim_mem_high := lim_mem_high (request_limits own t),
         lim_cpu := lim_cpu (request_limits own t), lim_pids := lim_pids (request_limits own t),
         lim_timeout_ms := lim_timeout_ms (request_limits own t), lim_scratch := lim_scratch (request_limits own t)\<rparr>
    \<and> request_limits (request_limits own t) t = request_limits own t
    \<and> request_deadline own t timeout elapsed \<le> request_deadline own None timeout elapsed"
proof (cases t)
  case None
  then show ?thesis
    using assms by (simp add: request_limits_def)
next
  case (Some l)
  let ?n = "narrow l own"
  have le: "lim_mem ?n \<le> lim_mem own" "lim_cpu ?n \<le> lim_cpu own" "lim_pids ?n \<le> lim_pids own"
    "lim_timeout_ms ?n \<le> lim_timeout_ms own" "lim_scratch ?n \<le> lim_scratch own" "lim_mem_high ?n \<le> lim_mem_high own"
    by (simp_all add: narrow_def Let_def lowered_le)
  have set: "tl_mem l = Some v \<Longrightarrow> lim_mem ?n \<le> v" "tl_pids l = Some v \<Longrightarrow> lim_pids ?n \<le> v"
    "tl_timeout_ms l = Some v \<Longrightarrow> lim_timeout_ms ?n \<le> v" "tl_scratch l = Some v \<Longrightarrow> lim_scratch ?n \<le> v"
    "tl_cpu l = Some c \<Longrightarrow> lim_cpu ?n \<le> c" for v c
    by (simp_all add: narrow_def Let_def lowered_def)
  have frame: "?n = own\<lparr>lim_mem := lim_mem ?n, lim_mem_high := lim_mem_high ?n, lim_cpu := lim_cpu ?n,
      lim_pids := lim_pids ?n, lim_timeout_ms := lim_timeout_ms ?n, lim_scratch := lim_scratch ?n\<rparr>"
    by (simp add: narrow_def Let_def)
  have high: "lim_mem_high ?n \<le> lim_mem ?n"
    using assms by (simp add: narrow_def Let_def)
  have "narrow l ?n = ?n"
    by (simp add: narrow_def Let_def lowered_idem)
  then have again: "request_limits ?n t = ?n"
    using request_limits_narrow [OF high] Some by simp
  have "request_deadline own t timeout elapsed \<le> request_deadline own None timeout elapsed"
    using le(4) Some request_limits_narrow [OF assms]
    by (simp add: request_deadline_def request_limits_def [of own None])
  moreover have "request_limits own t = ?n"
    using request_limits_narrow [OF assms] Some by simp
  ultimately show ?thesis
    using le set high again frame by (simp add: Some)
qed

abbreviation demo_limits :: "nat limits" where
  "demo_limits \<equiv> \<lparr>lim_mem = 512, lim_mem_high = 480, lim_swap = 0, lim_oom_group = True, lim_cpu = 2, lim_pids = 64,
     lim_timeout_ms = 30000, lim_scratch = 64, lim_scratch_inodes = 10, lim_io_read = None, lim_io_write = None,
     lim_nofile = 256, lim_fsize = 64, lim_connections = 4, lim_bandwidth = None\<rparr>"

abbreviation demo_tenant_limits :: "nat tenant_limits" where
  "demo_tenant_limits \<equiv> no_limits\<lparr>tl_mem := Some 256, tl_pids := Some 8, tl_timeout_ms := Some 5000\<rparr>"

theorem tenant_limits_only_narrow_witness:
  "lim_mem (request_limits demo_limits (Some demo_tenant_limits)) = 256
    \<and> lim_mem_high (request_limits demo_limits (Some demo_tenant_limits)) \<le> 256
    \<and> request_deadline demo_limits (Some demo_tenant_limits) 60000 100 = 4900
    \<and> request_limits (request_limits demo_limits (Some demo_tenant_limits)) (Some demo_tenant_limits)
        = request_limits demo_limits (Some demo_tenant_limits)"
proof -
  have "lim_mem_high demo_limits \<le> lim_mem demo_limits"
    by simp
  note law = tenant_limits_only_narrow [OF this, of "Some demo_tenant_limits"]
  have mem: "lim_mem (request_limits demo_limits (Some demo_tenant_limits)) = 256"
    and "request_deadline demo_limits (Some demo_tenant_limits) 60000 100 = 4900"
    by (simp_all add: request_limits_def request_deadline_def narrow_def narrows_def no_limits_def lowered_def Let_def)
  then show ?thesis
    using law unfolding mem by blast
qed

text \<open>
  C17. Of the seven limits a tenant can be given, two reach a request. Its cgroup is made with the
  same writes, and gets the same process, as if only the memory limit had been set, and its
  deadline is the one of the time limit alone: the CPU, process, scratch and network limits
  and the allow list change nothing.
\<close>

theorem only_memory_and_time_enforced:
  assumes "lim_mem_high own \<le> lim_mem own"
  shows "admit_request k generation per_request rid pid (request_limits own (Some l)) s
      = admit_request k generation per_request rid pid (request_limits own (Some (no_limits\<lparr>tl_mem := tl_mem l\<rparr>))) s
    \<and> request_deadline own (Some l) timeout elapsed
      = request_deadline own (Some (no_limits\<lparr>tl_timeout_ms := tl_timeout_ms l\<rparr>)) timeout elapsed"
proof
  have leaf: "leaf_writes (narrow l own) = leaf_writes (narrow (no_limits\<lparr>tl_mem := tl_mem l\<rparr>) own)"
    by (simp add: leaf_writes_def narrow_def Let_def)
  show "admit_request k generation per_request rid pid (request_limits own (Some l)) s
      = admit_request k generation per_request rid pid (request_limits own (Some (no_limits\<lparr>tl_mem := tl_mem l\<rparr>))) s"
    unfolding admit_request_def request_cgroup_def request_limits_narrow [OF assms] leaf ..
  show "request_deadline own (Some l) timeout elapsed
      = request_deadline own (Some (no_limits\<lparr>tl_timeout_ms := tl_timeout_ms l\<rparr>)) timeout elapsed"
    by (simp add: request_deadline_def request_limits_narrow [OF assms] narrow_def Let_def)
qed

theorem only_memory_and_time_enforced_witness:
  "\<forall>(k :: unit cgroupfs) s.
     admit_request k (Some ''/g'') True ''r1'' 7
       (request_limits demo_limits (Some (demo_tenant_limits\<lparr>tl_network := Some NetNone\<rparr>))) s
     = admit_request k (Some ''/g'') True ''r1'' 7 (request_limits demo_limits (Some (no_limits\<lparr>tl_mem := Some 256\<rparr>))) s"
proof (intro allI)
  fix k :: "unit cgroupfs" and s
  have "lim_mem_high demo_limits \<le> lim_mem demo_limits"
    by simp
  note conj = only_memory_and_time_enforced [OF this, THEN conjunct1, of k _ _ _ _ "demo_tenant_limits\<lparr>tl_network := Some NetNone\<rparr>" s]
  show "admit_request k (Some ''/g'') True ''r1'' 7
       (request_limits demo_limits (Some (demo_tenant_limits\<lparr>tl_network := Some NetNone\<rparr>))) s
     = admit_request k (Some ''/g'') True ''r1'' 7 (request_limits demo_limits (Some (no_limits\<lparr>tl_mem := Some 256\<rparr>))) s"
    by (subst conj) simp
qed

section \<open>The store\<close>

definition tenants_ok :: "('s, 'c) tenant_store \<times> 's files \<Rightarrow> bool" where
  "tenants_ok p \<longleftrightarrow> (case p of (st, files) \<Rightarrow>
     hostfs_contract (tn_fs st) files \<and> is_absolute (tn_dir st) \<and> CHR ''/'' \<notin> set (tn_process st)
     \<and> (\<forall>t text. tn_encode st t = Some text \<longrightarrow> tn_decode st text = Some t))"

text \<open>What an observer reads under an id: damaged, absent or a record.\<close>

definition tenant_view :: "('s, 'c) tenant_store \<times> 's files \<Rightarrow> string \<Rightarrow> 's \<Rightarrow> 'c tenant option option" where
  "tenant_view p tid s = (case p of (st, files) \<Rightarrow>
     (case contents files s (tenant_path st tid) of
        None \<Rightarrow> Some None
      | Some text \<Rightarrow> map_option Some (tn_decode st text)))"

definition tenant_load :: "('s, 'c) tenant_store \<times> 's files \<Rightarrow> string \<Rightarrow> 's \<Rightarrow> store_error + 'c tenant option" where
  "tenant_load p = tenant_get (fst p)"

text \<open>A record is only written under its own id; writing none is the removal of the file.\<close>

definition tenant_save ::
  "('s, 'c) tenant_store \<times> 's files \<Rightarrow> string \<Rightarrow> 'c tenant option \<Rightarrow> ('s, store_error, unit) step" where
  "tenant_save p tid x =
     (case x of
        None \<Rightarrow> remove_if_there (tn_fs (fst p)) (tenant_path (fst p) tid)
      | Some t \<Rightarrow> if tn_id t = tid then tenant_write (fst p) t else fail_with (SpecRefused ''tenant''))"

lemma valid_tenant_id_plain:
  assumes "valid_tenant_id tid"
  shows "plain (tid @ ''.json'')" and "CHR ''/'' \<notin> set tid" and "hd (tid @ ''.json'') \<noteq> CHR ''.''"
proof -
  have "\<not> is_ascii_alphanumeric CHR ''/''"
    by code_simp
  then show slash: "CHR ''/'' \<notin> set tid"
    using assms by (auto simp: valid_tenant_id_def list_all_iff)
  show "plain (tid @ ''.json'')" and "hd (tid @ ''.json'') \<noteq> CHR ''.''"
    using assms slash by (auto simp: plain_def valid_tenant_id_def Cons_eq_append_conv append_eq_Cons_conv)
qed

lemma tenant_components:
  assumes "tenants_ok (st, files)" and "valid_tenant_id tid"
  shows "components (tenant_path st tid) = components (tn_dir st) @ [Normal (tid @ ''.json'')]"
    and "components (tenant_temporary st tid)
      = components (tn_dir st) @ [Normal (''.'' @ tid @ ''.'' @ tn_process st @ ''.incoming'')]"
    and "valid_tenant_id tid' \<Longrightarrow> components (tenant_temporary st tid) \<noteq> components (tenant_path st tid')"
    and "valid_tenant_id tid' \<Longrightarrow> tid \<noteq> tid' \<Longrightarrow> components (tenant_path st tid) \<noteq> components (tenant_path st tid')"
proof -
  have abs: "is_absolute (tn_dir st)" and proc: "CHR ''/'' \<notin> set (tn_process st)"
    using assms(1) by (simp_all add: tenants_ok_def)
  have path: "components (tenant_path st i) = components (tn_dir st) @ [Normal (i @ ''.json'')]" if "valid_tenant_id i" for i
    unfolding tenant_path_def by (rule components_file [OF abs valid_tenant_id_plain(1) [OF that]])
  show "components (tenant_path st tid) = components (tn_dir st) @ [Normal (tid @ ''.json'')]"
    by (rule path [OF assms(2)])
  have "plain (''.'' @ tid @ ''.'' @ tn_process st @ ''.incoming'')"
    using valid_tenant_id_plain(2) [OF assms(2)] proc assms(2) by (auto simp: plain_def valid_tenant_id_def)
  then show temp: "components (tenant_temporary st tid)
      = components (tn_dir st) @ [Normal (''.'' @ tid @ ''.'' @ tn_process st @ ''.incoming'')]"
    unfolding tenant_temporary_def by (rule components_file [OF abs])
  show "components (tenant_temporary st tid) \<noteq> components (tenant_path st tid')" if "valid_tenant_id tid'"
    using temp path [OF that] valid_tenant_id_plain(3) [OF that] by auto
  show "components (tenant_path st tid) \<noteq> components (tenant_path st tid')" if "valid_tenant_id tid'" "tid \<noteq> tid'"
    using path [OF assms(2)] path [OF that(1)] that(2) by simp
qed

lemma tenant_view_cong:
  "files s' (components (tenant_path st tid)) = files s (components (tenant_path st tid)) \<Longrightarrow>
     tenant_view (st, files) tid s' = tenant_view (st, files) tid s"
  by (simp add: tenant_view_def contents_def)

lemma tenant_write_view:
  assumes ok: "tenants_ok (st, files)" and good: "valid_tenant_id (tn_id t)"
    and run: "tenant_write st t s = (r, s')"
  shows "tenant_view (st, files) (tn_id t) s' = (if is_ok r then Some (Some t) else tenant_view (st, files) (tn_id t) s)"
    and "valid_tenant_id tid \<Longrightarrow> tid \<noteq> tn_id t \<Longrightarrow> tenant_view (st, files) tid s' = tenant_view (st, files) tid s"
    and "touches files (\<lambda>q. butlast q = components (tn_dir st)) s s'"
proof -
  have contract: "hostfs_contract (tn_fs st) files"
    and codec: "\<And>text. tn_encode st t = Some text \<Longrightarrow> tn_decode st text = Some t"
    using ok by (simp_all add: tenants_ok_def)
  note atomic = replace_file_atomic [OF contract tenant_components(3) [OF ok good good] run [unfolded tenant_write_def]]
  show "tenant_view (st, files) (tn_id t) s' = (if is_ok r then Some (Some t) else tenant_view (st, files) (tn_id t) s)"
    using atomic(2,3) codec
    by (cases "is_ok r") (auto simp: tenant_view_def contents_def result_simps dest!: sym [of "Inr _"])
  show "tenant_view (st, files) tid s' = tenant_view (st, files) tid s" if "valid_tenant_id tid" "tid \<noteq> tn_id t"
    using atomic(1) tenant_components(3) [OF ok good that(1)] tenant_components(4) [OF ok that(1) good that(2)]
    by (intro tenant_view_cong) (auto simp: touches_def)
  show "touches files (\<lambda>q. butlast q = components (tn_dir st)) s s'"
    using touches_mono [OF atomic(1)] tenant_components(1,2) [OF ok good] by fastforce
qed

lemma tenant_unlink_view:
  assumes ok: "tenants_ok (st, files)" and good: "valid_tenant_id tid"
    and run: "remove_if_there (tn_fs st) (tenant_path st tid) s = (r, s')"
  shows "tenant_view (st, files) tid s' = (if is_ok r then Some None else tenant_view (st, files) tid s)"
    and "valid_tenant_id i \<Longrightarrow> i \<noteq> tid \<Longrightarrow> tenant_view (st, files) i s' = tenant_view (st, files) i s"
proof -
  have "hostfs_contract (tn_fs st) files"
    using ok by (simp add: tenants_ok_def)
  note gone = remove_if_there_removes [OF this run]
  show "tenant_view (st, files) tid s' = (if is_ok r then Some None else tenant_view (st, files) tid s)"
    by (simp add: tenant_view_def contents_def gone)
  show "tenant_view (st, files) i s' = tenant_view (st, files) i s" if "valid_tenant_id i" "i \<noteq> tid"
    using tenant_components(4) [OF ok that(1) good that(2)] by (intro tenant_view_cong) (simp add: gone)
qed

lemma tenant_get_view:
  assumes "tenants_ok (st, files)" and "tenant_get st tid s = Inr x"
  shows "tenant_view (st, files) tid s = Some x" and "valid_tenant_id tid"
proof -
  have contract: "hostfs_contract (tn_fs st) files"
    using assms(1) by (simp add: tenants_ok_def)
  have valid: "check_tenant_id tid = Inr ()" and
    read: "read_record (tn_fs st) (PrimitiveFailed ''tenant store'') (tn_decode st) (tenant_path st tid) s = Inr x"
    using assms(2) by (auto simp: tenant_get_def result_simps)
  then show "valid_tenant_id tid"
    by (simp add: check_tenant_id_def split: if_splits)
  show "tenant_view (st, files) tid s = Some x"
    using read_record_view [OF contract read] by (auto simp: tenant_view_def split: option.splits)
qed

interpretation tenants: record_store tenants_ok valid_tenant_id tenant_load tenant_save tenant_view
proof unfold_locales
  fix p :: "('s, 'c) tenant_store \<times> 's files" and k x s
  assume "tenants_ok p" and "valid_tenant_id k" and "tenant_load p k s = Inr x"
  then show "tenant_view p k s = Some x"
    using tenant_get_view by (cases p) (auto simp: tenant_load_def)
next
  fix p :: "('s, 'c) tenant_store \<times> 's files" and k x s r s'
  assume "tenants_ok p" and "valid_tenant_id k" and "tenant_save p k x s = (r, s')"
  then show "tenant_view p k s' = (if is_ok r then Some x else tenant_view p k s)"
    using tenant_write_view(1) [of "fst p" "snd p" _ s r s'] tenant_unlink_view(1) [of "fst p" "snd p" k s r s']
    by (cases x; cases r) (auto simp: tenant_save_def fail_with_def result_simps split: if_splits)
next
  fix p :: "('s, 'c) tenant_store \<times> 's files" and k k' x s r s'
  assume "tenants_ok p" and "valid_tenant_id k" and "valid_tenant_id k'" and "k \<noteq> k'" and "tenant_save p k x s = (r, s')"
  then show "tenant_view p k' s' = tenant_view p k' s"
    using tenant_write_view(2) [of "fst p" "snd p" _ s r s' k'] tenant_unlink_view(2) [of "fst p" "snd p" k s r s' k']
    by (cases x) (auto simp: tenant_save_def fail_with_def split: if_splits)
qed

section \<open>The operations\<close>

text \<open>Every readable record bears the id it is stored under.\<close>

definition own_ids :: "('s, 'c) tenant_store \<times> 's files \<Rightarrow> 's \<Rightarrow> bool" where
  "own_ids p s \<longleftrightarrow> (\<forall>k t. valid_tenant_id k \<longrightarrow> tenant_view p k s = Some (Some t) \<longrightarrow> tn_id t = k)"

text \<open>
  What an operation on one tenant may do: the records of the others stay as they are, a
  damaged record stays damaged, and ids stay with their records.
\<close>

definition keeps_store :: "('s, 'c) tenant_store \<times> 's files \<Rightarrow> string \<Rightarrow> 's \<Rightarrow> 's \<Rightarrow> bool" where
  "keeps_store p tid s s' \<longleftrightarrow> own_ids p s'
     \<and> (\<forall>k. valid_tenant_id k \<and> (k \<noteq> tid \<or> tenant_view p k s = None) \<longrightarrow> tenant_view p k s' = tenant_view p k s)"

lemma keeps_store_refl: "own_ids p s \<Longrightarrow> keeps_store p tid s s"
  by (simp add: keeps_store_def)

lemma keeps_store_trans: "keeps_store p tid s s1 \<Longrightarrow> keeps_store p tid s1 s2 \<Longrightarrow> keeps_store p tid s s2"
  unfolding keeps_store_def by metis

lemma save_keeps:
  assumes "tenants_ok p" and "own_ids p s" and "valid_tenant_id tid" and "tenant_view p tid s \<noteq> None"
    and "\<And>t. x = Some t \<Longrightarrow> tn_id t = tid" and "tenant_save p tid x s = (r, s')"
  shows "keeps_store p tid s s'" and "tenant_view p tid s' = (if is_ok r then Some x else tenant_view p tid s)"
proof -
  have "tn_id t = k" if "valid_tenant_id k" "tenant_view p k s' = Some (Some t)" for k t
    using tenants.save_invariant [OF assms(1,3,6), of "\<lambda>k x. \<forall>t. x = Some t \<longrightarrow> tn_id t = k" k "Some t"] assms(2,5) that
    by (simp add: own_ids_def)
  then show "keeps_store p tid s s'"
    using tenants.save_other [OF assms(1,3) _ _ assms(6)] assms(4) by (auto simp: keeps_store_def own_ids_def)
  show "tenant_view p tid s' = (if is_ok r then Some x else tenant_view p tid s)"
    by (rule tenants.save_view [OF assms(1,3,6)])
qed

lemma write_keeps:
  assumes "tenants_ok (st, files)" and "own_ids (st, files) s" and "valid_tenant_id (tn_id t)"
    and "tenant_view (st, files) (tn_id t) s \<noteq> None" and "tenant_write st t s = (r, s')"
  shows "keeps_store (st, files) (tn_id t) s s'"
    and "tenant_view (st, files) (tn_id t) s' = (if is_ok r then Some (Some t) else tenant_view (st, files) (tn_id t) s)"
  using save_keeps [OF assms(1-4), of "Some t" r s'] assms(5) by (simp_all add: tenant_save_def)

lemma create_spec:
  assumes ok: "tenants_ok (st, files)" and own: "own_ids (st, files) s" and run: "tenant_create st tid s = (r, s')"
  shows "keeps_store (st, files) tid s s'"
    and "r = Inr (t, existed) \<Longrightarrow> valid_tenant_id tid \<and> tn_id t = tid \<and> tenant_view (st, files) tid s' = Some (Some t)
      \<and> (if existed then s' = s else tenant_view (st, files) tid s = Some None \<and> tn_scripts t = [] \<and> tn_limits t = no_limits)"
    and "r = Inl e \<Longrightarrow> valid_tenant_id tid \<Longrightarrow> tenant_view (st, files) tid s' = tenant_view (st, files) tid s"
proof -
  have all: "keeps_store (st, files) tid s s'
      \<and> (\<forall>t existed. r = Inr (t, existed) \<longrightarrow> valid_tenant_id tid \<and> tn_id t = tid \<and> tenant_view (st, files) tid s' = Some (Some t)
          \<and> (if existed then s' = s else tenant_view (st, files) tid s = Some None \<and> tn_scripts t = [] \<and> tn_limits t = no_limits))
      \<and> (\<forall>e. r = Inl e \<longrightarrow> valid_tenant_id tid \<longrightarrow> tenant_view (st, files) tid s' = tenant_view (st, files) tid s)"
  proof (cases "tenant_get st tid s")
    case (Inl e)
    then have "\<exists>e. r = Inl e" "s' = s"
      using run by (auto simp: tenant_create_def and_do_def look_def split: sum.splits)
    then show ?thesis
      using own by (auto intro: keeps_store_refl)
  next
    case (Inr x)
    note v = tenant_get_view [OF ok Inr]
    have check: "check_tenant_id tid = Inr ()"
      using v(2) by (simp add: check_tenant_id_def)
    show ?thesis
    proof (cases x)
      case (Some t)
      then have "r = Inr (t, True)" "s' = s"
        using run Inr check by (simp_all add: tenant_create_def and_do_def look_def return_ok_def)
      then show ?thesis
        using own v Some by (auto simp: keeps_store_refl own_ids_def)
    next
      case None
      define t :: "'b tenant" where "t = new_tenant tid (hf_now_ms (tn_fs st) s)"
      obtain q where q: "tenant_write st t s = (q, s')" "r = map_ok (\<lambda>_. (t, False)) q"
        using run Inr check None
        by (cases "tenant_write st t s"; cases "fst (tenant_write st t s)")
          (simp_all add: tenant_create_def and_do_def look_def return_ok_def t_def Let_def)
      have t: "tn_id t = tid" "tn_scripts t = []" "tn_limits t = no_limits"
        by (simp_all add: t_def new_tenant_def)
      show ?thesis
        using write_keeps [OF ok own, of t q s'] q v None t by (cases q) auto
    qed
  qed
  then show "keeps_store (st, files) tid s s'"
    and "r = Inr (t, existed) \<Longrightarrow> valid_tenant_id tid \<and> tn_id t = tid \<and> tenant_view (st, files) tid s' = Some (Some t)
      \<and> (if existed then s' = s else tenant_view (st, files) tid s = Some None \<and> tn_scripts t = [] \<and> tn_limits t = no_limits)"
    and "r = Inl e \<Longrightarrow> valid_tenant_id tid \<Longrightarrow> tenant_view (st, files) tid s' = tenant_view (st, files) tid s"
    by blast+
qed

lemma get_or_create_spec:
  assumes ok: "tenants_ok (st, files)" and own: "own_ids (st, files) s" and run: "get_or_create st tid s = (r, s')"
  shows "keeps_store (st, files) tid s s'"
    and "r = Inr t \<Longrightarrow> valid_tenant_id tid \<and> tn_id t = tid \<and> tenant_view (st, files) tid s' = Some (Some t)
      \<and> (tenant_view (st, files) tid s = Some (Some t)
         \<or> tenant_view (st, files) tid s = Some None \<and> tn_scripts t = [] \<and> tn_limits t = no_limits)"
proof -
  have all: "keeps_store (st, files) tid s s'
      \<and> (\<forall>t. r = Inr t \<longrightarrow> valid_tenant_id tid \<and> tn_id t = tid \<and> tenant_view (st, files) tid s' = Some (Some t)
        \<and> (tenant_view (st, files) tid s = Some (Some t)
           \<or> tenant_view (st, files) tid s = Some None \<and> tn_scripts t = [] \<and> tn_limits t = no_limits))"
  proof (cases "tenant_get st tid s")
    case (Inl e)
    then show ?thesis
      using run own by (auto simp: get_or_create_def and_do_def look_def intro: keeps_store_refl)
  next
    case (Inr x)
    note v = tenant_get_view [OF ok Inr]
    show ?thesis
    proof (cases x)
      case (Some t)
      then show ?thesis
        using run own v Inr
        by (auto simp: get_or_create_def and_do_def look_def return_ok_def keeps_store_refl own_ids_def)
    next
      case None
      obtain q where q: "tenant_create st tid s = (q, s')" "r = map_ok fst q"
        using run Inr None by (cases "tenant_create st tid s"; cases "fst (tenant_create st tid s)")
          (auto simp: get_or_create_def and_do_def look_def return_ok_def)
      note c = create_spec [OF ok own q(1)]
      show ?thesis
      proof (cases q)
        case (Inl e)
        then show ?thesis
          using c(1) q(2) by simp
      next
        case (Inr y)
        then obtain t existed where "q = Inr (t, existed)"
          by (cases y) auto
        then show ?thesis
          using c(1) c(2) [of t existed] q(2) v None by (auto split: if_splits)
      qed
    qed
  qed
  then show "keeps_store (st, files) tid s s'"
    and "r = Inr t \<Longrightarrow> valid_tenant_id tid \<and> tn_id t = tid \<and> tenant_view (st, files) tid s' = Some (Some t)
      \<and> (tenant_view (st, files) tid s = Some (Some t)
         \<or> tenant_view (st, files) tid s = Some None \<and> tn_scripts t = [] \<and> tn_limits t = no_limits)"
    by blast+
qed

text \<open>Both updates: the record found or made, changed, and written back.\<close>

lemma update_spec:
  assumes ok: "tenants_ok (st, files)" and own: "own_ids (st, files) s"
    and run: "and_do (get_or_create st tid) (\<lambda>t.
        and_do (if skip t then return_ok () else tenant_write st (f t)) (\<lambda>_. return_ok (g t))) s = (r, s')"
    and same: "\<And>t. tn_id (f t) = tn_id t" and skip: "\<And>t. skip t \<Longrightarrow> f t = t"
  shows "keeps_store (st, files) tid s s'"
    and "r = Inr u \<Longrightarrow> \<exists>t. u = g t \<and> tenant_view (st, files) tid s' = Some (Some (f t)) \<and> tn_id t = tid
      \<and> (tenant_view (st, files) tid s = Some (Some t)
         \<or> tenant_view (st, files) tid s = Some None \<and> tn_scripts t = [] \<and> tn_limits t = no_limits)"
proof -
  obtain q s1 where q: "get_or_create st tid s = (q, s1)"
    by fastforce
  note g = get_or_create_spec [OF ok own q]
  have all: "keeps_store (st, files) tid s s'
    \<and> (\<forall>u. r = Inr u \<longrightarrow> (\<exists>t. u = g t \<and> tenant_view (st, files) tid s' = Some (Some (f t)) \<and> tn_id t = tid
      \<and> (tenant_view (st, files) tid s = Some (Some t)
         \<or> tenant_view (st, files) tid s = Some None \<and> tn_scripts t = [] \<and> tn_limits t = no_limits)))"
  proof (cases q)
    case (Inl e)
    then show ?thesis
      using run q g(1) by (auto simp: and_do_def)
  next
    case (Inr t)
    note t = g(2) [OF Inr]
    obtain r1 where w: "(if skip t then return_ok () else tenant_write st (f t)) s1 = (r1, s')" "r = map_ok (\<lambda>_. g t) r1"
      using run q Inr by (auto simp: and_do_def return_ok_def split: prod.splits sum.splits if_splits)
    have own1: "own_ids (st, files) s1"
      using g(1) by (simp add: keeps_store_def)
    have step: "keeps_store (st, files) tid s1 s'
      \<and> tenant_view (st, files) tid s' = (if is_ok r1 then Some (Some (f t)) else tenant_view (st, files) tid s1)"
    proof (cases "skip t")
      case True
      then show ?thesis
        using w t skip [OF True] own1 by (auto simp: return_ok_def keeps_store_refl)
    next
      case False
      then show ?thesis
        using write_keeps [OF ok own1, of "f t" r1 s'] w t same by simp
    qed
    then show ?thesis
      using keeps_store_trans [OF g(1)] t w(2) by (cases r1) auto
  qed
  then show "keeps_store (st, files) tid s s'"
    and "r = Inr u \<Longrightarrow> \<exists>t. u = g t \<and> tenant_view (st, files) tid s' = Some (Some (f t)) \<and> tn_id t = tid
      \<and> (tenant_view (st, files) tid s = Some (Some t)
         \<or> tenant_view (st, files) tid s = Some None \<and> tn_scripts t = [] \<and> tn_limits t = no_limits)"
    by auto
qed

lemma and_do_unit: "and_do m (\<lambda>_. return_ok ()) = m" for m :: "('s, 'e, unit) step"
  by (auto simp: fun_eq_iff and_do_def return_ok_def split: prod.splits sum.splits)

lemma add_script_spec:
  assumes "tenants_ok (st, files)" and "own_ids (st, files) s" and "add_script st tid d s = (r, s')"
  shows "keeps_store (st, files) tid s s'"
    and "r = Inr u \<Longrightarrow> \<exists>t t'. tenant_view (st, files) tid s' = Some (Some t') \<and> set (tn_scripts t') = insert d (set (tn_scripts t))
      \<and> (tenant_view (st, files) tid s = Some (Some t) \<or> tenant_view (st, files) tid s = Some None \<and> tn_scripts t = [])"
proof -
  let ?f = "\<lambda>t. if d \<in> set (tn_scripts t) then t else t\<lparr>tn_scripts := insort d (tn_scripts t)\<rparr>"
  have "and_do (get_or_create st tid) (\<lambda>t.
      and_do (if d \<in> set (tn_scripts t) then return_ok () else tenant_write st (?f t)) (\<lambda>_. return_ok ()))
      = add_script st tid d"
    unfolding add_script_def and_do_unit by (rule arg_cong [where f = "and_do _"]) (auto simp: fun_eq_iff)
  then have run: "and_do (get_or_create st tid) (\<lambda>t.
      and_do (if d \<in> set (tn_scripts t) then return_ok () else tenant_write st (?f t)) (\<lambda>_. return_ok ())) s = (r, s')"
    using assms(3) by simp
  note u = update_spec [OF assms(1,2) run]
  show "keeps_store (st, files) tid s s'"
    by (rule u(1)) simp_all
  assume "r = Inr u"
  then obtain t where "tenant_view (st, files) tid s' = Some (Some (?f t))"
    "tenant_view (st, files) tid s = Some (Some t) \<or> tenant_view (st, files) tid s = Some None \<and> tn_scripts t = []"
    using u(2) by fastforce
  moreover have "set (tn_scripts (?f t)) = insert d (set (tn_scripts t))"
    by (auto simp: set_insort_key)
  ultimately show "\<exists>t t'. tenant_view (st, files) tid s' = Some (Some t') \<and> set (tn_scripts t') = insert d (set (tn_scripts t))
      \<and> (tenant_view (st, files) tid s = Some (Some t) \<or> tenant_view (st, files) tid s = Some None \<and> tn_scripts t = [])"
    by blast
qed

lemma set_limits_spec:
  assumes "tenants_ok (st, files)" and "own_ids (st, files) s" and "set_tenant_limits st tid l s = (r, s')"
  shows "keeps_store (st, files) tid s s'"
    and "r = Inr t' \<Longrightarrow> tenant_view (st, files) tid s' = Some (Some t') \<and> tn_limits t' = l
      \<and> (\<exists>t. tn_scripts t' = tn_scripts t
          \<and> (tenant_view (st, files) tid s = Some (Some t) \<or> tenant_view (st, files) tid s = Some None \<and> tn_scripts t = []))"
proof -
  have run: "and_do (get_or_create st tid) (\<lambda>t. and_do (if False then return_ok () else tenant_write st (t\<lparr>tn_limits := l\<rparr>))
      (\<lambda>_. return_ok (t\<lparr>tn_limits := l\<rparr>))) s = (r, s')"
    using assms(3) by (simp add: set_tenant_limits_def Let_def)
  note u = update_spec [OF assms(1,2) run]
  show "keeps_store (st, files) tid s s'"
    by (rule u(1)) simp_all
  assume "r = Inr t'"
  then show "tenant_view (st, files) tid s' = Some (Some t') \<and> tn_limits t' = l
      \<and> (\<exists>t. tn_scripts t' = tn_scripts t
          \<and> (tenant_view (st, files) tid s = Some (Some t) \<or> tenant_view (st, files) tid s = Some None \<and> tn_scripts t = []))"
    using u(2) by fastforce
qed

lemma remove_spec:
  assumes ok: "tenants_ok (st, files)" and own: "own_ids (st, files) s" and run: "tenant_remove st tid s = (r, s')"
  shows "keeps_store (st, files) tid s s'"
    and "r = Inr None \<Longrightarrow> tenant_view (st, files) tid s = Some None \<and> s' = s"
    and "r = Inr (Some ds) \<Longrightarrow> tenant_view (st, files) tid s' = Some None
      \<and> (\<exists>t ts. tenant_view (st, files) tid s = Some (Some t) \<and> tenant_list st s = Inr ts \<and> ds = orphaned t ts)"
    and "r = Inl e \<Longrightarrow> valid_tenant_id tid \<Longrightarrow> tenant_view (st, files) tid s' = tenant_view (st, files) tid s"
proof -
  have all: "keeps_store (st, files) tid s s'
      \<and> (r = Inr None \<longrightarrow> tenant_view (st, files) tid s = Some None \<and> s' = s)
      \<and> (\<forall>ds. r = Inr (Some ds) \<longrightarrow> tenant_view (st, files) tid s' = Some None
          \<and> (\<exists>t ts. tenant_view (st, files) tid s = Some (Some t) \<and> tenant_list st s = Inr ts \<and> ds = orphaned t ts))
      \<and> (\<forall>e. r = Inl e \<longrightarrow> valid_tenant_id tid \<longrightarrow> tenant_view (st, files) tid s' = tenant_view (st, files) tid s)"
  proof (cases "tenant_get st tid s")
    case (Inl e)
    then show ?thesis
      using run own by (auto simp: tenant_remove_def and_do_def look_def intro: keeps_store_refl)
  next
    case (Inr x)
    note v = tenant_get_view [OF ok Inr]
    show ?thesis
    proof (cases x)
      case None
      then show ?thesis
        using run own v Inr by (auto simp: tenant_remove_def and_do_def look_def return_ok_def keeps_store_refl)
    next
      case (Some t)
      show ?thesis
      proof (cases "tenant_list st s")
        case (Inl e)
        then show ?thesis
          using run own Inr Some by (auto simp: tenant_remove_def and_do_def look_def intro: keeps_store_refl)
      next
        case ts: (Inr ts)
        obtain q where q: "tenant_save (st, files) tid None s = (q, s')" "r = map_ok (\<lambda>_. Some (orphaned t ts)) q"
          using run Inr Some ts
          by (cases "remove_if_there (tn_fs st) (tenant_path st tid) s"; cases "fst (remove_if_there (tn_fs st) (tenant_path st tid) s)")
            (auto simp: tenant_remove_def and_do_def look_def return_ok_def tenant_save_def)
        show ?thesis
          using save_keeps [OF ok own v(2) _ _ q(1)] v Some ts q(2) by (cases q) auto
      qed
    qed
  qed
  then show "keeps_store (st, files) tid s s'"
    and "r = Inr None \<Longrightarrow> tenant_view (st, files) tid s = Some None \<and> s' = s"
    and "r = Inr (Some ds) \<Longrightarrow> tenant_view (st, files) tid s' = Some None
      \<and> (\<exists>t ts. tenant_view (st, files) tid s = Some (Some t) \<and> tenant_list st s = Inr ts \<and> ds = orphaned t ts)"
    and "r = Inl e \<Longrightarrow> valid_tenant_id tid \<Longrightarrow> tenant_view (st, files) tid s' = tenant_view (st, files) tid s"
    by blast+
qed

section \<open>The store over a run\<close>

datatype 'c tenant_op =
    CreateTenant string
  | AddScript string string
  | SetLimits string "'c tenant_limits"
  | RemoveTenant string

fun op_tenant :: "'c tenant_op \<Rightarrow> string" where
  "op_tenant (CreateTenant tid) = tid"
| "op_tenant (AddScript tid _) = tid"
| "op_tenant (SetLimits tid _) = tid"
| "op_tenant (RemoveTenant tid) = tid"

fun run_tenant_op :: "('s, 'c) tenant_store \<Rightarrow> 'c tenant_op \<Rightarrow> 's \<Rightarrow> 's" where
  "run_tenant_op st (CreateTenant tid) s = snd (tenant_create st tid s)"
| "run_tenant_op st (AddScript tid d) s = snd (add_script st tid d s)"
| "run_tenant_op st (SetLimits tid l) s = snd (set_tenant_limits st tid l s)"
| "run_tenant_op st (RemoveTenant tid) s = snd (tenant_remove st tid s)"

lemma run_keeps:
  assumes "tenants_ok (st, files)" and "own_ids (st, files) s"
  shows "keeps_store (st, files) (op_tenant op) s (run_tenant_op st op s)"
proof (cases op)
  case (CreateTenant tid)
  then show ?thesis
    using create_spec(1) [OF assms, of tid "fst (tenant_create st tid s)" "run_tenant_op st op s"] by simp
next
  case (AddScript tid d)
  then show ?thesis
    using add_script_spec(1) [OF assms, of tid d "fst (add_script st tid d s)" "run_tenant_op st op s"] by simp
next
  case (SetLimits tid l)
  then show ?thesis
    using set_limits_spec(1) [OF assms, of tid l "fst (set_tenant_limits st tid l s)" "run_tenant_op st op s"] by simp
next
  case (RemoveTenant tid)
  then show ?thesis
    using remove_spec(1) [OF assms, of tid "fst (tenant_remove st tid s)" "run_tenant_op st op s"] by simp
qed

text \<open>
  C18. The tenant store over any sequence of creations, registrations, changes of limits and
  removals, each succeeding or failing at any step: every readable record bears the id it is
  stored under, a tenant no operation names keeps its record, and a damaged record is never
  overwritten or removed.
\<close>

theorem tenant_store_invariant:
  assumes "tenants_ok (st, files)" and "own_ids (st, files) s" and "s' = fold (run_tenant_op st) ops s"
  shows "own_ids (st, files) s'
    \<and> (\<forall>k. valid_tenant_id k \<and> (k \<notin> op_tenant ` set ops \<or> tenant_view (st, files) k s = None)
        \<longrightarrow> tenant_view (st, files) k s' = tenant_view (st, files) k s)"
  using assms(2,3)
proof (induction ops arbitrary: s)
  case (Cons op ops)
  note k = run_keeps [OF assms(1) Cons.prems(1), of op]
  have "own_ids (st, files) (run_tenant_op st op s)"
    using k by (simp add: keeps_store_def)
  note tail = Cons.IH [OF this] 
  show ?case
    using tail Cons.prems(2) k by (auto simp: keeps_store_def)
qed simp

text \<open>
  What each operation answers is what the store then holds: a created or found record is there;
  a registered script is added to the scripts there were; limits are replaced as a whole, so
  a key that is not given is cleared, and are the ones the next request is narrowed by; a
  removed tenant is gone. A creation or removal that fails leaves the record as it was.
\<close>

theorem tenant_results:
  assumes "tenants_ok (st, files)" and "own_ids (st, files) s"
  shows "(\<forall>t existed s'. tenant_create st tid s = (Inr (t, existed), s') \<longrightarrow>
        tenant_view (st, files) tid s' = Some (Some t) \<and> tn_id t = tid
        \<and> (existed \<longleftrightarrow> tenant_view (st, files) tid s \<noteq> Some None))
    \<and> (\<forall>s'. add_script st tid d s = (Inr (), s') \<longrightarrow> (\<exists>t t'. tenant_view (st, files) tid s' = Some (Some t')
        \<and> set (tn_scripts t') = insert d (set (tn_scripts t))
        \<and> (tenant_view (st, files) tid s = Some (Some t) \<or> tenant_view (st, files) tid s = Some None \<and> tn_scripts t = [])))
    \<and> (\<forall>t s' x. set_tenant_limits st tid l s = (Inr t, s') \<longrightarrow> tenant_view (st, files) tid s' = Some (Some t) \<and> tn_limits t = l
        \<and> (limits_for st (Some tid) s' = Inr x \<longrightarrow> x = (if limits_empty l then None else Some l)))
    \<and> (\<forall>ds s'. tenant_remove st tid s = (Inr ds, s') \<longrightarrow> tenant_view (st, files) tid s' = Some None)
    \<and> (\<forall>e s'. valid_tenant_id tid \<and> (tenant_remove st tid s = (Inl e, s') \<or> tenant_create st tid s = (Inl e, s'))
        \<longrightarrow> tenant_view (st, files) tid s' = tenant_view (st, files) tid s)"
proof (intro conjI allI impI)
  fix t existed s'
  assume run: "tenant_create st tid s = (Inr (t, existed), s')"
  note c = create_spec(2) [OF assms run refl]
  show "tenant_view (st, files) tid s' = Some (Some t)" "tn_id t = tid"
    "existed \<longleftrightarrow> tenant_view (st, files) tid s \<noteq> Some None"
    using c by (auto split: if_splits)
next
  fix s'
  assume run: "add_script st tid d s = (Inr (), s')"
  show "\<exists>t t'. tenant_view (st, files) tid s' = Some (Some t') \<and> set (tn_scripts t') = insert d (set (tn_scripts t))
      \<and> (tenant_view (st, files) tid s = Some (Some t) \<or> tenant_view (st, files) tid s = Some None \<and> tn_scripts t = [])"
    by (rule add_script_spec(2) [OF assms run refl])
next
  fix t s' x
  assume run: "set_tenant_limits st tid l s = (Inr t, s')"
  note c = set_limits_spec(2) [OF assms run refl]
  then show "tenant_view (st, files) tid s' = Some (Some t)" "tn_limits t = l"
    by blast+
  assume "limits_for st (Some tid) s' = Inr x"
  then obtain y where "tenant_get st tid s' = Inr y"
    and x: "x = (case y of Some t \<Rightarrow> if limits_empty (tn_limits t) then None else Some (tn_limits t) | None \<Rightarrow> None)"
    by (auto simp: limits_for_def split: sum.splits)
  then have "y = Some t"
    using tenant_get_view(1) [OF assms(1)] c by fastforce
  then show "x = (if limits_empty l then None else Some l)"
    using x c by simp
next
  fix ds s'
  assume "tenant_remove st tid s = (Inr ds, s')"
  then show "tenant_view (st, files) tid s' = Some None"
    using remove_spec(2,3) [OF assms] by (cases ds) force+
next
  fix e s'
  assume "valid_tenant_id tid \<and> (tenant_remove st tid s = (Inl e, s') \<or> tenant_create st tid s = (Inl e, s'))"
  then show "tenant_view (st, files) tid s' = tenant_view (st, files) tid s"
    using remove_spec(4) [OF assms] create_spec(3) [OF assms] by blast
qed

section \<open>Orphaned scripts\<close>

lemma name_extension_json:
  assumes "valid_tenant_id k"
  shows "name_extension (k @ ''.json'') = Some ''json''"
proof -
  have "rsplit_once CHR ''.'' (k @ CHR ''.'' # ''json'') = Some (k, ''json'')"
    by (rule rsplit_once_append) simp
  moreover have "k \<noteq> []" "k @ ''.json'' \<noteq> ''..''"
    using assms by (auto simp: valid_tenant_id_def append_eq_Cons_conv)
  ultimately show ?thesis
    by (simp add: name_extension_def)
qed

lemma tenant_list_entries:
  assumes "tenant_list st s = Inr ts" and "hf_read_dir (tn_fs st) (tn_dir st) s = Inr es"
  shows "set ts = {x. \<exists>e \<in> set es. tenant_entry st s e = Some x}"
  using assms by (auto simp: tenant_list_def set_map_filter)

lemma set_orphaned:
  "set (orphaned t ts) = {d \<in> set (tn_scripts t). \<forall>x \<in> set ts. tn_id x \<noteq> tn_id t \<longrightarrow> d \<notin> set (tn_scripts x)}"
  by (auto simp: orphaned_def Let_def)

text \<open>
  A tenant that goes takes only its own scripts with it: with a directory that can be listed and
  records that can be read, a script is given up only if it was the tenant's and no other
  tenant's record refers to it. What decides is only what the listing could read: a script of
  the tenant is given up as soon as no listed and readable record of another id refers to
  it, so the scripts of a tenant whose record is damaged or unreadable are not protected.
\<close>

theorem orphans_exact:
  assumes ok: "tenants_ok (st, files)" and own: "own_ids (st, files) s"
    and run: "tenant_remove st tid s = (Inr (Some ds), s')"
    and t: "tenant_view (st, files) tid s = Some (Some t)"
    and es: "hf_read_dir (tn_fs st) (tn_dir st) s = Inr es"
  shows "((\<forall>e. Inl e \<notin> set es) \<and> (\<forall>k. valid_tenant_id k \<and> tenant_view (st, files) k s \<noteq> Some None
            \<longrightarrow> is_ok (hf_read (tn_fs st) (tenant_path st k) s)) \<longrightarrow>
          (\<forall>d \<in> set ds. d \<in> set (tn_scripts t) \<and> (\<forall>k x. valid_tenant_id k \<and> k \<noteq> tid
            \<and> tenant_view (st, files) k s = Some (Some x) \<longrightarrow> d \<notin> set (tn_scripts x))))
    \<and> (\<forall>d \<in> set (tn_scripts t).
          (\<forall>e \<in> set es. \<forall>x. tenant_entry st s e = Some x \<and> tn_id x \<noteq> tid \<longrightarrow> d \<notin> set (tn_scripts x)) \<longrightarrow> d \<in> set ds)"
proof -
  have contract: "hostfs_contract (tn_fs st) files"
    using ok by (simp add: tenants_ok_def)
  obtain ts where ts: "tenant_list st s = Inr ts" and ds: "ds = orphaned t ts"
    using remove_spec(3) [OF ok own run refl] t by auto
  note set_ts = tenant_list_entries [OF ts es]
  have tid: "tn_id t = tid" "valid_tenant_id tid"
    using tenant_get_view(2) [OF ok] run t own
    by (auto simp: tenant_remove_def result_simps own_ids_def)
  have listed: "x \<in> set ts \<and> tn_id x \<noteq> tn_id t"
    if "\<forall>e. Inl e \<notin> set es" "valid_tenant_id k" "k \<noteq> tid" "tenant_view (st, files) k s = Some (Some x)"
      "is_ok (hf_read (tn_fs st) (tenant_path st k) s)" for k x
  proof -
    have there: "files s (components (tn_dir st) @ [Normal (k @ ''.json'')]) \<noteq> None"
      using that(4) tenant_components(1) [OF ok that(2)] by (auto simp: tenant_view_def contents_def split: option.splits)
    then have "Inr (k @ ''.json'') \<in> set es"
      using contract_list(2) [OF contract there es that(1)] by blast
    moreover from that(5) obtain body where "hf_read (tn_fs st) (tenant_path st k) s = Inr body"
      by (auto simp: result_simps)
    moreover from this have "contents files s (tenant_path st k) = Some body"
      by (rule contract_read(1) [OF contract])
    ultimately have "tenant_entry st s (Inr (k @ ''.json'')) = Some x"
      using that(4) name_extension_json [OF that(2)]
      by (auto simp: tenant_entry_def tenant_view_def tenant_path_def)
    then have "x \<in> set ts"
      using \<open>Inr (k @ ''.json'') \<in> set es\<close> set_ts by blast
    moreover have "tn_id x = k"
      using own that(2,4) by (simp add: own_ids_def)
    ultimately show ?thesis
      using tid that(3) by simp
  qed
  show ?thesis
    using listed set_ts tid unfolding ds set_orphaned by fastforce
qed

section \<open>Instances\<close>

text \<open>Two tenants that share a script, in memory; the codec knows the records at hand.\<close>

definition acme :: "nat tenant" where
  "acme = \<lparr>tn_id = ''acme'', tn_created_ms = 1, tn_scripts = [''d1'', ''d2''], tn_limits = no_limits\<rparr>"

definition beta :: "nat tenant" where
  "beta = \<lparr>tn_id = ''beta'', tn_created_ms = 1, tn_scripts = [''d2''], tn_limits = no_limits\<rparr>"

definition acme_tight :: "nat tenant" where
  "acme_tight = acme\<lparr>tn_limits := no_limits\<lparr>tl_pids := Some 8\<rparr>\<rparr>"

definition demo_store :: "(memfs, nat) tenant_store" where
  "demo_store = \<lparr>tn_fs = memory_fs,
     tn_encode = (\<lambda>t. if t = acme then Some ''A'' else if t = beta then Some ''B''
                      else if t = acme_tight then Some ''C'' else None),
     tn_decode = (\<lambda>x. if x = ''A'' then Some acme else if x = ''B'' then Some beta
                      else if x = ''C'' then Some acme_tight else None),
     tn_process = ''1-ab'', tn_dir = ''/t''\<rparr>"

definition demo_files :: memfs where
  "demo_files = [([RootDir, Normal ''t'', Normal ''acme.json''], ''A'', 420),
                 ([RootDir, Normal ''t'', Normal ''beta.json''], ''B'', 420)]"

lemma demo_ok: "tenants_ok (demo_store, map_of)"
  by (auto simp: tenants_ok_def demo_store_def memory_fs_contract is_absolute_def split: if_splits)

lemma demo_ids: "valid_tenant_id ''acme''" "valid_tenant_id ''beta''"
  by code_simp+

lemma demo_path:
  assumes "valid_tenant_id k"
  shows "components (tenant_path demo_store k) = [RootDir, Normal ''t'', Normal (k @ ''.json'')]"
proof -
  have "components (tn_dir demo_store) = [RootDir, Normal ''t'']"
    by code_simp
  then show ?thesis
    using tenant_components(1) [OF demo_ok assms] by simp
qed

lemma demo_view:
  assumes "valid_tenant_id k"
  shows "tenant_view (demo_store, map_of) k demo_files
    = (if k = ''acme'' then Some (Some acme) else if k = ''beta'' then Some (Some beta) else Some None)"
proof -
  have "k @ ''.json'' = ''acme.json'' \<longleftrightarrow> k = ''acme''" "k @ ''.json'' = ''beta.json'' \<longleftrightarrow> k = ''beta''"
    using append_same_eq [of k "''.json''" "''acme''"] append_same_eq [of k "''.json''" "''beta''"] by simp_all
  then show ?thesis
    by (simp add: tenant_view_def contents_def demo_path [OF assms] demo_files_def) (simp add: demo_store_def)
qed

lemma demo_own: "own_ids (demo_store, map_of) demo_files"
  by (simp add: own_ids_def demo_view acme_def beta_def)

theorem tenant_store_invariant_witness:
  "own_ids (demo_store, map_of) (fold (run_tenant_op demo_store) [RemoveTenant ''acme'', CreateTenant ''..''] demo_files)
    \<and> tenant_view (demo_store, map_of) ''beta''
        (fold (run_tenant_op demo_store) [RemoveTenant ''acme'', CreateTenant ''..''] demo_files) = Some (Some beta)"
  using tenant_store_invariant [OF demo_ok demo_own refl, of "[RemoveTenant ''acme'', CreateTenant ''..'']"] demo_ids
    demo_view by simp

theorem tenant_results_witness:
  "\<exists>s'. set_tenant_limits demo_store ''acme'' (no_limits\<lparr>tl_pids := Some 8\<rparr>) demo_files = (Inr acme_tight, s')
    \<and> tenant_view (demo_store, map_of) ''acme'' s' = Some (Some acme_tight)"
proof -
  have "fst (set_tenant_limits demo_store ''acme'' (no_limits\<lparr>tl_pids := Some 8\<rparr>) demo_files) = Inr acme_tight"
    by code_simp
  then obtain s' where run: "set_tenant_limits demo_store ''acme'' (no_limits\<lparr>tl_pids := Some 8\<rparr>) demo_files = (Inr acme_tight, s')"
    by (metis prod.collapse)
  then have "tenant_view (demo_store, map_of) ''acme'' s' = Some (Some acme_tight)"
    using tenant_results [OF demo_ok demo_own] by blast
  with run show ?thesis
    by blast
qed

theorem orphans_exact_witness:
  "(\<exists>s'. tenant_remove demo_store ''acme'' demo_files = (Inr (Some [''d1'']), s'))
    \<and> ''d1'' \<in> set (tn_scripts acme) \<and> ''d1'' \<notin> set (tn_scripts beta)"
proof -
  have "fst (tenant_remove demo_store ''acme'' demo_files) = Inr (Some [''d1''])"
    by code_simp
  then obtain s' where run: "tenant_remove demo_store ''acme'' demo_files = (Inr (Some [''d1'']), s')"
    by (metis prod.collapse)
  have view: "tenant_view (demo_store, map_of) ''acme'' demo_files = Some (Some acme)"
    "tenant_view (demo_store, map_of) ''beta'' demo_files = Some (Some beta)"
    using demo_view demo_ids by simp_all
  have es: "hf_read_dir (tn_fs demo_store) (tn_dir demo_store) demo_files = Inr [Inr ''acme.json'', Inr ''beta.json'']"
    by code_simp
  have "is_ok (hf_read (tn_fs demo_store) (tenant_path demo_store ''acme'') demo_files)"
    "is_ok (hf_read (tn_fs demo_store) (tenant_path demo_store ''beta'') demo_files)"
    by code_simp+
  then have "\<forall>k. valid_tenant_id k \<and> tenant_view (demo_store, map_of) k demo_files \<noteq> Some None
      \<longrightarrow> is_ok (hf_read (tn_fs demo_store) (tenant_path demo_store k) demo_files)"
    using demo_view by (auto split: if_splits)
  moreover have "\<forall>e. Inl e \<notin> set [Inr ''acme.json'', Inr ''beta.json'']"
    by simp
  ultimately have law: "\<forall>d \<in> set [''d1'']. d \<in> set (tn_scripts acme) \<and> (\<forall>k x. valid_tenant_id k \<and> k \<noteq> ''acme''
      \<and> tenant_view (demo_store, map_of) k demo_files = Some (Some x) \<longrightarrow> d \<notin> set (tn_scripts x))"
    using orphans_exact [OF demo_ok demo_own run view(1) es, THEN conjunct1] by blast
  then have "''d1'' \<in> set (tn_scripts acme)" "''d1'' \<notin> set (tn_scripts beta)"
    using view(2) demo_ids(2) by auto
  then show ?thesis
    using run by blast
qed

end
