(* ===== verification/Zygo_Secrets_Laws.thy ===== *)
theory Zygo_Secrets_Laws
  imports Zygo_Secrets Zygo_Tenants_Laws Zygo_Memfs
begin

text \<open>
  What the secret store promises: what was put is what a request gets, under the name and the
  tenant it was put for and nowhere else; the file is replaced whole and private; names are
  answered without values.
\<close>

section \<open>Ordered maps\<close>

definition ordered :: "(string \<times> 'v) list \<Rightarrow> bool" where
  "ordered m \<longleftrightarrow> sorted_wrt (<) (map fst m)"

lemma map_of_bt_insert: "map_of (bt_insert k v m) = (map_of m)(k \<mapsto> v)"
  by (induction k v m rule: bt_insert.induct) (auto simp: fun_eq_iff)

lemma fst_bt_insert: "fst ` set (bt_insert k v m) = insert k (fst ` set m)"
  by (induction k v m rule: bt_insert.induct) auto

lemma ordered_bt_insert: "ordered m \<Longrightarrow> ordered (bt_insert k v m)"
proof (induction k v m rule: bt_insert.induct)
  case (2 k v a w m)
  have m: "ordered m" "\<forall>x \<in> fst ` set m. a < x"
    using "2.prems" by (auto simp: ordered_def)
  consider "k = a" | "k < a" | "a < k"
    by fastforce
  then show ?case
  proof cases
    case 3
    then have "ordered (bt_insert k v m)" "\<forall>x \<in> fst ` set (bt_insert k v m). a < x"
      using "2.IH" m unfolding fst_bt_insert by auto
    then show ?thesis
      using 3 by (auto simp: ordered_def)
  qed (use m in \<open>auto simp: ordered_def\<close>)
qed (simp add: ordered_def)

lemma map_of_bt_remove: "map_of (bt_remove k m) = (map_of m)(k := None)"
  by (induction m) (auto simp: bt_remove_def fun_eq_iff)

lemma ordered_bt_remove: "ordered m \<Longrightarrow> ordered (bt_remove k m)"
proof (induction m)
  case (Cons e m)
  then show ?case
    by (cases e) (auto simp: ordered_def bt_remove_def)
qed (simp add: ordered_def bt_remove_def)

lemma ordered_Cons: "ordered ((a, w) # m) \<Longrightarrow> ordered m \<and> map_of m a = None"
  by (auto simp: ordered_def map_of_eq_None_iff)

section \<open>The store\<close>

text \<open>
  What is relied on: the file system, a codec of ordered maps, random bytes in full, base64 that
  reads what it wrote, and a cipher that opens what it sealed and nothing under other
  associated data.
\<close>

definition secrets_ok :: "'s secret_store \<times> 's files \<Rightarrow> bool" where
  "secrets_ok p \<longleftrightarrow> (case p of (st, files) \<Rightarrow>
     hostfs_contract (ss_fs st) files \<and> is_absolute (ss_dir st) \<and> CHR ''/'' \<notin> set (ss_process st)
     \<and> (\<forall>m body. ordered m \<and> ss_encode st m = Some body \<longrightarrow> ss_decode st body = Some m)
     \<and> (\<forall>m body. ss_decode st body = Some m \<longrightarrow> ordered m)
     \<and> (\<forall>n s b s'. hf_random (ss_fs st) n s = (Inr b, s') \<longrightarrow> length b = n)
     \<and> (\<forall>b. ss_unbase64 st (ss_base64 st b) = Some b)
     \<and> (\<forall>k n a m c. ss_encrypt st k n a m = Some c \<longrightarrow> ss_decrypt st k n a c = Some m)
     \<and> (\<forall>k n a a' m c. ss_encrypt st k n a m = Some c \<and> a' \<noteq> a \<longrightarrow> ss_decrypt st k n a' c = None))"

lemma secrets_okD:
  assumes "secrets_ok (st, files)"
  shows "hostfs_contract (ss_fs st) files" and "is_absolute (ss_dir st)" and "CHR ''/'' \<notin> set (ss_process st)"
    and "ordered m \<Longrightarrow> ss_encode st m = Some body \<Longrightarrow> ss_decode st body = Some m"
    and "ss_decode st body = Some m \<Longrightarrow> ordered m"
    and "hf_random (ss_fs st) n s = (Inr b, s') \<Longrightarrow> length b = n"
    and "ss_unbase64 st (ss_base64 st x) = Some x"
    and "ss_encrypt st k nonce a v = Some c \<Longrightarrow> ss_decrypt st k nonce a c = Some v"
    and "ss_encrypt st k nonce a v = Some c \<Longrightarrow> a' \<noteq> a \<Longrightarrow> ss_decrypt st k nonce a' c = None"
  using assms unfolding secrets_ok_def prod.case by blast+

definition secret_view :: "'s secret_store \<times> 's files \<Rightarrow> string \<Rightarrow> 's \<Rightarrow> sealed option" where
  "secret_view p tenant s = (case p of (st, files) \<Rightarrow>
     (case contents files s (secret_path st tenant) of None \<Rightarrow> Some [] | Some body \<Rightarrow> ss_decode st body))"

definition secret_save :: "'s secret_store \<times> 's files \<Rightarrow> string \<Rightarrow> sealed \<Rightarrow> ('s, store_error, unit) step" where
  "secret_save p tenant m = (if ordered m then secret_write (fst p) tenant m else fail_with bad_secret)"

lemma secret_components:
  assumes "secrets_ok (st, files)" and "valid_tenant_id tid" and "valid_tenant_id tid'"
  shows "components (secret_temporary st tid) \<noteq> components (secret_path st tid')"
    and "tid \<noteq> tid' \<Longrightarrow> components (secret_path st tid) \<noteq> components (secret_path st tid')"
proof -
  have abs: "is_absolute (ss_dir st)" and proc: "CHR ''/'' \<notin> set (ss_process st)"
    by (rule secrets_okD [OF assms(1)])+
  have path: "components (secret_path st i) = components (ss_dir st) @ [Normal (i @ ''.json'')]" if "valid_tenant_id i" for i
    unfolding secret_path_def by (rule components_file [OF abs valid_tenant_id_plain(1) [OF that]])
  have "plain (''.'' @ tid @ ''.'' @ ss_process st @ ''.incoming'')"
    using valid_tenant_id_plain(2) [OF assms(2)] proc assms(2) by (auto simp: plain_def valid_tenant_id_def)
  then have "components (secret_temporary st tid)
      = components (ss_dir st) @ [Normal (''.'' @ tid @ ''.'' @ ss_process st @ ''.incoming'')]"
    unfolding secret_temporary_def by (rule components_file [OF abs])
  then show "components (secret_temporary st tid) \<noteq> components (secret_path st tid')"
    using path [OF assms(3)] valid_tenant_id_plain(3) [OF assms(3)] by auto
  show "components (secret_path st tid) \<noteq> components (secret_path st tid')" if "tid \<noteq> tid'"
    using path [OF assms(2)] path [OF assms(3)] that by simp
qed

lemma secret_view_cong:
  "files s' (components (secret_path st tid)) = files s (components (secret_path st tid)) \<Longrightarrow>
     secret_view (st, files) tid s' = secret_view (st, files) tid s"
  by (simp add: secret_view_def contents_def)

lemma secret_write_view:
  assumes ok: "secrets_ok (st, files)" and good: "valid_tenant_id tid" and m: "ordered m"
    and run: "secret_write st tid m s = (r, s')"
  shows "secret_view (st, files) tid s' = (if is_ok r then Some m else secret_view (st, files) tid s)"
    and "valid_tenant_id i \<Longrightarrow> i \<noteq> tid \<Longrightarrow> secret_view (st, files) i s' = secret_view (st, files) i s"
    and "is_ok r \<Longrightarrow> \<exists>v. files s' (components (secret_path st tid)) = Some (v, 384)"
proof -
  have contract: "hostfs_contract (ss_fs st) files"
    and codec: "\<And>body. ss_encode st m = Some body \<Longrightarrow> ss_decode st body = Some m"
    using secrets_okD(1,4) [OF ok] m by blast+
  note atomic = replace_file_atomic [OF contract secret_components(1) [OF ok good good] run [unfolded secret_write_def]]
  show "secret_view (st, files) tid s' = (if is_ok r then Some m else secret_view (st, files) tid s)"
    using atomic(2,3) codec
    by (cases "is_ok r") (auto simp: secret_view_def contents_def result_simps dest!: sym [of "Inr _"])
  show "secret_view (st, files) i s' = secret_view (st, files) i s" if "valid_tenant_id i" "i \<noteq> tid"
    using atomic(1) secret_components(1) [OF ok good that(1)] secret_components(2) [OF ok that(1) good that(2)]
    by (intro secret_view_cong) (auto simp: touches_def)
  show "is_ok r \<Longrightarrow> \<exists>v. files s' (components (secret_path st tid)) = Some (v, 384)"
    using atomic(2) by blast
qed

lemma secret_read_view:
  assumes "secrets_ok (st, files)" and "secret_read st tid s = Inr m"
  shows "secret_view (st, files) tid s = Some m" and "ordered m"
proof -
  have contract: "hostfs_contract (ss_fs st) files" and dec: "\<And>m body. ss_decode st body = Some m \<Longrightarrow> ordered m"
    using secrets_okD(1,5) [OF assms(1)] by blast+
  obtain x where x: "read_record (ss_fs st) bad_secret (ss_decode st) (secret_path st tid) s = Inr x"
    and m: "m = (case x of Some m \<Rightarrow> m | None \<Rightarrow> [])"
    using assms(2) by (auto simp: secret_read_def result_simps)
  show v: "secret_view (st, files) tid s = Some m"
    using read_record_view [OF contract x] m by (auto simp: secret_view_def split: option.splits)
  show "ordered m"
    using v dec by (auto simp: secret_view_def ordered_def [of "[]"] split: option.splits)
qed

interpretation secrets: record_store secrets_ok valid_tenant_id "\<lambda>p. secret_read (fst p)" secret_save secret_view
proof unfold_locales
  fix p :: "'s secret_store \<times> 's files" and k x s
  assume "secrets_ok p" and "secret_read (fst p) k s = Inr x"
  then show "secret_view p k s = Some x"
    using secret_read_view(1) [of "fst p" "snd p"] by simp
next
  fix p :: "'s secret_store \<times> 's files" and k x s r s'
  assume "secrets_ok p" and "valid_tenant_id k" and "secret_save p k x s = (r, s')"
  then show "secret_view p k s' = (if is_ok r then Some x else secret_view p k s)"
    using secret_write_view(1) [of "fst p" "snd p"] by (auto simp: secret_save_def fail_with_def result_simps split: if_splits)
next
  fix p :: "'s secret_store \<times> 's files" and k k' x s r s'
  assume "secrets_ok p" and "valid_tenant_id k" and "valid_tenant_id k'" and "k \<noteq> k'" and "secret_save p k x s = (r, s')"
  then show "secret_view p k' s' = secret_view p k' s"
    using secret_write_view(2) [of "fst p" "snd p"] by (auto simp: secret_save_def fail_with_def split: if_splits)
qed

section \<open>Sealing\<close>

lemma aad_inject:
  assumes "valid_tenant_id t" and "valid_tenant_id t'" and "aad t n = aad t' n'"
  shows "t = t' \<and> n = n'"
proof -
  have "split_once CHR ''/'' (t @ CHR ''/'' # n) = split_once CHR ''/'' (t' @ CHR ''/'' # n')"
    using assms(3) by (simp add: aad_def)
  then show ?thesis
    using valid_tenant_id_plain(2) [OF assms(1)] valid_tenant_id_plain(2) [OF assms(2)] by simp
qed

lemma seal_spec:
  assumes ok: "secrets_ok (st, files)" and run: "seal st tenant name value s = (r, s')"
  shows "files s' = files s"
    and "r = Inr x \<Longrightarrow> \<exists>nonce body. length nonce = 12 \<and> ss_unbase64 st x = Some (nonce @ body)
      \<and> ss_encrypt st (ss_key st) nonce (aad tenant name) value = Some body"
proof -
  have contract: "hostfs_contract (ss_fs st) files"
    by (rule secrets_okD(1) [OF ok])
  obtain q s1 where q: "hf_random (ss_fs st) 12 s = (q, s1)"
    by fastforce
  have "s' = s1"
    using run q by (cases q; cases "ss_encrypt st (ss_key st) (projr q) (aad tenant name) value")
      (auto simp: seal_def and_do_def at_def look_def return_ok_def)
  then show "files s' = files s"
    using contract_random [OF contract q] by simp
  assume "r = Inr x"
  then obtain nonce body where "q = Inr nonce" "ss_encrypt st (ss_key st) nonce (aad tenant name) value = Some body"
    "x = ss_base64 st (nonce @ body)"
    using run q by (cases q; cases "ss_encrypt st (ss_key st) (projr q) (aad tenant name) value")
      (auto simp: seal_def and_do_def at_def look_def return_ok_def)
  then show "\<exists>nonce body. length nonce = 12 \<and> ss_unbase64 st x = Some (nonce @ body)
      \<and> ss_encrypt st (ss_key st) nonce (aad tenant name) value = Some body"
    using secrets_okD(6,7) [OF ok] q by blast
qed

lemma open_sealed:
  assumes "secrets_ok (st, files)" and "seal st tenant name value s = (Inr x, s')" and "is_utf8 value"
  shows "open_secret st tenant name x = Inr value"
proof -
  obtain nonce body where "length nonce = 12" "ss_unbase64 st x = Some (nonce @ body)"
    "ss_encrypt st (ss_key st) nonce (aad tenant name) value = Some body"
    using seal_spec(2) [OF assms(1,2) refl] by blast
  moreover from this(3) have "ss_decrypt st (ss_key st) nonce (aad tenant name) body = Some value"
    by (rule secrets_okD(8) [OF assms(1)])
  ultimately show ?thesis
    using assms(3) by (simp add: open_secret_def)
qed

text \<open>
  C19. A sealed value is bound to the tenant and the name it was sealed for: it opens there, to
  exactly what was sealed, and it is refused under every other name and for every other
  tenant, whoever moves it.
\<close>

theorem sealed_value_bound:
  assumes ok: "secrets_ok (st, files)" and run: "seal st tenant name value s = (Inr x, s')" and utf8: "is_utf8 value"
    and tenant: "valid_tenant_id tenant"
  shows "open_secret st tenant name x = Inr value
    \<and> (\<forall>tenant' name'. valid_tenant_id tenant' \<and> (tenant', name') \<noteq> (tenant, name)
        \<longrightarrow> open_secret st tenant' name' x = Inl bad_secret)"
proof (intro conjI allI impI)
  show "open_secret st tenant name x = Inr value"
    by (rule open_sealed [OF ok run utf8])
  fix tenant' name'
  assume other: "valid_tenant_id tenant' \<and> (tenant', name') \<noteq> (tenant, name)"
  obtain nonce body where n: "length nonce = 12" "ss_unbase64 st x = Some (nonce @ body)"
    "ss_encrypt st (ss_key st) nonce (aad tenant name) value = Some body"
    using seal_spec(2) [OF ok run refl] by blast
  have "aad tenant' name' \<noteq> aad tenant name"
    using aad_inject tenant other by blast
  then have "ss_decrypt st (ss_key st) nonce (aad tenant' name') body = None"
    by (rule secrets_okD(9) [OF ok n(3)])
  then show "open_secret st tenant' name' x = Inl bad_secret"
    using n by (simp add: open_secret_def)
qed

section \<open>Putting and getting\<close>

lemma open_all_values:
  assumes "open_all st tenant m out = Inr r" and "ordered m"
  shows "map_of m n = Some v \<Longrightarrow> \<exists>plain. open_secret st tenant n v = Inr plain \<and> map_of r n = Some plain"
    and "map_of m n = None \<Longrightarrow> map_of r n = map_of out n"
proof -
  have "(\<forall>v. map_of m n = Some v \<longrightarrow> (\<exists>plain. open_secret st tenant n v = Inr plain \<and> map_of r n = Some plain))
      \<and> (map_of m n = None \<longrightarrow> map_of r n = map_of out n)"
    using assms
  proof (induction m arbitrary: out)
    case (Cons e m)
    obtain a w where e: "e = (a, w)"
      by (cases e)
    obtain plain where p: "open_secret st tenant a w = Inr plain" "open_all st tenant m (bt_insert a plain out) = Inr r"
      using Cons.prems(1) e by (auto simp: result_simps)
    have o: "ordered m" "map_of m a = None"
      using ordered_Cons [of a w m] Cons.prems(2) e by simp_all
    show ?case
      using Cons.IH [OF p(2) o(1)] p(1) o(2) e by (auto simp: map_of_bt_insert)
  qed simp
  then show "map_of m n = Some v \<Longrightarrow> \<exists>plain. open_secret st tenant n v = Inr plain \<and> map_of r n = Some plain"
    and "map_of m n = None \<Longrightarrow> map_of r n = map_of out n"
    by blast+
qed

lemma secret_put_spec:
  assumes ok: "secrets_ok (st, files)" and run: "secret_put st tenant name value s = (r, s')"
  shows "r = Inr u \<Longrightarrow> valid_tenant_id tenant \<and> valid_secret_name name
      \<and> (\<exists>m x s1. secret_view (st, files) tenant s = Some m \<and> ordered m \<and> seal st tenant name value s = (Inr x, s1)
          \<and> secret_view (st, files) tenant s' = Some (bt_insert name x m))
      \<and> (\<exists>v. files s' (components (secret_path st tenant)) = Some (v, 384))"
    and "r = Inl e \<Longrightarrow> valid_tenant_id tenant \<Longrightarrow> secret_view (st, files) tenant s' = secret_view (st, files) tenant s"
    and "valid_tenant_id i \<Longrightarrow> i \<noteq> tenant \<Longrightarrow> secret_view (st, files) i s' = secret_view (st, files) i s"
proof -
  let ?early = "\<not> (valid_tenant_id tenant \<and> valid_secret_name name \<and> length value \<le> MAX_SECRET_BYTES \<and> is_ok (secret_read st tenant s))"
  have all: "(\<forall>u. r = Inr u \<longrightarrow> valid_tenant_id tenant \<and> valid_secret_name name
      \<and> (\<exists>m x s1. secret_view (st, files) tenant s = Some m \<and> ordered m \<and> seal st tenant name value s = (Inr x, s1)
          \<and> secret_view (st, files) tenant s' = Some (bt_insert name x m))
      \<and> (\<exists>v. files s' (components (secret_path st tenant)) = Some (v, 384)))
    \<and> (\<forall>e. r = Inl e \<longrightarrow> valid_tenant_id tenant \<longrightarrow> secret_view (st, files) tenant s' = secret_view (st, files) tenant s)
    \<and> (\<forall>i. valid_tenant_id i \<longrightarrow> i \<noteq> tenant \<longrightarrow> secret_view (st, files) i s' = secret_view (st, files) i s)"
  proof (cases ?early)
    case True
    then have "s' = s \<and> (\<exists>e. r = Inl e)"
      using run by (cases "secret_read st tenant s")
        (auto simp: secret_put_def and_do_def look_def fail_with_def check_tenant_id_def check_secret_name_def split: if_splits)
    then show ?thesis
      by auto
  next
    case False
    then obtain m where m: "secret_read st tenant s = Inr m"
      by (auto simp: result_simps)
    obtain q s1 where q: "seal st tenant name value s = (q, s1)"
      by fastforce
    have same: "secret_view (st, files) i s1 = secret_view (st, files) i s" for i
      using seal_spec(1) [OF ok q] by (intro secret_view_cong) simp
    show ?thesis
    proof (cases q)
      case (Inl e)
      then have "s' = s1 \<and> (\<exists>e. r = Inl e)"
        using run q m False
        by (auto simp: secret_put_def and_do_def look_def check_tenant_id_def check_secret_name_def)
      then show ?thesis
        using same by auto
    next
      case (Inr x)
      then have w: "secret_write st tenant (bt_insert name x m) s1 = (r, s')"
        using run q m False
        by (auto simp: secret_put_def and_do_def look_def check_tenant_id_def check_secret_name_def)
      note v = secret_read_view [OF ok m]
      show ?thesis
        using secret_write_view [OF ok _ ordered_bt_insert [OF v(2)] w] False v q Inr same
        by (auto simp: result_simps)
    qed
  qed
  then show "r = Inr u \<Longrightarrow> valid_tenant_id tenant \<and> valid_secret_name name
      \<and> (\<exists>m x s1. secret_view (st, files) tenant s = Some m \<and> ordered m \<and> seal st tenant name value s = (Inr x, s1)
          \<and> secret_view (st, files) tenant s' = Some (bt_insert name x m))
      \<and> (\<exists>v. files s' (components (secret_path st tenant)) = Some (v, 384))"
    and "r = Inl e \<Longrightarrow> valid_tenant_id tenant \<Longrightarrow> secret_view (st, files) tenant s' = secret_view (st, files) tenant s"
    and "valid_tenant_id i \<Longrightarrow> i \<noteq> tenant \<Longrightarrow> secret_view (st, files) i s' = secret_view (st, files) i s"
    by blast+
qed

text \<open>
  What was put is what a request gets: once a put has succeeded, whoever asks for the values of
  the tenant is given exactly the value under its name, and every other name what it gave
  before; the names gained are that one; the file is readable by its owner only; and neither
  a success nor a failure changes what another tenant has, nor a failure this one's.
\<close>

theorem secret_round_trip:
  assumes ok: "secrets_ok (st, files)" and run: "secret_put st tenant name value s = (r, s')" and utf8: "is_utf8 value"
  shows "(is_ok r \<longrightarrow>
        (\<forall>out. secret_values st tenant s' = Inr out \<longrightarrow> map_of out name = Some value)
        \<and> (\<forall>out. secret_values_named st tenant [name] s' = Inr out \<longrightarrow> out = [(name, value)])
        \<and> (\<forall>n out out'. n \<noteq> name \<and> secret_values st tenant s = Inr out \<and> secret_values st tenant s' = Inr out'
            \<longrightarrow> map_of out' n = map_of out n)
        \<and> (\<forall>ns ns'. secret_names st tenant s = Inr ns \<and> secret_names st tenant s' = Inr ns' \<longrightarrow> set ns' = insert name (set ns))
        \<and> (\<exists>v. files s' (components (secret_path st tenant)) = Some (v, 384)))
    \<and> (\<forall>i. valid_tenant_id i \<and> (i \<noteq> tenant \<or> \<not> is_ok r) \<longrightarrow> secret_view (st, files) i s' = secret_view (st, files) i s)"
proof (intro conjI impI)
  show "\<forall>i. valid_tenant_id i \<and> (i \<noteq> tenant \<or> \<not> is_ok r) \<longrightarrow> secret_view (st, files) i s' = secret_view (st, files) i s"
    using secret_put_spec(2,3) [OF ok run] by (cases r) (auto simp: result_simps)
  assume "is_ok r"
  then have r: "r = Inr ()"
    by (auto simp: result_simps)
  obtain m x s1 where m: "secret_view (st, files) tenant s = Some m" "ordered m" "seal st tenant name value s = (Inr x, s1)"
      "secret_view (st, files) tenant s' = Some (bt_insert name x m)"
    and tenant: "valid_tenant_id tenant"
    and mode: "\<exists>v. files s' (components (secret_path st tenant)) = Some (v, 384)"
    using secret_put_spec(1) [OF ok run r] by blast
  show "\<exists>v. files s' (components (secret_path st tenant)) = Some (v, 384)"
    by (rule mode)
  have opens: "open_secret st tenant name x = Inr value"
    by (rule open_sealed [OF ok m(3) utf8])
  note o = ordered_bt_insert [OF m(2), of name x]
  have check: "check_tenant_id tenant = Inr ()"
    using tenant by (simp add: check_tenant_id_def)
  have read: "secret_read st tenant s = Inr m' \<Longrightarrow> m' = m" "secret_read st tenant s' = Inr m' \<Longrightarrow> m' = bt_insert name x m" for m'
    using secret_read_view(1) [OF ok] m(1,4) by fastforce+
  have given: "open_all st tenant (bt_insert name x m) [] = Inr out" if "secret_values st tenant s' = Inr out" for out
    using that read(2) check by (auto simp: secret_values_def result_simps)
  show "\<forall>out. secret_values st tenant s' = Inr out \<longrightarrow> map_of out name = Some value"
  proof (intro allI impI)
    fix out
    assume "secret_values st tenant s' = Inr out"
    then show "map_of out name = Some value"
      using open_all_values(1) [OF given o, of out name x] opens by (simp add: map_of_bt_insert)
  qed
  show "\<forall>out. secret_values_named st tenant [name] s' = Inr out \<longrightarrow> out = [(name, value)]"
    using read(2) check opens by (auto simp: secret_values_named_def result_simps map_of_bt_insert)
  show "\<forall>ns ns'. secret_names st tenant s = Inr ns \<and> secret_names st tenant s' = Inr ns' \<longrightarrow> set ns' = insert name (set ns)"
    using read check by (auto simp: secret_names_def result_simps fst_bt_insert)
  show "\<forall>n out out'. n \<noteq> name \<and> secret_values st tenant s = Inr out \<and> secret_values st tenant s' = Inr out'
      \<longrightarrow> map_of out' n = map_of out n"
  proof (intro allI impI)
    fix n out out'
    assume a: "n \<noteq> name \<and> secret_values st tenant s = Inr out \<and> secret_values st tenant s' = Inr out'"
    then have before: "open_all st tenant m [] = Inr out"
      using read(1) check by (auto simp: secret_values_def result_simps)
    show "map_of out' n = map_of out n"
      using open_all_values [OF before m(2), of n] open_all_values [OF given o, of out' n] a
      by (cases "map_of m n") (auto simp: map_of_bt_insert)
  qed
qed

section \<open>An instance\<close>

text \<open>A cipher that writes the associated data in front, after its length.\<close>

definition demo_aad :: "string \<Rightarrow> string" where
  "demo_aad a = replicate (length a) CHR ''1'' @ ''0'' @ a"

lemma demo_aad_prefix:
  assumes "demo_aad a @ m = demo_aad a' @ m'"
  shows "a = a'"
proof -
  have "takeWhile (\<lambda>c. c = CHR ''1'') (demo_aad b @ x) = replicate (length b) CHR ''1''" for b x
    by (simp add: demo_aad_def takeWhile_append)
  then have "replicate (length a) CHR ''1'' = replicate (length a') CHR ''1''"
    using assms by metis
  then have "length a = length a'"
    by (metis length_replicate)
  then show ?thesis
    using assms by (simp add: demo_aad_def)
qed

definition demo_sealed :: "sealed list" where
  "demo_sealed = [[(''KEY'', map (\<lambda>_. CHR 0x00) [0..<12] @ demo_aad (aad ''acme'' ''KEY'') @ ''v'')]]"

definition demo_secrets :: "memfs secret_store" where
  "demo_secrets = \<lparr>ss_fs = memory_fs, ss_encode = known_encode demo_sealed, ss_decode = known_decode demo_sealed,
     ss_base64 = (\<lambda>b. b), ss_unbase64 = Some,
     ss_encrypt = (\<lambda>_ _ a m. Some (demo_aad a @ m)), ss_decrypt = (\<lambda>_ _ a c. strip_prefix (demo_aad a) c),
     ss_key = [], ss_process = ''1-ab'', ss_dir = ''/s''\<rparr>"

lemma demo_secrets_ok: "secrets_ok (demo_secrets, map_of)"
  unfolding secrets_ok_def prod.case
proof (intro conjI allI impI)
  show "hostfs_contract (ss_fs demo_secrets) map_of"
    by (simp add: demo_secrets_def memory_fs_contract)
  show "is_absolute (ss_dir demo_secrets)" "CHR ''/'' \<notin> set (ss_process demo_secrets)"
    by (simp_all add: demo_secrets_def is_absolute_def)
  show "ss_decode demo_secrets body = Some m" if "ordered m \<and> ss_encode demo_secrets m = Some body" for m body
    using that by (auto simp: demo_secrets_def intro: known_codec)
  show "ordered m" if "ss_decode demo_secrets body = Some m" for m body
    using that by (simp add: demo_secrets_def known_decode_def demo_sealed_def ordered_def split: if_splits) auto
  show "length b = n" if "hf_random (ss_fs demo_secrets) n s = (Inr b, s')" for n s b s'
    using that by (auto simp: demo_secrets_def memory_fs_def)
  show "ss_unbase64 demo_secrets (ss_base64 demo_secrets b) = Some b" for b
    by (simp add: demo_secrets_def)
  show "ss_decrypt demo_secrets k n a c = Some m" if "ss_encrypt demo_secrets k n a m = Some c" for k n a m c
    using that by (auto simp: demo_secrets_def)
  fix k n a a' m c
  assume e: "ss_encrypt demo_secrets k n a m = Some c \<and> a' \<noteq> a"
  then have c: "c = demo_aad a @ m"
    by (simp add: demo_secrets_def)
  show "ss_decrypt demo_secrets k n a' c = None"
  proof (cases "strip_prefix (demo_aad a') c")
    case (Some r)
    then show ?thesis
      using demo_aad_prefix [of a m a' r] e c strip_prefix_SomeD by metis
  qed (simp add: demo_secrets_def)
qed

lemma demo_secret_facts:
  "valid_tenant_id ''acme''" "valid_tenant_id ''beta''" "is_utf8 ''v''"
  "seal demo_secrets ''acme'' ''KEY'' ''v'' [] = (Inr (snd (hd (hd demo_sealed))), [])"
  by code_simp+

theorem sealed_value_bound_witness:
  "open_secret demo_secrets ''acme'' ''KEY'' (snd (hd (hd demo_sealed))) = Inr ''v''
    \<and> open_secret demo_secrets ''beta'' ''KEY'' (snd (hd (hd demo_sealed))) = Inl bad_secret"
  using sealed_value_bound [OF demo_secrets_ok demo_secret_facts(4,3,1)] demo_secret_facts(2) by simp

theorem secret_round_trip_witness:
  "\<exists>s' out. secret_put demo_secrets ''acme'' ''KEY'' ''v'' [] = (Inr (), s')
    \<and> secret_values demo_secrets ''acme'' s' = Inr out \<and> map_of out ''KEY'' = Some ''v''"
proof -
  define s1 where "s1 = snd (secret_write demo_secrets ''acme'' (hd demo_sealed) [])"
  have parts: "check_tenant_id ''acme'' = Inr ()" "check_secret_name ''KEY'' = Inr ()" "secret_read demo_secrets ''acme'' [] = Inr []"
    "[(''KEY'', snd (hd (hd demo_sealed)))] = hd demo_sealed"
    by code_simp+
  have w: "fst (secret_write demo_secrets ''acme'' (hd demo_sealed) []) = Inr ()"
    "is_ok (secret_values demo_secrets ''acme'' s1)"
    unfolding s1_def by code_simp+
  then have "secret_write demo_secrets ''acme'' (hd demo_sealed) [] = (Inr (), s1)"
    by (simp add: s1_def prod_eq_iff)
  then have put: "secret_put demo_secrets ''acme'' ''KEY'' ''v'' [] = (Inr (), s1)"
    by (simp add: secret_put_def and_do_def look_def parts demo_secret_facts(4) MAX_SECRET_BYTES_def)
  obtain out where out: "secret_values demo_secrets ''acme'' s1 = Inr out"
    using w(2) by (auto simp: result_simps)
  have "is_ok (Inr () :: store_error + unit)"
    by (simp add: result_simps)
  note law = conjunct1 [OF mp [OF conjunct1 [OF secret_round_trip [OF demo_secrets_ok put demo_secret_facts(3)]] this]]
  have "map_of out ''KEY'' = Some ''v''"
    using law out by simp
  then show ?thesis
    using put out by blast
qed

end
