(* ===== verification/Zygo_Scripts_Laws.thy ===== *)
theory Zygo_Scripts_Laws
  imports Zygo_Scripts Zygo_Tenants_Laws Zygo_Memfs
begin

text \<open>
  What the script store promises: a digest names exactly one file of the store and nothing
  outside it, what is read under a digest hashes to it, and a tenant's request runs only
  what that tenant registered.
\<close>

section \<open>Names\<close>

lemma well_formed_hex_plain:
  assumes "well_formed_hex hex"
  shows "plain hex" and "hd hex \<noteq> CHR ''.''" and "hex \<noteq> []"
proof -
  have chars: "list_all (\<lambda>b. b \<noteq> CHR ''/'' \<and> b \<noteq> CHR ''.'') hex"
    using assms by (auto simp: well_formed_hex_def list_all_iff is_ascii_digit_def code_def less_eq_char_def)
  show ne: "hex \<noteq> []"
    using assms by (auto simp: well_formed_hex_def)
  show "plain hex" and "hd hex \<noteq> CHR ''.''"
    using chars ne by (cases hex; auto simp: plain_def list_all_iff)+
qed

lemma parse_digest_ok: "parse_digest body = Inr d \<longleftrightarrow> d = body \<and> (\<exists>hex. body = ''sha256:'' @ hex \<and> well_formed_hex hex)"
  by (auto simp: parse_digest_def strip_prefix_Some_iff split: option.splits if_splits dest: strip_prefix_SomeD)

text \<open>
  What is relied on: the file system, a process token that is no path, and SHA-256 in
  hexadecimal, sixty-four lower-case digits.
\<close>

definition scripts_ok :: "'s script_store \<times> 's files \<Rightarrow> bool" where
  "scripts_ok p \<longleftrightarrow> (case p of (st, files) \<Rightarrow>
     hostfs_contract (sc_fs st) files \<and> is_absolute (sc_dir st) \<and> CHR ''/'' \<notin> set (sc_process st)
     \<and> (\<forall>x. well_formed_hex (sc_hex st (sc_sha st x))))"

definition good_digest :: "string \<Rightarrow> bool" where
  "good_digest d \<longleftrightarrow> (\<exists>hex. d = ''sha256:'' @ hex \<and> well_formed_hex hex)"

lemma digest_of_good: "scripts_ok (st, files) \<Longrightarrow> good_digest (digest_of st source)"
  by (auto simp: scripts_ok_def good_digest_def digest_of_def)

lemma script_components:
  assumes "scripts_ok (st, files)" and "good_digest d"
  shows "components (script_path st d) = components (sc_dir st) @ [Normal (digest_hex d)]"
    and "good_digest d' \<Longrightarrow> components (script_temporary st d) \<noteq> components (script_path st d')"
    and "good_digest d' \<Longrightarrow> d \<noteq> d' \<Longrightarrow> components (script_path st d) \<noteq> components (script_path st d')"
proof -
  have abs: "is_absolute (sc_dir st)" and proc: "CHR ''/'' \<notin> set (sc_process st)"
    using assms(1) by (simp_all add: scripts_ok_def)
  have path: "components (script_path st i) = components (sc_dir st) @ [Normal (digest_hex i)] \<and> hd (digest_hex i) \<noteq> CHR ''.''"
    if "good_digest i" for i
    using that components_file [OF abs] well_formed_hex_plain by (auto simp: script_path_def good_digest_def digest_hex_def)
  show "components (script_path st d) = components (sc_dir st) @ [Normal (digest_hex d)]"
    using path [OF assms(2)] by blast
  have "plain (digest_hex d)"
    using assms(2) well_formed_hex_plain by (auto simp: good_digest_def digest_hex_def)
  then have "plain (''.'' @ digest_hex d @ ''.'' @ sc_process st @ ''.incoming'')"
    using proc by (auto simp: plain_def)
  then have temp: "components (script_temporary st d)
      = components (sc_dir st) @ [Normal (''.'' @ digest_hex d @ ''.'' @ sc_process st @ ''.incoming'')]"
    unfolding script_temporary_def by (rule components_file [OF abs])
  show "components (script_temporary st d) \<noteq> components (script_path st d')" if "good_digest d'"
  proof
    assume "components (script_temporary st d) = components (script_path st d')"
    then have "digest_hex d' = ''.'' @ digest_hex d @ ''.'' @ sc_process st @ ''.incoming''"
      using path [OF that] temp by simp
    then have "hd (digest_hex d') = CHR ''.''"
      by simp
    then show False
      using path [OF that] by blast
  qed
  show "components (script_path st d) \<noteq> components (script_path st d')" if "good_digest d'" "d \<noteq> d'"
    using path [OF assms(2)] path [OF that(1)] assms(2) that by (auto simp: good_digest_def digest_hex_def)
qed

section \<open>The store\<close>

lemma script_get_true:
  assumes "scripts_ok (st, files)" and "script_get st d s = Inr (Some source)"
  shows "digest_of st source = d" and "contents files s (script_path st d) = Some source"
proof -
  have "hf_read (sc_fs st) (script_path st d) s = Inr source \<and> digest_of st source = d"
    using assms(2) by (auto simp: script_get_def split: sum.splits io_error.splits if_splits)
  then show "digest_of st source = d" and "contents files s (script_path st d) = Some source"
    using contract_read(1) assms(1) by (auto simp: scripts_ok_def)
qed

lemma script_put_spec:
  assumes ok: "scripts_ok (st, files)" and run: "script_put st source s = (r, s')"
  shows "good_digest d \<Longrightarrow> d \<noteq> digest_of st source \<Longrightarrow>
      files s' (components (script_path st d)) = files s (components (script_path st d))"
    and "r = Inr d \<Longrightarrow> d = digest_of st source
      \<and> (files s (components (script_path st d)) \<noteq> None \<and> s' = s \<or> contents files s' (script_path st d) = Some source)"
    and "r = Inl e \<Longrightarrow> files s' (components (script_path st (digest_of st source)))
        = files s (components (script_path st (digest_of st source)))"
proof -
  let ?d = "digest_of st source"
  have contract: "hostfs_contract (sc_fs st) files"
    using ok by (simp add: scripts_ok_def)
  note good = digest_of_good [OF ok, of source]
  have all: "(\<forall>d. good_digest d \<longrightarrow> d \<noteq> ?d \<longrightarrow>
      files s' (components (script_path st d)) = files s (components (script_path st d)))
    \<and> (\<forall>d. r = Inr d \<longrightarrow> d = ?d
      \<and> (files s (components (script_path st d)) \<noteq> None \<and> s' = s \<or> contents files s' (script_path st d) = Some source))
    \<and> (\<forall>e. r = Inl e \<longrightarrow> files s' (components (script_path st ?d)) = files s (components (script_path st ?d)))"
  proof (cases "length source > MAX_SCRIPT_BYTES \<or> script_contains st ?d s")
    case True
    then show ?thesis
      using run contract_read(3) [OF contract]
      by (auto simp: script_put_def fail_with_def script_contains_def Let_def split: if_splits)
  next
    case False
    obtain w where w: "replace_file (sc_fs st) None (sc_dir st) (script_temporary st ?d) (script_path st ?d) (Inr source) s = (w, s')"
        "r = map_ok (\<lambda>_. ?d) w"
      using run False
      by (cases "replace_file (sc_fs st) None (sc_dir st) (script_temporary st ?d) (script_path st ?d) (Inr source) s";
          cases "fst (replace_file (sc_fs st) None (sc_dir st) (script_temporary st ?d) (script_path st ?d) (Inr source) s)")
        (auto simp: script_put_def and_do_def return_ok_def Let_def)
    note atomic = replace_file_atomic [OF contract script_components(2) [OF ok good good] w(1)]
    have "files s' (components (script_path st d)) = files s (components (script_path st d))" if "good_digest d" "d \<noteq> ?d" for d
      using atomic(1) script_components(2) [OF ok good that(1)] script_components(3) [OF ok that(1) good that(2)]
      by (auto simp: touches_def)
    then show ?thesis
      using atomic(2,3) w(2) by (cases w) (auto simp: contents_def result_simps)
  qed
  then show "good_digest d \<Longrightarrow> d \<noteq> digest_of st source \<Longrightarrow>
      files s' (components (script_path st d)) = files s (components (script_path st d))"
    and "r = Inr d \<Longrightarrow> d = digest_of st source
      \<and> (files s (components (script_path st d)) \<noteq> None \<and> s' = s \<or> contents files s' (script_path st d) = Some source)"
    and "r = Inl e \<Longrightarrow> files s' (components (script_path st (digest_of st source)))
        = files s (components (script_path st (digest_of st source)))"
    by blast+
qed

text \<open>
  C20. A digest is a name nobody can bend. Whatever text was accepted as one, its file is a single
  ordinary component right below the store; whatever the store's files hold, what is read
  under a digest hashes to it; after a script was put, reading its digest gives its bytes or
  bytes with the same hash, and every other script is what it was, also when the put fails.
\<close>

theorem scripts_content_addressed:
  assumes ok: "scripts_ok (st, files)"
  shows "(\<forall>body d. parse_digest body = Inr d \<longrightarrow>
        d = body \<and> components (script_path st d) = components (sc_dir st) @ [Normal (digest_hex d)])
    \<and> (\<forall>d s source. script_get st d s = Inr (Some source) \<longrightarrow> digest_of st source = d)
    \<and> (\<forall>source s d s' y. script_put st source s = (Inr d, s') \<and> script_get st d s' = Inr y \<longrightarrow>
        (\<exists>x. y = Some x \<and> digest_of st x = digest_of st source
          \<and> (files s (components (script_path st d)) = None \<longrightarrow> x = source)))
    \<and> (\<forall>source s r s' d. script_put st source s = (r, s') \<and> good_digest d \<and> (d \<noteq> digest_of st source \<or> \<not> is_ok r) \<longrightarrow>
        files s' (components (script_path st d)) = files s (components (script_path st d)))"
proof (intro conjI allI impI)
  fix body d
  assume "parse_digest body = Inr d"
  then show "d = body" and "components (script_path st d) = components (sc_dir st) @ [Normal (digest_hex d)]"
    using script_components(1) [OF ok] by (auto simp: parse_digest_ok good_digest_def)
next
  show "digest_of st source = d" if "script_get st d s = Inr (Some source)" for d s source
    by (rule script_get_true(1) [OF ok that])
next
  fix source s d s' y
  assume a: "script_put st source s = (Inr d, s') \<and> script_get st d s' = Inr y"
  then have d: "d = digest_of st source"
    and c: "files s (components (script_path st d)) \<noteq> None \<and> s' = s \<or> contents files s' (script_path st d) = Some source"
    using script_put_spec(2) [OF ok _ refl] by blast+
  then have there: "files s' (components (script_path st d)) \<noteq> None"
    by (auto simp: contents_def)
  have contract: "hostfs_contract (sc_fs st) files"
    using ok by (simp add: scripts_ok_def)
  obtain x where x: "y = Some x"
    using a there contract_read(2) [OF contract, of "script_path st d" s']
    by (cases y) (auto simp: script_get_def split: sum.splits io_error.splits if_splits)
  then have g: "script_get st d s' = Inr (Some x)"
    using a by simp
  show "\<exists>x. y = Some x \<and> digest_of st x = digest_of st source
      \<and> (files s (components (script_path st d)) = None \<longrightarrow> x = source)"
    using x script_get_true [OF ok g] d c by auto
next
  fix source s r s' d
  assume "script_put st source s = (r, s') \<and> good_digest d \<and> (d \<noteq> digest_of st source \<or> \<not> is_ok r)"
  then show "files s' (components (script_path st d)) = files s (components (script_path st d))"
    using script_put_spec(1,3) [OF ok, of source s r s'] by (cases r) (auto simp: result_simps)
qed

text \<open>
  C21. A digest is no capability: a request of a tenant that names its script by digest runs only if
  the tenant's own record lists that digest, and then runs bytes that hash to it, with the
  rest of the request as it came; a digest the tenant never registered is answered as one
  nobody did, whether or not the store holds it.
\<close>

theorem tenants_run_own_scripts:
  assumes ok: "scripts_ok (st, files)" and tenants: "tenants_ok (ts, files)"
    and named: "\<not> is_loadable x"
  shows "(\<forall>y. script_for_request st ts x (Some t) s = Inr y \<longrightarrow>
        (\<exists>d r source. scr_digest x = Some d \<and> tenant_view (ts, files) t s = Some (Some r) \<and> d \<in> set (tn_scripts r)
          \<and> y = x\<lparr>scr_source := Some source\<rparr> \<and> digest_of st source = d))
    \<and> (\<forall>d found. scr_digest x = Some d \<and> good_digest d \<and> tenant_get ts t s = Inr found
          \<and> (\<forall>r. found = Some r \<longrightarrow> d \<notin> set (tn_scripts r)) \<longrightarrow>
        script_for_request st ts x (Some t) s = Inl NoSuch)"
proof (intro conjI allI impI)
  fix y
  assume "script_for_request st ts x (Some t) s = Inr y"
  then obtain body d r where d: "scr_digest x = Some body" "parse_digest body = Inr d"
    "tenant_get ts t s = Inr (Some r)" "d \<in> set (tn_scripts r)"
    and get: "(case script_get st d s of Inl _ \<Rightarrow> Inl CallFailed | Inr None \<Rightarrow> Inl NoSuch
      | Inr (Some source) \<Rightarrow> Inr (x\<lparr>scr_source := Some source\<rparr>)) = Inr y"
    using named by (auto simp: script_for_request_def result_simps split: option.splits if_splits)
  obtain source where "script_get st d s = Inr (Some source)" "y = x\<lparr>scr_source := Some source\<rparr>"
    using get by (auto split: sum.splits option.splits)
  then show "\<exists>d r source. scr_digest x = Some d \<and> tenant_view (ts, files) t s = Some (Some r) \<and> d \<in> set (tn_scripts r)
      \<and> y = x\<lparr>scr_source := Some source\<rparr> \<and> digest_of st source = d"
    using d tenant_get_view(1) [OF tenants d(3)] script_get_true(1) [OF ok] by (auto simp: parse_digest_ok)
next
  fix d found
  assume a: "scr_digest x = Some d \<and> good_digest d \<and> tenant_get ts t s = Inr found
    \<and> (\<forall>r. found = Some r \<longrightarrow> d \<notin> set (tn_scripts r))"
  then have "parse_digest d = Inr d"
    by (simp add: parse_digest_ok good_digest_def)
  then show "script_for_request st ts x (Some t) s = Inl NoSuch"
    using named a by (cases found) (auto simp: script_for_request_def)
qed

section \<open>Instances\<close>

text \<open>A toy hash that is its source, written as sixty-four digits of its low half-bytes.\<close>

definition demo_hex :: "string \<Rightarrow> string" where
  "demo_hex x = take 64 (map (\<lambda>c. ''0123456789abcdef'' ! (of_char c mod 16)) x @ replicate 64 CHR ''0'')"

definition demo_scripts :: "memfs script_store" where
  "demo_scripts = \<lparr>sc_fs = memory_fs, sc_sha = (\<lambda>x. x), sc_hex = demo_hex, sc_process = ''1-ab'', sc_dir = ''/s''\<rparr>"

definition demo_digest :: string where
  "demo_digest = digest_of demo_scripts ''pass''"

definition demo_owner :: "nat tenant" where
  "demo_owner = \<lparr>tn_id = ''acme'', tn_created_ms = 1, tn_scripts = [demo_digest], tn_limits = no_limits\<rparr>"

definition demo_owners :: "(memfs, nat) tenant_store" where
  "demo_owners = \<lparr>tn_fs = memory_fs, tn_encode = known_encode [demo_owner], tn_decode = known_decode [demo_owner],
     tn_process = ''1-ab'', tn_dir = ''/t''\<rparr>"

definition demo_script_files :: memfs where
  "demo_script_files =
     [(components (script_path demo_scripts demo_digest), ''pass'', 420), ([RootDir, Normal ''t'', Normal ''acme.json''], [], 420)]"

lemma hex_digits: "\<forall>b \<in> set ''0123456789abcdef''. is_ascii_digit b \<or> CHR ''a'' \<le> b \<and> b \<le> CHR ''f''"
  by (simp add: is_ascii_digit_def code_def less_eq_char_def)

lemma demo_hex_well_formed: "well_formed_hex (demo_hex x)"
proof -
  let ?ds = "map (\<lambda>c. ''0123456789abcdef'' ! (of_char c mod 16)) x @ replicate 64 CHR ''0''"
  have "''0123456789abcdef'' ! (of_char c mod 16) \<in> set ''0123456789abcdef''" for c
    by (rule nth_mem) simp
  moreover have "CHR ''0'' \<in> set ''0123456789abcdef''"
    by simp
  ultimately have "set ?ds \<subseteq> set ''0123456789abcdef''"
    by (auto simp del: list.set)
  then have "set (demo_hex x) \<subseteq> set ''0123456789abcdef''"
    unfolding demo_hex_def by (rule order_trans [OF set_take_subset])
  moreover have "length (demo_hex x) = 64"
    by (simp add: demo_hex_def)
  ultimately show ?thesis
    unfolding well_formed_hex_def list_all_iff by (intro conjI ballI bspec [OF hex_digits]) (erule (1) subsetD | assumption)+
qed

lemma demo_scripts_ok: "scripts_ok (demo_scripts, map_of)"
  using memory_fs_contract demo_hex_well_formed by (simp add: scripts_ok_def demo_scripts_def is_absolute_def)

lemma demo_owners_ok: "tenants_ok (demo_owners, map_of)"
  by (auto simp: tenants_ok_def demo_owners_def memory_fs_contract is_absolute_def intro: known_codec)

theorem scripts_content_addressed_witness:
  "\<exists>s'. script_put demo_scripts ''pass'' [] = (Inr demo_digest, s')
    \<and> script_get demo_scripts demo_digest s' = Inr (Some ''pass'')"
proof -
  have small: "\<not> length ''pass'' > MAX_SCRIPT_BYTES"
    by (simp add: MAX_SCRIPT_BYTES_def)
  define s' where "s' = snd (replace_file memory_fs None ''/s'' (script_temporary demo_scripts demo_digest)
      (script_path demo_scripts demo_digest) (Inr ''pass'') [])"
  have "fst (replace_file memory_fs None ''/s'' (script_temporary demo_scripts demo_digest)
      (script_path demo_scripts demo_digest) (Inr ''pass'') [] :: (store_error + unit) \<times> memfs) = Inr ()"
    "\<not> script_contains demo_scripts demo_digest []" "is_ok (script_get demo_scripts demo_digest s')"
    unfolding s'_def by code_simp+
  then have w: "replace_file memory_fs None ''/s'' (script_temporary demo_scripts demo_digest)
      (script_path demo_scripts demo_digest) (Inr ''pass'') [] = (Inr () :: store_error + unit, s')"
    by (simp add: prod_eq_iff s'_def)
  have "sc_fs demo_scripts = memory_fs" "sc_dir demo_scripts = ''/s''"
    by (simp_all add: demo_scripts_def)
  then have put: "script_put demo_scripts ''pass'' [] = (Inr demo_digest, s')"
    using small w \<open>\<not> script_contains demo_scripts demo_digest []\<close>
    unfolding script_put_def demo_digest_def [symmetric] Let_def by (simp add: and_do_def return_ok_def)
  then obtain y where run: "script_put demo_scripts ''pass'' [] = (Inr demo_digest, s')" "script_get demo_scripts demo_digest s' = Inr y"
    using \<open>is_ok (script_get demo_scripts demo_digest s')\<close> by (auto simp: result_simps)
  have "y = Some ''pass''"
    using scripts_content_addressed [OF demo_scripts_ok, THEN conjunct2, THEN conjunct2, THEN conjunct1] run by force
  then show ?thesis
    using run by blast
qed

theorem tenants_run_own_scripts_witness:
  "(\<exists>y. script_for_request demo_scripts demo_owners \<lparr>scr_path = None, scr_source = None, scr_digest = Some demo_digest,
        scr_entry_point = None\<rparr> (Some ''acme'') demo_script_files = Inr y
      \<and> (\<exists>source. scr_source y = Some source \<and> digest_of demo_scripts source = demo_digest))
    \<and> script_for_request demo_scripts demo_owners \<lparr>scr_path = None, scr_source = None, scr_digest = Some demo_digest,
        scr_entry_point = None\<rparr> (Some ''beta'') demo_script_files = Inl NoSuch"
proof -
  let ?x = "\<lparr>scr_path = None, scr_source = None, scr_digest = Some demo_digest, scr_entry_point = None\<rparr>"
  have named: "\<not> is_loadable ?x"
    by (simp add: is_loadable_def)
  note law = tenants_run_own_scripts [OF demo_scripts_ok demo_owners_ok named]
  have "is_ok (script_for_request demo_scripts demo_owners ?x (Some ''acme'') demo_script_files)"
    "tenant_get demo_owners ''beta'' demo_script_files = Inr None"
    by code_simp+
  moreover have "good_digest demo_digest"
    unfolding demo_digest_def by (rule digest_of_good [OF demo_scripts_ok])
  ultimately show ?thesis
    using law [of "''acme''" demo_script_files, THEN conjunct1] law [of "''beta''" demo_script_files, THEN conjunct2]
    by (fastforce simp: result_simps)
qed

end
