(* ===== verification/Zygo_Runtime_Laws.thy ===== *)
theory Zygo_Runtime_Laws
  imports Zygo_Runtime
begin

text \<open>
  What a runtime pool keeps under every interleaving of its threads, what it keeps only when a
  request's leaving is not interrupted, and the schedules that show the difference.
\<close>

section \<open>Choosing\<close>

lemma position_Some: "position P xs = Some i \<longleftrightarrow> i < length xs \<and> P (xs ! i) \<and> (\<forall>j < i. \<not> P (xs ! j))"
proof (induction xs arbitrary: i)
  case (Cons x xs)
  show ?case
    using Cons.IH by (cases i) (auto simp: less_Suc_eq_0_disj)
qed simp

lemma position_None: "position P xs = None \<longleftrightarrow> (\<forall>x \<in> set xs. \<not> P x)"
  by (induction xs) auto

lemma enumerate_member: "(i, x) \<in> set (enumerate 0 xs) \<longleftrightarrow> i < length xs \<and> xs ! i = x"
  by (auto simp: in_set_enumerate_eq)

lemma choose_seat_Some:
  assumes "choose_seat seats alone = Some i"
  shows "i < length seats" and "st_healthy (seats ! i)" and "alone \<Longrightarrow> st_in_flight (seats ! i) = 0"
    and "\<not> alone \<Longrightarrow> \<not> st_alone (seats ! i)"
    and "\<not> alone \<Longrightarrow> j < length seats \<Longrightarrow> st_healthy (seats ! j) \<Longrightarrow> \<not> st_alone (seats ! j) \<Longrightarrow>
      st_in_flight (seats ! i) \<le> st_in_flight (seats ! j)"
proof -
  let ?es = "filter (\<lambda>e. st_healthy (snd e) \<and> \<not> st_alone (snd e)) (enumerate 0 seats)"
  have "i < length seats \<and> st_healthy (seats ! i) \<and> (if alone then st_in_flight (seats ! i) = 0
    else \<not> st_alone (seats ! i) \<and> (\<forall>j < length seats. st_healthy (seats ! j) \<longrightarrow> \<not> st_alone (seats ! j) \<longrightarrow>
      st_in_flight (seats ! i) \<le> st_in_flight (seats ! j)))"
  proof (cases alone)
    case True
    then show ?thesis
      using assms by (auto simp: choose_seat_def position_Some)
  next
    case False
    then obtain x where x: "min_by_key (\<lambda>e. st_in_flight (snd e)) ?es = Some (i, x)"
      using assms by (auto simp: choose_seat_def)
    have least: "st_in_flight x \<le> st_in_flight (snd e)" if "e \<in> set ?es" for e
      using conjunct2 [OF min_by_key_Some [OF x], rule_format, OF that] by simp
    have "(i, x) \<in> set ?es"
      using min_by_key_Some [OF x] by blast
    moreover have "st_in_flight x \<le> st_in_flight (seats ! j)"
      if "j < length seats" "st_healthy (seats ! j)" "\<not> st_alone (seats ! j)" for j
      using least [of "(j, seats ! j)"] that by (simp add: enumerate_member)
    ultimately show ?thesis
      using False by (auto simp: enumerate_member)
  qed
  then show "i < length seats" and "st_healthy (seats ! i)" and "alone \<Longrightarrow> st_in_flight (seats ! i) = 0"
    and "\<not> alone \<Longrightarrow> \<not> st_alone (seats ! i)"
    and "\<not> alone \<Longrightarrow> j < length seats \<Longrightarrow> st_healthy (seats ! j) \<Longrightarrow> \<not> st_alone (seats ! j) \<Longrightarrow>
      st_in_flight (seats ! i) \<le> st_in_flight (seats ! j)"
    by (auto split: if_splits)
qed

lemma choose_seat_None:
  "choose_seat seats alone = None \<longleftrightarrow>
     (\<forall>x \<in> set seats. \<not> (st_healthy x \<and> (if alone then st_in_flight x = 0 else \<not> st_alone x)))"
proof -
  have "(\<forall>e \<in> set (enumerate 0 seats). P (snd e)) \<longleftrightarrow> (\<forall>x \<in> set seats. P x)" for P :: "seat \<Rightarrow> bool"
    by (metis (no_types, lifting) enumerate_member in_set_conv_nth prod.collapse snd_conv)
  note this [of "\<lambda>x. st_healthy x \<longrightarrow> st_alone x"]
  then show ?thesis
    by (cases alone) (simp_all add: choose_seat_def position_None filter_empty_conv)
qed

section \<open>Every interleaving\<close>

text \<open>
  The requests running on a zygote; the pool is consistent when every zygote's count is theirs,
  every request's zygote is in the list, and identities are never used twice.
\<close>

definition running :: "pool_state \<Rightarrow> nat \<Rightarrow> nat set" where
  "running s k = {r. ps_phase s r = On k}"

definition pool_consistent :: "pool_state \<Rightarrow> bool" where
  "pool_consistent s \<longleftrightarrow>
     distinct (map zy_id (ps_zygotes s))
     \<and> (\<forall>z \<in> set (ps_zygotes s). zy_id z < ps_next s \<and> finite (running s (zy_id z)) \<and> zy_in_flight z = card (running s (zy_id z)))
     \<and> (\<forall>r k. ps_phase s r = On k \<longrightarrow> k \<in> zy_id ` set (ps_zygotes s))
     \<and> (\<forall>r k. ps_phase s r = Left k \<longrightarrow> k < ps_next s)"

text \<open>The zygotes a pool is registered with: fresh ones, one after the other.\<close>

definition fresh_zygotes :: "zygote list \<Rightarrow> bool" where
  "fresh_zygotes zs \<longleftrightarrow> map zy_id zs = [0..<length zs] \<and> (\<forall>z \<in> set zs. zy_in_flight z = 0 \<and> \<not> zy_alone z)"

lemma start_consistent:
  assumes "fresh_zygotes zs"
  shows "pool_consistent (pool_start zs)"
proof -
  have ids: "map zy_id zs = [0..<length zs]" and idle: "\<forall>z \<in> set zs. zy_in_flight z = 0"
    using assms by (simp_all add: fresh_zygotes_def)
  have "zy_id z < length zs" if "z \<in> set zs" for z
    using arg_cong [OF ids, of set] that by auto
  then show ?thesis
    using ids idle by (simp add: pool_consistent_def pool_start_def running_def)
qed

lemma running_with_phase:
  "running (with_phase r p s) k = (if p = On k then insert r (running s k) else running s k - {r})"
  by (auto simp: running_def with_phase_def)

lemma running_zygotes [simp]: "running (s\<lparr>ps_zygotes := zs\<rparr>) k = running s k"
  "running (s\<lparr>ps_next := n\<rparr>) k = running s k" "running (s\<lparr>ps_scaling := b\<rparr>) k = running s k"
  by (simp_all add: running_def)

lemma update_zygote_ids: "(\<And>z. zy_id (f z) = zy_id z) \<Longrightarrow> map zy_id (update_zygote k f zs) = map zy_id zs"
  by (simp add: update_zygote_def)

text \<open>
  A list is kept in another: same zygotes with the same counts, related by \<open>Q\<close>, and none gone
  that has a request in flight.
\<close>

definition kept :: "(zygote \<Rightarrow> zygote \<Rightarrow> bool) \<Rightarrow> zygote list \<Rightarrow> zygote list \<Rightarrow> bool" where
  "kept Q zs zs' \<longleftrightarrow>
     (distinct (map zy_id zs) \<longrightarrow> distinct (map zy_id zs'))
     \<and> (\<forall>z' \<in> set zs'. \<exists>z \<in> set zs. zy_id z = zy_id z' \<and> zy_in_flight z = zy_in_flight z' \<and> Q z z')
     \<and> (\<forall>z \<in> set zs. zy_in_flight z > 0 \<longrightarrow> zy_id z \<in> zy_id ` set zs')"

definition same_mark :: "zygote \<Rightarrow> zygote \<Rightarrow> bool" where
  "same_mark z z' \<longleftrightarrow> zy_alone z' = zy_alone z"

lemma kept_refl: "(\<And>z. Q z z) \<Longrightarrow> kept Q zs zs"
  by (auto simp: kept_def)

lemma kept_mono: "kept Q zs zs' \<Longrightarrow> (\<And>z z'. Q z z' \<Longrightarrow> R z z') \<Longrightarrow> kept R zs zs'"
  unfolding kept_def by blast

lemma prune_kept: "kept same_mark zs (prune_zygotes zs)"
  by (auto simp: kept_def prune_zygotes_def same_mark_def intro: distinct_map_filter)

lemma update_kept:
  assumes "\<And>z. zy_id (f z) = zy_id z" and "\<And>z. zy_in_flight (f z) = zy_in_flight z" and "\<And>z. Q z z"
    and "\<And>z. zy_id z = k \<Longrightarrow> Q z (f z)"
  shows "kept Q zs (update_zygote k f zs)"
  unfolding kept_def
proof (intro conjI impI ballI)
  show "distinct (map zy_id (update_zygote k f zs))" if "distinct (map zy_id zs)"
    using that update_zygote_ids [of f k zs] assms(1) by simp
  show "\<exists>z \<in> set zs. zy_id z = zy_id z' \<and> zy_in_flight z = zy_in_flight z' \<and> Q z z'" if upd: "z' \<in> set (update_zygote k f zs)" for z'
  proof -
    obtain z where z: "z \<in> set zs" "z' = (if zy_id z = k then f z else z)"
      using upd by (auto simp: update_zygote_def)
    then have "zy_id z = zy_id z' \<and> zy_in_flight z = zy_in_flight z' \<and> Q z z'"
      using assms by simp
    then show ?thesis
      using z(1) by blast
  qed
  show "zy_id z \<in> zy_id ` set (update_zygote k f zs)" if "z \<in> set zs" for z
    using that arg_cong [OF update_zygote_ids [of f k zs, OF assms(1)], of set] by (simp add: rev_image_eqI)
qed

lemma kept_ids:
  assumes "kept Q zs zs'"
  shows "zy_id ` set zs' \<subseteq> zy_id ` set zs"
proof
  fix i
  assume "i \<in> zy_id ` set zs'"
  then obtain z' where z': "z' \<in> set zs'" "i = zy_id z'"
    by blast
  then obtain z where "z \<in> set zs" "zy_id z = zy_id z'"
    using assms unfolding kept_def by meson
  then have "i = zy_id z"
    using z'(2) by simp
  with \<open>z \<in> set zs\<close> show "i \<in> zy_id ` set zs"
    by (rule rev_image_eqI)
qed

lemma tier_kept:
  "\<exists>ys. fst (tier_zygotes c now pause passed rest) = passed @ ys \<and> kept same_mark rest ys"
proof (induction c now pause passed rest rule: tier_zygotes.induct)
  case (1 c now pause passed)
  then show ?case
    by (simp add: kept_def)
next
  case (2 c now pause passed z rest)
  have step: "kept same_mark (z # rest) (z' # ys)"
    if "kept same_mark rest ys" "zy_id z' = zy_id z" "zy_in_flight z' = zy_in_flight z" "zy_alone z' = zy_alone z" for z' ys
    using that kept_ids [OF that(1)] by (auto simp: kept_def same_mark_def)
  have drop: "kept same_mark (z # rest) ys" if "kept same_mark rest ys" "zy_in_flight z = 0" for ys
    using that by (auto simp: kept_def)
  consider (busy) "zy_in_flight z > 0"
    | (cool) "zy_in_flight z = 0" "length (passed @ z # rest) > rp_min_warm c \<and> idle_for now z \<ge> rp_cold_after c"
    | (pause) "zy_in_flight z = 0" "\<not> (length (passed @ z # rest) > rp_min_warm c \<and> idle_for now z \<ge> rp_cold_after c)"
        "idle_for now z \<ge> rp_idle_timeout c \<and> zy_warm z \<and> pause (zy_id z)"
    | (keep) "zy_in_flight z = 0" "\<not> (length (passed @ z # rest) > rp_min_warm c \<and> idle_for now z \<ge> rp_cold_after c)"
        "\<not> (idle_for now z \<ge> rp_idle_timeout c \<and> zy_warm z \<and> pause (zy_id z))"
    by blast
  then show ?case
  proof cases
    case busy
    then obtain ys where "fst (tier_zygotes c now pause (passed @ [z]) rest) = (passed @ [z]) @ ys" "kept same_mark rest ys"
      using 2(1) by blast
    then show ?thesis
      using busy step [of ys z] by (intro exI [of _ "z # ys"]) simp
  next
    case cool
    then obtain ys where "fst (tier_zygotes c now pause passed rest) = passed @ ys" "kept same_mark rest ys"
      using 2(2) by blast
    then show ?thesis
      using cool drop [of ys] by (intro exI [of _ ys]) (simp add: case_prod_unfold Let_def)
  next
    case pause
    then obtain ys where "fst (tier_zygotes c now pause (passed @ [z\<lparr>zy_warm := False\<rparr>]) rest) = (passed @ [z\<lparr>zy_warm := False\<rparr>]) @ ys"
        "kept same_mark rest ys"
      using 2(3) by blast
    then show ?thesis
      using pause step [of ys "z\<lparr>zy_warm := False\<rparr>"] by (intro exI [of _ "z\<lparr>zy_warm := False\<rparr> # ys"]) (auto simp: case_prod_unfold Let_def)
  next
    case keep
    then obtain ys where "fst (tier_zygotes c now pause (passed @ [z]) rest) = (passed @ [z]) @ ys" "kept same_mark rest ys"
      using 2(4) by blast
    then show ?thesis
      using keep step [of ys z] by (intro exI [of _ "z # ys"]) auto
  qed
qed

lemma consistent_thin:
  assumes c: "pool_consistent s" and k: "kept Q (ps_zygotes s) (ps_zygotes s')" and n: "ps_next s \<le> ps_next s'"
    and on: "\<And>r k. ps_phase s' r = On k \<longleftrightarrow> ps_phase s r = On k"
    and left: "\<And>r k. ps_phase s' r = Left k \<Longrightarrow> ps_phase s r = Left k"
  shows "pool_consistent s'"
  unfolding pool_consistent_def
proof (intro conjI ballI allI impI)
  have run: "running s' k = running s k" for k
    using on by (simp add: running_def)
  show "distinct (map zy_id (ps_zygotes s'))"
    using c k by (simp add: pool_consistent_def kept_def)
  fix z'
  assume "z' \<in> set (ps_zygotes s')"
  then obtain z where "z \<in> set (ps_zygotes s)" "zy_id z = zy_id z'" "zy_in_flight z = zy_in_flight z'"
    using k unfolding kept_def by blast
  then have "zy_id z' < ps_next s \<and> finite (running s (zy_id z')) \<and> zy_in_flight z' = card (running s (zy_id z'))"
    using c unfolding pool_consistent_def by metis
  then show "zy_id z' < ps_next s'" "finite (running s' (zy_id z'))" "zy_in_flight z' = card (running s' (zy_id z'))"
    using n run by auto
next
  fix r i
  assume "ps_phase s' r = On i"
  then have "ps_phase s r = On i"
    using on by simp
  then have "i \<in> zy_id ` set (ps_zygotes s)" and r: "r \<in> running s i"
    using c by (auto simp: pool_consistent_def running_def)
  then obtain z where z: "z \<in> set (ps_zygotes s)" "zy_id z = i"
    by blast
  then have "finite (running s i) \<and> zy_in_flight z = card (running s i)"
    using c unfolding pool_consistent_def by blast
  then have "zy_in_flight z > 0"
    using r by (auto simp: card_gt_0_iff)
  then show "i \<in> zy_id ` set (ps_zygotes s')"
    using k z unfolding kept_def by blast
next
  fix r i
  assume "ps_phase s' r = Left i"
  then show "i < ps_next s'"
    using left c n unfolding pool_consistent_def by (meson order_less_le_trans)
qed

text \<open>Claiming the zygote at a place of the list, and counting a request out of one.\<close>

lemma consistent_claim:
  assumes c: "pool_consistent s" and i: "i < length (ps_zygotes s)" and r: "ps_phase s r = Waiting"
  shows "pool_consistent (with_phase r (On (zy_id (ps_zygotes s ! i)))
    (s\<lparr>ps_zygotes := (ps_zygotes s)[i := claim alone (ps_zygotes s ! i)]\<rparr>))" (is "pool_consistent ?s'")
  unfolding pool_consistent_def
proof (intro conjI ballI allI impI)
  let ?z = "ps_zygotes s ! i"
  have ids: "map zy_id ((ps_zygotes s)[i := claim alone ?z]) = map zy_id (ps_zygotes s)"
    using i by (simp add: map_update claim_def list_update_same_conv)
  have zs': "ps_zygotes ?s' = (ps_zygotes s)[i := claim alone ?z]"
    by (simp add: with_phase_def)
  have run: "running ?s' k = (if k = zy_id ?z then insert r (running s k) else running s k)" for k
    using r by (auto simp: running_def with_phase_def)
  have new: "r \<notin> running s k" for k
    using r by (simp add: running_def)
  show "distinct (map zy_id (ps_zygotes ?s'))"
    using c ids zs' by (simp add: pool_consistent_def)
  have distinct: "distinct (map zy_id (ps_zygotes s))"
    using c by (simp add: pool_consistent_def)
  fix z'
  assume "z' \<in> set (ps_zygotes ?s')"
  then obtain j where j: "j < length (ps_zygotes s)" "z' = (if j = i then claim alone ?z else ps_zygotes s ! j)"
    unfolding zs' by (auto simp: in_set_conv_nth nth_list_update)
  have old: "zy_id (ps_zygotes s ! j) < ps_next s \<and> finite (running s (zy_id (ps_zygotes s ! j)))
      \<and> zy_in_flight (ps_zygotes s ! j) = card (running s (zy_id (ps_zygotes s ! j)))"
    using c j(1) unfolding pool_consistent_def by (meson nth_mem)
  have "zy_id (ps_zygotes s ! j) = zy_id ?z \<longleftrightarrow> j = i"
    using distinct i j(1) by (auto simp: distinct_conv_nth)
  then show "zy_id z' < ps_next ?s'" "finite (running ?s' (zy_id z'))" "zy_in_flight z' = card (running ?s' (zy_id z'))"
    using old j(2) run new by (auto simp: claim_def with_phase_def)
next
  let ?z = "ps_zygotes s ! i"
  fix q k
  assume "ps_phase ?s' q = On k"
  then have "k = zy_id ?z \<or> ps_phase s q = On k"
    by (auto simp: with_phase_def split: if_splits)
  then have "k \<in> zy_id ` set (ps_zygotes s)"
    using c i by (auto simp: pool_consistent_def)
  moreover have "map zy_id ((ps_zygotes s)[i := claim alone ?z]) = map zy_id (ps_zygotes s)"
    using i by (simp add: map_update claim_def list_update_same_conv)
  then have "zy_id ` set ((ps_zygotes s)[i := claim alone ?z]) = zy_id ` set (ps_zygotes s)"
    by (metis list.set_map)
  ultimately show "k \<in> zy_id ` set (ps_zygotes ?s')"
    by (simp add: with_phase_def)
next
  fix q k
  assume "ps_phase ?s' q = Left k"
  then show "k < ps_next ?s'"
    using c by (auto simp: pool_consistent_def with_phase_def split: if_splits)
qed

lemma consistent_add:
  assumes c: "pool_consistent s"
  shows "pool_consistent (s\<lparr>ps_zygotes := add_zygote (ps_next s) now None (ps_zygotes s), ps_next := ps_next s + 1, ps_scaling := b\<rparr>)"
    and "ps_phase s r = Warming \<Longrightarrow> pool_consistent (with_phase r (On (ps_next s))
      (s\<lparr>ps_zygotes := add_zygote (ps_next s) now (Some alone) (ps_zygotes s), ps_next := ps_next s + 1\<rparr>))"
proof -
  have below: "\<forall>z \<in> set (ps_zygotes s). zy_id z < ps_next s"
    and counts: "\<forall>z \<in> set (ps_zygotes s). finite (running s (zy_id z)) \<and> zy_in_flight z = card (running s (zy_id z))"
    and on: "\<forall>r k. ps_phase s r = On k \<longrightarrow> k \<in> zy_id ` set (ps_zygotes s)"
    using c by (simp_all add: pool_consistent_def)
  have none: "running s (ps_next s) = {}"
    using on below by (force simp: running_def)
  show "pool_consistent (s\<lparr>ps_zygotes := add_zygote (ps_next s) now None (ps_zygotes s), ps_next := ps_next s + 1, ps_scaling := b\<rparr>)"
    using c below none by (auto simp: pool_consistent_def add_zygote_def new_zygote_def less_Suc_eq)
  assume r: "ps_phase s r = Warming"
  let ?s' = "with_phase r (On (ps_next s))
      (s\<lparr>ps_zygotes := add_zygote (ps_next s) now (Some alone) (ps_zygotes s), ps_next := ps_next s + 1\<rparr>)"
  have run: "running ?s' k = (if k = ps_next s then {r} else running s k)" for k
    using r none by (auto simp: running_def with_phase_def)
  show "pool_consistent ?s'"
    unfolding pool_consistent_def
  proof (intro conjI)
    show "distinct (map zy_id (ps_zygotes ?s'))"
      using c below by (auto simp: pool_consistent_def with_phase_def add_zygote_def claim_def new_zygote_def)
    show "\<forall>z \<in> set (ps_zygotes ?s'). zy_id z < ps_next ?s' \<and> finite (running ?s' (zy_id z)) \<and> zy_in_flight z = card (running ?s' (zy_id z))"
    proof -
      have zs': "ps_zygotes ?s' = ps_zygotes s @ [claim alone (new_zygote (ps_next s) now)]" "ps_next ?s' = ps_next s + 1"
        by (simp_all add: with_phase_def add_zygote_def)
      have "zy_id z < ps_next s + 1 \<and> finite (running ?s' (zy_id z)) \<and> zy_in_flight z = card (running ?s' (zy_id z))"
        if "z \<in> set (ps_zygotes s)" for z
      proof -
        have "zy_id z < ps_next s"
          using below that by blast
        then have "running ?s' (zy_id z) = running s (zy_id z)"
          unfolding run by simp
        then show ?thesis
          using counts that \<open>zy_id z < ps_next s\<close> by simp
      qed
      moreover have "running ?s' (ps_next s) = {r}"
        unfolding run by simp
      ultimately show ?thesis
        unfolding zs' by (simp add: claim_def new_zygote_def)
    qed
    show "\<forall>r k. ps_phase ?s' r = On k \<longrightarrow> k \<in> zy_id ` set (ps_zygotes ?s')"
      using on by (auto simp: with_phase_def add_zygote_def claim_def new_zygote_def)
    show "\<forall>r k. ps_phase ?s' r = Left k \<longrightarrow> k < ps_next ?s'"
      using c by (auto simp: pool_consistent_def with_phase_def less_Suc_eq)
  qed
qed

lemma consistent_count_out:
  assumes c: "pool_consistent s" and r: "ps_phase s r = On k"
  shows "pool_consistent (with_phase r (Left k) (s\<lparr>ps_zygotes := update_zygote k count_out (ps_zygotes s)\<rparr>))"
    (is "pool_consistent ?s'")
  unfolding pool_consistent_def
proof (intro conjI)
  have ids: "map zy_id (update_zygote k count_out (ps_zygotes s)) = map zy_id (ps_zygotes s)"
    by (rule update_zygote_ids) (simp add: count_out_def)
  have zs': "ps_zygotes ?s' = update_zygote k count_out (ps_zygotes s)"
    and nx: "ps_next ?s' = ps_next s"
    by (simp_all add: with_phase_def)
  have run: "running ?s' i = running s i - {r}" for i
    by (auto simp: running_def with_phase_def)
  have at: "r \<in> running s i \<longleftrightarrow> i = k" for i
    using r by (auto simp: running_def)
  show "distinct (map zy_id (ps_zygotes ?s'))"
    using c ids zs' by (simp add: pool_consistent_def)
  show "\<forall>z \<in> set (ps_zygotes ?s'). zy_id z < ps_next ?s' \<and> finite (running ?s' (zy_id z)) \<and> zy_in_flight z = card (running ?s' (zy_id z))"
  proof
    fix z'
    assume "z' \<in> set (ps_zygotes ?s')"
    then obtain z where z: "z \<in> set (ps_zygotes s)" "z' = (if zy_id z = k then count_out z else z)"
      unfolding zs' by (auto simp: update_zygote_def)
    then have "zy_id z < ps_next s \<and> finite (running s (zy_id z)) \<and> zy_in_flight z = card (running s (zy_id z))"
      using c unfolding pool_consistent_def by blast
    then show "zy_id z' < ps_next ?s' \<and> finite (running ?s' (zy_id z')) \<and> zy_in_flight z' = card (running ?s' (zy_id z'))"
      unfolding run nx using z(2) at by (cases "zy_id z = k") (simp_all add: count_out_def card_Diff_singleton_if)
  qed
  have "zy_id ` set (update_zygote k count_out (ps_zygotes s)) = zy_id ` set (ps_zygotes s)"
    using arg_cong [OF ids, of set] by simp
  then show "\<forall>r k. ps_phase ?s' r = On k \<longrightarrow> k \<in> zy_id ` set (ps_zygotes ?s')"
    using c by (auto simp: pool_consistent_def with_phase_def)
  have "k < ps_next s"
    using c r unfolding pool_consistent_def by blast
  then show "\<forall>r k. ps_phase ?s' r = Left k \<longrightarrow> k < ps_next ?s'"
    using c by (auto simp: pool_consistent_def with_phase_def)
qed

text \<open>A picked zygote is one of the list, and the only thing that changes is its claim.\<close>

lemma pick_locked_cases:
  obtains (claimed) i where "pick_locked c alone zs = (Claimed (zy_id (zs ! i)), zs[i := claim alone (zs ! i)])"
      "choose_seat (map seat_of zs) alone = Some i" "i < length zs"
  | (full) "pick_locked c alone zs = (AtCapacity, zs)" "list_ex zy_healthy zs" "rp_max_warm c \<le> length zs"
  | (grow) "pick_locked c alone zs = (MustGrow, zs)" "\<not> (list_ex zy_healthy zs \<and> rp_max_warm c \<le> length zs)"
proof (cases "choose_seat (map seat_of zs) alone")
  case None
  then show ?thesis
    by (cases "list_ex zy_healthy zs \<and> rp_max_warm c \<le> length zs") (auto simp: pick_locked_def intro: full grow)
next
  case (Some i)
  then show ?thesis
    using choose_seat_Some(1) [OF Some] by (intro claimed) (simp_all add: pick_locked_def)
qed

lemma apply_consistent:
  assumes c: "pool_consistent s" and e: "pool_apply cfg needs e s = Some s'"
  shows "pool_consistent s'"
proof (cases e)
  case (Pick r)
  then have r: "ps_phase s r = Waiting"
    using e by (simp split: if_splits)
  show ?thesis
  proof (cases rule: pick_locked_cases [of cfg "needs r" "ps_zygotes s"])
    case (claimed i)
    then have "s' = with_phase r (On (zy_id (ps_zygotes s ! i)))
        (s\<lparr>ps_zygotes := (ps_zygotes s)[i := claim (needs r) (ps_zygotes s ! i)]\<rparr>)"
      using e Pick r by simp
    then show ?thesis
      using consistent_claim [OF c claimed(3) r] by (simp only:)
  qed (use e Pick r in \<open>auto intro!: consistent_thin [OF c, of "\<lambda>_ _. True"] kept_refl simp: with_phase_def split: if_splits\<close>)
next
  case (Warmed r now)
  then show ?thesis
    using e consistent_add(2) [OF c] by (auto split: if_splits)
next
  case (ScaleWarmed now)
  then show ?thesis
    using e consistent_add(1) [OF c] by (auto split: if_splits)
next
  case (CountOut r)
  then show ?thesis
    using e consistent_count_out [OF c] by (auto split: phase.splits)
next
  case (Clear r now)
  then show ?thesis
    using e by (auto intro!: consistent_thin [OF c, of "\<lambda>_ _. True"] update_kept simp: with_phase_def clear_mark_def
        split: phase.splits if_splits)
next
  case (Tier now pause)
  obtain ys where "fst (tier_zygotes cfg now pause [] (ps_zygotes s)) = ys" "kept same_mark (ps_zygotes s) ys"
    using tier_kept [of cfg now pause "[]" "ps_zygotes s"] by auto
  then show ?thesis
    using e Tier by (auto intro!: consistent_thin [OF c, of same_mark] split: if_splits)
next
  case (Resume r)
  then show ?thesis
    using e by (auto intro!: consistent_thin [OF c, of "\<lambda>_ _. True"] update_kept split: phase.splits)
next
  case (PruneFor r)
  then show ?thesis
    using e by (auto intro!: consistent_thin [OF c, of same_mark] prune_kept simp: with_phase_def split: if_splits)
next
  case (WarmFailed r)
  then show ?thesis
    using e by (auto intro!: consistent_thin [OF c, of "\<lambda>_ _. True"] kept_refl simp: with_phase_def split: if_splits)
next
  case ScalePrune
  then show ?thesis
    using e by (auto intro!: consistent_thin [OF c, of same_mark] prune_kept)
next
  case (Died k)
  then show ?thesis
    using e by (auto intro!: consistent_thin [OF c, of "\<lambda>_ _. True"] update_kept)
qed (use e in \<open>auto intro!: consistent_thin [OF c, of "\<lambda>_ _. True"] kept_refl split: if_splits\<close>)

lemma run_consistent: "pool_consistent s \<Longrightarrow> run_pool cfg needs es s = Some s' \<Longrightarrow> pool_consistent s'"
  by (induction es arbitrary: s) (auto simp: bind_eq_Some_conv intro: apply_consistent)

section \<open>Having a zygote to oneself\<close>

text \<open>
  What the marks mean: a request that must be alone runs on a marked zygote that counts one
  request, and nobody who has left that zygote has yet to clear its mark.
\<close>

definition marks_true :: "(nat \<Rightarrow> bool) \<Rightarrow> pool_state \<Rightarrow> bool" where
  "marks_true needs s \<longleftrightarrow>
     (\<forall>r k. needs r \<and> ps_phase s r = On k \<longrightarrow>
        (\<forall>z \<in> set (ps_zygotes s). zy_id z = k \<longrightarrow> zy_alone z \<and> zy_in_flight z = 1)
        \<and> (\<forall>q. ps_phase s q \<noteq> Left k))"

text \<open>
  A step is orderly unless it gives a request that must be alone a zygote whose last request
  has been counted out and not yet cleared its mark.
\<close>

definition orderly :: "pool_config \<Rightarrow> (nat \<Rightarrow> bool) \<Rightarrow> pool_event \<Rightarrow> pool_state \<Rightarrow> bool" where
  "orderly c needs e s \<longleftrightarrow>
     (case e of
        Pick r \<Rightarrow> needs r \<longrightarrow>
          (case pick_locked c True (ps_zygotes s) of
             (Claimed k, _) \<Rightarrow> \<forall>q. ps_phase s q \<noteq> Left k
           | _ \<Rightarrow> True)
      | _ \<Rightarrow> True)"

fun orderly_run :: "pool_config \<Rightarrow> (nat \<Rightarrow> bool) \<Rightarrow> pool_event list \<Rightarrow> pool_state \<Rightarrow> bool" where
  "orderly_run c needs [] s \<longleftrightarrow> True"
| "orderly_run c needs (e # es) s \<longleftrightarrow>
     orderly c needs e s \<and> (case pool_apply c needs e s of Some s' \<Rightarrow> orderly_run c needs es s' | None \<Rightarrow> True)"

lemma marks_trueD:
  assumes "marks_true needs s" and "needs r" and "ps_phase s r = On k"
  shows "z \<in> set (ps_zygotes s) \<Longrightarrow> zy_id z = k \<Longrightarrow> zy_alone z \<and> zy_in_flight z = 1" and "ps_phase s q \<noteq> Left k"
  using assms by (auto simp: marks_true_def)

lemma marks_thin:
  assumes m: "marks_true needs s" and k: "kept same_mark (ps_zygotes s) (ps_zygotes s')"
    and on: "\<And>r k. ps_phase s' r = On k \<Longrightarrow> ps_phase s r = On k"
    and left: "\<And>r k. ps_phase s' r = Left k \<Longrightarrow> ps_phase s r = Left k"
  shows "marks_true needs s'"
  unfolding marks_true_def
proof (intro allI impI conjI ballI)
  fix r k z'
  assume r: "needs r \<and> ps_phase s' r = On k" and z': "z' \<in> set (ps_zygotes s')" "zy_id z' = k"
  obtain z where "z \<in> set (ps_zygotes s)" "zy_id z = zy_id z'" "zy_in_flight z = zy_in_flight z'" "same_mark z z'"
    using assms(2) z'(1) unfolding kept_def by meson
  then show "zy_alone z'" "zy_in_flight z' = 1"
    using marks_trueD(1) [OF m, of r k z] r on z'(2) by (auto simp: same_mark_def)
next
  fix r k q
  assume "needs r \<and> ps_phase s' r = On k"
  then show "ps_phase s' q \<noteq> Left k"
    using marks_trueD(2) [OF m] on left by blast
qed

text \<open>Nobody shares a zygote with a request that must be alone while the marks are true.\<close>

lemma marks_exclusive:
  assumes c: "pool_consistent s" and m: "marks_true needs s" and r: "needs r" "ps_phase s r = On k" and q: "ps_phase s q = On k"
  shows "q = r"
proof -
  have "k \<in> zy_id ` set (ps_zygotes s)"
    using c r(2) unfolding pool_consistent_def by blast
  then obtain z where z: "z \<in> set (ps_zygotes s)" "zy_id z = k"
    by blast
  then have "card (running s k) = 1" "finite (running s k)"
    using marks_trueD(1) [OF m r z] c by (auto simp: pool_consistent_def)
  moreover have "r \<in> running s k" "q \<in> running s k"
    using r(2) q by (simp_all add: running_def)
  ultimately show ?thesis
    by (auto simp: card_1_singleton_iff)
qed

lemma marks_claim:
  assumes c: "pool_consistent s" and m: "marks_true needs s" and r: "ps_phase s r = Waiting"
    and i: "choose_seat (map seat_of (ps_zygotes s)) (needs r) = Some i" "i < length (ps_zygotes s)"
    and free: "needs r \<Longrightarrow> \<forall>q. ps_phase s q \<noteq> Left (zy_id (ps_zygotes s ! i))"
  shows "marks_true needs (with_phase r (On (zy_id (ps_zygotes s ! i)))
    (s\<lparr>ps_zygotes := (ps_zygotes s)[i := claim (needs r) (ps_zygotes s ! i)]\<rparr>))" (is "marks_true needs ?s'")
  unfolding marks_true_def
proof (intro allI impI conjI ballI)
  let ?z = "ps_zygotes s ! i"
  have seat: "needs r \<Longrightarrow> zy_in_flight ?z = 0" "\<not> needs r \<Longrightarrow> \<not> zy_alone ?z"
    using choose_seat_Some(3,4) [OF i(1)] i(2) by (simp_all add: seat_of_def)
  have other: "zy_id ?z \<noteq> k" if "needs q" "ps_phase s q = On k" for q k
    using marks_trueD(1) [OF m that, of ?z] seat i(2) by (cases "needs r") auto
  fix q k z'
  assume q: "needs q \<and> ps_phase ?s' q = On k" and z': "z' \<in> set (ps_zygotes ?s')" "zy_id z' = k"
  have "(\<exists>z \<in> set (ps_zygotes s). z' = z \<and> zy_id z \<noteq> zy_id ?z) \<or> z' = claim (needs r) ?z"
  proof -
    obtain j where j: "j < length (ps_zygotes s)" "z' = (if j = i then claim (needs r) ?z else ps_zygotes s ! j)"
      using z'(1) by (auto simp: with_phase_def in_set_conv_nth nth_list_update)
    have "j \<noteq> i \<Longrightarrow> zy_id (ps_zygotes s ! j) \<noteq> zy_id ?z"
      using c i(2) j(1) by (auto simp: pool_consistent_def distinct_conv_nth)
    then show ?thesis
      using j by (cases "j = i") auto
  qed
  then have "zy_alone z' \<and> zy_in_flight z' = 1"
  proof (cases "q = r")
    case True
    then show ?thesis
      using \<open>_ \<or> _\<close> q z'(2) seat by (auto simp: with_phase_def claim_def)
  next
    case False
    then have old: "ps_phase s q = On k"
      using q by (simp add: with_phase_def)
    then have "z' \<in> set (ps_zygotes s)"
      using \<open>_ \<or> _\<close> z'(2) other [of q k] q by (auto simp: claim_def)
    then show ?thesis
      using marks_trueD(1) [OF m _ old] q z'(2) by blast
  qed
  then show "zy_alone z'" "zy_in_flight z' = 1"
    by simp_all
next
  fix q k p
  assume q: "needs q \<and> ps_phase ?s' q = On k"
  show "ps_phase ?s' p \<noteq> Left k"
  proof (cases "q = r")
    case True
    then show ?thesis
      using q free by (auto simp: with_phase_def)
  next
    case False
    then show ?thesis
      using q marks_trueD(2) [OF m, of q k p] by (auto simp: with_phase_def)
  qed
qed

lemma marks_count_out:
  assumes c: "pool_consistent s" and m: "marks_true needs s" and r: "ps_phase s r = On k"
  shows "marks_true needs (with_phase r (Left k) (s\<lparr>ps_zygotes := update_zygote k count_out (ps_zygotes s)\<rparr>))"
    (is "marks_true needs ?s'")
  unfolding marks_true_def
proof (intro allI impI conjI ballI)
  fix q i
  assume q: "needs q \<and> ps_phase ?s' q = On i"
  then have old: "needs q" "ps_phase s q = On i" and "q \<noteq> r"
    by (auto simp: with_phase_def split: if_splits)
  then have "i \<noteq> k"
    using marks_exclusive [OF c m old, of r] r by auto
  then show "ps_phase ?s' p \<noteq> Left i" for p
    using marks_trueD(2) [OF m old, of p] by (simp add: with_phase_def)
  show "zy_alone z'" "zy_in_flight z' = 1" if "z' \<in> set (ps_zygotes ?s')" "zy_id z' = i" for z'
  proof -
    have "z' \<in> set (ps_zygotes s)"
      using that \<open>i \<noteq> k\<close> by (auto simp: with_phase_def update_zygote_def count_out_def)
    then show "zy_alone z'" "zy_in_flight z' = 1"
      using marks_trueD(1) [OF m old] that(2) by blast+
  qed
qed

lemma marks_clear:
  assumes m: "marks_true needs s" and r: "ps_phase s r = Left k"
  shows "marks_true needs (with_phase r Gone (s\<lparr>ps_zygotes := update_zygote k (clear_mark now) (ps_zygotes s)\<rparr>))"
    (is "marks_true needs ?s'")
  unfolding marks_true_def
proof (intro allI impI conjI ballI)
  fix q i
  assume q: "needs q \<and> ps_phase ?s' q = On i"
  then have old: "needs q" "ps_phase s q = On i"
    by (auto simp: with_phase_def split: if_splits)
  then have "i \<noteq> k"
    using marks_trueD(2) [OF m old, of r] r by auto
  show "ps_phase ?s' p \<noteq> Left i" for p
    using marks_trueD(2) [OF m old, of p] by (simp add: with_phase_def)
  show "zy_alone z'" "zy_in_flight z' = 1" if "z' \<in> set (ps_zygotes ?s')" "zy_id z' = i" for z'
  proof -
    have "z' \<in> set (ps_zygotes s)"
      using that \<open>i \<noteq> k\<close> by (auto simp: with_phase_def update_zygote_def clear_mark_def)
    then show "zy_alone z'" "zy_in_flight z' = 1"
      using marks_trueD(1) [OF m old] that(2) by blast+
  qed
qed

lemma marks_add:
  assumes c: "pool_consistent s" and m: "marks_true needs s"
  shows "marks_true needs (s\<lparr>ps_zygotes := add_zygote (ps_next s) now None (ps_zygotes s), ps_next := ps_next s + 1, ps_scaling := b\<rparr>)"
    and "ps_phase s r = Warming \<Longrightarrow> marks_true needs (with_phase r (On (ps_next s))
      (s\<lparr>ps_zygotes := add_zygote (ps_next s) now (Some (needs r)) (ps_zygotes s), ps_next := ps_next s + 1\<rparr>))"
proof -
  have below: "zy_id z < ps_next s" if "z \<in> set (ps_zygotes s)" for z
    using c that unfolding pool_consistent_def by blast
  have on: "k < ps_next s" if "ps_phase s q = On k" for q k
  proof -
    have "k \<in> zy_id ` set (ps_zygotes s)"
      using c that unfolding pool_consistent_def by blast
    then show ?thesis
      using below by blast
  qed
  have left: "k < ps_next s" if "ps_phase s q = Left k" for q k
    using c that unfolding pool_consistent_def by blast
  show "marks_true needs (s\<lparr>ps_zygotes := add_zygote (ps_next s) now None (ps_zygotes s), ps_next := ps_next s + 1, ps_scaling := b\<rparr>)"
    unfolding marks_true_def
  proof (intro allI impI conjI ballI)
    fix q k z'
    assume a: "needs q \<and> ps_phase (s\<lparr>ps_zygotes := add_zygote (ps_next s) now None (ps_zygotes s), ps_next := ps_next s + 1, ps_scaling := b\<rparr>) q = On k"
    show "ps_phase (s\<lparr>ps_zygotes := add_zygote (ps_next s) now None (ps_zygotes s), ps_next := ps_next s + 1, ps_scaling := b\<rparr>) p \<noteq> Left k" for p
      using a marks_trueD(2) [OF m, of q k p] by simp
    assume "z' \<in> set (ps_zygotes (s\<lparr>ps_zygotes := add_zygote (ps_next s) now None (ps_zygotes s), ps_next := ps_next s + 1, ps_scaling := b\<rparr>))"
      "zy_id z' = k"
    then have "z' \<in> set (ps_zygotes s)"
      using a on [of q k] by (auto simp: add_zygote_def new_zygote_def)
    then show "zy_alone z'" "zy_in_flight z' = 1"
      using marks_trueD(1) [OF m, of q k z'] a \<open>zy_id z' = k\<close> by simp_all
  qed
  assume r: "ps_phase s r = Warming"
  let ?s' = "with_phase r (On (ps_next s))
      (s\<lparr>ps_zygotes := add_zygote (ps_next s) now (Some (needs r)) (ps_zygotes s), ps_next := ps_next s + 1\<rparr>)"
  have phase: "ps_phase ?s' q = On k \<longleftrightarrow> (if q = r then k = ps_next s else ps_phase s q = On k)"
      "ps_phase ?s' q = Left k \<longleftrightarrow> q \<noteq> r \<and> ps_phase s q = Left k" for q k
    by (auto simp: with_phase_def)
  have zs': "set (ps_zygotes ?s') = insert (claim (needs r) (new_zygote (ps_next s) now)) (set (ps_zygotes s))"
    by (simp add: with_phase_def add_zygote_def)
  show "marks_true needs ?s'"
    unfolding marks_true_def phase zs'
  proof (intro allI impI conjI ballI)
    fix q k p
    assume a: "needs q \<and> (if q = r then k = ps_next s else ps_phase s q = On k)"
    show "\<not> (p \<noteq> r \<and> ps_phase s p = Left k)"
      using a left [of p k] marks_trueD(2) [OF m, of q k p] by (auto split: if_splits)
  next
    fix q k z'
    assume a: "needs q \<and> (if q = r then k = ps_next s else ps_phase s q = On k)"
      and z': "z' \<in> insert (claim (needs r) (new_zygote (ps_next s) now)) (set (ps_zygotes s))" "zy_id z' = k"
    have "zy_alone z' \<and> zy_in_flight z' = 1"
    proof (cases "z' \<in> set (ps_zygotes s)")
      case True
      then have "q \<noteq> r"
        using a below [of z'] z'(2) by auto
      then show ?thesis
        using True a z'(2) marks_trueD(1) [OF m, of q k z'] by simp
    next
      case False
      then have new: "z' = claim (needs r) (new_zygote (ps_next s) now)" and k: "k = ps_next s"
        using z' by (simp_all add: claim_def new_zygote_def)
      then have "q = r"
        using a on [of q k] by (cases "q = r") simp_all
      then show ?thesis
        using a by (simp add: new claim_def new_zygote_def)
    qed
    then show "zy_alone z'" "zy_in_flight z' = 1"
      by simp_all
  qed
qed

lemma apply_marks:
  assumes c: "pool_consistent s" and m: "marks_true needs s" and o: "orderly cfg needs e s"
    and e: "pool_apply cfg needs e s = Some s'"
  shows "marks_true needs s'"
proof (cases e)
  case (Pick r)
  then have r: "ps_phase s r = Waiting"
    using e by (simp split: if_splits)
  show ?thesis
  proof (cases rule: pick_locked_cases [of cfg "needs r" "ps_zygotes s"])
    case (claimed i)
    then have s': "s' = with_phase r (On (zy_id (ps_zygotes s ! i)))
        (s\<lparr>ps_zygotes := (ps_zygotes s)[i := claim (needs r) (ps_zygotes s ! i)]\<rparr>)"
      using e Pick r by simp
    have "\<forall>q. ps_phase s q \<noteq> Left (zy_id (ps_zygotes s ! i))" if "needs r"
      using o Pick claimed(1) that by (simp add: orderly_def)
    then show ?thesis
      using marks_claim [OF c m r claimed(2,3)] unfolding s' by blast
  qed (use e Pick r in \<open>auto intro!: marks_thin [OF m] kept_refl simp: same_mark_def with_phase_def split: if_splits\<close>)
next
  case (Warmed r now)
  then show ?thesis
    using e marks_add(2) [OF c m] by (auto split: if_splits)
next
  case (ScaleWarmed now)
  then show ?thesis
    using e marks_add(1) [OF c m] by (auto split: if_splits)
next
  case (CountOut r)
  then show ?thesis
    using e marks_count_out [OF c m] by (auto split: phase.splits)
next
  case (Clear r now)
  then show ?thesis
    using e marks_clear [OF m] by (auto split: phase.splits)
next
  case (Tier now pause)
  obtain ys where "fst (tier_zygotes cfg now pause [] (ps_zygotes s)) = ys" "kept same_mark (ps_zygotes s) ys"
    using tier_kept [of cfg now pause "[]" "ps_zygotes s"] by auto
  then show ?thesis
    using e Tier by (auto intro!: marks_thin [OF m] split: if_splits)
next
  case (Resume r)
  then show ?thesis
    using e by (auto intro!: marks_thin [OF m] update_kept simp: same_mark_def split: phase.splits)
next
  case (PruneFor r)
  then show ?thesis
    using e by (auto intro!: marks_thin [OF m] prune_kept simp: with_phase_def split: if_splits)
next
  case (WarmFailed r)
  then show ?thesis
    using e by (auto intro!: marks_thin [OF m] kept_refl simp: same_mark_def with_phase_def split: if_splits)
next
  case ScalePrune
  then show ?thesis
    using e by (auto intro!: marks_thin [OF m] prune_kept)
next
  case (Died k)
  then show ?thesis
    using e by (auto intro!: marks_thin [OF m] update_kept simp: same_mark_def)
qed (use e in \<open>auto intro!: marks_thin [OF m] kept_refl simp: same_mark_def split: if_splits\<close>)

lemma run_marks:
  "pool_consistent s \<Longrightarrow> marks_true needs s \<Longrightarrow> orderly_run cfg needs es s \<Longrightarrow> run_pool cfg needs es s = Some s' \<Longrightarrow>
     marks_true needs s'"
proof (induction es arbitrary: s)
  case (Cons e es)
  then obtain s1 where s1: "pool_apply cfg needs e s = Some s1" "run_pool cfg needs es s1 = Some s'"
    by (auto simp: bind_eq_Some_conv)
  then show ?case
    using Cons apply_consistent [OF Cons.prems(1) s1(1)] apply_marks [OF Cons.prems(1,2) _ s1(1)] by simp
qed simp

text \<open>
  C22. Whatever the threads of a pool do, and in whatever order: a zygote's count is the number of
  requests running on it, which is never none while one of them has still to be counted out; no
  zygote is dropped from the pool under a request; and the request the pool picks a zygote for
  gets a healthy one of the list that is nobody's alone, the least busy of those, or an idle
  one when it must be alone.
\<close>

theorem pool_keeps_count:
  assumes start: "fresh_zygotes zs" and run: "run_pool cfg needs es (pool_start zs) = Some s"
  shows "(\<forall>r k. ps_phase s r = On k \<longrightarrow> (\<exists>!z. z \<in> set (ps_zygotes s) \<and> zy_id z = k))
    \<and> (\<forall>z \<in> set (ps_zygotes s). zy_in_flight z = card {r. ps_phase s r = On (zy_id z)}
        \<and> (\<forall>r. ps_phase s r = On (zy_id z) \<longrightarrow> zy_in_flight z > 0))
    \<and> (\<forall>r k zs'. pick_locked cfg (needs r) (ps_zygotes s) = (Claimed k, zs') \<longrightarrow>
        (\<exists>z \<in> set (ps_zygotes s). zy_id z = k \<and> zy_healthy z \<and> (needs r \<longrightarrow> zy_in_flight z = 0)
          \<and> (\<not> needs r \<longrightarrow> \<not> zy_alone z
              \<and> (\<forall>y \<in> set (ps_zygotes s). zy_healthy y \<and> \<not> zy_alone y \<longrightarrow> zy_in_flight z \<le> zy_in_flight y))))"
proof (intro conjI allI impI ballI)
  have c: "pool_consistent s"
    by (rule run_consistent [OF start_consistent [OF start] run])
  then have distinct: "distinct (map zy_id (ps_zygotes s))"
    and counts: "\<And>z. z \<in> set (ps_zygotes s) \<Longrightarrow> finite (running s (zy_id z)) \<and> zy_in_flight z = card (running s (zy_id z))"
    and on: "\<And>r k. ps_phase s r = On k \<Longrightarrow> k \<in> zy_id ` set (ps_zygotes s)"
    by (simp_all add: pool_consistent_def)
  show "\<exists>!z. z \<in> set (ps_zygotes s) \<and> zy_id z = k" if placed: "ps_phase s r = On k" for r k
  proof -
    obtain z where "z \<in> set (ps_zygotes s)" "zy_id z = k"
      using on [OF placed] by blast
    then show ?thesis
      using distinct by (intro ex1I [of _ z]) (auto simp: distinct_map dest: inj_onD)
  qed
  fix z
  assume z: "z \<in> set (ps_zygotes s)"
  show "zy_in_flight z = card {r. ps_phase s r = On (zy_id z)}"
    using counts [OF z] by (simp add: running_def)
  show "zy_in_flight z > 0" if "ps_phase s r = On (zy_id z)" for r
    using counts [OF z] that by (auto simp: running_def card_gt_0_iff)
next
  fix r k zs'
  assume p: "pick_locked cfg (needs r) (ps_zygotes s) = (Claimed k, zs')"
  let ?seats = "map seat_of (ps_zygotes s)"
  obtain i where i: "choose_seat ?seats (needs r) = Some i" "i < length (ps_zygotes s)" "k = zy_id (ps_zygotes s ! i)"
    using p by (cases rule: pick_locked_cases [of cfg "needs r" "ps_zygotes s"]) auto
  note seat = choose_seat_Some [OF i(1)]
  have "zy_in_flight (ps_zygotes s ! i) \<le> zy_in_flight y"
    if "\<not> needs r" "y \<in> set (ps_zygotes s)" "zy_healthy y" "\<not> zy_alone y" for y
  proof -
    obtain j where "j < length (ps_zygotes s)" "y = ps_zygotes s ! j"
      using \<open>y \<in> set (ps_zygotes s)\<close> by (auto simp: in_set_conv_nth)
    then show ?thesis
      using seat(5) [of j] that i(2) by (simp add: seat_of_def)
  qed
  then show "\<exists>z \<in> set (ps_zygotes s). zy_id z = k \<and> zy_healthy z \<and> (needs r \<longrightarrow> zy_in_flight z = 0)
      \<and> (\<not> needs r \<longrightarrow> \<not> zy_alone z
          \<and> (\<forall>y \<in> set (ps_zygotes s). zy_healthy y \<and> \<not> zy_alone y \<longrightarrow> zy_in_flight z \<le> zy_in_flight y))"
    using seat(2,3,4) i(2,3) by (intro bexI [of _ "ps_zygotes s ! i"]) (auto simp: seat_of_def)
qed

text \<open>
  C23. A request with secrets has its zygote to itself, as long as the pool never gives such a
  request a zygote whose last request was counted out but has not cleared its mark yet: then
  no other request runs on it, whatever else the threads do.
\<close>

theorem secrets_have_zygote_alone:
  assumes start: "fresh_zygotes zs" and run: "run_pool cfg needs es (pool_start zs) = Some s"
    and orderly: "orderly_run cfg needs es (pool_start zs)" and r: "needs r" "ps_phase s r = On k"
  shows "{q. ps_phase s q = On k} = {r}"
proof -
  have "marks_true needs (pool_start zs)"
    by (simp add: marks_true_def pool_start_def)
  then have m: "marks_true needs s"
    using run_marks [OF start_consistent [OF start] _ orderly run] by blast
  have "q = r" if "ps_phase s q = On k" for q
    by (rule marks_exclusive [OF run_consistent [OF start_consistent [OF start] run] m r that])
  then show ?thesis
    using r(2) by blast
qed

section \<open>Schedules that go wrong\<close>

text \<open>The one seat that fits is taken, whatever else is in the list.\<close>

lemma choose_only:
  assumes "st_healthy z" and "if alone then st_in_flight z = 0 else \<not> st_alone z"
    and "\<forall>y \<in> set (xs @ ys). st_healthy y \<longrightarrow>
      (if alone then st_in_flight y > 0 else st_alone y \<or> st_in_flight z < st_in_flight y)"
  shows "choose_seat (xs @ z # ys) alone = Some (length xs)"
proof -
  have "choose_seat (xs @ z # ys) alone \<noteq> None"
    using assms(1,2) by (auto simp: choose_seat_None)
  then obtain i where i: "choose_seat (xs @ z # ys) alone = Some i" by blast
  note c = choose_seat_Some [OF i]
  have "i = length xs"
  proof (rule ccontr)
    assume "i \<noteq> length xs"
    then have "(xs @ z # ys) ! i \<in> set (xs @ ys)"
      using c(1) by (cases "i < length xs") (auto simp: nth_append nth_Cons')
    then have "st_healthy ((xs @ z # ys) ! i) \<longrightarrow> (if alone then st_in_flight ((xs @ z # ys) ! i) > 0
        else st_alone ((xs @ z # ys) ! i) \<or> st_in_flight z < st_in_flight ((xs @ z # ys) ! i))"
      using assms(3) by blast
    then show False
      using c(2,3,4) c(5) [of "length xs"] assms(1,2) by (auto split: if_splits)
  qed
  with i show ?thesis by simp
qed

lemma pick_only:
  assumes "zy_healthy z" and "if alone then zy_in_flight z = 0 else \<not> zy_alone z"
    and "\<forall>y \<in> set (xs @ ys). zy_healthy y \<longrightarrow>
      (if alone then zy_in_flight y > 0 else zy_alone y \<or> zy_in_flight z < zy_in_flight y)"
  shows "pick_locked c alone (xs @ z # ys) = (Claimed (zy_id z), xs @ claim alone z # ys)"
proof -
  have "choose_seat (map seat_of xs @ seat_of z # map seat_of ys) alone = Some (length (map seat_of xs))"
    by (rule choose_only) (use assms in \<open>auto simp: seat_of_def split: if_splits\<close>)
  then show ?thesis
    by (simp add: pick_locked_def)
qed

lemma update_only:
  "distinct (map zy_id (xs @ z # ys)) \<Longrightarrow> zy_id z' = zy_id z \<Longrightarrow>
     update_zygote (zy_id z) f (xs @ z' # ys) = xs @ f z' # ys"
proof -
  assume d: "distinct (map zy_id (xs @ z # ys))" and i: "zy_id z' = zy_id z"
  have "update_zygote (zy_id z) f zs = zs" if "zy_id z \<notin> zy_id ` set zs" for zs
    unfolding update_zygote_def by (rule map_idI) (metis that imageI)
  from this [of xs] this [of ys] show ?thesis
    using d i by (auto simp: update_zygote_def)
qed

text \<open>
  C24. The leaving of a request is not one step. In any reachable state of any pool in which one
  zygote is idle, and the others are held by requests with secrets or have at least two requests,
  three requests that are admitted suffice: between the first one's counting itself out and its clearing
  the mark, the pool gives the zygote to a request with secrets; the late clearing takes that
  request's mark away, and the third is forked beside it, where it can read its secrets.
\<close>

theorem secrets_zygote_shared:
  assumes "fresh_zygotes zs" and "run_pool cfg needs before (pool_start zs) = Some s"
    and "ps_zygotes s = xs @ z # ys" and "zy_healthy z" and "zy_in_flight z = 0" and "\<not> zy_alone z"
    and "\<forall>y \<in> set (xs @ ys). zy_healthy y \<longrightarrow> zy_in_flight y > 0 \<and> (zy_alone y \<or> zy_in_flight y \<ge> 2)"
    and "distinct [p, q, r]" and "ps_phase s p = Waiting" and "ps_phase s q = Waiting" and "ps_phase s r = Waiting"
    and "needs q" and "\<not> needs r"
  shows "\<exists>s'. run_pool cfg needs [Pick p, CountOut p, Pick q, Clear p now, Pick r] s = Some s'
     \<and> ps_phase s' q = On (zy_id z) \<and> ps_phase s' r = On (zy_id z)"
proof -
  let ?z1 = "claim (needs p) z"
  let ?z2 = "claim True (count_out ?z1)"
  let ?z3 = "clear_mark now ?z2"
  have d: "distinct (map zy_id (xs @ z # ys))"
    using run_consistent [OF start_consistent [OF assms(1)] assms(2)] assms(3) by (simp add: pool_consistent_def)
  have p1: "pick_locked cfg (needs p) (xs @ z # ys) = (Claimed (zy_id z), xs @ ?z1 # ys)"
    by (rule pick_only) (use assms(4-7) in auto)
  have p2: "pick_locked cfg True (xs @ count_out ?z1 # ys) = (Claimed (zy_id (count_out ?z1)), xs @ ?z2 # ys)"
    by (rule pick_only) (use assms(4-7) in \<open>auto simp: count_out_def claim_def\<close>)
  have p3: "pick_locked cfg False (xs @ ?z3 # ys) = (Claimed (zy_id ?z3), xs @ claim False ?z3 # ys)"
    by (rule pick_only) (use assms(4-7) in \<open>auto simp: clear_mark_def count_out_def claim_def\<close>)
  have ids: "zy_id ?z1 = zy_id z" "zy_id (count_out ?z1) = zy_id z" "zy_id ?z2 = zy_id z" "zy_id ?z3 = zy_id z"
    by (simp_all add: claim_def count_out_def clear_mark_def)
  note u = update_only [OF d ids(1), of count_out] update_only [OF d ids(3), of "clear_mark now"]
  have "p \<noteq> q" "p \<noteq> r" "q \<noteq> r" using assms(8) by auto
  then show ?thesis
    using assms(3,9-13) by (simp add: with_phase_def p1 p2 p3 u ids)
qed

text \<open>A pool with one zygote, two requests that have come and gone, and three more.\<close>

theorem secrets_zygote_shared_witness:
  "\<exists>s s'. run_pool \<lparr>rp_min_warm = 1, rp_max_warm = 2, rp_concurrency = 4, rp_cold_after = 100, rp_idle_timeout = 10\<rparr>
       (\<lambda>r. r = 3) [Pick 0, Pick 1, CountOut 0, Clear 0 7, CountOut 1, Clear 1 8] (pool_start [new_zygote 0 0]) = Some s
     \<and> run_pool \<lparr>rp_min_warm = 1, rp_max_warm = 2, rp_concurrency = 4, rp_cold_after = 100, rp_idle_timeout = 10\<rparr>
       (\<lambda>r. r = 3) [Pick 2, CountOut 2, Pick 3, Clear 2 9, Pick 4] s = Some s'
     \<and> ps_phase s' 3 = On 0 \<and> ps_phase s' 4 = On 0"
proof -
  let ?cfg = "\<lparr>rp_min_warm = 1, rp_max_warm = 2, rp_concurrency = 4, rp_cold_after = 100, rp_idle_timeout = 10\<rparr>"
  have f: "fresh_zygotes [new_zygote 0 0]"
    by (simp add: fresh_zygotes_def new_zygote_def)
  obtain s where s: "run_pool ?cfg (\<lambda>r. r = 3) [Pick 0, Pick 1, CountOut 0, Clear 0 7, CountOut 1, Clear 1 8]
      (pool_start [new_zygote 0 0]) = Some s"
    and z: "ps_zygotes s = [] @ (new_zygote 0 8) # []"
    and w: "ps_phase s 2 = Waiting" "ps_phase s 3 = Waiting" "ps_phase s 4 = Waiting"
    by (simp add: pool_start_def new_zygote_def pick_locked_def choose_seat_def seat_of_def claim_def with_phase_def
        update_zygote_def count_out_def clear_mark_def enumerate_eq_zip)
  have n: "zy_healthy (new_zygote 0 8)" "zy_in_flight (new_zygote 0 8) = 0" "\<not> zy_alone (new_zygote 0 8)" "zy_id (new_zygote 0 8) = 0"
    by (simp_all add: new_zygote_def)
  have d: "distinct [2 :: nat, 3, 4]" and e: "\<forall>y \<in> set ([] @ []). zy_healthy y \<longrightarrow>
      zy_in_flight y > 0 \<and> (zy_alone y \<or> zy_in_flight y \<ge> 2)"
    by simp_all
  obtain s' where "run_pool ?cfg (\<lambda>r. r = 3) [Pick 2, CountOut 2, Pick 3, Clear 2 9, Pick 4] s = Some s'"
    "ps_phase s' 3 = On 0" "ps_phase s' 4 = On 0"
    using secrets_zygote_shared [OF f s z n(1-3) e d w, of 9] unfolding n(4) by auto
  with s show ?thesis by blast
qed

text \<open>
  The room of a pool is looked at under the lock and filled after it: two requests that both
  find one zygote's room left leave the pool with one more than its maximum.
\<close>

theorem pool_outgrows_maximum:
  assumes "rp_max_warm cfg = 2"
  shows "\<exists>es s. run_pool cfg (\<lambda>_. True) es (pool_start [new_zygote 0 now]) = Some s
     \<and> list_all zy_healthy (ps_zygotes s) \<and> rp_max_warm cfg < length (ps_zygotes s)"
proof -
  let ?es = "[Pick 0, Pick 1, Pick 2, PruneFor 1, PruneFor 2, Warmed 1 now, Warmed 2 now]"
  have "\<exists>s. run_pool cfg (\<lambda>_. True) ?es (pool_start [new_zygote 0 now]) = Some s
      \<and> list_all zy_healthy (ps_zygotes s) \<and> rp_max_warm cfg < length (ps_zygotes s)"
    by (simp add: assms pool_start_def new_zygote_def pick_locked_def choose_seat_def seat_of_def claim_def with_phase_def
        prune_zygotes_def add_zygote_def)
  then show ?thesis
    by blast
qed

section \<open>The idle policy\<close>

lemma tier_bounds:
  "length (fst (tier_zygotes c now pause passed rest)) \<ge> min (rp_min_warm c) (length (passed @ rest))
    \<and> (\<forall>k \<in> set (fst (snd (tier_zygotes c now pause passed rest))).
        \<exists>z \<in> set rest. zy_id z = k \<and> zy_in_flight z = 0 \<and> idle_for now z \<ge> rp_cold_after c)
    \<and> length (fst (tier_zygotes c now pause passed rest)) + length (fst (snd (tier_zygotes c now pause passed rest)))
        = length (passed @ rest)"
proof (induction c now pause passed rest rule: tier_zygotes.induct)
  case (2 c now pause passed z rest)
  consider (busy) "zy_in_flight z > 0"
    | (cool) "zy_in_flight z = 0" "length (passed @ z # rest) > rp_min_warm c \<and> idle_for now z \<ge> rp_cold_after c"
    | (pause) "zy_in_flight z = 0" "\<not> (length (passed @ z # rest) > rp_min_warm c \<and> idle_for now z \<ge> rp_cold_after c)"
        "idle_for now z \<ge> rp_idle_timeout c \<and> zy_warm z \<and> pause (zy_id z)"
    | (keep) "zy_in_flight z = 0" "\<not> (length (passed @ z # rest) > rp_min_warm c \<and> idle_for now z \<ge> rp_cold_after c)"
        "\<not> (idle_for now z \<ge> rp_idle_timeout c \<and> zy_warm z \<and> pause (zy_id z))"
    by blast
  then show ?case
  proof cases
    case busy
    then show ?thesis
      using 2(1) by simp
  next
    case cool
    have eq: "tier_zygotes c now pause passed (z # rest)
        = (let (zs, cooled, paused) = tier_zygotes c now pause passed rest in (zs, zy_id z # cooled, paused))"
      using cool by (simp only: tier_zygotes.simps) simp
    show ?thesis
      unfolding eq using 2(2) cool by (simp add: case_prod_unfold Let_def)
  next
    case pause
    have eq: "tier_zygotes c now pause passed (z # rest)
        = (let (zs, cooled, paused) = tier_zygotes c now pause (passed @ [z\<lparr>zy_warm := False\<rparr>]) rest
           in (zs, cooled, zy_id z # paused))"
      using pause by (simp only: tier_zygotes.simps) simp
    show ?thesis
      unfolding eq using 2(3) pause by (simp add: case_prod_unfold Let_def)
  next
    case keep
    have eq: "tier_zygotes c now pause passed (z # rest) = tier_zygotes c now pause (passed @ [z]) rest"
      using keep by (simp only: tier_zygotes.simps) simp
    show ?thesis
      unfolding eq using 2(4) keep by simp
  qed
qed simp

text \<open>
  A pass of the idle policy takes away no zygote that has a request in flight and none that was
  used within \<open>cold_after\<close>, and leaves the floor of \<open>min_warm\<close> standing: it ends with at least
  that many, or with as many as there were.
\<close>

theorem idle_policy_keeps_floor:
  "let (left, cooled, paused) = tier_zygotes c now pause [] zs in
     min (rp_min_warm c) (length zs) \<le> length left \<and> length left + length cooled = length zs
     \<and> zy_id ` {z \<in> set zs. zy_in_flight z > 0} \<subseteq> zy_id ` set left
     \<and> set cooled \<subseteq> zy_id ` {z \<in> set zs. zy_in_flight z = 0 \<and> rp_cold_after c \<le> now - zy_last_used z}"
proof -
  obtain ys where ys: "fst (tier_zygotes c now pause [] zs) = ys" "kept same_mark zs ys"
    using tier_kept [of c now pause "[]" zs] by auto
  have "zy_id ` {z \<in> set zs. zy_in_flight z > 0} \<subseteq> zy_id ` set ys"
    using ys(2) by (auto simp: kept_def)
  then show ?thesis
    using tier_bounds [where passed = "[]" and rest = zs and c = c and now = now and pause = pause] ys(1) by (fastforce simp: idle_for_def split: prod.splits)
qed

section \<open>Instances\<close>

definition demo_pool :: pool_config where
  "demo_pool = \<lparr>rp_min_warm = 1, rp_max_warm = 2, rp_concurrency = 4, rp_cold_after = 100, rp_idle_timeout = 10\<rparr>"

text \<open>An ordinary request holds the only zygote; a request with secrets makes the pool grow.\<close>

definition demo_events :: "pool_event list" where
  "demo_events = [Pick 0, Pick 1, PruneFor 1, Warmed 1 5, Pick 2, CountOut 2, Clear 2 6]"

definition demo_end :: pool_state where
  "demo_end = the (run_pool demo_pool (\<lambda>r. r = 1) demo_events (pool_start [new_zygote 0 0]))"

lemmas pool_eval = demo_end_def demo_events_def demo_pool_def pool_start_def new_zygote_def pick_locked_def choose_seat_def
  seat_of_def claim_def with_phase_def prune_zygotes_def add_zygote_def update_zygote_def count_out_def clear_mark_def

lemma demo_pool_run: "run_pool demo_pool (\<lambda>r. r = 1) demo_events (pool_start [new_zygote 0 0]) = Some demo_end"
  by (simp add: pool_eval)

lemma demo_fresh: "fresh_zygotes [new_zygote 0 0]"
  by (simp add: fresh_zygotes_def new_zygote_def)

theorem pool_keeps_count_witness:
  "\<exists>z. z \<in> set (ps_zygotes demo_end) \<and> zy_id z = 0 \<and> zy_in_flight z > 0 \<and> zy_in_flight z = card {r. ps_phase demo_end r = On 0}"
proof -
  have "ps_phase demo_end 0 = On 0"
    by (simp add: pool_eval)
  note law = pool_keeps_count [OF demo_fresh demo_pool_run]
  obtain z where z: "z \<in> set (ps_zygotes demo_end)" "zy_id z = 0"
    using conjunct1 [OF law, rule_format, OF \<open>ps_phase demo_end 0 = On 0\<close>] by blast
  have "zy_in_flight z = card {r. ps_phase demo_end r = On 0}" "zy_in_flight z > 0"
    using bspec [OF conjunct1 [OF conjunct2 [OF law]] z(1), unfolded z(2)] \<open>ps_phase demo_end 0 = On 0\<close> by blast+
  then show ?thesis
    using z by blast
qed

theorem secrets_have_zygote_alone_witness:
  "{q. ps_phase demo_end q = On 1} = {1}"
proof -
  have "orderly_run demo_pool (\<lambda>r. r = 1) demo_events (pool_start [new_zygote 0 0])"
    by (simp add: pool_eval orderly_def)
  moreover have "ps_phase demo_end 1 = On 1"
    by (simp add: pool_eval)
  ultimately show ?thesis
    by (rule secrets_have_zygote_alone [OF demo_fresh demo_pool_run _ refl])
qed

theorem pool_outgrows_maximum_witness:
  "\<exists>es s. run_pool demo_pool (\<lambda>_. True) es (pool_start [new_zygote 0 0]) = Some s
     \<and> list_all zy_healthy (ps_zygotes s) \<and> rp_max_warm demo_pool < length (ps_zygotes s)"
  by (rule pool_outgrows_maximum) (simp add: demo_pool_def)

end
