(* ===== verification/Zygo_Tenancy_Laws.thy ===== *)
theory Zygo_Tenancy_Laws
  imports Zygo_Tenancy Zygo_Tokens_Laws Zygo_Secrets_Laws Zygo_Scripts_Laws Zygo_Runtime_Laws
begin

text \<open>
  The stores together: each keeps to its own files, so what one operation does to several of
  them can be read off the operations of each. Deleting a tenant leaves nothing that acts for
  it, a request is given what its own tenant has and nothing else, and tenants come to be
  without the check that is to stand in front of them.
\<close>

section \<open>Where the stores are\<close>

definition tenancy_ok :: "('s, 'c) host \<times> 's files \<Rightarrow> bool" where
  "tenancy_ok p \<longleftrightarrow> (case p of (h, files) \<Rightarrow>
     tenants_ok (ho_tenants h, files) \<and> tokens_ok (ho_tokens h, files) \<and> scripts_ok (ho_scripts h, files)
     \<and> (\<forall>st. ho_secrets h = Some st \<longrightarrow> secrets_ok (st, files))
     \<and> (\<exists>p. is_absolute (zp_data p) \<and> tn_dir (ho_tenants h) = tenants_path p \<and> ts_path (ho_tokens h) = tokens_path p
          \<and> sc_dir (ho_scripts h) = scripts_path p \<and> (\<forall>st. ho_secrets h = Some st \<longrightarrow> ss_dir st = secrets_path p))
     \<and> (\<forall>tid s. files (snd (ho_stop h tid s)) = files s \<and> files (ho_drop_cgroup h tid s) = files s))"

lemma tenancy_okD:
  assumes "tenancy_ok (h, files)"
  shows "tenants_ok (ho_tenants h, files)" and "tokens_ok (ho_tokens h, files)" and "scripts_ok (ho_scripts h, files)"
    and "ho_secrets h = Some st \<Longrightarrow> secrets_ok (st, files)"
    and "files (snd (ho_stop h tid s)) = files s" and "files (ho_drop_cgroup h tid s) = files s"
  using assms by (auto simp: tenancy_ok_def)

lemma tenancy_places:
  assumes "tenancy_ok (h, files)"
  obtains d where "components (ts_path (ho_tokens h)) = d @ [Normal ''tokens.json'']"
    and "\<And>tid. valid_tenant_id tid \<Longrightarrow> components (tenant_path (ho_tenants h) tid) = d @ [Normal ''tenants'', Normal (tid @ ''.json'')]"
    and "\<And>st tid. ho_secrets h = Some st \<Longrightarrow> valid_tenant_id tid \<Longrightarrow>
      components (secret_path st tid) = d @ [Normal ''secrets'', Normal (tid @ ''.json'')]"
    and "\<And>i. good_digest i \<Longrightarrow> components (script_path (ho_scripts h) i) = d @ [Normal ''scripts'', Normal (digest_hex i)]"
proof -
  obtain p where p: "is_absolute (zp_data p)" "tn_dir (ho_tenants h) = tenants_path p" "ts_path (ho_tokens h) = tokens_path p"
    "sc_dir (ho_scripts h) = scripts_path p" "\<And>st. ho_secrets h = Some st \<Longrightarrow> ss_dir st = secrets_path p"
    using assms by (auto simp: tenancy_ok_def)
  have sub: "components (path_join (zp_data p) n) = components (zp_data p) @ [Normal n]" if "plain n" for n
    by (rule components_file [OF p(1) that])
  show thesis
  proof (rule that [of "components (zp_data p)"])
    show "components (ts_path (ho_tokens h)) = components (zp_data p) @ [Normal ''tokens.json'']"
      using sub [of "''tokens.json''"] p(3) by (simp add: tokens_path_def plain_def)
    show "components (tenant_path (ho_tenants h) tid) = components (zp_data p) @ [Normal ''tenants'', Normal (tid @ ''.json'')]"
      if "valid_tenant_id tid" for tid
      using tenant_components(1) [OF tenancy_okD(1) [OF assms] that] sub [of "''tenants''"] p(2)
      by (simp add: tenants_path_def plain_def)
    show "components (secret_path st tid) = components (zp_data p) @ [Normal ''secrets'', Normal (tid @ ''.json'')]"
      if "ho_secrets h = Some st" "valid_tenant_id tid" for st tid
      using components_file [OF secrets_okD(2) [OF tenancy_okD(4) [OF assms that(1)]] valid_tenant_id_plain(1) [OF that(2)]]
        sub [of "''secrets''"] p(5) [OF that(1)] by (simp add: secret_path_def secrets_path_def plain_def)
    show "components (script_path (ho_scripts h) i) = components (zp_data p) @ [Normal ''scripts'', Normal (digest_hex i)]"
      if "good_digest i" for i
      using script_components(1) [OF tenancy_okD(3) [OF assms] that] sub [of "''scripts''"] p(4)
      by (simp add: scripts_path_def plain_def)
  qed
qed

text \<open>The files of the token store.\<close>

definition token_area :: "'s token_store \<Rightarrow> component list \<Rightarrow> bool" where
  "token_area st q \<longleftrightarrow> q = components (token_temporary st) \<or> q = components (ts_path st)"

lemma stores_apart:
  assumes ok: "tenancy_ok (h, files)"
  shows "valid_tenant_id tid \<Longrightarrow> \<not> token_area (ho_tokens h) (components (tenant_path (ho_tenants h) tid))"
    and "ho_secrets h = Some st \<Longrightarrow> valid_tenant_id tid \<Longrightarrow> \<not> token_area (ho_tokens h) (components (secret_path st tid))"
    and "good_digest d \<Longrightarrow> \<not> token_area (ho_tokens h) (components (script_path (ho_scripts h) d))"
    and "ho_secrets h = Some st \<Longrightarrow> valid_tenant_id tid \<Longrightarrow> valid_tenant_id i \<Longrightarrow>
      components (secret_path st tid) \<noteq> components (tenant_path (ho_tenants h) i)"
    and "ho_secrets h = Some st \<Longrightarrow> valid_tenant_id tid \<Longrightarrow> good_digest d \<Longrightarrow>
      components (secret_path st tid) \<noteq> components (script_path (ho_scripts h) d)"
    and "valid_tenant_id tid \<Longrightarrow> good_digest d \<Longrightarrow>
      components (tenant_path (ho_tenants h) tid) \<noteq> components (script_path (ho_scripts h) d)"
    and "valid_tenant_id tid \<Longrightarrow> components (ts_path (ho_tokens h)) \<noteq> components (tenant_path (ho_tenants h) tid)"
    and "ho_secrets h = Some st \<Longrightarrow> valid_tenant_id tid \<Longrightarrow> components (ts_path (ho_tokens h)) \<noteq> components (secret_path st tid)"
    and "good_digest d \<Longrightarrow> components (ts_path (ho_tokens h)) \<noteq> components (script_path (ho_scripts h) d)"
proof -
  obtain D where D: "components (ts_path (ho_tokens h)) = D @ [Normal ''tokens.json'']"
    and T: "\<And>tid. valid_tenant_id tid \<Longrightarrow> components (tenant_path (ho_tenants h) tid) = D @ [Normal ''tenants'', Normal (tid @ ''.json'')]"
    and S: "\<And>st tid. ho_secrets h = Some st \<Longrightarrow> valid_tenant_id tid \<Longrightarrow>
      components (secret_path st tid) = D @ [Normal ''secrets'', Normal (tid @ ''.json'')]"
    and C: "\<And>i. good_digest i \<Longrightarrow> components (script_path (ho_scripts h) i) = D @ [Normal ''scripts'', Normal (digest_hex i)]"
    by (rule tenancy_places [OF ok]) blast
  note temp = token_temporary_last [OF tenancy_okD(2) [OF ok]]
  have dot: "Normal n \<noteq> last (components (token_temporary (ho_tokens h)))" if "hd n \<noteq> CHR ''.''" for n
    using that unfolding temp by auto
  have hex: "hd (digest_hex i) \<noteq> CHR ''.''" if "good_digest i" for i
    using that well_formed_hex_plain(2) by (auto simp: good_digest_def digest_hex_def)
  have far: "\<not> token_area (ho_tokens h) (D @ [a, Normal n])" if "hd n \<noteq> CHR ''.''" for a n
  proof -
    have "last (D @ [a, Normal n]) \<noteq> last (components (token_temporary (ho_tokens h)))"
      using dot [OF that] by simp
    then have "D @ [a, Normal n] \<noteq> components (token_temporary (ho_tokens h))"
      by metis
    then show ?thesis
      by (simp add: token_area_def D)
  qed
  show "\<not> token_area (ho_tokens h) (components (tenant_path (ho_tenants h) tid))" if "valid_tenant_id tid"
    unfolding T [OF that] by (rule far [OF valid_tenant_id_plain(3) [OF that]])
  show "\<not> token_area (ho_tokens h) (components (secret_path st tid))" if "ho_secrets h = Some st" "valid_tenant_id tid"
    unfolding S [OF that] by (rule far [OF valid_tenant_id_plain(3) [OF that(2)]])
  show "\<not> token_area (ho_tokens h) (components (script_path (ho_scripts h) d))" if "good_digest d"
    unfolding C [OF that] by (rule far [OF hex [OF that]])
  show "ho_secrets h = Some st \<Longrightarrow> valid_tenant_id tid \<Longrightarrow> valid_tenant_id i \<Longrightarrow>
      components (secret_path st tid) \<noteq> components (tenant_path (ho_tenants h) i)"
    and "ho_secrets h = Some st \<Longrightarrow> valid_tenant_id tid \<Longrightarrow> good_digest d \<Longrightarrow>
      components (secret_path st tid) \<noteq> components (script_path (ho_scripts h) d)"
    and "valid_tenant_id tid \<Longrightarrow> good_digest d \<Longrightarrow>
      components (tenant_path (ho_tenants h) tid) \<noteq> components (script_path (ho_scripts h) d)"
    and "valid_tenant_id tid \<Longrightarrow> components (ts_path (ho_tokens h)) \<noteq> components (tenant_path (ho_tenants h) tid)"
    and "ho_secrets h = Some st \<Longrightarrow> valid_tenant_id tid \<Longrightarrow> components (ts_path (ho_tokens h)) \<noteq> components (secret_path st tid)"
    and "good_digest d \<Longrightarrow> components (ts_path (ho_tokens h)) \<noteq> components (script_path (ho_scripts h) d)"
    by (simp_all add: D T S C)
qed

section \<open>Deleting a tenant\<close>

lemma answering_Inr [result_simps]: "answering e m s = (Inr a, s') \<longleftrightarrow> m s = (Inr a, s')"
  by (cases "m s") (auto simp: answering_def result_simps)

lemma tenant_remove_touches:
  assumes "tenants_ok (st, files)" and "tenant_remove st tid s = (r, s')"
  shows "touches files (\<lambda>q. q = components (tenant_path st tid)) s s'"
proof -
  have contract: "hostfs_contract (tn_fs st) files"
    using assms(1) by (simp add: tenants_ok_def)
  have "s' = s \<or> (\<exists>q. remove_if_there (tn_fs st) (tenant_path st tid) s = (q, s'))"
    using assms(2) by (cases "remove_if_there (tn_fs st) (tenant_path st tid) s"; cases "fst (remove_if_there (tn_fs st) (tenant_path st tid) s)")
      (auto simp: tenant_remove_def and_do_def look_def return_ok_def split: sum.splits option.splits)
  then show ?thesis
    using remove_if_there_removes [OF contract] by (auto simp: touches_def)
qed

lemma script_remove_touches:
  assumes "scripts_ok (st, files)" and "script_remove st d s = (r, s')"
  shows "touches files (\<lambda>q. q = components (script_path st d)) s s'"
proof -
  have contract: "hostfs_contract (sc_fs st) files"
    using assms(1) by (simp add: scripts_ok_def)
  have "\<exists>q. hf_remove_file (sc_fs st) (script_path st d) s = (q, s')"
    using assms(2) by (auto simp: script_remove_def split: prod.splits sum.splits io_error.splits)
  then show ?thesis
    using contract_remove(1) [OF contract] by (auto simp: touches_def)
qed

definition script_area :: "'s script_store \<Rightarrow> string set \<Rightarrow> component list \<Rightarrow> bool" where
  "script_area st ds q \<longleftrightarrow> (\<exists>d \<in> ds. good_digest d \<and> q = components (script_path st d))"

lemma remove_scripts_touches:
  assumes "scripts_ok (st, files)"
  shows "touches files (script_area st (set ds)) s (remove_scripts st ds s)"
proof (induction ds arbitrary: s)
  case (Cons d ds)
  have first: "touches files (script_area st (set (d # ds))) s
      (case parse_digest d of Inr d' \<Rightarrow> snd (script_remove st d' s) | Inl _ \<Rightarrow> s)"
  proof (cases "parse_digest d")
    case (Inr d')
    then have d: "d' = d" "good_digest d"
      by (auto simp: parse_digest_ok good_digest_def)
    obtain r1 s1 where s1: "script_remove st d s = (r1, s1)"
      by fastforce
    have "touches files (script_area st (set (d # ds))) s s1"
      by (rule touches_mono [OF script_remove_touches [OF assms s1]]) (simp add: script_area_def d(2))
    then show ?thesis
      using Inr d(1) s1 by simp
  qed simp
  have "touches files (script_area st (set (d # ds))) s1 (remove_scripts st ds s1)" for s1
    by (rule touches_mono [OF Cons.IH]) (auto simp: script_area_def)
  then show ?case
    using touches_trans [OF first] by simp
qed (simp add: touches_def)

text \<open>What each of the four steps leaves behind, in the order of the code.\<close>

definition tenant_area :: "('s, 'c) host \<Rightarrow> string \<Rightarrow> string set \<Rightarrow> component list \<Rightarrow> bool" where
  "tenant_area h tid ds q \<longleftrightarrow> token_area (ho_tokens h) q \<or> q = components (tenant_path (ho_tenants h) tid)
     \<or> (\<exists>st. ho_secrets h = Some st \<and> q = components (secret_path st tid)) \<or> script_area (ho_scripts h) ds q"

definition no_access :: "('s, 'c) host \<Rightarrow> 's files \<Rightarrow> string \<Rightarrow> 's \<Rightarrow> bool" where
  "no_access h files tid s \<longleftrightarrow>
     (\<exists>ts. token_view (ho_tokens h, files) () s = Some ts \<and> (\<forall>x \<in> set ts. token_tenant x \<noteq> Some tid))
     \<and> (\<forall>st. ho_secrets h = Some st \<longrightarrow> files s (components (secret_path st tid)) = None)"

text \<open>The answer of a run: where it stopped.\<close>

lemma delete_tenant_stages:
  assumes run: "delete_tenant h tid s = (r, s')"
  obtains (refused) "s' = s" and "\<not> is_ok r"
  | (at_tokens) e where "revoke_tenants (ho_tokens h) tid (snd (ho_stop h tid s)) = (Inl e, s')" and "\<not> is_ok r"
      and "valid_tenant_id tid"
  | (at_secrets) n s2 st e where "revoke_tenants (ho_tokens h) tid (snd (ho_stop h tid s)) = (Inr n, s2)"
      and "ho_secrets h = Some st" and "secret_remove_tenant st tid s2 = (Inl e, s')" and "\<not> is_ok r" and "valid_tenant_id tid"
  | (at_record) n s2 s3 e where "revoke_tenants (ho_tokens h) tid (snd (ho_stop h tid s)) = (Inr n, s2)"
      and "case ho_secrets h of Some st \<Rightarrow> secret_remove_tenant st tid s2 = (Inr (), s3) | None \<Rightarrow> s3 = s2"
      and "tenant_remove (ho_tenants h) tid s3 = (Inl e, s')" and "\<not> is_ok r" and "valid_tenant_id tid"
  | (gone) n s2 s3 s4 t removed where "revoke_tenants (ho_tokens h) tid (snd (ho_stop h tid s)) = (Inr n, s2)"
      and "case ho_secrets h of Some st \<Rightarrow> secret_remove_tenant st tid s2 = (Inr (), s3) | None \<Rightarrow> s3 = s2"
      and "tenant_remove (ho_tenants h) tid s3 = (Inr removed, s4)"
      and "r = Inr (t, case removed of Some ds \<Rightarrow> ds | None \<Rightarrow> [], fst (ho_stop h tid s))"
      and "s' = ho_drop_cgroup h tid (remove_scripts (ho_scripts h) (case removed of Some ds \<Rightarrow> ds | None \<Rightarrow> []) s4)"
      and "tenant_get (ho_tenants h) tid s = Inr (Some t)" and "valid_tenant_id tid"
proof (cases "\<exists>t. tenant_get (ho_tenants h) tid s = Inr (Some t)")
  case False
  then have "s' = s \<and> \<not> is_ok r"
    using run by (cases "tenant_get (ho_tenants h) tid s"; cases r)
      (auto simp: delete_tenant_def and_do_def look_def fail_with_def split: option.splits)
  then show ?thesis
    using refused by blast
next
  case True
  then obtain t where t: "tenant_get (ho_tenants h) tid s = Inr (Some t)"
    by blast
  then have valid: "valid_tenant_id tid"
    by (auto simp: tenant_get_def result_simps check_tenant_id_def split: if_splits)
  let ?s1 = "snd (ho_stop h tid s)"
  obtain q2 s2 where q2: "revoke_tenants (ho_tokens h) tid ?s1 = (q2, s2)"
    by fastforce
  show ?thesis
  proof (cases q2)
    case (Inl e)
    then show ?thesis
      using run t q2 valid by (intro at_tokens [of e]) (auto simp: delete_tenant_def and_do_def look_def answering_def)
  next
    case q2i: (Inr n)
    obtain q3 s3 where q3: "(case ho_secrets h of Some st \<Rightarrow> secret_remove_tenant st tid | None \<Rightarrow> return_ok ()) s2 = (q3, s3)"
      by fastforce
    show ?thesis
    proof (cases q3)
      case (Inl e)
      then obtain st where "ho_secrets h = Some st" "secret_remove_tenant st tid s2 = (Inl e, s3)"
        using q3 by (cases "ho_secrets h") (auto simp: return_ok_def)
      then show ?thesis
        using run t q2 q2i valid by (intro at_secrets [of n s2 st e]) (auto simp: delete_tenant_def and_do_def look_def answering_def)
    next
      case q3i: (Inr u)
      then have s3: "case ho_secrets h of Some st \<Rightarrow> secret_remove_tenant st tid s2 = (Inr (), s3) | None \<Rightarrow> s3 = s2"
        using q3 by (cases "ho_secrets h") (auto simp: return_ok_def)
      then have mid: "(case ho_secrets h of Some st \<Rightarrow> answering CallFailed (secret_remove_tenant st tid) | None \<Rightarrow> return_ok ()) s2
          = (Inr (), s3)"
        by (cases "ho_secrets h") (auto simp: return_ok_def answering_def)
      obtain q4 s4 where q4: "tenant_remove (ho_tenants h) tid s3 = (q4, s4)"
        by fastforce
      show ?thesis
      proof (cases q4)
        case (Inl e)
        then show ?thesis
          using run t q2 q2i mid s3 q4 valid
          by (intro at_record [of n s2 s3 e]) (auto simp: delete_tenant_def and_do_def look_def answering_def)
      next
        case (Inr removed)
        then show ?thesis
          using run t q2 q2i mid s3 q4 valid
          by (intro gone [of n s2 s3 removed s4 t]) (auto simp: delete_tenant_def and_do_def look_def answering_def Let_def)
      qed
    qed
  qed
qed

lemma own_ids_cong:
  assumes "own_ids (st, files) s"
    and "\<And>i. valid_tenant_id i \<Longrightarrow> files s' (components (tenant_path st i)) = files s (components (tenant_path st i))"
  shows "own_ids (st, files) s'"
proof -
  have "tenant_view (st, files) i s' = tenant_view (st, files) i s" if "valid_tenant_id i" for i
    by (rule tenant_view_cong) (rule assms(2) [OF that])
  then show ?thesis
    using assms(1) by (simp add: own_ids_def)
qed

lemma revoked_area:
  assumes ok: "tenancy_ok (h, files)" and run: "revoke_tenants (ho_tokens h) tid (snd (ho_stop h tid s)) = (q, s2)"
  shows "touches files (token_area (ho_tokens h)) s s2"
    and "q = Inr n \<Longrightarrow> \<exists>ts. token_view (ho_tokens h, files) () s = Some ts
      \<and> token_view (ho_tokens h, files) () s2 = Some (filter (\<lambda>t. token_tenant t \<noteq> Some tid) ts)"
    and "q = Inl e \<Longrightarrow> token_view (ho_tokens h, files) () s2 = token_view (ho_tokens h, files) () s"
proof -
  let ?s1 = "snd (ho_stop h tid s)"
  have same: "files ?s1 = files s"
    by (rule tenancy_okD(5) [OF ok])
  have view: "token_view (ho_tokens h, files) () ?s1 = token_view (ho_tokens h, files) () s"
    by (rule token_view_cong) (simp add: same)
  show "touches files (token_area (ho_tokens h)) s s2"
    using revoke_tenants_spec(3) [OF tenancy_okD(2) [OF ok] run] same by (simp add: touches_def token_area_def)
  show "q = Inr n \<Longrightarrow> \<exists>ts. token_view (ho_tokens h, files) () s = Some ts
      \<and> token_view (ho_tokens h, files) () s2 = Some (filter (\<lambda>t. token_tenant t \<noteq> Some tid) ts)"
    and "q = Inl e \<Longrightarrow> token_view (ho_tokens h, files) () s2 = token_view (ho_tokens h, files) () s"
    using revoke_tenants_spec(1,2) [OF tenancy_okD(2) [OF ok] run] view by auto
qed

lemma secrets_removed:
  assumes ok: "tenancy_ok (h, files)" and run: "secret_remove_tenant st tid s = (q, s')" and st: "ho_secrets h = Some st"
  shows "files s' = (if is_ok q then (files s)(components (secret_path st tid) := None) else files s)"
  using remove_if_there_removes [OF secrets_okD(1) [OF tenancy_okD(4) [OF ok st]]] run by (simp add: secret_remove_tenant_def)

text \<open>Up to the point where the record goes: tokens filtered, secrets gone, nothing else touched.\<close>

lemma before_record:
  assumes ok: "tenancy_ok (h, files)" and valid: "valid_tenant_id tid"
    and rv: "revoke_tenants (ho_tokens h) tid (snd (ho_stop h tid s)) = (Inr n, s2)"
    and sec: "case ho_secrets h of Some st \<Rightarrow> secret_remove_tenant st tid s2 = (Inr (), s3) | None \<Rightarrow> s3 = s2"
  shows "touches files (tenant_area h tid {}) s s3"
    and "valid_tenant_id i \<Longrightarrow> files s3 (components (tenant_path (ho_tenants h) i)) = files s (components (tenant_path (ho_tenants h) i))"
    and "\<exists>ts. token_view (ho_tokens h, files) () s = Some ts
      \<and> token_view (ho_tokens h, files) () s3 = Some (filter (\<lambda>t. token_tenant t \<noteq> Some tid) ts)"
    and "ho_secrets h = Some st \<Longrightarrow> files s3 (components (secret_path st tid)) = None"
proof -
  note area = revoked_area(1) [OF ok rv]
  have two: "files s3 = (case ho_secrets h of Some st \<Rightarrow> (files s2)(components (secret_path st tid) := None) | None \<Rightarrow> files s2)"
    using secrets_removed [OF ok] sec by (cases "ho_secrets h") auto
  show "touches files (tenant_area h tid {}) s s3"
    using area two by (cases "ho_secrets h") (auto simp: touches_def tenant_area_def)
  show "valid_tenant_id i \<Longrightarrow> files s3 (components (tenant_path (ho_tenants h) i)) = files s (components (tenant_path (ho_tenants h) i))"
    using area two stores_apart(1) [OF ok, of i] stores_apart(4) [OF ok _ valid, of _ i]
    by (cases "ho_secrets h") (auto simp: touches_def)
  have "files s3 (components (ts_path (ho_tokens h))) = files s2 (components (ts_path (ho_tokens h)))"
    using two stores_apart(8) [OF ok _ valid] by (cases "ho_secrets h") auto
  then have "token_view (ho_tokens h, files) () s3 = token_view (ho_tokens h, files) () s2"
    by (rule token_view_cong)
  then show "\<exists>ts. token_view (ho_tokens h, files) () s = Some ts
      \<and> token_view (ho_tokens h, files) () s3 = Some (filter (\<lambda>t. token_tenant t \<noteq> Some tid) ts)"
    using revoked_area(2) [OF ok rv refl] by simp
  show "ho_secrets h = Some st \<Longrightarrow> files s3 (components (secret_path st tid)) = None"
    using two by simp
qed

text \<open>Nothing that acts for a tenant: no live token of it, and no secret of it on the disk.\<close>

definition nothing_left :: "('s, 'c) host \<Rightarrow> 's files \<Rightarrow> string \<Rightarrow> 's \<Rightarrow> bool" where
  "nothing_left h files tid s \<longleftrightarrow>
     (\<forall>secret x. resolve_token (ho_tokens h) secret s = Inr (Some x) \<longrightarrow> token_tenant x \<noteq> Some tid)
     \<and> (\<forall>st. ho_secrets h = Some st \<longrightarrow> files s (components (secret_path st tid)) = None)"

lemma no_access_nothing_left:
  assumes ok: "tenancy_ok (h, files)" and no: "no_access h files tid s"
  shows "nothing_left h files tid s"
  unfolding nothing_left_def
proof (intro conjI allI impI)
  fix secret x
  assume res: "resolve_token (ho_tokens h) secret s = Inr (Some x)"
  obtain ts where ts: "token_view (ho_tokens h, files) () s = Some ts" "\<forall>x \<in> set ts. token_tenant x \<noteq> Some tid"
    using no unfolding no_access_def by blast
  have "live (token_hash (ho_tokens h) secret) ts = Some x"
    using resolve_view [OF tenancy_okD(2) [OF ok] ts(1) res] by simp
  then have "x \<in> set ts"
    by (auto simp: live_def find_Some_iff)
  then show "token_tenant x \<noteq> Some tid"
    using ts(2) by blast
next
  show "files s (components (secret_path st tid)) = None" if "ho_secrets h = Some st" for st
    using no that unfolding no_access_def by blast
qed

text \<open>The record and the scripts go last, and take nothing of the other stores.\<close>

lemma after_record:
  assumes ok: "tenancy_ok (h, files)" and valid: "valid_tenant_id tid"
    and t4: "touches files (\<lambda>q. q = components (tenant_path (ho_tenants h) tid)) s3 s4"
    and t5: "touches files (script_area (ho_scripts h) ds) s4 s'"
    and no: "no_access h files tid s3"
  shows "no_access h files tid s'"
proof -
  have keep: "files s' q = files s3 q" if "q \<noteq> components (tenant_path (ho_tenants h) tid)" "\<not> script_area (ho_scripts h) ds q" for q
    using t4 t5 that by (simp add: touches_def)
  have "files s' (components (ts_path (ho_tokens h))) = files s3 (components (ts_path (ho_tokens h)))"
    using stores_apart(7) [OF ok valid] stores_apart(9) [OF ok] by (intro keep) (auto simp: script_area_def)
  then have "token_view (ho_tokens h, files) () s' = token_view (ho_tokens h, files) () s3"
    by (rule token_view_cong)
  moreover have "files s' (components (secret_path st tid)) = files s3 (components (secret_path st tid))"
    if "ho_secrets h = Some st" for st
    using stores_apart(4) [OF ok that valid valid] stores_apart(5) [OF ok that valid] by (intro keep) (auto simp: script_area_def)
  ultimately show ?thesis
    using no by (simp add: no_access_def)
qed

lemma deleted:
  assumes ok: "tenancy_ok (h, files)" and own: "own_ids (ho_tenants h, files) s"
    and run: "delete_tenant h tid s = (r, s')"
  shows "touches files (tenant_area h tid (case r of Inr (t, ds, stopped) \<Rightarrow> set ds | Inl e \<Rightarrow> {})) s s'"
    and "is_ok r \<Longrightarrow> tenant_view (ho_tenants h, files) tid s' = Some None \<and> no_access h files tid s'"
    and "\<not> is_ok r \<Longrightarrow> valid_tenant_id tid \<Longrightarrow>
      tenant_view (ho_tenants h, files) tid s' = tenant_view (ho_tenants h, files) tid s"
    and "token_view (ho_tokens h, files) () s = Some ts \<Longrightarrow>
      token_view (ho_tokens h, files) () s' = Some ts
      \<or> token_view (ho_tokens h, files) () s' = Some (filter (\<lambda>t. token_tenant t \<noteq> Some tid) ts)"
proof -
  have all: "touches files (tenant_area h tid (case r of Inr (t, ds, stopped) \<Rightarrow> set ds | Inl e \<Rightarrow> {})) s s'
    \<and> (is_ok r \<longrightarrow> tenant_view (ho_tenants h, files) tid s' = Some None \<and> no_access h files tid s')
    \<and> (\<not> is_ok r \<longrightarrow> valid_tenant_id tid \<longrightarrow> tenant_view (ho_tenants h, files) tid s' = tenant_view (ho_tenants h, files) tid s)
    \<and> (\<forall>ts. token_view (ho_tokens h, files) () s = Some ts \<longrightarrow> token_view (ho_tokens h, files) () s' = Some ts
        \<or> token_view (ho_tokens h, files) () s' = Some (filter (\<lambda>t. token_tenant t \<noteq> Some tid) ts))"
    using run
  proof (cases rule: delete_tenant_stages)
    case refused
    then show ?thesis
      by simp
  next
    case (at_tokens e)
    note area = revoked_area(1) [OF ok at_tokens(1)]
    have "files s' (components (tenant_path (ho_tenants h) tid)) = files s (components (tenant_path (ho_tenants h) tid))"
      using area stores_apart(1) [OF ok at_tokens(3)] by (simp add: touches_def)
    then have "tenant_view (ho_tenants h, files) tid s' = tenant_view (ho_tenants h, files) tid s"
      by (rule tenant_view_cong)
    then show ?thesis
      using at_tokens(2) revoked_area(3) [OF ok at_tokens(1) refl] touches_mono [OF area, of "tenant_area h tid _"]
      by (auto simp: tenant_area_def)
  next
    case (at_secrets n s2 st e)
    note area = revoked_area(1,2) [OF ok at_secrets(1)]
    have same: "files s' = files s2"
      using secrets_removed [OF ok at_secrets(3,2)] by simp
    have "files s' (components (tenant_path (ho_tenants h) tid)) = files s (components (tenant_path (ho_tenants h) tid))"
      using area(1) stores_apart(1) [OF ok at_secrets(5)] same by (simp add: touches_def)
    then have "tenant_view (ho_tenants h, files) tid s' = tenant_view (ho_tenants h, files) tid s"
      by (rule tenant_view_cong)
    moreover have "token_view (ho_tokens h, files) () s' = token_view (ho_tokens h, files) () s2"
      by (rule token_view_cong) (simp add: same)
    moreover have "touches files (tenant_area h tid X) s s'" for X
      using area(1) same by (simp add: touches_def tenant_area_def)
    ultimately show ?thesis
      using at_secrets(4) area(2) [OF refl] by auto
  next
    case (at_record n s2 s3 e)
    note before = before_record [OF ok at_record(5) at_record(1,2)]
    note rm = tenant_remove_touches [OF tenancy_okD(1) [OF ok] at_record(3)]
    have own3: "own_ids (ho_tenants h, files) s3"
      by (rule own_ids_cong [OF own before(2)])
    have "tenant_view (ho_tenants h, files) tid s' = tenant_view (ho_tenants h, files) tid s"
      using remove_spec(4) [OF tenancy_okD(1) [OF ok] own3 at_record(3) refl at_record(5)]
        tenant_view_cong [of files s3 "ho_tenants h" tid s] before(2) [OF at_record(5)] by simp
    moreover have "token_view (ho_tokens h, files) () s' = token_view (ho_tokens h, files) () s3"
      using rm stores_apart(7) [OF ok at_record(5)] by (intro token_view_cong) (simp add: touches_def)
    moreover have "touches files (tenant_area h tid {}) s s'"
      using touches_trans [OF before(1) touches_mono [OF rm]] by (simp add: tenant_area_def)
    ultimately show ?thesis
      using at_record(4) before(3) by (cases r) (auto simp: result_simps)
  next
    case (gone n s2 s3 s4 t removed)
    let ?ds = "case removed of Some ds \<Rightarrow> ds | None \<Rightarrow> []"
    note before = before_record [OF ok gone(7) gone(1,2)]
    note rm = tenant_remove_touches [OF tenancy_okD(1) [OF ok] gone(3)]
    have own3: "own_ids (ho_tenants h, files) s3"
      by (rule own_ids_cong [OF own before(2)])
    have scripts: "touches files (script_area (ho_scripts h) (set ?ds)) s4 s'"
      using remove_scripts_touches [OF tenancy_okD(3) [OF ok], of ?ds s4] tenancy_okD(6) [OF ok] gone(5)
      by (simp add: touches_def)
    have view4: "tenant_view (ho_tenants h, files) tid s4 = Some None"
      using remove_spec(2,3) [OF tenancy_okD(1) [OF ok] own3 gone(3)] by (cases removed) auto
    have "files s' (components (tenant_path (ho_tenants h) tid)) = files s4 (components (tenant_path (ho_tenants h) tid))"
      using scripts stores_apart(6) [OF ok gone(7)] by (auto simp: touches_def script_area_def)
    then have view: "tenant_view (ho_tenants h, files) tid s' = Some None"
      using tenant_view_cong view4 by metis
    have no3: "no_access h files tid s3"
      using before(3,4) by (auto simp: no_access_def)
    note no = after_record [OF ok gone(7) rm scripts no3]
    have "files s' (components (ts_path (ho_tokens h))) = files s3 (components (ts_path (ho_tokens h)))"
      using rm scripts stores_apart(7) [OF ok gone(7)] stores_apart(9) [OF ok] by (auto simp: touches_def script_area_def)
    then have tokens: "token_view (ho_tokens h, files) () s' = token_view (ho_tokens h, files) () s3"
      by (rule token_view_cong)
    have a: "touches files (tenant_area h tid (set ?ds)) s s3"
      by (rule touches_mono [OF before(1)]) (auto simp: tenant_area_def script_area_def)
    have b: "touches files (tenant_area h tid (set ?ds)) s3 s4"
      by (rule touches_mono [OF rm]) (simp add: tenant_area_def)
    have c: "touches files (tenant_area h tid (set ?ds)) s4 s'"
      by (rule touches_mono [OF scripts]) (simp add: tenant_area_def)
    obtain ts where ts: "token_view (ho_tokens h, files) () s = Some ts"
      "token_view (ho_tokens h, files) () s' = Some (filter (\<lambda>t. token_tenant t \<noteq> Some tid) ts)"
      using before(3) tokens by auto
    show ?thesis
      using touches_trans [OF touches_trans [OF a b] c] view no by (simp add: gone(4) ts)
  qed
  then show "touches files (tenant_area h tid (case r of Inr (t, ds, stopped) \<Rightarrow> set ds | Inl e \<Rightarrow> {})) s s'"
    and "is_ok r \<Longrightarrow> tenant_view (ho_tenants h, files) tid s' = Some None \<and> no_access h files tid s'"
    and "\<not> is_ok r \<Longrightarrow> valid_tenant_id tid \<Longrightarrow>
      tenant_view (ho_tenants h, files) tid s' = tenant_view (ho_tenants h, files) tid s"
    and "token_view (ho_tokens h, files) () s = Some ts \<Longrightarrow>
      token_view (ho_tokens h, files) () s' = Some ts
      \<or> token_view (ho_tokens h, files) () s' = Some (filter (\<lambda>t. token_tenant t \<noteq> Some tid) ts)"
    by blast+
qed

text \<open>The scripts the answer names are of the record of the tenant it names.\<close>

lemma deleted_names:
  assumes ok: "tenancy_ok (h, files)" and own: "own_ids (ho_tenants h, files) s"
    and run: "delete_tenant h tid s = (Inr (t, ds, stopped), s')"
  shows "tenant_view (ho_tenants h, files) tid s = Some (Some t) \<and> set ds \<subseteq> set (tn_scripts t)"
  using run
proof (cases rule: delete_tenant_stages)
  case (gone n s2 s3 s4 t' removed)
  note before = before_record [OF ok gone(7) gone(1,2)]
  have own3: "own_ids (ho_tenants h, files) s3"
    by (rule own_ids_cong [OF own before(2)])
  have t: "t' = t" and ds: "ds = (case removed of Some ds \<Rightarrow> ds | None \<Rightarrow> [])"
    using gone(4) by simp_all
  have view: "tenant_view (ho_tenants h, files) tid s = Some (Some t)"
    using tenant_get_view(1) [OF tenancy_okD(1) [OF ok] gone(6)] t by simp
  then have "tenant_view (ho_tenants h, files) tid s3 = Some (Some t)"
    using tenant_view_cong [of files s3 "ho_tenants h" tid s] before(2) [OF gone(7)] by simp
  then have "set ds \<subseteq> set (tn_scripts t)"
    using remove_spec(3) [OF tenancy_okD(1) [OF ok] own3 gone(3)] ds
    by (cases removed) (auto simp: set_orphaned)
  with view show ?thesis by blast
qed simp_all

text \<open>
  C25. A tenant that is gone has left nothing that acts for it. When deleting it succeeds, its record
  is gone, no token acts for it and, on a host that has a secret store, no secret of it is on
  the disk; when it fails at any step, the record is still there, so there is never a tenant
  nobody can see whose key opens the door. The other tenants' records and secrets and the tokens
  of others are what they were; and so is every script the answer does not name, while those
  it names are of the deleted tenant's record (which of them is decided by \<open>tenant_remove\<close>, from
  the records it can read).
\<close>

theorem deleted_tenant_leaves_nothing:
  assumes ok: "tenancy_ok (h, files)" and own: "own_ids (ho_tenants h, files) s" and valid: "valid_tenant_id tid"
    and run: "delete_tenant h tid s = (r, s')"
  shows "(is_ok r \<longrightarrow> tenant_view (ho_tenants h, files) tid s' = Some None \<and> nothing_left h files tid s')
    \<and> (\<not> is_ok r \<longrightarrow> tenant_view (ho_tenants h, files) tid s' = tenant_view (ho_tenants h, files) tid s)
    \<and> (\<forall>i. valid_tenant_id i \<and> i \<noteq> tid \<longrightarrow>
        tenant_view (ho_tenants h, files) i s' = tenant_view (ho_tenants h, files) i s
        \<and> (\<forall>st. ho_secrets h = Some st \<longrightarrow> secret_view (st, files) i s' = secret_view (st, files) i s))
    \<and> (\<forall>ts. token_view (ho_tokens h, files) () s = Some ts \<longrightarrow>
        (\<exists>ts'. token_view (ho_tokens h, files) () s' = Some ts' \<and>
          filter (\<lambda>t. token_tenant t \<noteq> Some tid) ts' = filter (\<lambda>t. token_tenant t \<noteq> Some tid) ts))
    \<and> (\<forall>d. good_digest d \<and> (\<forall>t ds stopped. r = Inr (t, ds, stopped) \<longrightarrow> d \<notin> set ds) \<longrightarrow>
        files s' (components (script_path (ho_scripts h) d)) = files s (components (script_path (ho_scripts h) d)))
    \<and> (\<forall>t ds stopped. r = Inr (t, ds, stopped) \<longrightarrow>
        tenant_view (ho_tenants h, files) tid s = Some (Some t) \<and> set ds \<subseteq> set (tn_scripts t))"
proof (intro conjI impI allI)
  show "tenant_view (ho_tenants h, files) tid s = Some (Some t)" "set ds \<subseteq> set (tn_scripts t)"
    if "r = Inr (t, ds, stopped)" for t ds stopped
    using deleted_names [OF ok own] run that by blast+
next
  note del = deleted [OF ok own run]
  let ?ds = "case r of Inr (t, ds, stopped) \<Rightarrow> set ds | Inl e \<Rightarrow> {}"
  have keep: "files s' q = files s q" if "\<not> tenant_area h tid ?ds q" for q
    using del(1) that by (simp add: touches_def)
  show "tenant_view (ho_tenants h, files) tid s' = Some None" "nothing_left h files tid s'" if "is_ok r"
    using del(2) [OF that] no_access_nothing_left [OF ok] by blast+
  show "tenant_view (ho_tenants h, files) tid s' = tenant_view (ho_tenants h, files) tid s" if "\<not> is_ok r"
    by (rule del(3) [OF that valid])
  show "tenant_view (ho_tenants h, files) i s' = tenant_view (ho_tenants h, files) i s" if "valid_tenant_id i \<and> i \<noteq> tid" for i
    using that stores_apart(1) [OF ok, of i] stores_apart(6) [OF ok, of i] stores_apart(4) [OF ok _ valid, of _ i]
      tenant_components(4) [OF tenancy_okD(1) [OF ok], of i tid] valid
    by (intro tenant_view_cong keep) (fastforce simp: tenant_area_def script_area_def)
  show "secret_view (st, files) i s' = secret_view (st, files) i s" if i: "valid_tenant_id i \<and> i \<noteq> tid" and st: "ho_secrets h = Some st" for i st
    using i stores_apart(2) [OF ok st, of i] stores_apart(4) [OF ok st _ valid, of i] stores_apart(5) [OF ok st, of i]
      secret_components(2) [OF tenancy_okD(4) [OF ok st], of i tid] valid st
    by (intro secret_view_cong keep) (auto simp: tenant_area_def script_area_def)
  show "\<exists>ts'. token_view (ho_tokens h, files) () s' = Some ts' \<and>
      filter (\<lambda>t. token_tenant t \<noteq> Some tid) ts' = filter (\<lambda>t. token_tenant t \<noteq> Some tid) ts"
    if "token_view (ho_tokens h, files) () s = Some ts" for ts
    using del(4) [OF that] by auto
  show "files s' (components (script_path (ho_scripts h) d)) = files s (components (script_path (ho_scripts h) d))"
    if d: "good_digest d \<and> (\<forall>t ds stopped. r = Inr (t, ds, stopped) \<longrightarrow> d \<notin> set ds)" for d
  proof (rule keep)
    have "\<not> script_area (ho_scripts h) ?ds (components (script_path (ho_scripts h) d))"
      using d script_components(3) [OF tenancy_okD(3) [OF ok], of d] by (fastforce simp: script_area_def split: sum.splits)
    then show "\<not> tenant_area h tid ?ds (components (script_path (ho_scripts h) d))"
      using d stores_apart(3) [OF ok, of d] stores_apart(5) [OF ok _ valid, of _ d] stores_apart(6) [OF ok valid, of d]
      by (auto simp: tenant_area_def)
  qed
qed

section \<open>What a request is given\<close>

lemma open_named_values:
  assumes "open_named st tenant m names out = Inr r"
  shows "n \<in> set names \<Longrightarrow> map_of m n = Some v \<Longrightarrow> \<exists>plain. open_secret st tenant n v = Inr plain \<and> map_of r n = Some plain"
    and "n \<notin> set names \<or> map_of m n = None \<Longrightarrow> map_of r n = map_of out n"
proof -
  have "(\<forall>v. n \<in> set names \<and> map_of m n = Some v \<longrightarrow> (\<exists>plain. open_secret st tenant n v = Inr plain \<and> map_of r n = Some plain))
    \<and> (n \<notin> set names \<or> map_of m n = None \<longrightarrow> map_of r n = map_of out n)"
    using assms
  proof (induction names arbitrary: out)
    case (Cons a names)
    show ?case
    proof (cases "map_of m a")
      case None
      then show ?thesis
        using Cons.IH [of out] Cons.prems by auto
    next
      case (Some w)
      then obtain plain where p: "open_secret st tenant a w = Inr plain" "open_named st tenant m names (bt_insert a plain out) = Inr r"
        using Cons.prems by (auto simp: result_simps)
      show ?thesis
        using Cons.IH [OF p(2)] p(1) Some by (cases "n = a"; cases "n \<in> set names") (auto simp: map_of_bt_insert)
    qed
  qed simp
  then show "n \<in> set names \<Longrightarrow> map_of m n = Some v \<Longrightarrow> \<exists>plain. open_secret st tenant n v = Inr plain \<and> map_of r n = Some plain"
    and "n \<notin> set names \<or> map_of m n = None \<Longrightarrow> map_of r n = map_of out n"
    by blast+
qed

lemma pool_secrets:
  assumes ok: "tenancy_ok (h, files)" and run: "secrets_for_pool_request h names tenant s = Inr (Some vals)"
  obtains st m where "ho_secrets h = Some st"
    and "secret_view (st, files) (case tenant of Some t \<Rightarrow> t | None \<Rightarrow> DEFAULT_TENANT) s = Some m"
    and "\<And>n v. map_of vals n = Some v \<longleftrightarrow> n \<in> set names \<and>
      (\<exists>x. map_of m n = Some x \<and> open_secret st (case tenant of Some t \<Rightarrow> t | None \<Rightarrow> DEFAULT_TENANT) n x = Inr v)"
    and "\<And>n. n \<in> set names \<Longrightarrow> map_of vals n \<noteq> None" and "names \<noteq> []"
proof -
  let ?t = "case tenant of Some t \<Rightarrow> t | None \<Rightarrow> DEFAULT_TENANT"
  obtain st where st: "ho_secrets h = Some st" "secret_values_named st ?t names s = Inr vals"
    and all: "filter (\<lambda>n. map_of vals n = None) names = []" and ne: "names \<noteq> []"
    using run by (cases "ho_secrets h")
      (auto simp: secrets_for_pool_request_def secrets_or_refuse_def result_simps Let_def split: if_splits)
  obtain m where m: "secret_read st ?t s = Inr m" "open_named st ?t m names [] = Inr vals"
    using st(2) by (auto simp: secret_values_named_def result_simps)
  note view = secret_read_view(1) [OF tenancy_okD(4) [OF ok st(1)] m(1)]
  have iff: "map_of vals n = Some v \<longleftrightarrow> n \<in> set names \<and> (\<exists>x. map_of m n = Some x \<and> open_secret st ?t n x = Inr v)" for n v
  proof (cases "n \<in> set names \<and> map_of m n \<noteq> None")
    case True
    then obtain x where "map_of m n = Some x"
      by blast
    then show ?thesis
      using open_named_values(1) [OF m(2), of n x] True by auto
  next
    case False
    then show ?thesis
      using open_named_values(2) [OF m(2), of n] by auto
  qed
  have "map_of vals n \<noteq> None" if "n \<in> set names" for n
    using all that by (auto simp: filter_empty_conv)
  then show thesis
    using that [OF st(1) view iff] ne by blast
qed

text \<open>What a record gives: nothing without one, and nothing when nothing is set in it.\<close>

definition limits_of_record :: "'c tenant option \<Rightarrow> 'c tenant_limits option" where
  "limits_of_record found =
     (case found of Some t \<Rightarrow> if tn_limits t = no_limits then None else Some (tn_limits t) | None \<Rightarrow> None)"

lemma limits_are_the_tenants:
  assumes ok: "tenancy_ok (h, files)" and lim: "limits_for (ho_tenants h) tenant s = Inr limits"
  shows "case tenant of
      None \<Rightarrow> limits = None
    | Some tid \<Rightarrow> \<exists>found. tenant_view (ho_tenants h, files) tid s = Some found \<and> limits = limits_of_record found"
proof (cases tenant)
  case None
  then show ?thesis
    using lim by (simp add: limits_for_def)
next
  case (Some tid)
  obtain found where found: "tenant_get (ho_tenants h) tid s = Inr found"
    using lim Some by (cases "tenant_get (ho_tenants h) tid s") (auto simp: limits_for_def)
  then have "limits = limits_of_record found"
    using lim Some by (cases found) (auto simp: limits_for_def limits_of_record_def limits_empty_def)
  then show ?thesis
    using tenant_get_view(1) [OF tenancy_okD(1) [OF ok] found] Some by simp
qed

lemma secrets_when_named: "secrets_for_pool_request h names tenant s = Inr secrets \<Longrightarrow> secrets = None \<longleftrightarrow> names = []"
  by (cases "ho_secrets h")
    (auto simp: secrets_for_pool_request_def secrets_or_refuse_def result_simps Let_def split: if_splits)

lemma picked_for_request:
  assumes run: "pick_for_request h c names x tenant s zs = (r, zs')"
  shows "\<not> is_ok r \<Longrightarrow> zs' = zs"
    and "r = Inr (Claimed k) \<Longrightarrow> names \<noteq> [] \<Longrightarrow> \<exists>z \<in> set zs. zy_id z = k \<and> zy_healthy z \<and> zy_in_flight z = 0"
proof -
  show "\<not> is_ok r \<Longrightarrow> zs' = zs"
    using run by (auto simp: pick_for_request_def split: sum.splits prod.splits)
  assume r: "r = Inr (Claimed k)" "names \<noteq> []"
  obtain limits x' secrets where prep: "prepare_request h names x tenant s = Inr (limits, x', secrets)"
    using run r by (cases "prepare_request h names x tenant s") (auto simp: pick_for_request_def)
  then have "secrets_for_pool_request h names tenant s = Inr secrets"
    by (auto simp: prepare_request_def result_simps)
  then have "secrets \<noteq> None"
    using r(2) secrets_when_named by metis
  then have p: "fst (pick_locked c True zs) = Claimed k"
    using run r prep by (auto simp: pick_for_request_def split: prod.splits)
  obtain i where i: "choose_seat (map seat_of zs) True = Some i" "k = zy_id (zs ! i)" "i < length zs"
    using p by (cases rule: pick_locked_cases [of c True zs]) auto
  then show "\<exists>z \<in> set zs. zy_id z = k \<and> zy_healthy z \<and> zy_in_flight z = 0"
    using choose_seat_Some(2,3) [OF i(1)] by (intro bexI [of _ "zs ! i"]) (auto simp: seat_of_def)
qed

text \<open>
  C26. Whose request it is decides everything it is given. The limits are exactly those of the calling
  tenant's record, none only for a request without a tenant, for a tenant without a record and for one
  that has nothing set, and a record that cannot be read refuses the request; the secrets are exactly those the pool names, every one of them, opened from
  the calling tenant's own record and no other; and a request that was given secrets is only
  put on an idle zygote, while one that was refused touches none.
\<close>

theorem request_given_its_own:
  assumes ok: "tenancy_ok (h, files)"
  shows "(\<forall>limits x' secrets. prepare_request h names x tenant s = Inr (limits, x', secrets) \<longrightarrow>
        (case tenant of
             None \<Rightarrow> limits = None
           | Some tid \<Rightarrow> \<exists>found. tenant_view (ho_tenants h, files) tid s = Some found
               \<and> limits = (case found of
                   Some t \<Rightarrow> if tn_limits t = no_limits then None else Some (tn_limits t)
                 | None \<Rightarrow> None))
        \<and> (secrets = None \<longleftrightarrow> names = [])
        \<and> (\<forall>vals. secrets = Some vals \<longrightarrow> (\<exists>st m. ho_secrets h = Some st
            \<and> secret_view (st, files) (case tenant of Some t \<Rightarrow> t | None \<Rightarrow> DEFAULT_TENANT) s = Some m
            \<and> dom (map_of vals) = set names
            \<and> (\<forall>n v. map_of vals n = Some v \<longrightarrow> (\<exists>y. map_of m n = Some y
                \<and> open_secret st (case tenant of Some t \<Rightarrow> t | None \<Rightarrow> DEFAULT_TENANT) n y = Inr v)))))
    \<and> (\<forall>r zs'. pick_for_request h c names x tenant s zs = (r, zs') \<longrightarrow>
        (\<not> is_ok r \<longrightarrow> zs' = zs)
        \<and> (\<forall>k. r = Inr (Claimed k) \<and> names \<noteq> [] \<longrightarrow> (\<exists>z \<in> set zs. zy_id z = k \<and> zy_healthy z \<and> zy_in_flight z = 0)))"
proof (intro conjI allI impI)
  fix limits x' secrets
  assume "prepare_request h names x tenant s = Inr (limits, x', secrets)"
  then have lim: "limits_for (ho_tenants h) tenant s = Inr limits" and sec: "secrets_for_pool_request h names tenant s = Inr secrets"
    by (auto simp: prepare_request_def result_simps)
  show "case tenant of
      None \<Rightarrow> limits = None
    | Some tid \<Rightarrow> \<exists>found. tenant_view (ho_tenants h, files) tid s = Some found
        \<and> limits = (case found of Some t \<Rightarrow> if tn_limits t = no_limits then None else Some (tn_limits t) | None \<Rightarrow> None)"
    by (rule limits_are_the_tenants [OF ok lim, unfolded limits_of_record_def])
  show "secrets = None \<longleftrightarrow> names = []"
    by (rule secrets_when_named [OF sec])
  show "\<exists>st m. ho_secrets h = Some st
      \<and> secret_view (st, files) (case tenant of Some t \<Rightarrow> t | None \<Rightarrow> DEFAULT_TENANT) s = Some m
      \<and> dom (map_of vals) = set names
      \<and> (\<forall>n v. map_of vals n = Some v \<longrightarrow> (\<exists>y. map_of m n = Some y
          \<and> open_secret st (case tenant of Some t \<Rightarrow> t | None \<Rightarrow> DEFAULT_TENANT) n y = Inr v))" if "secrets = Some vals" for vals
  proof (rule pool_secrets [OF ok, of names tenant s vals])
    show "secrets_for_pool_request h names tenant s = Inr (Some vals)"
      using sec \<open>secrets = Some vals\<close> by simp
  next
    fix st m
    assume a: "ho_secrets h = Some st" "secret_view (st, files) (case tenant of Some t \<Rightarrow> t | None \<Rightarrow> DEFAULT_TENANT) s = Some m"
      and iff: "\<And>n v. map_of vals n = Some v \<longleftrightarrow> n \<in> set names \<and>
        (\<exists>x. map_of m n = Some x \<and> open_secret st (case tenant of Some t \<Rightarrow> t | None \<Rightarrow> DEFAULT_TENANT) n x = Inr v)"
      and all: "\<And>n. n \<in> set names \<Longrightarrow> map_of vals n \<noteq> None"
    have "dom (map_of vals) = set names"
      using iff all by (auto simp: dom_def)
    then show ?thesis
      using a iff by blast
  qed
next
  fix r zs'
  assume run: "pick_for_request h c names x tenant s zs = (r, zs')"
  show "zs' = zs" if "\<not> is_ok r"
    by (rule picked_for_request(1) [OF run that])
  show "\<exists>z \<in> set zs. zy_id z = k \<and> zy_healthy z \<and> zy_in_flight z = 0" if "r = Inr (Claimed k) \<and> names \<noteq> []" for k
    using picked_for_request(2) [OF run] that by blast
qed

section \<open>A tenant without the check\<close>

lemma mint_touches:
  assumes ok: "tokens_ok (st, files)" and run: "mint st kind s = (r, s')"
  shows "touches files (token_area st) s s'"
proof -
  have contract: "hostfs_contract (ts_fs st) files"
    using ok by (simp add: tokens_ok_def)
  obtain q s1 where q: "hf_random (ts_fs st) 32 s = (q, s1)"
    by fastforce
  have "s' = s \<or> s' = s1 \<or> (\<exists>ts w. token_write st ts s1 = (w, s'))"
    using run q by (cases q; cases "token_list st s1")
      (auto simp: mint_def and_do_def look_def new_secret_def at_def return_ok_def Let_def split: sum.splits prod.splits)
  then show ?thesis
    using contract_random [OF contract q] token_write_view(3) [OF ok] by (auto simp: touches_def token_area_def)
qed

text \<open>
  On a host that cannot keep tenants apart, registering one is refused. Minting a token for a
  tenant registers it all the same.
\<close>

theorem mint_skips_uid_check:
  assumes ok: "tenancy_ok (h, files)" and own: "own_ids (ho_tenants h, files) s"
    and apart: "\<not> uid_separation_or_allowed h" and run: "mint_token h (Some tid) s = (Inr (x, secret), s')"
  shows "create_tenant h tid s = (Inl BadSpec, s)
    \<and> (\<exists>t. tenant_view (ho_tenants h, files) tid s' = Some (Some t)) \<and> tk_kind x = TenantToken tid"
proof (intro conjI)
  show "create_tenant h tid s = (Inl BadSpec, s)"
    using apart by (simp add: create_tenant_def fail_with_def)
  obtain t existed s1 where t: "tenant_create (ho_tenants h) tid s = (Inr (t, existed), s1)"
    and m: "mint (ho_tokens h) (TenantToken tid) s1 = (Inr (x, secret), s')"
    using run by (auto simp: mint_token_def result_simps)
  note created = create_spec(2) [OF tenancy_okD(1) [OF ok] own t refl]
  have "files s' (components (tenant_path (ho_tenants h) tid)) = files s1 (components (tenant_path (ho_tenants h) tid))"
    using mint_touches [OF tenancy_okD(2) [OF ok] m] stores_apart(1) [OF ok] created by (simp add: touches_def)
  then have "tenant_view (ho_tenants h, files) tid s' = tenant_view (ho_tenants h, files) tid s1"
    by (rule tenant_view_cong)
  then show "\<exists>t. tenant_view (ho_tenants h, files) tid s' = Some (Some t)"
    using created by auto
  show "tk_kind x = TenantToken tid"
    using mint_spec(1) [OF tenancy_okD(2) [OF ok] m refl] by blast
qed

section \<open>Instances\<close>

definition demo_token_lists :: "token list list" where
  "demo_token_lists = [[demo_token], [], [demo_token\<lparr>tk_created_ms := 1\<rparr>]]"

definition demo_host :: "(memfs, nat) host" where
  "demo_host = \<lparr>ho_tenants = demo_owners\<lparr>tn_dir := ''/d/tenants''\<rparr>,
     ho_tokens = demo_tokens\<lparr>ts_path := ''/d/tokens.json'', ts_encode := known_encode demo_token_lists,
       ts_decode := known_decode demo_token_lists\<rparr>,
     ho_secrets = Some (demo_secrets\<lparr>ss_dir := ''/d/secrets''\<rparr>), ho_scripts = demo_scripts\<lparr>sc_dir := ''/d/scripts''\<rparr>,
     ho_shared_uid = None, ho_subuid_range = False, ho_stop = (\<lambda>_ s. ([], s)), ho_drop_cgroup = (\<lambda>_ s. s)\<rparr>"

definition demo_record :: "component list \<times> string \<times> nat" where
  "demo_record = ([RootDir, Normal ''d'', Normal ''tenants'', Normal ''acme.json''], [], 420)"

definition demo_disk :: memfs where
  "demo_disk = [demo_record, ([RootDir, Normal ''d'', Normal ''tokens.json''], [], PRIVATE_MODE),
     ([RootDir, Normal ''d'', Normal ''secrets'', Normal ''acme.json''], [], 384)]"

lemma secrets_ok_moved:
  assumes "secrets_ok (st, files)" and "is_absolute d"
  shows "secrets_ok (st\<lparr>ss_dir := d\<rparr>, files)"
proof -
  have eqs: "ss_fs (st\<lparr>ss_dir := d\<rparr>) = ss_fs st" "ss_dir (st\<lparr>ss_dir := d\<rparr>) = d"
    "ss_process (st\<lparr>ss_dir := d\<rparr>) = ss_process st" "ss_encode (st\<lparr>ss_dir := d\<rparr>) = ss_encode st"
    "ss_decode (st\<lparr>ss_dir := d\<rparr>) = ss_decode st" "ss_base64 (st\<lparr>ss_dir := d\<rparr>) = ss_base64 st"
    "ss_unbase64 (st\<lparr>ss_dir := d\<rparr>) = ss_unbase64 st" "ss_encrypt (st\<lparr>ss_dir := d\<rparr>) = ss_encrypt st"
    "ss_decrypt (st\<lparr>ss_dir := d\<rparr>) = ss_decrypt st"
    by simp_all
  show ?thesis
    using assms unfolding secrets_ok_def prod.case eqs by (elim conjE, intro conjI) assumption+
qed

lemma demo_host_ok: "tenancy_ok (demo_host, map_of)"
  unfolding tenancy_ok_def prod.case
proof (intro conjI)
  have paths: "tenants_path (rooted ''/d'') = ''/d/tenants''" "tokens_path (rooted ''/d'') = ''/d/tokens.json''"
    "secrets_path (rooted ''/d'') = ''/d/secrets''" "scripts_path (rooted ''/d'') = ''/d/scripts''"
    "''/d/tokens.json'' = path_join ''/d'' ''tokens.json''"
    by code_simp+
  show "tenants_ok (ho_tenants demo_host, map_of)"
    using demo_owners_ok by (simp add: tenants_ok_def demo_host_def is_absolute_def)
  show "tokens_ok (ho_tokens demo_host, map_of)"
  proof -
    have "hostfs_contract (ts_fs demo_tokens) map_of" "CHR ''/'' \<notin> set (ts_process demo_tokens)"
      using demo_tokens_ok unfolding tokens_ok_def prod.case by blast+
    moreover have "is_absolute ''/d''"
      by (simp add: is_absolute_def)
    ultimately show ?thesis
      unfolding tokens_ok_def prod.case using paths(5) known_codec [of demo_token_lists] by (auto simp: demo_host_def)
  qed
  show "scripts_ok (ho_scripts demo_host, map_of)"
    using demo_scripts_ok by (simp add: scripts_ok_def demo_host_def is_absolute_def digest_of_def)
  show "\<forall>st. ho_secrets demo_host = Some st \<longrightarrow> secrets_ok (st, map_of)"
    using secrets_ok_moved [OF demo_secrets_ok, of "''/d/secrets''"] by (simp add: demo_host_def is_absolute_def)
  show "\<exists>p. is_absolute (zp_data p) \<and> tn_dir (ho_tenants demo_host) = tenants_path p \<and> ts_path (ho_tokens demo_host) = tokens_path p
      \<and> sc_dir (ho_scripts demo_host) = scripts_path p \<and> (\<forall>st. ho_secrets demo_host = Some st \<longrightarrow> ss_dir st = secrets_path p)"
    using paths by (intro exI [of _ "rooted ''/d''"]) (simp add: demo_host_def rooted_def is_absolute_def)
  show "\<forall>tid s. map_of (snd (ho_stop demo_host tid s)) = map_of s \<and> map_of (ho_drop_cgroup demo_host tid s) = map_of s"
    by (simp add: demo_host_def)
qed

lemma demo_host_record:
  assumes "valid_tenant_id k" and "map_of s = map_of (demo_record # rest)"
    and "\<forall>e \<in> set rest. \<forall>n. fst e \<noteq> [RootDir, Normal ''d'', Normal ''tenants'', Normal n]"
  shows "tenant_view (ho_tenants demo_host, map_of) k s = (if k = ''acme'' then Some (Some demo_owner) else Some None)"
proof -
  have "components (tn_dir (ho_tenants demo_host)) = [RootDir, Normal ''d'', Normal ''tenants'']"
    by code_simp
  then have path: "components (tenant_path (ho_tenants demo_host) k) = [RootDir, Normal ''d'', Normal ''tenants'', Normal (k @ ''.json'')]"
    using tenant_components(1) [OF tenancy_okD(1) [OF demo_host_ok] assms(1)] by simp
  have "k @ ''.json'' = ''acme.json'' \<longleftrightarrow> k = ''acme''"
    using append_same_eq [of k "''.json''" "''acme''"] by simp
  moreover have "map_of rest [RootDir, Normal ''d'', Normal ''tenants'', Normal (k @ ''.json'')] = None"
    using assms(3) by (force simp: map_of_eq_None_iff)
  moreover have "tn_decode (ho_tenants demo_host) [] = Some demo_owner"
    by (simp add: demo_host_def demo_owners_def known_decode_def)
  ultimately show ?thesis
    by (simp add: tenant_view_def contents_def path assms(2) demo_record_def)
qed

lemma demo_host_own:
  assumes "map_of s = map_of (demo_record # rest)"
    and "\<forall>e \<in> set rest. \<forall>n. fst e \<noteq> [RootDir, Normal ''d'', Normal ''tenants'', Normal n]"
  shows "own_ids (ho_tenants demo_host, map_of) s"
  using demo_host_record [OF _ assms] by (simp add: own_ids_def demo_owner_def)

theorem deleted_tenant_leaves_nothing_witness:
  "\<exists>x s'. delete_tenant demo_host ''acme'' demo_disk = (Inr x, s') \<and> nothing_left demo_host map_of ''acme'' s'
    \<and> tenant_view (ho_tenants demo_host, map_of) ''acme'' s' = Some None"
proof -
  have "is_ok (fst (delete_tenant demo_host ''acme'' demo_disk))"
    by code_simp
  then obtain x s' where run: "delete_tenant demo_host ''acme'' demo_disk = (Inr x, s')"
    by (cases "delete_tenant demo_host ''acme'' demo_disk") (auto simp: result_simps)
  have own: "own_ids (ho_tenants demo_host, map_of) demo_disk"
    by (rule demo_host_own [of demo_disk "tl demo_disk"]) (simp_all add: demo_disk_def demo_record_def)
  show ?thesis
    using conjunct1 [OF deleted_tenant_leaves_nothing [OF demo_host_ok own demo_ids(1) run]] run by (cases x) auto
qed

theorem mint_skips_uid_check_witness:
  "\<exists>y s'. mint_token demo_host (Some ''acme'') [demo_record] = (Inr y, s')
    \<and> create_tenant demo_host ''acme'' [demo_record] = (Inl BadSpec, [demo_record])"
proof -
  have apart: "\<not> uid_separation_or_allowed demo_host"
    by (simp add: uid_separation_or_allowed_def demo_host_def)
  have own: "own_ids (ho_tenants demo_host, map_of) [demo_record]"
    by (rule demo_host_own [of "[demo_record]" "[]"]) simp_all
  have "is_ok (fst (mint_token demo_host (Some ''acme'') [demo_record]))"
    by code_simp
  then obtain x secret s' where run: "mint_token demo_host (Some ''acme'') [demo_record] = (Inr (x, secret), s')"
    by (cases "mint_token demo_host (Some ''acme'') [demo_record]") (auto simp: result_simps)
  show ?thesis
    using mint_skips_uid_check [OF demo_host_ok own apart run] run by blast
qed

theorem request_given_its_own_witness:
  "\<exists>st vals. ho_secrets demo_host = Some st
    \<and> secrets_for_pool_request demo_host [''KEY''] (Some ''acme'') demo_disk = Inr (Some vals)
    \<and> dom (map_of vals) = {''KEY''}"
proof -
  let ?x = "\<lparr>scr_path = None, scr_source = Some ''pass'', scr_digest = None, scr_entry_point = None\<rparr>"
  have "is_ok (prepare_request demo_host [''KEY''] ?x (Some ''acme'') demo_disk)"
    by code_simp
  then obtain limits x' secrets where run: "prepare_request demo_host [''KEY''] ?x (Some ''acme'') demo_disk = Inr (limits, x', secrets)"
    by (auto simp: result_simps)
  then have sec: "secrets_for_pool_request demo_host [''KEY''] (Some ''acme'') demo_disk = Inr secrets"
    by (auto simp: prepare_request_def result_simps)
  note law = conjunct1 [OF request_given_its_own [OF demo_host_ok], rule_format, OF run]
  have "secrets \<noteq> None"
    using law by blast
  then obtain vals where vals: "secrets = Some vals"
    by blast
  have "\<exists>st m. ho_secrets demo_host = Some st
      \<and> secret_view (st, map_of) (case Some ''acme'' of Some t \<Rightarrow> t | None \<Rightarrow> DEFAULT_TENANT) demo_disk = Some m
      \<and> dom (map_of vals) = set [''KEY'']
      \<and> (\<forall>n v. map_of vals n = Some v \<longrightarrow> (\<exists>y. map_of m n = Some y
          \<and> open_secret st (case Some ''acme'' of Some t \<Rightarrow> t | None \<Rightarrow> DEFAULT_TENANT) n y = Inr v))"
    by (rule mp [OF spec [OF conjunct2 [OF conjunct2 [OF law]]] vals])
  then obtain st where "ho_secrets demo_host = Some st" "dom (map_of vals) = set [''KEY'']"
    by (elim exE conjE) (rule that)
  then show ?thesis
    using sec vals by auto
qed

end
