(* ===== verification/Zygo_Registry.thy ===== *)
theory Zygo_Registry
  imports Zygo_Gate Zygo_Secrets Zygo_Resolve
begin

text \<open>
  The registry of functions and its tiers (\<open>crates/zygo-core/src/supervisor/registry.rs\<close>), how a
  function recovers, idles and cools (\<open>supervisor/lifecycle.rs\<close>), and the path of a request to
  one (\<open>supervisor/exec.rs\<close>).

  Every field of the supervisor has a lock of its own, so what the code does under one lock is
  one step and a command is a thread that makes several. An \<open>Arc<Entry>\<close> is a number, under
  which a store holds the entry: the registry and the threads share entries by number. Starting
  a sandbox and writing to a cgroup are the host's, which may fail. Pausing a sandbox writes the
  freezer of the cgroup of its \<^emph>\<open>function\<close>, which every sandbox of that name is below; what was
  written there is part of the state, what it does to the processes is not. Times are
  milliseconds; logs, status reports and the placing of a request in its sandbox are left out.
\<close>

section \<open>Backoff\<close>

definition REWARM_BACKOFF_BASE :: nat where "REWARM_BACKOFF_BASE = 200"
definition REWARM_BACKOFF_MAX :: nat where "REWARM_BACKOFF_MAX = 30000"

record backoff =
  bo_failures :: nat
  bo_last_attempt :: "nat option"

definition no_failures :: backoff where
  "no_failures = \<lparr>bo_failures = 0, bo_last_attempt = None\<rparr>"

text \<open>A \<open>u32\<close> shifted by 32 places or more is refused.\<close>

definition checked_shl_one :: "nat \<Rightarrow> nat option" where
  "checked_shl_one n = (if n < 32 then Some (2 ^ n) else None)"

definition backoff_delay :: "nat \<Rightarrow> nat" where
  "backoff_delay failures =
     (if failures = 0 then 0
      else min (REWARM_BACKOFF_BASE *
                  (case checked_shl_one (failures - 1) of Some k \<Rightarrow> k | None \<Rightarrow> u32_max))
               REWARM_BACKOFF_MAX)"

definition backoff_ready :: "nat \<Rightarrow> backoff \<Rightarrow> nat + unit" where
  "backoff_ready now b =
     (case bo_last_attempt b of
        None \<Rightarrow> Inr ()
      | Some before \<Rightarrow>
          (let wait = backoff_delay (bo_failures b); elapsed = now - before in
           if elapsed \<ge> wait then Inr () else Inl (wait - elapsed)))"

section \<open>What a function is built from\<close>

type_synonym secrets = "(string \<times> string) list"
type_synonym sources = "(string \<times> string option) list"

text \<open>\<open>digest\<close> is the hash of the file at a path now, \<open>None\<close> for one that cannot be read.\<close>

definition sources_of :: "(string \<Rightarrow> string option) \<Rightarrow> 'c resolved_fn \<Rightarrow> sources" where
  "sources_of digest r =
     map (\<lambda>p. (p, digest p))
       ((case rf_entry r of Some p \<Rightarrow> [p] | None \<Rightarrow> []) @ (case rf_requirements r of Some p \<Rightarrow> [p] | None \<Rightarrow> []))"

datatype sandbox_state = Warm | Paused | Failed

record 'c fn_entry =
  en_resolved :: "'c resolved_fn"
  en_secrets :: secrets
  en_sources :: sources
  en_gate :: gate
  en_registered :: nat
  en_last_used :: nat
  en_state :: sandbox_state
  en_dropped :: bool

definition en_healthy :: "'c fn_entry \<Rightarrow> bool" where
  "en_healthy e \<longleftrightarrow> en_state e \<noteq> Failed"

definition en_idle_for :: "nat \<Rightarrow> 'c fn_entry \<Rightarrow> nat" where
  "en_idle_for now e = now - en_last_used e"

record 'c cold =
  co_resolved :: "'c resolved_fn"
  co_secrets :: secrets
  co_sources :: sources
  co_since :: nat

text \<open>
  The secrets a function is served with: the client's, the stored ones of its tenant where the
  client sent none, every name of the spec and no other.
\<close>

fun fill_in :: "secrets \<Rightarrow> secrets \<Rightarrow> secrets" where
  "fill_in [] m = m"
| "fill_in ((k, v) # stored) m =
     fill_in stored (if map_of m k = None then bt_insert k v m else m)"

definition serve_secrets :: "secrets option \<Rightarrow> string list \<Rightarrow> secrets \<Rightarrow> control_error + secrets" where
  "serve_secrets stored names client =
     (let vals = fill_in (case stored of Some m \<Rightarrow> m | None \<Rightarrow> []) client in
      if filter (\<lambda>n. map_of vals n = None) names \<noteq> [] then Inl BadSpec
      else Inr (filter (\<lambda>e. fst e \<in> set names) vals))"

section \<open>Threads\<close>

text \<open>
  Whose errand a lookup or a warm-up is: of a request on its first or second pass, of a command
  that wants the function warm, or of a deploy.
\<close>

datatype who = Request nat | Ensure

datatype goal =
    Fresh who
  | Redirect nat nat
  | Recheck nat who
  | Recover nat who
  | Deploy

datatype reply =
    Served | Executed | BusyReply | NoFunction | ShuttingDown | WarmFailed | CallRefused | BadSpecReply
  | StoppedReply | WarmedReply | Quiet

datatype 'c thread =
    Idle
  | LookWarm string goal
  | LookCold string goal
  | WarmUp string "'c resolved_fn" secrets sources goal
  | ClearCold string nat "nat option" goal
  | RetirePrev string nat nat goal
  | Found string nat goal
  | NotThere string goal reply
  | TakeTurn string nat who
  | Judge string nat who
  | AtDoor string nat nat
  | Queued string nat nat
  | Admitted string nat
  | Running string nat
  | Thaw string nat
  | Touch nat reply
  | Compare string "'c resolved_fn" secrets sources
  | CompareCold string "'c resolved_fn" secrets sources
  | StopCold string
  | StopWarm string bool
  | StopRetire nat
  | Look_Idle string nat nat
  | CoolIt string nat
  | CoolStore string nat
  | CoolRetire nat
  | PauseIt nat
  | Replied reply

record 'c supervisor =
  sv_entries :: "nat \<Rightarrow> 'c fn_entry"
  sv_next :: nat
  sv_generation :: nat
  sv_functions :: "string \<rightharpoonup> nat"
  sv_cold :: "string \<rightharpoonup> 'c cold"
  sv_rewarms :: "string \<rightharpoonup> backoff"
  sv_turn :: "string \<Rightarrow> nat option"
  sv_frozen :: "string \<times> string \<Rightarrow> bool"
  sv_thread :: "nat \<Rightarrow> 'c thread"

text \<open>What the host answers during a step: the time, the files, whether what was asked worked.\<close>

record env =
  ev_now :: nat
  ev_ok :: bool
  ev_digest :: "string \<Rightarrow> string option"

definition goto :: "nat \<Rightarrow> 'c thread \<Rightarrow> 'c supervisor \<Rightarrow> 'c supervisor" where
  "goto t p s = s\<lparr>sv_thread := (sv_thread s)(t := p)\<rparr>"

definition on_entry :: "nat \<Rightarrow> ('c fn_entry \<Rightarrow> 'c fn_entry) \<Rightarrow> 'c supervisor \<Rightarrow> 'c supervisor" where
  "on_entry i f s = s\<lparr>sv_entries := (sv_entries s)(i := f (sv_entries s i))\<rparr>"

definition on_gate :: "nat \<Rightarrow> (gate \<Rightarrow> gate) \<Rightarrow> 'c supervisor \<Rightarrow> 'c supervisor" where
  "on_gate i f = on_entry i (\<lambda>e. e\<lparr>en_gate := f (en_gate e)\<rparr>)"

text \<open>The cgroup of a function: its tenant's directory and its name.\<close>

definition home :: "'c resolved_fn \<Rightarrow> string \<times> string" where
  "home r = (rf_tenant r, rf_name r)"

definition set_frozen :: "'c resolved_fn \<Rightarrow> bool \<Rightarrow> 'c supervisor \<Rightarrow> 'c supervisor" where
  "set_frozen r b s = s\<lparr>sv_frozen := (sv_frozen s)(home r := b)\<rparr>"

text \<open>\<open>pause\<close> and \<open>resume\<close>, with whether they worked.\<close>

definition pause_fn :: "env \<Rightarrow> nat \<Rightarrow> 'c supervisor \<Rightarrow> bool \<times> 'c supervisor" where
  "pause_fn ev i s =
     (let e = sv_entries s i in
      if en_state e \<noteq> Warm then (True, s)
      else if \<not> ev_ok ev then (False, s)
      else (True, on_entry i (\<lambda>e. e\<lparr>en_state := Paused\<rparr>) (set_frozen (en_resolved e) True s)))"

definition resume_fn :: "env \<Rightarrow> nat \<Rightarrow> 'c supervisor \<Rightarrow> bool \<times> 'c supervisor" where
  "resume_fn ev i s =
     (let e = sv_entries s i in
      if en_state e \<noteq> Paused then (True, s)
      else if \<not> ev_ok ev then (False, s)
      else (True, on_entry i (\<lambda>e. e\<lparr>en_state := Warm\<rparr>) (set_frozen (en_resolved e) False s)))"

definition touch :: "env \<Rightarrow> nat \<Rightarrow> 'c supervisor \<Rightarrow> 'c supervisor" where
  "touch ev i = on_entry i (\<lambda>e. e\<lparr>en_last_used := ev_now ev\<rparr>)"

text \<open>Retiring: the gate closes, then the agent is asked to finish, which cannot be told.\<close>

definition retire :: "nat \<Rightarrow> 'c supervisor \<Rightarrow> 'c supervisor" where
  "retire i = on_gate i gate_close"

section \<open>Looking up and warming up\<close>

definition look_warm :: "nat \<Rightarrow> string \<Rightarrow> goal \<Rightarrow> 'c supervisor \<Rightarrow> 'c supervisor" where
  "look_warm t name g s =
     goto t (case sv_functions s name of Some i \<Rightarrow> Found name i g | None \<Rightarrow> LookCold name g) s"

definition begin_warm_up ::
  "env \<Rightarrow> string \<Rightarrow> 'c resolved_fn \<Rightarrow> secrets \<Rightarrow> goal \<Rightarrow> 'c thread" where
  "begin_warm_up ev name r m g = WarmUp name r m (sources_of (ev_digest ev) r) g"

definition look_cold :: "nat \<Rightarrow> env \<Rightarrow> string \<Rightarrow> goal \<Rightarrow> 'c supervisor \<Rightarrow> 'c supervisor" where
  "look_cold t ev name g s =
     goto t (case sv_cold s name of
               Some c \<Rightarrow> begin_warm_up ev name (co_resolved c) (co_secrets c) g
             | None \<Rightarrow> NotThere name g NoFunction) s"

definition new_entry :: "env \<Rightarrow> gate \<Rightarrow> 'c resolved_fn \<Rightarrow> secrets \<Rightarrow> sources \<Rightarrow> 'c fn_entry" where
  "new_entry ev g r m src =
     \<lparr>en_resolved = r, en_secrets = m, en_sources = src, en_gate = g, en_registered = ev_now ev,
      en_last_used = ev_now ev, en_state = Warm, en_dropped = False\<rparr>"

text \<open>
  The end of a warm-up: the sandbox could not be started, or its entry is made and put in the
  registry. Whether starting works is the host's answer, part of the event.
\<close>

definition warm_up ::
  "nat \<Rightarrow> env \<Rightarrow> string \<Rightarrow> 'c resolved_fn \<Rightarrow> secrets \<Rightarrow> sources \<Rightarrow> goal \<Rightarrow> 'c supervisor \<Rightarrow> 'c supervisor" where
  "warm_up t ev name r m src g s =
     (if \<not> ev_ok ev then goto t (NotThere name g WarmFailed) s
      else
        (let i = sv_next s;
             c = word_of_nat (rf_concurrency r);
             (gt, n) = gate_named (sv_generation s) name c (default_queue_limit c)
         in goto t (ClearCold name i (sv_functions s name) g)
              (s\<lparr>sv_entries := (sv_entries s)(i := new_entry ev gt r m src),
                 sv_next := i + 1, sv_generation := n,
                 sv_functions := (sv_functions s)(name \<mapsto> i)\<rparr>)))"

definition clear_cold :: "nat \<Rightarrow> string \<Rightarrow> nat \<Rightarrow> nat option \<Rightarrow> goal \<Rightarrow> 'c supervisor \<Rightarrow> 'c supervisor" where
  "clear_cold t name i prev g s =
     goto t (case prev of Some j \<Rightarrow> RetirePrev name i j g | None \<Rightarrow> Found name i g)
       (s\<lparr>sv_cold := (sv_cold s)(name := None)\<rparr>)"

section \<open>Recovery\<close>

definition backoff_of :: "'c supervisor \<Rightarrow> string \<Rightarrow> backoff" where
  "backoff_of s name = (case sv_rewarms s name of Some b \<Rightarrow> b | None \<Rightarrow> no_failures)"

definition set_backoff :: "string \<Rightarrow> backoff \<Rightarrow> 'c supervisor \<Rightarrow> 'c supervisor" where
  "set_backoff name b s = s\<lparr>sv_rewarms := (sv_rewarms s)(name \<mapsto> b)\<rparr>"

definition give_turn :: "string \<Rightarrow> 'c supervisor \<Rightarrow> 'c supervisor" where
  "give_turn name s = s\<lparr>sv_turn := (sv_turn s)(name := None)\<rparr>"

text \<open>The per-name lock of a rewarm: taken when it is free, and then the registry is looked at again.\<close>

definition take_turn :: "nat \<Rightarrow> string \<Rightarrow> nat \<Rightarrow> who \<Rightarrow> 'c supervisor \<Rightarrow> 'c supervisor option" where
  "take_turn t name broken w s =
     (case sv_turn s name of
        Some _ \<Rightarrow> None
      | None \<Rightarrow> Some (goto t (LookWarm name (Recheck broken w)) (s\<lparr>sv_turn := (sv_turn s)(name \<mapsto> t)\<rparr>)))"

definition judge :: "nat \<Rightarrow> env \<Rightarrow> string \<Rightarrow> nat \<Rightarrow> who \<Rightarrow> 'c supervisor \<Rightarrow> 'c supervisor" where
  "judge t ev name broken w s =
     (let b = backoff_of s name; e = sv_entries s broken in
      case backoff_ready (ev_now ev) b of
        Inl _ \<Rightarrow> goto t (Replied WarmFailed) (give_turn name (set_backoff name b s))
      | Inr _ \<Rightarrow>
          goto t (begin_warm_up ev name (en_resolved e) (en_secrets e) (Recover broken w))
            (set_backoff name (b\<lparr>bo_last_attempt := Some (ev_now ev)\<rparr>) s))"

text \<open>What follows once an entry is there and healthy.\<close>

definition proceed :: "string \<Rightarrow> nat \<Rightarrow> who \<Rightarrow> 'c thread" where
  "proceed name i w = (case w of Request k \<Rightarrow> AtDoor name i k | Ensure \<Rightarrow> Thaw name i)"

definition if_healthy :: "'c supervisor \<Rightarrow> string \<Rightarrow> nat \<Rightarrow> who \<Rightarrow> 'c thread" where
  "if_healthy s name i w =
     (if en_healthy (sv_entries s i) then proceed name i w else TakeTurn name i w)"

text \<open>After a closed gate: only another entry is tried, and only once.\<close>

definition redirected :: "nat \<Rightarrow> string \<Rightarrow> nat \<Rightarrow> nat \<Rightarrow> nat \<Rightarrow> 'c supervisor \<Rightarrow> 'c supervisor" where
  "redirected t name i prev k s =
     goto t (if i \<noteq> prev \<and> k = 0 then if_healthy s name i (Request 1) else Replied ShuttingDown) s"

text \<open>Under the name's lock: somebody else's replacement, or the work is this thread's.\<close>

definition rechecked :: "nat \<Rightarrow> string \<Rightarrow> nat \<Rightarrow> nat \<Rightarrow> who \<Rightarrow> 'c supervisor \<Rightarrow> 'c supervisor" where
  "rechecked t name i broken w s =
     (if i \<noteq> broken \<and> en_healthy (sv_entries s i) then goto t (proceed name i w) (give_turn name s)
      else goto t (Judge name broken w) s)"

definition recovered :: "nat \<Rightarrow> string \<Rightarrow> nat \<Rightarrow> who \<Rightarrow> 'c supervisor \<Rightarrow> 'c supervisor" where
  "recovered t name i w s =
     goto t (proceed name i w)
       (give_turn name (set_backoff name ((backoff_of s name)\<lparr>bo_failures := 0\<rparr>) s))"

definition not_recovered :: "nat \<Rightarrow> string \<Rightarrow> reply \<Rightarrow> 'c supervisor \<Rightarrow> 'c supervisor" where
  "not_recovered t name r s =
     (let b = backoff_of s name in
      goto t (Replied r)
        (give_turn name (set_backoff name (b\<lparr>bo_failures := min u32_max (bo_failures b + 1)\<rparr>) s)))"

text \<open>What becomes of a lookup or a warm-up, by whose errand it was.\<close>

definition found :: "nat \<Rightarrow> string \<Rightarrow> nat \<Rightarrow> goal \<Rightarrow> 'c supervisor \<Rightarrow> 'c supervisor" where
  "found t name i g s =
     (case g of
        Fresh w \<Rightarrow> goto t (if_healthy s name i w) s
      | Redirect prev k \<Rightarrow> redirected t name i prev k s
      | Recheck broken w \<Rightarrow> rechecked t name i broken w s
      | Recover broken w \<Rightarrow> recovered t name i w s
      | Deploy \<Rightarrow> goto t (Replied Served) s)"

definition not_there :: "nat \<Rightarrow> string \<Rightarrow> goal \<Rightarrow> reply \<Rightarrow> 'c supervisor \<Rightarrow> 'c supervisor" where
  "not_there t name g r s =
     (case g of
        Redirect _ _ \<Rightarrow> goto t (Replied ShuttingDown) s
      | Recheck broken w \<Rightarrow> goto t (Judge name broken w) s
      | Recover _ _ \<Rightarrow> not_recovered t name r s
      | _ \<Rightarrow> goto t (Replied r) s)"

section \<open>One request\<close>

text \<open>A request that is turned away because the gate is closed looks the name up again.\<close>

definition at_door :: "nat \<Rightarrow> string \<Rightarrow> nat \<Rightarrow> nat \<Rightarrow> 'c supervisor \<Rightarrow> 'c supervisor" where
  "at_door t name i k s =
     (case enter_locked (en_gate (sv_entries s i)) of
        (Permit, g) \<Rightarrow> goto t (Admitted name i) (on_gate i (\<lambda>_. g) s)
      | (Waits, g) \<Rightarrow> goto t (Queued name i k) (on_gate i (\<lambda>_. g) s)
      | (Rejected Closed, _) \<Rightarrow> goto t (LookWarm name (Redirect i k)) s
      | (Rejected _, _) \<Rightarrow> goto t (Replied BusyReply) s)"

text \<open>Leaving the queue: woken when the gate has room or is closed, or out of time.\<close>

definition in_queue :: "nat \<Rightarrow> env \<Rightarrow> string \<Rightarrow> nat \<Rightarrow> nat \<Rightarrow> 'c supervisor \<Rightarrow> 'c supervisor" where
  "in_queue t ev name i k s =
     (let gt = en_gate (sv_entries s i) in
      case enter_woken (keep_waiting gt) gt of
        (Permit, g) \<Rightarrow> goto t (Admitted name i) (on_gate i (\<lambda>_. g) s)
      | (Rejected Closed, g) \<Rightarrow> goto t (LookWarm name (Redirect i k)) (on_gate i (\<lambda>_. g) s)
      | (_, g) \<Rightarrow> goto t (Replied BusyReply) (on_gate i (\<lambda>_. g) s))"

definition admitted_fn :: "nat \<Rightarrow> env \<Rightarrow> string \<Rightarrow> nat \<Rightarrow> 'c supervisor \<Rightarrow> 'c supervisor" where
  "admitted_fn t ev name i s =
     (case resume_fn ev i s of
        (True, s') \<Rightarrow> goto t (Running name i) s'
      | (False, s') \<Rightarrow> goto t (Replied CallRefused) (on_gate i gate_release s'))"

definition finish_call :: "nat \<Rightarrow> env \<Rightarrow> nat \<Rightarrow> 'c supervisor \<Rightarrow> 'c supervisor" where
  "finish_call t ev i s =
     goto t (Touch i (if ev_ok ev then Executed else CallRefused)) (on_gate i gate_release s)"

definition thaw :: "nat \<Rightarrow> env \<Rightarrow> nat \<Rightarrow> 'c supervisor \<Rightarrow> 'c supervisor" where
  "thaw t ev i s =
     (case resume_fn ev i s of
        (True, s') \<Rightarrow> goto t (Touch i WarmedReply) s'
      | (False, s') \<Rightarrow> goto t (Replied CallRefused) s')"

section \<open>Deploying, stopping and idling\<close>

definition serve ::
  "nat \<Rightarrow> env \<Rightarrow> string \<Rightarrow> 'c resolved_fn \<Rightarrow> secrets option \<Rightarrow> secrets \<Rightarrow> bool \<Rightarrow> 'c supervisor \<Rightarrow> 'c supervisor" where
  "serve t ev name r stored client if_changed s =
     goto t
       (case serve_secrets stored (rf_secrets r) client of
          Inl _ \<Rightarrow> Replied BadSpecReply
        | Inr m \<Rightarrow>
            if if_changed then Compare name r m (sources_of (ev_digest ev) r)
            else begin_warm_up ev name r m Deploy)
       (s\<lparr>sv_rewarms := (sv_rewarms s)(name := None)\<rparr>)"

text \<open>The two halves of \<open>is_registered_as\<close>, under one lock each.\<close>

definition compare_warm ::
  "nat \<Rightarrow> env \<Rightarrow> string \<Rightarrow> 'c resolved_fn \<Rightarrow> secrets \<Rightarrow> sources \<Rightarrow> 'c supervisor \<Rightarrow> 'c supervisor" where
  "compare_warm t ev name r m src s =
     goto t
       (case sv_functions s name of
          Some i \<Rightarrow>
            (let e = sv_entries s i in
             if en_resolved e = r \<and> en_secrets e = m \<and> en_sources e = src
             then LookWarm name (Fresh Ensure) else begin_warm_up ev name r m Deploy)
        | None \<Rightarrow> CompareCold name r m src) s"

definition compare_cold ::
  "nat \<Rightarrow> env \<Rightarrow> string \<Rightarrow> 'c resolved_fn \<Rightarrow> secrets \<Rightarrow> sources \<Rightarrow> 'c supervisor \<Rightarrow> 'c supervisor" where
  "compare_cold t ev name r m src s =
     goto t
       (case sv_cold s name of
          Some c \<Rightarrow>
            if co_resolved c = r \<and> co_secrets c = m \<and> co_sources c = src
            then LookWarm name (Fresh Ensure) else begin_warm_up ev name r m Deploy
        | None \<Rightarrow> begin_warm_up ev name r m Deploy) s"

text \<open>\<open>stop\<close> of one name, without the pools of that name.\<close>

definition stop_cold :: "nat \<Rightarrow> string \<Rightarrow> 'c supervisor \<Rightarrow> 'c supervisor" where
  "stop_cold t name s =
     goto t (StopWarm name (sv_cold s name \<noteq> None)) (s\<lparr>sv_cold := (sv_cold s)(name := None)\<rparr>)"

definition stop_warm :: "nat \<Rightarrow> string \<Rightarrow> bool \<Rightarrow> 'c supervisor \<Rightarrow> 'c supervisor" where
  "stop_warm t name was_cold s =
     goto t (case sv_functions s name of
               Some i \<Rightarrow> StopRetire i
             | None \<Rightarrow> Replied (if was_cold then StoppedReply else NoFunction))
       (s\<lparr>sv_functions := (sv_functions s)(name := None)\<rparr>)"

text \<open>One candidate of a pass of the idle policy; \<open>now\<close> is when the pass began.\<close>

definition look_idle :: "nat \<Rightarrow> string \<Rightarrow> nat \<Rightarrow> nat \<Rightarrow> 'c supervisor \<Rightarrow> 'c supervisor" where
  "look_idle t name i now s =
     (let e = sv_entries s i; (running, waiting) = gate_load (en_gate e); idle = en_idle_for now e in
      goto t
        (if running > 0 \<or> waiting > 0 then Replied Quiet
         else if idle \<ge> rf_cold_after (en_resolved e) then CoolIt name i
         else if idle \<ge> rf_idle_timeout (en_resolved e) \<and> en_state e = Warm then PauseIt i
         else Replied Quiet) s)"

definition cool_remove :: "nat \<Rightarrow> string \<Rightarrow> nat \<Rightarrow> 'c supervisor \<Rightarrow> 'c supervisor" where
  "cool_remove t name i s =
     (if sv_functions s name = Some i
      then goto t (CoolStore name i) (s\<lparr>sv_functions := (sv_functions s)(name := None)\<rparr>)
      else goto t (Replied Quiet) s)"

definition cool_store :: "nat \<Rightarrow> env \<Rightarrow> string \<Rightarrow> nat \<Rightarrow> 'c supervisor \<Rightarrow> 'c supervisor" where
  "cool_store t ev name i s =
     (let e = sv_entries s i in
      goto t (CoolRetire i)
        (s\<lparr>sv_cold := (sv_cold s)(name \<mapsto>
             \<lparr>co_resolved = en_resolved e, co_secrets = en_secrets e, co_sources = en_sources e,
              co_since = ev_now ev\<rparr>)\<rparr>))"

definition tenant_of :: "'c supervisor \<Rightarrow> string \<Rightarrow> string option" where
  "tenant_of s name =
     (case sv_functions s name of
        Some i \<Rightarrow> Some (rf_tenant (en_resolved (sv_entries s i)))
      | None \<Rightarrow> map_option (\<lambda>c. rf_tenant (co_resolved c)) (sv_cold s name))"

text \<open>Who may reach a function; a tenant is told the same of one that is not there.\<close>

definition owned_by :: "'c supervisor \<Rightarrow> string \<Rightarrow> string option \<Rightarrow> control_error + unit" where
  "owned_by s name caller =
     (case caller of
        None \<Rightarrow> Inr ()
      | Some c \<Rightarrow> (case tenant_of s name of Some owner \<Rightarrow> if owner = c then Inr () else Inl NoSuch | None \<Rightarrow> Inl NoSuch))"

text \<open>
  What \<open>stop_everything_for\<close> does to the functions when nothing else runs: those of the tenant
  among the names registered as warm or paused are stopped one after another.
\<close>

definition stop_now :: "string \<Rightarrow> 'c supervisor \<Rightarrow> 'c supervisor" where
  "stop_now name s =
     (let s' = s\<lparr>sv_cold := (sv_cold s)(name := None)\<rparr> in
      case sv_functions s' name of
        Some i \<Rightarrow> retire i (s'\<lparr>sv_functions := (sv_functions s')(name := None)\<rparr>)
      | None \<Rightarrow> s')"

definition stop_everything_for :: "string list \<Rightarrow> string \<Rightarrow> 'c supervisor \<Rightarrow> 'c supervisor" where
  "stop_everything_for names tenant s =
     fold stop_now
       (filter (\<lambda>n. case sv_functions s n of
                     Some i \<Rightarrow> rf_tenant (en_resolved (sv_entries s i)) = tenant
                   | None \<Rightarrow> False) names) s"

text \<open>
  The start of \<open>drain\<close>: the gates of the functions that are registered as warm or paused close.
  The pools' gates close as well, and the wait for what is running follows.
\<close>

definition drain_close :: "string list \<Rightarrow> 'c supervisor \<Rightarrow> 'c supervisor" where
  "drain_close names s =
     fold (\<lambda>n s. case sv_functions s n of Some i \<Rightarrow> on_gate i gate_close s | None \<Rightarrow> s) names s"

section \<open>Any interleaving\<close>

datatype 'c command =
    Exec string | WarmCommand string | Serve string "'c resolved_fn" "secrets option" secrets bool
  | Stop string | Tier string

definition begin_command :: "nat \<Rightarrow> env \<Rightarrow> 'c command \<Rightarrow> 'c supervisor \<Rightarrow> 'c supervisor" where
  "begin_command t ev c s =
     (case c of
        Exec name \<Rightarrow> goto t (LookWarm name (Fresh (Request 0))) s
      | WarmCommand name \<Rightarrow> goto t (LookWarm name (Fresh Ensure)) s
      | Serve name r stored client if_changed \<Rightarrow> serve t ev name r stored client if_changed s
      | Stop name \<Rightarrow> goto t (StopCold name) s
      | Tier name \<Rightarrow>
          goto t (case sv_functions s name of Some i \<Rightarrow> Look_Idle name i (ev_now ev) | None \<Rightarrow> Replied Quiet) s)"

text \<open>The next step of a thread, by where it is; \<open>None\<close> when it has to wait or is at its end.\<close>

fun advance :: "nat \<Rightarrow> env \<Rightarrow> 'c thread \<Rightarrow> 'c supervisor \<Rightarrow> 'c supervisor option" where
  "advance t ev Idle s = None"
| "advance t ev (Replied _) s = None"
| "advance t ev (LookWarm name g) s = Some (look_warm t name g s)"
| "advance t ev (LookCold name g) s = Some (look_cold t ev name g s)"
| "advance t ev (WarmUp name r m src g) s = Some (warm_up t ev name r m src g s)"
| "advance t ev (ClearCold name i prev g) s = Some (clear_cold t name i prev g s)"
| "advance t ev (RetirePrev name i j g) s = Some (goto t (Found name i g) (retire j s))"
| "advance t ev (Found name i g) s = Some (found t name i g s)"
| "advance t ev (NotThere name g r) s = Some (not_there t name g r s)"
| "advance t ev (TakeTurn name i w) s = take_turn t name i w s"
| "advance t ev (Judge name i w) s = Some (judge t ev name i w s)"
| "advance t ev (AtDoor name i k) s = Some (at_door t name i k s)"
| "advance t ev (Queued name i k) s = Some (in_queue t ev name i k s)"
| "advance t ev (Admitted name i) s = Some (admitted_fn t ev name i s)"
| "advance t ev (Running name i) s = Some (finish_call t ev i s)"
| "advance t ev (Thaw name i) s = Some (thaw t ev i s)"
| "advance t ev (Touch i r) s = Some (goto t (Replied r) (touch ev i s))"
| "advance t ev (Compare name r m src) s = Some (compare_warm t ev name r m src s)"
| "advance t ev (CompareCold name r m src) s = Some (compare_cold t ev name r m src s)"
| "advance t ev (StopCold name) s = Some (stop_cold t name s)"
| "advance t ev (StopWarm name b) s = Some (stop_warm t name b s)"
| "advance t ev (StopRetire i) s = Some (goto t (Replied StoppedReply) (retire i s))"
| "advance t ev (Look_Idle name i now) s = Some (look_idle t name i now s)"
| "advance t ev (CoolIt name i) s = Some (cool_remove t name i s)"
| "advance t ev (CoolStore name i) s = Some (cool_store t ev name i s)"
| "advance t ev (CoolRetire i) s = Some (goto t (Replied Quiet) (retire i s))"
| "advance t ev (PauseIt i) s = Some (goto t (Replied Quiet) (snd (pause_fn ev i s)))"

text \<open>The entries a thread holds on to.\<close>

fun held_by_goal :: "goal \<Rightarrow> nat set" where
  "held_by_goal (Redirect i _) = {i}"
| "held_by_goal (Recheck i _) = {i}"
| "held_by_goal (Recover i _) = {i}"
| "held_by_goal _ = {}"

fun held :: "'c thread \<Rightarrow> nat set" where
  "held (ClearCold _ i prev g) = insert i (set_option prev) \<union> held_by_goal g"
| "held (RetirePrev _ i j g) = {i, j} \<union> held_by_goal g"
| "held (Found _ i g) = insert i (held_by_goal g)"
| "held (LookWarm _ g) = held_by_goal g"
| "held (LookCold _ g) = held_by_goal g"
| "held (WarmUp _ _ _ _ g) = held_by_goal g"
| "held (NotThere _ g _) = held_by_goal g"
| "held (TakeTurn _ i _) = {i}"
| "held (Judge _ i _) = {i}"
| "held (AtDoor _ i _) = {i}"
| "held (Queued _ i _) = {i}"
| "held (Admitted _ i) = {i}"
| "held (Running _ i) = {i}"
| "held (Thaw _ i) = {i}"
| "held (Touch i _) = {i}"
| "held (StopRetire i) = {i}"
| "held (Look_Idle _ i _) = {i}"
| "held (CoolIt _ i) = {i}"
| "held (CoolStore _ i) = {i}"
| "held (CoolRetire i) = {i}"
| "held (PauseIt i) = {i}"
| "held _ = {}"

text \<open>
  An agent dies; or the last holder of an entry lets go, and its sandbox is torn down with its
  cgroup. Then the function's directory goes as well when no other sandbox is below it, and with
  it the freezer's state; \<open>emptied\<close> says so.
\<close>

definition drop_entry :: "nat \<Rightarrow> bool \<Rightarrow> 'c supervisor \<Rightarrow> 'c supervisor option" where
  "drop_entry i emptied s =
     (let r = en_resolved (sv_entries s i) in
      if \<not> i < sv_next s \<or> sv_functions s (rf_name r) = Some i \<or> (\<exists>t. i \<in> held (sv_thread s t))
         \<or> emptied \<and> list_ex (\<lambda>j. j \<noteq> i \<and> \<not> en_dropped (sv_entries s j) \<and> home (en_resolved (sv_entries s j)) = home r)
                       [0..<sv_next s]
      then None
      else Some (on_entry i (\<lambda>e. e\<lparr>en_dropped := True\<rparr>) (if emptied then set_frozen r False s else s)))"

datatype 'c event = Begin nat "'c command" env | Step nat env | Died nat | Dropped nat bool

fun sv_apply :: "'c event \<Rightarrow> 'c supervisor \<Rightarrow> 'c supervisor option" where
  "sv_apply (Begin t c ev) s =
     (case sv_thread s t of Idle \<Rightarrow> Some (begin_command t ev c s) | _ \<Rightarrow> None)"
| "sv_apply (Step t ev) s = advance t ev (sv_thread s t) s"
| "sv_apply (Died i) s =
     (if i < sv_next s then Some (on_entry i (\<lambda>e. e\<lparr>en_state := Failed\<rparr>) s) else None)"
| "sv_apply (Dropped i emptied) s = drop_entry i emptied s"

fun sv_run :: "'c event list \<Rightarrow> 'c supervisor \<Rightarrow> 'c supervisor option" where
  "sv_run [] s = Some s"
| "sv_run (e # es) s = Option.bind (sv_apply e s) (sv_run es)"

text \<open>A supervisor that has just started.\<close>

definition sv_start :: "(nat \<Rightarrow> 'c fn_entry) \<Rightarrow> nat \<Rightarrow> 'c supervisor" where
  "sv_start store generation =
     \<lparr>sv_entries = store, sv_next = 0, sv_generation = generation, sv_functions = (\<lambda>_. None),
      sv_cold = (\<lambda>_. None), sv_rewarms = (\<lambda>_. None), sv_turn = (\<lambda>_. None), sv_frozen = (\<lambda>_. False),
      sv_thread = (\<lambda>_. Idle)\<rparr>"

end
