(* ===== verification/Zygo_Registry_Laws.thy ===== *)
theory Zygo_Registry_Laws
  imports Zygo_Registry Zygo_Secrets_Laws
begin

text \<open>
  What the registry keeps under every interleaving of commands, requests and the idle policy: a
  function has exactly its spec's secrets, a sandbox that takes requests is the registered one,
  no more requests than its concurrency run in it, and a stopped name stays stopped. And the
  schedules under which a stop is undone and a sandbox is frozen under a request.
\<close>

section \<open>Backoff\<close>

lemma backoff_delay_closed:
  "backoff_delay f = (if f = 0 then 0 else min (REWARM_BACKOFF_BASE * 2 ^ (f - 1)) REWARM_BACKOFF_MAX)"
proof (cases "f - 1 < 32")
  case False
  have "(2::nat) ^ 32 \<le> 2 ^ (f - 1)"
    using False by (intro power_increasing) auto
  then have "(30000::nat) \<le> 200 * 2 ^ (f - 1)" by simp
  then show ?thesis
    using False by (auto simp: backoff_delay_def checked_shl_one_def REWARM_BACKOFF_BASE_def
        REWARM_BACKOFF_MAX_def u32_max_def)
qed (simp add: backoff_delay_def checked_shl_one_def)

lemma backoff_delay_Suc: "backoff_delay f \<le> backoff_delay (Suc f)"
proof (cases f)
  case 0
  then show ?thesis by (simp add: backoff_delay_closed)
next
  case (Suc k)
  have "REWARM_BACKOFF_BASE * 2 ^ k \<le> REWARM_BACKOFF_BASE * 2 ^ Suc k" by simp
  then show ?thesis
    using Suc by (simp add: backoff_delay_closed min_le_iff_disj del: mult_le_mono2)
qed

lemma backoff_delay_mono: "f \<le> f' \<Longrightarrow> backoff_delay f \<le> backoff_delay f'"
  by (rule lift_Suc_mono_le [of backoff_delay, OF backoff_delay_Suc])

section \<open>Secrets\<close>

lemma map_of_fill_in:
  "map_of (fill_in stored m) k = (case map_of m k of Some v \<Rightarrow> Some v | None \<Rightarrow> map_of stored k)"
  by (induction stored m rule: fill_in.induct) (auto simp: map_of_bt_insert split: option.splits)

lemma map_of_filter_fst: "map_of (filter (\<lambda>e. P (fst e)) m) k = (if P k then map_of m k else None)"
  by (induction m) auto

text \<open>The secrets of a function are those its spec names.\<close>

definition fits :: "'c resolved_fn \<Rightarrow> secrets \<Rightarrow> bool" where
  "fits r m \<longleftrightarrow> fst ` set m = set (rf_secrets r)"

lemma dom_map_of_fst: "map_of m k \<noteq> None \<longleftrightarrow> k \<in> fst ` set m"
  by (metis map_of_eq_None_iff)

lemma serve_secrets_Inr:
  assumes "serve_secrets stored names client = Inr m"
  shows "fst ` set m = set names"
    and "k \<in> set names \<Longrightarrow> map_of m k = (case map_of client k of Some v \<Rightarrow> Some v
      | None \<Rightarrow> map_of (case stored of Some x \<Rightarrow> x | None \<Rightarrow> []) k)"
proof -
  let ?all = "fill_in (case stored of Some x \<Rightarrow> x | None \<Rightarrow> []) client"
  have full: "map_of ?all n \<noteq> None" if "n \<in> set names" for n
    using assms that by (auto simp: serve_secrets_def Let_def filter_empty_conv split: if_splits)
  have m: "m = filter (\<lambda>e. fst e \<in> set names) ?all"
    using assms by (auto simp: serve_secrets_def Let_def split: if_splits)
  show "fst ` set m = set names"
  proof
    show "fst ` set m \<subseteq> set names" using m by auto
    show "set names \<subseteq> fst ` set m"
    proof
      fix n assume n: "n \<in> set names"
      then have "map_of m n \<noteq> None"
        using full [OF n] map_of_filter_fst [of "\<lambda>n. n \<in> set names" ?all n] by (simp add: m)
      then show "n \<in> fst ` set m" by (rule iffD1 [OF dom_map_of_fst])
    qed
  qed
  show "map_of m k = (case map_of client k of Some v \<Rightarrow> Some v
      | None \<Rightarrow> map_of (case stored of Some x \<Rightarrow> x | None \<Rightarrow> []) k)" if "k \<in> set names"
    using that map_of_filter_fst [of "\<lambda>n. n \<in> set names" ?all k] by (simp add: m map_of_fill_in)
qed

lemma serve_secrets_fits: "serve_secrets stored (rf_secrets r) client = Inr m \<Longrightarrow> fits r m"
  unfolding fits_def by (rule serve_secrets_Inr(1))

section \<open>Every entry is the function it is registered as\<close>

definition entry_of :: "'c supervisor \<Rightarrow> nat \<Rightarrow> string \<Rightarrow> bool" where
  "entry_of s i name \<longleftrightarrow> i < sv_next s \<and> rf_name (en_resolved (sv_entries s i)) = name"

fun goal_ok :: "'c supervisor \<Rightarrow> string \<Rightarrow> goal \<Rightarrow> bool" where
  "goal_ok s name (Redirect i _) = entry_of s i name"
| "goal_ok s name (Recheck i _) = entry_of s i name"
| "goal_ok s name (Recover i _) = entry_of s i name"
| "goal_ok s name _ = True"

fun thread_ok :: "'c supervisor \<Rightarrow> 'c thread \<Rightarrow> bool" where
  "thread_ok s (LookWarm n g) = goal_ok s n g"
| "thread_ok s (LookCold n g) = goal_ok s n g"
| "thread_ok s (WarmUp n r m _ g) = (rf_name r = n \<and> fits r m \<and> goal_ok s n g)"
| "thread_ok s (ClearCold n i prev g) = (entry_of s i n \<and> (\<forall>j. prev = Some j \<longrightarrow> entry_of s j n) \<and> goal_ok s n g)"
| "thread_ok s (RetirePrev n i j g) = (entry_of s i n \<and> entry_of s j n \<and> goal_ok s n g)"
| "thread_ok s (Found n i g) = (entry_of s i n \<and> goal_ok s n g)"
| "thread_ok s (NotThere n g _) = goal_ok s n g"
| "thread_ok s (TakeTurn n i _) = entry_of s i n"
| "thread_ok s (Judge n i _) = entry_of s i n"
| "thread_ok s (AtDoor n i _) = entry_of s i n"
| "thread_ok s (Queued n i _) = entry_of s i n"
| "thread_ok s (Admitted n i) = entry_of s i n"
| "thread_ok s (Running n i) = entry_of s i n"
| "thread_ok s (Thaw n i) = entry_of s i n"
| "thread_ok s (Compare n r m _) = (rf_name r = n \<and> fits r m)"
| "thread_ok s (CompareCold n r m _) = (rf_name r = n \<and> fits r m)"
| "thread_ok s (Look_Idle n i _) = entry_of s i n"
| "thread_ok s (CoolIt n i) = entry_of s i n"
| "thread_ok s (CoolStore n i) = entry_of s i n"
| "thread_ok s (Touch i _) = (i < sv_next s)"
| "thread_ok s (StopRetire i) = (i < sv_next s)"
| "thread_ok s (CoolRetire i) = (i < sv_next s)"
| "thread_ok s (PauseIt i) = (i < sv_next s)"
| "thread_ok s _ = True"

definition registry_ok :: "'c supervisor \<Rightarrow> bool" where
  "registry_ok s \<longleftrightarrow>
     (\<forall>n i. sv_functions s n = Some i \<longrightarrow> entry_of s i n)
     \<and> (\<forall>n c. sv_cold s n = Some c \<longrightarrow> rf_name (co_resolved c) = n \<and> fits (co_resolved c) (co_secrets c))
     \<and> (\<forall>i < sv_next s. fits (en_resolved (sv_entries s i)) (en_secrets (sv_entries s i)))
     \<and> (\<forall>t. thread_ok s (sv_thread s t))"

text \<open>A step only adds entries, and never changes what an entry was made from.\<close>

definition grows :: "'c supervisor \<Rightarrow> 'c supervisor \<Rightarrow> bool" where
  "grows s s' \<longleftrightarrow> sv_next s \<le> sv_next s' \<and>
     (\<forall>i < sv_next s. en_resolved (sv_entries s' i) = en_resolved (sv_entries s i)
                      \<and> en_secrets (sv_entries s' i) = en_secrets (sv_entries s i))"

lemma grows_entry_of: "grows s s' \<Longrightarrow> entry_of s i n \<Longrightarrow> entry_of s' i n"
  by (auto simp: grows_def entry_of_def)

lemma grows_goal_ok: "grows s s' \<Longrightarrow> goal_ok s n g \<Longrightarrow> goal_ok s' n g"
  by (cases g) (auto intro: grows_entry_of)

lemma grows_next: "grows s s' \<Longrightarrow> i < sv_next s \<Longrightarrow> i < sv_next s'"
  by (simp add: grows_def)

lemma grows_thread_ok: "grows s s' \<Longrightarrow> thread_ok s p \<Longrightarrow> thread_ok s' p"
  by (cases p) (auto intro: grows_entry_of grows_goal_ok grows_next)

text \<open>The parts of the state a step leaves alone.\<close>

named_theorems sv_ops "what the small updates of the supervisor do to its parts"

lemma goto_parts [sv_ops]:
  "sv_entries (goto t p s) = sv_entries s" "sv_next (goto t p s) = sv_next s"
  "sv_functions (goto t p s) = sv_functions s" "sv_cold (goto t p s) = sv_cold s"
  "sv_rewarms (goto t p s) = sv_rewarms s" "sv_turn (goto t p s) = sv_turn s"
  "sv_frozen (goto t p s) = sv_frozen s" "sv_generation (goto t p s) = sv_generation s"
  "sv_thread (goto t p s) = (sv_thread s)(t := p)"
  by (simp_all add: goto_def)

lemma on_entry_parts [sv_ops]:
  "sv_entries (on_entry i f s) = (sv_entries s)(i := f (sv_entries s i))" "sv_next (on_entry i f s) = sv_next s"
  "sv_functions (on_entry i f s) = sv_functions s" "sv_cold (on_entry i f s) = sv_cold s"
  "sv_rewarms (on_entry i f s) = sv_rewarms s" "sv_turn (on_entry i f s) = sv_turn s"
  "sv_frozen (on_entry i f s) = sv_frozen s" "sv_generation (on_entry i f s) = sv_generation s"
  "sv_thread (on_entry i f s) = sv_thread s"
  by (simp_all add: on_entry_def)

lemma set_parts [sv_ops]:
  "sv_entries (set_frozen r b s) = sv_entries s" "sv_next (set_frozen r b s) = sv_next s"
  "sv_functions (set_frozen r b s) = sv_functions s" "sv_cold (set_frozen r b s) = sv_cold s"
  "sv_thread (set_frozen r b s) = sv_thread s" "sv_turn (set_frozen r b s) = sv_turn s"
  "sv_frozen (set_frozen r b s) = (sv_frozen s)(home r := b)"
  "sv_entries (set_backoff n k s) = sv_entries s" "sv_next (set_backoff n k s) = sv_next s"
  "sv_functions (set_backoff n k s) = sv_functions s" "sv_cold (set_backoff n k s) = sv_cold s"
  "sv_thread (set_backoff n k s) = sv_thread s" "sv_turn (set_backoff n k s) = sv_turn s"
  "sv_frozen (set_backoff n k s) = sv_frozen s"
  "sv_entries (give_turn n s) = sv_entries s" "sv_next (give_turn n s) = sv_next s"
  "sv_functions (give_turn n s) = sv_functions s" "sv_cold (give_turn n s) = sv_cold s"
  "sv_thread (give_turn n s) = sv_thread s" "sv_turn (give_turn n s) = (sv_turn s)(n := None)"
  "sv_frozen (give_turn n s) = sv_frozen s"
  by (simp_all add: set_frozen_def set_backoff_def give_turn_def)

lemmas sv_defs = on_gate_def retire_def touch_def look_warm_def look_cold_def begin_warm_up_def warm_up_def
  clear_cold_def judge_def found_def redirected_def rechecked_def recovered_def not_recovered_def not_there_def if_healthy_def proceed_def at_door_def in_queue_def
  admitted_fn_def finish_call_def thaw_def pause_fn_def resume_fn_def serve_def compare_warm_def
  compare_cold_def stop_cold_def stop_warm_def look_idle_def cool_remove_def cool_store_def
  begin_command_def Let_def

lemma grows_refl [simp]: "sv_entries s' = sv_entries s \<Longrightarrow> sv_next s' = sv_next s \<Longrightarrow> grows s s'"
  by (simp add: grows_def)

lemma registry_okI:
  assumes "registry_ok s" and "grows s s'"
    and "\<And>n i. sv_functions s' n = Some i \<Longrightarrow> sv_functions s n = Some i \<or> entry_of s' i n"
    and "\<And>n c. sv_cold s' n = Some c \<Longrightarrow>
      sv_cold s n = Some c \<or> rf_name (co_resolved c) = n \<and> fits (co_resolved c) (co_secrets c)"
    and "\<And>i. sv_next s \<le> i \<Longrightarrow> i < sv_next s' \<Longrightarrow> fits (en_resolved (sv_entries s' i)) (en_secrets (sv_entries s' i))"
    and "\<And>u. u \<noteq> t \<Longrightarrow> sv_thread s' u = sv_thread s u" and "thread_ok s' (sv_thread s' t)"
  shows "registry_ok s'"
proof -
  have "fits (en_resolved (sv_entries s' i)) (en_secrets (sv_entries s' i))" if "i < sv_next s'" for i
  proof (cases "i < sv_next s")
    case True
    then show ?thesis
      using assms(1,2) by (auto simp: registry_ok_def grows_def)
  next
    case False
    then show ?thesis
      using assms(5) that by simp
  qed
  moreover have "entry_of s' i n" if "sv_functions s' n = Some i" for n i
    using assms(3) [OF that] assms(1) grows_entry_of [OF assms(2)] by (auto simp: registry_ok_def)
  moreover have "rf_name (co_resolved c) = n \<and> fits (co_resolved c) (co_secrets c)" if "sv_cold s' n = Some c" for n c
    using assms(4) [OF that] assms(1) by (auto simp: registry_ok_def)
  moreover have "thread_ok s' (sv_thread s' u)" for u
    using assms(1,6,7) grows_thread_ok [OF assms(2)] by (cases "u = t") (auto simp: registry_ok_def)
  ultimately show ?thesis
    unfolding registry_ok_def by blast
qed

text \<open>A command may only be given for the function whose name it bears.\<close>

fun well_named :: "'c event \<Rightarrow> bool" where
  "well_named (Begin _ (Serve name r _ _ _) _) \<longleftrightarrow> rf_name r = name"
| "well_named _ \<longleftrightarrow> True"

lemma registry_ok_functions: "registry_ok s \<Longrightarrow> sv_functions s n = Some i \<Longrightarrow> entry_of s i n"
  by (simp add: registry_ok_def)

lemma registry_ok_cold:
  "registry_ok s \<Longrightarrow> sv_cold s n = Some c \<Longrightarrow> rf_name (co_resolved c) = n \<and> fits (co_resolved c) (co_secrets c)"
  by (simp add: registry_ok_def)

lemma registry_ok_fits: "registry_ok s \<Longrightarrow> entry_of s i n \<Longrightarrow> fits (en_resolved (sv_entries s i)) (en_secrets (sv_entries s i))"
  by (simp add: registry_ok_def entry_of_def)

lemma registry_ok_thread: "registry_ok s \<Longrightarrow> thread_ok s (sv_thread s t)"
  by (simp add: registry_ok_def)

text \<open>Most steps add no entry at all.\<close>

definition kept :: "'c supervisor \<Rightarrow> 'c supervisor \<Rightarrow> bool" where
  "kept s s' \<longleftrightarrow> sv_next s' = sv_next s \<and>
     (\<forall>i. en_resolved (sv_entries s' i) = en_resolved (sv_entries s i)
          \<and> en_secrets (sv_entries s' i) = en_secrets (sv_entries s i))"

lemma kept_grows: "kept s s' \<Longrightarrow> grows s s'"
  by (simp add: kept_def grows_def)

lemma kept_next: "kept s s' \<Longrightarrow> sv_next s' = sv_next s"
  by (simp add: kept_def)

lemma kept_entry_of: "kept s s' \<Longrightarrow> entry_of s' i n = entry_of s i n"
  by (simp add: kept_def entry_of_def)

lemma kept_goal_ok: "kept s s' \<Longrightarrow> goal_ok s' n g = goal_ok s n g"
  by (cases g) (simp_all add: kept_entry_of)

lemma kept_thread_ok: "kept s s' \<Longrightarrow> thread_ok s' p = thread_ok s p"
  by (cases p) (simp_all add: kept_entry_of kept_goal_ok kept_next)

lemma kept_registry_okI:
  assumes "registry_ok s" and "kept s s'"
    and "\<And>n i. sv_functions s' n = Some i \<Longrightarrow> sv_functions s n = Some i"
    and "\<And>n c. sv_cold s' n = Some c \<Longrightarrow>
      sv_cold s n = Some c \<or> rf_name (co_resolved c) = n \<and> fits (co_resolved c) (co_secrets c)"
    and "\<And>u. u \<noteq> t \<Longrightarrow> sv_thread s' u = sv_thread s u" and "thread_ok s (sv_thread s' t)"
  shows "registry_ok s'"
proof (rule registry_okI [OF assms(1) kept_grows [OF assms(2)] _ assms(4) _ assms(5)])
  show "thread_ok s' (sv_thread s' t)"
    using assms(6) kept_thread_ok [OF assms(2)] by simp
qed (use assms(2,3) in \<open>auto simp: kept_def\<close>)

lemma kept_on_entry: "(\<And>e. en_resolved (f e) = en_resolved e \<and> en_secrets (f e) = en_secrets e) \<Longrightarrow> kept s (on_entry i f s)"
  by (simp add: kept_def sv_ops)

lemma kept_simps [sv_ops]:
  "kept s (goto t p s') = kept s s'" "kept s (set_frozen r b s') = kept s s'"
  "kept s (set_backoff n k s') = kept s s'" "kept s (give_turn n s') = kept s s'"
  "kept s (s'\<lparr>sv_functions := fs\<rparr>) = kept s s'" "kept s (s'\<lparr>sv_cold := cs\<rparr>) = kept s s'"
  "kept s (s'\<lparr>sv_rewarms := rs\<rparr>) = kept s s'" "kept s (s'\<lparr>sv_turn := ts\<rparr>) = kept s s'"
  "kept s (on_gate i g s') = kept s s'" "kept s (touch ev i s') = kept s s'" "kept s (retire i s') = kept s s'"
  "kept s s"
  by (auto simp: kept_def sv_ops on_gate_def touch_def retire_def)

lemma on_gate_parts [sv_ops]:
  "sv_next (on_gate i g s) = sv_next s" "sv_functions (on_gate i g s) = sv_functions s"
  "sv_cold (on_gate i g s) = sv_cold s" "sv_thread (on_gate i g s) = sv_thread s"
  "sv_frozen (on_gate i g s) = sv_frozen s" "sv_turn (on_gate i g s) = sv_turn s"
  "sv_next (retire i s) = sv_next s" "sv_functions (retire i s) = sv_functions s"
  "sv_cold (retire i s) = sv_cold s" "sv_thread (retire i s) = sv_thread s"
  "sv_frozen (retire i s) = sv_frozen s" "sv_turn (retire i s) = sv_turn s"
  "sv_next (touch ev i s) = sv_next s" "sv_functions (touch ev i s) = sv_functions s"
  "sv_cold (touch ev i s) = sv_cold s" "sv_thread (touch ev i s) = sv_thread s"
  "sv_frozen (touch ev i s) = sv_frozen s" "sv_turn (touch ev i s) = sv_turn s"
  by (simp_all add: on_gate_def retire_def touch_def sv_ops)

text \<open>Pausing and resuming touch a state and a freezer.\<close>

lemma pause_resume_parts [sv_ops]:
  "sv_next (snd (pause_fn ev i s)) = sv_next s" "sv_functions (snd (pause_fn ev i s)) = sv_functions s"
  "sv_cold (snd (pause_fn ev i s)) = sv_cold s" "sv_thread (snd (pause_fn ev i s)) = sv_thread s"
  "sv_next (snd (resume_fn ev i s)) = sv_next s" "sv_functions (snd (resume_fn ev i s)) = sv_functions s"
  "sv_cold (snd (resume_fn ev i s)) = sv_cold s" "sv_thread (snd (resume_fn ev i s)) = sv_thread s"
  "en_gate (sv_entries (snd (pause_fn ev i s)) j) = en_gate (sv_entries s j)"
  "en_gate (sv_entries (snd (resume_fn ev i s)) j) = en_gate (sv_entries s j)"
  "kept s' (snd (pause_fn ev i s)) = kept s' s" "kept s' (snd (resume_fn ev i s)) = kept s' s"
  by (auto simp: pause_fn_def resume_fn_def Let_def sv_ops kept_def)

text \<open>The operations by what they do to the parts and where the thread goes next.\<close>

lemma admitted_fn_alt:
  "admitted_fn t ev name i s =
     (if fst (resume_fn ev i s) then goto t (Running name i) (snd (resume_fn ev i s))
      else goto t (Replied CallRefused) (on_gate i gate_release (snd (resume_fn ev i s))))"
  by (simp add: admitted_fn_def split: prod.split bool.split)

lemma thaw_alt:
  "thaw t ev i s = goto t (if fst (resume_fn ev i s) then Touch i WarmedReply else Replied CallRefused) (snd (resume_fn ev i s))"
  by (simp add: thaw_def split: prod.split bool.split)

lemmas sv_moves = look_warm_def look_cold_def begin_warm_up_def clear_cold_def judge_def found_def redirected_def rechecked_def recovered_def not_recovered_def not_there_def
  if_healthy_def proceed_def at_door_def in_queue_def admitted_fn_alt finish_call_def thaw_alt serve_def
  compare_warm_def compare_cold_def stop_cold_def stop_warm_def look_idle_def cool_remove_def cool_store_def
  begin_command_def take_turn_def Let_def

lemma begin_ok:
  assumes "registry_ok s" and "well_named (Begin t c ev)"
  shows "registry_ok (begin_command t ev c s)"
proof (rule kept_registry_okI [OF assms(1), of _ t])
  show "kept s (begin_command t ev c s)"
    by (cases c) (auto simp: sv_ops sv_moves)
  show "thread_ok s (sv_thread (begin_command t ev c s) t)"
    using assms registry_ok_functions [OF assms(1)]
    by (cases c) (auto simp: sv_ops sv_moves split: option.splits sum.splits intro: serve_secrets_fits)
qed (cases c; auto simp: sv_ops sv_moves)+

text \<open>Where a thread goes, case by case, is what the following two facts need.\<close>

lemma warm_up_ok:
  assumes "registry_ok s" and "rf_name r = name" and "fits r m" and "goal_ok s name g"
  shows "registry_ok (warm_up t ev name r m src g s)"
proof (rule registry_okI [OF assms(1), of _ t])
  show g: "grows s (warm_up t ev name r m src g s)"
    by (auto simp: grows_def sv_ops warm_up_def Let_def split: prod.splits)
  show "thread_ok (warm_up t ev name r m src g s) (sv_thread (warm_up t ev name r m src g s) t)"
    using registry_ok_functions [OF assms(1), of name] grows_goal_ok [OF g assms(4)] assms(2)
    by (auto simp: sv_ops warm_up_def Let_def entry_of_def new_entry_def split: prod.splits)
qed (use assms(2,3) in \<open>auto simp: sv_ops warm_up_def Let_def entry_of_def new_entry_def split: prod.splits if_splits\<close>)

lemma enter_cases:
  "P (case x of (Permit, g) \<Rightarrow> a g | (Waits, g) \<Rightarrow> b g | (Rejected Closed, g) \<Rightarrow> c g | (Rejected e, g) \<Rightarrow> d e g)
     \<longleftrightarrow> (\<forall>g. x = (Permit, g) \<longrightarrow> P (a g)) \<and> (\<forall>g. x = (Waits, g) \<longrightarrow> P (b g))
       \<and> (\<forall>g. x = (Rejected Closed, g) \<longrightarrow> P (c g)) \<and> (\<forall>e g. x = (Rejected e, g) \<longrightarrow> e \<noteq> Closed \<longrightarrow> P (d e g))"
  by (auto split: prod.split enter_result.split rejected.split)

lemmas sv_splits = option.splits goal.splits sum.splits prod.splits enter_result.splits rejected.splits
  if_splits who.splits

lemma advance_kept:
  assumes "advance t ev (sv_thread s t) s = Some s'" and "\<nexists>n r m src g. sv_thread s t = WarmUp n r m src g"
  shows "kept s s'"
  using assms by (cases "sv_thread s t") (auto simp: sv_ops sv_moves split: sv_splits)

lemma advance_others:
  assumes "advance t ev (sv_thread s t) s = Some s'" and "u \<noteq> t"
  shows "sv_thread s' u = sv_thread s u"
  using assms by (cases "sv_thread s t") (auto simp: sv_ops sv_moves warm_up_def split: sv_splits)

lemma entry_ofD: "entry_of s i n \<Longrightarrow> i < sv_next s" "entry_of s i n \<Longrightarrow> rf_name (en_resolved (sv_entries s i)) = n"
  by (simp_all add: entry_of_def)

lemma advance_thread_ok:
  assumes ok: "registry_ok s" and step: "advance t ev (sv_thread s t) s = Some s'"
    and not_warm: "\<nexists>n r m src g. sv_thread s t = WarmUp n r m src g"
  shows "thread_ok s (sv_thread s' t)"
proof -
  have "thread_ok s (sv_thread s t)"
    by (rule registry_ok_thread [OF ok])
  then show ?thesis
    using step not_warm
    by (cases "sv_thread s t")
      (auto simp: sv_ops sv_moves split: sv_splits
        dest: registry_ok_functions [OF ok] registry_ok_cold [OF ok] entry_ofD
        intro: registry_ok_fits [OF ok] registry_ok_functions [OF ok, THEN entry_ofD(1)])
qed

lemma advance_functions:
  assumes "advance t ev (sv_thread s t) s = Some s'" and "\<nexists>n r m src g. sv_thread s t = WarmUp n r m src g"
    and "sv_functions s' n = Some i"
  shows "sv_functions s n = Some i"
  using assms by (cases "sv_thread s t") (auto simp: sv_ops sv_moves split: sv_splits)

lemma advance_cold:
  assumes ok: "registry_ok s" and step: "advance t ev (sv_thread s t) s = Some s'" and c: "sv_cold s' n = Some c"
  shows "sv_cold s n = Some c \<or> rf_name (co_resolved c) = n \<and> fits (co_resolved c) (co_secrets c)"
proof (cases "\<exists>n i. sv_thread s t = CoolStore n i")
  case True
  then obtain m i where p: "sv_thread s t = CoolStore m i" by blast
  then have i: "entry_of s i m"
    using registry_ok_thread [OF ok, of t] by simp
  have "sv_cold s n = Some c \<or> n = m \<and> co_resolved c = en_resolved (sv_entries s i) \<and> co_secrets c = en_secrets (sv_entries s i)"
    using step c p by (auto simp: sv_ops sv_moves split: if_splits)
  then show ?thesis
    using entry_ofD(2) [OF i] registry_ok_fits [OF ok i] by auto
next
  case False
  then show ?thesis
    using step c by (cases "sv_thread s t") (auto simp: sv_ops sv_moves warm_up_def split: sv_splits)
qed

lemma advance_ok:
  assumes "registry_ok s" and "advance t ev (sv_thread s t) s = Some s'"
  shows "registry_ok s'"
proof (cases "\<exists>n r m src g. sv_thread s t = WarmUp n r m src g")
  case True
  then show ?thesis
    using assms warm_up_ok [OF assms(1)] registry_ok_thread [OF assms(1), of t] by auto
next
  case False
  show ?thesis
    by (rule kept_registry_okI [OF assms(1) advance_kept [OF assms(2) False]
          advance_functions [OF assms(2) False] advance_cold [OF assms] advance_others [OF assms(2)]
          advance_thread_ok [OF assms False]])
qed

lemma apply_ok:
  assumes "registry_ok s" and "well_named e" and "sv_apply e s = Some s'"
  shows "registry_ok s'"
proof (cases e)
  case (Begin t c ev)
  then show ?thesis
    using assms begin_ok [OF assms(1), of t c ev] by (auto split: thread.splits)
next
  case (Step t ev)
  then show ?thesis
    using assms advance_ok [OF assms(1)] by auto
next
  case (Died i)
  then have s': "s' = on_entry i (\<lambda>e. e\<lparr>en_state := Failed\<rparr>) s"
    using assms(3) by (auto split: if_splits)
  show ?thesis
    by (rule kept_registry_okI [OF assms(1), of _ 0])
      (use registry_ok_thread [OF assms(1)] in \<open>auto simp: s' sv_ops kept_def\<close>)
next
  case (Dropped i b)
  then have s': "s' = on_entry i (\<lambda>e. e\<lparr>en_dropped := True\<rparr>) (if b then set_frozen (en_resolved (sv_entries s i)) False s else s)"
    using assms(3) by (auto simp: drop_entry_def Let_def split: if_splits)
  show ?thesis
    by (rule kept_registry_okI [OF assms(1), of _ 0])
      (use registry_ok_thread [OF assms(1)] in \<open>auto simp: s' sv_ops kept_def split: if_splits\<close>)
qed

lemma run_ok:
  "sv_run es s = Some s' \<Longrightarrow> list_all well_named es \<Longrightarrow> registry_ok s \<Longrightarrow> registry_ok s'"
  by (induction es arbitrary: s) (auto simp: bind_eq_Some_conv intro: apply_ok)

lemma start_ok: "registry_ok (sv_start store g)"
  by (simp add: registry_ok_def sv_start_def)

section \<open>Open gates\<close>

definition shut :: "'c supervisor \<Rightarrow> nat \<Rightarrow> bool" where
  "shut s i \<longleftrightarrow> closed (state (en_gate (sv_entries s i)))"

abbreviation name_of :: "'c supervisor \<Rightarrow> nat \<Rightarrow> string" where
  "name_of s i \<equiv> rf_name (en_resolved (sv_entries s i))"

text \<open>The entries a thread has taken out of the registry and is yet to retire.\<close>

fun closing :: "'c thread \<Rightarrow> nat set" where
  "closing (ClearCold _ _ prev _) = set_option prev"
| "closing (RetirePrev _ _ j _) = {j}"
| "closing (StopRetire i) = {i}"
| "closing (CoolStore _ i) = {i}"
| "closing (CoolRetire i) = {i}"
| "closing _ = {}"

definition gates_ok :: "'c supervisor \<Rightarrow> bool" where
  "gates_ok s \<longleftrightarrow>
     (\<forall>n i. sv_functions s n = Some i \<longrightarrow> \<not> shut s i)
     \<and> (\<forall>t. \<forall>i \<in> closing (sv_thread s t). i < sv_next s \<and> sv_functions s (name_of s i) \<noteq> Some i)
     \<and> (\<forall>i < sv_next s. \<not> shut s i \<longrightarrow>
          sv_functions s (name_of s i) = Some i \<or> (\<exists>t. i \<in> closing (sv_thread s t)))"

lemma enter_locked_closed: "enter_locked g = (x, g') \<Longrightarrow> closed (state g') = closed (state g)"
  by (auto simp: enter_locked_def Let_def split: if_splits)

lemma enter_woken_closed: "enter_woken b g = (x, g') \<Longrightarrow> closed (state g') = closed (state g)"
  by (auto simp: enter_woken_def Let_def split: if_splits)

lemma gate_release_closed [simp]: "closed (state (gate_release g)) = closed (state g)"
  by (simp add: gate_release_def)

lemma gate_close_closed [simp]: "closed (state (gate_close g))"
  by (simp add: gate_close_def)

lemma shut_parts [sv_ops]:
  "shut (goto t p s) i = shut s i" "shut (set_frozen r b s) i = shut s i" "shut (set_backoff n k s) i = shut s i"
  "shut (give_turn n s) i = shut s i" "shut (s\<lparr>sv_functions := fs\<rparr>) i = shut s i" "shut (s\<lparr>sv_cold := cs\<rparr>) i = shut s i"
  "shut (s\<lparr>sv_rewarms := rs\<rparr>) i = shut s i" "shut (s\<lparr>sv_turn := ts\<rparr>) i = shut s i"
  "shut (touch ev j s) i = shut s i" "shut (snd (pause_fn ev j s)) i = shut s i"
  "shut (snd (resume_fn ev j s)) i = shut s i"
  "shut (retire j s) i = (i = j \<or> shut s i)"
  by (auto simp: shut_def sv_ops touch_def retire_def on_gate_def)

lemma shut_on_gate: "(\<And>g. closed (state (f g)) = closed (state g)) \<Longrightarrow> shut (on_gate j f s) i = shut s i"
  by (simp add: shut_def on_gate_def sv_ops)

lemma shut_new_gate:
  "closed (state g) = closed (state (en_gate (sv_entries s j))) \<Longrightarrow> shut (on_gate j (\<lambda>_. g) s) i = shut s i"
  by (simp add: shut_def on_gate_def sv_ops)

text \<open>Most steps change neither the registry nor whether a gate is closed.\<close>

definition plain :: "'c thread \<Rightarrow> bool" where
  "plain p \<longleftrightarrow> (case p of WarmUp _ _ _ _ _ \<Rightarrow> False | RetirePrev _ _ _ _ \<Rightarrow> False | StopWarm _ _ \<Rightarrow> False
     | StopRetire _ \<Rightarrow> False | CoolIt _ _ \<Rightarrow> False | CoolRetire _ \<Rightarrow> False | _ \<Rightarrow> True)"

lemma shut_at_door: "shut (at_door t n i k s) j = shut s j"
proof (cases "enter_locked (en_gate (sv_entries s i))")
  case (Pair x g)
  then have "shut (on_gate i (\<lambda>_. g) s) j = shut s j"
    by (rule shut_new_gate [OF enter_locked_closed])
  then show ?thesis
    using Pair by (auto simp: at_door_def shut_parts split: enter_result.splits rejected.splits)
qed

lemma shut_in_queue: "shut (in_queue t ev n i k s) j = shut s j"
proof (cases "enter_woken (keep_waiting (en_gate (sv_entries s i))) (en_gate (sv_entries s i))")
  case (Pair x g)
  then have "shut (on_gate i (\<lambda>_. g) s) j = shut s j"
    by (rule shut_new_gate [OF enter_woken_closed])
  then show ?thesis
    using Pair by (auto simp: in_queue_def Let_def shut_parts split: enter_result.splits rejected.splits)
qed

lemma advance_plain_functions:
  assumes "advance t ev (sv_thread s t) s = Some s'" and "plain (sv_thread s t)"
  shows "sv_functions s' = sv_functions s"
  using assms by (cases "sv_thread s t") (auto simp: plain_def sv_ops sv_moves split: sv_splits)

lemma advance_plain_closing:
  assumes "advance t ev (sv_thread s t) s = Some s'" and "plain (sv_thread s t)"
  shows "closing (sv_thread s' t) = closing (sv_thread s t)"
  using assms by (cases "sv_thread s t") (auto simp: plain_def sv_ops sv_moves split: sv_splits)

lemma advance_plain_shut:
  assumes "advance t ev (sv_thread s t) s = Some s'" and "plain (sv_thread s t)"
  shows "shut s' i = shut s i"
proof (cases "sv_thread s t")
  case (AtDoor n j k)
  then show ?thesis using assms by (auto simp: shut_at_door)
next
  case (Queued n j k)
  then show ?thesis using assms by (auto simp: shut_in_queue)
qed (use assms in \<open>auto simp: plain_def sv_ops sv_moves shut_on_gate split: sv_splits\<close>)

lemma gates_okI:
  assumes "gates_ok s" and "kept s s'" and "sv_functions s' = sv_functions s" and "\<And>i. shut s' i = shut s i"
    and "\<And>u. closing (sv_thread s' u) = closing (sv_thread s u)"
  shows "gates_ok s'"
  using assms unfolding gates_ok_def kept_def by simp

lemma gates_ok_closing:
  "gates_ok s \<Longrightarrow> i \<in> closing (sv_thread s t) \<Longrightarrow> i < sv_next s \<and> sv_functions s (name_of s i) \<noteq> Some i"
  by (auto simp: gates_ok_def)

lemma gates_ok_registered: "gates_ok s \<Longrightarrow> sv_functions s n = Some i \<Longrightarrow> \<not> shut s i"
  by (auto simp: gates_ok_def)

lemma gates_ok_open:
  "gates_ok s \<Longrightarrow> i < sv_next s \<Longrightarrow> \<not> shut s i \<Longrightarrow>
     sv_functions s (name_of s i) = Some i \<or> (\<exists>t. i \<in> closing (sv_thread s t))"
  by (auto simp: gates_ok_def)

text \<open>A thread retires an entry it had taken out, and goes on with nothing to retire.\<close>

lemma retire_gates_ok:
  assumes ok: "registry_ok s" "gates_ok s" and j: "closing (sv_thread s t) = {j}" and p: "closing p = {}"
  shows "gates_ok (goto t p (retire j s))"
proof -
  let ?s = "goto t p (retire j s)"
  have k: "kept s ?s" by (simp add: sv_ops)
  have f: "sv_functions s n \<noteq> Some j" for n
    using gates_ok_closing [OF ok(2), of j t] registry_ok_functions [OF ok(1), of n j] j by (auto simp: entry_of_def)
  have c: "closing (sv_thread ?s u) = (if u = t then {} else closing (sv_thread s u))" for u
    using p by (simp add: sv_ops)
  show ?thesis
    unfolding gates_ok_def
  proof (intro conjI allI ballI impI)
    fix n i assume "sv_functions ?s n = Some i"
    then have "sv_functions s n = Some i" "i \<noteq> j" using f by (auto simp: sv_ops)
    then show "\<not> shut ?s i" using gates_ok_registered [OF ok(2)] by (auto simp: sv_ops)
  next
    fix u i assume "i \<in> closing (sv_thread ?s u)"
    then have "i \<in> closing (sv_thread s u)" using c by (auto split: if_splits)
    from gates_ok_closing [OF ok(2) this] show "i < sv_next ?s" "sv_functions ?s (name_of ?s i) \<noteq> Some i"
      using k by (auto simp: sv_ops kept_def)
  next
    fix i assume i: "i < sv_next ?s" "\<not> shut ?s i"
    then have "i \<noteq> j" "sv_functions s (name_of s i) = Some i \<or> (\<exists>u. i \<in> closing (sv_thread s u))"
      using gates_ok_open [OF ok(2), of i] by (auto simp: sv_ops)
    then show "sv_functions ?s (name_of ?s i) = Some i \<or> (\<exists>u. i \<in> closing (sv_thread ?s u))"
    proof (elim disjE exE)
      assume "sv_functions s (name_of s i) = Some i"
      then show ?thesis using k by (simp add: sv_ops kept_def)
    next
      fix u assume "i \<in> closing (sv_thread s u)"
      then have "i \<in> closing (sv_thread ?s u)" using c j \<open>i \<noteq> j\<close> by auto
      then show ?thesis by blast
    qed
  qed
qed

text \<open>A thread takes the entry of a name out of the registry, and is to retire it.\<close>

lemma take_out_gates_ok:
  assumes ok: "registry_ok s" "gates_ok s" and j: "sv_functions s name = Some j" and q: "closing (sv_thread s t) = {}"
    and p: "closing p = {j}"
  shows "gates_ok (goto t p (s\<lparr>sv_functions := (sv_functions s)(name := None)\<rparr>))"
proof -
  let ?s = "goto t p (s\<lparr>sv_functions := (sv_functions s)(name := None)\<rparr>)"
  have k: "kept s ?s" by (simp add: sv_ops)
  have nj: "name_of s j = name" "j < sv_next s"
    using registry_ok_functions [OF ok(1) j] by (auto simp: entry_of_def)
  have c: "closing (sv_thread ?s u) = (if u = t then {j} else closing (sv_thread s u))" for u
    using p by (simp add: sv_ops)
  show ?thesis
    unfolding gates_ok_def
  proof (intro conjI allI ballI impI)
    fix n i assume "sv_functions ?s n = Some i"
    then show "\<not> shut ?s i" using gates_ok_registered [OF ok(2)] by (auto simp: sv_ops split: if_splits)
  next
    fix u i assume "i \<in> closing (sv_thread ?s u)"
    then have "i = j \<or> i \<in> closing (sv_thread s u)" using c by (auto split: if_splits)
    then show "i < sv_next ?s" "sv_functions ?s (name_of ?s i) \<noteq> Some i"
      using gates_ok_closing [OF ok(2), of i u] k nj by (auto simp: sv_ops kept_def)
  next
    fix i assume i: "i < sv_next ?s" "\<not> shut ?s i"
    then have "sv_functions s (name_of s i) = Some i \<or> (\<exists>u. i \<in> closing (sv_thread s u))"
      using gates_ok_open [OF ok(2), of i] by (auto simp: sv_ops)
    then show "sv_functions ?s (name_of ?s i) = Some i \<or> (\<exists>u. i \<in> closing (sv_thread ?s u))"
    proof
      assume f: "sv_functions s (name_of s i) = Some i"
      show ?thesis
      proof (cases "name_of s i = name")
        case True
        then have "i \<in> closing (sv_thread ?s t)" using f j c by simp
        then show ?thesis by blast
      next
        case False
        then show ?thesis using f k by (simp add: sv_ops kept_def)
      qed
    next
      assume "\<exists>u. i \<in> closing (sv_thread s u)"
      then obtain u where "i \<in> closing (sv_thread s u)" by blast
      then have "i \<in> closing (sv_thread ?s u)" using c q by auto
      then show ?thesis by blast
    qed
  qed
qed

lemma gate_named_open [simp]: "\<not> closed (state (fst (gate_named g n c q)))"
  by (simp add: gate_named_def)

text \<open>A warmed sandbox takes the place of the one under its name.\<close>

lemma put_in_gates_ok:
  assumes ok: "registry_ok s" "gates_ok s" and r: "rf_name r = name" and q: "closing (sv_thread s t) = {}"
    and e: "en_resolved e = r" "\<not> closed (state (en_gate e))"
  shows "gates_ok (goto t (ClearCold name (sv_next s) (sv_functions s name) g)
    (s\<lparr>sv_entries := (sv_entries s)(sv_next s := e), sv_next := sv_next s + 1, sv_generation := n,
       sv_functions := (sv_functions s)(name \<mapsto> sv_next s)\<rparr>))" (is "gates_ok ?s")
proof -
  have c: "closing (sv_thread ?s u) = (if u = t then set_option (sv_functions s name) else closing (sv_thread s u))" for u
    by (simp add: sv_ops)
  have old: "name_of ?s i = name_of s i" "shut ?s i = shut s i" if "i < sv_next s" for i
    using that by (simp_all add: sv_ops shut_def)
  have new: "name_of ?s (sv_next s) = name" "\<not> shut ?s (sv_next s)"
    using e r by (simp_all add: sv_ops shut_def)
  show ?thesis
    unfolding gates_ok_def
  proof (intro conjI allI ballI impI)
    fix m i assume m: "sv_functions ?s m = Some i"
    show "\<not> shut ?s i"
    proof (cases "m = name")
      case True
      then show ?thesis using m new by (simp add: sv_ops)
    next
      case False
      then have f: "sv_functions s m = Some i" using m by (simp add: sv_ops)
      then have "i < sv_next s" using registry_ok_functions [OF ok(1)] by (auto simp: entry_of_def)
      then show ?thesis using gates_ok_registered [OF ok(2) f] old by simp
    qed
  next
    fix u i assume "i \<in> closing (sv_thread ?s u)"
    then have "sv_functions s name = Some i \<or> i \<in> closing (sv_thread s u)" using c by (auto split: if_splits)
    then have i: "i < sv_next s" "name_of s i = name \<or> sv_functions s (name_of s i) \<noteq> Some i"
      using gates_ok_closing [OF ok(2), of i u] registry_ok_functions [OF ok(1), of name i] by (auto simp: entry_of_def)
    then show "i < sv_next ?s" "sv_functions ?s (name_of ?s i) \<noteq> Some i"
      using old(1) [OF i(1)] by (auto simp: sv_ops split: if_splits)
  next
    fix i assume i: "i < sv_next ?s" "\<not> shut ?s i"
    show "sv_functions ?s (name_of ?s i) = Some i \<or> (\<exists>u. i \<in> closing (sv_thread ?s u))"
    proof (cases "i = sv_next s")
      case True
      then show ?thesis using new by (simp add: sv_ops)
    next
      case False
      then have l: "i < sv_next s" using i(1) by (simp add: sv_ops)
      then have "sv_functions s (name_of s i) = Some i \<or> (\<exists>u. i \<in> closing (sv_thread s u))"
        using gates_ok_open [OF ok(2), of i] i(2) old by simp
      then show ?thesis
      proof
        assume f: "sv_functions s (name_of s i) = Some i"
        show ?thesis
        proof (cases "name_of s i = name")
          case True
          then have "i \<in> closing (sv_thread ?s t)" using f c by simp
          then show ?thesis by blast
        next
          case False
          then show ?thesis using f old(1) [OF l] by (simp add: sv_ops)
        qed
      next
        assume "\<exists>u. i \<in> closing (sv_thread s u)"
        then obtain u where "i \<in> closing (sv_thread s u)" by blast
        then have "i \<in> closing (sv_thread ?s u)" using c q by auto
        then show ?thesis by blast
      qed
    qed
  qed
qed

lemma advance_gates_ok:
  assumes ok: "registry_ok s" "gates_ok s" and step: "advance t ev (sv_thread s t) s = Some s'"
  shows "gates_ok s'"
proof (cases "plain (sv_thread s t)")
  case True
  have w: "\<nexists>n r m src g. sv_thread s t = WarmUp n r m src g"
    using True by (auto simp: plain_def)
  have "closing (sv_thread s' u) = closing (sv_thread s u)" for u
    using advance_plain_closing [OF step True] advance_others [OF step] by (cases "u = t") auto
  then show ?thesis
    by (rule gates_okI [OF ok(2) advance_kept [OF step w] advance_plain_functions [OF step True]
          advance_plain_shut [OF step True]])
next
  case False
  have quiet: "gates_ok (goto t p s)" if "closing (sv_thread s t) = {}" "closing p = {}" for p
    by (rule gates_okI [OF ok(2)]) (use that in \<open>auto simp: sv_ops\<close>)
  show ?thesis
  proof (cases "sv_thread s t")
    case (WarmUp n r m src g)
    have r: "rf_name r = n"
      using registry_ok_thread [OF ok(1), of t] WarmUp by simp
    show ?thesis
    proof (cases "\<not> ev_ok ev")
      case True
      then show ?thesis
        using step WarmUp quiet [of "NotThere n g WarmFailed"] by (simp add: warm_up_def)
    next
      case False
      then show ?thesis
        using step WarmUp put_in_gates_ok [OF ok r, of t "new_entry ev (fst (gate_named (sv_generation s) n
            (word_of_nat (rf_concurrency r)) (default_queue_limit (word_of_nat (rf_concurrency r))))) r m src" g]
        by (auto simp: warm_up_def Let_def new_entry_def split: prod.splits)
    qed
  next
    case (StopWarm n b)
    then show ?thesis
      using step take_out_gates_ok [OF ok, of n _ t] gates_okI [OF ok(2)]
      by (cases "sv_functions s n") (auto simp: stop_warm_def sv_ops fun_upd_idem)
  next
    case (CoolIt n i)
    then show ?thesis
      using step take_out_gates_ok [OF ok, of n i t] quiet by (auto simp: cool_remove_def)
  qed (use False step retire_gates_ok [OF ok, of t] in \<open>auto simp: plain_def\<close>)
qed

lemma apply_gates_ok:
  assumes "registry_ok s" and "gates_ok s" and "sv_apply e s = Some s'"
  shows "gates_ok s'"
proof (cases e)
  case (Begin t c ev)
  then have i: "sv_thread s t = Idle" and s': "s' = begin_command t ev c s"
    using assms(3) by (auto split: thread.splits)
  show ?thesis
    unfolding s'
  proof (rule gates_okI [OF assms(2)])
    show "kept s (begin_command t ev c s)"
      by (cases c) (auto simp: sv_ops sv_moves)
    show "closing (sv_thread (begin_command t ev c s) u) = closing (sv_thread s u)" for u
      using i by (cases c) (auto simp: sv_ops sv_moves split: sv_splits)
  qed (cases c; auto simp: sv_ops sv_moves)+
next
  case (Step t ev)
  then show ?thesis
    using assms advance_gates_ok by auto
next
  case (Died i)
  then have s': "s' = on_entry i (\<lambda>e. e\<lparr>en_state := Failed\<rparr>) s"
    using assms(3) by (auto split: if_splits)
  show ?thesis
    by (rule gates_okI [OF assms(2)]) (auto simp: s' sv_ops kept_def shut_def)
next
  case (Dropped i b)
  then have s': "s' = on_entry i (\<lambda>e. e\<lparr>en_dropped := True\<rparr>) (if b then set_frozen (en_resolved (sv_entries s i)) False s else s)"
    using assms(3) by (auto simp: drop_entry_def Let_def split: if_splits)
  show ?thesis
    by (rule gates_okI [OF assms(2)]) (auto simp: s' sv_ops kept_def shut_def)
qed

lemma run_gates_ok:
  "sv_run es s = Some s' \<Longrightarrow> list_all well_named es \<Longrightarrow> registry_ok s \<Longrightarrow> gates_ok s \<Longrightarrow> gates_ok s'"
  by (induction es arbitrary: s) (auto simp: bind_eq_Some_conv intro: apply_ok apply_gates_ok)

lemma start_gates_ok: "gates_ok (sv_start store g)"
  by (simp add: gates_ok_def sv_start_def)

section \<open>Every entry's gate is a gate\<close>

text \<open>
  What one entry's gate goes through in the registry is a run of the gate's own step relation:
  the threads admitted to the entry hold its permits, the queued ones wait.
\<close>

fun role :: "'c thread \<Rightarrow> (nat \<times> bool) option" where
  "role (Admitted _ i) = Some (i, True)"
| "role (Running _ i) = Some (i, True)"
| "role (Queued _ i _) = Some (i, False)"
| "role _ = None"

definition gate_view :: "'c supervisor \<Rightarrow> nat \<Rightarrow> nat gate_sys" where
  "gate_view s i =
     \<lparr>the_gate = en_gate (sv_entries s i), holders = {t. role (sv_thread s t) = Some (i, True)},
      sleeping = {}, awake = {t. role (sv_thread s t) = Some (i, False)}\<rparr>"

lemma gate_view_cong:
  "en_gate (sv_entries s' i) = en_gate (sv_entries s i) \<Longrightarrow>
   (\<And>u. role (sv_thread s' u) = Some (i, True) \<longleftrightarrow> role (sv_thread s u) = Some (i, True)) \<Longrightarrow>
   (\<And>u. role (sv_thread s' u) = Some (i, False) \<longleftrightarrow> role (sv_thread s u) = Some (i, False)) \<Longrightarrow>
   gate_view s' i = gate_view s i"
  by (simp add: gate_view_def)

lemma gate_reach_one: "gate_step s t \<Longrightarrow> gate_reach s t"
  using gate_reach.intros by blast

lemma enter_view:
  assumes p: "sv_thread s t = AtDoor n i k"
  shows "gate_reach (gate_view s j) (gate_view (at_door t n i k s) j)"
proof (cases "j = i")
  case False
  then have "gate_view (at_door t n i k s) j = gate_view s j"
    by (intro gate_view_cong) (auto simp: at_door_def on_gate_def sv_ops p split: prod.splits enter_result.splits rejected.splits)
  then show ?thesis by (simp add: reach_refl)
next
  case True
  let ?v = "gate_view s i"
  have idle: "idle ?v t"
    by (simp add: idle_def gate_view_def p)
  obtain x g where e: "enter_locked (the_gate ?v) = (x, g)"
    by (cases "enter_locked (the_gate ?v)")
  have e': "enter_locked (en_gate (sv_entries s i)) = (x, g)"
    using e by (simp add: gate_view_def)
  show ?thesis
  proof (cases x)
    case Permit
    then have "gate_view (at_door t n i k s) i = ?v\<lparr>the_gate := g, holders := insert t (holders ?v)\<rparr>"
      using e' p by (auto simp: at_door_def on_gate_def sv_ops gate_view_def)
    then show ?thesis
      using arrive_permit [OF idle] e Permit True by (simp add: gate_reach_one)
  next
    case Waits
    let ?w = "?v\<lparr>the_gate := g, sleeping := insert t (sleeping ?v)\<rparr>"
    have "gate_view (at_door t n i k s) i = ?w\<lparr>sleeping := sleeping ?w - {t}, awake := insert t (awake ?w)\<rparr>"
      using e' p Waits by (auto simp: at_door_def on_gate_def sv_ops gate_view_def)
    moreover have "gate_step ?v ?w"
      using arrive_waits [OF idle] e Waits by simp
    moreover have "gate_step ?w (?w\<lparr>sleeping := sleeping ?w - {t}, awake := insert t (awake ?w)\<rparr>)"
      by (rule wake_up) simp
    ultimately show ?thesis
      using reach_step [OF gate_reach_one] True by simp
  next
    case (Rejected r)
    then have "g = the_gate ?v"
      using e by (simp add: enter_locked_Rejected)
    then have "gate_view (at_door t n i k s) i = ?v"
      using e' p Rejected
      by (intro gate_view_cong) (auto simp: at_door_def on_gate_def sv_ops split: rejected.splits)
    then show ?thesis
      using True by (simp add: reach_refl)
  qed
qed

lemma leave_queue_view:
  assumes p: "sv_thread s t = Queued n i k" and w: "enter_woken (keep_waiting (en_gate (sv_entries s i))) (en_gate (sv_entries s i)) = (x, g)"
    and q: "role q = (if x = Permit then Some (i, True) else None)"
  shows "gate_reach (gate_view s i) (gate_view (goto t q (on_gate i (\<lambda>_. g) s)) i)"
proof -
  let ?v = "gate_view s i"
  have t: "t \<in> awake ?v" and gt: "the_gate ?v = en_gate (sv_entries s i)"
    by (simp_all add: gate_view_def p)
  consider (permit) "x = Permit" | (rejected) r where "x = Rejected r"
    using w by (cases x) (auto simp: enter_woken_def Let_def split: if_splits)
  then show ?thesis
  proof cases
    case permit
    then have "\<not> keep_waiting (en_gate (sv_entries s i))"
      using w by (auto simp: enter_woken_def Let_def keep_waiting_def split: if_splits)
    moreover have "gate_view (goto t q (on_gate i (\<lambda>_. g) s)) i =
        ?v\<lparr>the_gate := g, awake := awake ?v - {t}, holders := insert t (holders ?v)\<rparr>"
      using q permit by (auto simp: on_gate_def sv_ops gate_view_def)
    ultimately show ?thesis
      using woken_permit [OF t] w gt permit by (simp add: gate_reach_one)
  next
    case rejected
    have "gate_view (goto t q (on_gate i (\<lambda>_. g) s)) i = ?v\<lparr>the_gate := g, awake := awake ?v - {t}\<rparr>"
      using q rejected p by (auto simp: on_gate_def sv_ops gate_view_def)
    then show ?thesis
      using woken_closed [OF t] woken_expired [OF t] w gt rejected
      by (cases "keep_waiting (en_gate (sv_entries s i))") (simp_all add: gate_reach_one)
  qed
qed

lemma queue_view:
  assumes p: "sv_thread s t = Queued n i k"
  shows "gate_reach (gate_view s j) (gate_view (in_queue t ev n i k s) j)"
proof (cases "j = i")
  case False
  then have "gate_view (in_queue t ev n i k s) j = gate_view s j"
    by (intro gate_view_cong)
      (auto simp: in_queue_def Let_def on_gate_def sv_ops p split: prod.splits enter_result.splits rejected.splits)
  then show ?thesis by (simp add: reach_refl)
next
  case True
  obtain x g where w: "enter_woken (keep_waiting (en_gate (sv_entries s i))) (en_gate (sv_entries s i)) = (x, g)"
    by fastforce
  have "\<exists>q. in_queue t ev n i k s = goto t q (on_gate i (\<lambda>_. g) s) \<and> role q = (if x = Permit then Some (i, True) else None)"
    using w by (auto simp: in_queue_def split: enter_result.splits rejected.splits)
  then show ?thesis
    using leave_queue_view [OF p w] True by auto
qed

lemma release_view:
  assumes p: "role (sv_thread s t) = Some (i, True)" and q: "role q = None"
  shows "gate_reach (gate_view s j) (gate_view (goto t q (on_gate i gate_release s)) j)"
proof (cases "j = i")
  case False
  then have "gate_view (goto t q (on_gate i gate_release s)) j = gate_view s j"
    using p q by (intro gate_view_cong) (auto simp: on_gate_def sv_ops)
  then show ?thesis by (simp add: reach_refl)
next
  case True
  let ?v = "gate_view s i"
  have "gate_view (goto t q (on_gate i gate_release s)) i =
      ?v\<lparr>the_gate := gate_release (the_gate ?v), holders := holders ?v - {t}\<rparr>"
    using p q by (auto simp: on_gate_def sv_ops gate_view_def)
  then show ?thesis
    using release_alone [of t ?v] p True by (simp add: gate_view_def gate_reach_one)
qed

lemma retire_view:
  assumes p: "role (sv_thread s t) = None" and q: "role q = None"
  shows "gate_reach (gate_view s j) (gate_view (goto t q (retire i s)) j)"
proof (cases "j = i")
  case False
  then have "gate_view (goto t q (retire i s)) j = gate_view s j"
    using p q by (intro gate_view_cong) (auto simp: retire_def on_gate_def sv_ops)
  then show ?thesis by (simp add: reach_refl)
next
  case True
  let ?v = "gate_view s i"
  have "gate_view (goto t q (retire i s)) i =
      ?v\<lparr>the_gate := gate_close (the_gate ?v), awake := awake ?v \<union> sleeping ?v, sleeping := {}\<rparr>"
    using p q by (auto simp: retire_def on_gate_def sv_ops gate_view_def)
  then show ?thesis
    using close [of ?v] True by (simp add: gate_reach_one)
qed

lemma resume_role [sv_ops]: "gate_view (snd (resume_fn ev i s)) j = gate_view s j"
  by (simp add: gate_view_def sv_ops)

lemma advance_view:
  assumes step: "advance t ev (sv_thread s t) s = Some s'" and j: "j < sv_next s"
  shows "gate_reach (gate_view s j) (gate_view s' j)"
proof (cases "sv_thread s t")
  case (AtDoor n i k)
  then show ?thesis using step enter_view [OF AtDoor] by simp
next
  case (Queued n i k)
  then show ?thesis using step queue_view [OF Queued, of j ev] by auto
next
  case (Admitted n i)
  show ?thesis
  proof (cases "fst (resume_fn ev i s)")
    case True
    then have "gate_view s' j = gate_view s j"
      using step Admitted by (intro gate_view_cong) (auto simp: admitted_fn_alt sv_ops split: if_splits)
    then show ?thesis by (simp add: reach_refl)
  next
    case False
    then show ?thesis
      using step Admitted release_view [of "snd (resume_fn ev i s)" t i "Replied CallRefused" j]
      by (simp add: admitted_fn_alt sv_ops)
  qed
next
  case (Running n i)
  then have "s' = goto t (Touch i (if ev_ok ev then Executed else CallRefused)) (on_gate i gate_release s)"
    using step by (simp add: finish_call_def)
  moreover have "role (sv_thread s t) = Some (i, True)"
    using Running by simp
  ultimately show ?thesis
    using release_view [of s t i] by simp
next
  case (RetirePrev n i k g)
  then have "s' = goto t (Found n i g) (retire k s)" and "role (sv_thread s t) = None"
    using step by simp_all
  then show ?thesis
    using retire_view [of s t _ j k] by simp
next
  case (StopRetire i)
  then have "s' = goto t (Replied StoppedReply) (retire i s)" and "role (sv_thread s t) = None"
    using step by simp_all
  then show ?thesis
    using retire_view [of s t _ j i] by simp
next
  case (CoolRetire i)
  then have "s' = goto t (Replied Quiet) (retire i s)" and "role (sv_thread s t) = None"
    using step by simp_all
  then show ?thesis
    using retire_view [of s t _ j i] by simp
next
  case (WarmUp n r m src g)
  have "gate_view s' j = gate_view s j"
    using step WarmUp j by (intro gate_view_cong) (auto simp: warm_up_def Let_def sv_ops split: if_splits prod.splits)
  then show ?thesis by (simp add: reach_refl)
qed (use step in \<open>(subst gate_view_cong [of s' j s];
      auto simp: sv_ops sv_moves touch_def reach_refl split: sv_splits)+\<close>)

text \<open>Each entry has a gate of its function's concurrency, kept within its bounds.\<close>

definition bounded :: "'c supervisor \<Rightarrow> bool" where
  "bounded s \<longleftrightarrow>
     (\<forall>i < sv_next s. accounted (gate_view s i)
        \<and> limit (en_gate (sv_entries s i)) = max (word_of_nat (rf_concurrency (en_resolved (sv_entries s i)))) 1)"

lemma gate_reach_accounted: "gate_reach v w \<Longrightarrow> accounted v \<Longrightarrow> accounted w"
  by (induction rule: gate_reach.induct) (auto intro: gate_step_accounted)

lemma bounded_step:
  assumes "bounded s" and "\<And>j. j < sv_next s \<Longrightarrow> gate_reach (gate_view s j) (gate_view s' j)" and "kept s s'"
  shows "bounded s'"
  unfolding bounded_def
proof (intro allI impI)
  fix i assume "i < sv_next s'"
  then have i: "i < sv_next s" using assms(3) by (simp add: kept_def)
  have "limit (the_gate (gate_view s' i)) = limit (the_gate (gate_view s i))"
    using gate_reach_limits [OF assms(2) [OF i]] by simp
  moreover have "accounted (gate_view s' i)"
    using assms(1) i by (intro gate_reach_accounted [OF assms(2) [OF i]]) (simp add: bounded_def)
  ultimately show "accounted (gate_view s' i)
      \<and> limit (en_gate (sv_entries s' i)) = max (word_of_nat (rf_concurrency (en_resolved (sv_entries s' i)))) 1"
    using assms(1,3) i by (simp add: bounded_def gate_view_def kept_def)
qed

lemma role_old:
  assumes "registry_ok s" and "role (sv_thread s t) = Some (i, b)"
  shows "i < sv_next s"
  using registry_ok_thread [OF assms(1), of t] assms(2)
  by (cases "sv_thread s t") (auto simp: entry_of_def)

lemma put_in_bounded:
  assumes ok: "registry_ok s" "bounded s" and q: "sv_thread s t = WarmUp name r m src g"
    and e: "en_resolved e = r" "\<exists>k ql. en_gate e = fst (gate_named k name (word_of_nat (rf_concurrency r)) ql)"
  shows "bounded (goto t (ClearCold name (sv_next s) p g)
    (s\<lparr>sv_entries := (sv_entries s)(sv_next s := e), sv_next := sv_next s + 1, sv_generation := n,
       sv_functions := fs\<rparr>))" (is "bounded ?s")
  unfolding bounded_def
proof (intro allI impI)
  fix i assume i: "i < sv_next ?s"
  show "accounted (gate_view ?s i)
      \<and> limit (en_gate (sv_entries ?s i)) = max (word_of_nat (rf_concurrency (en_resolved (sv_entries ?s i)))) 1"
  proof (cases "i = sv_next s")
    case True
    have "gate_view ?s i = initial_sys (en_gate e)"
      using role_old [OF ok(1)] True by (auto simp: gate_view_def initial_sys_def sv_ops)
    moreover have "accounted (initial_sys (en_gate e))"
      using e(2) conjunct1 [OF named_invariant] by auto
    moreover have "limit (en_gate e) = max (word_of_nat (rf_concurrency r)) 1"
      using e(2) by (auto simp: gate_named_def)
    ultimately show ?thesis
      using e(1) True by (simp add: sv_ops)
  next
    case False
    then have "gate_view ?s i = gate_view s i"
      using q by (intro gate_view_cong) (auto simp: sv_ops)
    then show ?thesis
      using False i ok(2) by (simp add: sv_ops bounded_def)
  qed
qed

lemma apply_bounded:
  assumes ok: "registry_ok s" "bounded s" and "sv_apply e s = Some s'"
  shows "bounded s'"
proof (cases e)
  case (Begin t c ev)
  then have i: "sv_thread s t = Idle" and s': "s' = begin_command t ev c s"
    using assms(3) by (auto split: thread.splits)
  have "gate_view s' j = gate_view s j" for j
    unfolding s' using i by (intro gate_view_cong; cases c) (auto simp: sv_ops sv_moves split: sv_splits)
  moreover have "kept s s'"
    unfolding s' by (cases c) (auto simp: sv_ops sv_moves)
  ultimately show ?thesis
    by (intro bounded_step [OF ok(2)]) (simp_all add: reach_refl)
next
  case (Step t ev)
  then have step: "advance t ev (sv_thread s t) s = Some s'"
    using assms(3) by simp
  show ?thesis
  proof (cases "\<exists>n r m src g. sv_thread s t = WarmUp n r m src g")
    case True
    then obtain n r m src g where w: "sv_thread s t = WarmUp n r m src g" by blast
    show ?thesis
    proof (cases "\<not> ev_ok ev")
      case True
      then have s': "s' = goto t (NotThere n g WarmFailed) s"
        using step w by (simp add: warm_up_def)
      have "gate_view s' j = gate_view s j" for j
        unfolding s' using w by (intro gate_view_cong) (auto simp: sv_ops)
      then show ?thesis
        by (intro bounded_step [OF ok(2)]) (simp_all add: reach_refl s' sv_ops)
    next
      case False
      let ?gn = "gate_named (sv_generation s) n (word_of_nat (rf_concurrency r)) (default_queue_limit (word_of_nat (rf_concurrency r)))"
      have "en_gate (new_entry ev (fst ?gn) r m src) = fst ?gn" "en_resolved (new_entry ev (fst ?gn) r m src) = r"
        by (simp_all add: new_entry_def)
      then have "bounded (goto t (ClearCold n (sv_next s) (sv_functions s n) g)
          (s\<lparr>sv_entries := (sv_entries s)(sv_next s := new_entry ev (fst ?gn) r m src), sv_next := sv_next s + 1,
             sv_generation := snd ?gn, sv_functions := (sv_functions s)(n \<mapsto> sv_next s)\<rparr>))"
        by (intro put_in_bounded [OF ok w]) blast+
      then show ?thesis
        using step w False by (simp add: warm_up_def Let_def split_beta)
    qed
  next
    case False
    show ?thesis
      by (rule bounded_step [OF ok(2) advance_view [OF step] advance_kept [OF step False]])
  qed
next
  case (Died i)
  then have s': "s' = on_entry i (\<lambda>e. e\<lparr>en_state := Failed\<rparr>) s"
    using assms(3) by (auto split: if_splits)
  have "gate_view s' j = gate_view s j" for j
    unfolding s' by (rule gate_view_cong) (auto simp: sv_ops)
  then show ?thesis
    by (intro bounded_step [OF ok(2)]) (auto simp: reach_refl s' sv_ops kept_def)
next
  case (Dropped i b)
  then have s': "s' = on_entry i (\<lambda>e. e\<lparr>en_dropped := True\<rparr>) (if b then set_frozen (en_resolved (sv_entries s i)) False s else s)"
    using assms(3) by (auto simp: drop_entry_def Let_def split: if_splits)
  have "gate_view s' j = gate_view s j" for j
    unfolding s' by (rule gate_view_cong) (auto simp: sv_ops)
  then show ?thesis
    by (intro bounded_step [OF ok(2)]) (auto simp: reach_refl s' sv_ops kept_def)
qed

lemma run_bounded:
  "sv_run es s = Some s' \<Longrightarrow> list_all well_named es \<Longrightarrow> registry_ok s \<Longrightarrow> bounded s \<Longrightarrow> bounded s'"
  by (induction es arbitrary: s) (auto simp: bind_eq_Some_conv intro: apply_ok apply_bounded)

lemma start_bounded: "bounded (sv_start store g)"
  by (simp add: bounded_def sv_start_def)

end
