(* ===== verification/Zygo_Registry_Properties.thy ===== *)
theory Zygo_Registry_Properties
  imports Zygo_Registry_Laws
begin

text \<open>
  The properties of the registry: what every interleaving keeps, what a command does when it is
  not disturbed, and the schedules under which a stop is undone and a request runs on a frozen
  sandbox.
\<close>

section \<open>A small run\<close>

lemma one_le_max [simp]: "0 < max c (1 :: u32)"
  by (rule less_le_trans [OF _ max.cobounded2]) simp

definition at_time :: "nat \<Rightarrow> env" where
  "at_time n = \<lparr>ev_now = n, ev_ok = True, ev_digest = (\<lambda>_. None)\<rparr>"

lemma at_time_sel [simp]: "ev_now (at_time n) = n" "ev_ok (at_time n)" "ev_digest (at_time n) = (\<lambda>_. None)"
  by (simp_all add: at_time_def)

text \<open>The steps of a thread that is alone, one after another.\<close>

definition steps :: "nat \<Rightarrow> nat \<Rightarrow> nat \<Rightarrow> 'c event list" where
  "steps t n k = replicate k (Step t (at_time n))"

lemma sv_run_append: "sv_run (xs @ ys) s = Option.bind (sv_run xs s) (sv_run ys)"
  by (induction xs arbitrary: s) (auto split: bind_splits)

lemma sv_run_two: "sv_run xs s = Some s1 \<Longrightarrow> sv_run ys s1 = r \<Longrightarrow> sv_run (xs @ ys) s = r"
  by (simp add: sv_run_append)

section \<open>A stopped name stays stopped\<close>

text \<open>A thread that is not about to bring a name back.\<close>

fun away :: "string \<Rightarrow> 'c thread \<Rightarrow> bool" where
  "away name (LookWarm n g) = (n \<noteq> name \<or> (\<exists>w. g = Fresh w) \<or> (\<exists>i k. g = Redirect i k))"
| "away name (LookCold n g) = (n \<noteq> name \<or> (\<exists>w. g = Fresh w) \<or> (\<exists>i k. g = Redirect i k))"
| "away name (NotThere n g _) = (n \<noteq> name \<or> (\<forall>i w. g \<noteq> Recheck i w))"
| "away name (WarmUp n _ _ _ _) = (n \<noteq> name)"
| "away name (ClearCold n _ _ _) = (n \<noteq> name)"
| "away name (RetirePrev n _ _ _) = (n \<noteq> name)"
| "away name (Found n _ _) = (n \<noteq> name)"
| "away name (TakeTurn n _ _) = (n \<noteq> name)"
| "away name (Judge n _ _) = (n \<noteq> name)"
| "away name (CoolStore n _) = (n \<noteq> name)"
| "away name (Compare n _ _ _) = (n \<noteq> name)"
| "away name (CompareCold n _ _ _) = (n \<noteq> name)"
| "away name _ = True"

definition gone :: "string \<Rightarrow> 'c supervisor \<Rightarrow> bool" where
  "gone name s \<longleftrightarrow> sv_functions s name = None \<and> sv_cold s name = None \<and> (\<forall>t. away name (sv_thread s t))"

text \<open>The events that say anew what the name should be.\<close>

fun serves :: "string \<Rightarrow> 'c event \<Rightarrow> bool" where
  "serves name (Begin _ (Serve n _ _ _ _) _) = (n = name)"
| "serves name _ = False"

lemma goneI:
  assumes "gone name s" and "sv_functions s' name = None" and "sv_cold s' name = None"
    and "\<And>u. u \<noteq> t \<Longrightarrow> sv_thread s' u = sv_thread s u" and "away name (sv_thread s' t)"
  shows "gone name s'"
  unfolding gone_def
proof (intro conjI allI)
  fix u show "away name (sv_thread s' u)"
    using assms by (cases "u = t") (auto simp: gone_def)
qed (use assms in auto)

lemma advance_gone:
  assumes g: "gone name s" and step: "advance t ev (sv_thread s t) s = Some s'"
  shows "gone name s'"
proof -
  have a: "away name (sv_thread s t)" and n: "sv_functions s name = None" "sv_cold s name = None"
    using g by (simp_all add: gone_def)
  show ?thesis
  proof (rule goneI [OF g _ _ advance_others [OF step]])
    show "sv_functions s' name = None"
      using a n step by (cases "sv_thread s t") (auto simp: sv_ops sv_moves warm_up_def split: sv_splits)
    show "sv_cold s' name = None"
      using a n step by (cases "sv_thread s t") (auto simp: sv_ops sv_moves warm_up_def split: sv_splits)
    show "away name (sv_thread s' t)"
      using a n step by (cases "sv_thread s t") (auto simp: sv_ops sv_moves warm_up_def split: sv_splits)
  qed
qed

lemma apply_gone:
  assumes g: "gone name s" and "\<not> serves name e" and "sv_apply e s = Some s'"
  shows "gone name s'"
proof (cases e)
  case (Begin t c ev)
  then have s': "s' = begin_command t ev c s"
    using assms(3) by (auto split: thread.splits)
  have n: "sv_functions s name = None" "sv_cold s name = None"
    using g by (simp_all add: gone_def)
  show ?thesis
    unfolding s'
  proof (rule goneI [OF g, of _ t])
    show "away name (sv_thread (begin_command t ev c s) t)"
      using Begin assms(2) n by (cases c) (auto simp: sv_ops sv_moves split: sv_splits)
  qed (use n in \<open>cases c; auto simp: sv_ops sv_moves\<close>)+
next
  case (Step t ev)
  then show ?thesis using advance_gone [OF g] assms(3) by simp
next
  case (Died i)
  then show ?thesis
    using assms by (auto simp: gone_def sv_ops split: if_splits)
next
  case (Dropped i b)
  then show ?thesis
    using assms by (auto simp: gone_def sv_ops drop_entry_def Let_def split: if_splits)
qed

lemma run_gone:
  "sv_run es s = Some s' \<Longrightarrow> list_all (\<lambda>e. \<not> serves name e) es \<Longrightarrow> gone name s \<Longrightarrow> gone name s'"
  by (induction es arbitrary: s) (auto simp: bind_eq_Some_conv intro: apply_gone)

lemma stop_makes_gone:
  assumes "sv_thread s t = StopCold name" and "\<And>u. u \<noteq> t \<Longrightarrow> away name (sv_thread s u)"
    and "sv_run [Step t e1, Step t e2] s = Some s'"
  shows "gone name s'"
proof -
  have "s' = stop_warm t name (sv_cold s name \<noteq> None) (stop_cold t name s)"
    using assms(1,3) by (simp add: sv_ops stop_cold_def)
  then show ?thesis
    using assms(2) by (auto simp: gone_def stop_warm_def stop_cold_def sv_ops split: option.splits)
qed

section \<open>Properties\<close>

lemma registered_as_served_facts:
  assumes "sv_run es (sv_start store g) = Some s" and "list_all well_named es"
  shows "\<forall>n i. sv_functions s n = Some i \<longrightarrow>
      rf_name (en_resolved (sv_entries s i)) = n
      \<and> fst ` set (en_secrets (sv_entries s i)) = set (rf_secrets (en_resolved (sv_entries s i)))"
    and "\<forall>n c. sv_cold s n = Some c \<longrightarrow>
      rf_name (co_resolved c) = n \<and> fst ` set (co_secrets c) = set (rf_secrets (co_resolved c))"
    and "\<forall>t n i. sv_thread s t = Running n i \<longrightarrow>
      rf_name (en_resolved (sv_entries s i)) = n
      \<and> fst ` set (en_secrets (sv_entries s i)) = set (rf_secrets (en_resolved (sv_entries s i)))"
proof -
  have ok: "registry_ok s"
    by (rule run_ok [OF assms start_ok])
  have e: "rf_name (en_resolved (sv_entries s i)) = n
      \<and> fst ` set (en_secrets (sv_entries s i)) = set (rf_secrets (en_resolved (sv_entries s i)))"
    if "entry_of s i n" for i n
    using registry_ok_fits [OF ok that] entry_ofD(2) [OF that] by (simp add: fits_def)
  show "\<forall>n i. sv_functions s n = Some i \<longrightarrow>
      rf_name (en_resolved (sv_entries s i)) = n
      \<and> fst ` set (en_secrets (sv_entries s i)) = set (rf_secrets (en_resolved (sv_entries s i)))"
    by (intro allI impI, rule e, rule registry_ok_functions [OF ok])
  show "\<forall>n c. sv_cold s n = Some c \<longrightarrow>
      rf_name (co_resolved c) = n \<and> fst ` set (co_secrets c) = set (rf_secrets (co_resolved c))"
    using registry_ok_cold [OF ok] by (auto simp: fits_def)
  show "\<forall>t n i. sv_thread s t = Running n i \<longrightarrow>
      rf_name (en_resolved (sv_entries s i)) = n
      \<and> fst ` set (en_secrets (sv_entries s i)) = set (rf_secrets (en_resolved (sv_entries s i)))"
  proof (intro allI impI)
    fix t n i assume "sv_thread s t = Running n i"
    then have "entry_of s i n" using registry_ok_thread [OF ok, of t] by simp
    then show "rf_name (en_resolved (sv_entries s i)) = n
        \<and> fst ` set (en_secrets (sv_entries s i)) = set (rf_secrets (en_resolved (sv_entries s i)))"
      by (rule e)
  qed
qed

text \<open>
  C27. A function is what it was registered as. Whatever commands, requests, crashes and idle
  passes interleave, the entry under a name bears that name and holds exactly the secrets its
  spec names, so does what is kept of a cold one, and a request that runs under a name runs in a
  sandbox of that name.
\<close>

theorem registered_as_served:
  assumes "sv_run es (sv_start store g) = Some s" and "list_all well_named es"
  shows "(\<forall>n i. sv_functions s n = Some i \<longrightarrow>
      rf_name (en_resolved (sv_entries s i)) = n
      \<and> fst ` set (en_secrets (sv_entries s i)) = set (rf_secrets (en_resolved (sv_entries s i))))
    \<and> (\<forall>n c. sv_cold s n = Some c \<longrightarrow>
      rf_name (co_resolved c) = n \<and> fst ` set (co_secrets c) = set (rf_secrets (co_resolved c)))
    \<and> (\<forall>t n i. sv_thread s t = Running n i \<longrightarrow>
      rf_name (en_resolved (sv_entries s i)) = n
      \<and> fst ` set (en_secrets (sv_entries s i)) = set (rf_secrets (en_resolved (sv_entries s i))))"
proof -
  note f = registered_as_served_facts [OF assms]
  show ?thesis by (rule conjI [OF f(1) conjI [OF f(2) f(3)]])
qed

lemma open_while_registered_facts:
  assumes "sv_run es (sv_start store g) = Some s" and "list_all well_named es"
  shows "\<forall>n i. sv_functions s n = Some i \<longrightarrow> \<not> closed (state (en_gate (sv_entries s i)))"
    and "\<forall>i < sv_next s. \<not> closed (state (en_gate (sv_entries s i))) \<longrightarrow>
      sv_functions s (rf_name (en_resolved (sv_entries s i))) = Some i \<or> (\<exists>t. i \<in> closing (sv_thread s t))"
    and "(\<forall>t. closing (sv_thread s t) = {}) \<longrightarrow>
      (\<forall>i < sv_next s. closed (state (en_gate (sv_entries s i)))
         \<longleftrightarrow> sv_functions s (rf_name (en_resolved (sv_entries s i))) \<noteq> Some i)"
proof -
  have ok: "gates_ok s"
    by (rule run_gates_ok [OF assms start_ok start_gates_ok])
  show "\<forall>n i. sv_functions s n = Some i \<longrightarrow> \<not> closed (state (en_gate (sv_entries s i)))"
    using gates_ok_registered [OF ok] by (simp add: shut_def)
  show o: "\<forall>i < sv_next s. \<not> closed (state (en_gate (sv_entries s i))) \<longrightarrow>
      sv_functions s (rf_name (en_resolved (sv_entries s i))) = Some i \<or> (\<exists>t. i \<in> closing (sv_thread s t))"
    using gates_ok_open [OF ok] by (simp add: shut_def)
  show "(\<forall>t. closing (sv_thread s t) = {}) \<longrightarrow>
      (\<forall>i < sv_next s. closed (state (en_gate (sv_entries s i)))
         \<longleftrightarrow> sv_functions s (rf_name (en_resolved (sv_entries s i))) \<noteq> Some i)"
    using o gates_ok_registered [OF ok] by (auto simp: shut_def)
qed

text \<open>
  C28. The gate of an entry is open exactly while the entry is registered, in every reachable
  state: a registered function takes requests, and a sandbox that was replaced, stopped or
  cooled is closed or is about to be closed by the thread that took it out. When no thread is
  in the middle of a command, the open gates are those of the registry and no others. A drain,
  which closes gates for good, is not among the commands.
\<close>

theorem open_while_registered:
  assumes "sv_run es (sv_start store g) = Some s" and "list_all well_named es"
  shows "(\<forall>n i. sv_functions s n = Some i \<longrightarrow> \<not> closed (state (en_gate (sv_entries s i))))
    \<and> (\<forall>i < sv_next s. \<not> closed (state (en_gate (sv_entries s i))) \<longrightarrow>
      sv_functions s (rf_name (en_resolved (sv_entries s i))) = Some i \<or> (\<exists>t. i \<in> closing (sv_thread s t)))
    \<and> ((\<forall>t. closing (sv_thread s t) = {}) \<longrightarrow>
      (\<forall>i < sv_next s. closed (state (en_gate (sv_entries s i)))
         \<longleftrightarrow> sv_functions s (rf_name (en_resolved (sv_entries s i))) \<noteq> Some i))"
proof -
  note f = open_while_registered_facts [OF assms]
  show ?thesis by (rule conjI [OF f(1) conjI [OF f(2) f(3)]])
qed

lemma concurrency_kept_facts:
  assumes "sv_run es (sv_start store g) = Some s" and "list_all well_named es" and "i < sv_next s"
  shows "accounted (gate_view s i)"
    and "finite {t. \<exists>n. sv_thread s t = Running n i}"
    and "card {t. \<exists>n. sv_thread s t = Running n i} \<le> max (rf_concurrency (en_resolved (sv_entries s i))) 1"
proof -
  have b: "accounted (gate_view s i)"
    "limit (en_gate (sv_entries s i)) = max (word_of_nat (rf_concurrency (en_resolved (sv_entries s i)))) 1"
    using run_bounded [OF assms(1,2) start_ok start_bounded] assms(3) by (auto simp: bounded_def)
  then show "accounted (gate_view s i)" by blast
  have h: "{t. \<exists>n. sv_thread s t = Running n i} \<subseteq> holders (gate_view s i)"
    by (auto simp: gate_view_def)
  have f: "finite (holders (gate_view s i))" "card (holders (gate_view s i)) \<le> unat (limit (en_gate (sv_entries s i)))"
    using b(1) by (auto simp: accounted_def gate_view_def)
  show "finite {t. \<exists>n. sv_thread s t = Running n i}"
    by (rule finite_subset [OF h f(1)])
  let ?c = "rf_concurrency (en_resolved (sv_entries s i))"
  have "unat (word_of_nat ?c :: u32) \<le> ?c"
    by (simp add: unat_of_nat)
  then have "unat (limit (en_gate (sv_entries s i))) \<le> max ?c 1"
    unfolding b(2) by (auto simp: max_def)
  then show "card {t. \<exists>n. sv_thread s t = Running n i} \<le> max ?c 1"
    using card_mono [OF f(1) h] f(2) by linarith
qed

text \<open>
  C29. The registry keeps each function's concurrency: what happens to the gate of one entry is
  a run of the gate on its own, so in every reachable state no more requests run in its sandbox
  than its concurrency allows, at least one, through replacements, stops and closures.
\<close>

theorem concurrency_kept:
  assumes "sv_run es (sv_start store g) = Some s" and "list_all well_named es" and "i < sv_next s"
  shows "(accounted (gate_view s i))
    \<and> (finite {t. \<exists>n. sv_thread s t = Running n i})
    \<and> (card {t. \<exists>n. sv_thread s t = Running n i} \<le> max (rf_concurrency (en_resolved (sv_entries s i))) 1)"
proof -
  note f = concurrency_kept_facts [OF assms]
  show ?thesis by (rule conjI [OF f(1) conjI [OF f(2) f(3)]])
qed

text \<open>
  C30. A stopped name stays stopped. When a stop of a name runs while no other thread is about to
  warm, wake or cool that name, it is neither warm nor cold from then on, whatever requests,
  commands for other names, crashes and idle passes follow, until it is served anew.
\<close>

theorem stopped_stays_stopped:
  assumes "sv_thread s t = StopCold name" and "\<And>u. u \<noteq> t \<Longrightarrow> away name (sv_thread s u)"
    and "sv_run [Step t e1, Step t e2] s = Some s1"
    and "list_all (\<lambda>e. \<not> serves name e) es" and "sv_run es s1 = Some s2"
  shows "sv_functions s2 name = None \<and> sv_cold s2 name = None"
  using run_gone [OF assms(5,4) stop_makes_gone [OF assms(1-3)]] by (simp add: gone_def)

section \<open>Schedules\<close>

text \<open>The entry a warm-up at time \<open>n\<close> puts in the registry.\<close>

definition woken :: "'c supervisor \<Rightarrow> nat \<Rightarrow> string \<Rightarrow> 'c resolved_fn \<Rightarrow> secrets \<Rightarrow> 'c fn_entry" where
  "woken s n name r m =
     new_entry (at_time n)
       (fst (gate_named (sv_generation s) name (word_of_nat (rf_concurrency r))
          (default_queue_limit (word_of_nat (rf_concurrency r))))) r m (sources_of (\<lambda>_. None) r)"

lemma fresh_gate_permits:
  "enter_locked (fst (gate_named g name c q)) =
     (Permit, (fst (gate_named g name c q))\<lparr>state := \<lparr>in_flight = 1, queued = 0, closed = False\<rparr>\<rparr>)"
  by (simp add: enter_locked_def gate_named_def Let_def)

text \<open>A thread whose warm-up succeeds and finds no predecessor runs its request on the new entry.\<close>

lemma warm_up_then_run:
  assumes w: "sv_thread s t = WarmUp name r m (sources_of (\<lambda>_. None) r) (Fresh (Request 0))"
    and f: "sv_functions s name = None" "\<not> sv_frozen s (home r)"
  shows "\<exists>s'. sv_run (steps t n 5) s = Some s'
    \<and> sv_thread s' = (sv_thread s)(t := Running name (sv_next s))
    \<and> sv_functions s' = (sv_functions s)(name \<mapsto> sv_next s)
    \<and> sv_cold s' = (sv_cold s)(name := None) \<and> sv_frozen s' = sv_frozen s
    \<and> en_resolved (sv_entries s' (sv_next s)) = r \<and> en_secrets (sv_entries s' (sv_next s)) = m
    \<and> en_state (sv_entries s' (sv_next s)) = Warm"
proof -
  have five: "steps t n 5 = [Step t (at_time n), Step t (at_time n), Step t (at_time n), Step t (at_time n), Step t (at_time n)]"
    by (simp add: steps_def numeral_eq_Suc)
  show ?thesis
    unfolding five
    using w f
    by (simp add: sv_ops sv_moves warm_up_def split_beta new_entry_def en_healthy_def fresh_gate_permits resume_fn_def
        on_gate_def)
qed

text \<open>
  A cold function comes back as it was. An idle function past its limit is cooled: its gate
  closes and only its specification, secrets and files are kept, also when it had been paused
  and its cgroup is still frozen. Once its sandbox is gone, the next request wakes it, in a new
  sandbox with the same specification and the same secrets, and runs.
\<close>

theorem cold_function_wakes:
  assumes f: "sv_functions s name = Some i" "i < sv_next s" "rf_name (en_resolved (sv_entries s i)) = name"
    and g: "gate_load (en_gate (sv_entries s i)) = (0, 0)"
    and idle: "rf_cold_after (en_resolved (sv_entries s i)) \<le> now - en_last_used (sv_entries s i)"
    and t: "sv_thread s 1 = Idle" "sv_thread s 2 = Idle" "\<And>u. i \<notin> held (sv_thread s u)"
    and only: "\<And>j. j < sv_next s \<Longrightarrow> j \<noteq> i \<Longrightarrow> \<not> en_dropped (sv_entries s j) \<Longrightarrow>
      home (en_resolved (sv_entries s j)) \<noteq> home (en_resolved (sv_entries s i))"
  shows "\<exists>s1 s2. sv_run ([Begin 1 (Tier name) (at_time now)] @ steps 1 now 4 @ [Dropped i True]) s = Some s1
    \<and> sv_functions s1 name = None \<and> closed (state (en_gate (sv_entries s1 i)))
    \<and> sv_run ([Begin 2 (Exec name) (at_time now)] @ steps 2 now 2 @ steps 2 now 5) s1 = Some s2
    \<and> sv_thread s2 2 = Running name (sv_next s) \<and> sv_functions s2 name = Some (sv_next s)
    \<and> sv_cold s2 name = None
    \<and> en_resolved (sv_entries s2 (sv_next s)) = en_resolved (sv_entries s i)
    \<and> en_secrets (sv_entries s2 (sv_next s)) = en_secrets (sv_entries s i)"
proof -
  let ?e = "sv_entries s i"
  let ?r = "en_resolved ?e"
  have four: "steps 1 now 4 = [Step 1 (at_time now), Step 1 (at_time now), Step 1 (at_time now), Step 1 (at_time now)]"
    and two: "steps 2 now 2 = [Step 2 (at_time now), Step 2 (at_time now)]"
    by (simp_all add: steps_def numeral_eq_Suc)
  have "\<exists>s0. sv_run ([Begin 1 (Tier name) (at_time now)] @ steps 1 now 4) s = Some s0
      \<and> sv_functions s0 = (sv_functions s)(name := None)
      \<and> sv_cold s0 = (sv_cold s)(name \<mapsto> \<lparr>co_resolved = ?r, co_secrets = en_secrets ?e, co_sources = en_sources ?e, co_since = now\<rparr>)
      \<and> sv_thread s0 = (sv_thread s)(1 := Replied Quiet) \<and> sv_next s0 = sv_next s
      \<and> sv_entries s0 = (sv_entries s)(i := ?e\<lparr>en_gate := gate_close (en_gate ?e)\<rparr>)"
    unfolding four using f g idle t
    by (simp add: sv_ops sv_moves en_idle_for_def retire_def on_gate_def)
  then obtain s0 where s0: "sv_run ([Begin 1 (Tier name) (at_time now)] @ steps 1 now 4) s = Some s0"
    "sv_functions s0 = (sv_functions s)(name := None)"
    "sv_cold s0 = (sv_cold s)(name \<mapsto> \<lparr>co_resolved = ?r, co_secrets = en_secrets ?e, co_sources = en_sources ?e, co_since = now\<rparr>)"
    "sv_thread s0 = (sv_thread s)(1 := Replied Quiet)" "sv_next s0 = sv_next s"
    "sv_entries s0 = (sv_entries s)(i := ?e\<lparr>en_gate := gate_close (en_gate ?e)\<rparr>)" by blast
  let ?s1 = "on_entry i (\<lambda>e. e\<lparr>en_dropped := True\<rparr>) (set_frozen ?r False s0)"
  have d: "sv_run [Dropped i True] s0 = Some ?s1"
    using f(2,3) t(3) only s0 by (auto simp: drop_entry_def Let_def list_ex_iff sv_ops)
  have r1: "sv_run ([Begin 1 (Tier name) (at_time now)] @ steps 1 now 4 @ [Dropped i True]) s = Some ?s1"
    using sv_run_two [OF s0(1) d] by (simp only: append_assoc)
  have "\<exists>s2. sv_run ([Begin 2 (Exec name) (at_time now)] @ steps 2 now 2) ?s1 = Some s2
      \<and> sv_thread s2 2 = WarmUp name ?r (en_secrets ?e) (sources_of (\<lambda>_. None) ?r) (Fresh (Request 0))
      \<and> sv_functions s2 = sv_functions s0 \<and> sv_cold s2 = sv_cold s0 \<and> sv_next s2 = sv_next s
      \<and> \<not> sv_frozen s2 (home ?r)"
    unfolding two using t(2) s0 by (simp add: sv_ops sv_moves home_def)
  then obtain s2 where s2: "sv_run ([Begin 2 (Exec name) (at_time now)] @ steps 2 now 2) ?s1 = Some s2"
    "sv_thread s2 2 = WarmUp name ?r (en_secrets ?e) (sources_of (\<lambda>_. None) ?r) (Fresh (Request 0))"
    "sv_functions s2 = sv_functions s0" "sv_cold s2 = sv_cold s0" "sv_next s2 = sv_next s"
    "\<not> sv_frozen s2 (home ?r)" by blast
  obtain s3 where s3: "sv_run (steps 2 now 5) s2 = Some s3"
    "sv_thread s3 = (sv_thread s2)(2 := Running name (sv_next s2))"
    "sv_functions s3 = (sv_functions s2)(name \<mapsto> sv_next s2)" "sv_cold s3 = (sv_cold s2)(name := None)"
    "en_resolved (sv_entries s3 (sv_next s2)) = ?r" "en_secrets (sv_entries s3 (sv_next s2)) = en_secrets ?e"
    using warm_up_then_run [OF s2(2) _ s2(6), of now] s2(3) s0(2) by auto
  have "sv_run ([Begin 2 (Exec name) (at_time now)] @ steps 2 now 2 @ steps 2 now 5) ?s1 = Some s3"
    using sv_run_two [OF s2(1) s3(1)] by (simp only: append_assoc)
  then show ?thesis
    using r1 s3 s2(5) s0 by (intro exI [of _ ?s1] exI [of _ s3]) (simp add: sv_ops)
qed

text \<open>
  A stop can be undone by a request that came before it. A request for a cold function is
  warming it when the function is stopped; the stop answers that it is stopped, and the warm-up
  then registers it again, with its secrets, and runs. Nothing of the code tells the warm-up.
\<close>

theorem stop_undone_by_wake:
  assumes f: "sv_functions s name = None" "sv_cold s name = Some c" "\<not> sv_frozen s (home (co_resolved c))"
    and t: "sv_thread s 1 = Idle" "sv_thread s 2 = Idle"
  shows "\<exists>es s'. sv_run es s = Some s' \<and> list_all (\<lambda>e. \<not> serves name e) es
    \<and> sv_thread s' 2 = Replied StoppedReply \<and> sv_functions s' name = Some (sv_next s)
    \<and> sv_thread s' 1 = Running name (sv_next s)
    \<and> en_secrets (sv_entries s' (sv_next s)) = co_secrets c"
proof -
  let ?es = "[Begin 1 (Exec name) (at_time 0), Step 1 (at_time 0), Step 1 (at_time 0),
    Begin 2 (Stop name) (at_time 0), Step 2 (at_time 0), Step 2 (at_time 0)]"
  have "\<exists>s1. sv_run ?es s = Some s1
      \<and> sv_thread s1 1 = WarmUp name (co_resolved c) (co_secrets c) (sources_of (\<lambda>_. None) (co_resolved c)) (Fresh (Request 0))
      \<and> sv_thread s1 2 = Replied StoppedReply \<and> sv_functions s1 name = None \<and> sv_next s1 = sv_next s
      \<and> sv_frozen s1 = sv_frozen s"
    using f t by (simp add: sv_ops sv_moves)
  then obtain s1 where s1: "sv_run ?es s = Some s1"
    "sv_thread s1 1 = WarmUp name (co_resolved c) (co_secrets c) (sources_of (\<lambda>_. None) (co_resolved c)) (Fresh (Request 0))"
    "sv_thread s1 2 = Replied StoppedReply" "sv_functions s1 name = None" "sv_next s1 = sv_next s"
    "sv_frozen s1 = sv_frozen s" by blast
  obtain s2 where s2: "sv_run (steps 1 0 5) s1 = Some s2" "sv_thread s2 = (sv_thread s1)(1 := Running name (sv_next s1))"
    "sv_functions s2 = (sv_functions s1)(name \<mapsto> sv_next s1)" "en_secrets (sv_entries s2 (sv_next s1)) = co_secrets c"
    using warm_up_then_run [OF s1(2,4), of 0] f(3) s1(6) by auto
  have "sv_run (?es @ steps 1 0 5) s = Some s2"
    unfolding sv_run_append using s1(1) s2(1) by simp
  moreover have "list_all (\<lambda>e. \<not> serves name e) (?es @ steps 1 0 5)"
    by (simp add: steps_def list_all_iff)
  ultimately show ?thesis
    using s1 s2 by (intro exI [of _ "?es @ steps 1 0 5"] exI [of _ s2]) simp
qed

text \<open>
  A request can run on a frozen sandbox. The idle pass reads that a quiet function has no
  request and pauses it later, with no lock in between; a request that is admitted meanwhile has
  nothing to thaw, and is in a frozen cgroup from the moment of the pause.
\<close>

theorem request_on_frozen_sandbox:
  assumes f: "sv_functions s name = Some i"
    and g: "gate_load (en_gate (sv_entries s i)) = (0, 0)" "\<not> closed (state (en_gate (sv_entries s i)))"
      "0 < limit (en_gate (sv_entries s i))"
    and e: "en_state (sv_entries s i) = Warm"
    and idle: "rf_idle_timeout (en_resolved (sv_entries s i)) \<le> now - en_last_used (sv_entries s i)"
      "now - en_last_used (sv_entries s i) < rf_cold_after (en_resolved (sv_entries s i))"
    and t: "sv_thread s 1 = Idle" "sv_thread s 2 = Idle"
  shows "\<exists>es s'. sv_run es s = Some s' \<and> sv_thread s' 2 = Running name i
    \<and> sv_functions s' name = Some i \<and> sv_frozen s' (home (en_resolved (sv_entries s i)))"
proof -
  let ?es = "[Begin 1 (Tier name) (at_time now), Step 1 (at_time now), Begin 2 (Exec name) (at_time now),
    Step 2 (at_time now), Step 2 (at_time now), Step 2 (at_time now), Step 2 (at_time now), Step 1 (at_time now)]"
  have "\<exists>s'. sv_run ?es s = Some s' \<and> sv_thread s' 2 = Running name i
    \<and> sv_functions s' name = Some i \<and> sv_frozen s' (home (en_resolved (sv_entries s i)))"
    using f g e idle t
    by (simp add: sv_ops sv_moves en_idle_for_def en_healthy_def gate_load_def enter_locked_def resume_fn_def
        pause_fn_def on_gate_def)
  then show ?thesis by blast
qed

lemma stop_now_other:
  "n \<noteq> name \<Longrightarrow> sv_cold (stop_now n s) name = sv_cold s name \<and> sv_functions (stop_now n s) name = sv_functions s name"
  by (simp add: stop_now_def Let_def sv_ops split: option.splits)

lemma stop_now_parts:
  "sv_functions (stop_now n s) n = None" "sv_next (stop_now n s) = sv_next s"
  "sv_thread (stop_now n s) = sv_thread s" "sv_frozen (stop_now n s) = sv_frozen s"
  by (simp_all add: stop_now_def Let_def sv_ops split: option.splits)

lemma fold_stop_parts:
  "name \<notin> set ns \<Longrightarrow> sv_cold (fold stop_now ns s) name = sv_cold s name"
  "name \<notin> set ns \<Longrightarrow> sv_functions (fold stop_now ns s) name = sv_functions s name"
  "name \<in> set ns \<Longrightarrow> sv_functions (fold stop_now ns s) name = None"
  "sv_next (fold stop_now ns s) = sv_next s" "sv_thread (fold stop_now ns s) = sv_thread s"
  "sv_frozen (fold stop_now ns s) = sv_frozen s"
proof (induction ns arbitrary: s)
  case (Cons n ns)
  {
    case 1 then show ?case using Cons.IH(1) by (auto simp: stop_now_other)
  next
    case 2 then show ?case using Cons.IH(2) by (auto simp: stop_now_other)
  next
    case 3 then show ?case
      using Cons.IH(2,3) stop_now_parts(1) [of n] by (cases "name \<in> set ns") auto
  next
    case 4 then show ?case using Cons.IH(4) by (simp add: stop_now_parts)
  next
    case 5 then show ?case using Cons.IH(5) by (simp add: stop_now_parts)
  next
    case 6 then show ?case using Cons.IH(6) by (simp add: stop_now_parts)
  }
qed simp_all

lemma cold_function_survives_tenant_facts:
  assumes f: "sv_functions s name = None" "sv_cold s name = Some c" "rf_tenant (co_resolved c) = tenant"
    and names: "\<And>n. sv_functions s n \<noteq> None \<Longrightarrow> n \<in> set names"
    and t: "sv_thread s 1 = Idle" "\<not> sv_frozen s (home (co_resolved c))"
  shows "\<forall>n i. sv_functions s n = Some i \<longrightarrow> rf_tenant (en_resolved (sv_entries s i)) = tenant \<longrightarrow>
      sv_functions (stop_everything_for names tenant s) n = None"
    and "sv_cold (stop_everything_for names tenant s) name = Some c"
    and "owned_by (stop_everything_for names tenant s) name (Some tenant) = Inr ()"
    and "\<exists>es s'. sv_run es (stop_everything_for names tenant s) = Some s' \<and> list_all (\<lambda>e. \<not> serves name e) es
      \<and> sv_thread s' 1 = Running name (sv_next s) \<and> en_secrets (sv_entries s' (sv_next s)) = co_secrets c"
proof -
  let ?ns = "filter (\<lambda>n. case sv_functions s n of
      Some i \<Rightarrow> rf_tenant (en_resolved (sv_entries s i)) = tenant | None \<Rightarrow> False) names"
  let ?s = "stop_everything_for names tenant s"
  have s: "?s = fold stop_now ?ns s" by (simp add: stop_everything_for_def)
  have out: "name \<notin> set ?ns" using f(1) by simp
  show "\<forall>n i. sv_functions s n = Some i \<longrightarrow> rf_tenant (en_resolved (sv_entries s i)) = tenant \<longrightarrow>
      sv_functions ?s n = None"
    unfolding s using names by (auto intro!: fold_stop_parts(3))
  show c: "sv_cold ?s name = Some c"
    unfolding s using f(2) by (simp only: fold_stop_parts(1) [OF out])
  have n: "sv_functions ?s name = None"
    unfolding s using f(1) by (simp only: fold_stop_parts(2) [OF out])
  show "owned_by ?s name (Some tenant) = Inr ()"
    using c n f(3) by (simp add: owned_by_def tenant_of_def)
  let ?es = "[Begin 1 (Exec name) (at_time 0), Step 1 (at_time 0), Step 1 (at_time 0)]"
  have "\<exists>s1. sv_run ?es ?s = Some s1
      \<and> sv_thread s1 1 = WarmUp name (co_resolved c) (co_secrets c) (sources_of (\<lambda>_. None) (co_resolved c)) (Fresh (Request 0))
      \<and> sv_functions s1 name = None \<and> sv_next s1 = sv_next s \<and> sv_frozen s1 = sv_frozen s"
    using c n t fold_stop_parts(4-6) [of ?ns s] unfolding s by (simp add: sv_ops sv_moves)
  then obtain s1 where s1: "sv_run ?es ?s = Some s1"
    "sv_thread s1 1 = WarmUp name (co_resolved c) (co_secrets c) (sources_of (\<lambda>_. None) (co_resolved c)) (Fresh (Request 0))"
    "sv_functions s1 name = None" "sv_next s1 = sv_next s" "sv_frozen s1 = sv_frozen s" by blast
  obtain s2 where s2: "sv_run (steps 1 0 5) s1 = Some s2" "sv_thread s2 = (sv_thread s1)(1 := Running name (sv_next s1))"
    "en_secrets (sv_entries s2 (sv_next s1)) = co_secrets c"
    using warm_up_then_run [OF s1(2,3), of 0] t(2) s1(5) by auto
  have "sv_run (?es @ steps 1 0 5) ?s = Some s2"
    by (rule sv_run_two [OF s1(1) s2(1)])
  moreover have "list_all (\<lambda>e. \<not> serves name e) (?es @ steps 1 0 5)"
    by (simp add: steps_def list_all_iff)
  ultimately show "\<exists>es s'. sv_run es ?s = Some s' \<and> list_all (\<lambda>e. \<not> serves name e) es
      \<and> sv_thread s' 1 = Running name (sv_next s) \<and> en_secrets (sv_entries s' (sv_next s)) = co_secrets c"
    using s1(4) s2 by (intro exI [of _ "?es @ steps 1 0 5"] exI [of _ s2]) simp
qed

text \<open>
  C31. What is cold survives its tenant. Deleting a tenant stops the functions of it that are
  warm or paused, and those alone: a cold one of the tenant is still registered afterwards with
  its secret values, a caller of that tenant's name is let through to it, and it wakes.
\<close>

theorem cold_function_survives_tenant:
  assumes f: "sv_functions s name = None" "sv_cold s name = Some c" "rf_tenant (co_resolved c) = tenant"
    and names: "\<And>n. sv_functions s n \<noteq> None \<Longrightarrow> n \<in> set names"
    and t: "sv_thread s 1 = Idle" "\<not> sv_frozen s (home (co_resolved c))"
  shows "(\<forall>n i. sv_functions s n = Some i \<longrightarrow> rf_tenant (en_resolved (sv_entries s i)) = tenant \<longrightarrow>
      sv_functions (stop_everything_for names tenant s) n = None)
    \<and> (sv_cold (stop_everything_for names tenant s) name = Some c)
    \<and> (owned_by (stop_everything_for names tenant s) name (Some tenant) = Inr ())
    \<and> (\<exists>es s'. sv_run es (stop_everything_for names tenant s) = Some s' \<and> list_all (\<lambda>e. \<not> serves name e) es
      \<and> sv_thread s' 1 = Running name (sv_next s) \<and> en_secrets (sv_entries s' (sv_next s)) = co_secrets c)"
proof -
  note f = cold_function_survives_tenant_facts [OF assms]
  show ?thesis by (rule conjI [OF f(1) conjI [OF f(2) conjI [OF f(3) f(4)]]])
qed

text \<open>
  Recovery backs off. The wait before the next attempt is 200 ms doubled with every failure
  in a row, never more than 30 s and never less than after fewer failures, and a request that
  finds a crashed function before the wait is over is refused and starts nothing.
\<close>

theorem recovery_backs_off:
  assumes "sv_thread s t = Judge name broken w" and "sv_rewarms s name = Some b" and "bo_last_attempt b = Some before"
    and "ev_now ev < before + backoff_delay (bo_failures b)" and "before \<le> ev_now ev"
    and "advance t ev (sv_thread s t) s = Some s'"
  shows "sv_thread s' t = Replied WarmFailed \<and> sv_functions s' = sv_functions s \<and> sv_turn s' name = None"
    and "backoff_delay (bo_failures b) =
      (if bo_failures b = 0 then 0 else min (200 * 2 ^ (bo_failures b - 1)) 30000)"
    and "\<forall>f \<le> bo_failures b. backoff_delay f \<le> backoff_delay (bo_failures b)"
proof -
  have "backoff_ready (ev_now ev) b = Inl (backoff_delay (bo_failures b) - (ev_now ev - before))"
    using assms(3-5) by (auto simp: backoff_ready_def Let_def)
  then show "sv_thread s' t = Replied WarmFailed \<and> sv_functions s' = sv_functions s \<and> sv_turn s' name = None"
    using assms(1,2,6) by (auto simp: judge_def backoff_of_def Let_def sv_ops)
  show "backoff_delay (bo_failures b) =
      (if bo_failures b = 0 then 0 else min (200 * 2 ^ (bo_failures b - 1)) 30000)"
    by (simp add: backoff_delay_closed REWARM_BACKOFF_BASE_def REWARM_BACKOFF_MAX_def)
  show "\<forall>f \<le> bo_failures b. backoff_delay f \<le> backoff_delay (bo_failures b)"
    using backoff_delay_mono by blast
qed

lemma drain_close_parts:
  "sv_functions (drain_close names s) = sv_functions s" "sv_cold (drain_close names s) = sv_cold s"
  "sv_thread (drain_close names s) = sv_thread s" "sv_frozen (drain_close names s) = sv_frozen s"
  "sv_next (drain_close names s) = sv_next s"
  unfolding drain_close_def
  by (induction names arbitrary: s) (auto simp: sv_ops split: option.splits)

lemma closed_stays: "closed (state (en_gate (sv_entries s i))) \<Longrightarrow>
  closed (state (en_gate (sv_entries (fold (\<lambda>n s. case sv_functions s n of Some j \<Rightarrow> on_gate j gate_close s | None \<Rightarrow> s) names s) i)))"
  by (induction names arbitrary: s) (auto simp: on_gate_def sv_ops split: option.splits)

lemma drain_closes:
  "n \<in> set names \<Longrightarrow> sv_functions s n = Some i \<Longrightarrow> closed (state (en_gate (sv_entries (drain_close names s) i)))"
  unfolding drain_close_def
proof (induction names arbitrary: s)
  case (Cons m ms)
  show ?case
  proof (cases "m = n")
    case True
    then show ?thesis
      using Cons.prems closed_stays [of "on_gate i gate_close s" i ms] by (simp add: on_gate_def sv_ops)
  next
    case False
    then show ?thesis
      using Cons by (auto simp: sv_ops split: option.splits)
  qed
qed simp

text \<open>
  A drain does not stop cold functions. It closes the gate of every function that is
  registered as warm or paused; a request for a cold one wakes it behind a gate of its own, which
  is open, and runs, on a host that has said that it admits nothing any more.
\<close>

theorem drain_admits_cold:
  assumes f: "sv_functions s name = None" "sv_cold s name = Some c" "\<not> sv_frozen s (home (co_resolved c))"
    and t: "sv_thread s 1 = Idle"
  shows "\<forall>n \<in> set names. \<forall>i. sv_functions s n = Some i \<longrightarrow>
      closed (state (en_gate (sv_entries (drain_close names s) i)))"
    and "\<exists>es s'. sv_run es (drain_close names s) = Some s' \<and> sv_thread s' 1 = Running name (sv_next s)"
proof -
  show "\<forall>n \<in> set names. \<forall>i. sv_functions s n = Some i \<longrightarrow>
      closed (state (en_gate (sv_entries (drain_close names s) i)))"
    using drain_closes by blast
  let ?es = "[Begin 1 (Exec name) (at_time 0), Step 1 (at_time 0), Step 1 (at_time 0)]"
  have "\<exists>s1. sv_run ?es (drain_close names s) = Some s1
      \<and> sv_thread s1 1 = WarmUp name (co_resolved c) (co_secrets c) (sources_of (\<lambda>_. None) (co_resolved c)) (Fresh (Request 0))
      \<and> sv_functions s1 name = None \<and> sv_next s1 = sv_next s \<and> sv_frozen s1 = sv_frozen s"
    using f t by (simp add: sv_ops sv_moves drain_close_parts)
  then obtain s1 where s1: "sv_run ?es (drain_close names s) = Some s1"
    "sv_thread s1 1 = WarmUp name (co_resolved c) (co_secrets c) (sources_of (\<lambda>_. None) (co_resolved c)) (Fresh (Request 0))"
    "sv_functions s1 name = None" "sv_next s1 = sv_next s" "sv_frozen s1 = sv_frozen s" by blast
  obtain s2 where s2: "sv_run (steps 1 0 5) s1 = Some s2" "sv_thread s2 = (sv_thread s1)(1 := Running name (sv_next s1))"
    using warm_up_then_run [OF s1(2,3), of 0] f(3) s1(5) by auto
  show "\<exists>es s'. sv_run es (drain_close names s) = Some s' \<and> sv_thread s' 1 = Running name (sv_next s)"
    using sv_run_two [OF s1(1) s2(1)] s1(4) s2(2) by (intro exI [of _ "?es @ steps 1 0 5"] exI [of _ s2]) simp
qed

section \<open>The properties at work\<close>

definition greeter :: "nat resolved_fn" where
  "greeter =
     \<lparr>rf_name = ''hi'', rf_tenant = ''acme'', rf_image = ''img'', rf_entry = Some ''/h.py'', rf_cmd = [], rf_mode = Function,
      rf_runtime = None, rf_requirements = None, rf_workdir = ''/'', rf_user = ''0'', rf_system = [], rf_nix = [],
      rf_isolation = Ns, rf_seccomp = Default,
      rf_limits = \<lparr>lim_mem = 512, lim_mem_high = 480, lim_swap = 0, lim_oom_group = True, lim_cpu = 2, lim_pids = 64,
        lim_timeout_ms = 1000, lim_scratch = 64, lim_scratch_inodes = 64, lim_io_read = None, lim_io_write = None,
        lim_nofile = 64, lim_fsize = 64, lim_connections = 0, lim_bandwidth = None\<rparr>,
      rf_network = NetNone, rf_allow = [], rf_allow_private_net = False, rf_mounts = [], rf_env = [],
      rf_secrets = [''key''], rf_concurrency = 2, rf_idle_timeout = 100, rf_cold_after = 200,
      rf_min_warm = 0, rf_max_warm = 0, rf_warnings = [], rf_pool = False, rf_one_shot = False\<rparr>"

lemma greeter_sel [simp]:
  "rf_name greeter = ''hi''" "rf_tenant greeter = ''acme''" "rf_secrets greeter = [''key'']" "rf_concurrency greeter = 2"
  "rf_idle_timeout greeter = 100" "rf_cold_after greeter = 200"
  by (simp_all add: greeter_def)

definition blank :: "nat \<Rightarrow> nat fn_entry" where
  "blank _ = new_entry (at_time 0) (fst (gate_named 0 [] 1 1)) greeter [] []"

definition serve_greeter :: "nat event list" where
  "serve_greeter = Begin 0 (Serve ''hi'' greeter (Some [(''key'', ''old''), (''b'', ''2'')]) [(''key'', ''new'')] False) (at_time 0)
     # steps 0 0 3"

lemma greeter_secrets:
  "serve_secrets (Some [(''key'', ''old''), (''b'', ''2'')]) [''key''] [(''key'', ''new'')] = Inr [(''key'', ''new'')]"
  by (simp add: serve_secrets_def Let_def list_less_def)

lemma greeter_up:
  "\<exists>s. sv_run serve_greeter (sv_start blank 1) = Some s \<and> sv_functions s = [''hi'' \<mapsto> 0] \<and> sv_cold s = Map.empty
     \<and> sv_thread s = (\<lambda>_. Idle)(0 := Replied Served) \<and> sv_next s = 1 \<and> sv_frozen s = (\<lambda>_. False)
     \<and> sv_rewarms s = Map.empty \<and> sv_turn s = (\<lambda>_. None)
     \<and> sv_entries s 0 = new_entry (at_time 0) (fst (gate_named 1 ''hi'' 2 (default_queue_limit 2))) greeter [(''key'', ''new'')]
          (sources_of (\<lambda>_. None) greeter)"
  by (simp add: serve_greeter_def steps_def numeral_eq_Suc sv_ops sv_moves sv_start_def greeter_secrets warm_up_def split_beta)

lemma greeter_well_named: "list_all well_named serve_greeter"
  by (simp add: serve_greeter_def steps_def list_all_iff)

lemma new_gate [simp]:
  "gate_load (fst (gate_named g n c q)) = (0, 0)" "\<not> closed (state (fst (gate_named g n c q)))"
  "limit (fst (gate_named g n c q)) = max c 1"
  by (simp_all add: gate_load_def gate_named_def)

lemma new_entry_sel [simp]:
  "en_resolved (new_entry ev g r m src) = r" "en_secrets (new_entry ev g r m src) = m" "en_gate (new_entry ev g r m src) = g"
  "en_state (new_entry ev g r m src) = Warm" "en_last_used (new_entry ev g r m src) = ev_now ev"
  "en_dropped (new_entry ev g r m src) = False" "en_sources (new_entry ev g r m src) = src"
  by (simp_all add: new_entry_def)

lemma registered_as_served_witness:
  "\<exists>s. sv_run serve_greeter (sv_start blank 1) = Some s \<and> sv_functions s ''hi'' = Some 0
     \<and> (\<forall>n i. sv_functions s n = Some i \<longrightarrow>
          rf_name (en_resolved (sv_entries s i)) = n
          \<and> fst ` set (en_secrets (sv_entries s i)) = set (rf_secrets (en_resolved (sv_entries s i))))"
  using greeter_up registered_as_served [OF _ greeter_well_named, THEN conjunct1] by fastforce

lemma open_while_registered_witness:
  "\<exists>s. sv_run serve_greeter (sv_start blank 1) = Some s \<and> \<not> closed (state (en_gate (sv_entries s 0)))"
  using greeter_up open_while_registered [OF _ greeter_well_named, THEN conjunct1] by fastforce

lemma concurrency_kept_witness:
  "\<exists>s. sv_run serve_greeter (sv_start blank 1) = Some s \<and> card {t. \<exists>n. sv_thread s t = Running n 0} \<le> 2"
proof -
  obtain s where s: "sv_run serve_greeter (sv_start blank 1) = Some s" "sv_next s = 1" "en_resolved (sv_entries s 0) = greeter"
    using greeter_up by auto
  then show ?thesis
    using concurrency_kept [OF s(1) greeter_well_named, of 0] by auto
qed

lemma stopped_stays_stopped_witness:
  "\<exists>s1 s2. sv_run (serve_greeter @ [Begin 1 (Stop ''hi'') (at_time 5), Step 1 (at_time 5), Step 1 (at_time 5)]) (sv_start blank 1) = Some s1
     \<and> sv_run [Begin 2 (Exec ''hi'') (at_time 9), Step 2 (at_time 9)] s1 = Some s2
     \<and> sv_functions s2 ''hi'' = None \<and> sv_cold s2 ''hi'' = None"
proof -
  obtain s where s: "sv_run serve_greeter (sv_start blank 1) = Some s" "sv_functions s = [''hi'' \<mapsto> 0]"
    "sv_thread s = (\<lambda>_. Idle)(0 := Replied Served)"
    using greeter_up by auto
  let ?b = "goto 1 (StopCold ''hi'') s"
  have b: "sv_run [Begin 1 (Stop ''hi'') (at_time 5)] s = Some ?b"
    using s by (simp add: begin_command_def)
  obtain s1 where s1: "sv_run [Step 1 (at_time 5), Step 1 (at_time 5)] ?b = Some s1" "sv_thread s1 2 = Idle"
    "sv_functions s1 ''hi'' = None"
    using s by (simp add: sv_ops sv_moves)
  obtain s2 where s2: "sv_run [Begin 2 (Exec ''hi'') (at_time 9), Step 2 (at_time 9)] s1 = Some s2"
    using s1 by (simp add: sv_ops sv_moves)
  have "sv_functions s2 ''hi'' = None \<and> sv_cold s2 ''hi'' = None"
    by (rule stopped_stays_stopped [of ?b 1 "''hi''" _ _ s1 "[Begin 2 (Exec ''hi'') (at_time 9), Step 2 (at_time 9)]" s2])
      (use s s1 s2 in \<open>simp_all add: sv_ops\<close>)
  moreover have "sv_run (serve_greeter @ [Begin 1 (Stop ''hi'') (at_time 5), Step 1 (at_time 5), Step 1 (at_time 5)]) (sv_start blank 1) = Some s1"
    using sv_run_two [OF s(1) sv_run_two [OF b s1(1)]] by simp
  ultimately show ?thesis
    using s2 by blast
qed

lemma cold_function_wakes_witness:
  "\<exists>s1 s2. sv_run (serve_greeter @ [Begin 1 (Tier ''hi'') (at_time 300)] @ steps 1 300 4 @ [Dropped 0 True]) (sv_start blank 1) = Some s1
     \<and> sv_run ([Begin 2 (Exec ''hi'') (at_time 300)] @ steps 2 300 2 @ steps 2 300 5) s1 = Some s2
     \<and> sv_thread s2 2 = Running ''hi'' 1 \<and> en_resolved (sv_entries s2 1) = greeter
     \<and> en_secrets (sv_entries s2 1) = [(''key'', ''new'')]"
proof -
  obtain s where s: "sv_run serve_greeter (sv_start blank 1) = Some s" "sv_functions s = [''hi'' \<mapsto> 0]"
    "sv_thread s = (\<lambda>_. Idle)(0 := Replied Served)" "sv_next s = 1" 
    "sv_entries s 0 = new_entry (at_time 0) (fst (gate_named 1 ''hi'' 2 (default_queue_limit 2))) greeter [(''key'', ''new'')]
          (sources_of (\<lambda>_. None) greeter)"
    using greeter_up by auto
  have "\<exists>s1 s2. sv_run ([Begin 1 (Tier ''hi'') (at_time 300)] @ steps 1 300 4 @ [Dropped 0 True]) s = Some s1
    \<and> sv_functions s1 ''hi'' = None \<and> closed (state (en_gate (sv_entries s1 0)))
    \<and> sv_run ([Begin 2 (Exec ''hi'') (at_time 300)] @ steps 2 300 2 @ steps 2 300 5) s1 = Some s2
    \<and> sv_thread s2 2 = Running ''hi'' (sv_next s) \<and> sv_functions s2 ''hi'' = Some (sv_next s)
    \<and> sv_cold s2 ''hi'' = None
    \<and> en_resolved (sv_entries s2 (sv_next s)) = en_resolved (sv_entries s 0)
    \<and> en_secrets (sv_entries s2 (sv_next s)) = en_secrets (sv_entries s 0)"
    by (rule cold_function_wakes) (use s in \<open>simp_all split: if_splits\<close>)
  then obtain s1 s2 where w: "sv_run ([Begin 1 (Tier ''hi'') (at_time 300)] @ steps 1 300 4 @ [Dropped 0 True]) s = Some s1"
    "sv_run ([Begin 2 (Exec ''hi'') (at_time 300)] @ steps 2 300 2 @ steps 2 300 5) s1 = Some s2"
    "sv_thread s2 2 = Running ''hi'' (sv_next s)"
    "en_resolved (sv_entries s2 (sv_next s)) = en_resolved (sv_entries s 0)"
    "en_secrets (sv_entries s2 (sv_next s)) = en_secrets (sv_entries s 0)" by blast
  show ?thesis
    using sv_run_two [OF s(1) w(1)] w(2-5) s(4,5) by (intro exI [of _ s1] exI [of _ s2]) simp
qed

text \<open>A supervisor that holds the function cold.\<close>

definition sleepy :: "nat supervisor" where
  "sleepy = (sv_start blank 1)\<lparr>sv_cold := [''hi'' \<mapsto>
     \<lparr>co_resolved = greeter, co_secrets = [(''key'', ''new'')], co_sources = [], co_since = 300\<rparr>]\<rparr>"

lemma sleepy_parts:
  "sv_functions sleepy = Map.empty" "sv_thread sleepy = (\<lambda>_. Idle)" "sv_frozen sleepy = (\<lambda>_. False)" "sv_next sleepy = 0"
  "sv_cold sleepy ''hi'' = Some \<lparr>co_resolved = greeter, co_secrets = [(''key'', ''new'')], co_sources = [], co_since = 300\<rparr>"
  by (simp_all add: sleepy_def sv_start_def)

lemma stop_undone_by_wake_witness:
  "\<exists>es s'. sv_run es sleepy = Some s' \<and> sv_thread s' 2 = Replied StoppedReply \<and> sv_thread s' 1 = Running ''hi'' (sv_next sleepy)
     \<and> en_secrets (sv_entries s' (sv_next sleepy)) = [(''key'', ''new'')]"
proof -
  note w = stop_undone_by_wake [of sleepy "''hi''", OF _ sleepy_parts(5)]
  have "\<not> sv_frozen sleepy (home greeter)" by (simp add: sleepy_parts)
  then show ?thesis
    using w by (simp add: sleepy_parts(1,2)) blast
qed

lemma cold_function_survives_tenant_witness:
  "\<exists>es s'. sv_run es (stop_everything_for [] ''acme'' sleepy) = Some s'
     \<and> sv_thread s' 1 = Running ''hi'' (sv_next sleepy) \<and> en_secrets (sv_entries s' (sv_next sleepy)) = [(''key'', ''new'')]"
proof -
  note w = cold_function_survives_tenant [of sleepy "''hi''", OF _ sleepy_parts(5), of "''acme''" "[]",
    THEN conjunct2, THEN conjunct2, THEN conjunct2]
  have "\<not> sv_frozen sleepy (home greeter)" by (simp add: sleepy_parts)
  then show ?thesis
    using w by (simp add: sleepy_parts(1,2)) blast
qed

lemma drain_admits_cold_witness:
  "\<exists>es s'. sv_run es (drain_close [''other''] sleepy) = Some s' \<and> sv_thread s' 1 = Running ''hi'' (sv_next sleepy)"
proof -
  note w = drain_admits_cold(2) [of sleepy "''hi''", OF _ sleepy_parts(5), of "[''other'']"]
  have "\<not> sv_frozen sleepy (home greeter)" by (simp add: sleepy_parts)
  then show ?thesis
    using w by (simp add: sleepy_parts(1,2))
qed

lemma request_on_frozen_sandbox_witness:
  "\<exists>es s'. sv_run (serve_greeter @ es) (sv_start blank 1) = Some s' \<and> sv_thread s' 2 = Running ''hi'' 0
     \<and> sv_frozen s' (''acme'', ''hi'')"
proof -
  obtain s where s: "sv_run serve_greeter (sv_start blank 1) = Some s" "sv_functions s = [''hi'' \<mapsto> 0]"
    "sv_thread s = (\<lambda>_. Idle)(0 := Replied Served)" "sv_next s = 1"
    "sv_entries s 0 = new_entry (at_time 0) (fst (gate_named 1 ''hi'' 2 (default_queue_limit 2))) greeter [(''key'', ''new'')]
          (sources_of (\<lambda>_. None) greeter)"
    using greeter_up by auto
  have "\<exists>es s'. sv_run es s = Some s' \<and> sv_thread s' 2 = Running ''hi'' 0
    \<and> sv_functions s' ''hi'' = Some 0 \<and> sv_frozen s' (home (en_resolved (sv_entries s 0)))"
    by (rule request_on_frozen_sandbox [of _ _ _ 150]) (use s in simp_all)
  then obtain es s' where "sv_run es s = Some s'" "sv_thread s' 2 = Running ''hi'' 0" "sv_frozen s' (''acme'', ''hi'')"
    using s(5) by (auto simp: home_def)
  then show ?thesis
    using sv_run_two [OF s(1)] by blast
qed

text \<open>Third failure in a row, a tenth of a second after it.\<close>

lemma recovery_backs_off_witness:
  "\<exists>s'. advance 1 (at_time 1100) (Judge ''hi'' 0 Ensure)
      ((goto 1 (Judge ''hi'' 0 Ensure) (sv_start blank 1))\<lparr>sv_rewarms := [''hi'' \<mapsto> \<lparr>bo_failures = 3, bo_last_attempt = Some 1000\<rparr>]\<rparr>) = Some s'
    \<and> sv_thread s' 1 = Replied WarmFailed \<and> backoff_delay 3 = 800"
proof -
  let ?s = "(goto 1 (Judge ''hi'' 0 Ensure) (sv_start blank 1))\<lparr>sv_rewarms := [''hi'' \<mapsto> \<lparr>bo_failures = 3, bo_last_attempt = Some 1000\<rparr>]\<rparr>"
  obtain s' where s': "advance 1 (at_time 1100) (Judge ''hi'' 0 Ensure) ?s = Some s'"
    by simp
  have d: "backoff_delay 3 = 800"
    by (simp add: backoff_delay_closed REWARM_BACKOFF_BASE_def REWARM_BACKOFF_MAX_def)
  have "sv_thread s' 1 = Replied WarmFailed"
    using recovery_backs_off(1) [of ?s 1 "''hi''" 0 Ensure "\<lparr>bo_failures = 3, bo_last_attempt = Some 1000\<rparr>" 1000 "at_time 1100" s'] s' d
    by (simp add: sv_ops)
  then show ?thesis using s' d by blast
qed

end
