(* ===== verification/Zygo_Launcher.thy ===== *)
theory Zygo_Launcher
  imports Zygo_Prelude
begin

text \<open>
  The launcher (\<open>crates/zygo-core/src/supervisor/lifecycle.rs\<close>): the one thread every sandbox is
  started on, the queue in front of it, and the hand-off between a caller that may give up
  and the thread that may pick its job up.

  A job and its caller are one number. Every atomic operation of \<open>run_within\<close> is a step of its
  own: looking at the counter, adding to it, sending, the compare-and-swap on the ticket. Time is
  that a wait may expire at any moment; what the job does is the host's, a panic included.
\<close>

section \<open>The launcher and its callers\<close>

definition LAUNCH_QUEUE_LIMIT :: nat where "LAUNCH_QUEUE_LIMIT = 32"

datatype ticket = TQueued | TRunning | TAbandoned

text \<open>The thread: at the channel, or with a job it took off, counted down, or is working on.\<close>

datatype worker = AtRest | Took nat | Counted nat | Working nat

text \<open>
  A caller: not begun, past the look at the counter, counted in, waiting for its result with its
  budget, staying on because its job has begun; refused at the door, given up, or answered.
\<close>

datatype caller = Outside | Passed | Added | Waits | Stays | TurnedAway | GaveUp | Answered bool

record launcher =
  la_queue :: "nat list"
  la_count :: nat
  la_ticket :: "nat \<Rightarrow> ticket"
  la_worker :: worker
  la_ran :: "nat list"
  la_result :: "nat \<Rightarrow> bool option"
  la_caller :: "nat \<Rightarrow> caller"

definition new_launcher :: launcher where
  "new_launcher = \<lparr>la_queue = [], la_count = 0, la_ticket = (\<lambda>_. TQueued), la_worker = AtRest, la_ran = [],
     la_result = (\<lambda>_. None), la_caller = (\<lambda>_. Outside)\<rparr>"

definition call_is :: "nat \<Rightarrow> caller \<Rightarrow> launcher \<Rightarrow> launcher" where
  "call_is j c l = l\<lparr>la_caller := (la_caller l)(j := c)\<rparr>"

definition ticket_is :: "nat \<Rightarrow> ticket \<Rightarrow> launcher \<Rightarrow> launcher" where
  "ticket_is j c l = l\<lparr>la_ticket := (la_ticket l)(j := c)\<rparr>"

section \<open>The caller's side\<close>

text \<open>The look at the counter, before anything is sent.\<close>

definition check_room :: "nat \<Rightarrow> launcher \<Rightarrow> launcher option" where
  "check_room j l =
     (if la_caller l j \<noteq> Outside then None
      else Some (call_is j (if la_count l \<ge> LAUNCH_QUEUE_LIMIT then TurnedAway else Passed) l))"

definition count_in :: "nat \<Rightarrow> launcher \<Rightarrow> launcher option" where
  "count_in j l =
     (if la_caller l j \<noteq> Passed then None else Some (call_is j Added (l\<lparr>la_count := la_count l + 1\<rparr>)))"

definition send_job :: "nat \<Rightarrow> launcher \<Rightarrow> launcher option" where
  "send_job j l =
     (if la_caller l j \<noteq> Added then None else Some (call_is j Waits (l\<lparr>la_queue := la_queue l @ [j]\<rparr>)))"

text \<open>The budget runs out: the job is taken back if it has not begun, else its caller stays.\<close>

definition expire :: "nat \<Rightarrow> launcher \<Rightarrow> launcher option" where
  "expire j l =
     (if la_caller l j \<noteq> Waits then None
      else if la_ticket l j = TQueued then Some (call_is j GaveUp (ticket_is j TAbandoned l))
      else Some (call_is j Stays l))"

definition receive :: "nat \<Rightarrow> launcher \<Rightarrow> launcher option" where
  "receive j l =
     (case la_result l j of
        Some b \<Rightarrow> if la_caller l j = Waits \<or> la_caller l j = Stays then Some (call_is j (Answered b) l) else None
      | None \<Rightarrow> None)"

section \<open>The thread's side\<close>

definition take_job :: "launcher \<Rightarrow> launcher option" where
  "take_job l =
     (case (la_worker l, la_queue l) of
        (AtRest, j # js) \<Rightarrow> Some (l\<lparr>la_worker := Took j, la_queue := js\<rparr>)
      | _ \<Rightarrow> None)"

definition count_down :: "launcher \<Rightarrow> launcher option" where
  "count_down l =
     (case la_worker l of
        Took j \<Rightarrow> Some (l\<lparr>la_worker := Counted j, la_count := la_count l - 1\<rparr>)
      | _ \<Rightarrow> None)"

definition begin_job :: "launcher \<Rightarrow> launcher option" where
  "begin_job l =
     (case la_worker l of
        Counted j \<Rightarrow>
          if la_ticket l j = TQueued
          then Some (ticket_is j TRunning (l\<lparr>la_worker := Working j, la_ran := la_ran l @ [j]\<rparr>))
          else Some (l\<lparr>la_worker := AtRest\<rparr>)
      | _ \<Rightarrow> None)"

text \<open>A job that panics drops the channel of its result, which its caller is told.\<close>

definition finish_job :: "bool \<Rightarrow> launcher \<Rightarrow> launcher option" where
  "finish_job ok l =
     (case la_worker l of
        Working j \<Rightarrow> Some (l\<lparr>la_worker := AtRest, la_result := (la_result l)(j \<mapsto> ok)\<rparr>)
      | _ \<Rightarrow> None)"

datatype launch_event =
    CheckRoom nat | CountIn nat | SendJob nat | Expire nat | Receive nat | TakeJob | CountDown | BeginJob | FinishJob bool

fun launch_apply :: "launch_event \<Rightarrow> launcher \<Rightarrow> launcher option" where
  "launch_apply (CheckRoom j) l = check_room j l"
| "launch_apply (CountIn j) l = count_in j l"
| "launch_apply (SendJob j) l = send_job j l"
| "launch_apply (Expire j) l = expire j l"
| "launch_apply (Receive j) l = receive j l"
| "launch_apply TakeJob l = take_job l"
| "launch_apply CountDown l = count_down l"
| "launch_apply BeginJob l = begin_job l"
| "launch_apply (FinishJob ok) l = finish_job ok l"

fun launch_run :: "launch_event list \<Rightarrow> launcher \<Rightarrow> launcher option" where
  "launch_run [] l = Some l"
| "launch_run (e # es) l = Option.bind (launch_apply e l) (launch_run es)"

section \<open>What holds in every state\<close>

definition at_hand :: "worker \<Rightarrow> nat list" where
  "at_hand w = (case w of Took j \<Rightarrow> [j] | Counted j \<Rightarrow> [j] | _ \<Rightarrow> [])"

definition job_ok :: "launcher \<Rightarrow> nat \<Rightarrow> bool" where
  "job_ok l j \<longleftrightarrow>
     (case la_ticket l j of
        TQueued \<Rightarrow> j \<notin> set (la_ran l) \<and> la_result l j = None
          \<and> la_caller l j \<in> {Outside, TurnedAway, Passed, Added, Waits}
          \<and> (la_caller l j = Waits \<longrightarrow> j \<in> set (at_hand (la_worker l) @ la_queue l))
      | TAbandoned \<Rightarrow> j \<notin> set (la_ran l) \<and> la_result l j = None \<and> la_caller l j = GaveUp
      | TRunning \<Rightarrow> j \<in> set (la_ran l) \<and> (la_caller l j \<in> {Waits, Stays} \<or> (\<exists>b. la_caller l j = Answered b))
          \<and> (la_result l j = None \<longleftrightarrow> la_worker l = Working j))
     \<and> (j \<in> set (at_hand (la_worker l) @ la_queue l) \<longrightarrow> la_caller l j \<in> {Waits, GaveUp} \<and> la_ticket l j \<noteq> TRunning)"

definition added :: "launcher \<Rightarrow> nat set" where
  "added l = {j. la_caller l j = Added}"

definition launcher_ok :: "launcher \<Rightarrow> bool" where
  "launcher_ok l \<longleftrightarrow>
     (\<forall>j. job_ok l j) \<and> distinct (at_hand (la_worker l) @ la_queue l) \<and> distinct (la_ran l)
     \<and> (\<forall>j. la_worker l = Working j \<longrightarrow> la_ticket l j = TRunning)
     \<and> finite (added l)
     \<and> la_count l = card (added l) + length (la_queue l)
         + (case la_worker l of Took _ \<Rightarrow> 1 | _ \<Rightarrow> 0)"

lemma launcher_ok_start: "launcher_ok new_launcher"
  by (simp add: launcher_ok_def job_ok_def new_launcher_def at_hand_def added_def)

lemma launcher_parts [simp]:
  "la_queue (call_is j c l) = la_queue l" "la_count (call_is j c l) = la_count l" "la_ticket (call_is j c l) = la_ticket l"
  "la_worker (call_is j c l) = la_worker l" "la_ran (call_is j c l) = la_ran l" "la_result (call_is j c l) = la_result l"
  "la_caller (call_is j c l) = (la_caller l)(j := c)"
  "la_queue (ticket_is j t l) = la_queue l" "la_count (ticket_is j t l) = la_count l" "la_ticket (ticket_is j t l) = (la_ticket l)(j := t)"
  "la_worker (ticket_is j t l) = la_worker l" "la_ran (ticket_is j t l) = la_ran l" "la_result (ticket_is j t l) = la_result l"
  "la_caller (ticket_is j t l) = la_caller l"
  by (simp_all add: call_is_def ticket_is_def)

lemma launcher_okD:
  assumes "launcher_ok l"
  shows "job_ok l j" and "distinct (at_hand (la_worker l) @ la_queue l)" and "distinct (la_ran l)"
    and "la_worker l = Working j \<Longrightarrow> la_ticket l j = TRunning"
    and "finite (added l)"
    and "la_count l = card (added l) + length (la_queue l) + (case la_worker l of Took _ \<Rightarrow> 1 | _ \<Rightarrow> 0)"
  using assms by (auto simp: launcher_ok_def)

lemma launcher_okI:
  "(\<And>j. job_ok l j) \<Longrightarrow> distinct (at_hand (la_worker l) @ la_queue l) \<Longrightarrow> distinct (la_ran l) \<Longrightarrow>
   (\<And>j. la_worker l = Working j \<Longrightarrow> la_ticket l j = TRunning) \<Longrightarrow> finite (added l) \<Longrightarrow>
   la_count l = card (added l) + length (la_queue l) + (case la_worker l of Took _ \<Rightarrow> 1 | _ \<Rightarrow> 0) \<Longrightarrow> launcher_ok l"
  by (simp add: launcher_ok_def)

lemma added_simps [simp]:
  "added (call_is j c l) = (if c = Added then insert j (added l) else added l - {j})"
  "added (ticket_is j t l) = added l" "added (l\<lparr>la_queue := q\<rparr>) = added l" "added (l\<lparr>la_count := n\<rparr>) = added l"
  "added (l\<lparr>la_worker := w\<rparr>) = added l" "added (l\<lparr>la_ran := js\<rparr>) = added l" "added (l\<lparr>la_result := rs\<rparr>) = added l"
  "j \<in> added l \<longleftrightarrow> la_caller l j = Added"
  by (auto simp: added_def)

text \<open>A step of a caller that leaves the queue, the thread and the counter alone.\<close>

lemma caller_step_ok:
  assumes ok: "launcher_ok l" and c: "la_caller l j \<noteq> Added" "c \<noteq> Added"
    and j: "job_ok (call_is j c (if b then ticket_is j TAbandoned l else l)) j"
    and b: "b \<Longrightarrow> la_ticket l j = TQueued"
  shows "launcher_ok (call_is j c (if b then ticket_is j TAbandoned l else l))" (is "launcher_ok ?l")
proof -
  have jobs: "job_ok ?l k" for k
  proof (cases "k = j")
    case False
    then show ?thesis
      using launcher_okD(1) [OF ok, of k] by (simp add: job_ok_def split: ticket.splits)
  qed (use j in simp)
  show ?thesis
  proof (rule launcher_okI)
    show "la_ticket ?l k = TRunning" if "la_worker ?l = Working k" for k
      using launcher_okD(4) [OF ok, of k] that b by (auto split: if_splits)
  qed (use jobs launcher_okD(2,3,5,6) [OF ok] c in \<open>simp_all\<close>)
qed

lemma check_room_ok: "launcher_ok l \<Longrightarrow> check_room j l = Some l' \<Longrightarrow> launcher_ok l'"
  using caller_step_ok [of l j _ False] launcher_okD(1) [of l j]
  by (auto simp: check_room_def job_ok_def split: if_splits ticket.splits)

lemma expire_ok:
  assumes ok: "launcher_ok l" and e: "expire j l = Some l'"
  shows "launcher_ok l'"
proof (cases "la_ticket l j = TQueued")
  case True
  then have w: "la_caller l j = Waits" and l': "l' = call_is j GaveUp (ticket_is j TAbandoned l)"
    using e by (auto simp: expire_def split: if_splits)
  have "job_ok l' j"
    using launcher_okD(1) [OF ok, of j] True w by (auto simp: job_ok_def l')
  then show ?thesis
    using caller_step_ok [OF ok, of j GaveUp True] w True l' by simp
next
  case False
  then have w: "la_caller l j = Waits" and l': "l' = call_is j Stays l"
    using e by (auto simp: expire_def split: if_splits)
  have "job_ok l' j"
    using launcher_okD(1) [OF ok, of j] False w by (auto simp: job_ok_def l' split: ticket.splits)
  then show ?thesis
    using caller_step_ok [OF ok, of j Stays False] w l' by simp
qed

lemma receive_ok:
  assumes ok: "launcher_ok l" and e: "receive j l = Some l'"
  shows "launcher_ok l'"
proof -
  obtain b where b: "la_result l j = Some b" "la_caller l j = Waits \<or> la_caller l j = Stays" "l' = call_is j (Answered b) l"
    using e by (auto simp: receive_def split: option.splits if_splits)
  have "job_ok l' j"
    using launcher_okD(1) [OF ok, of j] b by (auto simp: job_ok_def split: ticket.splits)
  then show ?thesis
    using caller_step_ok [OF ok, of j "Answered b" False] b by auto
qed

lemma count_in_ok:
  assumes ok: "launcher_ok l" and e: "count_in j l = Some l'"
  shows "launcher_ok l'"
proof -
  have p: "la_caller l j = Passed" and l': "l' = call_is j Added (l\<lparr>la_count := la_count l + 1\<rparr>)"
    using e by (auto simp: count_in_def split: if_splits)
  have jobs: "job_ok l' k" for k
    using launcher_okD(1) [OF ok, of k] p by (auto simp: job_ok_def l' split: ticket.splits)
  moreover have "la_worker l' = Working k \<Longrightarrow> la_ticket l' k = TRunning" for k
    using launcher_okD(4) [OF ok] by (simp add: l')
  ultimately show ?thesis
    using launcher_okD(2,3,5,6) [OF ok] p by (intro launcher_okI) (simp_all add: l')
qed

lemma send_job_ok:
  assumes ok: "launcher_ok l" and e: "send_job j l = Some l'"
  shows "launcher_ok l'"
proof -
  have p: "la_caller l j = Added" and l': "l' = call_is j Waits (l\<lparr>la_queue := la_queue l @ [j]\<rparr>)"
    using e by (auto simp: send_job_def split: if_splits)
  have out: "j \<notin> set (at_hand (la_worker l) @ la_queue l)"
    using launcher_okD(1) [OF ok, of j] p by (auto simp: job_ok_def)
  have jobs: "job_ok l' k" for k
    using launcher_okD(1) [OF ok, of k] p out by (auto simp: job_ok_def l' split: ticket.splits)
  moreover have "0 < card (added l)"
    using launcher_okD(5) [OF ok] p by (auto simp: card_gt_0_iff)
  moreover have "la_worker l' = Working k \<Longrightarrow> la_ticket l' k = TRunning" for k
    using launcher_okD(4) [OF ok] by (simp add: l')
  ultimately show ?thesis
    using launcher_okD(2,3,5,6) [OF ok] out p by (intro launcher_okI) (simp_all add: l' card_Diff_singleton)
qed

lemma take_job_ok:
  assumes ok: "launcher_ok l" and e: "take_job l = Some l'"
  shows "launcher_ok l'"
proof -
  obtain j js where w: "la_worker l = AtRest" "la_queue l = j # js" and l': "l' = l\<lparr>la_worker := Took j, la_queue := js\<rparr>"
    using e by (auto simp: take_job_def split: worker.splits list.splits)
  have jobs: "job_ok l' k" for k
    using launcher_okD(1) [OF ok, of k] w by (auto simp: job_ok_def l' at_hand_def split: ticket.splits)
  then show ?thesis
    using launcher_okD(2,3,5,6) [OF ok] w by (intro launcher_okI) (simp_all add: l' at_hand_def)
qed

lemma count_down_ok:
  assumes ok: "launcher_ok l" and e: "count_down l = Some l'"
  shows "launcher_ok l'"
proof -
  obtain j where w: "la_worker l = Took j" and l': "l' = l\<lparr>la_worker := Counted j, la_count := la_count l - 1\<rparr>"
    using e by (auto simp: count_down_def split: worker.splits)
  have jobs: "job_ok l' k" for k
    using launcher_okD(1) [OF ok, of k] w by (auto simp: job_ok_def l' at_hand_def split: ticket.splits)
  then show ?thesis
    using launcher_okD(2,3,5,6) [OF ok] w by (intro launcher_okI) (simp_all add: l' at_hand_def)
qed

lemma begin_job_ok:
  assumes ok: "launcher_ok l" and e: "begin_job l = Some l'"
  shows "launcher_ok l'"
proof -
  obtain j where w: "la_worker l = Counted j"
    using e by (auto simp: begin_job_def split: worker.splits)
  have j: "j \<notin> set (la_queue l)" "la_caller l j \<in> {Waits, GaveUp}" "la_ticket l j \<noteq> TRunning"
    using launcher_okD(1,2) [OF ok] w by (auto simp: at_hand_def job_ok_def)
  show ?thesis
  proof (cases "la_ticket l j = TQueued")
    case True
    then have l': "l' = ticket_is j TRunning (l\<lparr>la_worker := Working j, la_ran := la_ran l @ [j]\<rparr>)"
      using e w by (simp add: begin_job_def)
    have jobs: "job_ok l' k" for k
      using launcher_okD(1) [OF ok, of k] w True j by (auto simp: job_ok_def l' at_hand_def split: ticket.splits)
    moreover have "j \<notin> set (la_ran l)"
      using launcher_okD(1) [OF ok, of j] True by (simp add: job_ok_def)
    ultimately show ?thesis
      using launcher_okD(2,3,5,6) [OF ok] w by (intro launcher_okI) (simp_all add: l' at_hand_def)
  next
    case False
    then have l': "l' = l\<lparr>la_worker := AtRest\<rparr>"
      using e w by (simp add: begin_job_def)
    have jobs: "job_ok l' k" for k
      using launcher_okD(1) [OF ok, of k] w False j by (auto simp: job_ok_def l' at_hand_def split: ticket.splits)
    then show ?thesis
      using launcher_okD(2,3,5,6) [OF ok] w by (intro launcher_okI) (simp_all add: l' at_hand_def)
  qed
qed

lemma finish_job_ok:
  assumes ok: "launcher_ok l" and e: "finish_job b l = Some l'"
  shows "launcher_ok l'"
proof -
  obtain j where w: "la_worker l = Working j" and l': "l' = l\<lparr>la_worker := AtRest, la_result := (la_result l)(j \<mapsto> b)\<rparr>"
    using e by (auto simp: finish_job_def split: worker.splits)
  have jobs: "job_ok l' k" for k
    using launcher_okD(1) [OF ok, of k] launcher_okD(4) [OF ok w] w
    by (auto simp: job_ok_def l' at_hand_def split: ticket.splits)
  then show ?thesis
    using launcher_okD(2,3,5,6) [OF ok] w by (intro launcher_okI) (simp_all add: l' at_hand_def)
qed

lemma launch_apply_ok: "launcher_ok l \<Longrightarrow> launch_apply e l = Some l' \<Longrightarrow> launcher_ok l'"
  by (cases e) (auto intro: check_room_ok count_in_ok send_job_ok expire_ok receive_ok take_job_ok count_down_ok
      begin_job_ok finish_job_ok)

lemma launch_run_ok: "launch_run es l = Some l' \<Longrightarrow> launcher_ok l \<Longrightarrow> launcher_ok l'"
  by (induction es arbitrary: l) (auto simp: bind_eq_Some_conv intro: launch_apply_ok)

text \<open>What has run stays run, and who gave up stays so.\<close>

lemma launch_apply_keeps:
  assumes "launch_apply e l = Some l'"
  shows "set (la_ran l) \<subseteq> set (la_ran l')" and "la_caller l j = GaveUp \<Longrightarrow> la_caller l' j = GaveUp"
  using assms
  by (cases e; auto simp: check_room_def count_in_def send_job_def expire_def receive_def take_job_def count_down_def
      begin_job_def finish_job_def split: if_splits option.splits worker.splits list.splits)+

lemma launch_run_append: "launch_run (xs @ ys) l = Option.bind (launch_run xs l) (launch_run ys)"
  by (induction xs arbitrary: l) (auto split: bind_splits)

lemma launch_run_keeps: "launch_run es l = Some l' \<Longrightarrow> la_caller l j = GaveUp \<Longrightarrow> la_caller l' j = GaveUp"
proof (induction es arbitrary: l)
  case (Cons e es)
  then obtain l1 where "launch_apply e l = Some l1" "launch_run es l1 = Some l'"
    by (auto simp: bind_eq_Some_conv)
  then show ?case
    using Cons.IH launch_apply_keeps(2) Cons.prems(2) by blast
qed simp

section \<open>Properties\<close>

lemma launch_has_one_winner_facts:
  assumes "launch_run es new_launcher = Some l" and "launch_run es' l = Some l'"
  shows "la_caller l j = GaveUp \<Longrightarrow> j \<notin> set (la_ran l')"
    and "la_caller l j = Stays \<or> la_caller l j = Answered b \<Longrightarrow> j \<in> set (la_ran l)"
    and "distinct (la_ran l)"
    and "la_worker l = Took k \<Longrightarrow> la_count l \<ge> 1"
proof -
  have ok: "launcher_ok l" "launcher_ok l'"
    using launch_run_ok [OF assms(1) launcher_ok_start] launch_run_ok [OF assms(2)] by auto
  have "la_caller l j = GaveUp \<Longrightarrow> la_caller l' j = GaveUp"
    by (rule launch_run_keeps [OF assms(2)])
  then show "la_caller l j = GaveUp \<Longrightarrow> j \<notin> set (la_ran l')"
    using launcher_okD(1) [OF ok(2), of j] by (auto simp: job_ok_def split: ticket.splits)
  show "la_caller l j = Stays \<or> la_caller l j = Answered b \<Longrightarrow> j \<in> set (la_ran l)"
    using launcher_okD(1) [OF ok(1), of j] by (auto simp: job_ok_def split: ticket.splits)
  show "distinct (la_ran l)"
    by (rule launcher_okD(3) [OF ok(1)])
  show "la_worker l = Took k \<Longrightarrow> la_count l \<ge> 1"
    using launcher_okD(6) [OF ok(1)] by simp
qed

text \<open>
  C32. The hand-off between a caller that gives up and the launcher that picks its job up has
  exactly one winner. In every reachable state, and ever after: the job of a caller that was
  told the launcher is busy has not run and never will; the job of a caller that stays or was
  answered has run; no job runs twice; and the counter is the number of jobs that were counted
  in and not yet counted down, so it never underflows.
\<close>

theorem launch_has_one_winner:
  assumes "launch_run es new_launcher = Some l" and "launch_run es' l = Some l'"
  shows "(la_caller l j = GaveUp \<longrightarrow> j \<notin> set (la_ran l'))
    \<and> (la_caller l j = Stays \<or> la_caller l j = Answered b \<longrightarrow> j \<in> set (la_ran l))
    \<and> (distinct (la_ran l))
    \<and> (la_worker l = Took k \<longrightarrow> la_count l \<ge> 1)"
  using launch_has_one_winner_facts [OF assms] by blast

text \<open>Callers that look before any of them is counted in all find room.\<close>

lemma all_pass:
  "(\<And>j. j < n \<Longrightarrow> la_caller l j = Outside) \<Longrightarrow> la_count l < LAUNCH_QUEUE_LIMIT \<Longrightarrow>
     launch_run (map CheckRoom [0..<n]) l = Some (l\<lparr>la_caller := (\<lambda>j. if j < n then Passed else la_caller l j)\<rparr>)"
proof (induction n)
  case (Suc n)
  show ?case
    using Suc by (auto simp: launch_run_append check_room_def call_is_def fun_eq_iff less_Suc_eq)
qed simp

lemma all_counted:
  "(\<And>j. j < n \<Longrightarrow> la_caller l j = Passed) \<Longrightarrow>
     launch_run (map CountIn [0..<n]) l =
       Some (l\<lparr>la_caller := (\<lambda>j. if j < n then Added else la_caller l j), la_count := la_count l + n\<rparr>)"
proof (induction n)
  case (Suc n)
  show ?case
    using Suc by (auto simp: launch_run_append count_in_def call_is_def fun_eq_iff less_Suc_eq)
qed simp

text \<open>
  The queue's limit is not one. The look at the counter and the addition to it are two
  operations, so any number of callers can pass the look before the first of them is counted:
  for every number there is a schedule after which that many jobs are counted in at once.
\<close>

theorem launch_queue_has_no_bound: "\<exists>es l. launch_run es new_launcher = Some l \<and> la_count l = n"
proof -
  let ?l = "new_launcher\<lparr>la_caller := (\<lambda>j. if j < n then Passed else la_caller new_launcher j)\<rparr>"
  have "launch_run (map CheckRoom [0..<n]) new_launcher = Some ?l"
    by (rule all_pass) (simp_all add: new_launcher_def LAUNCH_QUEUE_LIMIT_def)
  moreover have "launch_run (map CountIn [0..<n]) ?l =
      Some (?l\<lparr>la_caller := (\<lambda>j. if j < n then Added else la_caller ?l j), la_count := la_count ?l + n\<rparr>)"
    by (rule all_counted) simp
  ultimately have "launch_run (map CheckRoom [0..<n] @ map CountIn [0..<n]) new_launcher =
      Some (?l\<lparr>la_caller := (\<lambda>j. if j < n then Added else la_caller ?l j), la_count := la_count ?l + n\<rparr>)"
    by (simp add: launch_run_append)
  then show ?thesis
    by (intro exI conjI) (assumption, simp add: new_launcher_def)
qed

text \<open>The second caller gives up while the first one's job is at work.\<close>

lemma launch_has_one_winner_witness:
  "\<exists>l. launch_run [CheckRoom 0, CountIn 0, SendJob 0, CheckRoom 1, CountIn 1, SendJob 1, TakeJob, CountDown, BeginJob,
       Expire 0, Expire 1, FinishJob True, TakeJob, CountDown, BeginJob] new_launcher = Some l
     \<and> la_caller l 1 = GaveUp \<and> 1 \<notin> set (la_ran l) \<and> la_caller l 0 = Stays \<and> 0 \<in> set (la_ran l)"
proof -
  let ?es = "[CheckRoom 0, CountIn 0, SendJob 0, CheckRoom 1, CountIn 1, SendJob 1, TakeJob, CountDown, BeginJob,
       Expire 0, Expire 1, FinishJob True, TakeJob, CountDown, BeginJob]"
  have "\<exists>l. launch_run ?es new_launcher = Some l \<and> la_caller l 1 = GaveUp \<and> la_caller l 0 = Stays"
    by (simp add: check_room_def count_in_def send_job_def take_job_def count_down_def begin_job_def expire_def
        finish_job_def new_launcher_def LAUNCH_QUEUE_LIMIT_def)
  then obtain l where l: "launch_run ?es new_launcher = Some l" "la_caller l 1 = GaveUp" "la_caller l 0 = Stays"
    by blast
  have n: "launch_run [] l = Some l" by simp
  have "1 \<notin> set (la_ran l)" "0 \<in> set (la_ran l)"
    using launch_has_one_winner [OF l(1) n, of 1] launch_has_one_winner [OF l(1) n, of 0] l(2,3) by blast+
  then show ?thesis using l by blast
qed

end
