(* ===== verification/Rust_Fs.thy ===== *)
theory Rust_Fs
  imports Rust_Io Rust_Paths
begin

text \<open>
  The part of \<open>std::fs\<close> that unpacks and copies trees, over a Linux file system with directories,
  regular files that can have several names, and symbolic links that are followed where Linux
  follows them. Permissions, times and other devices are not part of it, except that the host
  may refuse a hard link.

  A path is its components (\<open>Rust_Paths\<close>). A place is where a path leads once links and \<open>..\<close>
  are gone: the names from the root. Relative paths start at the root.
\<close>

section \<open>Nodes and places\<close>

type_synonym path = "component list"
type_synonym place = "string list"

datatype node = Dir | Regular nat | Symlink path

text \<open>
  A regular file is the number of its contents, so that two names of one file share it. The
  nodes are kept as an association list: a directory can be read.
\<close>

record fs =
  fs_nodes :: "(place \<times> node) list"
  fs_data :: "nat \<Rightarrow> string"
  fs_next :: nat
  fs_refuses :: "place \<Rightarrow> place \<Rightarrow> io_error option"

definition node_at :: "fs \<Rightarrow> place \<Rightarrow> node option" where
  "node_at f p = (if p = [] then Some Dir else map_of (fs_nodes f) p)"

definition put :: "place \<Rightarrow> node \<Rightarrow> fs \<Rightarrow> fs" where
  "put p n f = f\<lparr>fs_nodes := (p, n) # filter (\<lambda>(q, _). q \<noteq> p) (fs_nodes f)\<rparr>"

definition drop_node :: "place \<Rightarrow> fs \<Rightarrow> fs" where
  "drop_node p f = f\<lparr>fs_nodes := filter (\<lambda>(q, _). q \<noteq> p) (fs_nodes f)\<rparr>"

definition drop_tree :: "place \<Rightarrow> fs \<Rightarrow> fs" where
  "drop_tree p f = f\<lparr>fs_nodes := filter (\<lambda>(q, _). \<not> prefix p q) (fs_nodes f)\<rparr>"

text \<open>A file with contents of its own.\<close>

definition put_file :: "place \<Rightarrow> string \<Rightarrow> fs \<Rightarrow> fs" where
  "put_file p d f = (put p (Regular (fs_next f)) f)\<lparr>fs_data := (fs_data f)(fs_next f := d), fs_next := fs_next f + 1\<rparr>"

definition names_in :: "place \<Rightarrow> fs \<Rightarrow> string list" where
  "names_in p f = remdups (map last (filter (\<lambda>q. q \<noteq> [] \<and> butlast q = p) (map fst (fs_nodes f))))"

section \<open>Following a path\<close>

definition ENOENT :: io_error where "ENOENT = NotFound"
definition EXDEV :: io_error where "EXDEV = OtherError 18"
definition ENOTDIR :: io_error where "ENOTDIR = OtherError 20"
definition EISDIR :: io_error where "EISDIR = OtherError 21"
definition EINVAL :: io_error where "EINVAL = OtherError 22"
definition ELOOP :: io_error where "ELOOP = OtherError 40"
definition EOPNOTSUPP :: io_error where "EOPNOTSUPP = OtherError 95"

text \<open>
  \<open>k\<close> is how many more links may be followed, 40 to begin with. A link in the last place is
  followed only when asked. The last name need not exist.
\<close>

function walk :: "fs \<Rightarrow> bool \<Rightarrow> nat \<Rightarrow> place \<Rightarrow> path \<Rightarrow> io_error + place" where
  "walk f follow k p [] = Inr p"
| "walk f follow k p (RootDir # cs) = walk f follow k [] cs"
| "walk f follow k p (CurDir # cs) = walk f follow k p cs"
| "walk f follow k p (ParentDir # cs) = walk f follow k (butlast p) cs"
| "walk f follow k p (Normal n # cs) =
     (case node_at f (p @ [n]) of
        Some Dir \<Rightarrow> walk f follow k (p @ [n]) cs
      | Some (Symlink t) \<Rightarrow>
          if cs = [] \<and> \<not> follow then Inr (p @ [n])
          else (case k of 0 \<Rightarrow> Inl ELOOP | Suc k' \<Rightarrow> walk f follow k' p (t @ cs))
      | Some (Regular _) \<Rightarrow> if cs = [] then Inr (p @ [n]) else Inl ENOTDIR
      | None \<Rightarrow> if cs = [] then Inr (p @ [n]) else Inl ENOENT)"
  by pat_completeness auto

termination
  by (relation "measures [\<lambda>(f, follow, k, p, cs). k, \<lambda>(f, follow, k, p, cs). length cs]") auto

definition MAX_LINKS :: nat where "MAX_LINKS = 40"

definition place_of :: "bool \<Rightarrow> path \<Rightarrow> fs \<Rightarrow> io_error + place" where
  "place_of follow cs f = walk f follow MAX_LINKS [] cs"

section \<open>Reading\<close>

definition lookup_node :: "bool \<Rightarrow> path \<Rightarrow> fs \<Rightarrow> io_error + node" where
  "lookup_node follow cs f = and_then (place_of follow cs f) (\<lambda>p. ok_or ENOENT (node_at f p))"

abbreviation symlink_metadata :: "path \<Rightarrow> fs \<Rightarrow> io_error + node" where
  "symlink_metadata \<equiv> lookup_node False"

definition path_exists :: "path \<Rightarrow> fs \<Rightarrow> bool" where
  "path_exists cs f \<longleftrightarrow> is_ok (lookup_node True cs f)"

definition path_is_dir :: "path \<Rightarrow> fs \<Rightarrow> bool" where
  "path_is_dir cs f \<longleftrightarrow> lookup_node True cs f = Inr Dir"

definition path_is_file :: "path \<Rightarrow> fs \<Rightarrow> bool" where
  "path_is_file cs f \<longleftrightarrow> (case lookup_node True cs f of Inr (Regular _) \<Rightarrow> True | _ \<Rightarrow> False)"

definition fs_read :: "path \<Rightarrow> fs \<Rightarrow> io_error + string" where
  "fs_read cs f = and_then (lookup_node True cs f) (\<lambda>n. case n of
     Regular i \<Rightarrow> Inr (fs_data f i) | Dir \<Rightarrow> Inl EISDIR | Symlink _ \<Rightarrow> Inl ELOOP)"

definition read_dir :: "path \<Rightarrow> fs \<Rightarrow> io_error + string list" where
  "read_dir cs f = and_then (place_of True cs f) (\<lambda>p. case node_at f p of
     Some Dir \<Rightarrow> Inr (names_in p f) | Some _ \<Rightarrow> Inl ENOTDIR | None \<Rightarrow> Inl ENOENT)"

definition read_link :: "path \<Rightarrow> fs \<Rightarrow> io_error + path" where
  "read_link cs f = and_then (symlink_metadata cs f) (\<lambda>n. case n of Symlink t \<Rightarrow> Inr t | _ \<Rightarrow> Inl EINVAL)"

section \<open>Changing\<close>

type_synonym 'a io = "(fs, io_error, 'a) step"

text \<open>What happens at the place a path leads to.\<close>

definition at_place :: "bool \<Rightarrow> path \<Rightarrow> (place \<Rightarrow> node option \<Rightarrow> 'a io) \<Rightarrow> 'a io" where
  "at_place follow cs act f =
     (case place_of follow cs f of Inl e \<Rightarrow> (Inl e, f) | Inr p \<Rightarrow> act p (node_at f p) f)"

definition create_at :: "(place \<Rightarrow> fs \<Rightarrow> fs) \<Rightarrow> path \<Rightarrow> unit io" where
  "create_at mk cs = at_place False cs (\<lambda>p n f. case n of None \<Rightarrow> (Inr (), mk p f) | Some _ \<Rightarrow> (Inl AlreadyExists, f))"

definition create_dir :: "path \<Rightarrow> unit io" where
  "create_dir = create_at (\<lambda>p. put p Dir)"

definition make_symlink :: "path \<Rightarrow> path \<Rightarrow> unit io" where
  "make_symlink target = create_at (\<lambda>p. put p (Symlink target))"

definition remove_file :: "path \<Rightarrow> unit io" where
  "remove_file cs = at_place False cs (\<lambda>p n f. case n of
     None \<Rightarrow> (Inl ENOENT, f) | Some Dir \<Rightarrow> (Inl EISDIR, f) | Some _ \<Rightarrow> (Inr (), drop_node p f))"

text \<open>A link is removed as a link; in a directory nothing is followed.\<close>

definition remove_dir_all :: "path \<Rightarrow> unit io" where
  "remove_dir_all cs = at_place False cs (\<lambda>p n f. case n of
     None \<Rightarrow> (Inl ENOENT, f) | Some Dir \<Rightarrow> (Inr (), drop_tree p f)
   | Some (Symlink _) \<Rightarrow> (Inr (), drop_node p f) | Some (Regular _) \<Rightarrow> (Inl ENOTDIR, f))"

text \<open>\<open>fs::write\<close> opens with \<open>O_CREAT | O_TRUNC\<close>: a link is followed, a dangling one creates its target.\<close>

definition fs_write :: "path \<Rightarrow> string \<Rightarrow> unit io" where
  "fs_write cs d = at_place True cs (\<lambda>p n f. case n of
     None \<Rightarrow> (Inr (), put_file p d f)
   | Some (Regular i) \<Rightarrow> (Inr (), f\<lparr>fs_data := (fs_data f)(i := d)\<rparr>)
   | Some Dir \<Rightarrow> (Inl EISDIR, f) | Some (Symlink _) \<Rightarrow> (Inl ELOOP, f))"

text \<open>\<open>linkat\<close> without \<open>AT_SYMLINK_FOLLOW\<close>.\<close>

definition hard_link :: "path \<Rightarrow> path \<Rightarrow> unit io" where
  "hard_link source dest f =
     (case place_of False source f of
        Inl e \<Rightarrow> (Inl e, f)
      | Inr s \<Rightarrow> (case node_at f s of
            None \<Rightarrow> (Inl ENOENT, f)
          | Some Dir \<Rightarrow> (Inl PermissionDenied, f)
          | Some n \<Rightarrow> at_place False dest (\<lambda>d m f. case m of
                Some _ \<Rightarrow> (Inl AlreadyExists, f)
              | None \<Rightarrow> (case fs_refuses f s d of Some e \<Rightarrow> (Inl e, f) | None \<Rightarrow> (Inr (), put d n f))) f))"

text \<open>\<open>fs::copy\<close> follows links on both sides.\<close>

definition copy_file :: "path \<Rightarrow> path \<Rightarrow> unit io" where
  "copy_file source dest f =
     (case lookup_node True source f of
        Inl e \<Rightarrow> (Inl e, f)
      | Inr (Regular i) \<Rightarrow> fs_write dest (fs_data f i) f
      | Inr _ \<Rightarrow> (Inl EINVAL, f))"

text \<open>\<open>fs::rename\<close> of a file or a link; the program never renames a directory here.\<close>

definition rename_file :: "path \<Rightarrow> path \<Rightarrow> unit io" where
  "rename_file source dest f =
     (case place_of False source f of
        Inl e \<Rightarrow> (Inl e, f)
      | Inr s \<Rightarrow> (case node_at f s of
            None \<Rightarrow> (Inl ENOENT, f)
          | Some Dir \<Rightarrow> (Inl EINVAL, f)
          | Some n \<Rightarrow> at_place False dest (\<lambda>d m f. case m of
                Some Dir \<Rightarrow> (Inl EISDIR, f)
              | _ \<Rightarrow> (Inr (), if d = s then f else put d n (drop_node s f))) f))"

text \<open>
  \<open>create_dir_all\<close>: the directory, or, when its parent is missing, the parent first. The path
  is cut at its end.
\<close>

function create_dir_all :: "path \<Rightarrow> unit io" where
  "create_dir_all cs f =
     (if cs = [] then (Inr (), f)
      else case create_dir cs f of
        (Inr _, f') \<Rightarrow> (Inr (), f')
      | (Inl NotFound, _) \<Rightarrow>
          (case create_dir_all (butlast cs) f of
             (Inl e, f') \<Rightarrow> (Inl e, f')
           | (Inr _, f') \<Rightarrow> (case create_dir cs f' of
                 (Inr _, f'') \<Rightarrow> (Inr (), f'')
               | (Inl e, f'') \<Rightarrow> if path_is_dir cs f'' then (Inr (), f'') else (Inl e, f'')))
      | (Inl e, f') \<Rightarrow> if path_is_dir cs f' then (Inr (), f') else (Inl e, f'))"
  by pat_completeness auto

termination
  by (relation "measure (\<lambda>(cs, f). length cs)") auto

declare create_dir_all.simps [simp del]

end
