(* ===== verification/Zygo_Layers.thy ===== *)
theory Zygo_Layers
  imports Zygo_Mount Zygo_Paths Rust_Utf8 Rust_Fs
begin

text \<open>
  Unpacking, flattening and presenting the layers of an image
  (\<open>crates/zygo-core/src/image/store.rs\<close>, \<open>image/media.rs\<close>), over the file system of \<open>Rust_Fs\<close>.

  The tar reader, the decompressors, SHA-256 and JSON are parameters: an archive is the list of
  its entries, and \<open>unpack\<close> is what \<open>tar::Entry::unpack\<close> does with one. The lock of a layer or of
  a flattened root is taken for the whole of a step and is left out; so are times, which
  \<open>touch\<close> and \<open>keep_times\<close> set. Fuel bounds how deep a copied tree is: running out is \<open>None\<close>.
\<close>

section \<open>Names of the store\<close>

definition WHITEOUT_PREFIX :: string where "WHITEOUT_PREFIX = ''.wh.''"
definition OPAQUE_MARKER :: string where "OPAQUE_MARKER = ''.wh..wh..opq''"
definition WHITEOUT_FILE :: string where "WHITEOUT_FILE = ''.zygo-whiteouts.json''"
definition LAYER_DONE :: string where "LAYER_DONE = ''.zygo-complete''"

record whiteouts =
  wo_removed :: "path list"
  wo_opaque :: "path list"

definition no_whiteouts :: whiteouts where
  "no_whiteouts = \<lparr>wo_removed = [], wo_opaque = []\<rparr>"

definition whiteouts_empty :: "whiteouts \<Rightarrow> bool" where
  "whiteouts_empty w \<longleftrightarrow> wo_removed w = [] \<and> wo_opaque w = []"

datatype store_error =
    InvalidDigest string string
  | DigestMismatch string string
  | UnsafePath path
  | UnpackFailed string
  | IoAt path io_error

type_synonym 'a st = "(fs, store_error, 'a) step"

text \<open>An operation on a path, its error named after the path: \<open>.at(path)?\<close>.\<close>

definition at_path :: "path \<Rightarrow> 'a io \<Rightarrow> 'a st" where
  "at_path p m f = (case m f of (Inl e, f') \<Rightarrow> (Inl (IoAt p e), f') | (Inr a, f') \<Rightarrow> (Inr a, f'))"

definition stop_with :: "store_error \<Rightarrow> 'a st" where
  "stop_with e f = (Inl e, f)"

section \<open>Paths\<close>

text \<open>\<open>Path::file_name\<close>, \<open>parent\<close>, \<open>with_file_name\<close> and \<open>strip_prefix\<close>, on components.\<close>

definition file_name_of :: "path \<Rightarrow> string option" where
  "file_name_of p = (case rev p of Normal n # _ \<Rightarrow> Some n | _ \<Rightarrow> None)"

definition parent_of :: "path \<Rightarrow> path option" where
  "parent_of p = (if p = [] \<or> p = [RootDir] then None else Some (butlast p))"

definition push_text :: "path \<Rightarrow> string \<Rightarrow> path" where
  "push_text p s =
     (if p = [] \<or> is_absolute s then components s else p @ map component_of (path_segments s))"

definition with_file_name :: "path \<Rightarrow> string \<Rightarrow> path" where
  "with_file_name p s = push_text (if file_name_of p = None then p else butlast p) s"

definition strip_base :: "path \<Rightarrow> path \<Rightarrow> path option" where
  "strip_base base p = (if prefix base p then Some (drop (length base) p) else None)"

fun safe_join_from :: "path \<Rightarrow> path \<Rightarrow> path \<Rightarrow> store_error + path" where
  "safe_join_from rel out [] = Inr out"
| "safe_join_from rel out (c # cs) =
     (case c of
        Normal n \<Rightarrow> if CHR 0x00 \<in> set n then Inl (UnsafePath rel) else safe_join_from rel (out @ [Normal n]) cs
      | CurDir \<Rightarrow> safe_join_from rel out cs
      | ParentDir \<Rightarrow> Inl (UnsafePath rel)
      | RootDir \<Rightarrow> Inl (UnsafePath rel))"

definition safe_join :: "path \<Rightarrow> path \<Rightarrow> store_error + path" where
  "safe_join root rel = safe_join_from rel root rel"

section \<open>Digests and places\<close>

definition is_hex_digit :: "char \<Rightarrow> bool" where
  "is_hex_digit c \<longleftrightarrow> c \<in> set ''0123456789abcdefABCDEF''"

definition is_upper :: "char \<Rightarrow> bool" where
  "is_upper c \<longleftrightarrow> c \<in> set ''ABCDEFGHIJKLMNOPQRSTUVWXYZ''"

definition store_parse_digest :: "string \<Rightarrow> store_error + string" where
  "store_parse_digest digest =
     (case strip_prefix ''sha256:'' digest of
        None \<Rightarrow> Inl (InvalidDigest digest ''only sha256 digests are supported'')
      | Some hex \<Rightarrow>
          if length hex \<noteq> 64 \<or> \<not> list_all is_hex_digit hex
          then Inl (InvalidDigest digest ''not a 64-character hex sha256'')
          else if list_ex is_upper hex
          then Inl (InvalidDigest digest ''sha256 digests are written in lower-case hex'')
          else Inr hex)"

definition blob_path :: "zygo_paths \<Rightarrow> string \<Rightarrow> store_error + path" where
  "blob_path z digest = map_ok (push_text (components (blobs_path z))) (store_parse_digest digest)"

definition layer_dir :: "zygo_paths \<Rightarrow> string \<Rightarrow> store_error + path" where
  "layer_dir z digest = map_ok (push_text (components (layers_path z))) (store_parse_digest digest)"

definition has_blob :: "zygo_paths \<Rightarrow> string \<Rightarrow> fs \<Rightarrow> bool" where
  "has_blob z digest f = (case blob_path z digest of Inl _ \<Rightarrow> False | Inr p \<Rightarrow> path_is_file p f)"

definition has_layer :: "zygo_paths \<Rightarrow> string \<Rightarrow> fs \<Rightarrow> bool" where
  "has_layer z digest f =
     (case layer_dir z digest of Inl _ \<Rightarrow> False | Inr d \<Rightarrow> path_is_file (push_text d LAYER_DONE) f)"

definition read_blob :: "zygo_paths \<Rightarrow> string \<Rightarrow> fs \<Rightarrow> store_error + string" where
  "read_blob z digest f = and_then (blob_path z digest) (\<lambda>p. map_err (IoAt p) (fs_read p f))"

section \<open>Extracting an archive\<close>

datatype entry_type = LinkEntry | CharEntry | BlockEntry | FifoEntry | OtherEntry

record 'b tar_entry =
  te_path :: "io_error + string"
  te_type :: entry_type
  te_link :: "io_error + string option"
  te_body :: 'b

definition remove_whatever :: "path \<Rightarrow> unit st" where
  "remove_whatever p f =
     (case symlink_metadata p f of
        Inl _ \<Rightarrow> (Inr (), f)
      | Inr Dir \<Rightarrow> at_path p (remove_dir_all p) f
      | Inr _ \<Rightarrow> at_path p (remove_file p) f)"

definition link_or_copy :: "path \<Rightarrow> path \<Rightarrow> unit st" where
  "link_or_copy source dest f =
     (case symlink_metadata source f of
        Inl _ \<Rightarrow> (Inl (UnpackFailed ''hard link target is missing from the layer''), f)
      | Inr _ \<Rightarrow> and_do (remove_whatever dest) (\<lambda>_ f. case hard_link source dest f of
            (Inr _, f') \<Rightarrow> (Inr (), f')
          | (Inl e, f') \<Rightarrow>
              if e = EXDEV \<or> e = EOPNOTSUPP \<or> e = PermissionDenied then at_path dest (copy_file source dest) f'
              else (Inl (IoAt dest e), f')) f)"

fun ensure_real_from :: "path \<Rightarrow> path \<Rightarrow> unit st" where
  "ensure_real_from current [] f = (Inr (), f)"
| "ensure_real_from current (c # cs) f =
     (let here = current @ [c] in
      case symlink_metadata here f of
        Inr Dir \<Rightarrow> ensure_real_from here cs f
      | Inr (Symlink _) \<Rightarrow> (Inl (UnsafePath here), f)
      | Inr (Regular _) \<Rightarrow>
          and_do (at_path here (remove_file here))
            (\<lambda>_. and_do (at_path here (create_dir here)) (\<lambda>_. ensure_real_from here cs)) f
      | Inl _ \<Rightarrow> and_do (at_path here (create_dir_all here)) (\<lambda>_. ensure_real_from here cs) f)"

definition ensure_real_directory :: "path \<Rightarrow> path \<Rightarrow> unit st" where
  "ensure_real_directory root p =
     ensure_real_from root (case strip_base root p of Some rel \<Rightarrow> rel | None \<Rightarrow> [])"

text \<open>
  What a whiteout entry records; \<open>None\<close> for an entry that is content. A name that is not UTF-8
  is content.
\<close>

definition whiteout_of :: "path \<Rightarrow> (whiteouts \<Rightarrow> whiteouts) option" where
  "whiteout_of p =
     (case file_name_of p of
        None \<Rightarrow> None
      | Some n \<Rightarrow>
          if \<not> is_utf8 n then None
          else if n = OPAQUE_MARKER then
            Some (\<lambda>w. case parent_of p of Some d \<Rightarrow> w\<lparr>wo_opaque := wo_opaque w @ [d]\<rparr> | None \<Rightarrow> w)
          else (case strip_prefix WHITEOUT_PREFIX n of
              Some s \<Rightarrow> Some (\<lambda>w. w\<lparr>wo_removed := wo_removed w @ [with_file_name p s]\<rparr>)
            | None \<Rightarrow> None))"

definition write_entry :: "('b tar_entry \<Rightarrow> path \<Rightarrow> unit io) \<Rightarrow> path \<Rightarrow> path \<Rightarrow> 'b tar_entry \<Rightarrow> unit st" where
  "write_entry unpack dir dest entry =
     (case te_type entry of
        LinkEntry \<Rightarrow> (case te_link entry of
            Inl _ \<Rightarrow> stop_with (UnpackFailed ''link name'')
          | Inr None \<Rightarrow> stop_with (UnpackFailed ''hard link has no target'')
          | Inr (Some t) \<Rightarrow> (case safe_join dir (components t) of
              Inl e \<Rightarrow> stop_with e
            | Inr source \<Rightarrow> link_or_copy source dest))
      | CharEntry \<Rightarrow> return_ok ()
      | BlockEntry \<Rightarrow> return_ok ()
      | FifoEntry \<Rightarrow> return_ok ()
      | OtherEntry \<Rightarrow> (\<lambda>f. case unpack entry dest f of
          (Inl _, f') \<Rightarrow> (Inl (UnpackFailed ''entry''), f') | (Inr _, f') \<Rightarrow> (Inr (), f')))"

definition extract_content :: "('b tar_entry \<Rightarrow> path \<Rightarrow> unit io) \<Rightarrow> path \<Rightarrow> path \<Rightarrow> 'b tar_entry \<Rightarrow> unit st" where
  "extract_content unpack dir p entry =
     (case safe_join dir p of
        Inl e \<Rightarrow> stop_with e
      | Inr dest \<Rightarrow>
          and_do (case parent_of dest of Some d \<Rightarrow> ensure_real_directory dir d | None \<Rightarrow> return_ok ())
            (\<lambda>_. write_entry unpack dir dest entry))"

text \<open>An entry the reader cannot read ends the extraction.\<close>

fun extract_entries ::
  "('b tar_entry \<Rightarrow> path \<Rightarrow> unit io) \<Rightarrow> path \<Rightarrow> (io_error + 'b tar_entry) list \<Rightarrow> whiteouts \<Rightarrow> whiteouts st" where
  "extract_entries unpack dir [] w f = (Inr w, f)"
| "extract_entries unpack dir (Inl e # es) w f = (Inl (UnpackFailed ''archive''), f)"
| "extract_entries unpack dir (Inr entry # es) w f =
     (case te_path entry of
        Inl _ \<Rightarrow> (Inl (UnpackFailed ''path''), f)
      | Inr t \<Rightarrow> (case whiteout_of (components t) of
            Some record_in \<Rightarrow> extract_entries unpack dir es (record_in w) f
          | None \<Rightarrow> and_do (extract_content unpack dir (components t) entry)
                      (\<lambda>_. extract_entries unpack dir es w) f))"

definition extract_tar ::
  "('b tar_entry \<Rightarrow> path \<Rightarrow> unit io) \<Rightarrow> path \<Rightarrow> (io_error + 'b tar_entry) list \<Rightarrow> whiteouts st" where
  "extract_tar unpack dir es = extract_entries unpack dir es no_whiteouts"

section \<open>Unpacking a layer\<close>

datatype layer_compression = Uncompressed | Gzip | Zstd

definition layer_compression_of :: "string \<Rightarrow> layer_compression option" where
  "layer_compression_of media_type =
     (let base = trim (hd (split_on CHR '';'' media_type)) in
      if base = ''application/vnd.oci.image.layer.v1.tar''
         \<or> base = ''application/vnd.docker.image.rootfs.diff.tar'' then Some Uncompressed
      else if base = ''application/vnd.oci.image.layer.v1.tar+gzip''
         \<or> base = ''application/vnd.docker.image.rootfs.diff.tar.gzip'' then Some Gzip
      else if base = ''application/vnd.oci.image.layer.v1.tar+zstd'' then Some Zstd
      else None)"

text \<open>
  What the store uses from elsewhere: the entries of an archive behind its compression (\<open>None\<close>
  when there is no decoder for it), writing an entry, the JSON of whiteouts, and a digest.
\<close>

record 'b store_env =
  se_entries :: "layer_compression \<Rightarrow> string \<Rightarrow> (io_error + 'b tar_entry) list option"
  se_unpack :: "'b tar_entry \<Rightarrow> path \<Rightarrow> unit io"
  se_json :: "whiteouts \<Rightarrow> string"
  se_parse :: "string \<Rightarrow> whiteouts option"
  se_sha256 :: "string \<Rightarrow> string"

definition whiteouts_of :: "'b store_env \<Rightarrow> zygo_paths \<Rightarrow> string \<Rightarrow> fs \<Rightarrow> whiteouts" where
  "whiteouts_of env z digest f =
     (case layer_dir z digest of
        Inl _ \<Rightarrow> no_whiteouts
      | Inr d \<Rightarrow> (case fs_read (push_text d WHITEOUT_FILE) f of
            Inl _ \<Rightarrow> no_whiteouts
          | Inr t \<Rightarrow> (case se_parse env t of Some w \<Rightarrow> w | None \<Rightarrow> no_whiteouts)))"

text \<open>The end of an unpack: the record of the whiteouts, if any, and the marker.\<close>

definition finish_layer :: "'b store_env \<Rightarrow> path \<Rightarrow> whiteouts \<Rightarrow> unit st" where
  "finish_layer env d w =
     and_do (if whiteouts_empty w then return_ok ()
             else at_path (push_text d WHITEOUT_FILE) (fs_write (push_text d WHITEOUT_FILE) (se_json env w)))
       (\<lambda>_. at_path (push_text d LAYER_DONE) (fs_write (push_text d LAYER_DONE) []))"

definition clear_dir :: "path \<Rightarrow> unit st" where
  "clear_dir d =
     and_do (\<lambda>f. if path_exists d f then at_path d (remove_dir_all d) f else (Inr (), f))
       (\<lambda>_. at_path d (create_dir_all d))"

definition unpack_layer :: "'b store_env \<Rightarrow> zygo_paths \<Rightarrow> string \<Rightarrow> layer_compression \<Rightarrow> path st" where
  "unpack_layer env z digest compression f =
     (case layer_dir z digest of
        Inl e \<Rightarrow> (Inl e, f)
      | Inr d \<Rightarrow>
          if has_layer z digest f then (Inr d, f)
          else and_do (clear_dir d)
            (\<lambda>_ f. case read_blob z digest f of
               Inl e \<Rightarrow> (Inl e, f)
             | Inr blob \<Rightarrow> (case se_entries env compression blob of
                 None \<Rightarrow> (Inl (UnpackFailed ''zstd''), f)
               | Some es \<Rightarrow> (case extract_tar (se_unpack env) d es f of
                   (Inl e, f') \<Rightarrow> and_do (ignoring (remove_dir_all d)) (\<lambda>_. stop_with e) f'
                 | (Inr w, f') \<Rightarrow> and_do (finish_layer env d w) (\<lambda>_. return_ok d) f'))) f)"

section \<open>Mount points\<close>

definition mount_point_path :: "mount_point \<Rightarrow> path" where
  "mount_point_path m =
     (let p = components (mpt_path m) in case strip_base [RootDir] p of Some r \<Rightarrow> r | None \<Rightarrow> p)"

definition create_mount_point :: "path \<Rightarrow> mount_point \<Rightarrow> unit st" where
  "create_mount_point d m =
     (case safe_join d (mount_point_path m) of
        Inl e \<Rightarrow> stop_with e
      | Inr p \<Rightarrow> (case mpt_kind m of
          Directory \<Rightarrow> at_path p (create_dir_all p)
        | File \<Rightarrow>
            and_do (case parent_of p of Some up \<Rightarrow> at_path up (create_dir_all up) | None \<Rightarrow> return_ok ())
              (\<lambda>_ f. if path_exists p f then (Inr (), f) else at_path p (fs_write p []) f)))"

definition create_mount_points :: "path \<Rightarrow> mount_point list \<Rightarrow> unit st" where
  "create_mount_points d = each (create_mount_point d)"

text \<open>Sorted by path, stably, and the first of those with one path kept.\<close>

function dedup_points :: "mount_point list \<Rightarrow> mount_point list" where
  "dedup_points [] = []"
| "dedup_points (m # ms) =
     m # dedup_points (dropWhile (\<lambda>n. components (mpt_path n) = components (mpt_path m)) ms)"
  by pat_completeness auto

termination
  by (relation "measure length") (auto simp: less_Suc_eq_le length_dropWhile_le)

definition sorted_points :: "mount_point list \<Rightarrow> mount_point list" where
  "sorted_points ms = dedup_points (sort_key (\<lambda>m. components (mpt_path m)) ms)"

definition point_key :: "mount_point \<Rightarrow> string" where
  "point_key m = mpt_path m @ (case mpt_kind m of Directory \<Rightarrow> ''/d'' | File \<Rightarrow> ''/f'') @ [CHR 0x0A]"

definition skeleton_dir :: "'b store_env \<Rightarrow> zygo_paths \<Rightarrow> mount_point list \<Rightarrow> path" where
  "skeleton_dir env z ms =
     push_text (push_text (components (zp_data z)) ''cache/skeleton'') (se_sha256 env (concat (map point_key ms)))"

definition skeleton :: "'b store_env \<Rightarrow> zygo_paths \<Rightarrow> mount_point list \<Rightarrow> path st" where
  "skeleton env z points f =
     (let ms = sorted_points points; d = skeleton_dir env z ms in
      if path_is_file (push_text d LAYER_DONE) f then (Inr d, f)
      else and_do (create_mount_points d ms)
        (\<lambda>_. and_do (at_path (push_text d LAYER_DONE) (fs_write (push_text d LAYER_DONE) []))
          (\<lambda>_. return_ok d)) f)"

section \<open>Flattening\<close>

definition is_internal_entry :: "string \<Rightarrow> bool" where
  "is_internal_entry n \<longleftrightarrow> n = LAYER_DONE \<or> n = WHITEOUT_FILE"

type_synonym counted = "fs \<Rightarrow> ((store_error + unit) \<times> fs) option"

text \<open>Steps that may run out of fuel.\<close>

definition then_counted :: "unit st \<Rightarrow> counted \<Rightarrow> counted" where
  "then_counted m k f = (case m f of (Inl e, f') \<Rightarrow> Some (Inl e, f') | (Inr _, f') \<Rightarrow> k f')"

definition counted_do :: "counted \<Rightarrow> counted \<Rightarrow> counted" where
  "counted_do m k f = (case m f of None \<Rightarrow> None | Some (Inl e, f') \<Rightarrow> Some (Inl e, f') | Some (Inr _, f') \<Rightarrow> k f')"

definition done_counted :: counted where
  "done_counted f = Some (Inr (), f)"

fun each_counted :: "('x \<Rightarrow> counted) \<Rightarrow> 'x list \<Rightarrow> counted" where
  "each_counted g [] = done_counted"
| "each_counted g (x # xs) = counted_do (g x) (each_counted g xs)"

text \<open>One entry of a directory: \<open>deeper\<close> copies what is in it.\<close>

definition copy_entry :: "(path \<Rightarrow> path \<Rightarrow> counted) \<Rightarrow> path \<Rightarrow> path \<Rightarrow> string \<Rightarrow> counted" where
  "copy_entry deeper src dst n f =
     (if is_internal_entry n then Some (Inr (), f)
      else let from_path = src @ [Normal n]; to = dst @ [Normal n] in
        case symlink_metadata from_path f of
          Inl e \<Rightarrow> Some (Inl (IoAt from_path e), f)
        | Inr Dir \<Rightarrow>
            then_counted (case symlink_metadata to f of
                Inr Dir \<Rightarrow> return_ok () | Inr _ \<Rightarrow> remove_whatever to | Inl _ \<Rightarrow> return_ok ())
              (then_counted (at_path to (create_dir_all to)) (deeper from_path to)) f
        | Inr node \<Rightarrow>
            then_counted (if is_ok (symlink_metadata to f) then remove_whatever to else return_ok ())
              (then_counted (case node of
                  Symlink _ \<Rightarrow> (\<lambda>f. case read_link from_path f of
                      Inl e \<Rightarrow> (Inl (IoAt from_path e), f) | Inr t \<Rightarrow> at_path to (make_symlink t to) f)
                | _ \<Rightarrow> at_path to (copy_file from_path to)) done_counted) f)"

fun copy_tree :: "nat \<Rightarrow> path \<Rightarrow> path \<Rightarrow> counted" where
  "copy_tree 0 src dst f = None"
| "copy_tree (Suc k) src dst f =
     (case read_dir src f of
        Inl e \<Rightarrow> Some (Inl (IoAt src e), f)
      | Inr names \<Rightarrow> each_counted (copy_entry (copy_tree k) src dst) names f)"

definition apply_opaque :: "path \<Rightarrow> path \<Rightarrow> unit st" where
  "apply_opaque d p f =
     (case safe_join d p of
        Inl e \<Rightarrow> (Inl e, f)
      | Inr target \<Rightarrow>
          if path_is_dir target f
          then and_do (at_path target (remove_dir_all target)) (\<lambda>_. at_path target (create_dir_all target)) f
          else (Inr (), f))"

definition apply_removed :: "path \<Rightarrow> path \<Rightarrow> unit st" where
  "apply_removed d p f =
     (case safe_join d p of
        Inl e \<Rightarrow> (Inl e, f)
      | Inr target \<Rightarrow>
          if path_is_dir target f then ignoring (remove_dir_all target) f
          else ignoring (remove_file target) f)"

definition flatten_layer :: "nat \<Rightarrow> 'b store_env \<Rightarrow> zygo_paths \<Rightarrow> path \<Rightarrow> string \<Rightarrow> counted" where
  "flatten_layer k env z d digest f =
     (case layer_dir z digest of
        Inl e \<Rightarrow> Some (Inl e, f)
      | Inr src \<Rightarrow>
          let w = whiteouts_of env z digest f in
          then_counted (each (apply_opaque d) (wo_opaque w))
            (then_counted (each (apply_removed d) (wo_removed w)) (copy_tree k src d)) f)"

definition flat_key :: "string list \<Rightarrow> mount_point list \<Rightarrow> string" where
  "flat_key layers ms = concat (map (\<lambda>d. d @ [CHR 0x0A]) layers) @ concat (map point_key ms)"

definition flat_dir :: "'b store_env \<Rightarrow> zygo_paths \<Rightarrow> string list \<Rightarrow> mount_point list \<Rightarrow> path" where
  "flat_dir env z layers ms = push_text (components (flat_cache_path z)) (se_sha256 env (flat_key layers ms))"

definition flatten_with_mount_points ::
  "nat \<Rightarrow> 'b store_env \<Rightarrow> zygo_paths \<Rightarrow> string list \<Rightarrow> mount_point list \<Rightarrow> counted" where
  "flatten_with_mount_points k env z layers points f =
     (let ms = sorted_points points; d = flat_dir env z layers ms; marker = push_text d LAYER_DONE in
      if path_is_file marker f then Some (Inr (), f)
      else then_counted (clear_dir d)
        (counted_do (each_counted (flatten_layer k env z d) layers)
          (then_counted (create_mount_points d ms)
            (then_counted (at_path marker (fs_write marker (concat (map (\<lambda>l. l @ [CHR 0x0A]) layers))))
              done_counted))) f)"

definition flatten :: "nat \<Rightarrow> 'b store_env \<Rightarrow> zygo_paths \<Rightarrow> string list \<Rightarrow> counted" where
  "flatten k env z layers = flatten_with_mount_points k env z layers []"

section \<open>The root file system of a sandbox\<close>

fun layer_dirs :: "zygo_paths \<Rightarrow> string list \<Rightarrow> store_error + path list" where
  "layer_dirs z [] = Inr []"
| "layer_dirs z (l # ls) = and_then (layer_dir z l) (\<lambda>d. map_ok (Cons d) (layer_dirs z ls))"

datatype root_view = OverlayOf "path list" | FlatAt path

definition rootfs_view_of ::
  "nat \<Rightarrow> 'b store_env \<Rightarrow> zygo_paths \<Rightarrow> string list \<Rightarrow> bool \<Rightarrow> mount_point list \<Rightarrow> fs
     \<Rightarrow> ((store_error + root_view) \<times> fs) option" where
  "rootfs_view_of k env z layers overlay_supported points f =
     (let needs_flatten = list_ex (\<lambda>d. \<not> whiteouts_empty (whiteouts_of env z d f)) layers in
      if overlay_supported \<and> \<not> needs_flatten then
        Some (case layer_dirs z (rev layers) of
            Inl e \<Rightarrow> (Inl e, f)
          | Inr lower \<Rightarrow> and_do (skeleton env z points) (\<lambda>s. return_ok (OverlayOf (lower @ [s]))) f)
      else (case flatten_with_mount_points k env z layers points f of
          None \<Rightarrow> None
        | Some (Inl e, f') \<Rightarrow> Some (Inl e, f')
        | Some (Inr _, f') \<Rightarrow> Some (Inr (FlatAt (flat_dir env z layers (sorted_points points))), f')))"

end
