(* ===== verification/Rust_Fs_Laws.thy ===== *)
theory Rust_Fs_Laws
  imports Rust_Fs
begin

text \<open>
  What the operations of \<open>Rust_Fs\<close> do at a path whose parent is a real directory, what it means
  that a change stays below a directory, and the tree a program sees.
\<close>

named_theorems fs_nodes_simps "the nodes of a changed file system"
named_theorems fs_ops "operations below a real directory"

section \<open>Nodes\<close>

lemma node_at_root [simp]: "node_at f [] = Some Dir"
  by (simp add: node_at_def)

lemma map_of_filter_keys: "map_of (filter (\<lambda>(q, _). P q) xs) p = (if P p then map_of xs p else None)"
  by (induction xs) auto

lemma node_at_put [fs_nodes_simps]: "p \<noteq> [] \<Longrightarrow> node_at (put p n f) q = (if q = p then Some n else node_at f q)"
  by (simp add: node_at_def put_def map_of_filter_keys)

lemma node_at_drop_node [fs_nodes_simps]:
  "p \<noteq> [] \<Longrightarrow> node_at (drop_node p f) q = (if q = p then None else node_at f q)"
  by (simp add: node_at_def drop_node_def map_of_filter_keys)

lemma node_at_drop_tree [fs_nodes_simps]:
  "p \<noteq> [] \<Longrightarrow> node_at (drop_tree p f) q = (if prefix p q then None else node_at f q)"
  by (auto simp: node_at_def drop_tree_def map_of_filter_keys)

lemma node_at_put_file [fs_nodes_simps]:
  "p \<noteq> [] \<Longrightarrow> node_at (put_file p d f) q = (if q = p then Some (Regular (fs_next f)) else node_at f q)"
  by (simp add: node_at_def put_file_def put_def map_of_filter_keys)

lemma node_at_data [simp]: "node_at (f\<lparr>fs_data := g\<rparr>) p = node_at f p"
  by (simp add: node_at_def)

lemma fs_parts [simp]:
  "fs_data (put p n f) = fs_data f" "fs_next (put p n f) = fs_next f" "fs_refuses (put p n f) = fs_refuses f"
  "fs_data (drop_node p f) = fs_data f" "fs_next (drop_node p f) = fs_next f" "fs_refuses (drop_node p f) = fs_refuses f"
  "fs_data (drop_tree p f) = fs_data f" "fs_next (drop_tree p f) = fs_next f" "fs_refuses (drop_tree p f) = fs_refuses f"
  "fs_data (put_file p d f) = (fs_data f)(fs_next f := d)" "fs_next (put_file p d f) = Suc (fs_next f)"
  "fs_refuses (put_file p d f) = fs_refuses f"
  by (simp_all add: put_def drop_node_def drop_tree_def put_file_def)

lemma distinct_names_in [simp]: "distinct (names_in p f)"
  by (simp add: names_in_def)

lemma set_names_in: "n \<in> set (names_in p f) \<longleftrightarrow> node_at f (p @ [n]) \<noteq> None"
proof -
  have e: "q \<noteq> [] \<and> butlast q = p \<and> last q = n \<longleftrightarrow> q = p @ [n]" for q
    by (cases q rule: rev_cases) auto
  have "n \<in> set (names_in p f) \<longleftrightarrow> (\<exists>q \<in> fst ` set (fs_nodes f). q \<noteq> [] \<and> butlast q = p \<and> last q = n)"
    by (simp add: names_in_def image_iff Bex_def conj_ac) blast
  also have "\<dots> \<longleftrightarrow> p @ [n] \<in> fst ` set (fs_nodes f)"
    by (simp only: e) metis
  finally show ?thesis
    by (simp add: node_at_def map_of_eq_None_iff)
qed

section \<open>Well-formed file systems\<close>

text \<open>The numbers of contents in use are below the next one, and every node is in a directory.\<close>

definition fs_ok :: "fs \<Rightarrow> bool" where
  "fs_ok f \<longleftrightarrow> (\<forall>p i. node_at f p = Some (Regular i) \<longrightarrow> i < fs_next f)
     \<and> (\<forall>p n x. node_at f (p @ [n]) = Some x \<longrightarrow> node_at f p = Some Dir)"

lemma fs_okI:
  assumes "\<And>p i. node_at f p = Some (Regular i) \<Longrightarrow> i < fs_next f"
    and "\<And>p n x. node_at f (p @ [n]) = Some x \<Longrightarrow> node_at f p = Some Dir"
  shows "fs_ok f"
  using assms unfolding fs_ok_def by blast

lemma fs_ok_number: "fs_ok f \<Longrightarrow> node_at f p = Some (Regular i) \<Longrightarrow> i < fs_next f"
  unfolding fs_ok_def by blast

lemma fs_ok_parent: "fs_ok f \<Longrightarrow> node_at f (p @ [n]) = Some x \<Longrightarrow> node_at f p = Some Dir"
  unfolding fs_ok_def by blast

lemma fs_ok_above: "fs_ok f \<Longrightarrow> node_at f (p @ q) = Some x \<Longrightarrow> q \<noteq> [] \<Longrightarrow> node_at f p = Some Dir"
proof (induction q arbitrary: x rule: rev_induct)
  case (snoc n q)
  then have "node_at f (p @ q) = Some Dir"
    using fs_ok_parent [of f "p @ q" n x] by simp
  then show ?case using snoc by (cases "q = []") auto
qed simp

lemma fs_ok_prefix:
  assumes "fs_ok f" and "node_at f p = Some Dir" and "prefix q p"
  shows "node_at f q = Some Dir"
proof -
  obtain r where "p = q @ r" using assms(3) by (auto simp: prefix_def)
  then show ?thesis using assms fs_ok_above [of f q r] by (cases "r = []") auto
qed

lemma fs_ok_below_none:
  assumes "fs_ok f" and "node_at f p \<noteq> Some Dir" and "q \<noteq> []"
  shows "node_at f (p @ q) = None"
  using assms fs_ok_above [OF assms(1), of p q] by (cases "node_at f (p @ q)") auto

lemma fs_ok_put:
  assumes "fs_ok f" and "node_at f p = Some Dir" and "node_at f (p @ [n]) = None"
    and "\<And>i. x = Regular i \<Longrightarrow> i < fs_next f"
  shows "fs_ok (put (p @ [n]) x f)"
proof (rule fs_okI)
  fix q m y assume "node_at (put (p @ [n]) x f) (q @ [m]) = Some y"
  then show "node_at (put (p @ [n]) x f) q = Some Dir"
    using assms(2,3) fs_ok_parent [OF assms(1), of q m] by (auto simp: fs_nodes_simps split: if_splits)
qed (use assms(4) fs_ok_number [OF assms(1)] in \<open>auto simp: fs_nodes_simps split: if_splits\<close>)

lemma fs_ok_put_file:
  assumes "fs_ok f" and "node_at f p = Some Dir" and "node_at f (p @ [n]) = None"
  shows "fs_ok (put_file (p @ [n]) d f)"
proof (rule fs_okI)
  fix q m y assume "node_at (put_file (p @ [n]) d f) (q @ [m]) = Some y"
  then show "node_at (put_file (p @ [n]) d f) q = Some Dir"
    using assms(2,3) fs_ok_parent [OF assms(1), of q m] by (auto simp: fs_nodes_simps split: if_splits)
qed (use fs_ok_number [OF assms(1)] in \<open>auto simp: fs_nodes_simps less_SucI split: if_splits\<close>)

lemma fs_ok_drop_node:
  assumes "fs_ok f" and "p \<noteq> []" and "node_at f p \<noteq> Some Dir"
  shows "fs_ok (drop_node p f)"
proof (rule fs_okI)
  fix q m y assume "node_at (drop_node p f) (q @ [m]) = Some y"
  then have "node_at f (q @ [m]) = Some y"
    using assms(2) by (simp add: fs_nodes_simps split: if_splits)
  from fs_ok_parent [OF assms(1) this] show "node_at (drop_node p f) q = Some Dir"
    using assms(2,3) by (auto simp: fs_nodes_simps)
qed (use assms(2) fs_ok_number [OF assms(1)] in \<open>auto simp: fs_nodes_simps split: if_splits\<close>)

lemma fs_ok_drop_tree:
  assumes "fs_ok f" and "p \<noteq> []"
  shows "fs_ok (drop_tree p f)"
proof (rule fs_okI)
  fix q m y assume "node_at (drop_tree p f) (q @ [m]) = Some y"
  then have "node_at f (q @ [m]) = Some y" "\<not> prefix p (q @ [m])"
    using assms(2) by (simp_all add: fs_nodes_simps split: if_splits)
  with fs_ok_parent [OF assms(1) this(1)] show "node_at (drop_tree p f) q = Some Dir"
    using assms(2) by (simp add: fs_nodes_simps)
qed (use assms(2) fs_ok_number [OF assms(1)] in \<open>auto simp: fs_nodes_simps split: if_splits\<close>)

lemma fs_ok_data [simp]: "fs_ok (f\<lparr>fs_data := g\<rparr>) = fs_ok f"
  by (simp add: fs_ok_def)

section \<open>Paths without links\<close>

definition path_at :: "place \<Rightarrow> path" where
  "path_at p = RootDir # map Normal p"

lemma path_at_snoc: "path_at p @ [Normal n] = path_at (p @ [n])"
  by (simp add: path_at_def)

lemma path_at_butlast [simp]: "butlast (path_at (p @ [n])) = path_at p"
  by (simp add: path_at_def butlast_append)

lemma path_at_eq [simp]: "path_at p = path_at q \<longleftrightarrow> p = q"
proof -
  have "map Normal p = map Normal q \<longleftrightarrow> p = q"
    by (simp add: inj_map_eq_map inj_def)
  then show ?thesis by (simp add: path_at_def)
qed

lemma walk_real:
  assumes "fs_ok f"
  shows "node_at f (a @ b) = Some Dir \<Longrightarrow> walk f fl k a (map Normal b @ cs) = walk f fl k (a @ b) cs"
proof (induction b arbitrary: a)
  case (Cons n b)
  then have "node_at f (a @ [n]) = Some Dir"
    using fs_ok_prefix [OF assms, of "a @ n # b" "a @ [n]"] by (simp add: prefix_def)
  then show ?case using Cons.IH [of "a @ [n]"] Cons.prems by simp
qed simp

lemma place_of_at:
  assumes "fs_ok f" and "node_at f p = Some Dir"
  shows "place_of False (path_at (p @ [n])) f = Inr (p @ [n])"
    and "(\<forall>t. node_at f (p @ [n]) \<noteq> Some (Symlink t)) \<Longrightarrow> place_of fl (path_at (p @ [n])) f = Inr (p @ [n])"
  using walk_real [OF assms(1), of "[]" p] assms(2)
  by (auto simp: place_of_def path_at_def split: option.splits node.splits)

lemma place_of_dir:
  assumes "fs_ok f" and "node_at f p = Some Dir"
  shows "place_of fl (path_at p) f = Inr p"
  using walk_real [OF assms(1), of "[]" p fl MAX_LINKS "[]"] assms(2) by (simp add: place_of_def path_at_def)

text \<open>A path through a link.\<close>

lemma place_of_through:
  assumes "fs_ok f" and "node_at f p = Some Dir" and "node_at f (p @ [n]) = Some (Symlink t)" and "cs \<noteq> [] \<or> fl"
  shows "place_of fl (path_at p @ Normal n # cs) f = walk f fl 39 p (t @ cs)"
proof -
  have m: "MAX_LINKS = Suc 39" by (simp add: MAX_LINKS_def)
  show ?thesis
    unfolding place_of_def path_at_def m using walk_real [OF assms(1), of "[]" p] assms(2-4) by auto
qed

lemma walk_from_root:
  assumes "fs_ok f" and "node_at f h = Some Dir" and "\<forall>t. node_at f (h @ [m]) \<noteq> Some (Symlink t)"
  shows "walk f fl k p (path_at (h @ [m])) = Inr (h @ [m])"
  using walk_real [OF assms(1), of "[]" h] assms(2,3) by (auto simp: path_at_def split: option.splits node.splits)

lemma place_of_link:
  assumes "fs_ok f" and "node_at f p = Some Dir" and "node_at f (p @ [n]) = Some (Symlink (path_at h))"
    and "node_at f h = Some Dir" and "\<forall>t. node_at f (h @ [m]) \<noteq> Some (Symlink t)"
  shows "place_of fl (path_at (p @ [n, m])) f = Inr (h @ [m])"
  using place_of_through [OF assms(1-3), of "[Normal m]" fl] walk_from_root [OF assms(1,4,5), of fl 39 p]
  by (simp add: path_at_def)

lemma place_of_last_link:
  assumes "fs_ok f" and "node_at f p = Some Dir" and "node_at f (p @ [n]) = Some (Symlink (path_at (h @ [m])))"
    and "node_at f h = Some Dir" and "\<forall>t. node_at f (h @ [m]) \<noteq> Some (Symlink t)"
  shows "place_of True (path_at (p @ [n])) f = Inr (h @ [m])"
  using place_of_through [OF assms(1-3), of "[]" True] walk_from_root [OF assms(1,4,5), of True 39 p]
  by (simp add: path_at_snoc)

lemma lookup_at:
  assumes "fs_ok f" and "node_at f p = Some Dir"
  shows "lookup_node False (path_at (p @ [n])) f = ok_or ENOENT (node_at f (p @ [n]))"
  using place_of_at(1) [OF assms] by (simp add: lookup_node_def)

lemma lookup_follow_at:
  assumes "fs_ok f" and "node_at f p = Some Dir" and "\<forall>t. node_at f (p @ [n]) \<noteq> Some (Symlink t)"
  shows "lookup_node True (path_at (p @ [n])) f = ok_or ENOENT (node_at f (p @ [n]))"
  using place_of_at(2) [OF assms] by (simp add: lookup_node_def)

lemma ops_at [fs_ops]:
  assumes "fs_ok f" and "node_at f p = Some Dir"
  shows "create_dir (path_at (p @ [n])) f =
      (if node_at f (p @ [n]) = None then (Inr (), put (p @ [n]) Dir f) else (Inl AlreadyExists, f))"
    and "make_symlink t (path_at (p @ [n])) f =
      (if node_at f (p @ [n]) = None then (Inr (), put (p @ [n]) (Symlink t) f) else (Inl AlreadyExists, f))"
    and "remove_file (path_at (p @ [n])) f = (case node_at f (p @ [n]) of
      None \<Rightarrow> (Inl ENOENT, f) | Some Dir \<Rightarrow> (Inl EISDIR, f) | Some _ \<Rightarrow> (Inr (), drop_node (p @ [n]) f))"
    and "remove_dir_all (path_at (p @ [n])) f = (case node_at f (p @ [n]) of
      None \<Rightarrow> (Inl ENOENT, f) | Some Dir \<Rightarrow> (Inr (), drop_tree (p @ [n]) f)
    | Some (Symlink _) \<Rightarrow> (Inr (), drop_node (p @ [n]) f) | Some (Regular _) \<Rightarrow> (Inl ENOTDIR, f))"
    and "node_at f (p @ [n]) = None \<Longrightarrow> fs_write (path_at (p @ [n])) d f = (Inr (), put_file (p @ [n]) d f)"
  using place_of_at [OF assms, of n]
  by (auto simp: create_dir_def make_symlink_def create_at_def remove_file_def remove_dir_all_def fs_write_def
      at_place_def split: option.splits node.splits)

lemma path_is_dir_at:
  assumes "fs_ok f" and "node_at f p = Some Dir"
  shows "path_is_dir (path_at p) f"
  using place_of_dir [OF assms] assms(2) by (simp add: path_is_dir_def lookup_node_def)

lemma create_dir_all_at [fs_ops]:
  assumes "fs_ok f" and "node_at f p = Some Dir"
  shows "node_at f (p @ [n]) = None \<Longrightarrow> create_dir_all (path_at (p @ [n])) f = (Inr (), put (p @ [n]) Dir f)"
    and "node_at f (p @ [n]) = Some Dir \<Longrightarrow> create_dir_all (path_at (p @ [n])) f = (Inr (), f)"
  using ops_at(1) [OF assms, of n] path_is_dir_at [OF assms(1), of "p @ [n]"]
  by (simp_all add: create_dir_all.simps [of "path_at (p @ [n])"]) (simp_all add: path_at_def)

section \<open>Changes below a directory\<close>

text \<open>
  Nothing outside \<open>d\<close> changes: no node elsewhere, and no contents that were there before,
  whatever name they are reached by.
\<close>

definition within :: "place \<Rightarrow> fs \<Rightarrow> fs \<Rightarrow> bool" where
  "within d f f' \<longleftrightarrow> (\<forall>p. \<not> prefix d p \<longrightarrow> node_at f' p = node_at f p)
     \<and> (\<forall>i < fs_next f. fs_data f' i = fs_data f i) \<and> fs_next f \<le> fs_next f'"

lemma within_refl [simp]: "within d f f"
  by (simp add: within_def)

lemma within_trans: "within d f g \<Longrightarrow> within d g h \<Longrightarrow> within d f h"
  by (auto simp: within_def)

lemma within_mono: "within e f g \<Longrightarrow> prefix d e \<Longrightarrow> within d f g"
  by (auto simp: within_def dest: prefix_order.trans)

lemma within_changes:
  "prefix d (p @ [n]) \<Longrightarrow> within d f (put (p @ [n]) x f)"
  "prefix d (p @ [n]) \<Longrightarrow> within d f (drop_node (p @ [n]) f)"
  "prefix d (p @ [n]) \<Longrightarrow> within d f (drop_tree (p @ [n]) f)"
  "prefix d (p @ [n]) \<Longrightarrow> within d f (put_file (p @ [n]) t f)"
proof -
  assume d: "prefix d (p @ [n])"
  then have "prefix (p @ [n]) q \<Longrightarrow> prefix d q" for q
    by (rule prefix_order.trans)
  then show "within d f (put (p @ [n]) x f)" "within d f (drop_node (p @ [n]) f)"
    "within d f (drop_tree (p @ [n]) f)" "within d f (put_file (p @ [n]) t f)"
    using d by (auto simp: within_def fs_nodes_simps)
qed

section \<open>What is seen\<close>

datatype seen = Folder | Contents string | Pointer path

definition view :: "fs \<Rightarrow> place \<Rightarrow> seen option" where
  "view f p = map_option (\<lambda>n. case n of Dir \<Rightarrow> Folder | Regular i \<Rightarrow> Contents (fs_data f i) | Symlink t \<Rightarrow> Pointer t)
     (node_at f p)"

lemma view_cases [simp]:
  "view f p = None \<longleftrightarrow> node_at f p = None"
  "view f p = Some Folder \<longleftrightarrow> node_at f p = Some Dir"
  "view f p = Some (Pointer t) \<longleftrightarrow> node_at f p = Some (Symlink t)"
  "view f p = Some (Contents d) \<longleftrightarrow> (\<exists>i. node_at f p = Some (Regular i) \<and> d = fs_data f i)"
  by (cases "node_at f p"; auto simp: view_def split: node.splits)+

lemma within_view:
  assumes "fs_ok f" and "within d f f'" and "\<not> prefix d p"
  shows "view f' p = view f p"
proof -
  have "node_at f' p = node_at f p"
    using assms(2,3) by (simp add: within_def)
  then show ?thesis
    using assms(2) fs_ok_number [OF assms(1), of p]
    by (cases "node_at f p") (auto simp: view_def within_def split: node.splits)
qed

end
