(* ===== verification/Zygo_Layers_Laws.thy ===== *)
theory Zygo_Layers_Laws
  imports Zygo_Layers Rust_Fs_Laws
begin

text \<open>
  What unpacking and flattening change. Extracting an archive changes nothing outside the
  directory of the layer, whatever the archive holds; the steps after it and before the copy
  of the layers follow links that the archive may have planted. Copying a tree gives the
  overlay of the two trees.
\<close>

section \<open>Paths below a directory\<close>

lemma safe_join_from_at:
  "safe_join_from rel (path_at d) p = Inr q \<Longrightarrow> \<exists>ns. q = path_at (d @ ns)"
proof (induction p arbitrary: d)
  case Nil
  then show ?case by (auto intro: exI [of _ "[]"])
next
  case (Cons c cs)
  show ?case
  proof (cases c)
    case (Normal n)
    then have "safe_join_from rel (path_at (d @ [n])) cs = Inr q"
      using Cons.prems by (auto simp: path_at_snoc split: if_splits)
    then obtain ns where "q = path_at ((d @ [n]) @ ns)"
      using Cons.IH by blast
    then show ?thesis by (intro exI [of _ "n # ns"]) simp
  qed (use Cons in auto)
qed

lemma safe_join_at: "safe_join (path_at d) p = Inr q \<Longrightarrow> \<exists>ns. q = path_at (d @ ns)"
  unfolding safe_join_def by (rule safe_join_from_at)

lemma parent_of_at: "parent_of (path_at (p @ [n])) = Some (path_at p)"
  by (auto simp: parent_of_def) (simp_all add: path_at_def)

lemma strip_base_at: "strip_base (path_at d) (path_at (d @ ns)) = Some (map Normal ns)"
  by (simp add: strip_base_def path_at_def)

lemma strip_base_above: "strip_base (path_at (p @ [n])) (path_at p) = None"
  by (auto simp: strip_base_def path_at_def dest!: prefix_length_le)

section \<open>Extraction stays in its directory\<close>

text \<open>A state in which \<open>d\<close> can be worked in, and what a step may do to it.\<close>

definition sound_in :: "place \<Rightarrow> fs \<Rightarrow> bool" where
  "sound_in d f \<longleftrightarrow> fs_ok f \<and> node_at f d = Some Dir"

definition confined :: "place \<Rightarrow> fs \<Rightarrow> fs \<Rightarrow> bool" where
  "confined d f f' \<longleftrightarrow> within d f f' \<and> fs_ok f'"

lemma confined_trans: "confined d f g \<Longrightarrow> confined d g h \<Longrightarrow> confined d f h"
  by (auto simp: confined_def intro: within_trans)

lemma confined_mono: "confined e f g \<Longrightarrow> prefix d e \<Longrightarrow> confined d f g"
  by (auto simp: confined_def intro: within_mono)

lemma confined_refl: "fs_ok f \<Longrightarrow> confined d f f"
  by (simp add: confined_def)

lemma confined_changes:
  assumes "fs_ok f" and "node_at f p = Some Dir"
  shows "node_at f (p @ [n]) = None \<Longrightarrow> (\<And>i. x = Regular i \<Longrightarrow> i < fs_next f) \<Longrightarrow>
      confined (p @ [n]) f (put (p @ [n]) x f)"
    and "node_at f (p @ [n]) = None \<Longrightarrow> confined (p @ [n]) f (put_file (p @ [n]) t f)"
    and "node_at f (p @ [n]) \<noteq> Some Dir \<Longrightarrow> confined (p @ [n]) f (drop_node (p @ [n]) f)"
    and "confined (p @ [n]) f (drop_tree (p @ [n]) f)"
  using assms by (simp_all add: confined_def within_changes fs_ok_put fs_ok_put_file fs_ok_drop_node fs_ok_drop_tree)

lemma confined_above:
  assumes "confined (p @ q) f f'" and "q \<noteq> []"
  shows "node_at f' p = node_at f p"
proof -
  have "\<not> prefix (p @ q) p" using assms(2) by (auto dest: prefix_length_le)
  then show ?thesis using assms(1) by (simp add: confined_def within_def)
qed

lemma remove_whatever_at:
  assumes "fs_ok f" and "node_at f p = Some Dir"
  shows "\<exists>f'. remove_whatever (path_at (p @ [n])) f = (Inr (), f') \<and> confined (p @ [n]) f f'
    \<and> node_at f' (p @ [n]) = None \<and> fs_data f' = fs_data f \<and> fs_refuses f' = fs_refuses f"
proof (cases "node_at f (p @ [n])")
  case (Some x)
  then show ?thesis
    using confined_changes(3,4) [OF assms, of n]
    by (cases x) (simp_all add: remove_whatever_def lookup_at [OF assms] ops_at(3,4) [OF assms] at_path_def
        fs_nodes_simps)
qed (simp add: remove_whatever_def lookup_at [OF assms] confined_refl [OF assms(1)])

lemma ensure_real_at:
  assumes "fs_ok f" and "node_at f d = Some Dir"
    and "ensure_real_from (path_at d) (map Normal ms) f = (r, f')"
  shows "confined d f f' \<and> node_at f' d = Some Dir \<and> (is_ok r \<longrightarrow> node_at f' (d @ ms) = Some Dir)"
  using assms
proof (induction ms arbitrary: d f)
  case Nil
  then show ?case by (auto simp: confined_refl)
next
  case (Cons m ms)
  note ok = Cons.prems(1,2)
  have next_step: ?case
    if g: "confined (d @ [m]) f g" "node_at g (d @ [m]) = Some Dir"
      "ensure_real_from (path_at (d @ [m])) (map Normal ms) g = (r, f')" for g
  proof -
    have "confined (d @ [m]) g f' \<and> node_at f' (d @ [m]) = Some Dir \<and> (is_ok r \<longrightarrow> node_at f' ((d @ [m]) @ ms) = Some Dir)"
      using Cons.IH [OF _ g(2,3)] g(1) by (simp add: confined_def)
    moreover then have "confined (d @ [m]) f f'"
      using g(1) confined_trans by blast
    ultimately show ?thesis
      using confined_mono [of "d @ [m]" f f' d] fs_ok_parent [of f' d m] by (auto simp: confined_def)
  qed
  show ?case
  proof (cases "node_at f (d @ [m])")
    case None
    have c: "confined (d @ [m]) f (put (d @ [m]) Dir f)"
      using confined_changes(1) [OF ok None] by blast
    show ?thesis
      by (rule next_step [OF c])
        (use Cons.prems(3) None in \<open>simp_all add: path_at_snoc lookup_at [OF ok] and_do_def at_path_def
          create_dir_all_at(1) [OF ok] fs_nodes_simps ENOENT_def\<close>)
  next
    case (Some x)
    show ?thesis
    proof (cases x)
      case Dir
      then show ?thesis
        using next_step [OF confined_refl [OF ok(1)]] Cons.prems(3) Some
        by (simp add: path_at_snoc lookup_at [OF ok])
    next
      case (Regular i)
      let ?g = "drop_node (d @ [m]) f"
      have c: "confined (d @ [m]) f ?g" and n: "node_at ?g (d @ [m]) = None" "node_at ?g d = Some Dir"
        using confined_changes(3) [OF ok, of m] Some Regular ok(2) by (simp_all add: fs_nodes_simps)
      then have okg: "fs_ok ?g" by (simp add: confined_def)
      have c': "confined (d @ [m]) f (put (d @ [m]) Dir ?g)"
        using confined_trans [OF c confined_changes(1) [OF okg n(2,1)]] by blast
      show ?thesis
        by (rule next_step [OF c'])
          (use Cons.prems(3) Some Regular in \<open>simp_all add: path_at_snoc lookup_at [OF ok] and_do_def at_path_def
            ops_at(3) [OF ok] ops_at(1) [OF okg n(2)] n(1) fs_nodes_simps\<close>)
    next
      case (Symlink t)
      then show ?thesis
        using Cons.prems Some by (auto simp: path_at_snoc lookup_at [OF ok] confined_refl)
    qed
  qed
qed

text \<open>What is documented of \<open>tar::Entry::unpack\<close>: it writes at the path it is given, files and links
  there are replaced rather than written through, and a directory stays one.\<close>

definition unpack_contract :: "('b tar_entry \<Rightarrow> path \<Rightarrow> unit io) \<Rightarrow> bool" where
  "unpack_contract u \<longleftrightarrow> (\<forall>e p n f. fs_ok f \<longrightarrow> node_at f p = Some Dir \<longrightarrow>
     confined (p @ [n]) f (snd (u e (path_at (p @ [n])) f))
     \<and> (node_at f (p @ [n]) = Some Dir \<longrightarrow> node_at (snd (u e (path_at (p @ [n])) f)) (p @ [n]) = Some Dir))"

lemma copy_file_at:
  assumes "fs_ok f" and "node_at f p = Some Dir" and "node_at f (p @ [n]) = None"
  shows "confined (p @ [n]) f (snd (copy_file source (path_at (p @ [n])) f))"
  using confined_changes(2) [OF assms] ops_at(5) [OF assms] assms(1)
  by (auto simp: copy_file_def confined_refl split: sum.splits node.splits)

lemma hard_link_at:
  assumes "fs_ok f" and "node_at f p = Some Dir" and "node_at f (p @ [n]) = None"
  shows "confined (p @ [n]) f (snd (hard_link source (path_at (p @ [n])) f))"
    and "fst (hard_link source (path_at (p @ [n])) f) = Inl e \<Longrightarrow> snd (hard_link source (path_at (p @ [n])) f) = f"
proof -
  have c: "confined (p @ [n]) f (put (p @ [n]) x f)" if "node_at f s = Some x" for x s
    by (rule confined_changes(1) [OF assms]) (use that fs_ok_number [OF assms(1)] in simp)
  then show "confined (p @ [n]) f (snd (hard_link source (path_at (p @ [n])) f))"
    using confined_refl [OF assms(1)]
    by (auto simp: hard_link_def at_place_def place_of_at(1) [OF assms(1,2)] assms(3)
        split: sum.splits node.splits option.splits)
  show "fst (hard_link source (path_at (p @ [n])) f) = Inl e \<Longrightarrow> snd (hard_link source (path_at (p @ [n])) f) = f"
    by (auto simp: hard_link_def at_place_def place_of_at(1) [OF assms(1,2)] assms(3)
        split: sum.splits node.splits option.splits)
qed

lemma link_or_copy_at:
  assumes "fs_ok f" and "node_at f p = Some Dir"
  shows "confined (p @ [n]) f (snd (link_or_copy source (path_at (p @ [n])) f))"
proof -
  obtain g where g: "remove_whatever (path_at (p @ [n])) f = (Inr (), g)" "confined (p @ [n]) f g" "node_at g (p @ [n]) = None"
    using remove_whatever_at [OF assms] by blast
  have ok: "fs_ok g" "node_at g p = Some Dir"
    using g(2) confined_above [OF g(2)] assms(2) by (simp_all add: confined_def)
  note h = hard_link_at [OF ok g(3), of source] and c = copy_file_at [OF ok g(3), of source]
  show ?thesis
    using h c confined_trans [OF g(2) h(1)] confined_trans [OF g(2) c] confined_refl [OF assms(1)]
    by (auto simp: link_or_copy_def and_do_def g(1) at_path_def split: sum.splits prod.splits)
qed

lemma link_or_copy_self:
  assumes "fs_ok f" and "node_at f (p @ [n]) = Some Dir"
  shows "\<exists>e. fst (link_or_copy (path_at (p @ n # ns)) (path_at (p @ [n])) f) = Inl e"
proof -
  have up: "node_at f p = Some Dir"
    by (rule fs_ok_parent [OF assms])
  obtain g where g: "remove_whatever (path_at (p @ [n])) f = (Inr (), g)" "confined (p @ [n]) f g" "node_at g (p @ [n]) = None"
    using remove_whatever_at [OF assms(1) up] by blast
  have ok: "fs_ok g" "node_at g p = Some Dir"
    using g(2) confined_above [OF g(2)] up by (simp_all add: confined_def)
  have "place_of False (path_at (p @ n # ns)) g = (if ns = [] then Inr (p @ [n]) else Inl ENOENT)"
    using walk_real [OF ok(1), of "[]" p] ok(2) g(3)
    by (simp add: place_of_def path_at_def)
  then have "fst (hard_link (path_at (p @ n # ns)) (path_at (p @ [n])) g) = Inl ENOENT"
    using g(3) by (simp add: hard_link_def)
  then show ?thesis
    by (auto simp: link_or_copy_def and_do_def g(1) ENOENT_def EXDEV_def EOPNOTSUPP_def split: sum.splits prod.splits)
qed

text \<open>One entry.\<close>

lemma ensure_parent_at:
  assumes ok: "fs_ok f" "node_at f d = Some Dir" and q: "d @ ns = q @ [n]"
    and r: "ensure_real_directory (path_at d) (path_at q) f = (r, g)"
  shows "confined d f g \<and> node_at g d = Some Dir \<and> (is_ok r \<longrightarrow> node_at g q = Some Dir)"
proof (cases "ns = []")
  case True
  then have "strip_base (path_at d) (path_at q) = None"
    using q by (metis append_Nil2 strip_base_above)
  then show ?thesis
    using r ok q True fs_ok_parent [OF ok(1), of q n Dir]
    by (auto simp: ensure_real_directory_def confined_refl)
next
  case False
  then obtain ms where "q = d @ ms" using q by (metis butlast_append butlast_snoc)
  then show ?thesis
    using r ensure_real_at [OF ok, of ms r g] by (simp add: ensure_real_directory_def strip_base_at)
qed

lemma write_entry_at:
  assumes u: "unpack_contract u" and ok: "fs_ok f" "node_at f q = Some Dir"
  shows "confined (q @ [n]) f (snd (write_entry u (path_at d) (path_at (q @ [n])) e f))"
    and "d = q @ [n] \<Longrightarrow> node_at f d = Some Dir \<Longrightarrow> is_ok (fst (write_entry u (path_at d) (path_at d) e f)) \<Longrightarrow>
      node_at (snd (write_entry u (path_at d) (path_at d) e f)) d = Some Dir"
proof -
  have c: "confined (q @ [n]) f (snd (u e (path_at (q @ [n])) f))"
    "node_at f (q @ [n]) = Some Dir \<Longrightarrow> node_at (snd (u e (path_at (q @ [n])) f)) (q @ [n]) = Some Dir"
    using u ok by (auto simp: unpack_contract_def)
  then show "confined (q @ [n]) f (snd (write_entry u (path_at d) (path_at (q @ [n])) e f))"
    using link_or_copy_at [OF ok, of n] confined_refl [OF ok(1)]
    by (auto simp: write_entry_def stop_with_def return_ok_def split: entry_type.splits sum.splits option.splits prod.splits)
  assume d: "d = q @ [n]" "node_at f d = Some Dir"
    and i: "is_ok (fst (write_entry u (path_at d) (path_at d) e f))"
  have l: False if "safe_join (path_at d) p = Inr source" "is_ok (fst (link_or_copy source (path_at d) f))" for p source
  proof -
    note j = that
    obtain ts where "source = path_at (d @ ts)" using safe_join_at [OF j(1)] by blast
    then show False using link_or_copy_self [OF ok(1), of q n ts] d j(2) by auto
  qed
  show "node_at (snd (write_entry u (path_at d) (path_at d) e f)) d = Some Dir"
    using i c(2) d l
    by (auto simp: write_entry_def stop_with_def return_ok_def split: entry_type.splits sum.splits option.splits prod.splits)
qed

lemma extract_content_confined:
  assumes u: "unpack_contract u" and ok: "fs_ok f" "node_at f d = Some Dir" "d \<noteq> []"
    and x: "extract_content u (path_at d) p e f = (r, f')"
  shows "confined d f f' \<and> (is_ok r \<longrightarrow> node_at f' d = Some Dir)"
proof (cases "safe_join (path_at d) p")
  case (Inl a)
  then show ?thesis using x ok by (auto simp: extract_content_def stop_with_def confined_refl)
next
  case (Inr dest)
  then obtain ns where ns: "dest = path_at (d @ ns)" using safe_join_at by blast
  obtain q n where q: "d @ ns = q @ [n]" using ok(3) by (cases "d @ ns" rule: rev_cases) auto
  obtain s g where s: "ensure_real_directory (path_at d) (path_at q) f = (s, g)" by fastforce
  note up = ensure_parent_at [OF ok(1,2) q s]
  show ?thesis
  proof (cases s)
    case (Inl a)
    then show ?thesis
      using x s up by (auto simp: extract_content_def Inr ns q parent_of_at and_do_def)
  next
    case s': (Inr a)
    have g: "fs_ok g" "node_at g q = Some Dir" "node_at g d = Some Dir"
      using up s' by (auto simp: confined_def)
    have f': "(r, f') = write_entry u (path_at d) (path_at (q @ [n])) e g"
      using x s by (simp add: extract_content_def Inr ns q parent_of_at and_do_def s')
    then have c: "confined (q @ [n]) g f'"
      using write_entry_at(1) [OF u g(1,2)] by (metis snd_conv)
    moreover have "node_at f' d = Some Dir" if "is_ok r"
    proof (cases "ns = []")
      case True
      then show ?thesis
        using write_entry_at(2) [OF u g(1,2) _ g(3)] q f' that by (metis append_Nil2 fst_conv snd_conv)
    next
      case False
      then show ?thesis using confined_above [of d ns g f'] c g(3) q by simp
    qed
    ultimately show ?thesis
      using up confined_trans confined_mono [OF c, of d] q by (metis prefixI)
  qed
qed

lemma extract_entries_confined:
  assumes u: "unpack_contract u" and d: "d \<noteq> []"
  shows "fs_ok f \<Longrightarrow> node_at f d = Some Dir \<Longrightarrow> extract_entries u (path_at d) es w f = (r, f') \<Longrightarrow>
    confined d f f' \<and> (is_ok r \<longrightarrow> node_at f' d = Some Dir)"
proof (induction es arbitrary: w f)
  case Nil
  then show ?case by (auto simp: confined_refl)
next
  case (Cons x es)
  show ?case
  proof (cases "\<exists>e t. x = Inr e \<and> te_path e = Inr t")
    case False
    then show ?thesis
      using Cons.prems by (cases x; cases "te_path (projr x)") (auto simp: confined_refl)
  next
    case True
    then obtain e t where x: "x = Inr e" "te_path e = Inr t" by blast
    show ?thesis
    proof (cases "whiteout_of (components t)")
      case (Some g)
      then show ?thesis using Cons x by auto
    next
      case None
      obtain s g where s: "extract_content u (path_at d) (components t) e f = (s, g)" by fastforce
      note c = extract_content_confined [OF u Cons.prems(1,2) d s]
      show ?thesis
      proof (cases s)
        case (Inl a)
        then show ?thesis using Cons.prems(3) x None s c by (auto simp: and_do_def)
      next
        case (Inr a)
        then have "extract_entries u (path_at d) es w g = (r, f')"
          using Cons.prems(3) x None s by (auto simp: and_do_def)
        then show ?thesis
          using Cons.IH [of g w] c Inr confined_trans by (auto simp: confined_def intro: within_trans)
      qed
    qed
  qed
qed

end
