(* ===== verification/Zygo_Flatten.thy ===== *)
theory Zygo_Flatten
  imports Zygo_Layers_Laws
begin

text \<open>
  Copying a layer over what earlier layers left (\<open>copy_tree\<close>, \<open>flatten\<close>) against its
  specification: the overlay of two trees, as the union file system would show them.
\<close>

section \<open>The overlay of two trees\<close>

text \<open>A tree seen from its top. The store's own files are not part of a layer.\<close>

type_synonym tree_view = "place \<Rightarrow> seen option"

definition hide_internal :: "tree_view \<Rightarrow> tree_view" where
  "hide_internal u q = (if list_ex is_internal_entry q then None else u q)"

definition blocked :: "tree_view \<Rightarrow> place \<Rightarrow> bool" where
  "blocked u q \<longleftrightarrow> (\<exists>k < length q. hide_internal u (take k q) \<notin> {None, Some Folder})"

text \<open>What the upper tree has wins; a file or a link of it hides what the lower one has below.\<close>

definition overlay :: "tree_view \<Rightarrow> tree_view \<Rightarrow> tree_view" where
  "overlay u l q = (case hide_internal u q of Some x \<Rightarrow> Some x | None \<Rightarrow> if blocked u q then None else l q)"

lemma hide_internal_Cons: "hide_internal u (n # q) = (if is_internal_entry n then None else hide_internal (\<lambda>q. u (n # q)) q)"
  by (simp add: hide_internal_def)

lemma blocked_Cons:
  assumes "u [] = Some Folder"
  shows "blocked u (n # q) \<longleftrightarrow> \<not> is_internal_entry n \<and> blocked (\<lambda>q. u (n # q)) q"
proof -
  have "blocked u (n # q) \<longleftrightarrow> (\<exists>k < length q. hide_internal u (n # take k q) \<notin> {None, Some Folder})"
    using assms unfolding blocked_def length_Cons Ex_less_Suc2 by (simp add: hide_internal_def [of u "[]"])
  also have "\<dots> \<longleftrightarrow> \<not> is_internal_entry n \<and> blocked (\<lambda>q. u (n # q)) q"
    unfolding hide_internal_Cons blocked_def by auto
  finally show ?thesis .
qed

lemma overlay_Cons:
  assumes "u [] = Some Folder"
  shows "overlay u l (n # q) =
    (if is_internal_entry n then l (n # q) else overlay (\<lambda>q. u (n # q)) (\<lambda>q. l (n # q)) q)"
  by (simp add: overlay_def hide_internal_Cons blocked_Cons [of u, OF assms])

lemma overlay_Nil: "u [] = Some x \<Longrightarrow> overlay u l [] = Some x"
  by (simp add: overlay_def hide_internal_def)

text \<open>A single file or link, and a tree that has nothing.\<close>

lemma overlay_leaf:
  assumes "u [] = Some x" and "x \<noteq> Folder" and "\<And>q. q \<noteq> [] \<Longrightarrow> u q = None"
  shows "overlay u l q = (if q = [] then Some x else None)"
proof (cases q)
  case (Cons n r)
  have "blocked u q" using assms(1,2) Cons by (auto simp: blocked_def hide_internal_def intro!: exI [of _ 0])
  then show ?thesis using assms(3) [of q] Cons by (simp add: overlay_def hide_internal_def)
qed (use assms(1) in \<open>simp add: overlay_Nil\<close>)

lemma overlay_nothing: "(\<And>q. u q = None) \<Longrightarrow> overlay u l q = l q"
  by (simp add: overlay_def hide_internal_def blocked_def)

lemma overlay_top:
  assumes "u [] = Some x" and "\<And>q. q \<noteq> [] \<Longrightarrow> l q = l' q"
  shows "overlay u l q = overlay u l' q"
  using assms overlay_Nil [of u x l] overlay_Nil [of u x l'] by (cases q) (auto simp: overlay_def split: option.splits)

section \<open>Copying computes the overlay\<close>

lemma apart:
  assumes "s \<parallel> t"
  shows "s @ a \<parallel> t @ b" and "\<not> prefix (t @ b) (s @ a)" and "\<not> prefix (s @ a) (t @ b)"
  using parallel_append [OF assms, of a b] by (auto simp: parallel_def)

lemma view_below_leaf: "fs_ok f \<Longrightarrow> node_at f p \<noteq> Some Dir \<Longrightarrow> q \<noteq> [] \<Longrightarrow> view f (p @ q) = None"
  by (simp add: fs_ok_below_none)

text \<open>Making room for a folder, and for a file or a link.\<close>

lemma confined_within: "confined d f g \<Longrightarrow> within d f g"
  by (simp add: confined_def)

lemma make_folder_at:
  assumes "fs_ok f" and "node_at f p = Some Dir" and "to = path_at (p @ [n])"
  shows "\<exists>f'. then_counted (case symlink_metadata to f of Inr Dir \<Rightarrow> return_ok () | Inr _ \<Rightarrow> remove_whatever to | Inl _ \<Rightarrow> return_ok ())
      (then_counted (at_path to (create_dir_all to)) k) f = k f'
    \<and> confined (p @ [n]) f f' \<and> node_at f' (p @ [n]) = Some Dir
    \<and> (\<forall>q. q \<noteq> [] \<longrightarrow> view f' (p @ n # q) = view f (p @ n # q))"
proof (cases "node_at f (p @ [n]) = Some Dir")
  case True
  then show ?thesis
    using assms(1) by (intro exI [of _ f])
      (simp add: assms(3) then_counted_def return_ok_def at_path_def lookup_at [OF assms(1,2)]
        create_dir_all_at(2) [OF assms(1,2)] confined_refl)
next
  case False
  obtain g where g: "remove_whatever to f = (Inr (), g)" "confined (p @ [n]) f g" "node_at g (p @ [n]) = None"
    using remove_whatever_at [OF assms(1,2)] assms(3) by blast
  let ?h = "if node_at f (p @ [n]) = None then f else g"
  have h: "confined (p @ [n]) f ?h" "node_at ?h (p @ [n]) = None"
    using g confined_refl [OF assms(1)] by auto
  then have ok: "fs_ok ?h" "node_at ?h p = Some Dir"
    using confined_above [OF h(1)] assms(2) by (simp_all add: confined_def)
  have c: "confined (p @ [n]) ?h (put (p @ [n]) Dir ?h)"
    by (rule confined_changes(1) [OF ok h(2)]) simp
  have none: "view f (p @ n # q) = None" "view ?h (p @ n # q) = None" if "q \<noteq> []" for q
    using view_below_leaf [OF assms(1) False that] view_below_leaf [OF ok(1), of "p @ [n]" q] h(2) that by auto
  have e: "then_counted (case symlink_metadata to f of Inr Dir \<Rightarrow> return_ok () | Inr _ \<Rightarrow> remove_whatever to | Inl _ \<Rightarrow> return_ok ())
      (then_counted (at_path to (create_dir_all to)) k) f = k (put (p @ [n]) Dir ?h)"
    using False g(1) create_dir_all_at(1) [OF ok h(2)]
    by (cases "node_at f (p @ [n])")
      (auto simp: assms(3) then_counted_def return_ok_def at_path_def lookup_at [OF assms(1,2)] split: node.splits)
  show ?thesis
    using none c by (intro exI [of _ "put (p @ [n]) Dir ?h"] conjI e confined_trans [OF h(1) c])
      (auto simp: view_def fs_nodes_simps)
qed

lemma clear_place_at:
  assumes "fs_ok f" and "node_at f p = Some Dir" and "to = path_at (p @ [n])"
  shows "\<exists>f'. then_counted (if is_ok (symlink_metadata to f) then remove_whatever to else return_ok ()) k f = k f'
    \<and> confined (p @ [n]) f f' \<and> node_at f' (p @ [n]) = None \<and> fs_data f' = fs_data f"
proof (cases "node_at f (p @ [n])")
  case None
  then show ?thesis
    using assms(1) by (intro exI [of _ f])
      (simp add: assms(3) then_counted_def return_ok_def lookup_at [OF assms(1,2)] confined_refl)
next
  case (Some x)
  obtain g where "remove_whatever to f = (Inr (), g)" "confined (p @ [n]) f g" "node_at g (p @ [n]) = None" "fs_data g = fs_data f"
    using remove_whatever_at [OF assms(1,2)] assms(3) by blast
  then show ?thesis
    using Some by (intro exI [of _ g]) (simp add: assms(3) then_counted_def lookup_at [OF assms(1,2)])
qed

definition deeper_ok :: "(path \<Rightarrow> path \<Rightarrow> counted) \<Rightarrow> bool" where
  "deeper_ok rec \<longleftrightarrow> (\<forall>s t f r f'. fs_ok f \<longrightarrow> node_at f s = Some Dir \<longrightarrow> node_at f t = Some Dir \<longrightarrow> s \<parallel> t \<longrightarrow>
     rec (path_at s) (path_at t) f = Some (r, f') \<longrightarrow>
       confined t f f' \<and> node_at f' t = Some Dir
       \<and> (is_ok r \<longrightarrow> (\<forall>q. view f' (t @ q) = overlay (\<lambda>q. view f (s @ q)) (\<lambda>q. view f (t @ q)) q)))"

text \<open>One entry: a folder is made and filled, a file or a link is put in its place.\<close>

lemma copy_entry_folder:
  assumes ok: "fs_ok f" "node_at f s = Some Dir" "node_at f t = Some Dir" "s \<parallel> t"
    and n: "\<not> is_internal_entry n" "node_at f (s @ [n]) = Some Dir"
  shows "\<exists>g. copy_entry rec (path_at s) (path_at t) n f = rec (path_at (s @ [n])) (path_at (t @ [n])) g
    \<and> confined (t @ [n]) f g \<and> node_at g (t @ [n]) = Some Dir \<and> node_at g (s @ [n]) = Some Dir
    \<and> (\<forall>q. q \<noteq> [] \<longrightarrow> view g (t @ n # q) = view f (t @ n # q))
    \<and> (\<forall>q. view g (s @ n # q) = view f (s @ n # q))"
proof -
  have "\<exists>g. copy_entry rec (path_at s) (path_at t) n f = rec (path_at (s @ [n])) (path_at (t @ [n])) g
      \<and> confined (t @ [n]) f g \<and> node_at g (t @ [n]) = Some Dir
      \<and> (\<forall>q. q \<noteq> [] \<longrightarrow> view g (t @ n # q) = view f (t @ n # q))"
    using make_folder_at [OF ok(1,3) refl, of n "rec (path_at (s @ [n])) (path_at (t @ [n]))"] n
    by (simp add: copy_entry_def path_at_snoc lookup_at [OF ok(1,2)] Let_def)
  then obtain g where g: "copy_entry rec (path_at s) (path_at t) n f = rec (path_at (s @ [n])) (path_at (t @ [n])) g"
    "confined (t @ [n]) f g" "node_at g (t @ [n]) = Some Dir" "\<forall>q. q \<noteq> [] \<longrightarrow> view g (t @ n # q) = view f (t @ n # q)"
    by blast
  have src: "view g (s @ n # q) = view f (s @ n # q)" for q
    by (rule within_view [OF ok(1) confined_within [OF g(2)] apart(2) [OF ok(4)]])
  have "view f (s @ [n]) = Some Folder" using n(2) by simp
  then have "view g (s @ [n]) = Some Folder" using src [of "[]"] by (simp only:)
  then have "node_at g (s @ [n]) = Some Dir" by (simp only: view_cases)
  with g src show ?thesis by blast
qed

lemma copy_entry_leaf:
  assumes ok: "fs_ok f" "node_at f s = Some Dir" "node_at f t = Some Dir" "s \<parallel> t"
    and n: "\<not> is_internal_entry n" "node_at f (s @ [n]) = Some x" "x \<noteq> Dir"
  shows "\<exists>h. copy_entry rec (path_at s) (path_at t) n f = Some (Inr (), h) \<and> confined (t @ [n]) f h
    \<and> (\<forall>q. view h (t @ n # q) = (if q = [] then view f (s @ [n]) else None))"
proof -
  let ?from = "path_at (s @ [n])" and ?to = "path_at (t @ [n])"
  let ?put_leaf = "case x of
      Symlink _ \<Rightarrow> (\<lambda>f. case read_link ?from f of Inl e \<Rightarrow> (Inl (IoAt ?from e), f) | Inr l \<Rightarrow> at_path ?to (make_symlink l ?to) f)
    | _ \<Rightarrow> at_path ?to (copy_file ?from ?to)"
  have e: "copy_entry rec (path_at s) (path_at t) n f =
      then_counted (if is_ok (symlink_metadata ?to f) then remove_whatever ?to else return_ok ())
        (then_counted ?put_leaf done_counted) f"
    using n by (cases x) (simp_all add: copy_entry_def path_at_snoc lookup_at [OF ok(1,2)] Let_def)
  obtain g where g: "copy_entry rec (path_at s) (path_at t) n f = then_counted ?put_leaf done_counted g"
    "confined (t @ [n]) f g" "node_at g (t @ [n]) = None" "fs_data g = fs_data f"
    unfolding e using clear_place_at [OF ok(1,3) refl, of n "then_counted ?put_leaf done_counted"] by blast
  have okg: "fs_ok g" "node_at g t = Some Dir"
    using g(2) confined_above [OF g(2)] ok(3) by (simp_all add: confined_def)
  have sg: "node_at g s = Some Dir" "node_at g (s @ [n]) = Some x"
    using g(2) ok(2) n(2) apart(2) [OF ok(4), of "[n]" "[]"] apart(2) [OF ok(4), of "[n]" "[n]"]
    by (simp_all add: confined_def within_def)
  let ?h = "case x of Symlink l \<Rightarrow> put (t @ [n]) (Symlink l) g | Regular i \<Rightarrow> put_file (t @ [n]) (fs_data g i) g"
  have w: "?put_leaf g = (Inr (), ?h)"
    using n(3) ops_at(2,5) [OF okg] g(3) lookup_at [OF okg(1) sg(1), of n] lookup_follow_at [OF okg(1) sg(1), of n] sg(2)
    by (cases x) (auto simp: at_path_def read_link_def copy_file_def)
  have c: "confined (t @ [n]) f ?h"
    using n(3) confined_changes(1,2) [OF okg g(3)] by (intro confined_trans [OF g(2)]) (cases x; auto)
  have v: "view ?h (t @ n # q) = (if q = [] then view f (s @ [n]) else None)" for q
    using n(3) fs_ok_below_none [OF okg(1), of "t @ [n]" q] g(3,4) n(2)
    by (cases x) (auto simp: view_def fs_nodes_simps)
  show ?thesis
    using g(1) w c v by (intro exI [of _ ?h]) (simp add: then_counted_def done_counted_def)
qed

lemma copy_entry_overlay:
  assumes deep: "deeper_ok rec" and ok: "fs_ok f" "node_at f s = Some Dir" "node_at f t = Some Dir" "s \<parallel> t"
    and n: "\<not> is_internal_entry n" "node_at f (s @ [n]) = Some x"
    and run: "copy_entry rec (path_at s) (path_at t) n f = Some (r, f')"
  shows "confined (t @ [n]) f f' \<and> (is_ok r \<longrightarrow>
    (\<forall>q. view f' (t @ n # q) = overlay (\<lambda>q. view f (s @ n # q)) (\<lambda>q. view f (t @ n # q)) q))"
proof (cases "x = Dir")
  case True
  then obtain g where g: "copy_entry rec (path_at s) (path_at t) n f = rec (path_at (s @ [n])) (path_at (t @ [n])) g"
    "confined (t @ [n]) f g" "node_at g (t @ [n]) = Some Dir" "node_at g (s @ [n]) = Some Dir"
    "\<forall>q. q \<noteq> [] \<longrightarrow> view g (t @ n # q) = view f (t @ n # q)" "\<forall>q. view g (s @ n # q) = view f (s @ n # q)"
    using copy_entry_folder [OF ok n(1)] n(2) by blast
  have "confined (t @ [n]) g f' \<and> (is_ok r \<longrightarrow> (\<forall>q. view f' ((t @ [n]) @ q) =
      overlay (\<lambda>q. view g ((s @ [n]) @ q)) (\<lambda>q. view g ((t @ [n]) @ q)) q))"
    using deep run g(1-4) apart(1) [OF ok(4), of "[n]" "[n]"]
    unfolding deeper_ok_def confined_def by metis
  moreover have "overlay (\<lambda>q. view g (s @ n # q)) (\<lambda>q. view g (t @ n # q)) q
      = overlay (\<lambda>q. view f (s @ n # q)) (\<lambda>q. view f (t @ n # q)) q" for q
    unfolding g(6) [rule_format] by (rule overlay_top [of _ Folder]) (use n(2) True g(5) in auto)
  ultimately show ?thesis
    using confined_trans [OF g(2)] by auto
next
  case False
  obtain h where h: "copy_entry rec (path_at s) (path_at t) n f = Some (Inr (), h)" "confined (t @ [n]) f h"
    "\<forall>q. view h (t @ n # q) = (if q = [] then view f (s @ [n]) else None)"
    using copy_entry_leaf [OF ok n False] by blast
  obtain y where y: "view f (s @ [n]) = Some y" "y \<noteq> Folder"
    using n(2) False view_cases(2) [of f "s @ [n]"] by (cases "view f (s @ [n])") auto
  have "view f (s @ n # q) = None" if "q \<noteq> []" for q
    using fs_ok_below_none [OF ok(1), of "s @ [n]" q] n(2) False that by simp
  then have "overlay (\<lambda>q. view f (s @ n # q)) l q = (if q = [] then view f (s @ [n]) else None)" for l q
    using overlay_leaf [of "\<lambda>q. view f (s @ n # q)" y l q] y by auto
  then show ?thesis
    using h run by simp
qed

lemma copy_entry_internal: "is_internal_entry n \<Longrightarrow> copy_entry rec s t n f = Some (Inr (), f)"
  by (simp add: copy_entry_def)

text \<open>The entries of a directory, one after the other.\<close>

lemma copy_entries_overlay:
  assumes deep: "deeper_ok rec" and par: "s \<parallel> t"
  shows "fs_ok f \<Longrightarrow> node_at f s = Some Dir \<Longrightarrow> node_at f t = Some Dir \<Longrightarrow> distinct ns \<Longrightarrow>
    (\<forall>n \<in> set ns. node_at f (s @ [n]) \<noteq> None) \<Longrightarrow>
    each_counted (copy_entry rec (path_at s) (path_at t)) ns f = Some (r, f') \<Longrightarrow>
    confined t f f' \<and> node_at f' t = Some Dir \<and> (is_ok r \<longrightarrow>
      (\<forall>n q. view f' (t @ n # q) = (if n \<in> set ns \<and> \<not> is_internal_entry n
         then overlay (\<lambda>q. view f (s @ n # q)) (\<lambda>q. view f (t @ n # q)) q else view f (t @ n # q))))"
proof (induction ns arbitrary: f)
  case Nil
  then show ?case by (auto simp: done_counted_def confined_refl)
next
  case (Cons m ns)
  note ok = Cons.prems(1-3)
  obtain s1 g where run: "copy_entry rec (path_at s) (path_at t) m f = Some (s1, g)"
    using Cons.prems(6) by (auto simp: counted_do_def split: option.splits)
  obtain x where x: "node_at f (s @ [m]) = Some x" using Cons.prems(5) by auto
  have one: "confined (t @ [m]) f g"
    "is_ok s1 \<Longrightarrow> view g (t @ m # q) = (if is_internal_entry m then view f (t @ m # q)
       else overlay (\<lambda>q. view f (s @ m # q)) (\<lambda>q. view f (t @ m # q)) q)" for q
    using copy_entry_overlay [OF deep ok par _ x run] copy_entry_internal [of m rec "path_at s" "path_at t" f] run
      confined_refl [OF ok(1)]
    by (cases "is_internal_entry m"; simp)+
  have t: "confined t f g" "node_at g t = Some Dir" and okg: "fs_ok g"
    using one(1) confined_mono [OF one(1), of t] confined_above [OF one(1)] ok(3) by (simp_all add: confined_def)
  have src: "view g (s @ q) = view f (s @ q)" for q
    by (rule within_view [OF ok(1) confined_within [OF t(1)]]) (use apart(2) [OF par, of "[]" q] in simp)
  have others: "view g (t @ n # q) = view f (t @ n # q)" if "n \<noteq> m" for n q
    by (rule within_view [OF ok(1) confined_within [OF one(1)]]) (use that in auto)
  show ?case
  proof (cases s1)
    case (Inl e)
    then show ?thesis
      using Cons.prems(6) run t by (auto simp: counted_do_def)
  next
    case (Inr u)
    then have rest: "each_counted (copy_entry rec (path_at s) (path_at t)) ns g = Some (r, f')"
      using Cons.prems(6) run by (auto simp: counted_do_def)
    have same: "node_at g (s @ q) = None \<longleftrightarrow> node_at f (s @ q) = None" for q
      using src [of q] view_cases(1) by metis
    have "node_at g s = Some Dir"
      using src [of "[]"] ok(2) view_cases(2) by (metis append_Nil2)
    moreover have "\<forall>n \<in> set ns. node_at g (s @ [n]) \<noteq> None"
      using Cons.prems(5) same by auto
    ultimately have ih: "confined t g f' \<and> node_at f' t = Some Dir \<and> (is_ok r \<longrightarrow>
      (\<forall>n q. view f' (t @ n # q) = (if n \<in> set ns \<and> \<not> is_internal_entry n
         then overlay (\<lambda>q. view g (s @ n # q)) (\<lambda>q. view g (t @ n # q)) q else view g (t @ n # q))))"
      using Cons.IH [OF okg _ t(2) _ _ rest] Cons.prems(4) by simp
    have m: "m \<notin> set ns" using Cons.prems(4) by simp
    have "view f' (t @ n # q) = (if n \<in> set (m # ns) \<and> \<not> is_internal_entry n
         then overlay (\<lambda>q. view f (s @ n # q)) (\<lambda>q. view f (t @ n # q)) q else view f (t @ n # q))"
      if "is_ok r" for n q
      using ih that m one(2) [of q] Inr others src by (cases "n = m") auto
    then show ?thesis
      using ih confined_trans [OF t(1)] by blast
  qed
qed

lemma copy_tree_deeper: "deeper_ok (copy_tree k)"
proof (induction k)
  case 0
  then show ?case by (simp add: deeper_ok_def)
next
  case (Suc k)
  show ?case
    unfolding deeper_ok_def
  proof (intro allI impI)
    fix s t f r f'
    assume ok: "fs_ok f" "node_at f s = Some Dir" "node_at f t = Some Dir" and par: "s \<parallel> t"
      and run: "copy_tree (Suc k) (path_at s) (path_at t) f = Some (r, f')"
    have "each_counted (copy_entry (copy_tree k) (path_at s) (path_at t)) (names_in s f) f = Some (r, f')"
      using run place_of_dir [OF ok(1,2)] ok(2) by (simp add: read_dir_def)
    then have c: "confined t f f' \<and> node_at f' t = Some Dir \<and> (is_ok r \<longrightarrow>
      (\<forall>n q. view f' (t @ n # q) = (if n \<in> set (names_in s f) \<and> \<not> is_internal_entry n
         then overlay (\<lambda>q. view f (s @ n # q)) (\<lambda>q. view f (t @ n # q)) q else view f (t @ n # q))))"
      by (rule copy_entries_overlay [OF Suc.IH par ok distinct_names_in, rotated]) (simp add: set_names_in)
    have "view f' (t @ q) = overlay (\<lambda>q. view f (s @ q)) (\<lambda>q. view f (t @ q)) q" if "is_ok r" for q
    proof (cases q)
      case Nil
      have "view f' t = Some Folder" using c by simp
      then show ?thesis using ok(2) overlay_Nil [of "\<lambda>q. view f (s @ q)" Folder] Nil by simp
    next
      case (Cons n p)
      have top: "view f (s @ []) = Some Folder" using ok(2) by simp
      have "overlay (\<lambda>q. view f (s @ n # q)) (\<lambda>q. view f (t @ n # q)) p = view f (t @ n # p)"
        if "n \<notin> set (names_in s f)"
      proof (rule overlay_nothing)
        fix q show "view f (s @ n # q) = None"
          using that fs_ok_below_none [OF ok(1), of "s @ [n]" q] by (cases "q = []") (auto simp: set_names_in)
      qed
      then show ?thesis
        using c that overlay_Cons [of "\<lambda>q. view f (s @ q)", OF top] Cons by auto
    qed
    then show "confined t f f' \<and> node_at f' t = Some Dir
       \<and> (is_ok r \<longrightarrow> (\<forall>q. view f' (t @ q) = overlay (\<lambda>q. view f (s @ q)) (\<lambda>q. view f (t @ q)) q))"
      using c by blast
  qed
qed

section \<open>Copying succeeds with enough fuel\<close>

definition shallower :: "nat \<Rightarrow> place \<Rightarrow> fs \<Rightarrow> bool" where
  "shallower k s f \<longleftrightarrow> (\<forall>q. node_at f (s @ q) \<noteq> None \<longrightarrow> length q < k)"

lemma shallower_view:
  assumes "\<And>q. view g (s @ q) = view f (s @ q)"
  shows "shallower k s g = shallower k s f"
proof -
  have "node_at g (s @ q) = None \<longleftrightarrow> node_at f (s @ q) = None" for q
    using assms [of q] view_cases(1) by metis
  then show ?thesis by (simp add: shallower_def)
qed

lemma shallower_down: "shallower (Suc k) s f \<Longrightarrow> shallower k (s @ [n]) f"
  unfolding shallower_def by (metis Suc_less_eq append.assoc append_Cons append_Nil length_Cons)

lemma copy_entries_total:
  assumes deep: "deeper_ok rec" and par: "s \<parallel> t"
    and total: "\<And>n f. fs_ok f \<Longrightarrow> node_at f (s @ [n]) = Some Dir \<Longrightarrow> node_at f (t @ [n]) = Some Dir \<Longrightarrow>
      shallower k (s @ [n]) f \<Longrightarrow> \<exists>f'. rec (path_at (s @ [n])) (path_at (t @ [n])) f = Some (Inr (), f')"
  shows "fs_ok f \<Longrightarrow> node_at f s = Some Dir \<Longrightarrow> node_at f t = Some Dir \<Longrightarrow> shallower (Suc k) s f \<Longrightarrow>
    (\<forall>n \<in> set ns. node_at f (s @ [n]) \<noteq> None) \<Longrightarrow>
    \<exists>f'. each_counted (copy_entry rec (path_at s) (path_at t)) ns f = Some (Inr (), f')"
proof (induction ns arbitrary: f)
  case Nil
  then show ?case by (simp add: done_counted_def)
next
  case (Cons m ns)
  note ok = Cons.prems(1-3)
  obtain x where x: "node_at f (s @ [m]) = Some x" using Cons.prems(5) by auto
  have "\<exists>g. copy_entry rec (path_at s) (path_at t) m f = Some (Inr (), g) \<and> confined (t @ [m]) f g"
  proof (cases "is_internal_entry m")
    case True
    then show ?thesis using confined_refl [OF ok(1)] by (simp add: copy_entry_internal)
  next
    case False
    show ?thesis
    proof (cases "x = Dir")
      case True
      then obtain g where g: "copy_entry rec (path_at s) (path_at t) m f = rec (path_at (s @ [m])) (path_at (t @ [m])) g"
        "confined (t @ [m]) f g" "node_at g (t @ [m]) = Some Dir" "node_at g (s @ [m]) = Some Dir"
        "\<forall>q. view g (s @ m # q) = view f (s @ m # q)"
        using copy_entry_folder [OF ok par False] x by blast
      have "shallower k (s @ [m]) g"
        using shallower_view [of g "s @ [m]" f k] shallower_down [OF Cons.prems(4)] g(5) by simp
      then have "\<exists>h. rec (path_at (s @ [m])) (path_at (t @ [m])) g = Some (Inr (), h)"
        using total [OF _ g(4,3)] g(2) by (simp add: confined_def)
      then obtain h where "copy_entry rec (path_at s) (path_at t) m f = Some (Inr (), h)"
        using g(1) by auto
      then show ?thesis using copy_entry_overlay [OF deep ok par False x] by blast
    next
      case leaf: False
      then show ?thesis using copy_entry_leaf [OF ok par False x] by blast
    qed
  qed
  then obtain g where g: "copy_entry rec (path_at s) (path_at t) m f = Some (Inr (), g)" "confined (t @ [m]) f g"
    by blast
  have okg: "fs_ok g" "node_at g t = Some Dir"
    using g(2) confined_above [OF g(2)] ok(3) by (simp_all add: confined_def)
  have src: "view g (s @ q) = view f (s @ q)" for q
    by (rule within_view [OF ok(1) confined_within [OF g(2)] apart(2) [OF par]])
  have "node_at g s = Some Dir"
    using src [of "[]"] ok(2) view_cases(2) by (metis append_Nil2)
  moreover have "\<forall>n \<in> set ns. node_at g (s @ [n]) \<noteq> None"
    using Cons.prems(5) src view_cases(1) by (metis list.set_intros(2))
  ultimately have "\<exists>f'. each_counted (copy_entry rec (path_at s) (path_at t)) ns g = Some (Inr (), f')"
    using Cons.IH [OF okg(1) _ okg(2)] Cons.prems(4) shallower_view [of g s f] src by blast
  then show ?case using g(1) by (simp add: counted_do_def)
qed

lemma copy_tree_total:
  "fs_ok f \<Longrightarrow> node_at f s = Some Dir \<Longrightarrow> node_at f t = Some Dir \<Longrightarrow> s \<parallel> t \<Longrightarrow> shallower k s f \<Longrightarrow>
    \<exists>f'. copy_tree k (path_at s) (path_at t) f = Some (Inr (), f')"
proof (induction k arbitrary: s t f)
  case 0
  then show ?case by (auto simp: shallower_def dest: spec [of _ "[]"])
next
  case (Suc k)
  have "\<exists>f'. each_counted (copy_entry (copy_tree k) (path_at s) (path_at t)) (names_in s f) f = Some (Inr (), f')"
    by (rule copy_entries_total [OF copy_tree_deeper Suc.prems(4) Suc.IH Suc.prems(1-3,5)])
      (use apart(1) [OF Suc.prems(4)] in \<open>auto simp: set_names_in\<close>)
  then show ?case
    using place_of_dir [OF Suc.prems(1,2)] Suc.prems(2) by (simp add: read_dir_def)
qed

section \<open>Deleting what lower layers had\<close>

text \<open>
  A path of a whiteout, when \<open>safe_join\<close> takes it: its names. What a layer deletes is gone from
  the lower tree, at and below a removed path and below an opaque one.
\<close>

definition joins :: "path \<Rightarrow> bool" where
  "joins p \<longleftrightarrow> (\<forall>c \<in> set p. c = CurDir \<or> (\<exists>n. c = Normal n \<and> CHR 0x00 \<notin> set n))"

definition names_of :: "path \<Rightarrow> place" where
  "names_of p = List.map_filter (\<lambda>c. case c of Normal n \<Rightarrow> Some n | _ \<Rightarrow> None) p"

definition cover :: "whiteouts \<Rightarrow> tree_view \<Rightarrow> tree_view" where
  "cover w l q =
     (if (\<exists>p \<in> set (wo_opaque w). strict_prefix (names_of p) q) \<or> (\<exists>p \<in> set (wo_removed w). prefix (names_of p) q)
      then None else l q)"

text \<open>No link is on the way, where a deletion would follow it.\<close>

definition no_link :: "tree_view \<Rightarrow> place \<Rightarrow> bool" where
  "no_link l p \<longleftrightarrow> (\<forall>k \<le> length p. \<forall>target. l (take k p) \<noteq> Some (Pointer target))"

definition deletes_safely :: "whiteouts \<Rightarrow> tree_view \<Rightarrow> bool" where
  "deletes_safely w l \<longleftrightarrow>
     (\<forall>p \<in> set (wo_opaque w). joins p \<and> no_link l (names_of p))
     \<and> (\<forall>p \<in> set (wo_removed w). joins p \<and> names_of p \<noteq> [] \<and> no_link l (butlast (names_of p)))"

lemma safe_join_from_names:
  "joins p \<Longrightarrow> safe_join_from rel (path_at t) p = Inr (path_at (t @ names_of p))"
proof (induction p arbitrary: t)
  case Nil
  then show ?case by (simp add: names_of_def)
next
  case (Cons c p)
  have p: "joins p" using Cons.prems by (simp add: joins_def)
  from Cons.prems consider "c = CurDir" | n where "c = Normal n" "CHR 0x00 \<notin> set n"
    by (auto simp: joins_def)
  then show ?case
  proof cases
    case 1
    then show ?thesis using Cons.IH [OF p, of t] by (simp add: names_of_def)
  next
    case 2
    then show ?thesis using Cons.IH [OF p, of "t @ [n]"] by (simp add: names_of_def path_at_snoc)
  qed
qed

lemma safe_join_names: "joins p \<Longrightarrow> safe_join (path_at t) p = Inr (path_at (t @ names_of p))"
  by (simp add: safe_join_def safe_join_from_names)

lemma no_link_less: "(\<And>q. l' q = None \<or> l' q = l q) \<Longrightarrow> no_link l p \<Longrightarrow> no_link l' p"
  unfolding no_link_def by (metis option.distinct(1))

lemma no_link_node: "no_link (\<lambda>q. view f (t @ q)) p \<Longrightarrow> k \<le> length p \<Longrightarrow> node_at f (t @ take k p) \<noteq> Some (Symlink x)"
  unfolding no_link_def by (metis view_cases(3))

text \<open>A path that ends in something that is not a directory leads nowhere below it.\<close>

lemma walk_nowhere:
  "node_at f (a @ b) \<noteq> Some Dir \<Longrightarrow> (\<forall>k \<le> length b. \<forall>x. node_at f (a @ take k b) \<noteq> Some (Symlink x)) \<Longrightarrow>
     node_at f a = Some Dir \<Longrightarrow> cs \<noteq> [] \<Longrightarrow> \<exists>e. walk f fl k a (map Normal b @ cs) = Inl e"
proof (induction b arbitrary: a)
  case (Cons m b)
  have m: "node_at f (a @ [m]) \<noteq> Some (Symlink x)" for x
    using Cons.prems(2) [rule_format, of 1] by simp
  have below: "\<forall>k \<le> length b. \<forall>x. node_at f ((a @ [m]) @ take k b) \<noteq> Some (Symlink x)"
    using Cons.prems(2) by (metis Suc_le_mono append.assoc append_Cons append_Nil length_Cons take_Suc_Cons)
  show ?case
  proof (cases "node_at f (a @ [m]) = Some Dir")
    case True
    then show ?thesis
      using Cons.IH [of "a @ [m]"] Cons.prems(1,4) below by simp
  next
    case False
    then show ?thesis
      using m Cons.prems(4) by (auto split: option.splits node.splits)
  qed
qed simp

lemma place_nowhere:
  assumes "fs_ok f" and "node_at f t = Some Dir" and "no_link (\<lambda>q. view f (t @ q)) m" and "node_at f (t @ m) \<noteq> Some Dir"
  shows "\<exists>e. place_of fl (path_at (t @ m @ [n])) f = Inl e"
proof -
  have "\<exists>e. walk f fl MAX_LINKS t (map Normal m @ [Normal n]) = Inl e"
    by (rule walk_nowhere [OF assms(4) _ assms(2)]) (use no_link_node [OF assms(3)] in auto)
  then show ?thesis
    using walk_real [OF assms(1), of "[]" t fl MAX_LINKS "map Normal m @ [Normal n]"] assms(2)
    by (simp add: place_of_def path_at_def)
qed

text \<open>One removed path.\<close>

lemma apply_removed_at:
  assumes ok: "fs_ok f" "node_at f t = Some Dir" and p: "joins p" "names_of p \<noteq> []"
    and l: "no_link (\<lambda>q. view f (t @ q)) (butlast (names_of p))"
  shows "\<exists>f'. apply_removed (path_at t) p f = (Inr (), f') \<and> confined t f f' \<and> node_at f' t = Some Dir
    \<and> (\<forall>q. view f' (t @ q) = (if prefix (names_of p) q then None else view f (t @ q)))"
proof -
  obtain m n where mn: "names_of p = m @ [n]" using p(2) by (metis append_butlast_last_id)
  let ?T = "t @ m @ [n]"
  have j: "safe_join (path_at t) p = Inr (path_at ?T)" using safe_join_names [OF p(1), of t] mn by simp
  have gone: "node_at f (t @ q) = None" if none: "node_at f ?T = None" and q: "prefix (m @ [n]) q" for q
  proof -
    obtain r where "q = (m @ [n]) @ r" using q by (auto simp: prefix_def)
    then show ?thesis using none fs_ok_below_none [OF ok(1), of ?T r] by (cases "r = []") auto
  qed
  show ?thesis
  proof (cases "node_at f (t @ m) = Some Dir")
    case False
    have l': "no_link (\<lambda>q. view f (t @ q)) m" using l mn by simp
    obtain e e' where "place_of True (path_at ?T) f = Inl e" "place_of False (path_at ?T) f = Inl e'"
      using place_nowhere [OF ok l' False] by blast
    then have "apply_removed (path_at t) p f = (Inr (), f)"
      by (simp add: apply_removed_def j path_is_dir_def lookup_node_def remove_file_def at_place_def ignoring_def)
    moreover have "node_at f ?T = None"
      using fs_ok_below_none [OF ok(1) False, of "[n]"] by simp
    ultimately show ?thesis
      using gone ok confined_refl [OF ok(1)] mn by auto
  next
    case True
    note at = ops_at(3,4) [OF ok(1) True, of n] and look = lookup_follow_at [OF ok(1) True, of n]
    note ch = confined_changes(3,4) [OF ok(1) True, of n]
    have pre: "prefix t ((t @ m) @ [n])" by simp
    have c: "confined t f (drop_tree ?T f)" "node_at f ?T \<noteq> Some Dir \<Longrightarrow> confined t f (drop_node ?T f)"
      using confined_mono [OF ch(2) pre] confined_mono [OF ch(1) pre] by simp_all
    have d: "node_at (drop_tree ?T f) t = Some Dir" "node_at (drop_node ?T f) t = Some Dir"
      using ok(2) by (auto simp: fs_nodes_simps)
    have vt: "view (drop_tree ?T f) (t @ q) = (if prefix (m @ [n]) q then None else view f (t @ q))" for q
      by (cases "node_at f (t @ q)") (auto simp: view_def fs_nodes_simps split: node.splits)
    have vn: "view (drop_node ?T f) (t @ q) = (if prefix (m @ [n]) q then None else view f (t @ q))"
      if leaf: "node_at f ?T \<noteq> Some Dir" for q
    proof (cases "prefix (m @ [n]) q")
      case True
      then obtain r where r: "q = (m @ [n]) @ r" by (auto simp: prefix_def)
      then have "node_at (drop_node ?T f) (t @ q) = None"
        using fs_ok_below_none [OF ok(1) leaf, of r] by (cases "r = []") (simp_all add: fs_nodes_simps)
      with True show ?thesis by simp
    next
      case False
      then have "node_at (drop_node ?T f) (t @ q) = node_at f (t @ q)" by (auto simp: fs_nodes_simps)
      with False show ?thesis by (cases "node_at f (t @ q)") (auto simp: view_def split: node.splits)
    qed
    show ?thesis
    proof (cases "node_at f ?T")
      case None
      then have "apply_removed (path_at t) p f = (Inr (), f)"
        using look at(1) by (simp add: apply_removed_def j path_is_dir_def ignoring_def)
      then show ?thesis
        using gone [OF None] ok confined_refl [OF ok(1)] mn by auto
    next
      case (Some x)
      show ?thesis
      proof (cases x)
        case Dir
        then have "apply_removed (path_at t) p f = (Inr (), drop_tree ?T f)"
          using look at(2) Some by (simp add: apply_removed_def j path_is_dir_def ignoring_def)
        then show ?thesis using c(1) d(1) vt mn by auto
      next
        case (Regular i)
        then have "apply_removed (path_at t) p f = (Inr (), drop_node ?T f)"
          using look at(1) Some by (simp add: apply_removed_def j path_is_dir_def ignoring_def)
        then show ?thesis using c(2) d(2) vn Some Regular mn by auto
      next
        case (Symlink x)
        then have "apply_removed (path_at t) p f = (Inr (), drop_node ?T f)"
          using at(1,2) Some by (simp add: apply_removed_def j ignoring_def)
        then show ?thesis using c(2) d(2) vn Some Symlink mn by auto
      qed
    qed
  qed
qed

text \<open>One opaque directory, which may be the root of the tree itself.\<close>

lemma apply_opaque_at:
  assumes ok: "fs_ok f" "node_at f t = Some Dir" "t \<noteq> []" and p: "joins p"
    and l: "no_link (\<lambda>q. view f (t @ q)) (names_of p)"
  shows "\<exists>f'. apply_opaque (path_at t) p f = (Inr (), f') \<and> confined t f f' \<and> node_at f' t = Some Dir
    \<and> (\<forall>q. view f' (t @ q) = (if strict_prefix (names_of p) q then None else view f (t @ q)))"
proof -
  let ?T = "t @ names_of p"
  have j: "safe_join (path_at t) p = Inr (path_at ?T)" by (rule safe_join_names [OF p])
  have nolink: "node_at f ?T \<noteq> Some (Symlink x)" for x
    using no_link_node [OF l, of "length (names_of p)"] by simp
  show ?thesis
  proof (cases "node_at f ?T = Some Dir")
    case False
    have "\<not> path_is_dir (path_at ?T) f"
    proof (cases "names_of p = []")
      case True
      then show ?thesis using False ok(2) by simp
    next
      case ne: False
      then obtain m n where mn: "names_of p = m @ [n]" by (metis append_butlast_last_id)
      have lm: "no_link (\<lambda>q. view f (t @ q)) m"
        using l unfolding mn no_link_def by (metis butlast_snoc le_SucI length_append_singleton take_append le_imp_diff_is_add append_Nil2 diff_is_0_eq take0)
      show ?thesis
      proof (cases "node_at f (t @ m) = Some Dir")
        case True
        then show ?thesis
          using lookup_follow_at [OF ok(1) True, of n] nolink False mn
          by (cases "node_at f ?T") (auto simp: path_is_dir_def)
      next
        case nd: False
        then show ?thesis
          using place_nowhere [OF ok(1,2) lm nd, of True n] mn by (auto simp: path_is_dir_def lookup_node_def)
      qed
    qed
    then have "apply_opaque (path_at t) p f = (Inr (), f)"
      by (simp add: apply_opaque_def j)
    moreover have "view f (t @ q) = None" if q: "strict_prefix (names_of p) q" for q
    proof -
      obtain r where "q = names_of p @ r" "r \<noteq> []" using q by (auto simp: strict_prefix_def prefix_def)
      then show ?thesis using fs_ok_below_none [OF ok(1) False, of r] by simp
    qed
    ultimately show ?thesis
      using ok confined_refl [OF ok(1)] by auto
  next
    case True
    obtain P n where P: "?T = P @ [n]" using ok(3) by (metis append_butlast_last_id append_is_Nil_conv)
    have D: "node_at f (P @ [n]) = Some Dir" and up: "node_at f P = Some Dir"
      using True fs_ok_parent [OF ok(1), of P n] P by simp_all
    let ?g = "drop_tree (P @ [n]) f"
    let ?h = "put (P @ [n]) Dir ?g"
    have c1: "confined (P @ [n]) f ?g" by (rule confined_changes(4) [OF ok(1) up])
    have g: "fs_ok ?g" "node_at ?g P = Some Dir" "node_at ?g (P @ [n]) = None"
      using c1 confined_above [OF c1] up by (simp_all add: confined_def fs_nodes_simps)
    have c: "confined (P @ [n]) f ?h"
      by (rule confined_trans [OF c1 confined_changes(1) [OF g]]) simp
    have "path_is_dir (path_at (P @ [n])) f" by (rule path_is_dir_at [OF ok(1) D])
    then have "apply_opaque (path_at t) p f = (Inr (), ?h)"
      using j P D ops_at(4) [OF ok(1) up, of n] create_dir_all_at(1) [OF g]
      by (simp add: apply_opaque_def and_do_def at_path_def)
    moreover have "confined t f ?h" by (rule confined_mono [OF c]) (use P in \<open>metis prefix_def\<close>)
    moreover have "view ?h (t @ q) = (if strict_prefix (names_of p) q then None else view f (t @ q))" for q
    proof -
      have pre: "prefix (P @ [n]) (t @ q) \<longleftrightarrow> prefix (names_of p) q" "t @ q = P @ [n] \<longleftrightarrow> q = names_of p"
        using P by (metis same_prefix_prefix) (metis P same_append_eq)
      show ?thesis
        using pre D P by (auto simp: view_def fs_nodes_simps strict_prefix_def)
    qed
    moreover have "node_at ?h t = Some Dir"
      using ok(2) P by (auto simp: fs_nodes_simps prefix_def)
    ultimately show ?thesis by blast
  qed
qed

text \<open>All the whiteouts of a layer, the opaque directories first.\<close>

lemma opaques_at:
  "fs_ok f \<Longrightarrow> node_at f t = Some Dir \<Longrightarrow> t \<noteq> [] \<Longrightarrow>
    \<forall>p \<in> set ps. joins p \<and> no_link (\<lambda>q. view f (t @ q)) (names_of p) \<Longrightarrow>
    \<exists>f'. each (apply_opaque (path_at t)) ps f = (Inr (), f') \<and> confined t f f' \<and> node_at f' t = Some Dir
      \<and> (\<forall>q. view f' (t @ q) = (if \<exists>p \<in> set ps. strict_prefix (names_of p) q then None else view f (t @ q)))"
proof (induction ps arbitrary: f)
  case Nil
  then show ?case by (auto simp: confined_refl)
next
  case (Cons p ps)
  have "\<exists>g. apply_opaque (path_at t) p f = (Inr (), g) \<and> confined t f g \<and> node_at g t = Some Dir
      \<and> (\<forall>q. view g (t @ q) = (if strict_prefix (names_of p) q then None else view f (t @ q)))"
    by (rule apply_opaque_at [OF Cons.prems(1-3)]) (use Cons.prems(4) in simp_all)
  then obtain g where g: "apply_opaque (path_at t) p f = (Inr (), g)" "confined t f g" "node_at g t = Some Dir"
      "\<forall>q. view g (t @ q) = (if strict_prefix (names_of p) q then None else view f (t @ q))"
    by blast
  have less: "view g (t @ q) = None \<or> view g (t @ q) = view f (t @ q)" for q using g(4) by simp
  have "fs_ok g" using g(2) by (simp add: confined_def)
  moreover have "\<forall>p \<in> set ps. joins p \<and> no_link (\<lambda>q. view g (t @ q)) (names_of p)"
    using Cons.prems(4) no_link_less [of "\<lambda>q. view g (t @ q)" "\<lambda>q. view f (t @ q)", OF less] by simp
  ultimately obtain f' where f': "each (apply_opaque (path_at t)) ps g = (Inr (), f')" "confined t g f'" "node_at f' t = Some Dir"
      "\<forall>q. view f' (t @ q) = (if \<exists>p \<in> set ps. strict_prefix (names_of p) q then None else view g (t @ q))"
    using Cons.IH [OF _ g(3) Cons.prems(3)] by blast
  then show ?case
    using g confined_trans [OF g(2) f'(2)] by (intro exI [of _ f']) (simp add: and_do_def)
qed

lemma removals_at:
  "fs_ok f \<Longrightarrow> node_at f t = Some Dir \<Longrightarrow>
    \<forall>p \<in> set ps. joins p \<and> names_of p \<noteq> [] \<and> no_link (\<lambda>q. view f (t @ q)) (butlast (names_of p)) \<Longrightarrow>
    \<exists>f'. each (apply_removed (path_at t)) ps f = (Inr (), f') \<and> confined t f f' \<and> node_at f' t = Some Dir
      \<and> (\<forall>q. view f' (t @ q) = (if \<exists>p \<in> set ps. prefix (names_of p) q then None else view f (t @ q)))"
proof (induction ps arbitrary: f)
  case Nil
  then show ?case by (auto simp: confined_refl)
next
  case (Cons p ps)
  have "\<exists>g. apply_removed (path_at t) p f = (Inr (), g) \<and> confined t f g \<and> node_at g t = Some Dir
      \<and> (\<forall>q. view g (t @ q) = (if prefix (names_of p) q then None else view f (t @ q)))"
    by (rule apply_removed_at [OF Cons.prems(1,2)]) (use Cons.prems(3) in simp_all)
  then obtain g where g: "apply_removed (path_at t) p f = (Inr (), g)" "confined t f g" "node_at g t = Some Dir"
      "\<forall>q. view g (t @ q) = (if prefix (names_of p) q then None else view f (t @ q))"
    by blast
  have less: "view g (t @ q) = None \<or> view g (t @ q) = view f (t @ q)" for q using g(4) by simp
  have "fs_ok g" using g(2) by (simp add: confined_def)
  moreover have "\<forall>p \<in> set ps. joins p \<and> names_of p \<noteq> [] \<and> no_link (\<lambda>q. view g (t @ q)) (butlast (names_of p))"
    using Cons.prems(3) no_link_less [of "\<lambda>q. view g (t @ q)" "\<lambda>q. view f (t @ q)", OF less] by simp
  ultimately obtain f' where f': "each (apply_removed (path_at t)) ps g = (Inr (), f')" "confined t g f'" "node_at f' t = Some Dir"
      "\<forall>q. view f' (t @ q) = (if \<exists>p \<in> set ps. prefix (names_of p) q then None else view g (t @ q))"
    using Cons.IH [OF _ g(3)] by blast
  then show ?case
    using g confined_trans [OF g(2) f'(2)] by (intro exI [of _ f']) (simp add: and_do_def)
qed

lemma whiteouts_at:
  assumes "fs_ok f" and "node_at f t = Some Dir" and "t \<noteq> []" and "deletes_safely w (\<lambda>q. view f (t @ q))"
  shows "\<exists>f' g. each (apply_opaque (path_at t)) (wo_opaque w) f = (Inr (), g)
    \<and> each (apply_removed (path_at t)) (wo_removed w) g = (Inr (), f')
    \<and> confined t f f' \<and> node_at f' t = Some Dir \<and> (\<forall>q. view f' (t @ q) = cover w (\<lambda>q. view f (t @ q)) q)"
proof -
  obtain g where g: "each (apply_opaque (path_at t)) (wo_opaque w) f = (Inr (), g)" "confined t f g" "node_at g t = Some Dir"
      "\<forall>q. view g (t @ q) = (if \<exists>p \<in> set (wo_opaque w). strict_prefix (names_of p) q then None else view f (t @ q))"
    using opaques_at [OF assms(1-3), of "wo_opaque w"] assms(4) unfolding deletes_safely_def by blast
  have less: "view g (t @ q) = None \<or> view g (t @ q) = view f (t @ q)" for q using g(4) by simp
  have "fs_ok g" using g(2) by (simp add: confined_def)
  moreover have "\<forall>p \<in> set (wo_removed w). joins p \<and> names_of p \<noteq> [] \<and> no_link (\<lambda>q. view g (t @ q)) (butlast (names_of p))"
    using assms(4) no_link_less [of "\<lambda>q. view g (t @ q)" "\<lambda>q. view f (t @ q)", OF less] unfolding deletes_safely_def by blast
  ultimately obtain f' where "each (apply_removed (path_at t)) (wo_removed w) g = (Inr (), f')" "confined t g f'" "node_at f' t = Some Dir"
      "\<forall>q. view f' (t @ q) = (if \<exists>p \<in> set (wo_removed w). prefix (names_of p) q then None else view g (t @ q))"
    using removals_at [OF _ g(3), of "wo_removed w"] by blast
  then show ?thesis
    using g(1,4) confined_trans [OF g(2)] by (intro exI [of _ f'] exI [of _ g]) (simp add: cover_def)
qed

end
