(* ===== verification/Zygo_Layers_Properties.thy ===== *)
theory Zygo_Layers_Properties
  imports Zygo_Flatten
begin

text \<open>
  The properties of the layer store: what extraction keeps, what flattening computes, and the
  three places where a layer reaches a file of the host through a link it planted.
\<close>

section \<open>The directory of a layer\<close>

lemma split_on_none: "c \<notin> set s \<Longrightarrow> split_on c s = [s]"
  by (induction s) auto

lemma hex_name:
  assumes "store_parse_digest digest = Inr hex"
  shows "path_segments hex = [hex]" and "component_of hex = Normal hex" and "\<not> is_absolute hex" and "length hex = 64"
proof -
  have h: "list_all is_hex_digit hex" "length hex = 64"
    using assms by (auto simp: store_parse_digest_def split: option.splits if_splits)
  have no: "c \<notin> set hex" if "\<not> is_hex_digit c" for c
    using h(1) that by (auto simp: list_all_iff)
  have "CHR ''/'' \<notin> set hex" "CHR ''.'' \<notin> set hex"
    by (rule no, simp add: is_hex_digit_def)+
  moreover have "hex \<noteq> []" using h(2) by auto
  ultimately show "path_segments hex = [hex]" "component_of hex = Normal hex" "\<not> is_absolute hex"
    by (auto simp: path_segments_def split_on_none component_of_def is_absolute_def neq_Nil_conv)
  show "length hex = 64" by (rule h(2))
qed

lemma layer_dir_at:
  assumes "components (layers_path z) = path_at base" and "store_parse_digest digest = Inr hex"
  shows "layer_dir z digest = Inr (path_at (base @ [hex]))"
  using hex_name [OF assms(2)] assms(2)
  by (simp add: layer_dir_def push_text_def assms(1)) (simp add: path_at_def)

lemma push_name: "name \<in> {LAYER_DONE, WHITEOUT_FILE} \<Longrightarrow> push_text (path_at p) name = path_at (p @ [name])"
  by (auto simp: push_text_def LAYER_DONE_def WHITEOUT_FILE_def path_segments_def component_of_def is_absolute_def path_at_def)

section \<open>Extraction\<close>

text \<open>
  C33. Extraction is confined. Whatever archive is extracted into the directory of a layer, with
  absolute names, parent directories, links of both kinds planted by earlier entries or
  truncated data, and whether it succeeds or fails, nothing outside that directory changes: no
  file appears, disappears or gets other contents, and after success the directory is still a
  real directory.
\<close>

theorem archive_stays_inside:
  assumes "unpack_contract unpack" and "fs_ok f" and "node_at f d = Some Dir" and "d \<noteq> []"
    and "extract_tar unpack (path_at d) es f = (r, f')"
  shows "(\<forall>p. \<not> prefix d p \<longrightarrow> view f' p = view f p) \<and> fs_ok f' \<and> (is_ok r \<longrightarrow> node_at f' d = Some Dir)"
proof -
  have "confined d f f' \<and> (is_ok r \<longrightarrow> node_at f' d = Some Dir)"
    using extract_entries_confined [OF assms(1,4,2,3)] assms(5) by (simp add: extract_tar_def)
  then show ?thesis
    using within_view [OF assms(2), of d f'] by (simp add: confined_def)
qed

section \<open>Flattening\<close>

text \<open>
  What the layers say, base first: what each deletes, and its tree. Laying them over what is there:
  a layer first takes away what it deletes and then puts its own tree over the rest.
\<close>

type_synonym layer_view = "whiteouts \<times> tree_view"

definition layer_views :: "'b store_env \<Rightarrow> zygo_paths \<Rightarrow> place \<Rightarrow> (string \<times> string) list \<Rightarrow> fs \<Rightarrow> layer_view list" where
  "layer_views env z base ls f = map (\<lambda>(l, h). (whiteouts_of env z l f, \<lambda>q. view f (base @ h # q))) ls"

definition lay :: "tree_view \<Rightarrow> layer_view \<Rightarrow> tree_view" where
  "lay l = (\<lambda>(w, u). overlay u (cover w l))"

text \<open>No layer deletes through a link that the layers below it left.\<close>

fun deletions_safe :: "tree_view \<Rightarrow> layer_view list \<Rightarrow> bool" where
  "deletions_safe l [] \<longleftrightarrow> True"
| "deletions_safe l (v # vs) \<longleftrightarrow> deletes_safely (fst v) l \<and> deletions_safe (lay l v) vs"

text \<open>A layer that is unpacked and no deeper than the fuel; its record, if any, is a file.\<close>

definition unpacked_layer :: "nat \<Rightarrow> place \<Rightarrow> fs \<Rightarrow> string \<Rightarrow> bool" where
  "unpacked_layer k base f hex \<longleftrightarrow> node_at f (base @ [hex]) = Some Dir
     \<and> (\<forall>t. node_at f (base @ [hex, WHITEOUT_FILE]) \<noteq> Some (Symlink t)) \<and> shallower k (base @ [hex]) f"

lemma within_node: "confined t f g \<Longrightarrow> \<not> prefix t p \<Longrightarrow> node_at g p = node_at f p"
  by (simp add: confined_def within_def)

lemma unpacked_layer_same:
  assumes "confined t f g" and "base \<parallel> t"
  shows "unpacked_layer k base g hex = unpacked_layer k base f hex"
proof -
  have "node_at g (base @ q) = node_at f (base @ q)" for q
    by (rule within_node [OF assms(1)]) (use apart(2) [OF assms(2), of "[]" q] in simp)
  then show ?thesis by (simp add: unpacked_layer_def shallower_def)
qed

lemma whiteouts_read:
  assumes z: "components (layers_path z) = path_at base" and p: "store_parse_digest digest = Inr hex"
    and l: "unpacked_layer k base f hex" and ok: "fs_ok f"
  shows "whiteouts_of env z digest f = (case view f (base @ [hex, WHITEOUT_FILE]) of
      Some (Contents t) \<Rightarrow> (case se_parse env t of Some w \<Rightarrow> w | None \<Rightarrow> no_whiteouts)
    | _ \<Rightarrow> no_whiteouts)"
proof -
  have d: "node_at f (base @ [hex]) = Some Dir" using l by (simp add: unpacked_layer_def)
  have "place_of True (path_at ((base @ [hex]) @ [WHITEOUT_FILE])) f = Inr ((base @ [hex]) @ [WHITEOUT_FILE])"
    by (rule place_of_at(2) [OF ok d]) (use l in \<open>simp add: unpacked_layer_def\<close>)
  then show ?thesis
    using l layer_dir_at [OF z p] push_name [of WHITEOUT_FILE "base @ [hex]"]
    by (cases "node_at f (base @ [hex, WHITEOUT_FILE])")
      (auto simp: whiteouts_of_def fs_read_def lookup_node_def view_def unpacked_layer_def split: node.splits)
qed

lemma layer_views_same:
  assumes "components (layers_path z) = path_at base" and "base \<parallel> t" and "confined t f g" and "fs_ok f"
    and "\<forall>(l, h) \<in> set ls. store_parse_digest l = Inr h \<and> unpacked_layer k base f h"
  shows "layer_views env z base ls g = layer_views env z base ls f"
proof -
  have v: "view g (base @ q) = view f (base @ q)" for q
    by (rule within_view [OF assms(4) confined_within [OF assms(3)]]) (use apart(2) [OF assms(2), of "[]" q] in simp)
  have okg: "fs_ok g" using assms(3) by (simp add: confined_def)
  have "whiteouts_of env z l g = whiteouts_of env z l f" if "(l, h) \<in> set ls" for l h
  proof -
    have p: "store_parse_digest l = Inr h" and u: "unpacked_layer k base f h" using assms(5) that by auto
    have ug: "unpacked_layer k base g h" using u unpacked_layer_same [OF assms(3,2)] by simp
    show ?thesis
      unfolding whiteouts_read [OF assms(1) p u assms(4)] whiteouts_read [OF assms(1) p ug okg] v ..
  qed
  then show ?thesis
    by (auto simp: layer_views_def v)
qed

lemma flatten_layer_lays:
  assumes z: "components (layers_path z) = path_at base" and p: "store_parse_digest digest = Inr hex"
    and l: "unpacked_layer k base f hex" and ok: "fs_ok f" "node_at f t = Some Dir" and par: "base \<parallel> t"
    and safe: "deletes_safely (whiteouts_of env z digest f) (\<lambda>q. view f (t @ q))"
  shows "\<exists>f'. flatten_layer k env z (path_at t) digest f = Some (Inr (), f') \<and> confined t f f' \<and> node_at f' t = Some Dir
    \<and> (\<forall>q. view f' (t @ q) = lay (\<lambda>q. view f (t @ q)) (whiteouts_of env z digest f, \<lambda>q. view f (base @ hex # q)) q)"
proof -
  let ?w = "whiteouts_of env z digest f"
  have ne: "t \<noteq> []" using par by auto
  have par': "base @ [hex] \<parallel> t" using apart(1) [OF par, of "[hex]" "[]"] by simp
  obtain g g' where g: "each (apply_opaque (path_at t)) (wo_opaque ?w) f = (Inr (), g')"
      "each (apply_removed (path_at t)) (wo_removed ?w) g' = (Inr (), g)" "confined t f g" "node_at g t = Some Dir"
      "\<forall>q. view g (t @ q) = cover ?w (\<lambda>q. view f (t @ q)) q"
    using whiteouts_at [OF ok ne safe] by blast
  have okg: "fs_ok g" using g(3) by (simp add: confined_def)
  have lg: "node_at g (base @ [hex]) = Some Dir" "shallower k (base @ [hex]) g"
    using l unpacked_layer_same [OF g(3) par, of k hex] by (simp_all add: unpacked_layer_def)
  obtain f' where run: "copy_tree k (path_at (base @ [hex])) (path_at t) g = Some (Inr (), f')"
    using copy_tree_total [OF okg lg(1) g(4) par' lg(2)] by blast
  have c: "confined t g f' \<and> node_at f' t = Some Dir
      \<and> (\<forall>q. view f' (t @ q) = overlay (\<lambda>q. view g ((base @ [hex]) @ q)) (\<lambda>q. view g (t @ q)) q)"
    using copy_tree_deeper [of k] okg g(4) lg(1) par' run unfolding deeper_ok_def by (metis is_ok.simps(2))
  have src: "view g (base @ hex # q) = view f (base @ hex # q)" for q
    by (rule within_view [OF ok(1) confined_within [OF g(3)]]) (use apart(2) [OF par, of "[]" "hex # q"] in simp)
  have "flatten_layer k env z (path_at t) digest f = Some (Inr (), f')"
    using run layer_dir_at [OF z p] g(1,2) by (simp add: flatten_layer_def Let_def then_counted_def)
  then show ?thesis
    using c g(5) src confined_trans [OF g(3)] by (intro exI [of _ f']) (simp add: lay_def)
qed

text \<open>
  C34. Flattening computes the union, deletions included. Copying layers one after the other into a
  directory ends, succeeds, and leaves there exactly what laying their trees over each other gives:
  a layer first takes away what its record deletes, a removed path with all below it and all
  that is below an opaque directory; then a file, link or folder of its own is seen with its
  contents, a file or link of it hides what was below that name, what it does not have is seen as it
  was, and the store's own files are not copied. Nothing outside the directory changes,
  whatever links the layers hold. The paths of the record are ones \<open>safe_join\<close> takes, none of
  them removes the root itself, and none leads through a link that a layer below it left (the
  next section has what happens then).
\<close>

theorem flatten_is_overlay:
  assumes "components (layers_path z) = path_at base" and "base \<parallel> t"
    and "\<forall>(l, h) \<in> set layers. store_parse_digest l = Inr h \<and> unpacked_layer k base f h"
    and "fs_ok f" and "node_at f t = Some Dir"
    and "deletions_safe (\<lambda>q. view f (t @ q)) (layer_views env z base layers f)"
  shows "\<exists>f'. each_counted (flatten_layer k env z (path_at t)) (map fst layers) f = Some (Inr (), f')
    \<and> (\<forall>q. view f' (t @ q) = foldl lay (\<lambda>q. view f (t @ q)) (layer_views env z base layers f) q)
    \<and> (\<forall>p. \<not> prefix t p \<longrightarrow> view f' p = view f p)"
  using assms(3-6)
proof (induction layers arbitrary: f)
  case Nil
  then show ?case by (simp add: done_counted_def layer_views_def)
next
  case (Cons lh ls)
  obtain l h where lh: "lh = (l, h)" by (cases lh)
  have p: "store_parse_digest l = Inr h" and u: "unpacked_layer k base f h"
    and rest: "\<forall>(l, h) \<in> set ls. store_parse_digest l = Inr h \<and> unpacked_layer k base f h"
    using Cons.prems(1) lh by simp_all
  let ?v = "(whiteouts_of env z l f, \<lambda>q. view f (base @ h # q))"
  have views: "layer_views env z base (lh # ls) f = ?v # layer_views env z base ls f"
    by (simp add: layer_views_def lh)
  obtain g where g: "flatten_layer k env z (path_at t) l f = Some (Inr (), g)" "confined t f g" "node_at g t = Some Dir"
    "\<forall>q. view g (t @ q) = lay (\<lambda>q. view f (t @ q)) ?v q"
    using flatten_layer_lays [OF assms(1) p u Cons.prems(2,3) assms(2), of env] Cons.prems(4) unfolding views by auto
  have now: "(\<lambda>q. view g (t @ q)) = lay (\<lambda>q. view f (t @ q)) ?v"
    using g(4) by blast
  have same: "layer_views env z base ls g = layer_views env z base ls f"
    by (rule layer_views_same [OF assms(1,2) g(2) Cons.prems(2) rest])
  have out: "view g p = view f p" if "\<not> prefix t p" for p
    by (rule within_view [OF Cons.prems(2) confined_within [OF g(2)] that])
  have "fs_ok g" using g(2) by (simp add: confined_def)
  moreover have "\<forall>(l, h) \<in> set ls. store_parse_digest l = Inr h \<and> unpacked_layer k base g h"
    using rest unpacked_layer_same [OF g(2) assms(2)] by auto
  moreover have "deletions_safe (\<lambda>q. view g (t @ q)) (layer_views env z base ls g)"
    using Cons.prems(4) unfolding views now same by simp
  ultimately obtain f' where f': "each_counted (flatten_layer k env z (path_at t)) (map fst ls) g = Some (Inr (), f')"
    "\<forall>q. view f' (t @ q) = foldl lay (\<lambda>q. view g (t @ q)) (layer_views env z base ls g) q"
    "\<forall>p. \<not> prefix t p \<longrightarrow> view f' p = view g p"
    using Cons.IH [OF _ _ g(3)] by blast
  then show ?case
    using g(1) out unfolding views now same by (intro exI [of _ f']) (simp add: counted_do_def lh)
qed

section \<open>Links that are followed\<close>

text \<open>
  C36. The marker is written through a link. When an archive leaves a symbolic link named like the
  completion marker in the layer, finishing the layer empties the file the link leads to, at any
  place of the host, and reports success: extraction is confined and the step after it is not.
\<close>

theorem marker_written_through_link:
  assumes "fs_ok f" and "node_at f d = Some Dir" and "node_at f (d @ [LAYER_DONE]) = Some (Symlink (path_at (h @ [n])))"
    and "node_at f h = Some Dir" and "node_at f (h @ [n]) = Some (Regular i)" and "whiteouts_empty w"
  shows "finish_layer env (path_at d) w f = (Inr (), f\<lparr>fs_data := (fs_data f)(i := [])\<rparr>)"
proof -
  have "place_of True (path_at (d @ [LAYER_DONE])) f = Inr (h @ [n])"
    by (rule place_of_last_link [OF assms(1-4)]) (use assms(5) in simp)
  then show ?thesis
    using assms(5,6) by (simp add: finish_layer_def push_name and_do_def return_ok_def at_path_def fs_write_def at_place_def)
qed

text \<open>
  C35. A hard link reads through a link. An entry that hard-links to a name below a link planted
  earlier passes the check of its target, and what ends up in the layer under its name is the
  host's file, or, where the host refuses the link, a copy of its contents: a layer can take any
  file the user can read.
\<close>

theorem hard_link_reads_host:
  assumes "fs_ok f" and "node_at f d = Some Dir" and "node_at f (d @ [a]) = Some (Symlink (path_at h))"
    and "node_at f h = Some Dir" and "node_at f (h @ [n]) = Some (Regular i)" and "\<not> prefix (d @ [b]) (h @ [n])" and "a \<noteq> b"
    and "CHR 0x00 \<notin> set a" and "CHR 0x00 \<notin> set n"
    and "fs_refuses f (h @ [n]) (d @ [b]) \<in> {None, Some EXDEV, Some EOPNOTSUPP, Some PermissionDenied}"
  shows "safe_join (path_at d) [Normal a, Normal n] = Inr (path_at (d @ [a, n]))
    \<and> (\<exists>f'. link_or_copy (path_at (d @ [a, n])) (path_at (d @ [b])) f = (Inr (), f')
          \<and> view f' (d @ [b]) = Some (Contents (fs_data f i)))"
proof -
  have "safe_join (path_at d) [Normal a, Normal n] = Inr (path_at (d @ [a, n]))"
    using assms(8,9) by (simp add: safe_join_def path_at_snoc)
  moreover have "\<exists>f'. link_or_copy (path_at (d @ [a, n])) (path_at (d @ [b])) f = (Inr (), f')
      \<and> view f' (d @ [b]) = Some (Contents (fs_data f i))"
  proof -
    obtain g where g: "remove_whatever (path_at (d @ [b])) f = (Inr (), g)" "confined (d @ [b]) f g"
      "node_at g (d @ [b]) = None" "fs_data g = fs_data f" "fs_refuses g = fs_refuses f"
      using remove_whatever_at [OF assms(1,2)] by blast
    have same: "node_at g p = node_at f p" if "\<not> prefix (d @ [b]) p" for p
      using g(2) that by (simp add: confined_def within_def)
    have okg: "fs_ok g" "node_at g d = Some Dir" "node_at g (d @ [a]) = Some (Symlink (path_at h))"
      "node_at g h = Some Dir" "node_at g (h @ [n]) = Some (Regular i)"
      using g(2) assms(2-7) by (auto simp: confined_def same)
    have s: "place_of fl (path_at (d @ [a, n])) g = Inr (h @ [n])" for fl
      by (rule place_of_link [OF okg(1-4)]) (simp add: okg(5))
    have s': "place_of False (path_at (d @ [a, n])) f = Inr (h @ [n])"
      by (rule place_of_link [OF assms(1-4)]) (simp add: assms(5))
    show ?thesis
      using assms(5,10) g(1,3-5) okg(5) s s' place_of_at(1) [OF okg(1,2), of b] ops_at(5) [OF okg(1,2) g(3)]
      by (cases "fs_refuses f (h @ [n]) (d @ [b])")
        (auto simp: link_or_copy_def lookup_node_def and_do_def hard_link_def at_place_def at_path_def copy_file_def
          view_def fs_nodes_simps)
  qed
  ultimately show ?thesis by blast
qed

text \<open>
  C37. A whiteout reaches through a link. When an earlier layer has left a link to a directory of
  the host in the flattened root, and flattening copies links as they are, a later layer that
  deletes a name below it deletes that directory of the host, with all that is in it.
\<close>

theorem whiteout_follows_link:
  assumes "fs_ok f" and "node_at f d = Some Dir" and "node_at f (d @ [a]) = Some (Symlink (path_at h))"
    and "node_at f h = Some Dir" and "node_at f (h @ [n]) = Some Dir"
    and "CHR 0x00 \<notin> set a" and "CHR 0x00 \<notin> set n"
  shows "\<exists>f'. apply_removed (path_at d) [Normal a, Normal n] f = (Inr (), f')
    \<and> (\<forall>q. view f' (h @ n # q) = None)"
proof -
  have s: "place_of fl (path_at (d @ [a, n])) f = Inr (h @ [n])" for fl
    by (rule place_of_link [OF assms(1-4)]) (simp add: assms(5))
  have "safe_join (path_at d) [Normal a, Normal n] = Inr (path_at (d @ [a, n]))"
    using assms(6,7) by (simp add: safe_join_def path_at_snoc)
  moreover have "path_is_dir (path_at (d @ [a, n])) f" and "remove_dir_all (path_at (d @ [a, n])) f = (Inr (), drop_tree (h @ [n]) f)"
    using s assms(5) by (simp_all add: path_is_dir_def lookup_node_def remove_dir_all_def at_place_def)
  moreover have "node_at (drop_tree (h @ [n]) f) (h @ n # q) = None" for q
    using node_at_drop_tree [of "h @ [n]" f "h @ n # q"] by simp
  ultimately show ?thesis
    by (simp add: apply_removed_def ignoring_def)
qed

text \<open>A mount point of a file is created through a dangling link in the same way.\<close>

lemma mount_point_follows_link:
  assumes "fs_ok f" and "node_at f (d @ [e]) = Some Dir" and "node_at f (d @ [e, a]) = Some (Symlink (path_at (h @ [n])))"
    and "node_at f h = Some Dir" and "node_at f (h @ [n]) = None"
    and "mount_point_path m = [Normal a]" and "mpt_kind m = File" and "CHR 0x00 \<notin> set a"
  shows "create_mount_point (path_at (d @ [e])) m f = (Inr (), put_file (h @ [n]) [] f)"
proof -
  have up: "node_at f d = Some Dir" by (rule fs_ok_parent [OF assms(1,2)])
  have s: "place_of True (path_at ((d @ [e]) @ [a])) f = Inr (h @ [n])"
    by (rule place_of_last_link [OF assms(1,2) _ assms(4)]) (simp_all add: assms(3,5))
  have j: "safe_join (path_at (d @ [e])) [Normal a] = Inr (path_at ((d @ [e]) @ [a]))"
    using assms(8) by (simp add: safe_join_def path_at_snoc)
  note c = create_dir_all_at(2) [OF assms(1) up assms(2)]
  show ?thesis
    unfolding create_mount_point_def assms(6,7) j
    using s assms(5) parent_of_at [of "d @ [e]" a]
    by (simp add: and_do_def c path_exists_def lookup_node_def at_path_def fs_write_def at_place_def)
qed

section \<open>The marker of a finished layer\<close>

lemma walk_put_file:
  "(\<forall>q. node_at g q = (if q = p then Some (Regular i) else node_at f q)) \<Longrightarrow> node_at f p = None \<Longrightarrow>
    walk f fl k a cs = Inr p \<Longrightarrow> walk g fl k a cs = Inr p"
proof (induction f fl k a cs rule: walk.induct)
  case (5 f fl k a n cs)
  show ?case
  proof (cases "node_at f (a @ [n])")
    case (Some x)
    then have "node_at g (a @ [n]) = Some x" using 5 by auto
    then show ?thesis using 5 Some by (cases x) (auto split: if_splits nat.splits)
  qed (use 5 in \<open>auto split: if_splits\<close>)
qed auto

lemma walk_same: "(\<forall>q. node_at g q = node_at f q) \<Longrightarrow> walk g fl k a cs = walk f fl k a cs"
proof (induction f fl k a cs rule: walk.induct)
  case (5 f fl k a n cs)
  then have "node_at g (a @ [n]) = node_at f (a @ [n])" by simp
  then show ?case using 5 by (auto split: option.splits node.splits nat.splits)
qed auto

lemma written_is_file:
  assumes "fs_write cs d f = (Inr (), f')"
  shows "path_is_file cs f'"
proof -
  obtain p where p: "place_of True cs f = Inr p"
    using assms by (auto simp: fs_write_def at_place_def split: sum.splits)
  show ?thesis
  proof (cases "node_at f p")
    case None
    then have "p \<noteq> []" by auto
    then have n: "\<forall>q. node_at (put_file p d f) q = (if q = p then Some (Regular (fs_next f)) else node_at f q)"
      by (simp add: fs_nodes_simps)
    have "place_of True cs (put_file p d f) = Inr p"
      unfolding place_of_def by (rule walk_put_file [OF n None p [unfolded place_of_def]])
    moreover have "f' = put_file p d f"
      using assms p None by (simp add: fs_write_def at_place_def)
    ultimately show ?thesis
      using n by (simp add: path_is_file_def lookup_node_def)
  next
    case (Some x)
    then obtain i where i: "x = Regular i" "f' = f\<lparr>fs_data := (fs_data f)(i := d)\<rparr>"
      using assms p by (cases x) (auto simp: fs_write_def at_place_def)
    have "\<forall>q. node_at f' q = node_at f q" by (simp add: i(2))
    from walk_same [OF this] have "place_of True cs f' = Inr p"
      using p unfolding place_of_def by simp
    then show ?thesis
      using Some i by (simp add: path_is_file_def lookup_node_def)
  qed
qed

lemma finished_is_marked:
  assumes "finish_layer env d w f = (Inr (), f')"
  shows "path_is_file (push_text d LAYER_DONE) f'"
  using assms written_is_file [of "push_text d LAYER_DONE" "[]"]
  by (auto simp: finish_layer_def and_do_def at_path_def split: prod.splits sum.splits)

lemma unpacked_is_marked:
  assumes "unpack_layer env z digest c f = (Inr d, f')"
  shows "layer_dir z digest = Inr d \<and> has_layer z digest f'"
proof -
  obtain e where e: "layer_dir z digest = Inr e"
    using assms by (auto simp: unpack_layer_def split: sum.splits)
  show ?thesis
  proof (cases "has_layer z digest f")
    case True
    then show ?thesis using assms e by (auto simp: unpack_layer_def)
  next
    case False
    obtain g where g: "(case read_blob z digest g of
        Inl e \<Rightarrow> (Inl e, g)
      | Inr blob \<Rightarrow> (case se_entries env c blob of
          None \<Rightarrow> (Inl (UnpackFailed ''zstd''), g)
        | Some es \<Rightarrow> (case extract_tar (se_unpack env) e es g of
            (Inl x, h) \<Rightarrow> and_do (ignoring (remove_dir_all e)) (\<lambda>_. stop_with x) h
          | (Inr w, h) \<Rightarrow> and_do (finish_layer env e w) (\<lambda>_. return_ok e) h))) = (Inr d, f')"
      using assms e False by (auto simp: unpack_layer_def and_do_Inr)
    obtain blob es where b: "read_blob z digest g = Inr blob" "se_entries env c blob = Some es"
      using g by (cases "read_blob z digest g"; cases "se_entries env c (projr (read_blob z digest g))") auto
    obtain r h where x: "extract_tar (se_unpack env) e es g = (r, h)" by fastforce
    obtain w where w: "r = Inr w"
      using g b x by (cases r) (auto simp: and_do_Inr stop_with_def)
    then have "finish_layer env e w h = (Inr (), f')" and "d = e"
      using g b x by (auto simp: and_do_Inr return_ok_def)
    then show ?thesis
      using finished_is_marked e by (auto simp: has_layer_def)
  qed
qed

section \<open>A host\<close>

text \<open>An archive reader for the witnesses: what an entry holds is in its body.\<close>

datatype entry_body = AFile string | AFolder | ALink path

definition plain_unpack :: "entry_body tar_entry \<Rightarrow> path \<Rightarrow> unit io" where
  "plain_unpack e dest = at_place False dest (\<lambda>p n f.
     (case te_body e of
        AFolder \<Rightarrow> (case n of None \<Rightarrow> (Inr (), put p Dir f) | Some Dir \<Rightarrow> (Inr (), f) | _ \<Rightarrow> (Inl AlreadyExists, f))
      | AFile t \<Rightarrow> (case n of None \<Rightarrow> (Inr (), put_file p t f) | Some Dir \<Rightarrow> (Inl EISDIR, f)
          | _ \<Rightarrow> (Inr (), put_file p t (drop_node p f)))
      | ALink t \<Rightarrow> (case n of None \<Rightarrow> (Inr (), put p (Symlink t) f) | Some Dir \<Rightarrow> (Inl EISDIR, f)
          | _ \<Rightarrow> (Inr (), put p (Symlink t) (drop_node p f)))))"

lemma plain_unpack_contract: "unpack_contract plain_unpack"
  unfolding unpack_contract_def
proof (intro allI impI)
  fix e :: "entry_body tar_entry" and p n f
  assume ok: "fs_ok f" "node_at f p = Some Dir"
  let ?r = "plain_unpack e (path_at (p @ [n])) f" and ?g = "drop_node (p @ [n]) f"
  have g: "fs_ok ?g" "node_at ?g p = Some Dir" "node_at ?g (p @ [n]) = None" "confined (p @ [n]) f ?g"
    if "node_at f (p @ [n]) \<noteq> Some Dir"
    using confined_changes(3) [OF ok that] ok(2) by (simp_all add: confined_def fs_nodes_simps)
  have put_at: "confined (p @ [n]) f (put (p @ [n]) x f)" if "node_at f (p @ [n]) = None" "\<And>i. x \<noteq> Regular i" for x
    by (rule confined_changes(1) [OF ok that(1)]) (use that(2) in simp)
  have put_over: "confined (p @ [n]) f (put (p @ [n]) (Symlink t) ?g)" "confined (p @ [n]) f (put_file (p @ [n]) s ?g)"
    if "node_at f (p @ [n]) \<noteq> Some Dir" for s t
    using confined_trans [OF g(4) confined_changes(1) [OF g(1-3), of "Symlink t"]]
      confined_trans [OF g(4) confined_changes(2) [OF g(1-3)]] that
    by simp_all
  show "confined (p @ [n]) f (snd ?r) \<and> (node_at f (p @ [n]) = Some Dir \<longrightarrow> node_at (snd ?r) (p @ [n]) = Some Dir)"
    using place_of_at(1) [OF ok, of n] confined_refl [OF ok(1)] put_at put_over confined_changes(2) [OF ok]
    by (auto simp: plain_unpack_def at_place_def split: entry_body.splits option.splits node.splits)
qed

definition plain_env :: "entry_body store_env" where
  "plain_env = \<lparr>se_entries = (\<lambda>_ _. Some []), se_unpack = plain_unpack, se_json = (\<lambda>_. []),
     se_parse = (\<lambda>_. None), se_sha256 = (\<lambda>_. [])\<rparr>"

definition link_host :: fs where
  "link_host = \<lparr>fs_nodes = [([''home''], Dir), ([''home'', ''docs''], Dir), ([''home'', ''key''], Regular 0),
      ([''d''], Dir), ([''d'', ''x''], Symlink (path_at [''home''])),
      ([''d'', LAYER_DONE], Symlink (path_at [''home'', ''key'']))],
    fs_data = (\<lambda>_. ''secret''), fs_next = 1, fs_refuses = (\<lambda>_ _. None)\<rparr>"

lemma link_host_ok: "fs_ok link_host"
  by (rule fs_okI) (auto simp: link_host_def node_at_def LAYER_DONE_def split: if_splits)

lemma link_host_nodes:
  "node_at link_host [''d''] = Some Dir" "node_at link_host [''home''] = Some Dir"
  "node_at link_host [''home'', ''docs''] = Some Dir" "node_at link_host [''home'', ''key''] = Some (Regular 0)"
  "node_at link_host [''d'', ''x''] = Some (Symlink (path_at [''home'']))"
  "node_at link_host [''d'', LAYER_DONE] = Some (Symlink (path_at [''home'', ''key'']))"
  by (simp_all add: link_host_def node_at_def LAYER_DONE_def)

text \<open>An entry below the link, and one that climbs out.\<close>

definition hostile_archive :: "(io_error + entry_body tar_entry) list" where
  "hostile_archive = [Inr \<lparr>te_path = Inr ''x/evil'', te_type = OtherEntry, te_link = Inr None, te_body = AFile ''gotcha''\<rparr>]"

lemma archive_stays_inside_witness:
  "\<exists>r f'. extract_tar plain_unpack (path_at [''d'']) hostile_archive link_host = (r, f')
     \<and> (\<forall>p. \<not> prefix [''d''] p \<longrightarrow> view f' p = view link_host p)"
proof -
  obtain r f' where x: "extract_tar plain_unpack (path_at [''d'']) hostile_archive link_host = (r, f')"
    by fastforce
  show ?thesis
    using x archive_stays_inside [OF plain_unpack_contract link_host_ok link_host_nodes(1) _ x] by auto
qed

lemma marker_written_through_link_witness:
  "finish_layer plain_env (path_at [''d'']) no_whiteouts link_host = (Inr (), link_host\<lparr>fs_data := (fs_data link_host)(0 := [])\<rparr>)"
  using marker_written_through_link [OF link_host_ok link_host_nodes(1), of "[''home'']" "''key''" 0 no_whiteouts plain_env]
    link_host_nodes by (simp add: no_whiteouts_def whiteouts_empty_def)

lemma hard_link_reads_host_witness:
  "\<exists>f'. link_or_copy (path_at [''d'', ''x'', ''key'']) (path_at [''d'', ''b'']) link_host = (Inr (), f')
     \<and> view f' [''d'', ''b''] = Some (Contents ''secret'')"
  using hard_link_reads_host [OF link_host_ok link_host_nodes(1), of "''x''" "[''home'']" "''key''" 0 "''b''"]
    link_host_nodes by (simp add: link_host_def)

lemma whiteout_follows_link_witness:
  "\<exists>f'. apply_removed (path_at [''d'']) [Normal ''x'', Normal ''docs''] link_host = (Inr (), f')
     \<and> view f' [''home'', ''docs''] = None"
  using whiteout_follows_link [OF link_host_ok link_host_nodes(1), of "''x''" "[''home'']" "''docs''"]
    link_host_nodes by (auto dest: spec [of _ "[]"])

text \<open>
  A store with two layers. The lower one has a folder with a file, and a file beside it; the upper
  one deletes the file, makes the folder opaque and puts a file of its own into it.
\<close>

definition low_hex :: string where "low_hex = replicate 64 CHR ''a''"
definition high_hex :: string where "high_hex = replicate 64 CHR ''b''"

definition layer_store :: fs where
  "layer_store = \<lparr>fs_nodes = [([''d''], Dir), ([''d'', ''images''], Dir), ([''d'', ''images'', ''layers''], Dir),
      ([''d'', ''images'', ''layers'', low_hex], Dir), ([''d'', ''images'', ''layers'', low_hex, ''f''], Regular 0),
      ([''d'', ''images'', ''layers'', low_hex, ''etc''], Dir), ([''d'', ''images'', ''layers'', low_hex, ''etc'', ''x''], Regular 0),
      ([''d'', ''images'', ''layers'', high_hex], Dir), ([''d'', ''images'', ''layers'', high_hex, WHITEOUT_FILE], Regular 1),
      ([''d'', ''images'', ''layers'', high_hex, ''etc''], Dir), ([''d'', ''images'', ''layers'', high_hex, ''etc'', ''y''], Regular 0),
      ([''flat''], Dir)],
    fs_data = (\<lambda>i. if i = 0 then ''text'' else ''record''), fs_next = 2, fs_refuses = (\<lambda>_ _. None)\<rparr>"

definition deleting_env :: "entry_body store_env" where
  "deleting_env = plain_env\<lparr>se_parse := (\<lambda>_. Some \<lparr>wo_removed = [[Normal ''f'']], wo_opaque = [[CurDir, Normal ''etc'']]\<rparr>)\<rparr>"

lemma demo_hex_differ: "low_hex \<noteq> high_hex"
  by (simp add: low_hex_def high_hex_def numeral_eq_Suc)

lemma layer_store_ok: "fs_ok layer_store"
  using demo_hex_differ by (intro fs_okI) (auto simp: layer_store_def node_at_def WHITEOUT_FILE_def split: if_splits)

lemma demo_hex_ok: "store_parse_digest (''sha256:'' @ low_hex) = Inr low_hex" "store_parse_digest (''sha256:'' @ high_hex) = Inr high_hex"
  by (simp_all add: store_parse_digest_def low_hex_def high_hex_def list_all_iff list_ex_iff is_hex_digit_def is_upper_def)

lemma demo_layers: "unpacked_layer 5 [''d'', ''images'', ''layers''] layer_store low_hex"
    "unpacked_layer 5 [''d'', ''images'', ''layers''] layer_store high_hex"
  by (auto simp: unpacked_layer_def shallower_def layer_store_def node_at_def WHITEOUT_FILE_def split: if_splits)

lemma flatten_is_overlay_witness:
  "\<exists>f'. each_counted (flatten_layer 5 deleting_env (rooted ''/d'') (path_at [''flat'']))
        [''sha256:'' @ low_hex, ''sha256:'' @ high_hex] layer_store = Some (Inr (), f')
     \<and> view f' [''flat'', ''f''] = None \<and> view f' [''flat'', ''etc'', ''x''] = None
     \<and> view f' [''flat'', ''etc'', ''y''] = Some (Contents ''text'')"
proof -
  let ?base = "[''d'', ''images'', ''layers'']"
  let ?ls = "[(''sha256:'' @ low_hex, low_hex), (''sha256:'' @ high_hex, high_hex)]"
  let ?low = "\<lambda>q. view layer_store (?base @ low_hex # q)" and ?high = "\<lambda>q. view layer_store (?base @ high_hex # q)"
  let ?w = "\<lparr>wo_removed = [[Normal ''f'']], wo_opaque = [[CurDir, Normal ''etc'']]\<rparr>"
  have c: "components (layers_path (rooted ''/d'')) = path_at ?base"
    by (simp add: layers_path_def images_path_def rooted_def path_join_def is_absolute_def components_def path_segments_def
        component_of_def path_at_def)
  have wl: "whiteouts_of deleting_env (rooted ''/d'') (''sha256:'' @ low_hex) layer_store = no_whiteouts"
    unfolding whiteouts_read [OF c demo_hex_ok(1) demo_layers(1) layer_store_ok]
    using demo_hex_differ by (simp add: view_def layer_store_def node_at_def WHITEOUT_FILE_def)
  have wh: "whiteouts_of deleting_env (rooted ''/d'') (''sha256:'' @ high_hex) layer_store = ?w"
    unfolding whiteouts_read [OF c demo_hex_ok(2) demo_layers(2) layer_store_ok]
    using demo_hex_differ by (simp add: view_def layer_store_def node_at_def WHITEOUT_FILE_def deleting_env_def)
  have views: "layer_views deleting_env (rooted ''/d'') ?base ?ls layer_store = [(no_whiteouts, ?low), (?w, ?high)]"
    by (simp only: layer_views_def list.map prod.case wl wh)
  have flat: "view layer_store (''flat'' # q) = (if q = [] then Some Folder else None)" for q
    by (simp add: view_def layer_store_def node_at_def)
  note names = names_of_def joins_def List.map_filter_def
  have none: "cover no_whiteouts l = l" for l by (rule ext) (simp add: cover_def no_whiteouts_def)
  have dirs: "overlay ?low (\<lambda>q. view layer_store ([''flat''] @ q)) [] = Some Folder"
    "overlay ?low (\<lambda>q. view layer_store ([''flat''] @ q)) [''etc''] = Some Folder"
    using demo_hex_differ by (simp_all add: overlay_def hide_internal_def is_internal_entry_def LAYER_DONE_def WHITEOUT_FILE_def
        view_def layer_store_def node_at_def)
  have lay1: "lay l (no_whiteouts, u) = overlay u l" for l u by (simp add: lay_def none)
  have s1: "deletes_safely no_whiteouts l" for l by (simp add: deletes_safely_def no_whiteouts_def)
  have s2: "deletes_safely ?w l" if "l [] = Some Folder" "l [''etc''] = Some Folder" for l
    using that by (simp add: deletes_safely_def names no_link_def le_Suc_eq all_conj_distrib)
  have safe: "deletions_safe (\<lambda>q. view layer_store ([''flat''] @ q)) (layer_views deleting_env (rooted ''/d'') ?base ?ls layer_store)"
    unfolding views using s1 s2 [OF dirs] by (simp add: lay1)
  obtain f' where f': "each_counted (flatten_layer 5 deleting_env (rooted ''/d'') (path_at [''flat''])) (map fst ?ls) layer_store
      = Some (Inr (), f')"
    "\<forall>q. view f' ([''flat''] @ q) = foldl lay (\<lambda>q. view layer_store ([''flat''] @ q)) [(no_whiteouts, ?low), (?w, ?high)] q"
    using flatten_is_overlay [OF c, of "[''flat'']" ?ls 5 layer_store deleting_env]
      demo_hex_ok layer_store_ok demo_layers safe unfolding views
    by (auto simp: parallel_def layer_store_def node_at_def)
  have at: "view f' (''flat'' # q) = overlay ?high (cover ?w (overlay ?low (\<lambda>q. view layer_store ([''flat''] @ q)))) q" for q
    using f'(2) [rule_format, of q] by (simp add: lay_def none)
  have "view f' [''flat'', ''f''] = None" "view f' [''flat'', ''etc'', ''x''] = None"
    "view f' [''flat'', ''etc'', ''y''] = Some (Contents ''text'')"
    unfolding at using demo_hex_differ
    by (simp_all add: overlay_def hide_internal_def is_internal_entry_def LAYER_DONE_def WHITEOUT_FILE_def cover_def names
        view_def layer_store_def node_at_def strict_prefix_def)
  with f'(1) show ?thesis by auto
qed

end
