(* ===== verification/Zygo_Images.thy ===== *)
theory Zygo_Images
  imports Zygo_Layers Zygo_Reference Rust_Text
begin

text \<open>
  Manifests and platforms (\<open>crates/zygo-core/src/image/media.rs\<close>), and the blobs and the index of
  the image store (\<open>image/store.rs\<close>): writing a blob under its digest, recording and forgetting
  images, and what can be collected.

  JSON, SHA-256 and the stream a blob comes from are parameters; the lock of the index is taken
  for the whole of a step. The times that \<open>flat_unused_since\<close> compares are not modelled.
\<close>

section \<open>Platforms\<close>

record platform =
  pf_architecture :: string
  pf_os :: string
  pf_variant :: "string option"

record descriptor =
  ds_media_type :: string
  ds_digest :: string
  ds_size :: nat
  ds_platform :: "platform option"

definition host_platform :: "string \<Rightarrow> platform" where
  "host_platform arch =
     \<lparr>pf_architecture =
        (if arch = ''x86_64'' then ''amd64'' else if arch = ''aarch64'' then ''arm64''
         else if arch = ''powerpc64'' then ''ppc64le'' else arch),
      pf_os = ''linux'', pf_variant = None\<rparr>"

definition satisfies :: "platform \<Rightarrow> platform \<Rightarrow> bool" where
  "satisfies p want \<longleftrightarrow>
     (if pf_os p \<noteq> pf_os want \<or> pf_architecture p \<noteq> pf_architecture want then False
      else case (pf_variant p, pf_variant want) of (Some a, Some b) \<Rightarrow> a = b | _ \<Rightarrow> True)"

definition index_select :: "descriptor list \<Rightarrow> platform \<Rightarrow> descriptor option" where
  "index_select ms want =
     find (\<lambda>d. case ds_platform d of None \<Rightarrow> False
            | Some p \<Rightarrow> satisfies p want \<and> pf_architecture p \<noteq> ''unknown'') ms"

definition show_platform :: "platform \<Rightarrow> string" where
  "show_platform p = pf_os p @ ''/'' @ pf_architecture p @ (case pf_variant p of Some v \<Rightarrow> ''/'' @ v | None \<Rightarrow> [])"

definition index_available :: "descriptor list \<Rightarrow> string list" where
  "index_available ms =
     map show_platform (filter (\<lambda>p. pf_architecture p \<noteq> ''unknown'') (List.map_filter ds_platform ms))"

record config_body =
  cb_env :: "string list"
  cb_cmd :: "string list option"
  cb_entrypoint :: "string list option"

definition default_argv :: "config_body \<Rightarrow> string list" where
  "default_argv c =
     (case cb_entrypoint c of Some e \<Rightarrow> e | None \<Rightarrow> []) @ (case cb_cmd c of Some d \<Rightarrow> d | None \<Rightarrow> [])"

fun cut_at_equals :: "string \<Rightarrow> (string \<times> string) option" where
  "cut_at_equals [] = None"
| "cut_at_equals (c # s) = (if c = CHR ''='' then Some ([], s) else map_option (\<lambda>(k, v). (c # k, v)) (cut_at_equals s))"

definition env_pairs :: "config_body \<Rightarrow> (string \<times> string) list" where
  "env_pairs c = List.map_filter cut_at_equals (cb_env c)"

section \<open>Blobs\<close>

text \<open>What the stream gives: pieces, and an error or the end (an empty piece or no more).\<close>

fun write_pieces :: "path \<Rightarrow> (io_error + string) list \<Rightarrow> string \<Rightarrow> string st" where
  "write_pieces tmp [] got f = (Inr got, f)"
| "write_pieces tmp (Inl e # ps) got f = (Inl (IoAt tmp e), f)"
| "write_pieces tmp (Inr p # ps) got f =
     (if p = [] then (Inr got, f)
      else and_do (at_path tmp (fs_write tmp (got @ p))) (\<lambda>_. write_pieces tmp ps (got @ p)) f)"

text \<open>
  The temporary file is removed on every way out but the one that published it. \<open>attempt\<close> is the
  part of its name that no other attempt has.
\<close>

definition blob_tmp :: "zygo_paths \<Rightarrow> string \<Rightarrow> string \<Rightarrow> path" where
  "blob_tmp z hex attempt = push_text (components (tmp_path z)) (''blob-'' @ hex @ ''-'' @ attempt)"

definition receive_blob ::
  "(string \<Rightarrow> string) \<Rightarrow> path \<Rightarrow> path \<Rightarrow> string \<Rightarrow> string \<Rightarrow> (io_error + string) list \<Rightarrow> nat st" where
  "receive_blob sha256 tmp final digest hex pieces =
     and_do (at_path tmp (fs_write tmp []))
       (\<lambda>_. and_do (write_pieces tmp pieces [])
         (\<lambda>got. if sha256 got \<noteq> hex then stop_with (DigestMismatch digest (''sha256:'' @ sha256 got))
                else and_do (at_path final (rename_file tmp final)) (\<lambda>_. return_ok (length got))))"

definition write_blob ::
  "(string \<Rightarrow> string) \<Rightarrow> zygo_paths \<Rightarrow> string \<Rightarrow> string \<Rightarrow> (io_error + string) list \<Rightarrow> nat st" where
  "write_blob sha256 z attempt digest pieces f =
     (case store_parse_digest digest of
        Inl e \<Rightarrow> (Inl e, f)
      | Inr hex \<Rightarrow>
          let blobs = components (blobs_path z); final = push_text blobs hex; tmp = blob_tmp z hex attempt in
          if path_is_file final f
          then (case fs_read final f of Inl e \<Rightarrow> (Inl (IoAt final e), f) | Inr t \<Rightarrow> (Inr (length t), f))
          else and_do (at_path blobs (create_dir_all blobs))
            (\<lambda>_. and_do (at_path (components (tmp_path z)) (create_dir_all (components (tmp_path z))))
              (\<lambda>_ f. case receive_blob sha256 tmp final digest hex pieces f of
                 (Inr n, f') \<Rightarrow> (Inr n, f')
               | (Inl e, f') \<Rightarrow> (Inl e, snd (remove_file tmp f')))) f)"

section \<open>The index\<close>

record image_entry =
  ie_reference :: string
  ie_manifest :: string
  ie_config :: string
  ie_layers :: "string list"
  ie_size :: nat
  ie_pulled_at :: nat
  ie_index :: "string option"
  ie_platform :: "string option"

record index_json =
  ij_parse :: "string \<Rightarrow> image_entry list option"
  ij_print :: "image_entry list \<Rightarrow> string"

definition index_path :: "zygo_paths \<Rightarrow> path" where
  "index_path z = components (image_index_path z)"

text \<open>No file yet and a file that cannot be read are both empty; one that is not JSON is set aside.\<close>

definition read_index :: "index_json \<Rightarrow> zygo_paths \<Rightarrow> fs \<Rightarrow> image_entry list \<times> fs" where
  "read_index j z f =
     (case fs_read (index_path z) f of
        Inl _ \<Rightarrow> ([], f)
      | Inr t \<Rightarrow> (case ij_parse j t of
            Some es \<Rightarrow> (es, f)
          | None \<Rightarrow> ([], snd (rename_file (index_path z) (with_file_name (index_path z) ''index.json.corrupt'') f))))"

definition write_index :: "index_json \<Rightarrow> zygo_paths \<Rightarrow> image_entry list \<Rightarrow> unit st" where
  "write_index j z es =
     (let p = index_path z; tmp = with_file_name p ''index.json.tmp''; images = components (images_path z) in
      and_do (at_path images (create_dir_all images))
        (\<lambda>_. and_do (at_path tmp (fs_write tmp (ij_print j es)))
          (\<lambda>_. at_path p (rename_file tmp p))))"

definition entries_put :: "image_entry \<Rightarrow> image_entry list \<Rightarrow> image_entry list" where
  "entries_put e es = sort_key ie_reference (filter (\<lambda>x. ie_reference x \<noteq> ie_reference e) es @ [e])"

definition put_image :: "index_json \<Rightarrow> zygo_paths \<Rightarrow> image_entry \<Rightarrow> unit st" where
  "put_image j z e f = (case read_index j z f of (es, f') \<Rightarrow> write_index j z (entries_put e es) f')"

text \<open>An image and what is derived from it: \<open><reference>+\<dots>\<close>.\<close>

definition goes_with :: "string \<Rightarrow> image_entry \<Rightarrow> bool" where
  "goes_with key e \<longleftrightarrow> ie_reference e = key \<or> prefix (key @ ''+'') (ie_reference e)"

definition remove_image :: "index_json \<Rightarrow> zygo_paths \<Rightarrow> reference \<Rightarrow> image_entry list st" where
  "remove_image j z r f =
     (case read_index j z f of (es, f') \<Rightarrow>
        let key = show_reference r; (removed, kept) = partition (goes_with key) es in
        if removed = [] then (Inr [], f')
        else and_do (write_index j z kept) (\<lambda>_. return_ok (sort_key (\<lambda>e. ie_reference e \<noteq> key) removed)) f')"

definition get_image :: "index_json \<Rightarrow> zygo_paths \<Rightarrow> reference \<Rightarrow> fs \<Rightarrow> image_entry option \<times> fs" where
  "get_image j z r f =
     (case read_index j z f of (es, f') \<Rightarrow> (find (\<lambda>e. ie_reference e = show_reference r) es, f'))"

section \<open>What can be collected\<close>

definition unreferenced_layers :: "index_json \<Rightarrow> zygo_paths \<Rightarrow> string list st" where
  "unreferenced_layers j z f =
     (case read_index j z f of (es, f') \<Rightarrow>
        let referenced = concat (map ie_layers es); dir = components (layers_path z) in
        if \<not> path_is_dir dir f' then (Inr [], f')
        else (case read_dir dir f' of
            Inl e \<Rightarrow> (Inl (IoAt dir e), f')
          | Inr names \<Rightarrow> (Inr (sort (filter (\<lambda>d. d \<notin> set referenced)
                (map (\<lambda>n. ''sha256:'' @ n) (filter is_utf8 names)))), f')))"

fun droppable_from :: "zygo_paths \<Rightarrow> fs \<Rightarrow> string list \<Rightarrow> string list \<Rightarrow> (string \<times> path) list" where
  "droppable_from z f seen [] = []"
| "droppable_from z f seen (d # ds) =
     (if d \<in> set seen \<or> \<not> has_layer z d f then droppable_from z f (d # seen) ds
      else case blob_path z d of
        Inr p \<Rightarrow> if path_is_file p f then (d, p) # droppable_from z f (d # seen) ds else droppable_from z f (d # seen) ds
      | Inl _ \<Rightarrow> droppable_from z f (d # seen) ds)"

definition droppable_blobs :: "index_json \<Rightarrow> zygo_paths \<Rightarrow> fs \<Rightarrow> (string \<times> path) list \<times> fs" where
  "droppable_blobs j z f =
     (case read_index j z f of (es, f') \<Rightarrow>
        (sort_key fst (droppable_from z f' [] (concat (map ie_layers es))), f'))"

text \<open>A flattened root is live when the layers in its marker are all referenced, and there are some.\<close>

definition flat_live :: "string list \<Rightarrow> string \<Rightarrow> bool" where
  "flat_live referenced text =
     (let built_from = filter (\<lambda>l. trim l \<noteq> []) (lines text)
      in built_from \<noteq> [] \<and> list_all (\<lambda>d. d \<in> set referenced) built_from)"

definition unreferenced_flat :: "index_json \<Rightarrow> zygo_paths \<Rightarrow> path list st" where
  "unreferenced_flat j z f =
     (case read_index j z f of (es, f') \<Rightarrow>
        let referenced = concat (map ie_layers es); dir = components (flat_cache_path z) in
        if \<not> path_is_dir dir f' then (Inr [], f')
        else (case read_dir dir f' of
            Inl e \<Rightarrow> (Inl (IoAt dir e), f')
          | Inr names \<Rightarrow> (Inr (sort (filter (\<lambda>p. path_is_dir p f' \<and>
                \<not> flat_live referenced (case fs_read (push_text p LAYER_DONE) f' of Inr t \<Rightarrow> if is_utf8 t then t else [] | Inl _ \<Rightarrow> []))
                (map (\<lambda>n. dir @ [Normal n]) names))), f')))"

end
