(* ===== verification/Zygo_Images_Laws.thy ===== *)
theory Zygo_Images_Laws
  imports Zygo_Images Rust_Fs_Laws
begin

text \<open>
  A blob under a digest has that digest, the index keeps what is put into it, and the choice of
  a manifest and of what to collect.
\<close>

section \<open>Writing and renaming below a real directory\<close>

lemma fs_write_over:
  assumes "fs_ok f" and "node_at f p = Some Dir" and "node_at f (p @ [n]) = Some (Regular i)"
  shows "fs_write (path_at (p @ [n])) d f = (Inr (), f\<lparr>fs_data := (fs_data f)(i := d)\<rparr>)"
  using place_of_at(2) [OF assms(1,2), of n] assms(3) by (simp add: fs_write_def at_place_def)

lemma fs_read_at:
  assumes "fs_ok f" and "node_at f p = Some Dir" and "node_at f (p @ [n]) = Some (Regular i)"
  shows "fs_read (path_at (p @ [n])) f = Inr (fs_data f i)"
  using lookup_follow_at [OF assms(1,2), of n] assms(3) by (simp add: fs_read_def)

lemma rename_at:
  assumes "fs_ok f" and "node_at f p = Some Dir" and "node_at f (p @ [n]) = Some (Regular i)"
    and "node_at f q = Some Dir" and "node_at f (q @ [m]) \<noteq> Some Dir" and "p @ [n] \<noteq> q @ [m]"
  shows "rename_file (path_at (p @ [n])) (path_at (q @ [m])) f =
    (Inr (), put (q @ [m]) (Regular i) (drop_node (p @ [n]) f))"
  using place_of_at(1) [OF assms(1,2), of n] place_of_at(1) [OF assms(1,4), of m] assms(3,5,6)
  by (auto simp: rename_file_def at_place_def split: option.splits node.splits)

lemma write_pieces_at:
  assumes "fs_ok f" and "node_at f p = Some Dir" and "node_at f (p @ [n]) = Some (Regular i)" and "fs_data f i = got"
    and "write_pieces (path_at (p @ [n])) ps got f = (r, f')"
  shows "\<exists>t. f' = f\<lparr>fs_data := (fs_data f)(i := t)\<rparr> \<and> (\<forall>g. r = Inr g \<longrightarrow> t = g)"
  using assms
proof (induction "path_at (p @ [n])" ps got f rule: write_pieces.induct)
  case (3 s ps got f)
  show ?case
  proof (cases "s = []")
    case True
    then show ?thesis using 3 by (auto intro: exI [of _ got])
  next
    case False
    let ?g = "f\<lparr>fs_data := (fs_data f)(i := got @ s)\<rparr>"
    have run: "write_pieces (path_at (p @ [n])) ps (got @ s) ?g = (r, f')"
      using 3(6) False fs_write_over [OF 3(2-4)] by (simp add: and_do_def at_path_def)
    have "\<exists>t. f' = ?g\<lparr>fs_data := (fs_data ?g)(i := t)\<rparr> \<and> (\<forall>g. r = Inr g \<longrightarrow> t = g)"
      by (rule 3(1) [OF False _ _ _ _ run]) (use 3(2-4) in simp_all)
    then show ?thesis by auto
  qed
next
  case (2 e ps got f)
  then show ?case by (intro exI [of _ got]) auto
qed (auto intro: exI [of _ "fs_data f i"])

section \<open>Blobs\<close>

text \<open>
  C38. A blob is what it is called. Receiving a blob that is not there either puts under its
  digest contents with exactly that digest and reports their length, or fails and puts nothing
  there, whatever the stream gives and wherever it breaks. The temporary file is gone either way
  and nothing else has changed.
\<close>

theorem blob_is_what_it_is_called:
  assumes "fs_ok f" and "store_parse_digest digest = Inr hex"
    and "components (blobs_path z) = path_at (b @ [b'])" and "components (tmp_path z) = path_at (t @ [t'])"
    and "blob_path z digest = Inr (path_at (b @ [b', hex]))" and "blob_tmp z hex attempt = path_at (t @ [t', m])"
    and "node_at f (b @ [b']) = Some Dir" and "node_at f (t @ [t']) = Some Dir"
    and "node_at f (b @ [b', hex]) = None" and "node_at f (t @ [t', m]) = None" and "b @ [b', hex] \<noteq> t @ [t', m]"
    and "write_blob sha256 z attempt digest pieces f = (r, f')"
  shows "(case r of Inr n \<Rightarrow> \<exists>got. sha256 got = hex \<and> n = length got \<and> view f' (b @ [b', hex]) = Some (Contents got)
      | Inl e \<Rightarrow> view f' (b @ [b', hex]) = None)
    \<and> view f' (t @ [t', m]) = None \<and> (\<forall>p. p \<noteq> b @ [b', hex] \<and> p \<noteq> t @ [t', m] \<longrightarrow> view f' p = view f p)"
proof -
  let ?tmp = "(t @ [t']) @ [m]" and ?fin = "(b @ [b']) @ [hex]"
  let ?f0 = "put_file ?tmp [] f"
  have up: "node_at f b = Some Dir" "node_at f t = Some Dir"
    using fs_ok_parent [OF assms(1)] assms(7,8) by blast+
  have f0: "fs_ok ?f0" "node_at ?f0 (t @ [t']) = Some Dir" "node_at ?f0 ?tmp = Some (Regular (fs_next f))"
    "fs_data ?f0 (fs_next f) = []"
    using assms(1,8,10) fs_ok_put_file [of f "t @ [t']" m] by (simp_all add: fs_nodes_simps)
  obtain s g where s: "write_pieces (path_at ?tmp) pieces [] ?f0 = (s, g)" by fastforce
  obtain x where x: "g = ?f0\<lparr>fs_data := (fs_data ?f0)(fs_next f := x)\<rparr>" "\<And>y. s = Inr y \<Longrightarrow> x = y"
    using write_pieces_at [OF f0 s] by blast
  have g: "fs_ok g" "node_at g (t @ [t']) = Some Dir" "node_at g ?tmp = Some (Regular (fs_next f))"
    "node_at g (b @ [b']) = Some Dir" "node_at g ?fin = None"
    using f0 x(1) assms(7,9,10,11) by (auto simp: fs_nodes_simps)
  have old: "node_at f p = Some (Regular i) \<Longrightarrow> i \<noteq> fs_next f" for p i
    using fs_ok_number [OF assms(1)] by blast
  have v: "view (drop_node ?tmp g) p = (if p = ?tmp then None else view f p)"
    "view (put ?fin (Regular (fs_next f)) (drop_node ?tmp g)) p =
      (if p = ?fin then Some (Contents x) else if p = ?tmp then None else view f p)" for p
    using old [of p] assms(11) unfolding x(1)
    by (cases "node_at f p"; cases "the (node_at f p)"; auto simp: view_def fs_nodes_simps)+
  have fin: "push_text (path_at (b @ [b'])) hex = path_at ?fin"
    using assms(2,3,5) by (simp add: blob_path_def)
  have nofile: "\<not> path_is_file (path_at ?fin) f"
    using lookup_follow_at [OF assms(1,7), of hex] assms(9) by (simp add: path_is_file_def)
  let ?rec = "receive_blob sha256 (path_at ?tmp) (path_at ?fin) digest hex pieces f"
  have wb: "write_blob sha256 z attempt digest pieces f =
      (case ?rec of (Inr n, f') \<Rightarrow> (Inr n, f') | (Inl e, f') \<Rightarrow> (Inl e, snd (remove_file (path_at ?tmp) f')))"
    using nofile create_dir_all_at(2) [OF assms(1) up(1) assms(7)] create_dir_all_at(2) [OF assms(1) up(2) assms(8)] fin
    unfolding append_assoc append.simps
    by (simp add: write_blob_def assms(2-4,6) Let_def and_do_def at_path_def)
  have start: "fs_write (path_at ?tmp) [] f = (Inr (), ?f0)"
    using ops_at(5) [OF assms(1,8)] assms(10) by simp
  have rm: "remove_file (path_at ?tmp) g = (Inr (), drop_node ?tmp g)"
    using ops_at(3) [OF g(1,2), of m] g(3) by simp
  show ?thesis
  proof (cases "\<exists>got. s = Inr got \<and> sha256 got = hex")
    case True
    then obtain got where got: "s = Inr got" "sha256 got = hex" by blast
    have "rename_file (path_at ?tmp) (path_at ?fin) g = (Inr (), put ?fin (Regular (fs_next f)) (drop_node ?tmp g))"
      by (rule rename_at [OF g(1-4)]) (use g(5) assms(11) in auto)
    then have "(r, f') = (Inr (length got), put ?fin (Regular (fs_next f)) (drop_node ?tmp g))"
      using assms(12) wb start s got by (simp add: receive_blob_def and_do_def at_path_def return_ok_def)
    then show ?thesis
      using v(2) got x(2) assms(11) by auto
  next
    case False
    then have "\<exists>e. ?rec = (Inl e, g)"
      using start s by (cases s) (auto simp: receive_blob_def and_do_def at_path_def stop_with_def)
    then obtain e where "(r, f') = (Inl e, drop_node ?tmp g)"
      using assms(12) wb rm by auto
    then show ?thesis
      using v(1) assms(9,11) by simp
  qed
qed

section \<open>The index\<close>

lemma find_sort_key:
  fixes key :: "'a \<Rightarrow> 'k :: linorder"
  shows "find (\<lambda>x. key x = k) (sort_key key xs) = find (\<lambda>x. key x = k) xs"
proof -
  have f: "find P ys = (case filter P ys of [] \<Rightarrow> None | y # _ \<Rightarrow> Some y)" for P and ys :: "'a list"
    by (induction ys) auto
  show ?thesis by (simp add: f sort_key_stable)
qed

lemma entries_put_find:
  "find (\<lambda>x. ie_reference x = k) (entries_put e es) =
    (if k = ie_reference e then Some e else find (\<lambda>x. ie_reference x = k) es)"
proof -
  have "find (\<lambda>x. ie_reference x = k) (filter (\<lambda>x. ie_reference x \<noteq> ie_reference e) es @ [e]) =
      (if k = ie_reference e then Some e else find (\<lambda>x. ie_reference x = k) es)"
    by (induction es) auto
  then show ?thesis by (simp add: entries_put_def find_sort_key)
qed

lemma entries_put_sorted: "sorted (map ie_reference (entries_put e es))"
  by (simp add: entries_put_def)

lemma entries_put_distinct: "distinct (map ie_reference es) \<Longrightarrow> distinct (map ie_reference (entries_put e es))"
proof -
  assume "distinct (map ie_reference es)"
  then have "distinct (map ie_reference (filter (\<lambda>x. ie_reference x \<noteq> ie_reference e) es @ [e]))"
    by (simp add: distinct_map_filter image_iff) auto
  then show ?thesis
    unfolding entries_put_def by (metis distinct_map distinct_sort set_sort)
qed

text \<open>Where the index is, as the roots of the store place it.\<close>

definition index_at :: "zygo_paths \<Rightarrow> place \<Rightarrow> bool" where
  "index_at z im \<longleftrightarrow> im \<noteq> [] \<and> components (images_path z) = path_at im \<and> index_path z = path_at (im @ [''index.json''])"

lemma index_names:
  "with_file_name (path_at (im @ [''index.json''])) ''index.json.tmp'' = path_at (im @ [''index.json.tmp''])"
  by (simp add: with_file_name_def file_name_of_def push_text_def path_at_def is_absolute_def path_segments_def component_of_def
      butlast_append)

lemma write_index_at:
  assumes "index_at z im" and "fs_ok f" and "node_at f im = Some Dir"
    and "\<And>n. n \<in> {''index.json'', ''index.json.tmp''} \<Longrightarrow> node_at f (im @ [n]) = None \<or> (\<exists>i. node_at f (im @ [n]) = Some (Regular i))"
  shows "\<exists>f'. write_index j z es f = (Inr (), f') \<and> fs_read (index_path z) f' = Inr (ij_print j es)
    \<and> (\<forall>p. p \<noteq> im @ [''index.json''] \<longrightarrow> p \<noteq> im @ [''index.json.tmp''] \<longrightarrow> node_at f' p = node_at f p)"
proof -
  let ?tmp = "im @ [''index.json.tmp'']" and ?p = "im @ [''index.json'']"
  have z: "im \<noteq> []" "components (images_path z) = path_at im" "index_path z = path_at ?p"
    using assms(1) by (simp_all add: index_at_def)
  obtain up n where im: "im = up @ [n]" using z(1) by (cases im rule: rev_cases) auto
  have mk: "create_dir_all (path_at im) f = (Inr (), f)"
    using create_dir_all_at(2) [OF assms(2), of up n] fs_ok_parent [OF assms(2), of up n] assms(3) im by simp
  have "\<exists>g i. fs_write (path_at ?tmp) (ij_print j es) f = (Inr (), g) \<and> fs_ok g \<and> node_at g ?tmp = Some (Regular i)
      \<and> fs_data g i = ij_print j es \<and> (\<forall>p. p \<noteq> ?tmp \<longrightarrow> node_at g p = node_at f p)"
  proof (cases "node_at f ?tmp")
    case None
    then show ?thesis
      using ops_at(5) [OF assms(2,3) None] fs_ok_put_file [OF assms(2,3) None] by (simp add: fs_nodes_simps)
  next
    case (Some x)
    then obtain i where "node_at f ?tmp = Some (Regular i)" using assms(4) [of "''index.json.tmp''"] by auto
    then show ?thesis using fs_write_over [OF assms(2,3)] assms(2) by simp
  qed
  then obtain g i where g: "fs_write (path_at ?tmp) (ij_print j es) f = (Inr (), g)" "fs_ok g" "node_at g ?tmp = Some (Regular i)"
    "fs_data g i = ij_print j es" "\<forall>p. p \<noteq> ?tmp \<longrightarrow> node_at g p = node_at f p" by blast
  have gim: "node_at g im = Some Dir" and gp: "node_at g ?p \<noteq> Some Dir"
    using g(5) assms(3) assms(4) [of "''index.json''"] by auto
  let ?h = "put ?p (Regular i) (drop_node ?tmp g)"
  have mv: "rename_file (path_at ?tmp) (path_at ?p) g = (Inr (), ?h)"
    by (rule rename_at [OF g(2) gim g(3) gim gp]) simp
  have s: "walk ?h True MAX_LINKS [] (path_at ?p) = Inr ?p"
  proof -
    have d: "fs_ok (drop_node ?tmp g)" "node_at (drop_node ?tmp g) im = Some Dir"
      using fs_ok_drop_node [OF g(2)] g(3) gim by (simp_all add: fs_nodes_simps)
    have "fs_ok (put ?p (Regular i) (drop_node ?p (drop_node ?tmp g)))"
      using fs_ok_drop_node [OF d(1), of ?p] gp d(2) fs_ok_number [OF g(2,3)]
      by (intro fs_ok_put) (auto simp: fs_nodes_simps)
    moreover have "put ?p (Regular i) (drop_node ?p (drop_node ?tmp g)) = ?h"
      by (simp add: put_def drop_node_def)
    ultimately have "fs_ok ?h" "node_at ?h im = Some Dir" by (simp_all add: fs_nodes_simps gim)
    then show ?thesis using walk_from_root [of ?h im "''index.json''"] by (simp add: fs_nodes_simps)
  qed
  have "fs_read (path_at ?p) ?h = Inr (ij_print j es)"
    using s g(4) by (simp add: fs_read_def lookup_node_def place_of_def fs_nodes_simps)
  then show ?thesis
    using g(1,5) mv mk
    by (intro exI [of _ ?h]) (simp add: write_index_def z(2,3) index_names Let_def and_do_def at_path_def fs_nodes_simps)
qed


section \<open>A store\<close>

definition blank_store :: fs where
  "blank_store = \<lparr>fs_nodes = [([''d''], Dir), ([''d'', ''tmp''], Dir), ([''d'', ''images''], Dir),
      ([''d'', ''images'', ''blobs''], Dir), ([''d'', ''images'', ''blobs'', ''sha256''], Dir)],
    fs_data = (\<lambda>_. []), fs_next = 0, fs_refuses = (\<lambda>_ _. None)\<rparr>"

definition some_hex :: string where "some_hex = replicate 64 CHR ''b''"

lemma blank_store_ok: "fs_ok blank_store"
  by (rule fs_okI) (auto simp: blank_store_def node_at_def split: if_splits)

lemma store_places:
  "components (blobs_path (rooted ''/d'')) = path_at ([''d'', ''images'', ''blobs''] @ [''sha256''])"
  "components (tmp_path (rooted ''/d'')) = path_at ([''d''] @ [''tmp''])"
  "index_at (rooted ''/d'') [''d'', ''images'']"
  by (simp_all add: index_at_def index_path_def image_index_path_def blobs_path_def tmp_path_def images_path_def rooted_def
      path_join_def is_absolute_def components_def path_segments_def component_of_def path_at_def)

lemma some_hex_ok: "store_parse_digest (''sha256:'' @ some_hex) = Inr some_hex"
  by (simp add: store_parse_digest_def some_hex_def list_all_iff list_ex_iff is_hex_digit_def is_upper_def)

lemma some_hex_name: "path_segments some_hex = [some_hex]" "component_of some_hex = Normal some_hex" "\<not> is_absolute some_hex"
  by (simp_all add: some_hex_def path_segments_def component_of_def is_absolute_def eval_nat_numeral)

lemma blob_places:
  "blob_path (rooted ''/d'') (''sha256:'' @ some_hex) = Inr (path_at ([''d'', ''images'', ''blobs''] @ [''sha256'', some_hex]))"
  using some_hex_ok store_places(1) by (simp add: blob_path_def push_text_def some_hex_name) (simp add: path_at_def)

lemma blob_tmp_place:
  "blob_tmp (rooted ''/d'') some_hex ''7-0'' = path_at ([''d''] @ [''tmp'', ''blob-'' @ some_hex @ ''-7-0''])"
  using store_places(2) by (simp add: blob_tmp_def push_text_def)
    (simp add: path_at_def some_hex_def path_segments_def component_of_def is_absolute_def eval_nat_numeral)

lemma blob_is_what_it_is_called_witness:
  "\<exists>r f'. write_blob (\<lambda>_. some_hex) (rooted ''/d'') ''7-0'' (''sha256:'' @ some_hex) [Inr ''ab'', Inl (OtherError 104)] blank_store = (r, f')
     \<and> view f' [''d'', ''tmp'', ''blob-'' @ some_hex @ ''-7-0''] = None"
proof -
  obtain r f' where x: "write_blob (\<lambda>_. some_hex) (rooted ''/d'') ''7-0'' (''sha256:'' @ some_hex) [Inr ''ab'', Inl (OtherError 104)] blank_store
      = (r, f')" by fastforce
  show ?thesis
    using blob_is_what_it_is_called [OF blank_store_ok some_hex_ok store_places(1,2) blob_places blob_tmp_place _ _ _ _ _ x] x
    by (auto simp: blank_store_def node_at_def)
qed

definition busybox_entry :: image_entry where
  "busybox_entry = \<lparr>ie_reference = ''busybox:1'', ie_manifest = ''m'', ie_config = ''c'', ie_layers = [], ie_size = 0,
     ie_pulled_at = 0, ie_index = None, ie_platform = None\<rparr>"

definition one_index :: index_json where
  "one_index = \<lparr>ij_parse = (\<lambda>t. if t = ''x'' then Some [busybox_entry] else None), ij_print = (\<lambda>_. ''x'')\<rparr>"


end
