(* ===== verification/Spec2Isabelle.thy ===== *)
theory Spec2Isabelle
  imports Zygo_Frame Zygo_Gate Zygo_Policy Zygo_Types Zygo_Net Zygo_Dns Zygo_Idmap Zygo_Reference Zygo_Landlock
    Zygo_Suggest Zygo_Cgroup_Laws Zygo_Tenancy_Laws Zygo_Registry_Properties Zygo_Launcher
    Zygo_Layers_Properties Zygo_Images_Laws
begin

text \<open>
  A model of zygo, a sandbox runtime in Rust: it resolves a function's specification into limits
  and security rules, assembles a Linux sandbox from namespaces, mounts, cgroups, seccomp and
  Landlock filters and a filtered network, keeps warm zygote processes that requests are forked
  from, and serves several tenants whose tokens, secrets and scripts it stores. The model is a
  shallow embedding of the library crate \<open>crates/zygo-core\<close> and of the authorisation of the HTTP
  API in \<open>crates/zygo-cli\<close>. Paths below are relative to \<open>crates/zygo-core/src\<close> unless they start
  with \<open>crates\<close>.

  \<^bold>\<open>How the program's parts work together.\<close> A specification (\<open>spec/\<close>) is layered, merged and
  resolved into a function in which every limit is decided. From that function come a mount plan
  (\<open>sandbox/mount.rs\<close>), a limit set (\<open>sandbox/limits.rs\<close>), a seccomp program
  (\<open>backend/ns/seccomp.rs\<close>), Landlock rules (\<open>backend/ns/landlock.rs\<close>), id maps
  (\<open>backend/ns/idmap.rs\<close>) and, under egress, an nftables chain (\<open>net/mod.rs\<close>) with a resolver
  (\<open>net/dns.rs\<close>) that fills the chain's sets. The supervisor keeps runtime pools of zygotes
  (\<open>supervisor/runtime.rs\<close>), each behind an admission gate (\<open>supervisor/gate.rs\<close>), speaks framed
  JSON with their agents (\<open>protocol/frame.rs\<close>), places every request in a cgroup of its own
  (\<open>cgroup.rs\<close>), and looks up who a request acts for (\<open>tokens.rs\<close>), what that tenant may use
  (\<open>tenants.rs\<close>, \<open>secrets.rs\<close>, \<open>scripts.rs\<close>) before it reaches a zygote. The root file system
  a sandbox mounts is put together from the layers of an image (\<open>image/store.rs\<close>).

  \<^bold>\<open>The standard library.\<close> What the source uses of Rust's standard library is in theories of its
  own: \<open>Rust_Strings\<close> (byte strings, splitting, trimming), \<open>Rust_Nums\<close> (decimal text,
  big- and little-endian bytes), \<open>Rust_Utf8\<close>, \<open>Rust_Text\<close> (lines and words), \<open>Rust_Paths\<close>
  (components, joining, prefixes), \<open>Rust_Net\<close> (IP addresses and their text) and \<open>Rust_Io\<close>
  (errors, early return and loops over a state). \<open>Rust_Fs\<close> is \<open>std::fs\<close> over a Linux file system
  whose links are followed where Linux follows them, and \<open>Rust_Fs_Laws\<close> what its operations do
  below a directory reached without links. \<open>Zygo_Prelude\<close> holds the result type, the fact
  collections and the interface of types that are parsed and printed.

  \<^bold>\<open>Specification.\<close>
  \<^item> \<open>Zygo_Types\<close> is \<open>spec/types.rs\<close>: enumerations, runtimes, mounts, address blocks, allow
    rules. Its lemmas are round trips through the text and the well-formedness of what is parsed.
  \<^item> \<open>Zygo_Resolve\<close> is \<open>spec/resolve.rs\<close> with the layers of \<open>spec/mod.rs\<close>; a refusal is a
    constructor, an \<open>expect\<close> that would fail is \<open>Panic\<close>. \<open>Zygo_Resolved\<close> shows that no entry
    point panics, that what is resolved obeys the security rules and that its mounts are visible
    in the mount plan. \<open>Zygo_Suggest\<close> has the diagnostics (edit distance, position of a key).

  \<^bold>\<open>Sandbox.\<close>
  \<^item> \<open>Zygo_Mount\<close> is \<open>sandbox/mount.rs\<close>. The meaning of a plan is what a path shows after the
    operations ran in order; the lemmas show what is writable and that hardening survives.
  \<^item> \<open>Zygo_Limits\<close> is \<open>sandbox/limits.rs\<close>, the files a limit set writes and their effect.
  \<^item> \<open>Zygo_Syscalls\<close> is \<open>backend/ns/syscalls.rs\<close>, both tables entry by entry.
    \<open>Zygo_Seccomp\<close> is \<open>backend/ns/seccomp.rs\<close>: the assembler with its 8-bit distances and
    islands, and every program built with it. The meaning of a program is the classic-BPF
    interpreter the module's own tests use; the assembler is proved correct for every program it
    accepts and the generator to refine the policy. \<open>Zygo_Policy\<close> evaluates the profiles on
    both architectures.
  \<^item> \<open>Zygo_Landlock\<close> is \<open>backend/ns/landlock.rs\<close>: rules from a mount plan, their meaning, and
    the system calls that apply them.
  \<^item> \<open>Zygo_Idmap\<close> is \<open>backend/ns/idmap.rs\<close>, with 32-bit ids whose sums wrap.
  \<^item> \<open>Zygo_Net\<close> is the policy half of \<open>net/mod.rs\<close>: the chain as rules and as text, the verdict on
    a packet, admission of addresses. \<open>Zygo_Dns\<close> is \<open>net/dns.rs\<close>. The last section of this
    theory puts the two together: what the resolver answers, the filter lets through.
  \<^item> \<open>Zygo_Reference\<close> is \<open>image/reference.rs\<close>. \<open>Zygo_Layers\<close> is the half of \<open>image/store.rs\<close> that
    unpacks, flattens and presents layers; \<open>Zygo_Layers_Laws\<close> shows that extraction stays in
    its directory, \<open>Zygo_Flatten\<close> that copying computes the overlay of two trees and that whiteouts
    take away what they name, and \<open>Zygo_Layers_Properties\<close> both for whole archives and stacks of
    layers, with the places where a
    layer reaches the host through a link. \<open>Zygo_Images\<close> is the other half, blobs, the index and
    what can be collected, with \<open>image/media.rs\<close>; \<open>Zygo_Images_Laws\<close> shows that a blob is what
    its digest says and that the index keeps what is put into it.
  \<^item> \<open>Zygo_Cgroup\<close> is \<open>cgroup.rs\<close> over a file system that is a parameter; \<open>Zygo_Cgroup_Laws\<close>
    shows that paths stay in their subtree, that a request is bounded by exactly its memory and
    that the walks over the tree end.

  \<^bold>\<open>Supervisor.\<close>
  \<^item> \<open>Zygo_Frame\<close> is \<open>protocol/frame.rs\<close> over every way a transport can cut the bytes.
  \<^item> \<open>Zygo_Gate\<close> is \<open>supervisor/gate.rs\<close> as a step relation of any number of threads: capacity and
    no lost wake-up are invariants of every reachable state.
  \<^item> \<open>Zygo_Runtime\<close> is the concurrent part of \<open>supervisor/runtime.rs\<close>: choosing, claiming and
    leaving a zygote, growing, pruning, the idle policy. \<open>Zygo_Runtime_Laws\<close> shows what every
    interleaving keeps and gives the schedules under which a zygote is shared beside secrets and
    a pool outgrows its maximum.
  \<^item> \<open>Zygo_Registry\<close> is \<open>supervisor/registry.rs\<close>, the recovery and idle policy of
    \<open>supervisor/lifecycle.rs\<close> and the request path of \<open>supervisor/exec.rs\<close>: a command or a
    request is a thread that makes one step per lock it takes, and entries are shared by
    number as the code shares them by \<open>Arc\<close>. \<open>Zygo_Registry_Laws\<close> has the invariants (names and
    secrets, open gates, each entry's gate as a run of the gate's own relation),
    \<open>Zygo_Registry_Properties\<close> what follows from them and the schedules under which a stop
    is undone and a request runs below a freezer that is set.
  \<^item> \<open>Zygo_Launcher\<close> is the launcher thread of \<open>supervisor/lifecycle.rs\<close>, its queue and the
    hand-off of a job, which has exactly one winner.
  \<^item> \<open>Zygo_Paths\<close> is the places of \<open>paths.rs\<close>. \<open>Zygo_Store\<close> has what the stores under the data
    root share: the file system contract, replacing a file whole, and the interface of a store
    with one record per key. \<open>Zygo_Memfs\<close> is a file system that meets the contract.
  \<^item> \<open>Zygo_Tenants\<close>, \<open>Zygo_Tokens\<close>, \<open>Zygo_Secrets\<close> and \<open>Zygo_Scripts\<close> are \<open>tenants.rs\<close>,
    \<open>tokens.rs\<close> with \<open>crates/zygo-cli/src/cmd/api/auth.rs\<close>, \<open>secrets.rs\<close>, and \<open>scripts.rs\<close> with
    \<open>supervisor/stores.rs\<close>; each has a theory of laws beside it.
  \<^item> \<open>Zygo_Tenancy\<close> is \<open>supervisor/tenants.rs\<close> over the four stores and what
    \<open>supervisor/runtime.rs\<close> does to a request before it reaches a zygote. \<open>Zygo_Tenancy_Laws\<close>
    shows that the stores keep apart, what deleting a tenant leaves and what a request is given.

  \<^bold>\<open>Interfaces.\<close> The locale \<open>parse_print\<close> (a printed value parses back) is interpreted on the image
  reference, mounts, address blocks and the five string enumerations; \<open>monoid\<close> on the layers of a
  specification; \<open>record_store\<close> (a save is what is loaded next, other keys keep their record) on
  the tenant records, the sealed secrets and the token file.

  \<^bold>\<open>Parameters and their contracts.\<close> Code that is not in the repository is an argument of the
  definitions that use it. The host file system of the stores is a record of operations under
  \<open>hostfs_contract\<close> (every operation may fail, and one that fails leaves every file but the one it
  names); the cgroup file system is one under \<open>fs_contract\<close> and \<open>tree_contract\<close>; the \<open>nft\<close> program
  and the monotonic clock under \<open>nft_contract\<close> (every reading is its own, every command takes time,
  and the delay between the kernel and the next reading is a parameter); the kernel's Landlock calls under \<open>ll_contract\<close>; writing one entry of an
  archive is a function under \<open>unpack_contract\<close>. The JSON, SHA-256, hex,
  base64 and cipher crates are functions with the laws named where they are used (decoding
  inverts encoding, the digest is injective on the texts compared, a sealed text opens only under
  its associated data). Floating-point values are any linear order and their scalings are
  functions. Every such contract is met by a concrete instance in a witness.

  \<^bold>\<open>Concurrency.\<close> A section of code under one mutex is one step; what the code does outside it is a
  step of its own, so leaving a zygote is two steps, growing a pool is two, looking a function up
  is two, and reading and rewriting the token file is two. Properties of the gate, the pools,
  the registry and the launcher quantify over all interleavings of these steps; spurious
  wake-ups and time-outs are steps too.

  \<^bold>\<open>Bounds and fuel.\<close> Machine integers are words where the code computes with them (BPF words, ids,
  addresses, ports on the wire); counters and byte counts that are only compared and printed are
  naturals. The walks over a cgroup tree carry fuel, with \<open>None\<close> for running out; the height of
  the tree below the starting directory is enough, which is proved; so does the copy of a layer,
  for which the depth of the layer is enough. Following a path ends after forty links, as it does
  in Linux. The frame reader recurses on
  the events of the transport and needs none; other loops are structural or have a measure.

  \<^bold>\<open>Not modelled.\<close> The namespace backend itself (\<open>backend/ns/prepare.rs\<close>, \<open>enter.rs\<close>, \<open>child.rs\<close>) is a
  sequence of system calls whose effect is the kernel's; what it carries out is decided by the
  modelled parts. The gVisor and virtual machine backends write command lines. The
  registry client is HTTP and TLS by other crates, and so are the tar reader and the decompressors
  the image store uses; when a cached layer was last used is not recorded. Builds run external
  package managers. The protocol's message types are serde declarations. Of the warm pools
  only the placing and the deadline of a request are here; the wire of an agent, the host diagnosis, the command line and the in-sandbox
  shim are process, socket and terminal handling around what is modelled. What the kernel does to
  the processes in a frozen cgroup is not modelled either: the state says what was last written
  to the freezer. Text of diagnostics, logs
  and metrics is left out throughout.
\<close>

section \<open>The resolver and the filter together\<close>

text \<open>What is in the filter's sets at time \<open>t\<close>.\<close>

definition live_elements ::
  "('s \<Rightarrow> ip_addr \<times> nat option \<Rightarrow> nat option) \<Rightarrow> 's \<Rightarrow> nat \<Rightarrow> (ip_addr \<times> nat option) set" where
  "live_elements expires s t = {key. \<exists>e. expires s key = Some e \<and> t < e}"

text \<open>The loop over the addresses: an address, once admitted, is not touched again.\<close>

lemma admit_each_effect:
  assumes c: "nft_contract clock run time expires delay" and "distinct ports"
  shows "admitted_inv time expires delay st \<Longrightarrow> distinct addrs \<Longrightarrow>
    admit_each (admit clock run) ports addrs st = (good, (adm', s')) \<Longrightarrow>
    time (snd st) \<le> time s' \<and> (\<forall>key. fst key \<notin> set addrs \<longrightarrow> expires s' key = expires (snd st) key)
    \<and> admitted_inv time expires delay (adm', s')
    \<and> (\<forall>ip \<in> set good. \<forall>port \<in> set ports. lasting expires delay (time (snd st)) s' (ip, port))"
proof (induction addrs arbitrary: st good)
  case (Cons a addrs)
  obtain ok adm1 s1 where a: "admit clock run a ports st = (ok, (adm1, s1))"
    by (metis surj_pair)
  obtain good1 where g: "admit_each (admit clock run) ports addrs (adm1, s1) = (good1, (adm', s'))"
      "good = (if ok then a # good1 else good1)"
    using Cons.prems(3) a by (auto simp: split_beta Let_def prod_eq_iff)
  note one = admit_effect [OF c Cons.prems(1) a]
  have "distinct addrs" "a \<notin> set addrs" using Cons.prems(2) by simp_all
  note rest = Cons.IH [of "(adm1, s1)" good1, OF _ \<open>distinct addrs\<close> g(1)]
  have keep: "lasting expires delay (time (snd st)) s' (a, port)" if "ok" "port \<in> set ports" for port
    using that one rest assms(2) \<open>a \<notin> set addrs\<close> by (simp add: lasting_def)
  have later: "lasting expires delay (time (snd st)) s' (ip, port)" if "ip \<in> set good1" "port \<in> set ports" for ip port
    using that one rest by (fastforce simp: lasting_def)
  show ?case
    using one rest keep later g(2) by auto
qed simp

lemma lasting_is_live:
  "lasting expires delay start s key \<Longrightarrow> t + delay \<le> start + secs_nanos 480 \<Longrightarrow> key \<in> live_elements expires s t"
  by (auto simp: lasting_def live_elements_def)

lemma verdict_distinct: "distinct (verdict rules name)"
  using sorted_dedup [of "sort (map ar_port (filter (\<lambda>r. matches_host r name) rules))"]
  by (simp add: verdict_def strict_sorted_iff)

lemma usable_addrs_distinct: "distinct (usable_addrs resolve name)"
  using sorted_dedup [of "sort (filter (\<lambda>a. \<not> is_private_addr a) (resolve name))"]
  by (simp add: usable_addrs_def strict_sorted_iff)

text \<open>
  C3. By the time the sandbox can act on an address, the filter permits it: for a name the
  allowlist covers, every address in the reply of the resolver can be connected to under
  \<open>egress\<close> on every port the matching rules give, in the filter as the reply leaves it and until
  480 seconds after the query was taken up, less the delay between the kernel's taking an
  element and the reading of the clock once \<open>nft\<close> has returned. Every reading of the clock
  is its own, and every command takes time. The bookkeeping is left in order for the next query, also
  when an address could not be admitted.
\<close>

theorem answered_address_permitted:
  assumes "nft_contract clock run time expires delay" and "admitted_inv time expires delay st"
    and "\<exists>r \<in> set rules. matches_host r (q_name q)"
  shows "\<exists>addrs st'. answer q rules resolve (admit clock run) st = (response q NoError addrs, st')
     \<and> admitted_inv time expires delay st'
     \<and> (\<forall>ip \<in> set addrs. \<forall>port \<in> set (verdict rules (q_name q)). \<forall>k t.
          pk_dst k = ip \<and> port_matches k port \<and> \<not> pk_loopback k \<and> \<not> pk_established k
          \<and> \<not> pk_over_limit k \<and> t + delay \<le> time (snd st) + secs_nanos 480 \<longrightarrow>
          chain_verdict (live_elements expires (snd st') t) k (chain_rules Egress rules p n))"
proof (cases "q_qtype q \<noteq> TYPE_A \<and> q_qtype q \<noteq> TYPE_AAAA")
  case True
  moreover have "verdict rules (q_name q) \<noteq> []"
    using assms(3) by (auto simp: verdict_Nil)
  ultimately show ?thesis
    using assms(2) by (intro exI [of _ "[]"] exI [of _ st]) (simp add: answer_def)
next
  case False
  let ?ports = "verdict rules (q_name q)"
  let ?usable = "usable_addrs resolve (q_name q)"
  obtain addrs adm s where a: "admit_each (admit clock run) ?ports ?usable st = (addrs, (adm, s))"
    by (metis surj_pair)
  have "?ports \<noteq> []"
    using assms(3) by (auto simp: verdict_Nil)
  then have ans: "answer q rules resolve (admit clock run) st = (response q NoError addrs, (adm, s))"
    using False a by (auto simp: answer_def Let_def)
  note eff = admit_each_effect [OF assms(1) verdict_distinct assms(2) usable_addrs_distinct a]
  have "chain_verdict (live_elements expires s t) k (chain_rules Egress rules p n)"
    if "ip \<in> set addrs" "port \<in> set ?ports" "pk_dst k = ip" "port_matches k port"
      "\<not> pk_loopback k" "\<not> pk_established k" "\<not> pk_over_limit k"
      "t + delay \<le> time (snd st) + secs_nanos 480" for ip port k t
  proof -
    have "lasting expires delay (time (snd st)) s (ip, port)"
      using eff that(1,2) by blast
    then have "(ip, port) \<in> live_elements expires s t"
      by (rule lasting_is_live [OF _ that(8)])
    moreover have "\<not> is_private_addr ip"
      using admit_each_subset [of ip "admit clock run" ?ports ?usable st] a that(1)
        usable_addrs_set by fastforce
    ultimately show ?thesis
      using that chain_policy [of k "live_elements expires s t" Egress rules p n]
      by (auto simp: fresh_def accepted_below_def)
  qed
  then show ?thesis
    unfolding ans using eff by auto
qed

theorem answered_address_permitted_witness:
  "\<exists>addrs st'. answer \<lparr>q_id = 1, q_name = ''a.io'', q_qtype = TYPE_A, q_question = [], q_rd = True\<rparr>
       [\<lparr>ar_host = Exact ''a.io'', ar_port = Some 443\<rparr>] (\<lambda>_. [V4 0x08080808])
       (admit table_clock table_nft) (Map.empty, (50, Map.empty))
     = (response \<lparr>q_id = 1, q_name = ''a.io'', q_qtype = TYPE_A, q_question = [], q_rd = True\<rparr> NoError addrs, st')
     \<and> admitted_inv fst snd 2 st'"
proof -
  let ?q = "\<lparr>q_id = 1, q_name = ''a.io'', q_qtype = TYPE_A, q_question = [], q_rd = True\<rparr>"
  let ?rules = "[\<lparr>ar_host = Exact ''a.io'', ar_port = Some 443\<rparr>]"
  have "admitted_inv fst snd 2 (Map.empty, (50, Map.empty))"
    by (simp add: admitted_inv_def)
  moreover have "canonical_host ''a.io'' = ''a.io''"
    unfolding canonical_host_def trim_dots_def
    by (simp, rule to_ascii_lowercase_id, simp add: is_ascii_uppercase_def str_simps)
  then have "\<exists>r \<in> set ?rules. matches_host r (q_name ?q)"
    by (simp add: matches_host_def)
  ultimately show ?thesis
    using answered_address_permitted [OF table_contract, of "(Map.empty, (50, Map.empty))" ?rules ?q
        "\<lambda>_. [V4 0x08080808]" True 64] by blast
qed

end
